(* ===== verification/Supy_Prelude.thy ===== *)
theory Supy_Prelude
  imports Main "HOL-Library.AList" "HOL-Library.Multiset"
begin

text \<open>
  The prelude of the development: how Python's control flow, exceptions, dictionaries and
  index arithmetic are represented, with the lemmas every component shares.

  A Python function that may raise returns a value of \<open>'a res\<close>: \<open>Inl\<close> carries the exception
  class, \<open>Inr\<close> the result. A method that mutates its object and may raise half way returns an
  \<open>('s, 'a) act\<close>: a function from the state to the outcome \<^emph>\<open>and\<close> the state at that
  moment, so that the mutations done before the exception are kept, as Python keeps them.
\<close>

section \<open>Exceptions\<close>

datatype pyexn =
    IndexError | KeyError | ValueError | TypeError | AssertionError | ZeroDivisionError
  | AttributeError | UnboundLocalError | StopIteration | MalformedIrcMsg | DuplicateHostmask
  | EnvironmentError | RuntimeError | UnicodeError | StructError | SyntaxError
  | NoRecordError | DbError | CsvError | ArgumentError | CallbackError | GetoptError | OverflowError
  | NoReturn

type_synonym 'a res = "pyexn + 'a"

text \<open>\<open>NoReturn\<close> is not an exception: it is the outcome of a loop that runs for ever.\<close>

text \<open>The collections the component proofs are written with.\<close>

named_theorems res_simps "unfolding of the exception plumbing"
named_theorems wf_intros "preservation of well-formedness invariants"

fun bindR :: "'a res \<Rightarrow> ('a \<Rightarrow> 'b res) \<Rightarrow> 'b res" where
  "bindR (Inl e) f = Inl e"
| "bindR (Inr x) f = f x"

text \<open>\<open>assert b\<close> in front of the rest of a function.\<close>

definition py_assert :: "bool \<Rightarrow> 'a res \<Rightarrow> 'a res" where
  "py_assert b r = (if b then r else Inl AssertionError)"

text \<open>A \<open>for\<close> loop whose body may raise and updates an accumulator.\<close>

fun foldR :: "('a \<Rightarrow> 'b \<Rightarrow> 'b res) \<Rightarrow> 'a list \<Rightarrow> 'b \<Rightarrow> 'b res" where
  "foldR f [] s = Inr s"
| "foldR f (x # xs) s = bindR (f x s) (foldR f xs)"

text \<open>A list comprehension whose element expression may raise.\<close>

fun mapR :: "('a \<Rightarrow> 'b res) \<Rightarrow> 'a list \<Rightarrow> 'b list res" where
  "mapR f [] = Inr []"
| "mapR f (x # xs) = bindR (f x) (\<lambda>y. bindR (mapR f xs) (\<lambda>ys. Inr (y # ys)))"

lemma bindR_Inr_iff [simp]: "bindR m f = Inr y \<longleftrightarrow> (\<exists>x. m = Inr x \<and> f x = Inr y)"
  by (cases m) auto

lemma ok_resE:
  assumes "\<not> isl r"
  obtains x where "r = Inr x"
  using assms by (cases r) auto

lemma bindR_Inl_iff: "bindR m f = Inl e \<longleftrightarrow> m = Inl e \<or> (\<exists>x. m = Inr x \<and> f x = Inl e)"
  by (cases m) auto

lemma bindR_assoc [res_simps]: "bindR (bindR m f) g = bindR m (\<lambda>x. bindR (f x) g)"
  by (cases m) auto

lemma py_assert_simps [simp]:
  "py_assert True r = r" "py_assert False r = Inl AssertionError"
  by (simp_all add: py_assert_def)

lemma py_assert_Inr_iff [simp]: "py_assert b r = Inr x \<longleftrightarrow> b \<and> r = Inr x"
  by (simp add: py_assert_def)

lemma foldR_append: "foldR f (xs @ ys) s = bindR (foldR f xs s) (foldR f ys)"
proof (induction xs arbitrary: s)
  case (Cons x xs)
  then show ?case by (cases "f x s") auto
qed simp

lemma foldR_total:
  assumes "\<And>x s. f x s = Inr (g x s)"
  shows "foldR f xs s = Inr (fold g xs s)"
  by (induction xs arbitrary: s) (simp_all add: assms)

text \<open>An invariant of the body is an invariant of the loop.\<close>

lemma foldR_invariant:
  assumes "\<And>x s s'. x \<in> set xs \<Longrightarrow> P s \<Longrightarrow> f x s = Inr s' \<Longrightarrow> P s'"
    and "P s" and "foldR f xs s = Inr s'"
  shows "P s'"
  using assms
proof (induction xs arbitrary: s)
  case (Cons x xs)
  from Cons.prems(3) obtain t where t: "f x s = Inr t" and rest: "foldR f xs t = Inr s'"
    by auto
  from Cons.prems(1) [OF _ Cons.prems(2) t] have "P t" by simp
  moreover have "\<And>y u u'. y \<in> set xs \<Longrightarrow> P u \<Longrightarrow> f y u = Inr u' \<Longrightarrow> P u'"
    using Cons.prems(1) by auto
  ultimately show ?case using Cons.IH rest by blast
qed simp

lemma mapR_Inr_iff: "mapR f xs = Inr ys \<longleftrightarrow> list_all2 (\<lambda>x y. f x = Inr y) xs ys"
  by (induction xs arbitrary: ys) (auto simp: list_all2_Cons1)

lemma mapR_total:
  assumes "\<And>x. x \<in> set xs \<Longrightarrow> f x = Inr (g x)"
  shows "mapR f xs = Inr (map g xs)"
  using assms by (induction xs) simp_all

section \<open>Stateful methods\<close>

type_synonym ('s, 'a) act = "'s \<Rightarrow> 'a res \<times> 's"

definition retA :: "'a \<Rightarrow> ('s, 'a) act" where
  "retA x = (\<lambda>s. (Inr x, s))"

definition raiseA :: "pyexn \<Rightarrow> ('s, 'a) act" where
  "raiseA e = (\<lambda>s. (Inl e, s))"

definition bindA :: "('s, 'a) act \<Rightarrow> ('a \<Rightarrow> ('s, 'b) act) \<Rightarrow> ('s, 'b) act" where
  "bindA m f = (\<lambda>s. case m s of (Inl e, s') \<Rightarrow> (Inl e, s') | (Inr x, s') \<Rightarrow> f x s')"

definition seqA :: "('s, 'a) act \<Rightarrow> ('s, 'b) act \<Rightarrow> ('s, 'b) act" where
  "seqA m n = bindA m (\<lambda>_. n)"

definition getA :: "('s \<Rightarrow> 'a) \<Rightarrow> ('s, 'a) act" where
  "getA f = (\<lambda>s. (Inr (f s), s))"

definition modifyA :: "('s \<Rightarrow> 's) \<Rightarrow> ('s, unit) act" where
  "modifyA f = (\<lambda>s. (Inr (), f s))"

definition liftA :: "'a res \<Rightarrow> ('s, 'a) act" where
  "liftA r = (\<lambda>s. (r, s))"

definition assertA :: "bool \<Rightarrow> ('s, unit) act" where
  "assertA b = (if b then retA () else raiseA AssertionError)"

fun forA :: "('a \<Rightarrow> ('s, unit) act) \<Rightarrow> 'a list \<Rightarrow> ('s, unit) act" where
  "forA f [] = retA ()"
| "forA f (x # xs) = seqA (f x) (forA f xs)"

lemmas act_defs [res_simps] =
  retA_def raiseA_def bindA_def seqA_def getA_def modifyA_def liftA_def assertA_def

text \<open>
  An action keeps an invariant when it does so on every path, the paths that raise included.
\<close>

definition keepsA :: "('s \<Rightarrow> bool) \<Rightarrow> ('s, 'a) act \<Rightarrow> bool" where
  "keepsA P m \<longleftrightarrow> (\<forall>s. P s \<longrightarrow> P (snd (m s)))"

lemma keepsA_ret [wf_intros]: "keepsA P (retA x)"
  and keepsA_raise [wf_intros]: "keepsA P (raiseA e)"
  and keepsA_get [wf_intros]: "keepsA P (getA f)"
  and keepsA_lift [wf_intros]: "keepsA P (liftA r)"
  and keepsA_assert [wf_intros]: "keepsA P (assertA b)"
  by (simp_all add: keepsA_def act_defs)

lemma keepsA_bind [wf_intros]:
  "keepsA P m \<Longrightarrow> (\<And>x. keepsA P (f x)) \<Longrightarrow> keepsA P (bindA m f)"
proof (unfold keepsA_def, intro allI impI)
  fix s assume m: "\<forall>s. P s \<longrightarrow> P (snd (m s))" and f: "\<And>x. \<forall>s. P s \<longrightarrow> P (snd (f x s))" and "P s"
  obtain r s' where r: "m s = (r, s')" by (cases "m s") auto
  with m \<open>P s\<close> have "P s'" by fastforce
  with r f show "P (snd (bindA m f s))" by (cases r) (simp_all add: bindA_def)
qed

lemma keepsA_seq [wf_intros]: "keepsA P m \<Longrightarrow> keepsA P n \<Longrightarrow> keepsA P (seqA m n)"
  unfolding seqA_def by (rule keepsA_bind)

lemma keepsA_modify [wf_intros]: "(\<And>s. P s \<Longrightarrow> P (f s)) \<Longrightarrow> keepsA P (modifyA f)"
  by (simp add: keepsA_def modifyA_def)

lemma keepsA_if [wf_intros]:
  "(b \<Longrightarrow> keepsA P m) \<Longrightarrow> (\<not> b \<Longrightarrow> keepsA P n) \<Longrightarrow> keepsA P (if b then m else n)"
  by simp

lemma keepsA_for [wf_intros]: "(\<And>x. x \<in> set xs \<Longrightarrow> keepsA P (f x)) \<Longrightarrow> keepsA P (forA f xs)"
  by (induction xs) (auto intro: wf_intros)

text \<open>Running a sequence step by step.\<close>

lemma seqA_Inr: "seqA m n d = (Inr x, d') \<Longrightarrow> \<exists>y d1. m d = (Inr y, d1) \<and> n d1 = (Inr x, d')"
  by (auto simp: act_defs split: prod.splits sum.splits)

lemma seqA_after: "m d = (Inr y, d1) \<Longrightarrow> seqA m n d = n d1"
  and seqA_error: "m d = (Inl e, d1) \<Longrightarrow> seqA m n d = (Inl e, d1)"
  by (simp_all add: act_defs)

lemma keepsAD: "keepsA P m \<Longrightarrow> P d \<Longrightarrow> m d = (r, d') \<Longrightarrow> P d'"
  unfolding keepsA_def by (metis snd_conv)

lemma modifyA_eq: "modifyA f d = (r, d') \<longleftrightarrow> r = Inr () \<and> d' = f d"
  by (auto simp: modifyA_def)

lemma seqA_assoc: "seqA (seqA m n) k = seqA m (seqA n k)"
  by (rule ext) (simp add: act_defs split: prod.split sum.split)

lemma seqA_retA [simp]: "seqA (retA x) m = m"
  by (rule ext) (simp add: act_defs)

lemma forA_append: "forA f (xs @ ys) = seqA (forA f xs) (forA f ys)"
  by (induction xs) (simp_all add: seqA_assoc)

lemma forA_step: "f x d = (Inr (), d1) \<Longrightarrow> forA f (x # xs) d = forA f xs d1"
  and forA_Nil: "forA f [] d = (Inr (), d)"
  and forA_after: "forA f xs d = (Inr (), d1) \<Longrightarrow> forA f (xs @ ys) d = forA f ys d1"
  and forA_error: "f x d = (Inl e, d1) \<Longrightarrow> forA f (x # xs) d = (Inl e, d1)"
  unfolding forA_append by (simp_all add: act_defs)

section \<open>Dictionaries\<close>

text \<open>
  A Python dictionary is an association list with distinct keys; the order of the list is the
  order an iteration visits the entries in. Python 2 promises no order, and no theorem of the
  development assumes one: each holds for every list that represents the dictionary.
\<close>

type_synonym ('k, 'v) dict = "('k \<times> 'v) list"

definition dict_wf :: "('k, 'v) dict \<Rightarrow> bool" where
  "dict_wf d \<longleftrightarrow> distinct (map fst d)"

abbreviation dict_get :: "('k, 'v) dict \<Rightarrow> 'k \<Rightarrow> 'v option" where
  "dict_get \<equiv> map_of"

definition dict_item :: "('k, 'v) dict \<Rightarrow> 'k \<Rightarrow> 'v res" where
  "dict_item d k = (case map_of d k of None \<Rightarrow> Inl KeyError | Some v \<Rightarrow> Inr v)"

definition dict_has :: "('k, 'v) dict \<Rightarrow> 'k \<Rightarrow> bool" where
  "dict_has d k \<longleftrightarrow> map_of d k \<noteq> None"

abbreviation dict_set :: "'k \<Rightarrow> 'v \<Rightarrow> ('k, 'v) dict \<Rightarrow> ('k, 'v) dict" where
  "dict_set \<equiv> AList.update"

abbreviation dict_drop :: "'k \<Rightarrow> ('k, 'v) dict \<Rightarrow> ('k, 'v) dict" where
  "dict_drop \<equiv> AList.delete"

text \<open>\<open>del d[k]\<close>: a missing key raises.\<close>

definition dict_del :: "'k \<Rightarrow> ('k, 'v) dict \<Rightarrow> ('k, 'v) dict res" where
  "dict_del k d = (if dict_has d k then Inr (dict_drop k d) else Inl KeyError)"

lemma map_of_dict_set [simp]: "map_of (dict_set k v d) = (map_of d)(k \<mapsto> v)"
  by (rule ext) (simp add: update_conv)

lemma map_of_dict_drop [simp]: "map_of (dict_drop k d) = (map_of d)(k := None)"
  by (rule ext) (simp add: delete_conv)

lemma dict_has_iff: "dict_has d k \<longleftrightarrow> k \<in> fst ` set d"
  by (simp add: dict_has_def map_of_eq_None_iff)

lemma dict_wf_Nil [simp, wf_intros]: "dict_wf []"
  by (simp add: dict_wf_def)

lemma dict_wf_set [wf_intros]: "dict_wf d \<Longrightarrow> dict_wf (dict_set k v d)"
  by (simp add: dict_wf_def distinct_update)

lemma dict_wf_drop [wf_intros]: "dict_wf d \<Longrightarrow> dict_wf (dict_drop k d)"
  by (simp add: dict_wf_def distinct_delete)

lemma length_dict_set:
  "length (dict_set k v d) = (if k \<in> fst ` set d then length d else Suc (length d))"
  by (induction d) auto

lemma dict_set_new: "k \<notin> fst ` set d \<Longrightarrow> dict_set k v d = d @ [(k, v)]"
  by (induction d) auto

lemma set_dict_set: "p \<in> set (dict_set k v d) \<Longrightarrow> p = (k, v) \<or> p \<in> set d"
  by (induction d) (auto split: if_splits)

lemma set_dict_drop: "set (dict_drop k d) \<subseteq> set d"
  by (induction d) auto

section \<open>Index arithmetic\<close>

text \<open>
  \<open>slice.indices\<close> and \<open>xrange\<close>, as the containers use them: a slice is a triple of optional
  bounds; the step 0 raises.
\<close>

type_synonym slice = "int option \<times> int option \<times> int option"

definition clip_index :: "int \<Rightarrow> int \<Rightarrow> int \<Rightarrow> int \<Rightarrow> int" where
  "clip_index lo hi n i = (let j = (if i < 0 then i + n else i) in max lo (min hi j))"

definition slice_indices :: "slice \<Rightarrow> int \<Rightarrow> (int \<times> int \<times> int) res" where
  "slice_indices sl n = (case sl of (start, stop, step) \<Rightarrow>
     let st = (case step of None \<Rightarrow> 1 | Some k \<Rightarrow> k) in
     if st = 0 then Inl ValueError
     else if 0 < st then
       Inr (case start of None \<Rightarrow> 0 | Some i \<Rightarrow> clip_index 0 n n i,
            case stop of None \<Rightarrow> n | Some i \<Rightarrow> clip_index 0 n n i, st)
     else
       Inr (case start of None \<Rightarrow> n - 1 | Some i \<Rightarrow> clip_index (-1) (n - 1) n i,
            case stop of None \<Rightarrow> -1 | Some i \<Rightarrow> clip_index (-1) (n - 1) n i, st))"

definition xrange3 :: "int \<times> int \<times> int \<Rightarrow> int list" where
  "xrange3 r = (case r of (start, stop, step) \<Rightarrow>
     let count = (if 0 < step then (stop - start + step - 1) div step
                  else (start - stop - step - 1) div (- step))
     in map (\<lambda>k. start + int k * step) [0..<nat count])"

text \<open>Indexing a list as Python does: a negative index counts from the end.\<close>

definition list_index :: "'a list \<Rightarrow> int \<Rightarrow> nat res" where
  "list_index xs i =
     (let n = int (length xs); j = (if i < 0 then i + n else i)
      in if 0 \<le> j \<and> j < n then Inr (nat j) else Inl IndexError)"

definition list_item :: "'a list \<Rightarrow> int \<Rightarrow> 'a res" where
  "list_item xs i = bindR (list_index xs i) (\<lambda>j. Inr (xs ! j))"

definition list_store :: "'a list \<Rightarrow> int \<Rightarrow> 'a \<Rightarrow> 'a list res" where
  "list_store xs i x = bindR (list_index xs i) (\<lambda>j. Inr (xs[j := x]))"

definition list_remove_at :: "'a list \<Rightarrow> int \<Rightarrow> 'a list res" where
  "list_remove_at xs i = bindR (list_index xs i) (\<lambda>j. Inr (take j xs @ drop (Suc j) xs))"

lemma list_index_Inr_iff:
  "list_index xs i = Inr j \<longleftrightarrow>
     j < length xs \<and> (i = int j \<or> i = int j - int (length xs))"
  by (auto simp: list_index_def Let_def split: if_splits)

lemma list_index_nat [simp]: "j < length xs \<Longrightarrow> list_index xs (int j) = Inr j"
  by (simp add: list_index_Inr_iff)

lemma list_item_nat [simp]: "j < length xs \<Longrightarrow> list_item xs (int j) = Inr (xs ! j)"
  by (simp add: list_item_def)

text \<open>\<open>divmod(i, n)\<close> accepts the indices from \<open>-n\<close> to \<open>n - 1\<close>.\<close>

lemma divmod_in_range:
  assumes "j < n"
  shows "int j div int n = 0" "int j mod int n = int j"
    "(int j - int n) div int n = -1" "(int j - int n) mod int n = int j"
proof -
  show "int j div int n = 0" "int j mod int n = int j" using assms by simp_all
  have "int j - int n = -1 * int n + int j" by simp
  moreover have "(-1 * int n + int j) div int n = -1" using assms by (subst div_mult_self3) simp_all
  ultimately show "(int j - int n) div int n = -1" by simp
  show "(int j - int n) mod int n = int j" using assms by simp
qed

lemma divmod_out_of_range:
  fixes i n :: int
  assumes "0 < n"
  shows "i div n \<noteq> 0 \<and> i div n \<noteq> -1 \<longleftrightarrow> i < - n \<or> n \<le> i"
proof -
  have i: "i = n * (i div n) + i mod n" and m: "0 \<le> i mod n" "i mod n < n" using assms by simp_all
  show ?thesis
  proof
    assume "i div n \<noteq> 0 \<and> i div n \<noteq> -1"
    then consider "1 \<le> i div n" | "i div n \<le> -2" by linarith
    then show "i < - n \<or> n \<le> i"
    proof cases
      case 1
      with assms have "n * 1 \<le> n * (i div n)" by (intro mult_left_mono) auto
      with i m show ?thesis by linarith
    next
      case 2
      with assms have "n * (i div n) \<le> n * -2" by (intro mult_left_mono) auto
      with i m show ?thesis by linarith
    qed
  next
    assume out: "i < - n \<or> n \<le> i"
    show "i div n \<noteq> 0 \<and> i div n \<noteq> -1"
    proof (rule ccontr)
      assume "\<not> (i div n \<noteq> 0 \<and> i div n \<noteq> -1)"
      then consider "i div n = 0" | "i div n = -1" by blast
      then have "i = i mod n \<or> i = - n + i mod n"
        using i by cases (metis mult_zero_right add_0, metis mult_minus1_right)
      with out m show False by linarith
    qed
  qed
qed

text \<open>The last \<open>n\<close> elements of a list, the content of a bounded history.\<close>

definition lastn :: "nat \<Rightarrow> 'a list \<Rightarrow> 'a list" where
  "lastn n xs = drop (length xs - n) xs"

lemma length_lastn [simp]: "length (lastn n xs) = min n (length xs)"
  by (simp add: lastn_def)

lemma lastn_all [simp]: "length xs \<le> n \<Longrightarrow> lastn n xs = xs"
  by (simp add: lastn_def)

lemma lastn_snoc_lastn: "lastn n (lastn n xs @ [x]) = lastn n (xs @ [x])"
proof (cases "n \<le> length xs")
  case True
  then show ?thesis by (cases n) (auto simp: lastn_def Suc_diff_Suc Suc_le_eq)
next
  case False
  then show ?thesis by simp
qed

lemma lastn_append_lastn [simp]: "lastn n (lastn n xs @ ys) = lastn n (xs @ ys)"
proof (induction ys rule: rev_induct)
  case Nil
  then show ?case by (simp add: lastn_def)
next
  case (snoc y ys)
  then show ?case by (metis append.assoc lastn_snoc_lastn)
qed

lemma lastn_snoc_full:
  "0 < n \<Longrightarrow> length xs = n \<Longrightarrow> lastn n (xs @ [x]) = tl xs @ [x]"
  by (cases xs) (simp_all add: lastn_def)

lemma foldl_lastn:
  assumes "\<And>xs x. f xs x = lastn n (xs @ [x])"
  shows "foldl f (lastn n ys) zs = lastn n (ys @ zs)"
proof (induction zs arbitrary: ys)
  case (Cons z zs)
  have "foldl f (lastn n ys) (z # zs) = foldl f (lastn n (ys @ [z])) zs"
    by (simp add: assms lastn_snoc_lastn)
  with Cons.IH [of "ys @ [z]"] show ?case by simp
qed simp

end
