(* ===== verification/PyString.thy ===== *)
theory PyString
  imports Supy_Prelude
begin

text \<open>
  Python 2 byte strings as \<open>string\<close> (a list of 8-bit characters) and the methods of \<open>str\<close> the
  program calls: \<open>split\<close>, \<open>join\<close>, \<open>strip\<close>, \<open>lower\<close>, \<open>find\<close>, \<open>replace\<close>, \<open>startswith\<close>, \<open>int\<close>,
  \<open>str\<close>.  This is the standard library, so nothing here has an entry in the map of the sources;
  the lemmas are the split/join and parse/print laws the components use.
\<close>

section \<open>Characters\<close>

abbreviation ord :: "char \<Rightarrow> nat" where
  "ord c \<equiv> of_char c"

definition is_space :: "char \<Rightarrow> bool" where
  "is_space c \<longleftrightarrow> c = CHR '' '' \<or> c = CHR 0x09 \<or> c = CHR 0x0A \<or> c = CHR 0x0B
     \<or> c = CHR 0x0C \<or> c = CHR 0x0D"

definition is_upper :: "char \<Rightarrow> bool" where
  "is_upper c \<longleftrightarrow> 65 \<le> ord c \<and> ord c \<le> 90"

definition is_lower :: "char \<Rightarrow> bool" where
  "is_lower c \<longleftrightarrow> 97 \<le> ord c \<and> ord c \<le> 122"

definition is_alpha :: "char \<Rightarrow> bool" where
  "is_alpha c \<longleftrightarrow> is_upper c \<or> is_lower c"

definition is_digit :: "char \<Rightarrow> bool" where
  "is_digit c \<longleftrightarrow> 48 \<le> ord c \<and> ord c \<le> 57"

definition lower_char :: "char \<Rightarrow> char" where
  "lower_char c = (if is_upper c then char_of (ord c + 32) else c)"

definition upper_char :: "char \<Rightarrow> char" where
  "upper_char c = (if is_lower c then char_of (ord c - 32) else c)"

definition py_lower :: "string \<Rightarrow> string" where
  "py_lower s = map lower_char s"

definition py_upper :: "string \<Rightarrow> string" where
  "py_upper s = map upper_char s"

lemma ord_char_of [simp]: "n < 256 \<Longrightarrow> ord (char_of n) = n"
  by simp

lemma ord_eq_iff: "c = d \<longleftrightarrow> ord c = ord d"
  by simp

lemma ord_lower_char: "ord (lower_char c) = (if is_upper c then ord c + 32 else ord c)"
  by (simp add: lower_char_def is_upper_def)

lemma lower_char_not_upper [simp]: "\<not> is_upper (lower_char c)"
  by (simp add: is_upper_def ord_lower_char)

lemma lower_char_idem [simp]: "lower_char (lower_char c) = lower_char c"
  by (simp add: lower_char_def [of "lower_char c"])

lemma py_lower_idem [simp]: "py_lower (py_lower s) = py_lower s"
  by (simp add: py_lower_def)

lemma py_lower_append [simp]: "py_lower (s @ t) = py_lower s @ py_lower t"
  by (simp add: py_lower_def)

lemma is_space_lower_char [simp]: "is_space (lower_char c) = is_space c"
  by (auto simp: is_space_def ord_eq_iff ord_lower_char is_upper_def split: if_splits)

section \<open>Prefixes, suffixes, search\<close>

definition startswith :: "string \<Rightarrow> string \<Rightarrow> bool" where
  "startswith s p \<longleftrightarrow> take (length p) s = p"

definition endswith :: "string \<Rightarrow> string \<Rightarrow> bool" where
  "endswith s p \<longleftrightarrow> length p \<le> length s \<and> drop (length s - length p) s = p"

lemma startswith_append [simp]: "startswith (p @ s) p"
  by (simp add: startswith_def)

lemma endswith_append [simp]: "endswith (s @ p) p"
  by (simp add: endswith_def)

lemma startswith_iff: "startswith s p \<longleftrightarrow> (\<exists>r. s = p @ r)"
  by (auto simp: startswith_def) (metis append_take_drop_id)

text \<open>\<open>s.find(c)\<close> for a single character: the first position, or -1.\<close>

fun find_char :: "char \<Rightarrow> string \<Rightarrow> int" where
  "find_char c [] = -1"
| "find_char c (x # xs) = (if x = c then 0 else let r = find_char c xs in if r < 0 then -1 else r + 1)"

lemma find_char_absent [simp]: "c \<notin> set s \<Longrightarrow> find_char c s = -1"
  by (induction s) auto

lemma find_char_ge: "-1 \<le> find_char c s"
  by (induction s) (auto simp: Let_def)

lemma find_char_first: "c \<notin> set p \<Longrightarrow> find_char c (p @ c # r) = int (length p)"
  by (induction p) (auto simp: Let_def)

lemma find_char_nonneg_iff: "0 \<le> find_char c s \<longleftrightarrow> c \<in> set s"
  by (induction s) (auto simp: Let_def)

text \<open>\<open>s.split(c, 1)\<close> for a single character: at most two pieces.\<close>

fun split_char1 :: "char \<Rightarrow> string \<Rightarrow> string \<times> string option" where
  "split_char1 c [] = ([], None)"
| "split_char1 c (x # xs) =
     (if x = c then ([], Some xs) else (case split_char1 c xs of (p, r) \<Rightarrow> (x # p, r)))"

text \<open>\<open>s.split(c)\<close> for a single character.\<close>

fun split_char :: "char \<Rightarrow> string \<Rightarrow> string list" where
  "split_char c [] = [[]]"
| "split_char c (x # xs) =
     (if x = c then [] # split_char c xs
      else (case split_char c xs of [] \<Rightarrow> [[x]] | p # ps \<Rightarrow> (x # p) # ps))"

lemma split_char_nonempty [simp]: "split_char c s \<noteq> []"
  by (cases s) (auto split: list.splits)

lemma split_char1_absent [simp]: "c \<notin> set s \<Longrightarrow> split_char1 c s = (s, None)"
  by (induction s) auto

lemma split_char1_first [simp]: "c \<notin> set p \<Longrightarrow> split_char1 c (p @ c # r) = (p, Some r)"
  by (induction p) auto

lemma split_char1_Some:
  "split_char1 c s = (p, Some r) \<longleftrightarrow> c \<notin> set p \<and> s = p @ c # r"
proof
  show "split_char1 c s = (p, Some r) \<Longrightarrow> c \<notin> set p \<and> s = p @ c # r"
    by (induction s arbitrary: p) (auto split: if_splits prod.splits)
qed simp

lemma split_char1_None: "split_char1 c s = (p, None) \<longleftrightarrow> c \<notin> set s \<and> s = p"
proof
  show "split_char1 c s = (p, None) \<Longrightarrow> c \<notin> set s \<and> s = p"
    by (induction s arbitrary: p) (auto split: if_splits prod.splits)
qed auto

lemma split_char_absent [simp]: "c \<notin> set s \<Longrightarrow> split_char c s = [s]"
  by (induction s) auto

lemma split_char_first [simp]: "c \<notin> set p \<Longrightarrow> split_char c (p @ c # r) = p # split_char c r"
  by (induction p) (auto split: list.splits)

text \<open>\<open>c.join(L)\<close> for a one-character separator.\<close>

fun join_char :: "char \<Rightarrow> string list \<Rightarrow> string" where
  "join_char c [] = []"
| "join_char c [x] = x"
| "join_char c (x # y # ys) = x @ c # join_char c (y # ys)"

lemma split_join_char:
  "xs \<noteq> [] \<Longrightarrow> \<forall>x \<in> set xs. c \<notin> set x \<Longrightarrow> split_char c (join_char c xs) = xs"
  by (induction c xs rule: join_char.induct) auto

lemma join_split_char [simp]: "join_char c (split_char c s) = s"
proof (induction s)
  case (Cons x xs)
  then show ?case by (cases "split_char c xs"; cases "tl (split_char c xs)") auto
qed simp

lemma split_char_pieces: "p \<in> set (split_char c s) \<Longrightarrow> c \<notin> set p"
  by (induction s arbitrary: p) (auto split: if_splits list.splits)

text \<open>\<open>s.split(sep, 1)\<close> for a separator of any positive length.\<close>

fun split_sub1 :: "string \<Rightarrow> string \<Rightarrow> string \<times> string option" where
  "split_sub1 sep [] = ([], None)"
| "split_sub1 sep (x # xs) =
     (if startswith (x # xs) sep then ([], Some (drop (length sep) (x # xs)))
      else (case split_sub1 sep xs of (p, r) \<Rightarrow> (x # p, r)))"

definition has_sub :: "string \<Rightarrow> string \<Rightarrow> bool" where
  "has_sub sep s \<longleftrightarrow> snd (split_sub1 sep s) \<noteq> None"

section \<open>Whitespace\<close>

definition skip_ws :: "string \<Rightarrow> string" where
  "skip_ws s = dropWhile is_space s"

text \<open>\<open>s.split()\<close>.\<close>

function split_ws :: "string \<Rightarrow> string list" where
  "split_ws s =
     (let t = skip_ws s in
      if t = [] then [] else takeWhile (\<lambda>c. \<not> is_space c) t # split_ws (dropWhile (\<lambda>c. \<not> is_space c) t))"
  by pat_completeness auto
termination
proof (relation "measure length", goal_cases)
  case (2 s t)
  then obtain x xs where t: "t = x # xs" by (auto simp: neq_Nil_conv)
  have "t = dropWhile is_space s" using 2 by (simp add: skip_ws_def)
  then have "\<not> is_space x" using t by (metis dropWhile_eq_Cons_conv)
  moreover have "length (dropWhile (\<lambda>c. \<not> is_space c) xs) \<le> length xs" by (rule length_dropWhile_le)
  moreover have "length t \<le> length s" using \<open>t = dropWhile is_space s\<close> by (simp add: length_dropWhile_le)
  ultimately show ?case using t by simp
qed simp

declare split_ws.simps [simp del]

text \<open>\<open>s.split(None, 1)\<close>: the second piece keeps its trailing whitespace.\<close>

definition split_ws1 :: "string \<Rightarrow> string list" where
  "split_ws1 s =
     (let t = skip_ws s; w = takeWhile (\<lambda>c. \<not> is_space c) t; r = skip_ws (dropWhile (\<lambda>c. \<not> is_space c) t)
      in if t = [] then [] else if r = [] then [w] else [w, r])"

definition lstrip_in :: "string \<Rightarrow> string \<Rightarrow> string" where
  "lstrip_in chars s = dropWhile (\<lambda>c. c \<in> set chars) s"

definition rstrip_in :: "string \<Rightarrow> string \<Rightarrow> string" where
  "rstrip_in chars s = rev (dropWhile (\<lambda>c. c \<in> set chars) (rev s))"

definition strip_ws :: "string \<Rightarrow> string" where
  "strip_ws s = rev (skip_ws (rev (skip_ws s)))"

abbreviation no_space :: "string \<Rightarrow> bool" where
  "no_space s \<equiv> (\<forall>c \<in> set s. \<not> is_space c)"

lemma skip_ws_no_space [simp]: "s \<noteq> [] \<Longrightarrow> \<not> is_space (hd s) \<Longrightarrow> skip_ws (s @ t) = s @ t"
  by (cases s) (auto simp: skip_ws_def)

lemma skip_ws_Nil [simp]: "skip_ws [] = []"
  by (simp add: skip_ws_def)

lemma skip_ws_Cons [simp]: "skip_ws (c # s) = (if is_space c then skip_ws s else c # s)"
  by (simp add: skip_ws_def)

lemma skip_ws_eq_Nil_iff: "skip_ws s = [] \<longleftrightarrow> (\<forall>c \<in> set s. is_space c)"
  by (simp add: skip_ws_def)

lemma split_ws_blank [simp]: "\<forall>c \<in> set s. is_space c \<Longrightarrow> split_ws s = []"
  by (subst split_ws.simps) (simp add: skip_ws_eq_Nil_iff [THEN iffD2])

lemma takeWhile_word: "no_space w \<Longrightarrow> takeWhile (\<lambda>c. \<not> is_space c) (w @ c # r)
    = (if is_space c then w else w @ takeWhile (\<lambda>c. \<not> is_space c) (c # r))"
  by (simp add: takeWhile_append2)

lemma split_ws_word:
  assumes "w \<noteq> []" "no_space w"
  shows "split_ws w = [w]" and "is_space c \<Longrightarrow> split_ws (w @ c # r) = w # split_ws r"
proof -
  have w: "skip_ws (w @ t) = w @ t" for t
    using assms by (cases w) auto
  show "split_ws w = [w]"
    using w [of "[]"] assms by (subst split_ws.simps) (simp add: takeWhile_eq_all_conv dropWhile_eq_Nil_conv [THEN iffD2])
  assume c: "is_space c"
  have "split_ws (w @ c # r) = w # split_ws (c # r)"
    using w [of "c # r"] assms c
    by (subst split_ws.simps) (simp add: takeWhile_word dropWhile_append2)
  also have "split_ws (c # r) = split_ws r"
    using c by (subst (1 2) split_ws.simps) simp
  finally show "split_ws (w @ c # r) = w # split_ws r" .
qed

lemma split_ws_join:
  "\<forall>x \<in> set xs. x \<noteq> [] \<and> no_space x \<Longrightarrow> split_ws (join_char CHR '' '' xs) = xs"
  by (induction "CHR '' ''" xs rule: join_char.induct)
    (auto simp: split_ws_word is_space_def [of "CHR '' ''"])

lemma split_ws1_word:
  assumes "w \<noteq> []" "no_space w"
  shows "split_ws1 w = [w]"
    and "is_space c \<Longrightarrow> r \<noteq> [] \<Longrightarrow> \<not> is_space (hd r) \<Longrightarrow> split_ws1 (w @ c # r) = [w, r]"
proof -
  have w: "skip_ws (w @ t) = w @ t" for t
    using assms by (cases w) auto
  show "split_ws1 w = [w]"
    using w [of "[]"] assms
    by (simp add: split_ws1_def takeWhile_eq_all_conv [THEN iffD2] dropWhile_eq_Nil_conv [THEN iffD2])
  assume "is_space c" "r \<noteq> []" "\<not> is_space (hd r)"
  then show "split_ws1 (w @ c # r) = [w, r]"
    using w [of "c # r"] assms skip_ws_no_space [of r "[]"]
    by (simp add: split_ws1_def Let_def takeWhile_word dropWhile_append2)
qed

lemma split_ws1_length: "length (split_ws1 s) \<le> 2"
  by (simp add: split_ws1_def Let_def)

section \<open>Integers in decimal\<close>

text \<open>\<open>str(n)\<close>.\<close>

fun digits_of :: "nat \<Rightarrow> string" where
  "digits_of n = (if n < 10 then [char_of (48 + n)] else digits_of (n div 10) @ [char_of (48 + n mod 10)])"

declare digits_of.simps [simp del]

definition str_of_nat :: "nat \<Rightarrow> string" where
  "str_of_nat n = digits_of n"

definition str_of_int :: "int \<Rightarrow> string" where
  "str_of_int i = (if i < 0 then CHR ''-'' # str_of_nat (nat (- i)) else str_of_nat (nat i))"

text \<open>\<open>int(s)\<close>: surrounding whitespace, an optional sign, decimal digits; anything else raises.\<close>

definition digit_val :: "char \<Rightarrow> nat" where
  "digit_val c = ord c - 48"

definition nat_of_digits :: "string \<Rightarrow> nat" where
  "nat_of_digits s = foldl (\<lambda>n c. 10 * n + digit_val c) 0 s"

definition int_of_str :: "string \<Rightarrow> int res" where
  "int_of_str s =
     (let t = strip_ws s;
          neg = (t \<noteq> [] \<and> hd t = CHR ''-'');
          ds = (if t \<noteq> [] \<and> (hd t = CHR ''-'' \<or> hd t = CHR ''+'') then tl t else t)
      in if ds \<noteq> [] \<and> (\<forall>c \<in> set ds. is_digit c)
         then Inr (if neg then - int (nat_of_digits ds) else int (nat_of_digits ds))
         else Inl ValueError)"

lemma digits_of_nonempty [simp]: "digits_of n \<noteq> []"
  by (subst digits_of.simps) simp

lemma digits_of_digit: "c \<in> set (digits_of n) \<Longrightarrow> is_digit c"
proof (induction n rule: digits_of.induct)
  case (1 n)
  show ?case
  proof (cases "n < 10")
    case True
    with "1.prems" show ?thesis by (simp add: digits_of.simps [of n] is_digit_def)
  next
    case False
    from "1.prems" False consider "c \<in> set (digits_of (n div 10))" | "c = char_of (48 + n mod 10)"
      by (auto simp: digits_of.simps [of n])
    then show ?thesis
    proof cases
      case 1 with "1.IH" False show ?thesis by simp
    next
      case 2 then show ?thesis by (simp add: is_digit_def)
    qed
  qed
qed

lemma nat_of_digits_snoc: "nat_of_digits (s @ [c]) = 10 * nat_of_digits s + digit_val c"
  by (simp add: nat_of_digits_def)

lemma digit_val_char_of [simp]: "k < 10 \<Longrightarrow> digit_val (char_of (48 + k)) = k"
  by (simp add: digit_val_def)

lemma nat_of_digits_of [simp]: "nat_of_digits (digits_of n) = n"
proof (induction n rule: digits_of.induct)
  case (1 n)
  show ?case
  proof (cases "n < 10")
    case True
    then show ?thesis
      using digit_val_char_of [of n] by (simp add: digits_of.simps [of n] nat_of_digits_def del: digit_val_char_of)
  next
    case False
    with "1.IH" have "nat_of_digits (digits_of n) = 10 * (n div 10) + n mod 10"
      by (simp add: digits_of.simps [of n] nat_of_digits_snoc del: of_char_of)
    then show ?thesis by simp
  qed
qed

lemma digit_not_space: "is_digit c \<Longrightarrow> \<not> is_space c"
  by (auto simp: is_digit_def is_space_def)

lemma digit_not_sign: "is_digit c \<Longrightarrow> c \<noteq> CHR ''-'' \<and> c \<noteq> CHR ''+''"
  by (auto simp: is_digit_def)

lemma strip_ws_no_space: "no_space s \<Longrightarrow> strip_ws s = s"
proof -
  assume s: "no_space s"
  then have "skip_ws s = s" by (cases s) auto
  moreover have "skip_ws (rev s) = rev s" proof -
    have "no_space (rev s)" using s by simp
    then show ?thesis by (cases "rev s") (auto simp del: set_rev)
  qed
  ultimately show ?thesis by (simp add: strip_ws_def)
qed

lemma int_of_str_of_int [simp]: "int_of_str (str_of_int i) = Inr i"
proof -
  let ?d = "digits_of (nat \<bar>i\<bar>)"
  have d: "\<forall>c \<in> set ?d. is_digit c" using digits_of_digit by blast
  have hd: "hd ?d \<noteq> CHR ''-'' \<and> hd ?d \<noteq> CHR ''+''"
    using d digit_not_sign hd_in_set [OF digits_of_nonempty] by blast
  have "no_space (str_of_int i)"
    using d digit_not_space by (auto simp: str_of_int_def str_of_nat_def is_space_def [of "CHR ''-''"])
  then have "strip_ws (str_of_int i) = str_of_int i" by (rule strip_ws_no_space)
  with d hd show ?thesis
    by (auto simp: int_of_str_def str_of_int_def str_of_nat_def Let_def)
qed

lemma no_space_str_of_nat: "no_space (str_of_nat n)"
  using digits_of_digit digit_not_space by (auto simp: str_of_nat_def)

text \<open>\<open>str(b)\<close>.\<close>

definition py_bool :: "bool \<Rightarrow> string" where
  "py_bool b = (if b then ''True'' else ''False'')"

text \<open>\<open>s.zfill(n)\<close> for a string without a sign.\<close>

definition zfill :: "nat \<Rightarrow> string \<Rightarrow> string" where
  "zfill n s = replicate (n - length s) CHR ''0'' @ s"

text \<open>\<open>s.replace(c, r)\<close> for a single character \<open>c\<close>.\<close>

definition replace_char :: "char \<Rightarrow> string \<Rightarrow> string \<Rightarrow> string" where
  "replace_char c r s = concat (map (\<lambda>x. if x = c then r else [x]) s)"

lemma replace_char_empty: "replace_char c [] s = filter (\<lambda>x. x \<noteq> c) s"
  by (induction s) (simp_all add: replace_char_def)

end
