(* ===== verification/Structures.thy ===== *)
theory Structures
  imports Supy_Prelude
begin

text \<open>
  \<open>utils/structures.py\<close>: the containers of the program.  \<open>RingBuffer\<close> (the message history),
  \<open>queue\<close> (two stacks), \<open>smallqueue\<close> (a list), \<open>MaxLengthQueue\<close>, \<open>TwoWayDictionary\<close>,
  \<open>MultiSet\<close> and \<open>CacheDict\<close>; \<open>TimeoutQueue\<close> is in the theory \<open>TimeoutQueues\<close>.
  Each has its operations as the class has them, an abstraction to a list, map or
  multiset, and the laws of the operations on the abstraction; \<open>queue\<close> and \<open>smallqueue\<close> both
  provide the locale \<open>fifo\<close>, the interface the rest of the program uses a queue through.
\<close>

section \<open>RingBuffer\<close>

record 'a RingBuffer =
  rb_L :: "'a list"
  rb_i :: nat
  rb_full :: bool
  rb_maxSize :: int

definition RingBuffer_reset :: "'a RingBuffer \<Rightarrow> 'a RingBuffer" where
  "RingBuffer_reset rb = rb\<lparr>rb_full := False, rb_L := [], rb_i := 0\<rparr>"

text \<open>The branch of \<open>append\<close> taken when the buffer is full: overwrite the oldest element.\<close>

definition RingBuffer_overwrite :: "'a RingBuffer \<Rightarrow> 'a \<Rightarrow> 'a RingBuffer res" where
  "RingBuffer_overwrite rb elt =
     bindR (list_store (rb_L rb) (int (rb_i rb)) elt) (\<lambda>L.
       Inr (rb\<lparr>rb_L := L, rb_i := (rb_i rb + 1) mod length L\<rparr>))"

definition RingBuffer_append :: "'a RingBuffer \<Rightarrow> 'a \<Rightarrow> 'a RingBuffer res" where
  "RingBuffer_append rb elt =
     (if rb_full rb then RingBuffer_overwrite rb elt
      else if int (length (rb_L rb)) = rb_maxSize rb
        then RingBuffer_overwrite (rb\<lparr>rb_full := True\<rparr>) elt
      else Inr (rb\<lparr>rb_L := rb_L rb @ [elt]\<rparr>))"

definition RingBuffer_extend :: "'a RingBuffer \<Rightarrow> 'a list \<Rightarrow> 'a RingBuffer res" where
  "RingBuffer_extend rb seq = foldR (\<lambda>elt rb. RingBuffer_append rb elt) seq rb"

definition RingBuffer_new :: "int \<Rightarrow> 'a list \<Rightarrow> 'a RingBuffer res" where
  "RingBuffer_new maxSize seq =
     (if maxSize \<le> 0 then Inl ValueError
      else foldR (\<lambda>elt rb. RingBuffer_append rb elt) seq
        (RingBuffer_reset \<lparr>rb_L = [], rb_i = 0, rb_full = False, rb_maxSize = maxSize\<rparr>))"

definition RingBuffer_len :: "'a RingBuffer \<Rightarrow> nat" where
  "RingBuffer_len rb = length (rb_L rb)"

definition RingBuffer_nonzero :: "'a RingBuffer \<Rightarrow> bool" where
  "RingBuffer_nonzero rb \<longleftrightarrow> RingBuffer_len rb > 0"

definition RingBuffer_contains :: "'a RingBuffer \<Rightarrow> 'a \<Rightarrow> bool" where
  "RingBuffer_contains rb elt \<longleftrightarrow> elt \<in> set (rb_L rb)"

text \<open>
  \<open>(m, idx) = divmod(oidx, len(self.L)); if m and m != -1: raise IndexError; idx = (idx + self.i) % len\<close>.
\<close>

definition RingBuffer_slot :: "'a RingBuffer \<Rightarrow> int \<Rightarrow> nat res" where
  "RingBuffer_slot rb oidx =
     (if rb_full rb then
        (let n = int (length (rb_L rb)) in
         if n = 0 then Inl ZeroDivisionError
         else if oidx div n \<noteq> 0 \<and> oidx div n \<noteq> -1 then Inl IndexError
         else list_index (rb_L rb) ((oidx mod n + int (rb_i rb)) mod n))
      else list_index (rb_L rb) oidx)"

definition RingBuffer_getitem :: "'a RingBuffer \<Rightarrow> int \<Rightarrow> 'a res" where
  "RingBuffer_getitem rb idx = bindR (RingBuffer_slot rb idx) (\<lambda>j. Inr (rb_L rb ! j))"

definition RingBuffer_getslice :: "'a RingBuffer \<Rightarrow> slice \<Rightarrow> 'a list res" where
  "RingBuffer_getslice rb sl =
     bindR (slice_indices sl (int (RingBuffer_len rb))) (\<lambda>r.
       mapR (RingBuffer_getitem rb) (xrange3 r))"

definition RingBuffer_setitem :: "'a RingBuffer \<Rightarrow> int \<Rightarrow> 'a \<Rightarrow> 'a RingBuffer res" where
  "RingBuffer_setitem rb idx elt =
     bindR (RingBuffer_slot rb idx) (\<lambda>j. Inr (rb\<lparr>rb_L := (rb_L rb)[j := elt]\<rparr>))"

definition RingBuffer_setslice :: "'a RingBuffer \<Rightarrow> slice \<Rightarrow> 'a list \<Rightarrow> 'a RingBuffer res" where
  "RingBuffer_setslice rb sl elts =
     bindR (slice_indices sl (int (RingBuffer_len rb))) (\<lambda>r.
       if length (xrange3 r) \<noteq> length elts then Inl ValueError
       else foldR (\<lambda>(i, x) rb. RingBuffer_setitem rb i x) (zip (xrange3 r) elts) rb)"

text \<open>
  \<open>list(self)\<close>: the class has no \<open>__iter__\<close>, so Python calls \<open>__getitem__\<close> with 0, 1, ... until it
  raises \<open>IndexError\<close>; on a full buffer without elements the first call divides by zero.
\<close>

definition RingBuffer_list :: "'a RingBuffer \<Rightarrow> 'a list res" where
  "RingBuffer_list rb =
     (if rb_full rb \<and> rb_L rb = [] then Inl ZeroDivisionError
      else mapR (\<lambda>k. RingBuffer_getitem rb (int k)) [0..<length (rb_L rb)])"

definition RingBuffer_resize :: "'a RingBuffer \<Rightarrow> int \<Rightarrow> 'a RingBuffer res" where
  "RingBuffer_resize rb i =
     (if rb_full rb then
        bindR (RingBuffer_list rb) (\<lambda>L. Inr ((RingBuffer_reset rb)\<lparr>rb_L := L, rb_maxSize := i\<rparr>))
      else Inr (rb\<lparr>rb_maxSize := i\<rparr>))"

definition RingBuffer_eq :: "'a RingBuffer \<Rightarrow> 'a RingBuffer \<Rightarrow> bool res" where
  "RingBuffer_eq a b =
     (if rb_maxSize a = rb_maxSize b \<and> RingBuffer_len a = RingBuffer_len b then
        bindR (RingBuffer_list a) (\<lambda>xs. bindR (RingBuffer_list b) (\<lambda>ys. Inr (list_all2 (=) xs ys)))
      else Inr False)"

definition RingBuffer_getstate :: "'a RingBuffer \<Rightarrow> int \<times> bool \<times> nat \<times> 'a list" where
  "RingBuffer_getstate rb = (rb_maxSize rb, rb_full rb, rb_i rb, rb_L rb)"

definition RingBuffer_setstate :: "int \<times> bool \<times> nat \<times> 'a list \<Rightarrow> 'a RingBuffer" where
  "RingBuffer_setstate st =
     (case st of (maxSize, full, i, L) \<Rightarrow> \<lparr>rb_L = L, rb_i = i, rb_full = full, rb_maxSize = maxSize\<rparr>)"

section \<open>queue\<close>

text \<open>The fields \<open>front\<close> and \<open>back\<close>: \<open>front\<close> holds the oldest elements with the next one last; \<open>back\<close> the newest, in order.\<close>

record 'a queue =
  q_front :: "'a list"
  q_back :: "'a list"

definition queue_enqueue :: "'a queue \<Rightarrow> 'a \<Rightarrow> 'a queue" where
  "queue_enqueue q elt = q\<lparr>q_back := q_back q @ [elt]\<rparr>"

definition queue_new :: "'a list \<Rightarrow> 'a queue" where
  "queue_new seq = foldl queue_enqueue \<lparr>q_front = [], q_back = []\<rparr> seq"

definition queue_reset :: "'a queue \<Rightarrow> 'a queue" where
  "queue_reset q = q\<lparr>q_back := [], q_front := []\<rparr>"

definition queue_dequeue :: "'a queue \<Rightarrow> ('a \<times> 'a queue) res" where
  "queue_dequeue q =
     (if q_front q \<noteq> [] then Inr (last (q_front q), q\<lparr>q_front := butlast (q_front q)\<rparr>)
      else (let f = rev (q_back q) in
        if f \<noteq> [] then Inr (last f, \<lparr>q_front = butlast f, q_back = []\<rparr>) else Inl IndexError))"

definition queue_peek :: "'a queue \<Rightarrow> 'a res" where
  "queue_peek q = (if q_front q \<noteq> [] then list_item (q_front q) (-1) else list_item (q_back q) 0)"

definition queue_len :: "'a queue \<Rightarrow> nat" where
  "queue_len q = length (q_front q) + length (q_back q)"

definition queue_nonzero :: "'a queue \<Rightarrow> bool" where
  "queue_nonzero q \<longleftrightarrow> q_back q \<noteq> [] \<or> q_front q \<noteq> []"

definition queue_contains :: "'a queue \<Rightarrow> 'a \<Rightarrow> bool" where
  "queue_contains q elt \<longleftrightarrow> elt \<in> set (q_front q) \<or> elt \<in> set (q_back q)"

definition queue_iter :: "'a queue \<Rightarrow> 'a list" where
  "queue_iter q = rev (q_front q) @ q_back q"

definition queue_eq :: "'a queue \<Rightarrow> 'a queue \<Rightarrow> bool" where
  "queue_eq a b \<longleftrightarrow> queue_len a = queue_len b \<and> list_all2 (=) (queue_iter a) (queue_iter b)"

text \<open>The range check of \<open>__getitem__\<close>, \<open>__setitem__\<close> and \<open>__delitem__\<close>: the position counted from the head.\<close>

definition queue_position :: "'a queue \<Rightarrow> int \<Rightarrow> nat res" where
  "queue_position q oidx =
     (let n = int (queue_len q) in
      if n = 0 then Inl ZeroDivisionError
      else if oidx div n \<noteq> 0 \<and> oidx div n \<noteq> -1 then Inl IndexError
      else Inr (nat (oidx mod n)))"

definition queue_getitem :: "'a queue \<Rightarrow> int \<Rightarrow> 'a res" where
  "queue_getitem q oidx =
     (if queue_len q = 0 then Inl IndexError
      else bindR (queue_position q oidx) (\<lambda>idx.
        if length (q_front q) > idx then list_item (q_front q) (- (int idx + 1))
        else list_item (q_back q) (int (idx - length (q_front q)))))"

definition queue_getslice :: "'a queue \<Rightarrow> slice \<Rightarrow> 'a list res" where
  "queue_getslice q sl =
     (if queue_len q = 0 then Inl IndexError
      else bindR (slice_indices sl (int (queue_len q))) (\<lambda>r. mapR (queue_getitem q) (xrange3 r)))"

definition queue_setitem :: "'a queue \<Rightarrow> int \<Rightarrow> 'a \<Rightarrow> 'a queue res" where
  "queue_setitem q oidx v =
     (if queue_len q = 0 then Inl IndexError
      else bindR (queue_position q oidx) (\<lambda>idx.
        if length (q_front q) > idx
        then bindR (list_store (q_front q) (- (int idx + 1)) v) (\<lambda>f. Inr (q\<lparr>q_front := f\<rparr>))
        else bindR (list_store (q_back q) (int (idx - length (q_front q))) v) (\<lambda>b. Inr (q\<lparr>q_back := b\<rparr>))))"

text \<open>
  The slice form calls \<open>divmod(oidx, len(self))\<close> with the \<^emph>\<open>slice object\<close> in the loop over the
  range, which raises \<open>TypeError\<close> as soon as the range has an element.
\<close>

definition queue_setslice :: "'a queue \<Rightarrow> slice \<Rightarrow> 'a list \<Rightarrow> 'a queue res" where
  "queue_setslice q sl v =
     (if queue_len q = 0 then Inl IndexError
      else bindR (slice_indices sl (int (queue_len q))) (\<lambda>r.
        if length (xrange3 r) \<noteq> length v then Inl ValueError
        else if xrange3 r \<noteq> [] then Inl TypeError
        else Inr q))"

definition queue_delitem :: "'a queue \<Rightarrow> int \<Rightarrow> 'a queue res" where
  "queue_delitem q oidx =
     bindR (queue_position q oidx) (\<lambda>idx.
        if length (q_front q) > idx
        then bindR (list_remove_at (q_front q) (- (int idx + 1))) (\<lambda>f. Inr (q\<lparr>q_front := f\<rparr>))
        else bindR (list_remove_at (q_back q) (int (idx - length (q_front q)))) (\<lambda>b. Inr (q\<lparr>q_back := b\<rparr>)))"

text \<open>The slice form deletes the indices of the range one after the other, on the shrinking queue.\<close>

definition queue_delslice :: "'a queue \<Rightarrow> slice \<Rightarrow> 'a queue res" where
  "queue_delslice q sl =
     bindR (slice_indices sl (int (queue_len q))) (\<lambda>r. foldR (\<lambda>i q. queue_delitem q i) (xrange3 r) q)"

definition queue_getstate :: "'a queue \<Rightarrow> 'a list" where
  "queue_getstate q = queue_iter q"

definition queue_setstate :: "'a list \<Rightarrow> 'a queue" where
  "queue_setstate L = \<lparr>q_front = rev L, q_back = []\<rparr>"

section \<open>smallqueue\<close>

type_synonym 'a smallqueue = "'a list"

definition smallqueue_enqueue :: "'a smallqueue \<Rightarrow> 'a \<Rightarrow> 'a smallqueue" where
  "smallqueue_enqueue q elt = q @ [elt]"

definition smallqueue_dequeue :: "'a smallqueue \<Rightarrow> ('a \<times> 'a smallqueue) res" where
  "smallqueue_dequeue q = (case q of [] \<Rightarrow> Inl IndexError | x # xs \<Rightarrow> Inr (x, xs))"

definition smallqueue_peek :: "'a smallqueue \<Rightarrow> 'a res" where
  "smallqueue_peek q = list_item q 0"

definition smallqueue_reset :: "'a smallqueue \<Rightarrow> 'a smallqueue" where
  "smallqueue_reset q = []"

section \<open>MaxLengthQueue\<close>

record 'a MaxLengthQueue = "'a queue" +
  mlq_length :: int

definition MaxLengthQueue_enqueue :: "'a MaxLengthQueue \<Rightarrow> 'a \<Rightarrow> 'a MaxLengthQueue res" where
  "MaxLengthQueue_enqueue q elt =
     (let q1 = q\<lparr>q_back := q_back q @ [elt]\<rparr> in
      if int (length (q_front q1) + length (q_back q1)) > mlq_length q1 then
        bindR (queue_dequeue (queue.truncate q1)) (\<lambda>(_, q2).
          Inr (q1\<lparr>q_front := q_front q2, q_back := q_back q2\<rparr>))
      else Inr q1)"

definition MaxLengthQueue_new :: "int \<Rightarrow> 'a list \<Rightarrow> 'a MaxLengthQueue res" where
  "MaxLengthQueue_new n seq =
     foldR (\<lambda>x q. MaxLengthQueue_enqueue q x) seq \<lparr>q_front = [], q_back = [], mlq_length = n\<rparr>"

section \<open>TwoWayDictionary\<close>

type_synonym 'k twoway = "('k, 'k) dict"

definition TwoWay_setitem :: "'k twoway \<Rightarrow> 'k \<Rightarrow> 'k \<Rightarrow> 'k twoway" where
  "TwoWay_setitem d key v = dict_set v key (dict_set key v d)"

text \<open>
  \<open>__init__\<close> stores each pair both ways; its \<open>self[key] = value\<close> already goes through
  \<open>__setitem__\<close>, and so does the \<open>self[value] = key\<close> that follows.
\<close>

definition TwoWay_new :: "('k \<times> 'k) list \<Rightarrow> 'k twoway" where
  "TwoWay_new seq = foldl (\<lambda>d (k, v). TwoWay_setitem (TwoWay_setitem d k v) v k) [] seq"

definition TwoWay_delitem :: "'k \<Rightarrow> ('k twoway, unit) act" where
  "TwoWay_delitem key =
     bindA (\<lambda>d. (dict_item d key, d)) (\<lambda>v.
     seqA (\<lambda>d. case dict_del key d of Inl e \<Rightarrow> (Inl e, d) | Inr d' \<Rightarrow> (Inr (), d'))
          (\<lambda>d. case dict_del v d of Inl e \<Rightarrow> (Inl e, d) | Inr d' \<Rightarrow> (Inr (), d')))"

section \<open>MultiSet\<close>

type_synonym 'a mset_d = "('a, int) dict"

definition MultiSet_add :: "'a mset_d \<Rightarrow> 'a \<Rightarrow> 'a mset_d" where
  "MultiSet_add d elt = (case dict_get d elt of Some n \<Rightarrow> dict_set elt (n + 1) d | None \<Rightarrow> dict_set elt 1 d)"

definition MultiSet_new :: "'a list \<Rightarrow> 'a mset_d" where
  "MultiSet_new seq = foldl MultiSet_add [] seq"

definition MultiSet_remove :: "'a mset_d \<Rightarrow> 'a \<Rightarrow> 'a mset_d res" where
  "MultiSet_remove d elt =
     bindR (dict_item d elt) (\<lambda>n.
       Inr (if n - 1 = 0 then dict_drop elt (dict_set elt (n - 1) d) else dict_set elt (n - 1) d))"

definition MultiSet_getitem :: "'a mset_d \<Rightarrow> 'a \<Rightarrow> int res" where
  "MultiSet_getitem d elt = dict_item d elt"

definition MultiSet_contains :: "'a mset_d \<Rightarrow> 'a \<Rightarrow> bool" where
  "MultiSet_contains d elt \<longleftrightarrow> dict_has d elt"

section \<open>CacheDict\<close>

record ('k, 'v) CacheDict =
  cd_d :: "('k, 'v) dict"
  cd_max :: int

definition CacheDict_new :: "int \<Rightarrow> ('k, 'v) CacheDict" where
  "CacheDict_new m = \<lparr>cd_d = [], cd_max = m\<rparr>"

definition CacheDict_getitem :: "('k, 'v) CacheDict \<Rightarrow> 'k \<Rightarrow> 'v res" where
  "CacheDict_getitem c key = dict_item (cd_d c) key"

definition CacheDict_setitem :: "('k, 'v) CacheDict \<Rightarrow> 'k \<Rightarrow> 'v \<Rightarrow> ('k, 'v) CacheDict" where
  "CacheDict_setitem c key v =
     (let d = (if int (length (cd_d c)) \<ge> cd_max c then [] else cd_d c)
      in c\<lparr>cd_d := dict_set key v d\<rparr>)"

definition CacheDict_delitem :: "('k, 'v) CacheDict \<Rightarrow> 'k \<Rightarrow> ('k, 'v) CacheDict res" where
  "CacheDict_delitem c key = bindR (dict_del key (cd_d c)) (\<lambda>d. Inr (c\<lparr>cd_d := d\<rparr>))"

definition CacheDict_keys :: "('k, 'v) CacheDict \<Rightarrow> 'k list" where
  "CacheDict_keys c = map fst (cd_d c)"

definition CacheDict_iteritems :: "('k, 'v) CacheDict \<Rightarrow> ('k \<times> 'v) list" where
  "CacheDict_iteritems c = cd_d c"

section \<open>The interface of a queue\<close>

text \<open>
  The operations the program calls on a queue, and what they promise about the sequence of the
  elements in it (\<open>content\<close>, what an iteration yields).  \<open>TimeoutQueue\<close>, \<open>IrcMsgQueue\<close> and \<open>Irc\<close>
  rely on these laws and on nothing else of the two implementations.
\<close>

locale fifo =
  fixes empty :: "'q"
    and enq :: "'q \<Rightarrow> 'a \<Rightarrow> 'q"
    and deq :: "'q \<Rightarrow> ('a \<times> 'q) res"
    and peek :: "'q \<Rightarrow> 'a res"
    and size_of :: "'q \<Rightarrow> nat"
    and content :: "'q \<Rightarrow> 'a list"
  assumes content_empty: "content empty = []"
    and content_enq: "content (enq q x) = content q @ [x]"
    and deq_empty: "content q = [] \<Longrightarrow> deq q = Inl IndexError"
    and deq_Cons: "content q = x # xs \<Longrightarrow> \<exists>q'. deq q = Inr (x, q') \<and> content q' = xs"
    and peek_empty: "content q = [] \<Longrightarrow> peek q = Inl IndexError"
    and peek_Cons: "content q = x # xs \<Longrightarrow> peek q = Inr x"
    and size_content: "size_of q = length (content q)"

text \<open>A client's use of a queue: a sequence of operations, with what each \<open>dequeue\<close> gave.\<close>

datatype 'a qop = Enq 'a | Deq

fun fifo_run :: "('q \<Rightarrow> 'a \<Rightarrow> 'q) \<Rightarrow> ('q \<Rightarrow> ('a \<times> 'q) res) \<Rightarrow> 'a qop list \<Rightarrow> 'q \<Rightarrow> 'a res list \<times> 'q" where
  "fifo_run enq deq [] q = ([], q)"
| "fifo_run enq deq (Enq x # ops) q = fifo_run enq deq ops (enq q x)"
| "fifo_run enq deq (Deq # ops) q =
     (case deq q of
        Inl e \<Rightarrow> (case fifo_run enq deq ops q of (outs, q') \<Rightarrow> (Inl e # outs, q'))
      | Inr (x, q1) \<Rightarrow> (case fifo_run enq deq ops q1 of (outs, q') \<Rightarrow> (Inr x # outs, q')))"

text \<open>The specification: the same operations on the list of the elements.\<close>

fun list_run :: "'a qop list \<Rightarrow> 'a list \<Rightarrow> 'a res list \<times> 'a list" where
  "list_run [] xs = ([], xs)"
| "list_run (Enq x # ops) xs = list_run ops (xs @ [x])"
| "list_run (Deq # ops) xs =
     (case xs of
        [] \<Rightarrow> (case list_run ops [] of (outs, ys) \<Rightarrow> (Inl IndexError # outs, ys))
      | x # xs' \<Rightarrow> (case list_run ops xs' of (outs, ys) \<Rightarrow> (Inr x # outs, ys)))"

context fifo
begin

lemma run_refines:
  "fst (fifo_run enq deq ops q) = fst (list_run ops (content q)) \<and>
   content (snd (fifo_run enq deq ops q)) = snd (list_run ops (content q))"
proof (induction ops arbitrary: q)
  case (Cons op ops)
  show ?case
  proof (cases op)
    case (Enq x)
    then show ?thesis using Cons [of "enq q x"] by (simp add: content_enq)
  next
    case Deq
    show ?thesis
    proof (cases "content q")
      case Nil
      then show ?thesis using Cons [of q] Deq by (auto simp: deq_empty split: prod.splits)
    next
      case (Cons x xs)
      then obtain q' where "deq q = Inr (x, q')" "content q' = xs" using deq_Cons by blast
      then show ?thesis using Cons.IH [of q'] Deq Cons by (auto split: prod.splits)
    qed
  qed
qed simp

lemma enq_all: "content (foldl enq q xs) = content q @ xs"
  by (induction xs arbitrary: q) (simp_all add: content_enq)

lemma deq_Inr:
  assumes "deq q = Inr (x, q')"
  shows "content q = x # content q'"
  using assms deq_empty deq_Cons by (cases "content q") force+

lemma size_enq: "size_of (enq q x) = Suc (size_of q)"
  by (simp add: size_content content_enq)

end

section \<open>RingBuffer keeps the last elements\<close>

definition RingBuffer_wf :: "'a RingBuffer \<Rightarrow> bool" where
  "RingBuffer_wf rb \<longleftrightarrow> 0 < rb_maxSize rb \<and>
     (if rb_full rb then int (length (rb_L rb)) = rb_maxSize rb \<and> rb_i rb < length (rb_L rb)
      else int (length (rb_L rb)) \<le> rb_maxSize rb \<and> rb_i rb = 0)"

text \<open>The elements from the oldest to the newest.\<close>

definition RingBuffer_content :: "'a RingBuffer \<Rightarrow> 'a list" where
  "RingBuffer_content rb =
     (if rb_full rb then drop (rb_i rb) (rb_L rb) @ take (rb_i rb) (rb_L rb) else rb_L rb)"

lemma length_RingBuffer_content [simp]: "length (RingBuffer_content rb) = length (rb_L rb)"
  by (simp add: RingBuffer_content_def min_def)

lemma RingBuffer_overwrite_content:
  assumes i: "rb_i rb < length (rb_L rb)" and full: "rb_full rb"
  obtains rb' where "RingBuffer_overwrite rb x = Inr rb'" "rb_full rb'"
    "rb_maxSize rb' = rb_maxSize rb" "length (rb_L rb') = length (rb_L rb)"
    "rb_i rb' < length (rb_L rb')"
    "RingBuffer_content rb' = tl (RingBuffer_content rb) @ [x]"
proof -
  let ?L = "rb_L rb" and ?i = "rb_i rb"
  let ?rb = "rb\<lparr>rb_L := ?L[?i := x], rb_i := (?i + 1) mod length ?L\<rparr>"
  have tl: "tl (drop ?i ?L @ take ?i ?L) = drop (Suc ?i) ?L @ take ?i ?L"
    using i by (simp add: tl_append2 drop_Suc tl_drop)
  have "RingBuffer_content ?rb = tl (RingBuffer_content rb) @ [x]"
  proof (cases "Suc ?i = length ?L")
    case True
    then show ?thesis using full i tl
      by (simp add: RingBuffer_content_def list_update_append upd_conv_take_nth_drop)
  next
    case False
    then have "(?i + 1) mod length ?L = Suc ?i" using i by simp
    then show ?thesis using full i tl
      by (simp add: RingBuffer_content_def take_Suc_conv_app_nth)
  qed
  moreover have "RingBuffer_overwrite rb x = Inr ?rb"
    using i by (simp add: RingBuffer_overwrite_def list_store_def)
  moreover have "rb_i ?rb < length (rb_L ?rb)"
  proof -
    have "0 < length ?L" using i by linarith
    then have "(?i + 1) mod length ?L < length ?L" by (rule mod_less_divisor)
    then show ?thesis by simp
  qed
  ultimately show thesis using full that [of ?rb] by simp
qed

lemma RingBuffer_append_lastn:
  assumes wf: "RingBuffer_wf rb"
  shows "\<exists>rb'. RingBuffer_append rb x = Inr rb' \<and> RingBuffer_wf rb' \<and> rb_maxSize rb' = rb_maxSize rb
    \<and> RingBuffer_content rb' = lastn (nat (rb_maxSize rb)) (RingBuffer_content rb @ [x])"
proof (cases "rb_full rb \<or> int (length (rb_L rb)) = rb_maxSize rb")
  case True
  let ?rb = "rb\<lparr>rb_full := True\<rparr>"
  have app: "RingBuffer_append rb x = RingBuffer_overwrite ?rb x"
    using True by (cases rb, cases "rb_full rb") (simp_all add: RingBuffer_append_def)
  have len: "int (length (rb_L rb)) = rb_maxSize rb" and max: "0 < rb_maxSize rb"
    using wf True by (auto simp: RingBuffer_wf_def split: if_splits)
  have i: "rb_i ?rb < length (rb_L ?rb)"
    using wf True max by (auto simp: RingBuffer_wf_def split: if_splits)
  have c: "RingBuffer_content ?rb = RingBuffer_content rb"
    using wf by (auto simp: RingBuffer_wf_def RingBuffer_content_def split: if_splits)
  obtain rb' where rb': "RingBuffer_overwrite ?rb x = Inr rb'" "rb_full rb'"
      "rb_maxSize rb' = rb_maxSize ?rb" "length (rb_L rb') = length (rb_L ?rb)"
      "rb_i rb' < length (rb_L rb')" "RingBuffer_content rb' = tl (RingBuffer_content ?rb) @ [x]"
    by (rule RingBuffer_overwrite_content [OF i]) simp
  have "lastn (nat (rb_maxSize rb)) (RingBuffer_content rb @ [x]) = tl (RingBuffer_content rb) @ [x]"
    using len max by (intro lastn_snoc_full) auto
  with app rb' c len max show ?thesis by (auto simp: RingBuffer_wf_def)
next
  case False
  with wf show ?thesis
    by (auto simp: RingBuffer_append_def RingBuffer_wf_def RingBuffer_content_def)
qed

lemma RingBuffer_extend_lastn:
  assumes "RingBuffer_wf rb"
  shows "\<exists>rb'. foldR (\<lambda>x rb. RingBuffer_append rb x) seq rb = Inr rb' \<and> RingBuffer_wf rb'
    \<and> rb_maxSize rb' = rb_maxSize rb
    \<and> RingBuffer_content rb' = lastn (nat (rb_maxSize rb)) (RingBuffer_content rb @ seq)"
  using assms
proof (induction seq arbitrary: rb)
  case Nil
  then show ?case by (auto simp: RingBuffer_wf_def split: if_splits)
next
  case (Cons x seq)
  from RingBuffer_append_lastn [OF Cons.prems] obtain rb1 where
    rb1: "RingBuffer_append rb x = Inr rb1" "RingBuffer_wf rb1" "rb_maxSize rb1 = rb_maxSize rb"
      "RingBuffer_content rb1 = lastn (nat (rb_maxSize rb)) (RingBuffer_content rb @ [x])"
    by blast
  from Cons.IH [OF rb1(2)] rb1 show ?case
    by (auto simp: lastn_append_lastn)
qed

lemma RingBuffer_slot_content:
  assumes wf: "RingBuffer_wf rb" and j: "j < length (rb_L rb)"
  shows "RingBuffer_getitem rb (int j) = Inr (RingBuffer_content rb ! j)"
    and "RingBuffer_getitem rb (int j - int (length (rb_L rb))) = Inr (RingBuffer_content rb ! j)"
proof -
  let ?n = "length (rb_L rb)"
  note d = divmod_in_range [OF j]
  have full: "rb_L rb ! ((j + rb_i rb) mod ?n) = RingBuffer_content rb ! j" if f: "rb_full rb"
  proof -
    have i: "rb_i rb < ?n" using wf f by (simp add: RingBuffer_wf_def)
    show ?thesis
    proof (cases "j < ?n - rb_i rb")
      case True
      with i f show ?thesis by (simp add: RingBuffer_content_def nth_append add.commute)
    next
      case False
      with i j have ge: "?n \<le> j + rb_i rb" and lt: "j + rb_i rb - ?n < ?n" by linarith+
      from lt le_mod_geq [OF ge] have "(j + rb_i rb) mod ?n = j + rb_i rb - ?n" by simp
      with i j f False show ?thesis by (simp add: RingBuffer_content_def nth_append)
    qed
  qed
  have idx: "list_index (rb_L rb) ((int j + int (rb_i rb)) mod int ?n) = Inr ((j + rb_i rb) mod ?n)"
  proof -
    have "0 < ?n" using j by linarith
    then have "(j + rb_i rb) mod ?n < ?n" by (rule mod_less_divisor)
    then show ?thesis using list_index_nat by (simp flip: of_nat_add of_nat_mod)
  qed
  show "RingBuffer_getitem rb (int j) = Inr (RingBuffer_content rb ! j)"
    using j full idx d
    by (cases "rb_full rb")
       (auto simp: RingBuffer_getitem_def RingBuffer_slot_def Let_def RingBuffer_content_def)
  show "RingBuffer_getitem rb (int j - int ?n) = Inr (RingBuffer_content rb ! j)"
  proof (cases "rb_full rb")
    case True
    then show ?thesis using j full idx d
      by (auto simp: RingBuffer_getitem_def RingBuffer_slot_def Let_def)
  next
    case False
    then have "list_index (rb_L rb) (int j - int ?n) = Inr j" using j by (simp add: list_index_Inr_iff)
    with False show ?thesis
      by (simp add: RingBuffer_getitem_def RingBuffer_slot_def RingBuffer_content_def)
  qed
qed

lemma RingBuffer_list_content:
  assumes "RingBuffer_wf rb"
  shows "RingBuffer_list rb = Inr (RingBuffer_content rb)"
proof -
  have "mapR (\<lambda>k. RingBuffer_getitem rb (int k)) [0..<length (rb_L rb)]
      = Inr (map ((!) (RingBuffer_content rb)) [0..<length (rb_L rb)])"
    by (rule mapR_total) (simp add: RingBuffer_slot_content [OF assms])
  also have "map ((!) (RingBuffer_content rb)) [0..<length (rb_L rb)] = RingBuffer_content rb"
    using map_nth [of "RingBuffer_content rb"] by simp
  finally show ?thesis
    using assms by (auto simp: RingBuffer_list_def RingBuffer_wf_def split: if_splits)
qed

lemma RingBuffer_new_wf:
  "0 < n \<Longrightarrow> RingBuffer_wf (RingBuffer_reset \<lparr>rb_L = [], rb_i = 0, rb_full = False, rb_maxSize = n\<rparr>)"
  by (simp add: RingBuffer_wf_def RingBuffer_reset_def)

text \<open>
  A ring buffer built with a positive size from any sequence raises nothing, is well formed and
  iterates over exactly the last \<open>maxSize\<close> elements of the sequence, oldest first.
\<close>

theorem RingBuffer_new_keeps_last:
  assumes "0 < n"
  shows "\<exists>rb. RingBuffer_new n seq = Inr rb \<and> RingBuffer_wf rb \<and> rb_maxSize rb = n
    \<and> RingBuffer_list rb = Inr (lastn (nat n) seq)"
proof -
  let ?e = "RingBuffer_reset \<lparr>rb_L = [], rb_i = 0, rb_full = False, rb_maxSize = n\<rparr> :: 'a RingBuffer"
  have empty: "RingBuffer_content ?e = []" and max: "rb_maxSize ?e = n"
    by (simp_all add: RingBuffer_content_def RingBuffer_reset_def)
  obtain rb where "foldR (\<lambda>x rb. RingBuffer_append rb x) seq ?e = Inr rb" "RingBuffer_wf rb"
      "rb_maxSize rb = n" "RingBuffer_content rb = lastn (nat n) seq"
    using RingBuffer_extend_lastn [OF RingBuffer_new_wf [OF assms], of seq] unfolding empty max by auto
  then show ?thesis using assms by (simp add: RingBuffer_new_def RingBuffer_list_content)
qed

theorem RingBuffer_new_keeps_last_witness:
  "\<exists>rb. RingBuffer_new 3 [1, 2, 3, 4, 5 :: nat] = Inr rb \<and> RingBuffer_wf rb \<and> rb_maxSize rb = 3
    \<and> RingBuffer_list rb = Inr [3, 4, 5]"
  using RingBuffer_new_keeps_last [of 3 "[1, 2, 3, 4, 5 :: nat]"] by (simp add: lastn_def)

text \<open>
  Indexing a well-formed ring buffer, full or not, is indexing the list of its elements: \<open>rb[i]\<close>
  for \<open>-len <= i < len\<close> is the element Python's list of them has at \<open>i\<close>, any other index raises
  \<open>IndexError\<close>.
\<close>

theorem RingBuffer_getitem_is_list_index:
  assumes wf: "RingBuffer_wf rb" and ne: "rb_L rb \<noteq> []"
  shows "RingBuffer_getitem rb i = list_item (RingBuffer_content rb) i"
proof (cases "- int (length (rb_L rb)) \<le> i \<and> i < int (length (rb_L rb))")
  case True
  then consider j where "j < length (rb_L rb)" "i = int j"
    | j where "j < length (rb_L rb)" "i = int j - int (length (rb_L rb))"
  proof (cases "0 \<le> i")
    case True
    with \<open>- int (length (rb_L rb)) \<le> i \<and> i < int (length (rb_L rb))\<close> show ?thesis
      using that(1) [of "nat i"] by auto
  next
    case False
    with \<open>- int (length (rb_L rb)) \<le> i \<and> i < int (length (rb_L rb))\<close> show ?thesis
      using that(2) [of "nat (i + int (length (rb_L rb)))"] by auto
  qed
  then show ?thesis
  proof cases
    case (1 j)
    then show ?thesis using RingBuffer_slot_content(1) [OF wf, of j] by simp
  next
    case (2 j)
    then have "list_index (RingBuffer_content rb) i = Inr j" by (simp add: list_index_Inr_iff)
    with 2 show ?thesis using RingBuffer_slot_content(2) [OF wf, of j] by (simp add: list_item_def)
  qed
next
  case False
  then have out: "list_index xs i = Inl IndexError" if "length xs = length (rb_L rb)" for xs :: "'a list"
    using that by (auto simp: list_index_def Let_def)
  have "i div int (length (rb_L rb)) \<noteq> 0 \<and> i div int (length (rb_L rb)) \<noteq> -1"
    using False ne by (subst divmod_out_of_range) auto
  with ne out show ?thesis
    by (simp add: RingBuffer_getitem_def RingBuffer_slot_def list_item_def Let_def)
qed

theorem RingBuffer_getitem_is_list_index_witness:
  "RingBuffer_getitem \<lparr>rb_L = [7, 5, 6 :: nat], rb_i = 1, rb_full = True, rb_maxSize = 3\<rparr> (-1) = Inr 7"
proof -
  have "RingBuffer_wf \<lparr>rb_L = [7, 5, 6 :: nat], rb_i = 1, rb_full = True, rb_maxSize = 3\<rparr>"
    by (simp add: RingBuffer_wf_def)
  from RingBuffer_getitem_is_list_index [OF this] show ?thesis
    by (simp add: RingBuffer_content_def list_item_def list_index_def)
qed

lemma RingBuffer_shrunk_grows:
  assumes "\<not> rb_full rb" and "rb_maxSize rb < int (length (rb_L rb))"
  shows "foldR (\<lambda>x rb. RingBuffer_append rb x) seq rb = Inr (rb\<lparr>rb_L := rb_L rb @ seq\<rparr>)"
  using assms
proof (induction seq arbitrary: rb)
  case (Cons x seq)
  then have app: "RingBuffer_append rb x = Inr (rb\<lparr>rb_L := rb_L rb @ [x]\<rparr>)"
    by (simp add: RingBuffer_append_def)
  from Cons.IH [of "rb\<lparr>rb_L := rb_L rb @ [x]\<rparr>"] Cons.prems app show ?case by simp
qed simp

text \<open>
  \<open>resize\<close> to a size smaller than the number of elements held does not shrink the buffer, and
  the bound is lost for good: the test in \<open>append\<close> compares the length with \<open>maxSize\<close> by equality,
  which the longer buffer never meets, so every further element is kept.
\<close>

theorem RingBuffer_resize_below_length_unbounded:
  assumes wf: "RingBuffer_wf rb" and small: "n < int (RingBuffer_len rb)"
  shows "\<exists>rb1 rb2. RingBuffer_resize rb n = Inr rb1 \<and> RingBuffer_extend rb1 seq = Inr rb2
    \<and> RingBuffer_list rb2 = Inr (RingBuffer_content rb @ seq)"
proof -
  let ?rb1 = "\<lparr>rb_L = RingBuffer_content rb, rb_i = 0, rb_full = False, rb_maxSize = n\<rparr>"
  have resize: "RingBuffer_resize rb n = Inr ?rb1"
    using wf RingBuffer_list_content [OF wf]
    by (cases rb) (auto simp: RingBuffer_resize_def RingBuffer_reset_def RingBuffer_wf_def
      RingBuffer_content_def split: if_splits)
  let ?rb2 = "?rb1\<lparr>rb_L := RingBuffer_content rb @ seq\<rparr>"
  have "RingBuffer_extend ?rb1 seq = Inr ?rb2"
    using RingBuffer_shrunk_grows [of ?rb1 seq] small
    by (simp add: RingBuffer_extend_def RingBuffer_len_def)
  moreover have "RingBuffer_list ?rb2 = Inr (RingBuffer_content rb @ seq)"
  proof -
    have "mapR (\<lambda>k. RingBuffer_getitem ?rb2 (int k)) [0..<length (rb_L ?rb2)]
        = Inr (map ((!) (RingBuffer_content rb @ seq)) [0..<length (rb_L ?rb2)])"
      by (rule mapR_total) (simp add: RingBuffer_getitem_def RingBuffer_slot_def)
    then show ?thesis using map_nth [of "RingBuffer_content rb @ seq"]
      by (simp add: RingBuffer_list_def)
  qed
  ultimately show ?thesis using resize by blast
qed

theorem RingBuffer_resize_below_length_unbounded_witness:
  "\<exists>rb1 rb2. RingBuffer_resize \<lparr>rb_L = [3, 1, 2 :: nat], rb_i = 1, rb_full = True, rb_maxSize = 3\<rparr> 2 = Inr rb1
    \<and> RingBuffer_extend rb1 [4, 5] = Inr rb2 \<and> RingBuffer_list rb2 = Inr [1, 2, 3, 4, 5]"
  using RingBuffer_resize_below_length_unbounded
    [of "\<lparr>rb_L = [3, 1, 2 :: nat], rb_i = 1, rb_full = True, rb_maxSize = 3\<rparr>" 2 "[4, 5]"]
  by (simp add: RingBuffer_wf_def RingBuffer_len_def RingBuffer_content_def)

section \<open>The two queues\<close>

lemma queue_len_iter: "queue_len q = length (queue_iter q)"
  by (simp add: queue_len_def queue_iter_def)

lemma queue_dequeue_Nil: "queue_iter q = [] \<Longrightarrow> queue_dequeue q = Inl IndexError"
  by (simp add: queue_iter_def queue_dequeue_def)

lemma queue_dequeue_Cons:
  assumes "queue_iter q = x # xs"
  shows "\<exists>q'. queue_dequeue q = Inr (x, q') \<and> queue_iter q' = xs"
proof (cases "q_front q" rule: rev_cases)
  case Nil
  with assms have "q_back q = x # xs" by (simp add: queue_iter_def)
  with Nil show ?thesis by (auto simp: queue_dequeue_def queue_iter_def)
next
  case (snoc f y)
  with assms show ?thesis by (auto simp: queue_dequeue_def queue_iter_def)
qed

interpretation lq: fifo "\<lparr>q_front = [], q_back = []\<rparr>" queue_enqueue queue_dequeue queue_peek queue_len queue_iter
proof unfold_locales
  show "queue_iter \<lparr>q_front = [], q_back = []\<rparr> = []" by (simp add: queue_iter_def)
  show "queue_iter (queue_enqueue q x) = queue_iter q @ [x]" for q :: "'a queue" and x
    by (simp add: queue_iter_def queue_enqueue_def)
  show "queue_dequeue q = Inl IndexError" if "queue_iter q = []" for q :: "'a queue"
    using that by (rule queue_dequeue_Nil)
  show "\<exists>q'. queue_dequeue q = Inr (x, q') \<and> queue_iter q' = xs" if "queue_iter q = x # xs"
    for q :: "'a queue" and x xs
    using that by (rule queue_dequeue_Cons)
  show "queue_peek q = Inl IndexError" if "queue_iter q = []" for q :: "'a queue"
    using that by (simp add: queue_iter_def queue_peek_def list_item_def list_index_def)
  show "queue_peek q = Inr x" if "queue_iter q = x # xs" for q :: "'a queue" and x xs
    using that by (cases "q_front q" rule: rev_cases)
      (auto simp: queue_iter_def queue_peek_def list_item_def list_index_def nth_append)
  show "queue_len q = length (queue_iter q)" for q :: "'a queue" by (rule queue_len_iter)
qed

interpretation sq: fifo "[]" smallqueue_enqueue smallqueue_dequeue smallqueue_peek length "\<lambda>q. q"
  by unfold_locales
    (simp_all add: smallqueue_enqueue_def smallqueue_dequeue_def smallqueue_peek_def list_item_def list_index_def)

text \<open>
  \<open>queue\<close> and \<open>smallqueue\<close> are interchangeable: whatever sequence of \<open>enqueue\<close> and \<open>dequeue\<close> a
  client runs on the two-stack queue, each \<open>dequeue\<close> returns (or raises) what the list-based queue
  holding the same elements does, and both end with the same elements in the same order.
\<close>

theorem queue_smallqueue_equivalent:
  "fst (fifo_run queue_enqueue queue_dequeue ops q)
     = fst (fifo_run smallqueue_enqueue smallqueue_dequeue ops (queue_iter q)) \<and>
   queue_iter (snd (fifo_run queue_enqueue queue_dequeue ops q))
     = snd (fifo_run smallqueue_enqueue smallqueue_dequeue ops (queue_iter q))"
  using lq.run_refines [of ops q] sq.run_refines [of ops "queue_iter q"] by simp

lemma queue_position_Inr_iff:
  "queue_position q i = Inr j \<longleftrightarrow> list_index (queue_iter q) i = Inr j"
proof (cases "queue_len q = 0")
  case True
  then show ?thesis by (simp add: queue_position_def list_index_Inr_iff queue_len_iter)
next
  case False
  then have n: "0 < int (queue_len q)" by simp
  show ?thesis
  proof (cases "i < - int (queue_len q) \<or> int (queue_len q) \<le> i")
    case True
    then have "queue_position q i = Inl IndexError"
      using divmod_out_of_range [OF n, of i] n by (simp add: queue_position_def)
    with True show ?thesis by (auto simp: list_index_Inr_iff queue_len_iter)
  next
    case False
    then have "\<not> (i div int (queue_len q) \<noteq> 0 \<and> i div int (queue_len q) \<noteq> -1)"
      by (subst divmod_out_of_range [OF n])
    then have "queue_position q i = Inr (nat (i mod int (queue_len q)))"
      using n by (auto simp: queue_position_def)
    moreover have "i mod int (queue_len q) = (if i < 0 then i + int (queue_len q) else i)"
    proof (cases "i < 0")
      case True
      have "i mod int (queue_len q) = (i + int (queue_len q)) mod int (queue_len q)" by simp
      also have "\<dots> = i + int (queue_len q)" using True False by (intro mod_pos_pos_trivial) auto
      finally show ?thesis using True by simp
    qed (use False in simp)
    ultimately show ?thesis using False
      by (auto simp: list_index_def Let_def queue_len_iter)
  qed
qed

lemma queue_getitem_pos:
  assumes "j < queue_len q"
  shows "(if length (q_front q) > j then list_item (q_front q) (- (int j + 1))
     else list_item (q_back q) (int (j - length (q_front q)))) = Inr (queue_iter q ! j)"
proof (cases "length (q_front q) > j")
  case True
  then have "list_index (q_front q) (- (int j + 1)) = Inr (length (q_front q) - Suc j)"
    by (auto simp: list_index_Inr_iff of_nat_diff)
  with True show ?thesis by (simp add: list_item_def queue_iter_def nth_append rev_nth)
next
  case False
  have "list_item (q_back q) (int (j - length (q_front q))) = Inr (q_back q ! (j - length (q_front q)))"
    using assms False by (intro list_item_nat) (simp add: queue_len_def)
  with False show ?thesis
    by (simp add: queue_iter_def nth_append del: of_nat_diff)
qed

text \<open>
  Indexing the two-stack queue is indexing the list of its elements, for every integer index,
  the negative and the out-of-range ones (\<open>IndexError\<close>) included.
\<close>

theorem queue_getitem_is_list_index:
  "queue_getitem q i = list_item (queue_iter q) i"
proof (cases "list_index (queue_iter q) i")
  case (Inr j)
  then have "j < queue_len q" by (simp add: list_index_Inr_iff queue_len_iter)
  with Inr queue_getitem_pos [of j q] queue_position_Inr_iff [of q i j] show ?thesis
    by (simp add: queue_getitem_def list_item_def)
next
  case (Inl e)
  then have "e = IndexError" by (auto simp: list_index_def Let_def split: if_splits)
  moreover have "queue_len q \<noteq> 0 \<Longrightarrow> queue_position q i = Inl IndexError"
    using Inl queue_position_Inr_iff [of q i]
    by (cases "queue_position q i") (auto simp: queue_position_def Let_def split: if_splits)
  ultimately show ?thesis using Inl
    by (auto simp: queue_getitem_def list_item_def)
qed

text \<open>The slice forms that do not do what a list does.\<close>

lemma queue_setslice_raises:
  assumes "slice_indices sl (int (queue_len q)) = Inr r" "xrange3 r \<noteq> []"
    "length (xrange3 r) = length v" "queue_len q \<noteq> 0"
  shows "queue_setslice q sl v = Inl TypeError"
  using assms by (simp add: queue_setslice_def)

lemma queue_delslice_skips:
  "queue_delslice (queue_new ''abc'') (Some 0, Some 2, None)
     = Inr \<lparr>q_front = [], q_back = ''b''\<rparr>"
  by (simp add: queue_delslice_def queue_new_def queue_enqueue_def slice_indices_def clip_index_def
    queue_len_def xrange3_def queue_delitem_def queue_position_def list_remove_at_def list_index_def
    eval_nat_numeral)

lemma queue_delitem_empty: "queue_delitem (queue_new []) i = Inl ZeroDivisionError"
  by (simp add: queue_delitem_def queue_position_def queue_new_def queue_len_def)

lemma queue_getstate_setstate: "queue_iter (queue_setstate (queue_getstate q)) = queue_iter q"
  by (simp add: queue_getstate_def queue_setstate_def queue_iter_def)

section \<open>MaxLengthQueue, MultiSet, TwoWayDictionary, CacheDict\<close>

abbreviation MaxLengthQueue_content :: "'a MaxLengthQueue \<Rightarrow> 'a list" where
  "MaxLengthQueue_content q \<equiv> rev (q_front q) @ q_back q"

lemma MaxLengthQueue_enqueue_lastn:
  assumes len: "int (length (MaxLengthQueue_content q)) \<le> mlq_length q" and pos: "0 \<le> mlq_length q"
  shows "\<exists>q'. MaxLengthQueue_enqueue q x = Inr q' \<and> mlq_length q' = mlq_length q
    \<and> MaxLengthQueue_content q' = lastn (nat (mlq_length q)) (MaxLengthQueue_content q @ [x])"
proof -
  let ?q1 = "q\<lparr>q_back := q_back q @ [x]\<rparr>"
  let ?c = "MaxLengthQueue_content q @ [x]"
  have c: "queue_iter (queue.truncate ?q1) = ?c" by (simp add: queue_iter_def queue.truncate_def)
  obtain y ys where cons: "?c = y # ys" by (cases ?c) auto
  from lq.deq_Cons [of "queue.truncate ?q1", OF c [unfolded cons]] obtain q2 where
    q2: "queue_dequeue (queue.truncate ?q1) = Inr (y, q2)" "queue_iter q2 = ys" by blast
  show ?thesis
  proof (cases "int (length ?c) \<le> mlq_length q")
    case True
    then have "MaxLengthQueue_enqueue q x = Inr ?q1"
      by (simp add: MaxLengthQueue_enqueue_def Let_def)
    with True show ?thesis by simp
  next
    case False
    with len have n: "length ?c = Suc (nat (mlq_length q))" by simp
    have "MaxLengthQueue_enqueue q x = Inr (?q1\<lparr>q_front := q_front q2, q_back := q_back q2\<rparr>)"
      using False q2 by (simp add: MaxLengthQueue_enqueue_def Let_def)
    moreover have "lastn (nat (mlq_length q)) ?c = ys"
      using n unfolding cons by (simp add: lastn_def)
    ultimately show ?thesis using q2(2) by (simp add: queue_iter_def)
  qed
qed

text \<open>
  A \<open>MaxLengthQueue\<close> of length \<open>n >= 0\<close> filled with any sequence holds exactly the last \<open>n\<close> elements
  of it, in order, and never raises.
\<close>

theorem MaxLengthQueue_new_keeps_last:
  assumes "0 \<le> n"
  shows "\<exists>q. MaxLengthQueue_new n seq = Inr q \<and> mlq_length q = n \<and> MaxLengthQueue_content q = lastn (nat n) seq"
proof -
  have "\<exists>q'. foldR (\<lambda>x q. MaxLengthQueue_enqueue q x) seq q = Inr q' \<and> mlq_length q' = n
      \<and> MaxLengthQueue_content q' = lastn (nat n) (MaxLengthQueue_content q @ seq)"
    if "int (length (MaxLengthQueue_content q)) \<le> n" "mlq_length q = n" for q :: "'a MaxLengthQueue"
    using that
  proof (induction seq arbitrary: q)
    case (Cons x seq)
    from MaxLengthQueue_enqueue_lastn [of q x] Cons.prems assms obtain q1 where
      q1: "MaxLengthQueue_enqueue q x = Inr q1" "mlq_length q1 = n"
        "MaxLengthQueue_content q1 = lastn (nat n) (MaxLengthQueue_content q @ [x])"
      by auto
    then have "int (length (MaxLengthQueue_content q1)) \<le> n"
      using assms by (metis length_lastn min.cobounded1 nat_int_comparison(3) int_nat_eq of_nat_mono)
    from Cons.IH [OF this q1(2)] q1 show ?case by auto
  qed simp
  from this [of "\<lparr>q_front = [], q_back = [], mlq_length = n\<rparr>"] assms show ?thesis
    by (simp add: MaxLengthQueue_new_def)
qed

theorem MaxLengthQueue_new_keeps_last_witness:
  "\<exists>q. MaxLengthQueue_new 2 ''abcd'' = Inr q \<and> mlq_length q = 2 \<and> MaxLengthQueue_content q = ''cd''"
  using MaxLengthQueue_new_keeps_last [of 2 "''abcd''"] by (simp add: lastn_def)

text \<open>\<open>MultiSet\<close> refines the multisets of the library.\<close>

definition MultiSet_wf :: "'a mset_d \<Rightarrow> bool" where
  "MultiSet_wf d \<longleftrightarrow> dict_wf d \<and> (\<forall>(x, n) \<in> set d. 0 < n)"

definition MultiSet_count :: "'a mset_d \<Rightarrow> 'a \<Rightarrow> nat" where
  "MultiSet_count d x = (case dict_get d x of None \<Rightarrow> 0 | Some n \<Rightarrow> nat n)"

lemma MultiSet_wf_pos: "MultiSet_wf d \<Longrightarrow> dict_get d x = Some n \<Longrightarrow> 0 < n"
  by (auto simp: MultiSet_wf_def dest: map_of_SomeD)

lemma MultiSet_add_wf: "MultiSet_wf d \<Longrightarrow> MultiSet_wf (MultiSet_add d x)"
  using MultiSet_wf_pos [of d x]
  by (auto simp: MultiSet_add_def MultiSet_wf_def dict_wf_set dest!: set_dict_set split: option.splits)

lemma MultiSet_add_count:
  "MultiSet_wf d \<Longrightarrow> MultiSet_count (MultiSet_add d x) y = MultiSet_count d y + (if y = x then 1 else 0)"
  using MultiSet_wf_pos [of d x]
  by (auto simp: MultiSet_add_def MultiSet_count_def nat_add_distrib split: option.splits)

lemma MultiSet_remove_spec:
  assumes wf: "MultiSet_wf d"
  shows "(if MultiSet_count d x = 0 then MultiSet_remove d x = Inl KeyError
    else \<exists>d'. MultiSet_remove d x = Inr d' \<and> MultiSet_wf d'
      \<and> (\<forall>y. MultiSet_count d' y = MultiSet_count d y - (if y = x then 1 else 0)))"
proof (cases "dict_get d x")
  case None
  then show ?thesis by (simp add: MultiSet_count_def MultiSet_remove_def dict_item_def)
next
  case (Some n)
  with wf have pos: "0 < n" by (rule MultiSet_wf_pos)
  let ?d = "if n - 1 = 0 then dict_drop x (dict_set x (n - 1) d) else dict_set x (n - 1) d"
  have "MultiSet_remove d x = Inr ?d" by (simp add: MultiSet_remove_def dict_item_def Some)
  moreover have "MultiSet_wf ?d"
  proof (cases "n - 1 = 0")
    case True
    with wf set_dict_drop [of x d] show ?thesis
      by (auto simp: MultiSet_wf_def dict_wf_drop delete_update_same)
  next
    case False
    with wf pos show ?thesis by (auto simp: MultiSet_wf_def dict_wf_set dest!: set_dict_set)
  qed
  moreover have "MultiSet_count ?d y = MultiSet_count d y - (if y = x then 1 else 0)" for y
    using pos Some by (auto simp: MultiSet_count_def nat_diff_distrib)
  ultimately show ?thesis using Some pos by (auto simp: MultiSet_count_def)
qed

text \<open>
  \<open>MultiSet\<close> is a multiset: building one from a sequence counts every element as often as the
  sequence has it, and \<open>add\<close> and \<open>remove\<close> on any well-formed one change the counts as insertion
  and deletion in a multiset do, \<open>remove\<close> of an absent element raising \<open>KeyError\<close>.
\<close>

theorem MultiSet_refines_multiset:
  assumes "MultiSet_wf d"
  shows "MultiSet_count (MultiSet_new seq) y = count (mset seq) y \<and> MultiSet_wf (MultiSet_new seq)
    \<and> MultiSet_count (MultiSet_add d x) y = MultiSet_count d y + count {#x#} y
    \<and> (case MultiSet_remove d x of
         Inl e \<Rightarrow> e = KeyError \<and> MultiSet_count d x = 0
       | Inr d' \<Rightarrow> MultiSet_wf d' \<and> MultiSet_count d x \<noteq> 0
           \<and> MultiSet_count d' y = MultiSet_count d y - count {#x#} y)"
proof -
  have new: "MultiSet_wf (foldl MultiSet_add d' seq)
      \<and> MultiSet_count (foldl MultiSet_add d' seq) y = MultiSet_count d' y + count (mset seq) y"
    if "MultiSet_wf d'" for d'
    using that by (induction seq arbitrary: d') (auto simp: MultiSet_add_wf MultiSet_add_count)
  have nil: "MultiSet_wf ([] :: 'a mset_d)" by (simp add: MultiSet_wf_def)
  from new [OF nil] MultiSet_remove_spec [OF assms, of x] MultiSet_add_count [OF assms, of x y]
  show ?thesis by (auto simp: MultiSet_new_def MultiSet_count_def split: if_splits)
qed

theorem MultiSet_refines_multiset_witness:
  "MultiSet_count (MultiSet_add [(CHR ''a'', 2)] CHR ''a'') CHR ''a'' = 3
   \<and> MultiSet_count (MultiSet_new ''abca'') CHR ''a'' = 2"
proof -
  have "MultiSet_wf [(CHR ''a'', 2)]" by (simp add: MultiSet_wf_def dict_wf_def)
  from MultiSet_refines_multiset [OF this, of "''abca''" "CHR ''a''" "CHR ''a''"]
  show ?thesis by (simp add: MultiSet_count_def)
qed

text \<open>\<open>TwoWayDictionary\<close>: what it promises is that the mapping is its own inverse.\<close>

definition TwoWay_inv :: "'k twoway \<Rightarrow> bool" where
  "TwoWay_inv d \<longleftrightarrow> (\<forall>k v. dict_get d k = Some v \<longrightarrow> dict_get d v = Some k)"

lemma TwoWay_invD: "TwoWay_inv d \<Longrightarrow> dict_get d k = Some v \<Longrightarrow> dict_get d v = Some k"
  unfolding TwoWay_inv_def by blast

lemma TwoWay_get [simp]: "dict_get (TwoWay_setitem d k v) = (dict_get d)(k \<mapsto> v, v \<mapsto> k)"
  by (simp add: TwoWay_setitem_def)

lemma TwoWay_setitem_inv:
  assumes inv: "TwoWay_inv d" and k: "\<not> dict_has d k" and v: "\<not> dict_has d v"
  shows "TwoWay_inv (TwoWay_setitem d k v)"
  unfolding TwoWay_inv_def
proof (intro allI impI)
  fix x y assume xy: "dict_get (TwoWay_setitem d k v) x = Some y"
  show "dict_get (TwoWay_setitem d k v) y = Some x"
  proof (cases "x = v \<or> x = k")
    case True
    with xy show ?thesis by (auto split: if_splits)
  next
    case False
    with xy have "dict_get d x = Some y" by simp
    with inv have "dict_get d y = Some x" by (rule TwoWay_invD)
    with k v False show ?thesis by (auto simp: dict_has_def)
  qed
qed

lemma TwoWay_delitem_inv:
  assumes inv: "TwoWay_inv d" and kv: "dict_get d k = Some v" and ne: "k \<noteq> v"
  shows "fst (TwoWay_delitem k d) = Inr () \<and> TwoWay_inv (snd (TwoWay_delitem k d))
    \<and> dict_get (snd (TwoWay_delitem k d)) = (dict_get d)(k := None, v := None)"
proof -
  have vk: "dict_get d v = Some k" using inv kv by (rule TwoWay_invD)
  have del: "TwoWay_delitem k d = (Inr (), dict_drop v (dict_drop k d))"
    using kv vk ne by (simp add: TwoWay_delitem_def act_defs dict_item_def dict_del_def dict_has_def)
  have "TwoWay_inv (dict_drop v (dict_drop k d))"
    unfolding TwoWay_inv_def
  proof (intro allI impI)
    fix x y assume "dict_get (dict_drop v (dict_drop k d)) x = Some y"
    then have x: "x \<noteq> k" "x \<noteq> v" "dict_get d x = Some y" by (auto split: if_splits)
    with inv have y: "dict_get d y = Some x" by (blast dest: TwoWay_invD)
    with x kv vk have "y \<noteq> k" "y \<noteq> v" by auto
    with y show "dict_get (dict_drop v (dict_drop k d)) y = Some x" by simp
  qed
  with del show ?thesis by simp
qed

text \<open>
  Overwriting an entry of a \<open>TwoWayDictionary\<close> breaks it: after \<open>d[k] = v\<close> over an entry
  \<open>k -> w\<close>, the old reverse entry \<open>w -> k\<close> is still there, so the dictionary maps \<open>w\<close> to \<open>k\<close> while \<open>k\<close>
  maps to \<open>v\<close>; and an entry of a key with itself cannot be deleted without \<open>KeyError\<close>.
\<close>

theorem TwoWay_overwrite_leaves_stale_entry:
  assumes "TwoWay_inv d" "dict_get d k = Some w" "w \<noteq> k" "v \<noteq> w" "v \<noteq> k"
  shows "dict_get (TwoWay_setitem d k v) k = Some v \<and> dict_get (TwoWay_setitem d k v) w = Some k
    \<and> \<not> TwoWay_inv (TwoWay_setitem d k v)
    \<and> fst (TwoWay_delitem v (TwoWay_setitem d v v)) = Inl KeyError"
proof (intro conjI)
  have w: "dict_get d w = Some k" using assms(1,2) by (rule TwoWay_invD)
  show kv: "dict_get (TwoWay_setitem d k v) k = Some v" using assms(5) by simp
  show wk: "dict_get (TwoWay_setitem d k v) w = Some k" using w assms(3,4) by simp
  show "\<not> TwoWay_inv (TwoWay_setitem d k v)"
  proof
    assume "TwoWay_inv (TwoWay_setitem d k v)"
    then have "dict_get (TwoWay_setitem d k v) k = Some w" using wk by (rule TwoWay_invD)
    with kv assms(4) show False by simp
  qed
  show "fst (TwoWay_delitem v (TwoWay_setitem d v v)) = Inl KeyError"
    by (simp add: TwoWay_delitem_def act_defs dict_item_def dict_del_def dict_has_def)
qed

theorem TwoWay_overwrite_leaves_stale_entry_witness:
  "\<not> TwoWay_inv (TwoWay_setitem (TwoWay_setitem [] ''ox'' ''oxen'') ''ox'' ''oxes'')"
  using TwoWay_overwrite_leaves_stale_entry [of "TwoWay_setitem [] ''ox'' ''oxen''" "''ox''" "''oxen''" "''oxes''"]
  by (simp add: TwoWay_inv_def)

text \<open>The bound and the lookups of \<open>CacheDict\<close>.\<close>

definition CacheDict_wf :: "('k, 'v) CacheDict \<Rightarrow> bool" where
  "CacheDict_wf c \<longleftrightarrow> dict_wf (cd_d c) \<and> 0 < cd_max c \<and> int (length (cd_d c)) \<le> cd_max c"

lemma CacheDict_setitem_wf [wf_intros]: "CacheDict_wf c \<Longrightarrow> CacheDict_wf (CacheDict_setitem c k v)"
  by (auto simp: CacheDict_wf_def CacheDict_setitem_def Let_def dict_wf_set length_dict_set)

lemma CacheDict_setitem_get [simp]: "CacheDict_getitem (CacheDict_setitem c k v) k = Inr v"
  by (simp add: CacheDict_getitem_def CacheDict_setitem_def Let_def dict_item_def)

lemma CacheDict_setitem_other:
  assumes "k' \<noteq> k" "CacheDict_getitem (CacheDict_setitem c k v) k' = Inr w"
  shows "CacheDict_getitem c k' = Inr w"
  using assms by (auto simp: CacheDict_getitem_def CacheDict_setitem_def Let_def dict_item_def
    split: if_splits option.splits)

text \<open>
  A \<open>CacheDict\<close> never holds more than \<open>max\<close> entries, and it behaves as a cache of whatever was
  stored: after \<open>c[k] = v\<close> the key \<open>k\<close> gives \<open>v\<close>, and any other key either gives what it gave before
  or nothing at all.
\<close>

theorem CacheDict_bounded_cache:
  assumes "CacheDict_wf c"
  shows "int (length (cd_d (CacheDict_setitem c k v))) \<le> cd_max (CacheDict_setitem c k v)
    \<and> CacheDict_getitem (CacheDict_setitem c k v) k = Inr v
    \<and> (\<forall>k'. k' \<noteq> k \<longrightarrow> CacheDict_getitem (CacheDict_setitem c k v) k' = CacheDict_getitem c k'
         \<or> CacheDict_getitem (CacheDict_setitem c k v) k' = Inl KeyError)"
  using CacheDict_setitem_wf [OF assms, of k v]
  by (auto simp: CacheDict_wf_def CacheDict_getitem_def CacheDict_setitem_def Let_def dict_item_def
    split: if_splits)

theorem CacheDict_bounded_cache_witness:
  "CacheDict_getitem (CacheDict_setitem \<lparr>cd_d = [(1 :: nat, ''a''), (2, ''b'')], cd_max = 2\<rparr> 3 ''c'') 3 = Inr ''c''"
proof -
  have "CacheDict_wf \<lparr>cd_d = [(1 :: nat, ''a''), (2, ''b'')], cd_max = 2\<rparr>"
    by (simp add: CacheDict_wf_def dict_wf_def)
  from CacheDict_bounded_cache [OF this] show ?thesis by blast
qed

end
