(* ===== verification/TimeoutQueues.thy ===== *)
theory TimeoutQueues
  imports Structures "HOL-Library.While_Combinator"
begin

text \<open>
  \<open>TimeoutQueue\<close> of \<open>utils/structures.py\<close>: a queue of time-stamped elements whose old elements are
  dropped from the head.  The class works on any queue object it is given, so its operations take
  the queue's operations as arguments, and its lemmas are proved once, in the locale
  \<open>fifo\<close>.  Times are integers of an arbitrary unit; the clock is an argument
  \<open>now\<close>, one reading for each call of an operation.  The timeout is a number or a callable, and a
  callable reads the environment \<open>e\<close> of the call.
\<close>

datatype 'e timeout = Fixed int | Callable "'e \<Rightarrow> int"

record ('e, 'q) TimeoutQueue =
  tq_queue :: 'q
  tq_timeout :: "'e timeout"

definition TimeoutQueue_new :: "'e timeout \<Rightarrow> 'q option \<Rightarrow> 'q \<Rightarrow> ('e, 'q) TimeoutQueue" where
  "TimeoutQueue_new tmo q smallqueue_empty =
     \<lparr>tq_queue = (case q of None \<Rightarrow> smallqueue_empty | Some q' \<Rightarrow> q'), tq_timeout = tmo\<rparr>"

definition TimeoutQueue_reset :: "('q \<Rightarrow> 'q) \<Rightarrow> ('e, 'q) TimeoutQueue \<Rightarrow> ('e, 'q) TimeoutQueue" where
  "TimeoutQueue_reset reset tq = tq\<lparr>tq_queue := reset (tq_queue tq)\<rparr>"

definition TimeoutQueue_getTimeout :: "'e \<Rightarrow> ('e, 'q) TimeoutQueue \<Rightarrow> int" where
  "TimeoutQueue_getTimeout e tq = (case tq_timeout tq of Fixed t \<Rightarrow> t | Callable f \<Rightarrow> f e)"

text \<open>The guard of the loop in \<open>_clearOldElements\<close>.\<close>

definition TimeoutQueue_headIsOld ::
    "('q \<Rightarrow> (int \<times> 'a) res) \<Rightarrow> ('q \<Rightarrow> nat) \<Rightarrow> int \<Rightarrow> int \<Rightarrow> 'q \<Rightarrow> bool" where
  "TimeoutQueue_headIsOld peek size_of now tmo q \<longleftrightarrow>
     size_of q > 0 \<and> (case peek q of Inl _ \<Rightarrow> False | Inr (t, _) \<Rightarrow> now - t > tmo)"

definition TimeoutQueue_clearOldElements ::
    "('q \<Rightarrow> ((int \<times> 'a) \<times> 'q) res) \<Rightarrow> ('q \<Rightarrow> (int \<times> 'a) res) \<Rightarrow> ('q \<Rightarrow> nat) \<Rightarrow> 'e \<Rightarrow> int
      \<Rightarrow> ('e, 'q) TimeoutQueue \<Rightarrow> ('e, 'q) TimeoutQueue option" where
  "TimeoutQueue_clearOldElements deq peek size_of e now tq =
     map_option (\<lambda>q. tq\<lparr>tq_queue := q\<rparr>)
       (while_option
         (TimeoutQueue_headIsOld peek size_of now (TimeoutQueue_getTimeout e tq))
         (\<lambda>q. case deq q of Inl _ \<Rightarrow> q | Inr (_, q') \<Rightarrow> q')
         (tq_queue tq))"

definition TimeoutQueue_setTimeout :: "'e timeout \<Rightarrow> ('e, 'q) TimeoutQueue \<Rightarrow> ('e, 'q) TimeoutQueue" where
  "TimeoutQueue_setTimeout i tq = tq\<lparr>tq_timeout := i\<rparr>"

definition TimeoutQueue_enqueue ::
    "('q \<Rightarrow> int \<times> 'a \<Rightarrow> 'q) \<Rightarrow> int \<Rightarrow> 'a \<Rightarrow> int option \<Rightarrow> ('e, 'q) TimeoutQueue \<Rightarrow> ('e, 'q) TimeoutQueue" where
  "TimeoutQueue_enqueue enq now elt at tq =
     tq\<lparr>tq_queue := enq (tq_queue tq) (case at of None \<Rightarrow> now | Some t \<Rightarrow> t, elt)\<rparr>"

definition TimeoutQueue_dequeue ::
    "('q \<Rightarrow> ((int \<times> 'a) \<times> 'q) res) \<Rightarrow> ('q \<Rightarrow> (int \<times> 'a) res) \<Rightarrow> ('q \<Rightarrow> nat) \<Rightarrow> 'e \<Rightarrow> int
      \<Rightarrow> ('e, 'q) TimeoutQueue \<Rightarrow> ('a res \<times> ('e, 'q) TimeoutQueue) option" where
  "TimeoutQueue_dequeue deq peek size_of e now tq =
     map_option (\<lambda>tq'. case deq (tq_queue tq') of
         Inl x \<Rightarrow> (Inl x, tq')
       | Inr ((_, elt), q') \<Rightarrow> (Inr elt, tq'\<lparr>tq_queue := q'\<rparr>))
       (TimeoutQueue_clearOldElements deq peek size_of e now tq)"

text \<open>\<open>__iter__\<close> does not clear; it skips the elements whose age is not below the timeout.\<close>

definition TimeoutQueue_iter :: "('q \<Rightarrow> (int \<times> 'a) list) \<Rightarrow> 'e \<Rightarrow> int \<Rightarrow> ('e, 'q) TimeoutQueue \<Rightarrow> 'a list" where
  "TimeoutQueue_iter content e now tq =
     map snd (filter (\<lambda>(t, _). now - t < TimeoutQueue_getTimeout e tq) (content (tq_queue tq)))"

definition TimeoutQueue_len ::
    "('q \<Rightarrow> ((int \<times> 'a) \<times> 'q) res) \<Rightarrow> ('q \<Rightarrow> (int \<times> 'a) res) \<Rightarrow> ('q \<Rightarrow> nat) \<Rightarrow> 'e \<Rightarrow> int
      \<Rightarrow> ('e, 'q) TimeoutQueue \<Rightarrow> (nat \<times> ('e, 'q) TimeoutQueue) option" where
  "TimeoutQueue_len deq peek size_of e now tq =
     map_option (\<lambda>tq'. (size_of (tq_queue tq'), tq'))
       (TimeoutQueue_clearOldElements deq peek size_of e now tq)"

section \<open>The timeout queue over any queue\<close>

text \<open>The interface again, at the element type the class uses: pairs of a time and an element.\<close>

locale timed_fifo = fifo empty enq deq peek size_of content
  for empty :: 'q and enq :: "'q \<Rightarrow> (int \<times> 'a) \<Rightarrow> 'q" and deq :: "'q \<Rightarrow> ((int \<times> 'a) \<times> 'q) res"
    and peek :: "'q \<Rightarrow> (int \<times> 'a) res" and size_of :: "'q \<Rightarrow> nat" and content :: "'q \<Rightarrow> (int \<times> 'a) list"

context timed_fifo
begin

lemma headIsOld_content:
  "TimeoutQueue_headIsOld peek size_of now tmo q \<longleftrightarrow>
     (case content q of [] \<Rightarrow> False | (t, _) # _ \<Rightarrow> now - t > tmo)"
  by (cases "content q")
    (auto simp: TimeoutQueue_headIsOld_def size_content peek_empty peek_Cons split: prod.splits)

lemma clear_loop:
  "\<exists>q'. while_option (TimeoutQueue_headIsOld peek size_of now tmo)
      (\<lambda>q. case deq q of Inl _ \<Rightarrow> q | Inr (_, q') \<Rightarrow> q') q = Some q'
    \<and> content q' = dropWhile (\<lambda>(t, _). now - t > tmo) (content q)"
proof (induction "content q" arbitrary: q)
  case Nil
  then show ?case by (subst while_option_unfold) (simp add: headIsOld_content)
next
  case (Cons x xs)
  obtain t a where x: "x = (t, a)" by (cases x)
  show ?case
  proof (cases "now - t > tmo")
    case True
    from Cons(2) obtain q1 where q1: "deq q = Inr (x, q1)" "content q1 = xs"
      using deq_Cons by metis
    from Cons(1) [OF q1(2) [symmetric]] Cons(2) [symmetric] q1 x True show ?thesis
      by (subst while_option_unfold) (simp add: headIsOld_content)
  next
    case False
    with Cons(2) [symmetric] x show ?thesis
      by (subst while_option_unfold) (simp add: headIsOld_content)
  qed
qed

lemma clear_returns:
  "\<exists>tq'. TimeoutQueue_clearOldElements deq peek size_of e now tq = Some tq'
    \<and> tq_timeout tq' = tq_timeout tq
    \<and> content (tq_queue tq')
        = dropWhile (\<lambda>(t, _). now - t > TimeoutQueue_getTimeout e tq) (content (tq_queue tq))"
  using clear_loop [of now "TimeoutQueue_getTimeout e tq" "tq_queue tq"]
  by (auto simp: TimeoutQueue_clearOldElements_def)

text \<open>The times of a queue filled with a non-decreasing clock are sorted, and then only young elements survive.\<close>

lemma clear_sorted:
  assumes "sorted (map fst (content (tq_queue tq)))"
    and "TimeoutQueue_clearOldElements deq peek size_of e now tq = Some tq'"
  shows "content (tq_queue tq')
    = filter (\<lambda>(t, _). now - t \<le> TimeoutQueue_getTimeout e tq) (content (tq_queue tq))"
proof -
  have drop: "dropWhile (\<lambda>(t, _). now - t > k) xs = filter (\<lambda>(t, _). now - t \<le> k) xs"
    if "sorted (map fst xs)" for k and xs :: "(int \<times> 'a) list"
    using that
  proof (induction xs)
    case (Cons x xs)
    then show ?case by (cases x) (fastforce simp: filter_id_conv intro: sym)
  qed simp
  from clear_returns [of e now tq] assms(2) drop [OF assms(1)] show ?thesis by auto
qed

lemma len_returns:
  assumes "sorted (map fst (content (tq_queue tq)))"
  shows "\<exists>tq'. TimeoutQueue_len deq peek size_of e now tq =
    Some (length (filter (\<lambda>(t, _). now - t \<le> TimeoutQueue_getTimeout e tq) (content (tq_queue tq))), tq')"
proof -
  obtain tq' where tq': "TimeoutQueue_clearOldElements deq peek size_of e now tq = Some tq'"
    using clear_returns [of e now tq] by (elim exE conjE)
  with clear_sorted [OF assms tq'] show ?thesis
    by (simp add: TimeoutQueue_len_def size_content)
qed

lemma dequeue_returns:
  assumes "sorted (map fst (content (tq_queue tq)))"
  shows "\<exists>tq'. TimeoutQueue_dequeue deq peek size_of e now tq =
    Some (case filter (\<lambda>(t, _). now - t \<le> TimeoutQueue_getTimeout e tq) (content (tq_queue tq)) of
            [] \<Rightarrow> Inl IndexError | (_, elt) # _ \<Rightarrow> Inr elt, tq')"
proof -
  obtain tq1 where tq1: "TimeoutQueue_clearOldElements deq peek size_of e now tq = Some tq1"
    using clear_returns [of e now tq] by (elim exE conjE)
  note c = clear_sorted [OF assms tq1]
  show ?thesis
  proof (cases "content (tq_queue tq1)")
    case Nil
    with tq1 c show ?thesis by (simp add: TimeoutQueue_dequeue_def deq_empty)
  next
    case (Cons x xs)
    then obtain q' where "deq (tq_queue tq1) = Inr (x, q')" using deq_Cons by blast
    with tq1 c [symmetric] Cons show ?thesis
      by (cases x) (simp add: TimeoutQueue_dequeue_def)
  qed
qed

lemma enqueue_sorted:
  assumes "sorted (map fst (content (tq_queue tq)))" "\<forall>(t, _) \<in> set (content (tq_queue tq)). t \<le> now"
  shows "sorted (map fst (content (tq_queue (TimeoutQueue_enqueue enq now x None tq))))"
  using assms by (auto simp: TimeoutQueue_enqueue_def content_enq sorted_append)

end

interpretation tsq: timed_fifo "[]" smallqueue_enqueue smallqueue_dequeue smallqueue_peek length "\<lambda>q. q"
  by unfold_locales

interpretation tlq: timed_fifo "\<lparr>q_front = [], q_back = []\<rparr>" queue_enqueue queue_dequeue queue_peek queue_len queue_iter
  by unfold_locales

text \<open>
  \<open>len()\<close> of a timeout queue (over the default \<open>smallqueue\<close>) whose time stamps are in order returns,
  and counts exactly the elements that are at most \<open>timeout\<close> old; an iteration yields only
  those that are strictly younger, so an element whose age equals the timeout is counted and not
  yielded.
\<close>

theorem TimeoutQueue_len_and_iter:
  assumes "sorted (map fst (tq_queue tq))"
  shows "\<exists>tq'. TimeoutQueue_len smallqueue_dequeue smallqueue_peek length e now tq =
      Some (length (filter (\<lambda>(t, _). now - t \<le> TimeoutQueue_getTimeout e tq) (tq_queue tq)), tq')
    \<and> length (TimeoutQueue_iter (\<lambda>q. q) e now tq)
        + length (filter (\<lambda>(t, _). now - t = TimeoutQueue_getTimeout e tq) (tq_queue tq))
      = length (filter (\<lambda>(t, _). now - t \<le> TimeoutQueue_getTimeout e tq) (tq_queue tq))"
proof -
  have "length (filter (\<lambda>(t, _). now - t < k) xs) + length (filter (\<lambda>(t, _). now - t = k) xs)
      = length (filter (\<lambda>(t, _). now - t \<le> k) xs)" for k and xs :: "(int \<times> 'a) list"
    by (induction xs) auto
  with tsq.len_returns [OF assms, of e now] show ?thesis
    by (simp add: TimeoutQueue_iter_def)
qed

theorem TimeoutQueue_len_and_iter_witness:
  "\<exists>tq'. TimeoutQueue_len smallqueue_dequeue smallqueue_peek length () 20
      \<lparr>tq_queue = [(3, ''old''), (10, ''edge''), (15, ''new'')], tq_timeout = Fixed 10\<rparr> = Some (2, tq')"
  using TimeoutQueue_len_and_iter
    [of "\<lparr>tq_queue = [(3, ''old''), (10, ''edge''), (15, ''new'')], tq_timeout = Fixed 10\<rparr>" "()" 20]
  by (simp add: TimeoutQueue_getTimeout_def numeral_2_eq_2)

end
