(* ===== verification/GenCollections.thy ===== *)
theory GenCollections
  imports Supy_Prelude "HOL-Library.Product_Lexorder"
begin

text \<open>
  The generic collections of \<open>utils/gen.py\<close>: \<open>InsensitivePreservingDict\<close>, a dictionary that looks
  keys up by a normal form and remembers the key as it was stored, \<open>NormalizingSet\<close>, a set whose
  elements are equal when their normal forms are, and \<open>sortBy\<close>.  The classes let a subclass
  override the normal form (\<open>key\<close>, \<open>normalize\<close>), so every operation takes it as its first argument;
  \<open>IrcUtils\<close> instantiates it with the IRC case folding.
\<close>

section \<open>InsensitivePreservingDict\<close>

type_synonym ('k, 'v) pdict = "('k, 'k \<times> 'v) dict"

definition pdict_getitem :: "('k \<Rightarrow> 'k) \<Rightarrow> ('k, 'v) pdict \<Rightarrow> 'k \<Rightarrow> 'v res" where
  "pdict_getitem key d k = bindR (dict_item d (key k)) (\<lambda>p. Inr (snd p))"

definition pdict_setitem :: "('k \<Rightarrow> 'k) \<Rightarrow> 'k \<Rightarrow> 'v \<Rightarrow> ('k, 'v) pdict \<Rightarrow> ('k, 'v) pdict" where
  "pdict_setitem key k v d = dict_set (key k) (k, v) d"

definition pdict_delitem :: "('k \<Rightarrow> 'k) \<Rightarrow> 'k \<Rightarrow> ('k, 'v) pdict \<Rightarrow> ('k, 'v) pdict res" where
  "pdict_delitem key k d = dict_del (key k) d"

definition pdict_iteritems :: "('k, 'v) pdict \<Rightarrow> ('k \<times> 'v) list" where
  "pdict_iteritems d = map snd d"

definition pdict_keys :: "('k, 'v) pdict \<Rightarrow> 'k list" where
  "pdict_keys d = map fst (pdict_iteritems d)"

text \<open>\<open>__init__\<close> with a dictionary: \<open>update\<close> stores its items one by one.\<close>

definition pdict_new :: "('k \<Rightarrow> 'k) \<Rightarrow> ('k \<times> 'v) list \<Rightarrow> ('k, 'v) pdict" where
  "pdict_new key items = foldl (\<lambda>d (k, v). pdict_setitem key k v d) [] items"

definition pdict_fromkeys :: "('k \<Rightarrow> 'k) \<Rightarrow> 'k list \<Rightarrow> 'v \<Rightarrow> ('k \<times> 'v) list \<Rightarrow> ('k, 'v) pdict" where
  "pdict_fromkeys key ks s items = foldl (\<lambda>d k. pdict_setitem key k s d) (pdict_new key items) ks"

text \<open>
  What \<open>UserDict.DictMixin\<close> derives from these: \<open>in\<close> tries \<open>__getitem__\<close>, \<open>get\<close> has a default, \<open>pop\<close>
  reads and deletes.
\<close>

definition pdict_lookup :: "('k \<Rightarrow> 'k) \<Rightarrow> ('k, 'v) pdict \<Rightarrow> 'k \<Rightarrow> 'v option" where
  "pdict_lookup key d k = (case pdict_getitem key d k of Inl _ \<Rightarrow> None | Inr v \<Rightarrow> Some v)"

definition pdict_has :: "('k \<Rightarrow> 'k) \<Rightarrow> ('k, 'v) pdict \<Rightarrow> 'k \<Rightarrow> bool" where
  "pdict_has key d k \<longleftrightarrow> pdict_lookup key d k \<noteq> None"

definition pdict_drop :: "('k \<Rightarrow> 'k) \<Rightarrow> 'k \<Rightarrow> ('k, 'v) pdict \<Rightarrow> ('k, 'v) pdict" where
  "pdict_drop key k d = dict_drop (key k) d"

text \<open>Mutating every value in place, as a loop over \<open>itervalues()\<close> that calls a method of each.\<close>

definition pdict_map_values :: "('v \<Rightarrow> 'v) \<Rightarrow> ('k, 'v) pdict \<Rightarrow> ('k, 'v) pdict" where
  "pdict_map_values f d = map (\<lambda>(nk, (k, v)). (nk, (k, f v))) d"

text \<open>Mutating the object stored under a key: the entry and its key stay.\<close>

definition pdict_modify :: "('k \<Rightarrow> 'k) \<Rightarrow> 'k \<Rightarrow> ('v \<Rightarrow> 'v) \<Rightarrow> ('k, 'v) pdict \<Rightarrow> ('k, 'v) pdict" where
  "pdict_modify key k f d = map (\<lambda>(nk, (k0, v)). (nk, (k0, if nk = key k then f v else v))) d"

definition pdict_wf :: "('k \<Rightarrow> 'k) \<Rightarrow> ('k, 'v) pdict \<Rightarrow> bool" where
  "pdict_wf key d \<longleftrightarrow> dict_wf d \<and> (\<forall>(nk, (k, v)) \<in> set d. nk = key k)"

lemma pdict_lookup_eq: "pdict_lookup key d k = map_option snd (dict_get d (key k))"
  by (simp add: pdict_lookup_def pdict_getitem_def dict_item_def split: option.split)

lemma pdict_getitem_lookup:
  "pdict_getitem key d k = (case pdict_lookup key d k of None \<Rightarrow> Inl KeyError | Some v \<Rightarrow> Inr v)"
  by (simp add: pdict_lookup_eq pdict_getitem_def dict_item_def split: option.split)

lemma pdict_lookup_Nil [simp]: "pdict_lookup key [] k = None"
  by (simp add: pdict_lookup_eq)

lemma pdict_lookup_setitem [simp]:
  "pdict_lookup key (pdict_setitem key k v d) k' = (if key k' = key k then Some v else pdict_lookup key d k')"
  by (simp add: pdict_lookup_eq pdict_setitem_def)

lemma pdict_lookup_drop [simp]:
  "pdict_lookup key (pdict_drop key k d) k' = (if key k' = key k then None else pdict_lookup key d k')"
  by (simp add: pdict_lookup_eq pdict_drop_def)

lemma pdict_delitem_eq:
  "pdict_delitem key k d = (if pdict_has key d k then Inr (pdict_drop key k d) else Inl KeyError)"
  by (auto simp: pdict_delitem_def dict_del_def pdict_has_def pdict_drop_def pdict_lookup_eq dict_has_def)

lemma pdict_lookup_map_values [simp]:
  "pdict_lookup key (pdict_map_values f d) k = map_option f (pdict_lookup key d k)"
  by (induction d) (auto simp: pdict_lookup_eq pdict_map_values_def split: if_splits)

lemma map_fst_pdict_map_values [simp]: "map fst (pdict_map_values f d) = map fst d"
  by (auto simp: pdict_map_values_def)

lemma pdict_lookup_modify [simp]:
  "pdict_lookup key (pdict_modify key k f d) k'
    = (if key k' = key k then map_option f (pdict_lookup key d k') else pdict_lookup key d k')"
  by (induction d) (auto simp: pdict_lookup_eq pdict_modify_def split: if_splits)

lemma map_fst_pdict_modify [simp]: "map fst (pdict_modify key k f d) = map fst d"
  by (auto simp: pdict_modify_def)

lemma pdict_wf_Nil [simp, wf_intros]: "pdict_wf key []"
  by (simp add: pdict_wf_def)

lemma pdict_wf_setitem [wf_intros]: "pdict_wf key d \<Longrightarrow> pdict_wf key (pdict_setitem key k v d)"
  by (auto simp: pdict_wf_def pdict_setitem_def dict_wf_set dest!: set_dict_set)

lemma pdict_wf_drop [wf_intros]: "pdict_wf key d \<Longrightarrow> pdict_wf key (pdict_drop key k d)"
  using set_dict_drop [of "key k" d] by (auto simp: pdict_wf_def pdict_drop_def dict_wf_drop)

lemma pdict_wf_map_values [wf_intros]: "pdict_wf key d \<Longrightarrow> pdict_wf key (pdict_map_values f d)"
  by (auto simp: pdict_wf_def dict_wf_def) (auto simp: pdict_map_values_def)

lemma pdict_wf_modify [wf_intros]: "pdict_wf key d \<Longrightarrow> pdict_wf key (pdict_modify key k f d)"
  by (auto simp: pdict_wf_def dict_wf_def) (auto simp: pdict_modify_def)

text \<open>Every value satisfies \<open>P\<close>.\<close>

definition pdict_all :: "('v \<Rightarrow> bool) \<Rightarrow> ('k, 'v) pdict \<Rightarrow> bool" where
  "pdict_all P d \<longleftrightarrow> list_all (\<lambda>p. P (snd (snd p))) d"

lemma pdict_all_Nil [simp, wf_intros]: "pdict_all P []"
  by (simp add: pdict_all_def)

lemma pdict_all_lookup: "pdict_all P d \<Longrightarrow> pdict_lookup key d k = Some v \<Longrightarrow> P v"
  by (force simp: pdict_all_def pdict_lookup_eq list_all_iff dest: map_of_SomeD)

lemma pdict_all_setitem [wf_intros]: "pdict_all P d \<Longrightarrow> P v \<Longrightarrow> pdict_all P (pdict_setitem key k v d)"
  by (force simp: pdict_all_def list_all_iff pdict_setitem_def dest!: set_dict_set)

lemma pdict_all_drop [wf_intros]: "pdict_all P d \<Longrightarrow> pdict_all P (pdict_drop key k d)"
  using set_dict_drop [of "key k" d] by (force simp: pdict_all_def list_all_iff pdict_drop_def)

lemma pdict_all_modify [wf_intros]: "pdict_all P d \<Longrightarrow> (\<And>v. P v \<Longrightarrow> P (f v)) \<Longrightarrow> pdict_all P (pdict_modify key k f d)"
  by (force simp: pdict_all_def list_all_iff pdict_modify_def)

lemma pdict_all_map_values [wf_intros]: "pdict_all P d \<Longrightarrow> (\<And>v. P v \<Longrightarrow> P (f v)) \<Longrightarrow> pdict_all P (pdict_map_values f d)"
  by (force simp: pdict_all_def list_all_iff pdict_map_values_def)

text \<open>The interface its users rely on: a map whose keys are compared by their normal forms.\<close>

locale keyed_map =
  fixes norm :: "'k \<Rightarrow> 'n"
    and empty :: 'm
    and lookup :: "'m \<Rightarrow> 'k \<Rightarrow> 'v option"
    and store :: "'k \<Rightarrow> 'v \<Rightarrow> 'm \<Rightarrow> 'm"
    and drop_key :: "'k \<Rightarrow> 'm \<Rightarrow> 'm"
  assumes lookup_empty: "lookup empty k = None"
    and lookup_store: "lookup (store k v m) k' = (if norm k' = norm k then Some v else lookup m k')"
    and lookup_drop: "lookup (drop_key k m) k' = (if norm k' = norm k then None else lookup m k')"
begin

lemma lookup_store_same: "norm k' = norm k \<Longrightarrow> lookup (store k v m) k' = Some v"
  by (simp add: lookup_store)

lemma store_store: "norm k = norm k' \<Longrightarrow> lookup (store k v (store k' w m)) = lookup (store k v m)"
  by (rule ext) (simp add: lookup_store)

lemma store_commute:
  "norm k \<noteq> norm k' \<Longrightarrow> lookup (store k v (store k' w m)) = lookup (store k' w (store k v m))"
  by (rule ext) (simp add: lookup_store)

lemma drop_store: "norm k = norm k' \<Longrightarrow> lookup (drop_key k (store k' v m)) = lookup (drop_key k m)"
  by (rule ext) (simp add: lookup_store lookup_drop)

text \<open>The state of a renaming: the entry moves to the new key and nothing else changes.\<close>

lemma rename:
  assumes "lookup m old = Some v" "norm new \<noteq> norm old"
  shows "lookup (drop_key old (store new v m)) k
    = (if norm k = norm old then None else if norm k = norm new then Some v else lookup m k)"
  using assms by (simp add: lookup_store lookup_drop)

end

interpretation pd: keyed_map key "[]" "pdict_lookup key" "pdict_setitem key" "pdict_drop key"
  for key :: "'k \<Rightarrow> 'k"
  by unfold_locales simp_all

section \<open>NormalizingSet\<close>

type_synonym 'a nset = "'a list"

definition nset_contains :: "('a \<Rightarrow> 'n) \<Rightarrow> 'a nset \<Rightarrow> 'a \<Rightarrow> bool" where
  "nset_contains nrm s x \<longleftrightarrow> nrm x \<in> nrm ` set s"

definition nset_add :: "('a \<Rightarrow> 'n) \<Rightarrow> 'a \<Rightarrow> 'a nset \<Rightarrow> 'a nset" where
  "nset_add nrm x s = (if nset_contains nrm s x then s else s @ [x])"

definition nset_discard :: "('a \<Rightarrow> 'n) \<Rightarrow> 'a \<Rightarrow> 'a nset \<Rightarrow> 'a nset" where
  "nset_discard nrm x s = filter (\<lambda>y. nrm y \<noteq> nrm x) s"

definition nset_remove :: "('a \<Rightarrow> 'n) \<Rightarrow> 'a \<Rightarrow> 'a nset \<Rightarrow> 'a nset res" where
  "nset_remove nrm x s =
     (if nset_contains nrm s x then Inr (nset_discard nrm x s) else Inl KeyError)"

definition nset_new :: "('a \<Rightarrow> 'n) \<Rightarrow> 'a list \<Rightarrow> 'a nset" where
  "nset_new nrm xs = foldl (\<lambda>s x. nset_add nrm x s) [] xs"

definition nset_wf :: "('a \<Rightarrow> 'n) \<Rightarrow> 'a nset \<Rightarrow> bool" where
  "nset_wf nrm s \<longleftrightarrow> distinct (map nrm s)"

text \<open>The abstraction: the set of the normal forms.\<close>

definition nset_abs :: "('a \<Rightarrow> 'n) \<Rightarrow> 'a nset \<Rightarrow> 'n set" where
  "nset_abs nrm s = nrm ` set s"

lemma nset_contains_abs [simp]: "nset_contains nrm s x \<longleftrightarrow> nrm x \<in> nset_abs nrm s"
  by (simp add: nset_contains_def nset_abs_def)

lemma nset_abs_Nil [simp]: "nset_abs nrm [] = {}"
  by (simp add: nset_abs_def)

lemma nset_abs_add [simp]: "nset_abs nrm (nset_add nrm x s) = insert (nrm x) (nset_abs nrm s)"
  by (auto simp: nset_add_def nset_contains_def nset_abs_def)

lemma nset_abs_discard [simp]: "nset_abs nrm (nset_discard nrm x s) = nset_abs nrm s - {nrm x}"
  by (auto simp: nset_discard_def nset_abs_def)

lemma nset_abs_new: "nset_abs nrm (nset_new nrm xs) = nrm ` set xs"
proof -
  have "nset_abs nrm (foldl (\<lambda>s x. nset_add nrm x s) s xs) = nset_abs nrm s \<union> nrm ` set xs" for s
    by (induction xs arbitrary: s) auto
  then show ?thesis by (simp add: nset_new_def)
qed

lemma nset_wf_Nil [simp, wf_intros]: "nset_wf nrm []"
  by (simp add: nset_wf_def)

lemma nset_wf_add [wf_intros]: "nset_wf nrm s \<Longrightarrow> nset_wf nrm (nset_add nrm x s)"
  by (auto simp: nset_wf_def nset_add_def nset_contains_def simp del: nset_contains_abs)

lemma nset_wf_discard [wf_intros]: "nset_wf nrm s \<Longrightarrow> nset_wf nrm (nset_discard nrm x s)"
  by (simp add: nset_wf_def nset_discard_def distinct_map inj_on_def)

text \<open>The interface of a set of names: what the channel state needs of its four sets.\<close>

locale name_set =
  fixes norm :: "'a \<Rightarrow> 'n"
    and empty :: 's
    and isin :: "'s \<Rightarrow> 'a \<Rightarrow> bool"
    and add :: "'a \<Rightarrow> 's \<Rightarrow> 's"
    and discard :: "'a \<Rightarrow> 's \<Rightarrow> 's"
    and abs :: "'s \<Rightarrow> 'n set"
  assumes abs_empty: "abs empty = {}"
    and isin_abs: "isin s x \<longleftrightarrow> norm x \<in> abs s"
    and abs_add: "abs (add x s) = insert (norm x) (abs s)"
    and abs_discard: "abs (discard x s) = abs s - {norm x}"
begin

lemma isin_add: "isin (add x s) y \<longleftrightarrow> norm y = norm x \<or> isin s y"
  by (auto simp: isin_abs abs_add)

lemma isin_discard: "isin (discard x s) y \<longleftrightarrow> norm y \<noteq> norm x \<and> isin s y"
  by (auto simp: isin_abs abs_discard)

text \<open>A renaming keeps the cardinality of the set when the new name is not in it.\<close>

lemma abs_rename:
  assumes "isin s old"
  shows "abs (add new (discard old s)) = insert (norm new) (abs s - {norm old})"
  using assms by (simp add: abs_add abs_discard)

end

interpretation ns: name_set nrm "[]" "nset_contains nrm" "nset_add nrm"
    "nset_discard nrm" "nset_abs nrm"
  for nrm :: "'a \<Rightarrow> 'n"
  by unfold_locales simp_all

section \<open>sortBy\<close>

text \<open>
  \<open>sortBy(f, L)\<close> decorates every element with \<open>(f(elt), i)\<close>, sorts the triples, and strips the
  decoration; the index makes the decorated triples distinct before the element is compared.
\<close>

definition sortBy :: "('a \<Rightarrow> 'b::linorder) \<Rightarrow> 'a list \<Rightarrow> 'a list" where
  "sortBy f L =
     map (\<lambda>(_, _, elt). elt)
       (sort_key (\<lambda>(k, i, _). (k, i)) (map (\<lambda>(i, elt). (f elt, i, elt)) (zip [0..<length L] L)))"

lemma insort_key_map: "map g (insort_key (h \<circ> g) x xs) = insort_key h (g x) (map g xs)"
  by (induction xs) auto

lemma sort_key_map: "map g (sort_key (h \<circ> g) xs) = sort_key h (map g xs)"
  by (induction xs) (simp_all add: insort_key_map [unfolded comp_def] comp_def)

lemma sort_key_lex_index:
  fixes f :: "'a \<Rightarrow> 'b::linorder"
  assumes "sorted (map fst xs)" "distinct (map fst xs)"
  shows "sort_key (\<lambda>(i, e). (f e, i)) xs = sort_key (\<lambda>(i :: nat, e). f e) xs"
  using assms
proof (induction xs)
  case (Cons p xs)
  obtain i e where p: "p = (i, e)" by (cases p)
  have ih: "sort_key (\<lambda>(i, e). (f e, i)) xs = sort_key (\<lambda>(i, e). f e) xs" using Cons by simp
  have less: "\<forall>q \<in> set xs. i < fst q"
    using Cons.prems p by (auto simp: sorted_wrt_map order_less_le)
  have "insort_key (\<lambda>(i, e). (f e, i)) (i, e) ys = insort_key (\<lambda>(i, e). f e) (i, e) ys"
    if "\<forall>q \<in> set ys. i < fst q" for ys
    using that by (induction ys) (auto simp: less_eq_prod_def)
  with less have "insort_key (\<lambda>(i, e). (f e, i)) (i, e) (sort_key (\<lambda>(i, e). f e) xs)
      = insort_key (\<lambda>(i, e). f e) (i, e) (sort_key (\<lambda>(i, e). f e) xs)" by simp
  with ih p show ?case by simp
qed simp

text \<open>
  \<open>sortBy\<close> is the stable sort by \<open>f\<close>: its result is the list sorted by \<open>f\<close> with elements of equal \<open>f\<close>
  in their original order.
\<close>

theorem sortBy_stable: "sortBy f L = sort_key f L"
proof -
  let ?xs = "zip [0..<length L] L"
  have "sort_key (\<lambda>(k, i, _). (k, i)) (map (\<lambda>(i, e). (f e, i, e)) ?xs)
      = map (\<lambda>(i, e). (f e, i, e)) (sort_key (\<lambda>(i, e). (f e, i)) ?xs)"
    using sort_key_map [of "\<lambda>(i, e). (f e, i, e)" "\<lambda>(k, i, _). (k, i)" ?xs]
    by (simp add: comp_def case_prod_unfold)
  moreover have "sort_key (\<lambda>(i, e). (f e, i)) ?xs = sort_key (\<lambda>(i, e). f e) ?xs"
    by (rule sort_key_lex_index) simp_all
  moreover have "map snd (sort_key (\<lambda>(i, e). f e) ?xs) = sort_key f (map snd ?xs)"
    using sort_key_map [of snd f ?xs] by (simp add: comp_def case_prod_unfold)
  ultimately show ?thesis by (simp add: sortBy_def comp_def case_prod_unfold)
qed

end
