(* ===== verification/IrcUtils.thy ===== *)
theory IrcUtils
  imports PyString Structures GenCollections
begin

text \<open>
  \<open>ircutils.py\<close>: hostmasks, IRC case folding, nick and channel names, hostmask patterns (with
  their two caches), ban masks, mode lines, DCC addresses and the case-insensitive collections.
  A value that the code takes as a string or an int is a \<open>pyval\<close>.
\<close>

datatype pyval = PStr string | PInt int

fun py_str :: "pyval \<Rightarrow> string" where
  "py_str (PStr s) = s"
| "py_str (PInt i) = str_of_int i"

section \<open>Hostmasks\<close>

definition isUserHostmask :: "string \<Rightarrow> bool" where
  "isUserHostmask s \<longleftrightarrow>
     (let p1 = find_char CHR ''!'' s; p2 = find_char CHR ''@'' s in
      p1 < p2 - 1 \<and> p1 \<ge> 1 \<and> p2 \<ge> 3 \<and> int (length s) > p2 + 1)"

definition isServerHostmask :: "string \<Rightarrow> bool" where
  "isServerHostmask s \<longleftrightarrow> \<not> isUserHostmask s"

text \<open>\<open>(a, b) = s.split(c, 1)\<close>: a string without the separator has one piece and the unpacking raises.\<close>

definition unpack2 :: "string \<times> string option \<Rightarrow> (string \<times> string) res" where
  "unpack2 p = (case p of (a, Some b) \<Rightarrow> Inr (a, b) | (a, None) \<Rightarrow> Inl ValueError)"

text \<open>\<open>s.split(c, 1)[1]\<close>.\<close>

definition second_piece :: "string \<times> string option \<Rightarrow> string res" where
  "second_piece p = (case p of (a, Some b) \<Rightarrow> Inr b | (a, None) \<Rightarrow> Inl IndexError)"

definition nickFromHostmask :: "string \<Rightarrow> string res" where
  "nickFromHostmask hostmask =
     py_assert (isUserHostmask hostmask) (Inr (fst (split_char1 CHR ''!'' hostmask)))"

definition userFromHostmask :: "string \<Rightarrow> string res" where
  "userFromHostmask hostmask =
     py_assert (isUserHostmask hostmask)
       (bindR (second_piece (split_char1 CHR ''!'' hostmask)) (\<lambda>r. Inr (fst (split_char1 CHR ''@'' r))))"

definition hostFromHostmask :: "string \<Rightarrow> string res" where
  "hostFromHostmask hostmask =
     py_assert (isUserHostmask hostmask) (second_piece (split_char1 CHR ''@'' hostmask))"

definition splitHostmask :: "string \<Rightarrow> (string \<times> string \<times> string) res" where
  "splitHostmask hostmask =
     py_assert (isUserHostmask hostmask)
       (bindR (unpack2 (split_char1 CHR ''!'' hostmask)) (\<lambda>(nick, rest).
        bindR (unpack2 (split_char1 CHR ''@'' rest)) (\<lambda>(user, host).
        Inr (nick, user, host))))"

definition joinHostmask :: "string \<Rightarrow> string \<Rightarrow> string \<Rightarrow> string res" where
  "joinHostmask nick ident host =
     py_assert (nick \<noteq> [] \<and> ident \<noteq> [] \<and> host \<noteq> []) (Inr (nick @ ''!'' @ ident @ ''@'' @ host))"

section \<open>IRC case folding\<close>

definition rfc1459_char :: "char \<Rightarrow> char" where
  "rfc1459_char c =
     (if c = CHR 0x5C then CHR ''|''
      else if c = CHR ''['' then CHR ''{''
      else if c = CHR '']'' then CHR ''}''
      else if c = CHR ''~'' then CHR ''^''
      else lower_char c)"

datatype casemapping = Rfc1459 | Ascii | OtherMapping string

definition toLower_as :: "string \<Rightarrow> casemapping option \<Rightarrow> string res" where
  "toLower_as s casemapping =
     (case casemapping of
        None \<Rightarrow> Inr (map rfc1459_char s)
      | Some Rfc1459 \<Rightarrow> Inr (map rfc1459_char s)
      | Some Ascii \<Rightarrow> Inr (py_lower s)
      | Some (OtherMapping _) \<Rightarrow> Inl ValueError)"

text \<open>\<open>toLower(s)\<close>, as every caller but the tests uses it.\<close>

definition toLower :: "string \<Rightarrow> string" where
  "toLower s = map rfc1459_char s"

definition strEqual :: "string \<Rightarrow> string \<Rightarrow> bool" where
  "strEqual nick1 nick2 \<longleftrightarrow> toLower nick1 = toLower nick2"

section \<open>Nicks and channels\<close>

definition nickchars :: string where
  "nickchars = ''[]'' @ [CHR 0x5C, CHR 0x60] @ ''_^{|}''"

definition nick_first :: "char \<Rightarrow> bool" where
  "nick_first c \<longleftrightarrow> is_alpha c \<or> c \<in> set nickchars"

definition nick_rest :: "char \<Rightarrow> bool" where
  "nick_rest c \<longleftrightarrow> c = CHR ''-'' \<or> is_digit c \<or> nick_first c"

text \<open>\<open>nickRe.match(s)\<close>: the final \<open>$\<close> also matches before one trailing newline.\<close>

definition nickRe_match :: "string \<Rightarrow> bool" where
  "nickRe_match s \<longleftrightarrow>
     (let t = (if endswith s [CHR 0x0A] then butlast s else s) in
      t \<noteq> [] \<and> nick_first (hd t) \<and> (\<forall>c \<in> set (tl t). nick_rest c))"

definition isChannel_with :: "string \<Rightarrow> int \<Rightarrow> string \<Rightarrow> bool" where
  "isChannel_with chantypes channellen s \<longleftrightarrow>
     s \<noteq> [] \<and> CHR '','' \<notin> set s \<and> CHR 0x07 \<notin> set s \<and> hd s \<in> set chantypes \<and>
     int (length s) \<le> channellen \<and> length (split_ws1 s) = 1"

abbreviation isChannel :: "string \<Rightarrow> bool" where
  "isChannel \<equiv> isChannel_with ''#&+!'' 50"

definition isNick_with :: "bool \<Rightarrow> int option \<Rightarrow> string \<Rightarrow> bool" where
  "isNick_with strictRfc nicklen s =
     (if strictRfc then
        nickRe_match s \<and> (case nicklen of None \<Rightarrow> True | Some n \<Rightarrow> int (length s) \<le> n)
      else \<not> isChannel s \<and> \<not> isUserHostmask s \<and> CHR '' '' \<notin> set s \<and> CHR ''!'' \<notin> set s)"

abbreviation isNick :: "string \<Rightarrow> bool" where
  "isNick \<equiv> isNick_with True None"

section \<open>Hostmask patterns\<close>

text \<open>
  The regular expression \<open>_hostmaskPatternEqual\<close> builds is a sequence of one token for each
  character of the pattern, compiled with \<open>re.I\<close>: \<open>.*\<close> and \<open>.\<close> (which do not match a newline), a
  class of two characters that IRC holds to be the same letter, or an escaped character.
\<close>

datatype ptok = AnySeq | AnyChar | OneOf string | Lit char

definition pattern_token :: "char \<Rightarrow> ptok" where
  "pattern_token c =
     (if c = CHR ''*'' then AnySeq
      else if c = CHR ''?'' then AnyChar
      else if c \<in> set ''[{'' then OneOf ''[{''
      else if c \<in> set ''}]'' then OneOf ''}]''
      else if c \<in> set [CHR ''|'', CHR 0x5C] then OneOf [CHR ''|'', CHR 0x5C]
      else if c \<in> set ''^~'' then OneOf ''~^''
      else Lit c)"

definition compile_pattern :: "string \<Rightarrow> ptok list" where
  "compile_pattern pattern = map pattern_token pattern"

fun tok_match :: "ptok \<Rightarrow> char \<Rightarrow> bool" where
  "tok_match AnySeq c \<longleftrightarrow> c \<noteq> CHR 0x0A"
| "tok_match AnyChar c \<longleftrightarrow> c \<noteq> CHR 0x0A"
| "tok_match (OneOf cs) c \<longleftrightarrow> c \<in> set cs"
| "tok_match (Lit a) c \<longleftrightarrow> lower_char c = lower_char a"

fun pat_match :: "ptok list \<Rightarrow> string \<Rightarrow> bool" where
  "pat_match [] s \<longleftrightarrow> s = [] \<or> s = [CHR 0x0A]"
| "pat_match (AnySeq # p) [] \<longleftrightarrow> pat_match p []"
| "pat_match (AnySeq # p) (c # s) \<longleftrightarrow> pat_match p (c # s) \<or> tok_match AnySeq c \<and> pat_match (AnySeq # p) s"
| "pat_match (t # p) [] \<longleftrightarrow> False"
| "pat_match (t # p) (c # s) \<longleftrightarrow> tok_match t c \<and> pat_match p s"

definition patternEqual :: "string \<Rightarrow> string \<Rightarrow> bool" where
  "patternEqual pattern hostmask \<longleftrightarrow> pat_match (compile_pattern pattern) hostmask"

text \<open>The functions themselves go through two global caches.\<close>

record pattern_caches =
  patternCache :: "(string, ptok list) CacheDict"
  equalCache :: "(string \<times> string, bool) CacheDict"

definition u_hostmaskPatternEqual :: "string \<Rightarrow> string \<Rightarrow> pattern_caches \<Rightarrow> bool \<times> pattern_caches" where
  "u_hostmaskPatternEqual pattern hostmask st =
     (case CacheDict_getitem (patternCache st) pattern of
        Inr f \<Rightarrow> (pat_match f hostmask, st)
      | Inl _ \<Rightarrow>
          let f = compile_pattern pattern
          in (pat_match f hostmask, st\<lparr>patternCache := CacheDict_setitem (patternCache st) pattern f\<rparr>))"

definition hostmaskPatternEqual :: "string \<Rightarrow> string \<Rightarrow> pattern_caches \<Rightarrow> bool \<times> pattern_caches" where
  "hostmaskPatternEqual pattern hostmask st =
     (case CacheDict_getitem (equalCache st) (pattern, hostmask) of
        Inr b \<Rightarrow> (b, st)
      | Inl _ \<Rightarrow>
          (case u_hostmaskPatternEqual pattern hostmask st of (b, st') \<Rightarrow>
            (b, st'\<lparr>equalCache := CacheDict_setitem (equalCache st') (pattern, hostmask) b\<rparr>)))"

definition pattern_caches_init :: pattern_caches where
  "pattern_caches_init = \<lparr>patternCache = CacheDict_new 1000, equalCache = CacheDict_new 1000\<rparr>"

section \<open>Ban masks\<close>

text \<open>\<open>L = host.split(c); L[-1] = '*'; c.join(L)\<close>.\<close>

definition star_last :: "char \<Rightarrow> string \<Rightarrow> string" where
  "star_last c host = join_char c (butlast (split_char c host) @ [''*''])"

text \<open>The address tests of \<open>utils.net\<close> call the C library and are arguments.\<close>

definition banmask :: "(string \<Rightarrow> bool) \<Rightarrow> (string \<Rightarrow> bool) \<Rightarrow> string \<Rightarrow> string res" where
  "banmask isIP isIPV6 hostmask =
     py_assert (isUserHostmask hostmask)
       (bindR (hostFromHostmask hostmask) (\<lambda>host.
          if isIP host then Inr (''*!*@'' @ star_last CHR ''.'' host)
          else if isIPV6 host then Inr (''*!*@'' @ star_last CHR '':'' host)
          else if CHR ''.'' \<in> set host then Inr (''*!*@*'' @ dropWhile (\<lambda>c. c \<noteq> CHR ''.'') host)
          else Inr (''*!*@'' @ host)))"

section \<open>Mode lines\<close>

definition plusRequireArguments :: string where
  "plusRequireArguments = ''ovhblkqe''"

definition minusRequireArguments :: string where
  "minusRequireArguments = ''ovhbkqe''"

text \<open>\<open>arg = int(arg)\<close>, kept as it is when that raises \<open>ValueError\<close>.\<close>

fun mode_arg :: "pyval \<Rightarrow> pyval" where
  "mode_arg (PStr s) = (case int_of_str s of Inr i \<Rightarrow> PInt i | Inl _ \<Rightarrow> PStr s)"
| "mode_arg (PInt i) = PInt i"

type_synonym mode_change = "string \<times> pyval option"

text \<open>The loop over the characters; \<open>lst\<close> (the source's \<open>last\<close>) is the sign in force.\<close>

fun separate_loop :: "string \<Rightarrow> char \<Rightarrow> pyval list \<Rightarrow> mode_change list res" where
  "separate_loop [] lst args = Inr []"
| "separate_loop (c # modes) lst args =
     (if c \<in> set ''+-'' then separate_loop modes c args
      else if c \<in> set (if lst = CHR ''+'' then plusRequireArguments else minusRequireArguments) then
        (case args of
           [] \<Rightarrow> Inl IndexError
         | a # args' \<Rightarrow> bindR (separate_loop modes lst args') (\<lambda>ret. Inr (([lst, c], Some (mode_arg a)) # ret)))
      else bindR (separate_loop modes lst args) (\<lambda>ret. Inr (([lst, c], None) # ret)))"

definition separateModes :: "pyval list \<Rightarrow> mode_change list res" where
  "separateModes args =
     (case args of
        [] \<Rightarrow> Inr []
      | PInt _ # _ \<Rightarrow> Inl TypeError
      | PStr modes # rest \<Rightarrow>
          (if modes = [] then Inl IndexError
           else py_assert (hd modes \<in> set ''+-'') (separate_loop modes (hd modes) rest)))"

text \<open>
  \<open>joinModes\<close>: the arguments in order, and the mode characters with a sign where it changes.
  \<open>mode[0]\<close> and \<open>mode[1]\<close> raise on a mode string that is too short.
\<close>

fun join_loop :: "mode_change list \<Rightarrow> char \<Rightarrow> (string \<times> pyval list) res" where
  "join_loop [] currentMode = Inr ([], [])"
| "join_loop ((m, arg) # modes) currentMode =
     (if length m < 2 then Inl IndexError
      else bindR (join_loop modes (if startswith m [currentMode] then currentMode else m ! 0)) (\<lambda>(cs, args).
        Inr ((if startswith m [currentMode] then [m ! 1] else [m ! 0, m ! 1]) @ cs,
             (case arg of None \<Rightarrow> args | Some a \<Rightarrow> a # args))))"

definition joinModes :: "mode_change list \<Rightarrow> pyval list res" where
  "joinModes modes = bindR (join_loop modes CHR 0x00) (\<lambda>(cs, args). Inr (PStr cs # args))"

section \<open>Arguments of messages\<close>

definition isValidArgument :: "string \<Rightarrow> bool" where
  "isValidArgument s \<longleftrightarrow> CHR 0x0D \<notin> set s \<and> CHR 0x0A \<notin> set s \<and> CHR 0x00 \<notin> set s"

text \<open>\<open>repr\<close> of a byte string.\<close>

definition hex_digit :: "nat \<Rightarrow> char" where
  "hex_digit n = (if n < 10 then char_of (48 + n) else char_of (87 + n))"

definition repr_char :: "char \<Rightarrow> char \<Rightarrow> string" where
  "repr_char quote c =
     (if c = quote \<or> c = CHR 0x5C then [CHR 0x5C, c]
      else if c = CHR 0x09 then [CHR 0x5C, CHR ''t'']
      else if c = CHR 0x0A then [CHR 0x5C, CHR ''n'']
      else if c = CHR 0x0D then [CHR 0x5C, CHR ''r'']
      else if ord c < 32 \<or> 127 \<le> ord c then [CHR 0x5C, CHR ''x'', hex_digit (ord c div 16), hex_digit (ord c mod 16)]
      else [c])"

definition py_repr :: "string \<Rightarrow> string" where
  "py_repr s =
     (let quote = (if CHR 0x27 \<in> set s \<and> CHR 0x22 \<notin> set s then CHR 0x22 else CHR 0x27)
      in quote # concat (map (repr_char quote) s) @ [quote])"

definition safeArgument :: "pyval \<Rightarrow> string" where
  "safeArgument v = (let s = py_str v in if isValidArgument s then s else py_repr s)"

section \<open>DCC addresses\<close>

fun dcc_sum :: "string list \<Rightarrow> int \<Rightarrow> int \<Rightarrow> int res" where
  "dcc_sum [] x i = Inr i"
| "dcc_sum (quad # quads) x i = bindR (int_of_str quad) (\<lambda>q. dcc_sum quads (x div 256) (i + q * x))"

definition dccIP :: "(string \<Rightarrow> bool) \<Rightarrow> string \<Rightarrow> int res" where
  "dccIP isIP ip = py_assert (isIP ip) (dcc_sum (split_char CHR ''.'' ip) (256 ^ 3) 0)"

fun unDcc_quads :: "nat \<Rightarrow> int \<Rightarrow> int list" where
  "unDcc_quads 0 i = []"
| "unDcc_quads (Suc n) i = (i mod 256) # unDcc_quads n (i div 256)"

definition unDccIP :: "int \<Rightarrow> string" where
  "unDccIP i = join_char CHR ''.'' (map str_of_int (rev (unDcc_quads 4 i)))"

section \<open>IrcString, IrcDict, IrcSet\<close>

definition IrcString_eq :: "string \<Rightarrow> string \<Rightarrow> bool" where
  "IrcString_eq x s \<longleftrightarrow> toLower s = toLower x"

definition IrcString_hash :: "(string \<Rightarrow> int) \<Rightarrow> string \<Rightarrow> int" where
  "IrcString_hash hash x = hash (toLower x)"

type_synonym 'v IrcDict = "(string, 'v) pdict"
type_synonym IrcSet = "string nset"

text \<open>The methods of the two classes are those of their base classes at \<open>key = toLower\<close> and \<open>normalize = IrcString\<close>.\<close>

definition IrcDict_key :: "string option \<Rightarrow> string option" where
  "IrcDict_key s = map_option toLower s"

definition IrcSet_normalize :: "string \<Rightarrow> string" where
  "IrcSet_normalize s = toLower s"

abbreviation ircdict_get :: "'v IrcDict \<Rightarrow> string \<Rightarrow> 'v option" where
  "ircdict_get \<equiv> pdict_lookup toLower"

abbreviation ircdict_item :: "'v IrcDict \<Rightarrow> string \<Rightarrow> 'v res" where
  "ircdict_item \<equiv> pdict_getitem toLower"

abbreviation ircdict_set :: "string \<Rightarrow> 'v \<Rightarrow> 'v IrcDict \<Rightarrow> 'v IrcDict" where
  "ircdict_set \<equiv> pdict_setitem toLower"

abbreviation ircdict_drop :: "string \<Rightarrow> 'v IrcDict \<Rightarrow> 'v IrcDict" where
  "ircdict_drop \<equiv> pdict_drop toLower"

abbreviation ircdict_modify :: "string \<Rightarrow> ('v \<Rightarrow> 'v) \<Rightarrow> 'v IrcDict \<Rightarrow> 'v IrcDict" where
  "ircdict_modify \<equiv> pdict_modify toLower"

abbreviation ircset_has :: "IrcSet \<Rightarrow> string \<Rightarrow> bool" where
  "ircset_has \<equiv> nset_contains toLower"

abbreviation ircset_add :: "string \<Rightarrow> IrcSet \<Rightarrow> IrcSet" where
  "ircset_add \<equiv> nset_add toLower"

abbreviation ircset_discard :: "string \<Rightarrow> IrcSet \<Rightarrow> IrcSet" where
  "ircset_discard \<equiv> nset_discard toLower"

abbreviation ircset_abs :: "IrcSet \<Rightarrow> string set" where
  "ircset_abs \<equiv> nset_abs toLower"

section \<open>Laws of the hostmask functions\<close>

text \<open>A user hostmask is \<open>nick!user@host\<close> with the three parts non-empty.\<close>

definition hostmask_parts :: "string \<Rightarrow> string \<Rightarrow> string \<Rightarrow> bool" where
  "hostmask_parts nick user host \<longleftrightarrow>
     nick \<noteq> [] \<and> user \<noteq> [] \<and> host \<noteq> [] \<and>
     CHR ''!'' \<notin> set nick \<and> CHR ''@'' \<notin> set nick \<and> CHR ''@'' \<notin> set user"

lemma find_at_hostmask:
  assumes "CHR ''@'' \<notin> set nick" "CHR ''@'' \<notin> set user"
  shows "find_char CHR ''@'' (nick @ ''!'' @ user @ ''@'' @ host) = int (length nick + 1 + length user)"
  using find_char_first [of "CHR ''@''" "nick @ ''!'' @ user" host] assms by simp

lemma isUserHostmask_parts:
  assumes "hostmask_parts nick user host"
  shows "isUserHostmask (nick @ ''!'' @ user @ ''@'' @ host)"
  using assms find_at_hostmask [of nick user host] find_char_first [of "CHR ''!''" nick "user @ ''@'' @ host"]
  by (cases nick; cases user; cases host) (auto simp: hostmask_parts_def isUserHostmask_def Let_def)

lemma isUserHostmaskE:
  assumes "isUserHostmask h"
  obtains nick user host where "hostmask_parts nick user host" "h = nick @ ''!'' @ user @ ''@'' @ host"
proof -
  let ?p1 = "find_char CHR ''!'' h" and ?p2 = "find_char CHR ''@'' h"
  from assms have lt: "?p1 < ?p2 - 1" "1 \<le> ?p1" "?p2 + 1 < int (length h)"
    by (auto simp: isUserHostmask_def Let_def)
  then have "CHR ''!'' \<in> set h" using find_char_nonneg_iff [of "CHR ''!''" h] by simp
  then obtain nick r where h: "h = nick @ CHR ''!'' # r" and n: "CHR ''!'' \<notin> set nick"
    by (auto dest: split_list_first)
  have p1: "?p1 = int (length nick)" using find_char_first n h by simp
  have "CHR ''@'' \<in> set h" using lt find_char_nonneg_iff [of "CHR ''@''" h] by simp
  then obtain q host where q: "h = q @ CHR ''@'' # host" and qn: "CHR ''@'' \<notin> set q"
    by (auto dest: split_list_first)
  have p2: "?p2 = int (length q)" using find_char_first qn q by simp
  have len: "length nick + 1 < length q" using lt p1 p2 by simp
  define user where "user = drop (Suc (length nick)) q"
  have "nick @ CHR ''!'' # r = q @ CHR ''@'' # host" using h q by simp
  then have "take (length nick + 1) (nick @ CHR ''!'' # r) = take (length nick + 1) q" using len by simp
  then have "take (Suc (length nick)) q = nick @ ''!''" by simp
  then have q': "q = nick @ ''!'' @ user"
    by (metis append.assoc append_take_drop_id user_def)
  have "hostmask_parts nick user host"
    using n qn q' len lt p1 p2 q by (auto simp: hostmask_parts_def)
  with q q' that [of nick user host] show thesis by simp
qed

lemma splitHostmask_parts:
  assumes "hostmask_parts nick user host"
  shows "splitHostmask (nick @ ''!'' @ user @ ''@'' @ host) = Inr (nick, user, host)"
  using assms isUserHostmask_parts [OF assms]
  by (simp add: splitHostmask_def hostmask_parts_def unpack2_def)

lemma splitHostmask_total: "isUserHostmask h \<Longrightarrow> \<exists>nick user host. splitHostmask h = Inr (nick, user, host)"
  using splitHostmask_parts by (blast elim: isUserHostmaskE)

lemma hostFromHostmask_parts:
  assumes "hostmask_parts nick user host"
  shows "hostFromHostmask (nick @ ''!'' @ user @ ''@'' @ host) = Inr host"
    and "nickFromHostmask (nick @ ''!'' @ user @ ''@'' @ host) = Inr nick"
    and "userFromHostmask (nick @ ''!'' @ user @ ''@'' @ host) = Inr user"
  using assms isUserHostmask_parts [OF assms] split_char1_first [of "CHR ''@''" "nick @ ''!'' @ user" host]
  by (simp_all add: hostFromHostmask_def nickFromHostmask_def userFromHostmask_def hostmask_parts_def
    second_piece_def)

text \<open>
  \<open>splitHostmask\<close> and \<open>joinHostmask\<close> are inverse: a string is a user hostmask exactly when it
  splits into a nick, a user and a host that join to it again, and the three accessors return these
  parts; on any other string all of them fail their assertion.
\<close>

theorem splitHostmask_joinHostmask:
  "if isUserHostmask h then
     (\<exists>nick user host. splitHostmask h = Inr (nick, user, host) \<and> joinHostmask nick user host = Inr h
        \<and> nickFromHostmask h = Inr nick \<and> userFromHostmask h = Inr user \<and> hostFromHostmask h = Inr host)
   else splitHostmask h = Inl AssertionError \<and> nickFromHostmask h = Inl AssertionError
     \<and> userFromHostmask h = Inl AssertionError \<and> hostFromHostmask h = Inl AssertionError"
proof (cases "isUserHostmask h")
  case True
  then obtain nick user host where p: "hostmask_parts nick user host"
      and h: "h = nick @ ''!'' @ user @ ''@'' @ host"
    by (rule isUserHostmaskE)
  have "joinHostmask nick user host = Inr h"
    using p h by (simp add: joinHostmask_def hostmask_parts_def)
  with True p show ?thesis
    unfolding h using splitHostmask_parts [OF p] hostFromHostmask_parts [OF p] by auto
next
  case False
  then show ?thesis
    by (simp add: splitHostmask_def nickFromHostmask_def userFromHostmask_def hostFromHostmask_def)
qed

text \<open>
  Joining a nick without \<open>!\<close> and \<open>@\<close>, a user without \<open>@\<close> and a host, all non-empty, gives a user
  hostmask that splits into the same three parts.
\<close>

theorem joinHostmask_splitHostmask:
  assumes "hostmask_parts nick user host"
  shows "\<exists>h. joinHostmask nick user host = Inr h \<and> isUserHostmask h \<and> splitHostmask h = Inr (nick, user, host)"
  using assms isUserHostmask_parts [OF assms] splitHostmask_parts [OF assms]
  by (simp add: joinHostmask_def hostmask_parts_def)

theorem joinHostmask_splitHostmask_witness:
  "\<exists>h. joinHostmask ''bot'' ''~id'' ''ex.org'' = Inr h \<and> isUserHostmask h \<and> splitHostmask h = Inr (''bot'', ''~id'', ''ex.org'')"
  by (rule joinHostmask_splitHostmask) (simp add: hostmask_parts_def)

section \<open>Case folding\<close>

text \<open>The folding on character codes, where arithmetic decides what is left.\<close>

definition rfc1459_code :: "nat \<Rightarrow> nat" where
  "rfc1459_code n =
     (if n = 92 then 124 else if n = 91 then 123 else if n = 93 then 125 else if n = 126 then 94
      else if 65 \<le> n \<and> n \<le> 90 then n + 32 else n)"

lemma char_eq_code:
  "c = CHR 0x5C \<longleftrightarrow> ord c = 92" "c = CHR ''['' \<longleftrightarrow> ord c = 91" "c = CHR '']'' \<longleftrightarrow> ord c = 93"
  "c = CHR ''~'' \<longleftrightarrow> ord c = 126" "c = CHR ''|'' \<longleftrightarrow> ord c = 124" "c = CHR ''{'' \<longleftrightarrow> ord c = 123"
  "c = CHR ''}'' \<longleftrightarrow> ord c = 125" "c = CHR ''^'' \<longleftrightarrow> ord c = 94" "c = CHR ''*'' \<longleftrightarrow> ord c = 42"
  "c = CHR ''?'' \<longleftrightarrow> ord c = 63" "c = CHR 0x0A \<longleftrightarrow> ord c = 10"
  by (simp_all add: ord_eq_iff [of c] del: of_char_eq_iff)

lemma ord_rfc1459_char: "ord (rfc1459_char c) = rfc1459_code (ord c)"
  by (auto simp: rfc1459_char_def rfc1459_code_def char_eq_code ord_lower_char is_upper_def)

lemma rfc1459_char_eq_iff: "rfc1459_char a = rfc1459_char b \<longleftrightarrow> rfc1459_code (ord a) = rfc1459_code (ord b)"
  by (simp only: ord_eq_iff [of "rfc1459_char a"] ord_rfc1459_char)

lemma rfc1459_char_idem [simp]: "rfc1459_char (rfc1459_char c) = rfc1459_char c"
  unfolding rfc1459_char_eq_iff ord_rfc1459_char by (auto simp: rfc1459_code_def)

lemma toLower_idem [simp]: "toLower (toLower s) = toLower s"
  by (simp add: toLower_def)

lemma toLower_append [simp]: "toLower (s @ t) = toLower s @ toLower t"
  by (simp add: toLower_def)

lemma length_toLower [simp]: "length (toLower s) = length s"
  by (simp add: toLower_def)

lemma toLower_as_default: "toLower_as s None = Inr (toLower s)"
  by (simp add: toLower_as_def toLower_def)

lemma rfc1459_char_newline [simp]: "rfc1459_char c = CHR 0x0A \<longleftrightarrow> c = CHR 0x0A"
  unfolding char_eq_code ord_rfc1459_char by (auto simp: rfc1459_code_def)

lemma strEqual_equiv: "strEqual a a" "strEqual a b \<Longrightarrow> strEqual b a" "strEqual a b \<Longrightarrow> strEqual b c \<Longrightarrow> strEqual a c"
  by (simp_all add: strEqual_def)

lemma IrcString_eq_hash: "IrcString_eq x s \<Longrightarrow> IrcString_hash hash x = IrcString_hash hash s"
  by (simp add: IrcString_eq_def IrcString_hash_def)

lemma isNick_not_isChannel: "isNick s \<Longrightarrow> \<not> isChannel s"
proof
  assume n: "isNick s" and c: "isChannel s"
  define t where "t = (if endswith s [CHR 0x0A] then butlast s else s)"
  from n have t: "t \<noteq> []" "nick_first (hd t)" by (simp_all add: isNick_with_def nickRe_match_def t_def Let_def)
  then have "hd t = hd s" by (cases s) (auto simp: t_def split: if_splits)
  with t(2) have "nick_first (hd s)" by simp
  moreover from c have "hd s \<in> set ''#&+!''" by (simp add: isChannel_with_def)
  ultimately show False
    by (auto simp: nick_first_def nickchars_def is_alpha_def is_upper_def is_lower_def)
qed


section \<open>Hostmask patterns compare IRC names\<close>

definition lower_code :: "nat \<Rightarrow> nat" where
  "lower_code n = (if 65 \<le> n \<and> n \<le> 90 then n + 32 else n)"

lemma ord_lower_code: "ord (lower_char c) = lower_code (ord c)"
  by (simp add: ord_lower_char lower_code_def is_upper_def)

lemma lower_char_eq_iff: "lower_char a = lower_char b \<longleftrightarrow> lower_code (ord a) = lower_code (ord b)"
  by (simp only: ord_eq_iff [of "lower_char a"] ord_lower_code)

text \<open>The token of a character, read off its code.\<close>

lemma tok_match_code:
  "tok_match (pattern_token a) c \<longleftrightarrow>
     (if ord a = 42 \<or> ord a = 63 then ord c \<noteq> 10 else rfc1459_code (ord a) = rfc1459_code (ord c))"
proof -
  have mem: "a \<in> set ''[{'' \<longleftrightarrow> ord a = 91 \<or> ord a = 123" "a \<in> set ''}]'' \<longleftrightarrow> ord a = 125 \<or> ord a = 93"
    "a \<in> set [CHR ''|'', CHR 0x5C] \<longleftrightarrow> ord a = 124 \<or> ord a = 92" "a \<in> set ''^~'' \<longleftrightarrow> ord a = 94 \<or> ord a = 126"
    for a :: char
    by (auto simp: char_eq_code)
  have mem': "c \<in> set ''[{'' \<longleftrightarrow> ord c = 91 \<or> ord c = 123" "c \<in> set ''}]'' \<longleftrightarrow> ord c = 125 \<or> ord c = 93"
    "c \<in> set [CHR ''|'', CHR 0x5C] \<longleftrightarrow> ord c = 124 \<or> ord c = 92" "c \<in> set ''~^'' \<longleftrightarrow> ord c = 94 \<or> ord c = 126"
    by (auto simp: char_eq_code)
  show ?thesis
    unfolding pattern_token_def mem
    by (simp only: char_eq_code tok_match.simps mem' lower_char_eq_iff split: if_split)
       (auto simp: rfc1459_code_def lower_code_def)
qed

lemma tok_match_irc:
  assumes "rfc1459_char a = rfc1459_char b" "rfc1459_char c = rfc1459_char d"
  shows "tok_match (pattern_token a) c = tok_match (pattern_token b) d"
proof -
  have a: "rfc1459_code (ord a) = rfc1459_code (ord b)" and c: "rfc1459_code (ord c) = rfc1459_code (ord d)"
    using assms by (simp_all only: rfc1459_char_eq_iff)
  have wild: "ord a = 42 \<or> ord a = 63 \<longleftrightarrow> ord b = 42 \<or> ord b = 63"
    using a by (auto simp: rfc1459_code_def split: if_splits)
  have nl: "ord c \<noteq> 10 \<longleftrightarrow> ord d \<noteq> 10"
    using c by (auto simp: rfc1459_code_def split: if_splits)
  show ?thesis unfolding tok_match_code wild nl a c ..
qed

lemma AnySeq_token: "pattern_token a = AnySeq \<longleftrightarrow> ord a = 42"
  by (auto simp: pattern_token_def char_eq_code)

lemma AnySeq_irc:
  assumes "rfc1459_char a = rfc1459_char b"
  shows "pattern_token a = AnySeq \<longleftrightarrow> pattern_token b = AnySeq"
  using assms unfolding AnySeq_token rfc1459_char_eq_iff by (auto simp: rfc1459_code_def split: if_splits)

lemma pat_match_AnySeq:
  "pat_match (AnySeq # p) s \<longleftrightarrow> pat_match p s \<or> (\<exists>c r. s = c # r \<and> c \<noteq> CHR 0x0A \<and> pat_match (AnySeq # p) r)"
  by (cases s) auto

lemma pat_match_other:
  "t \<noteq> AnySeq \<Longrightarrow> pat_match (t # p) s \<longleftrightarrow> (\<exists>c r. s = c # r \<and> tok_match t c \<and> pat_match p r)"
  by (cases t; cases s) auto

lemma pat_match_newline: "map rfc1459_char s = map rfc1459_char t \<Longrightarrow> pat_match [] s = pat_match [] t"
proof -
  assume eq: "map rfc1459_char s = map rfc1459_char t"
  have nl: "s = [CHR 0x0A] \<longleftrightarrow> map rfc1459_char s = [CHR 0x0A]" for s by (cases s; cases "tl s") auto
  show ?thesis using eq nl [of s] nl [of t] by (cases s; cases t) auto
qed

lemma pat_match_irc:
  assumes "map rfc1459_char p = map rfc1459_char q" "map rfc1459_char s = map rfc1459_char t"
  shows "pat_match (map pattern_token p) s = pat_match (map pattern_token q) t"
  using assms
proof (induction p arbitrary: q s t)
  case Nil
  then show ?case using pat_match_newline [OF Nil.prems(2)] by simp
next
  case (Cons a p)
  then obtain b q' where q: "q = b # q'" and ab: "rfc1459_char a = rfc1459_char b"
      and pq: "map rfc1459_char p = map rfc1459_char q'" by (cases q) auto
  note IH = Cons.IH [OF pq]
  show ?case
  proof (cases "pattern_token a = AnySeq")
    case True
    with AnySeq_irc [OF ab] have b: "pattern_token b = AnySeq" by simp
    from Cons.prems(2) have "pat_match (AnySeq # map pattern_token p) s = pat_match (AnySeq # map pattern_token q') t"
    proof (induction s arbitrary: t)
      case Nil
      then show ?case using IH [of "[]" "[]"] by simp
    next
      case (Cons c s)
      then obtain d t' where t: "t = d # t'" and cd: "rfc1459_char c = rfc1459_char d"
          and st: "map rfc1459_char s = map rfc1459_char t'" by (cases t) auto
      have "c = CHR 0x0A \<longleftrightarrow> d = CHR 0x0A" by (metis cd rfc1459_char_newline)
      with Cons.IH [OF st] IH [of "c # s" t] Cons.prems t show ?case by simp
    qed
    with True b q show ?thesis by simp
  next
    case False
    with AnySeq_irc [OF ab] have b: "pattern_token b \<noteq> AnySeq" by simp
    show ?thesis
    proof (cases s)
      case Nil
      with Cons.prems(2) q False b show ?thesis by (simp add: pat_match_other)
    next
      case (Cons c s')
      with Cons.prems(2) obtain d t' where t: "t = d # t'" and cd: "rfc1459_char c = rfc1459_char d"
          and st: "map rfc1459_char s' = map rfc1459_char t'" by (cases t) auto
      from tok_match_irc [OF ab cd] IH [OF st] Cons q t False b show ?thesis by (simp add: pat_match_other)
    qed
  qed
qed

text \<open>
  Matching a hostmask pattern is case-insensitive in the sense of IRC, brackets and tilde included:
  patterns with the same \<open>toLower\<close> match the same hostmasks, and hostmasks with the same \<open>toLower\<close> are
  matched by the same patterns.
\<close>

theorem patternEqual_case_insensitive:
  assumes "toLower pattern = toLower pattern'" "toLower hostmask = toLower hostmask'"
  shows "patternEqual pattern hostmask = patternEqual pattern' hostmask'"
  using pat_match_irc [OF assms [unfolded toLower_def]] by (simp add: patternEqual_def compile_pattern_def)

theorem patternEqual_case_insensitive_witness:
  "patternEqual ''*!*@*.EX[A]'' ''Nick!u@h.ex{a}'' = patternEqual ''*!*@*.ex{a}'' ''nick!u@h.EX[a]''"
  by (rule patternEqual_case_insensitive; code_simp)

text \<open>A pattern matches itself, read literally.\<close>

lemma tok_match_self: "c \<noteq> CHR 0x0A \<Longrightarrow> tok_match (pattern_token c) c"
  by (simp add: tok_match_code char_eq_code)

lemma pat_match_prefix:
  assumes "CHR 0x0A \<notin> set s" "pat_match p t"
  shows "pat_match (map pattern_token s @ p) (s @ t)"
  using assms
proof (induction s)
  case (Cons c s)
  then have IH: "pat_match (map pattern_token s @ p) (s @ t)" and c: "c \<noteq> CHR 0x0A" by auto
  show ?case
  proof (cases "pattern_token c = AnySeq")
    case True
    have "pat_match (AnySeq # map pattern_token s @ p) (s @ t)"
      using IH by (subst pat_match_AnySeq) simp
    with True c show ?thesis by simp
  next
    case False
    with IH tok_match_self [OF c] show ?thesis by (simp add: pat_match_other)
  qed
qed simp

lemma pat_match_AnySeq_skip:
  "CHR 0x0A \<notin> set s \<Longrightarrow> pat_match p t \<Longrightarrow> pat_match (AnySeq # p) (s @ t)"
proof (induction s)
  case Nil
  then show ?case by (subst pat_match_AnySeq) simp
next
  case (Cons c s)
  then show ?case by auto
qed

lemma pattern_token_star [simp]: "pattern_token CHR ''*'' = AnySeq"
  by (simp add: pattern_token_def)

lemma patternEqual_self: "CHR 0x0A \<notin> set s \<Longrightarrow> patternEqual s s"
  using pat_match_prefix [of s "[]" "[]"] by (simp add: patternEqual_def compile_pattern_def)

lemma compile_append [simp]: "compile_pattern (s @ t) = compile_pattern s @ compile_pattern t"
  by (simp add: compile_pattern_def)

section \<open>The caches are transparent\<close>

definition pattern_caches_ok :: "pattern_caches \<Rightarrow> bool" where
  "pattern_caches_ok st \<longleftrightarrow>
     (\<forall>p f. CacheDict_getitem (patternCache st) p = Inr f \<longrightarrow> f = compile_pattern p) \<and>
     (\<forall>p h b. CacheDict_getitem (equalCache st) (p, h) = Inr b \<longrightarrow> b = patternEqual p h)"

lemma pattern_caches_init_ok: "pattern_caches_ok pattern_caches_init"
  by (simp add: pattern_caches_ok_def pattern_caches_init_def CacheDict_new_def CacheDict_getitem_def
    dict_item_def)

lemma CacheDict_setitem_keeps:
  assumes "\<forall>k v. CacheDict_getitem c k = Inr v \<longrightarrow> P k v" "P k v"
  shows "\<forall>k' v'. CacheDict_getitem (CacheDict_setitem c k v) k' = Inr v' \<longrightarrow> P k' v'"
proof (intro allI impI)
  fix k' v' assume get: "CacheDict_getitem (CacheDict_setitem c k v) k' = Inr v'"
  show "P k' v'"
  proof (cases "k' = k")
    case True
    with get assms(2) show ?thesis by simp
  next
    case False
    from CacheDict_setitem_other [OF this get] assms(1) show ?thesis by blast
  qed
qed

lemma pattern_caches_okD:
  assumes "pattern_caches_ok st"
  shows "CacheDict_getitem (patternCache st) p = Inr f \<Longrightarrow> f = compile_pattern p"
    and "CacheDict_getitem (equalCache st) (p, h) = Inr b \<Longrightarrow> b = patternEqual p h"
  using assms unfolding pattern_caches_ok_def by blast+

lemma pattern_caches_okI:
  assumes "\<And>p f. CacheDict_getitem (patternCache st) p = Inr f \<Longrightarrow> f = compile_pattern p"
    and "\<And>p h b. CacheDict_getitem (equalCache st) (p, h) = Inr b \<Longrightarrow> b = patternEqual p h"
  shows "pattern_caches_ok st"
  using assms unfolding pattern_caches_ok_def by blast

lemma pattern_caches_ok_store_pattern:
  assumes "pattern_caches_ok st"
  shows "pattern_caches_ok (st\<lparr>patternCache := CacheDict_setitem (patternCache st) p (compile_pattern p)\<rparr>)"
proof -
  have "\<forall>k v. CacheDict_getitem (CacheDict_setitem (patternCache st) p (compile_pattern p)) k = Inr v
      \<longrightarrow> v = compile_pattern k"
    using pattern_caches_okD(1) [OF assms] by (intro CacheDict_setitem_keeps) blast+
  note new = this [rule_format]
  show ?thesis
  proof (rule pattern_caches_okI)
    fix p' f assume "CacheDict_getitem (patternCache (st\<lparr>patternCache := CacheDict_setitem (patternCache st) p (compile_pattern p)\<rparr>)) p' = Inr f"
    then show "f = compile_pattern p'" using new [of p' f] by simp
  next
    fix p' h b assume "CacheDict_getitem (equalCache (st\<lparr>patternCache := CacheDict_setitem (patternCache st) p (compile_pattern p)\<rparr>)) (p', h) = Inr b"
    then show "b = patternEqual p' h" using pattern_caches_okD(2) [OF assms, of p' h b] by simp
  qed
qed

lemma pattern_caches_ok_store_equal:
  assumes "pattern_caches_ok st"
  shows "pattern_caches_ok (st\<lparr>equalCache := CacheDict_setitem (equalCache st) (p, h) (patternEqual p h)\<rparr>)"
proof -
  have "\<forall>k v. CacheDict_getitem (CacheDict_setitem (equalCache st) (p, h) (patternEqual p h)) k = Inr v
      \<longrightarrow> v = patternEqual (fst k) (snd k)"
  proof (intro CacheDict_setitem_keeps allI impI)
    fix k v assume "CacheDict_getitem (equalCache st) k = Inr v"
    then show "v = patternEqual (fst k) (snd k)"
      using pattern_caches_okD(2) [OF assms, of "fst k" "snd k" v] by simp
  qed simp
  note new = this [rule_format]
  show ?thesis
  proof (rule pattern_caches_okI)
    fix p' f assume "CacheDict_getitem (patternCache (st\<lparr>equalCache := CacheDict_setitem (equalCache st) (p, h) (patternEqual p h)\<rparr>)) p' = Inr f"
    then show "f = compile_pattern p'" using pattern_caches_okD(1) [OF assms, of p' f] by simp
  next
    fix p' h' b assume "CacheDict_getitem (equalCache (st\<lparr>equalCache := CacheDict_setitem (equalCache st) (p, h) (patternEqual p h)\<rparr>)) (p', h') = Inr b"
    then show "b = patternEqual p' h'" using new [of "(p', h')" b] by simp
  qed
qed

lemma u_hostmaskPatternEqual_transparent:
  assumes "pattern_caches_ok st"
  shows "fst (u_hostmaskPatternEqual p h st) = patternEqual p h
    \<and> pattern_caches_ok (snd (u_hostmaskPatternEqual p h st))"
proof (cases "CacheDict_getitem (patternCache st) p")
  case (Inl e)
  with pattern_caches_ok_store_pattern [OF assms] show ?thesis
    by (simp add: u_hostmaskPatternEqual_def patternEqual_def Let_def)
next
  case (Inr f)
  from pattern_caches_okD(1) [OF assms Inr] have "f = compile_pattern p" .
  with Inr assms show ?thesis by (simp add: u_hostmaskPatternEqual_def patternEqual_def)
qed

text \<open>
  The two caches in front of the pattern matcher never change an answer: from caches that hold
  only right entries, as the empty ones do, \<open>hostmaskPatternEqual\<close> returns what matching from scratch
  returns, and leaves caches that hold only right entries.
\<close>

theorem hostmaskPatternEqual_cache_transparent:
  assumes ok: "pattern_caches_ok st"
  shows "fst (hostmaskPatternEqual p h st) = patternEqual p h
    \<and> pattern_caches_ok (snd (hostmaskPatternEqual p h st))"
proof (cases "CacheDict_getitem (equalCache st) (p, h)")
  case (Inr b)
  from pattern_caches_okD(2) [OF ok Inr] have "b = patternEqual p h" .
  with Inr ok show ?thesis by (simp add: hostmaskPatternEqual_def)
next
  case (Inl e)
  obtain b st' where r: "u_hostmaskPatternEqual p h st = (b, st')" by (cases "u_hostmaskPatternEqual p h st")
  with u_hostmaskPatternEqual_transparent [OF ok, of p h]
  have b: "b = patternEqual p h" and ok': "pattern_caches_ok st'" by simp_all
  from Inl r b pattern_caches_ok_store_equal [OF ok'] show ?thesis by (simp add: hostmaskPatternEqual_def)
qed

theorem hostmaskPatternEqual_cache_transparent_witness:
  "fst (hostmaskPatternEqual ''a?'' ''AB'' (snd (hostmaskPatternEqual ''a?'' ''AB'' pattern_caches_init)))
     = patternEqual ''a?'' ''AB''"
  using hostmaskPatternEqual_cache_transparent [OF pattern_caches_init_ok, of "''a?''" "''AB''"]
    hostmaskPatternEqual_cache_transparent [of "snd (hostmaskPatternEqual ''a?'' ''AB'' pattern_caches_init)" "''a?''" "''AB''"]
  by simp

section \<open>Ban masks cover the user they are made for\<close>

lemma join_char_snoc: "xs \<noteq> [] \<Longrightarrow> join_char c (xs @ [x]) = join_char c xs @ c # x"
  by (induction c xs rule: join_char.induct) (auto simp: neq_Nil_conv)

lemma star_last_matches:
  assumes nl: "CHR 0x0A \<notin> set host"
  shows "pat_match (compile_pattern (star_last c host)) host"
proof (cases "butlast (split_char c host) = []")
  case True
  then show ?thesis using pat_match_AnySeq_skip [OF nl, of "[]" "[]"]
    by (simp add: star_last_def compile_pattern_def)
next
  case False
  let ?b = "join_char c (butlast (split_char c host))" and ?l = "last (split_char c host)"
  have "host = join_char c (butlast (split_char c host) @ [?l])" by simp
  also have "\<dots> = (?b @ [c]) @ ?l" using False by (simp add: join_char_snoc del: append_butlast_last_id)
  finally have host: "host = (?b @ [c]) @ ?l" .
  with nl have "CHR 0x0A \<notin> set (?b @ [c])" "CHR 0x0A \<notin> set ?l" by (metis Un_iff set_append)+
  moreover from this(2) have "pat_match [AnySeq] ?l" using pat_match_AnySeq_skip [of ?l "[]" "[]"] by simp
  ultimately have "pat_match (compile_pattern (?b @ [c]) @ [AnySeq]) ((?b @ [c]) @ ?l)"
    unfolding compile_pattern_def by (intro pat_match_prefix)
  then show ?thesis using False host
    by (simp add: star_last_def join_char_snoc compile_pattern_def)
qed

lemma ban_prefix_matches:
  assumes "hostmask_parts nick user host" "CHR 0x0A \<notin> set nick" "CHR 0x0A \<notin> set user"
    and "pat_match (compile_pattern r) host"
  shows "patternEqual (''*!*@'' @ r) (nick @ ''!'' @ user @ ''@'' @ host)"
proof -
  have t: "pattern_token CHR ''!'' = Lit CHR ''!''" "pattern_token CHR ''@'' = Lit CHR ''@''"
    by (simp_all add: pattern_token_def)
  have "pat_match (AnySeq # Lit CHR ''@'' # compile_pattern r) (user @ ''@'' @ host)"
    using assms(4) by (intro pat_match_AnySeq_skip [OF assms(3)]) simp
  then have "pat_match (AnySeq # Lit CHR ''!'' # AnySeq # Lit CHR ''@'' # compile_pattern r) (nick @ ''!'' @ user @ ''@'' @ host)"
    by (intro pat_match_AnySeq_skip [OF assms(2)]) simp
  then show ?thesis by (simp add: patternEqual_def compile_pattern_def t)
qed

text \<open>
  \<open>banmask\<close> of a user hostmask without a newline is a pattern that matches that hostmask, whatever
  the address tests say of its host: the ban always covers the user it is made for.
\<close>

theorem banmask_covers:
  assumes h: "isUserHostmask h" and nl: "CHR 0x0A \<notin> set h"
  shows "\<exists>m. banmask isIP isIPV6 h = Inr m \<and> patternEqual m h"
proof -
  from h obtain nick user host where p: "hostmask_parts nick user host"
      and h': "h = nick @ ''!'' @ user @ ''@'' @ host" by (rule isUserHostmaskE)
  have n: "CHR 0x0A \<notin> set nick" "CHR 0x0A \<notin> set user" "CHR 0x0A \<notin> set host" using nl h' by auto
  note cover = ban_prefix_matches [OF p n(1,2)]
  have star: "pat_match (compile_pattern (''*'' @ dropWhile (\<lambda>c. c \<noteq> CHR ''.'') host)) host"
  proof -
    let ?d = "dropWhile (\<lambda>c. c \<noteq> CHR ''.'') host" and ?t = "takeWhile (\<lambda>c. c \<noteq> CHR ''.'') host"
    have split: "host = ?t @ ?d" by simp
    then have "CHR 0x0A \<notin> set ?t" "CHR 0x0A \<notin> set ?d" using n(3) by (metis Un_iff set_append)+
    then have "pat_match (AnySeq # compile_pattern ?d) (?t @ ?d)"
      using patternEqual_self [of ?d] by (intro pat_match_AnySeq_skip) (simp_all add: patternEqual_def)
    then show ?thesis by (simp add: compile_pattern_def)
  qed
  have self: "pat_match (compile_pattern host) host"
    using patternEqual_self [OF n(3)] by (simp add: patternEqual_def)
  show ?thesis
    using h h' hostFromHostmask_parts(1) [OF p] cover [OF star_last_matches [OF n(3)]] cover [OF star] cover [OF self]
    by (auto simp: banmask_def)
qed

theorem banmask_covers_witness:
  "\<exists>m. banmask (\<lambda>_. False) (\<lambda>_. False) ''nick!user@host.domain.tld'' = Inr m \<and> patternEqual m ''nick!user@host.domain.tld''"
proof (rule banmask_covers)
  show "isUserHostmask ''nick!user@host.domain.tld''" by code_simp
qed simp

section \<open>Mode lines are read back\<close>

definition takes_argument :: "char \<Rightarrow> char \<Rightarrow> bool" where
  "takes_argument sign c \<longleftrightarrow> c \<in> set (if sign = CHR ''+'' then plusRequireArguments else minusRequireArguments)"

text \<open>
  A mode change as \<open>separateModes\<close> produces them: a sign, a mode character that is not a sign, an
  argument exactly where the mode takes one, and no string argument that reads as an integer.
\<close>

definition mode_change_ok :: "mode_change \<Rightarrow> bool" where
  "mode_change_ok mc \<longleftrightarrow>
     (case mc of (m, arg) \<Rightarrow> length m = 2 \<and> m ! 0 \<in> set ''+-'' \<and> m ! 1 \<notin> set ''+-'' \<and>
        (case arg of None \<Rightarrow> \<not> takes_argument (m ! 0) (m ! 1)
         | Some a \<Rightarrow> takes_argument (m ! 0) (m ! 1) \<and> mode_arg a = a))"

lemma mode_change_okE:
  assumes "mode_change_ok mc"
  obtains sign c arg where "mc = ([sign, c], arg)" "sign \<in> set ''+-''" "c \<notin> set ''+-''"
    "case arg of None \<Rightarrow> \<not> takes_argument sign c | Some a \<Rightarrow> takes_argument sign c \<and> mode_arg a = a"
proof -
  obtain m arg where mc: "mc = (m, arg)" by (cases mc)
  with assms obtain sign c where "m = [sign, c]"
    by (auto simp: mode_change_ok_def length_Suc_conv numeral_2_eq_2)
  with mc assms that [of sign c arg] show thesis by (cases arg) (simp_all add: mode_change_ok_def)
qed

lemma join_separate_loop:
  assumes "\<forall>mc \<in> set modes. mode_change_ok mc"
  shows "\<exists>cs args. join_loop modes cur = Inr (cs, args) \<and> separate_loop cs cur args = Inr modes"
  using assms
proof (induction modes arbitrary: cur)
  case (Cons mc modes)
  then have "mode_change_ok mc" by simp
  then obtain sign c arg where mc: "mc = ([sign, c], arg)" "sign \<in> set ''+-''" "c \<notin> set ''+-''"
    and arg: "case arg of None \<Rightarrow> \<not> takes_argument sign c | Some a \<Rightarrow> takes_argument sign c \<and> mode_arg a = a"
    by (rule mode_change_okE)
  obtain cs args where IH: "join_loop modes sign = Inr (cs, args)" "separate_loop cs sign args = Inr modes"
    using Cons.IH [of sign] Cons.prems by auto
  let ?cs = "(if sign = cur then [c] else [sign, c]) @ cs"
  let ?args = "case arg of None \<Rightarrow> args | Some a \<Rightarrow> a # args"
  have "join_loop (mc # modes) cur = Inr (?cs, ?args)"
    using mc IH by (auto simp: startswith_def)
  moreover have "separate_loop (c # cs) sign ?args = Inr (mc # modes)"
    using mc arg IH by (auto simp: takes_argument_def split: option.splits)
  then have "separate_loop ?cs cur ?args = Inr (mc # modes)"
    using mc(2) by auto
  ultimately show ?case by blast
qed simp

text \<open>
  \<open>separateModes\<close> reads back what \<open>joinModes\<close> writes: for every non-empty list of well-formed mode
  changes, joining them and separating the result gives the same list.
\<close>

theorem separateModes_joinModes:
  assumes ok: "\<forall>mc \<in> set modes. mode_change_ok mc" and ne: "modes \<noteq> []"
  shows "bindR (joinModes modes) separateModes = Inr modes"
proof -
  from ne obtain mc rest where modes: "modes = mc # rest" by (cases modes) auto
  with ok have "mode_change_ok mc" by simp
  then obtain sign c arg where mc: "mc = ([sign, c], arg)" "sign \<in> set ''+-''"
    by (rule mode_change_okE)
  obtain cs args where j: "join_loop modes CHR 0x00 = Inr (cs, args)" "separate_loop cs CHR 0x00 args = Inr modes"
    using join_separate_loop [OF ok] by blast
  then have "\<exists>cs'. cs = sign # c # cs'"
    using mc unfolding modes by (auto simp: startswith_def)
  then obtain cs' where cs: "cs = sign # c # cs'" by blast
  with j mc(2) show ?thesis by (auto simp: joinModes_def separateModes_def)
qed

theorem separateModes_joinModes_witness:
  "bindR (joinModes [(''+o'', Some (PStr ''jemfinch'')), (''+l'', Some (PInt 100)), (''-s'', None)]) separateModes
     = Inr [(''+o'', Some (PStr ''jemfinch'')), (''+l'', Some (PInt 100)), (''-s'', None)]"
  by (rule separateModes_joinModes)
    (simp_all add: mode_change_ok_def takes_argument_def plusRequireArguments_def minusRequireArguments_def
      int_of_str_def strip_ws_def is_space_def is_digit_def)

section \<open>DCC addresses\<close>

lemma split_dots:
  "\<forall>n \<in> set ns. 0 \<le> n \<Longrightarrow> ns \<noteq> [] \<Longrightarrow> split_char CHR ''.'' (join_char CHR ''.'' (map str_of_int ns)) = map str_of_int ns"
proof (rule split_join_char)
  assume ns: "\<forall>n \<in> set ns. 0 \<le> n"
  show "\<forall>x \<in> set (map str_of_int ns). CHR ''.'' \<notin> set x"
    using ns digits_of_digit by (fastforce simp: str_of_int_def str_of_nat_def is_digit_def)
qed simp

lemma four_quads:
  fixes i :: int
  assumes "0 \<le> i" "i < 256 ^ 4"
  shows "(i div 256 div 256 div 256 mod 256) * 256 ^ 3 + (i div 256 div 256 mod 256) * 256 ^ 2
    + (i div 256 mod 256) * 256 + i mod 256 = i"
proof -
  have "i div 256 div 256 div 256 < 256" using assms by simp
  moreover have "0 \<le> i div 256 div 256 div 256" using assms by (simp add: pos_imp_zdiv_nonneg_iff)
  ultimately have "i div 256 div 256 div 256 mod 256 = i div 256 div 256 div 256" by simp
  then show ?thesis by (simp add: algebra_simps) presburger
qed

text \<open>
  \<open>dccIP\<close> inverts \<open>unDccIP\<close>: every 32-bit address, written as a dotted quad and read again, is the
  same number, provided the address test accepts dotted quads of numbers below 256, as
  \<open>inet_aton\<close> does.
\<close>

theorem dccIP_unDccIP:
  assumes range: "0 \<le> i" "i < 256 ^ 4"
    and inet_aton: "\<And>a b c d. {a, b, c, d} \<subseteq> {0..255} \<Longrightarrow>
      isIP (join_char CHR ''.'' [str_of_int a, str_of_int b, str_of_int c, str_of_int d])"
  shows "dccIP isIP (unDccIP i) = Inr i"
proof -
  let ?q = "[i div 256 div 256 div 256 mod 256, i div 256 div 256 mod 256, i div 256 mod 256, i mod 256]"
  have un: "unDccIP i = join_char CHR ''.'' (map str_of_int ?q)"
    by (simp add: unDccIP_def eval_nat_numeral)
  have q: "\<forall>n \<in> set ?q. 0 \<le> n" by simp
  have m: "n mod 256 \<le> 255" for n :: int using pos_mod_bound [of 256 n] by linarith
  have "isIP (unDccIP i)" unfolding un
    using inet_aton [of "?q ! 0" "?q ! 1" "?q ! 2" "?q ! 3"] by (simp add: m)
  moreover have "dcc_sum (map str_of_int ?q) (256 ^ 3) 0 = Inr i"
    using four_quads [OF range] by (simp add: power3_eq_cube power2_eq_square algebra_simps)
  moreover have "split_char CHR ''.'' (unDccIP i) = map str_of_int ?q"
    unfolding un by (rule split_dots [OF q]) simp
  ultimately show ?thesis by (simp only: dccIP_def py_assert_simps)
qed

theorem dccIP_unDccIP_witness:
  "dccIP (\<lambda>s. length (split_char CHR ''.'' s) = 4) (unDccIP 3232235777) = Inr 3232235777"
proof (rule dccIP_unDccIP)
  fix a b c d :: int assume "{a, b, c, d} \<subseteq> {0..255}"
  then have "\<forall>n \<in> set [a, b, c, d]. 0 \<le> n" by simp
  from split_dots [OF this]
  show "length (split_char CHR ''.'' (join_char CHR ''.'' [str_of_int a, str_of_int b, str_of_int c, str_of_int d])) = 4"
    by simp
qed simp_all

section \<open>Safe arguments\<close>

lemma hex_digit_ok: "n < 16 \<Longrightarrow> ord (hex_digit n) \<ge> 48"
  by (simp add: hex_digit_def)

lemma repr_char_valid:
  assumes "q \<noteq> CHR 0x0D" "q \<noteq> CHR 0x0A" "q \<noteq> CHR 0x00" "x \<in> set (repr_char q c)"
  shows "32 \<le> ord x \<or> x = q"
proof -
  have "ord c div 16 < 16" using nat_of_char_less_256 [of c] by (intro less_mult_imp_div_less) simp
  then show ?thesis
    using assms hex_digit_ok [of "ord c div 16"] hex_digit_ok [of "ord c mod 16"]
    by (fastforce simp: repr_char_def split: if_splits)
qed

text \<open>
  Whatever value is given to \<open>safeArgument\<close>, its result is a valid argument of an IRC message (no
  carriage return, newline or NUL, so no argument can smuggle in a second command), and a valid
  string is returned as it is.
\<close>

theorem safeArgument_valid:
  "isValidArgument (safeArgument v) \<and> (isValidArgument (py_str v) \<longrightarrow> safeArgument v = py_str v)"
proof -
  let ?s = "py_str v"
  define q where "q = (if CHR 0x27 \<in> set ?s \<and> CHR 0x22 \<notin> set ?s then CHR 0x22 else CHR 0x27)"
  have q: "q = CHR 0x22 \<or> q = CHR 0x27" by (simp add: q_def)
  have "32 \<le> ord x" if "x \<in> set (py_repr ?s)" for x
  proof -
    from that have "x = q \<or> (\<exists>c. x \<in> set (repr_char q c))" by (auto simp: py_repr_def q_def Let_def)
    then show ?thesis
    proof
      assume "\<exists>c. x \<in> set (repr_char q c)"
      then obtain c where "x \<in> set (repr_char q c)" ..
      with q repr_char_valid [of q x c] have "32 \<le> ord x \<or> x = q" by auto
      with q show ?thesis by auto
    qed (use q in auto)
  qed
  then have "isValidArgument (py_repr ?s)" by (fastforce simp: isValidArgument_def)
  then show ?thesis by (simp add: safeArgument_def Let_def)
qed

theorem safeArgument_valid_witness: "safeArgument (PStr ''ok'') = ''ok''"
  using safeArgument_valid [of "PStr ''ok''"] by (simp add: isValidArgument_def)

end
