(* ===== verification/IrcFormatting.thy ===== *)
theory IrcFormatting
  imports IrcUtils
begin

text \<open>
  The formatting codes of \<open>ircutils.py\<close>: bold, reverse, underline and mIRC colors, how they are
  stripped, and the \<open>FormatContext\<close> / \<open>FormatParser\<close> pair with which \<open>wrap\<close> carries the formatting
  of one line over to the next.
\<close>

definition bold :: "string \<Rightarrow> string" where
  "bold s = [CHR 0x02] @ s @ [CHR 0x02]"

definition reverse :: "string \<Rightarrow> string" where
  "reverse s = [CHR 0x16] @ s @ [CHR 0x16]"

definition underline :: "string \<Rightarrow> string" where
  "underline s = [CHR 0x1F] @ s @ [CHR 0x1F]"

section \<open>Colors\<close>

definition mircColorNames :: "(string \<times> string) list" where
  "mircColorNames =
     [(''white'', ''0''), (''black'', ''1''), (''blue'', ''2''), (''green'', ''3''), (''red'', ''4''),
      (''brown'', ''5''), (''purple'', ''6''), (''orange'', ''7''), (''yellow'', ''8''),
      (''light green'', ''9''), (''teal'', ''10''), (''light blue'', ''11''), (''dark blue'', ''12''),
      (''pink'', ''13''), (''dark grey'', ''14''), (''light grey'', ''15''), (''dark gray'', ''14''),
      (''light gray'', ''15'')]"

text \<open>The dictionary of the names, and the loop that maps every number to itself.\<close>

definition mircColors :: "string IrcDict" where
  "mircColors =
     (let d = pdict_new toLower mircColorNames
      in foldl (\<lambda>d (k, v). pdict_setitem toLower v v d) d (pdict_iteritems d))"

definition mircColor :: "string \<Rightarrow> pyval option \<Rightarrow> pyval option \<Rightarrow> string res" where
  "mircColor s fg bg =
     (case (fg, bg) of
        (None, None) \<Rightarrow> Inr s
      | (Some f, None) \<Rightarrow>
          bindR (ircdict_item mircColors (py_str f)) (\<lambda>fc. Inr ([CHR 0x03] @ zfill 2 fc @ s @ [CHR 0x03]))
      | (None, Some b) \<Rightarrow>
          bindR (ircdict_item mircColors (py_str b)) (\<lambda>bc.
            Inr ([CHR 0x03] @ ''00,'' @ zfill 2 bc @ s @ [CHR 0x03]))
      | (Some f, Some b) \<Rightarrow>
          bindR (ircdict_item mircColors (py_str f)) (\<lambda>fc.
          bindR (ircdict_item mircColors (py_str b)) (\<lambda>bc.
            Inr ([CHR 0x03] @ fc @ '','' @ zfill 2 bc @ s @ [CHR 0x03]))))"

definition canonicalColor :: "(string \<Rightarrow> int) \<Rightarrow> string \<Rightarrow> bool \<Rightarrow> nat \<Rightarrow> int \<times> int option" where
  "canonicalColor hash s bg shift =
     (let h = hash s div 2 ^ shift; fg = h mod 14 + 2
      in if bg then (let b = (h div 2 ^ 4) mod 4 in (fg, Some (if fg < 8 then b + 8 else b + 2)))
         else (fg, None))"

section \<open>Stripping\<close>

definition stripBold :: "string \<Rightarrow> string" where
  "stripBold s = replace_char CHR 0x02 [] s"

text \<open>
  What follows a color code and belongs to it: the first alternative of
  \<open>\d{1,2},\d{1,2} | \d{1,2} | ,\d{1,2} | (nothing)\<close> that matches, with greedy digits.
\<close>

definition upto2 :: "string \<Rightarrow> string \<times> string" where
  "upto2 s = (let d = take 2 (takeWhile is_digit s) in (d, drop (length d) s))"

definition drop_comma_digits :: "string \<Rightarrow> string" where
  "drop_comma_digits s =
     (case s of
        c # r \<Rightarrow> if c = CHR '','' \<and> fst (upto2 r) \<noteq> [] then snd (upto2 r) else s
      | [] \<Rightarrow> [])"

definition after_color :: "string \<Rightarrow> string" where
  "after_color s = (if fst (upto2 s) \<noteq> [] then drop_comma_digits (snd (upto2 s)) else drop_comma_digits s)"

lemma length_upto2: "length (snd (upto2 s)) \<le> length s"
  by (simp add: upto2_def Let_def)

lemma length_drop_comma_digits: "length (drop_comma_digits s) \<le> length s"
proof (cases s)
  case (Cons c r)
  then show ?thesis using length_upto2 [of r] by (simp add: drop_comma_digits_def)
qed (simp add: drop_comma_digits_def)

lemma length_after_color: "length (after_color s) \<le> length s"
  using length_drop_comma_digits [of s] length_drop_comma_digits [of "snd (upto2 s)"] length_upto2 [of s]
  by (simp add: after_color_def)

function stripColor :: "string \<Rightarrow> string" where
  "stripColor [] = []"
| "stripColor (c # s) = (if c = CHR 0x03 then stripColor (after_color s) else c # stripColor s)"
  by pat_completeness auto
termination
  by (relation "measure length") (use length_after_color in \<open>auto simp: less_Suc_eq_le\<close>)

definition stripReverse :: "string \<Rightarrow> string" where
  "stripReverse s = replace_char CHR 0x16 [] s"

definition stripUnderline :: "string \<Rightarrow> string" where
  "stripUnderline s = replace_char CHR 0x1F [] (replace_char CHR 0x1F [] s)"

definition stripFormatting :: "string \<Rightarrow> string" where
  "stripFormatting s =
     (let s1 = stripColor s; s2 = stripBold s1; s3 = stripReverse s2; s4 = stripUnderline s3
      in replace_char CHR 0x0F [] (replace_char CHR 0x0F [] s4))"

section \<open>FormatContext and FormatParser\<close>

record FormatContext =
  fc_fg :: "int option"
  fc_bg :: "int option"
  fc_bold :: bool
  fc_reverse :: bool
  fc_underline :: bool

definition FormatContext_new :: FormatContext where
  "FormatContext_new =
     \<lparr>fc_fg = None, fc_bg = None, fc_bold = False, fc_reverse = False, fc_underline = False\<rparr>"

definition FormatContext_reset :: "FormatContext \<Rightarrow> FormatContext" where
  "FormatContext_reset ctx =
     ctx\<lparr>fc_fg := None, fc_bg := None, fc_bold := False, fc_reverse := False, fc_underline := False\<rparr>"

definition FormatContext_start :: "FormatContext \<Rightarrow> string \<Rightarrow> string res" where
  "FormatContext_start ctx s =
     (let s1 = (if fc_bold ctx then CHR 0x02 # s else s);
          s2 = (if fc_reverse ctx then CHR 0x16 # s1 else s1);
          s3 = (if fc_underline ctx then CHR 0x1F # s2 else s2)
      in if fc_fg ctx \<noteq> None \<or> fc_bg ctx \<noteq> None
         then bindR (mircColor s3 (map_option PInt (fc_fg ctx)) (map_option PInt (fc_bg ctx)))
                (\<lambda>t. Inr (butlast t))
         else Inr s3)"

text \<open>The test of \<open>end\<close> reads the colors as truth values: \<open>None\<close> and 0 are both false.\<close>

definition truthy :: "int option \<Rightarrow> bool" where
  "truthy c \<longleftrightarrow> c \<noteq> None \<and> c \<noteq> Some 0"

definition FormatContext_end :: "FormatContext \<Rightarrow> string \<Rightarrow> string" where
  "FormatContext_end ctx s =
     (if fc_bold ctx \<or> fc_reverse ctx \<or> truthy (fc_fg ctx) \<or> truthy (fc_bg ctx) \<or> fc_underline ctx
      then s @ [CHR 0x0F] else s)"

text \<open>
  The parser reads from a \<open>StringIO\<close> with one character of push-back (\<open>last\<close>).  A character is only
  ever pushed back right after it was read, so the state is the string still to be read;
  \<open>None\<close> is the empty string \<open>read\<close> returns at the end.
\<close>

fun getChar :: "string \<Rightarrow> char option \<times> string" where
  "getChar [] = (None, [])"
| "getChar (c # s) = (Some c, s)"

fun ungetChar :: "char option \<Rightarrow> string \<Rightarrow> string" where
  "ungetChar None s = s"
| "ungetChar (Some c) s = c # s"

fun getInt_loop :: "string \<Rightarrow> int \<Rightarrow> bool \<Rightarrow> int \<times> bool \<times> char option \<times> string" where
  "getInt_loop [] i setI = (i, setI, None, [])"
| "getInt_loop (c # s) i setI =
     (if is_digit c \<and> i < 100 then getInt_loop s (i * 10 + int (digit_val c)) True
      else (i, setI, Some c, s))"

definition getInt :: "string \<Rightarrow> int option \<times> string" where
  "getInt s =
     (case getInt_loop s 0 False of (i, setI, c, s') \<Rightarrow>
        (if setI then Some i else None, ungetChar c s'))"

definition getColor :: "FormatContext \<Rightarrow> string \<Rightarrow> FormatContext \<times> string" where
  "getColor ctx s =
     (case getInt s of (fg, s1) \<Rightarrow>
        let ctx1 = ctx\<lparr>fc_fg := fg\<rparr> in
        (case getChar s1 of (c, s2) \<Rightarrow>
          if c = Some CHR '','' then (case getInt s2 of (bg, s3) \<Rightarrow> (ctx1\<lparr>fc_bg := bg\<rparr>, s3))
          else (ctx1, s2)))"

lemma length_getInt_loop:
  "getInt_loop s i b = (i', b', c, s') \<Longrightarrow> length (ungetChar c s') \<le> length s"
  by (induction s arbitrary: i b) (fastforce intro: le_SucI split: if_splits)+

lemma length_getInt: "length (snd (getInt s)) \<le> length s"
  using length_getInt_loop [of s 0 False] by (auto simp: getInt_def split: prod.splits)

lemma length_getColor:
  assumes "getColor ctx s = (ctx', s')"
  shows "length s' \<le> length s"
proof -
  obtain fg s1 where s1: "getInt s = (fg, s1)" by (cases "getInt s")
  have l1: "length s1 \<le> length s" using length_getInt [of s] s1 by simp
  show ?thesis
  proof (cases s1)
    case Nil
    with assms s1 show ?thesis by (simp add: getColor_def Let_def)
  next
    case (Cons c s2)
    with assms s1 l1 length_getInt [of s2] show ?thesis
      by (auto simp: getColor_def Let_def split: if_splits prod.splits)
  qed
qed

function parse_from :: "FormatContext \<Rightarrow> string \<Rightarrow> FormatContext" where
  "parse_from ctx [] = ctx"
| "parse_from ctx (c # s) =
     (if c = CHR 0x02 then parse_from (ctx\<lparr>fc_bold := \<not> fc_bold ctx\<rparr>) s
      else if c = CHR 0x16 then parse_from (ctx\<lparr>fc_reverse := \<not> fc_reverse ctx\<rparr>) s
      else if c = CHR 0x1F then parse_from (ctx\<lparr>fc_underline := \<not> fc_underline ctx\<rparr>) s
      else if c = CHR 0x0F then parse_from (FormatContext_reset ctx) s
      else if c = CHR 0x03 then (case getColor ctx s of (ctx', s') \<Rightarrow> parse_from ctx' s')
      else parse_from ctx s)"
  by pat_completeness auto
termination
  by (relation "measure (\<lambda>(ctx, s). length s)") (auto simp: less_Suc_eq_le split: prod.splits dest: length_getColor)

definition FormatParser_parse :: "string \<Rightarrow> FormatContext" where
  "FormatParser_parse s = parse_from FormatContext_new s"

text \<open>\<open>wrap\<close>: the chunks come from \<open>textwrap.wrap\<close>, an argument.\<close>

fun wrap_loop :: "string list \<Rightarrow> FormatContext option \<Rightarrow> string list res" where
  "wrap_loop [] context = Inr []"
| "wrap_loop (chunk # chunks) context =
     bindR (case context of None \<Rightarrow> Inr chunk | Some ctx \<Rightarrow> FormatContext_start ctx chunk) (\<lambda>chunk'.
       let ctx' = FormatParser_parse chunk' in
       bindR (wrap_loop chunks (Some ctx')) (\<lambda>rest. Inr (FormatContext_end ctx' chunk' # rest)))"

definition wrap :: "(string \<Rightarrow> int \<Rightarrow> string list) \<Rightarrow> string \<Rightarrow> int \<Rightarrow> string list res" where
  "wrap textwrap s len = wrap_loop (textwrap s len) None"

section \<open>Stripping leaves no code behind\<close>

definition format_codes :: string where
  "format_codes = [CHR 0x02, CHR 0x03, CHR 0x0F, CHR 0x16, CHR 0x1F]"

lemma set_upto2: "set (snd (upto2 s)) \<subseteq> set s"
  by (simp add: upto2_def Let_def set_drop_subset)

lemma set_after_color: "set (after_color s) \<subseteq> set s"
proof -
  have "set (drop_comma_digits t) \<subseteq> set t" for t
    using set_upto2 [of "tl t"] by (cases t) (auto simp: drop_comma_digits_def)
  from this [of s] this [of "snd (upto2 s)"] show ?thesis
    using set_upto2 [of s] by (auto simp: after_color_def Let_def split: prod.splits)
qed

lemma set_stripColor: "set (stripColor s) \<subseteq> set s - {CHR 0x03}"
proof (induction s rule: stripColor.induct)
  case (2 c s)
  then show ?case using set_after_color [of s] by auto
qed simp

lemma stripColor_clean: "CHR 0x03 \<notin> set s \<Longrightarrow> stripColor s = s"
  by (induction s) auto

lemma stripFormatting_filter:
  "stripFormatting s = filter (\<lambda>c. c \<notin> set format_codes) (stripColor s)"
  using set_stripColor [of s]
  by (auto simp: stripFormatting_def stripBold_def stripReverse_def stripUnderline_def Let_def
    replace_char_empty format_codes_def intro!: filter_cong)

text \<open>
  \<open>stripFormatting\<close> leaves no bold, color, reset, reverse or underline code in its result, changes
  nothing in a string that has none, and so is idempotent.
\<close>

theorem stripFormatting_clean:
  "set (stripFormatting s) \<inter> set format_codes = {}
   \<and> stripFormatting (stripFormatting s) = stripFormatting s
   \<and> (set s \<inter> set format_codes = {} \<longrightarrow> stripFormatting s = s)"
proof -
  have clean: "stripFormatting t = t" if "set t \<inter> set format_codes = {}" for t
  proof -
    from that have "CHR 0x03 \<notin> set t" "\<forall>c \<in> set t. c \<notin> set format_codes"
      by (auto simp: format_codes_def)
    then show ?thesis by (simp add: stripFormatting_filter stripColor_clean filter_id_conv)
  qed
  have "set (stripFormatting s) \<inter> set format_codes = {}" by (auto simp: stripFormatting_filter)
  with clean show ?thesis by blast
qed

theorem stripFormatting_clean_witness: "stripFormatting ''plain, 12'' = ''plain, 12''"
  using stripFormatting_clean [of "''plain, 12''"] by (simp add: format_codes_def)

section \<open>Carrying the formatting over\<close>

lemma mircColors_numbers:
  "0 \<le> f \<Longrightarrow> f \<le> 15 \<Longrightarrow> ircdict_item mircColors (str_of_int f) = Inr (str_of_int f)"
proof -
  assume "0 \<le> f" "f \<le> 15"
  then have "f \<in> set [0..15]" by simp
  moreover have "\<forall>f \<in> set [0..15]. ircdict_item mircColors (str_of_int f) = Inr (str_of_int f)"
    by code_simp
  ultimately show ?thesis by blast
qed

lemma getInt_loop_stop:
  "t = [] \<or> \<not> is_digit (hd t) \<Longrightarrow> getInt_loop t i b = (i, b, fst (getChar t), snd (getChar t))"
  by (cases t) auto

lemma ungetChar_getChar [simp]: "ungetChar (fst (getChar t)) (snd (getChar t)) = t"
  by (cases t) auto

text \<open>Reading back one or two digits.\<close>

lemma getInt_digits:
  assumes "ds \<noteq> []" "length ds \<le> 2" "\<forall>c \<in> set ds. is_digit c" and t: "t = [] \<or> \<not> is_digit (hd t)"
  shows "getInt (ds @ t) = (Some (int (nat_of_digits ds)), t)"
proof -
  have dv: "digit_val c \<le> 9" if "is_digit c" for c using that by (auto simp: is_digit_def digit_val_def)
  from assms consider a where "ds = [a]" | a b where "ds = [a, b]"
    by (cases ds; cases "tl ds"; cases "tl (tl ds)") auto
  then show ?thesis
  proof cases
    case 1
    then show ?thesis using assms getInt_loop_stop [OF t]
      by (simp add: getInt_def nat_of_digits_def split: prod.splits)
        (metis fst_conv snd_conv ungetChar_getChar)
  next
    case 2
    then have "int (digit_val a) < 100" using assms dv [of a] by simp
    with 2 show ?thesis using assms getInt_loop_stop [OF t]
      by (simp add: getInt_def nat_of_digits_def split: prod.splits)
        (metis fst_conv snd_conv ungetChar_getChar)
  qed
qed

lemma color_digits:
  assumes "0 \<le> f" "f \<le> 15"
  shows "str_of_int f \<noteq> []" "length (str_of_int f) \<le> 2" "\<forall>c \<in> set (str_of_int f). is_digit c"
    "int (nat_of_digits (str_of_int f)) = f"
    "zfill 2 (str_of_int f) \<noteq> []" "length (zfill 2 (str_of_int f)) \<le> 2"
    "\<forall>c \<in> set (zfill 2 (str_of_int f)). is_digit c" "int (nat_of_digits (zfill 2 (str_of_int f))) = f"
proof -
  have "\<forall>f \<in> set [0..15]. str_of_int f \<noteq> [] \<and> length (str_of_int f) \<le> 2 \<and> (\<forall>c \<in> set (str_of_int f). is_digit c)
    \<and> int (nat_of_digits (str_of_int f)) = f \<and> zfill 2 (str_of_int f) \<noteq> [] \<and> length (zfill 2 (str_of_int f)) \<le> 2
    \<and> (\<forall>c \<in> set (zfill 2 (str_of_int f)). is_digit c) \<and> int (nat_of_digits (zfill 2 (str_of_int f))) = f"
    by code_simp
  moreover have "f \<in> set [0..15]" using assms by simp
  ultimately show "str_of_int f \<noteq> []" "length (str_of_int f) \<le> 2" "\<forall>c \<in> set (str_of_int f). is_digit c"
    "int (nat_of_digits (str_of_int f)) = f"
    "zfill 2 (str_of_int f) \<noteq> []" "length (zfill 2 (str_of_int f)) \<le> 2"
    "\<forall>c \<in> set (zfill 2 (str_of_int f)). is_digit c" "int (nat_of_digits (zfill 2 (str_of_int f))) = f"
    by blast+
qed

text \<open>The three switches in front of a plain text.\<close>

definition flags :: "FormatContext \<Rightarrow> string" where
  "flags ctx = (if fc_underline ctx then [CHR 0x1F] else []) @ (if fc_reverse ctx then [CHR 0x16] else [])
     @ (if fc_bold ctx then [CHR 0x02] else [])"

definition plain :: "string \<Rightarrow> bool" where
  "plain s \<longleftrightarrow> set s \<inter> set format_codes = {}"

lemma parse_plain: "plain s \<Longrightarrow> parse_from ctx s = ctx"
  by (induction s) (auto simp: plain_def format_codes_def)

lemma parse_flags:
  assumes "plain s" "\<not> fc_bold c" "\<not> fc_reverse c" "\<not> fc_underline c"
  shows "parse_from c (flags ctx @ s) = c\<lparr>fc_bold := fc_bold ctx, fc_reverse := fc_reverse ctx, fc_underline := fc_underline ctx\<rparr>"
  using assms by (cases c) (auto simp: flags_def parse_plain)

lemma start_flags: "FormatContext_start ctx s =
  (if fc_fg ctx \<noteq> None \<or> fc_bg ctx \<noteq> None
   then bindR (mircColor (flags ctx @ s) (map_option PInt (fc_fg ctx)) (map_option PInt (fc_bg ctx))) (\<lambda>t. Inr (butlast t))
   else Inr (flags ctx @ s))"
  by (auto simp: FormatContext_start_def flags_def Let_def)

lemma flags_stop: "plain s \<Longrightarrow> s = [] \<or> \<not> is_digit (hd s) \<Longrightarrow> flags ctx @ s = [] \<or> \<not> is_digit (hd (flags ctx @ s))"
  by (auto simp: flags_def is_digit_def)

text \<open>
  When a line's context has no colors, or both a foreground and a background color (from 0 to 15),
  the prefix \<open>FormatContext.start\<close> puts before the next line is read back by \<open>FormatParser\<close> as exactly
  that context, so \<open>wrap\<close> carries the formatting over (for a plain line that does not start with a
  digit).
\<close>

theorem FormatContext_start_parsed_back:
  assumes plain: "plain s" and digit: "s = [] \<or> \<not> is_digit (hd s)"
    and colors: "fc_fg ctx = None \<and> fc_bg ctx = None
      \<or> (\<exists>f b. fc_fg ctx = Some f \<and> fc_bg ctx = Some b \<and> {f, b} \<subseteq> {0..15})"
  shows "\<exists>t. FormatContext_start ctx s = Inr t \<and> FormatParser_parse t = ctx"
  using colors
proof (elim disjE exE conjE)
  assume "fc_fg ctx = None" "fc_bg ctx = None"
  then show ?thesis using parse_flags [OF plain, of FormatContext_new ctx]
    by (cases ctx) (simp add: start_flags FormatParser_parse_def FormatContext_new_def)
next
  fix f b assume fb: "fc_fg ctx = Some f" "fc_bg ctx = Some b" "{f, b} \<subseteq> {0..15}"
  then have f: "0 \<le> f" "f \<le> 15" and b: "0 \<le> b" "b \<le> 15" by auto
  let ?r = "flags ctx @ s"
  have "FormatContext_start ctx s = Inr (CHR 0x03 # str_of_int f @ CHR '','' # zfill 2 (str_of_int b) @ ?r)"
    using fb mircColors_numbers [OF f] mircColors_numbers [OF b]
    by (simp add: start_flags mircColor_def butlast_append)
  moreover have "getInt (str_of_int f @ CHR '','' # zfill 2 (str_of_int b) @ ?r)
      = (Some f, CHR '','' # zfill 2 (str_of_int b) @ ?r)"
    using getInt_digits [OF color_digits(1-3) [OF f], of "CHR '','' # zfill 2 (str_of_int b) @ ?r"] color_digits(4) [OF f]
    by (simp add: is_digit_def)
  moreover have "getInt (zfill 2 (str_of_int b) @ ?r) = (Some b, ?r)"
    using getInt_digits [OF color_digits(5-7) [OF b] flags_stop [OF plain digit]] color_digits(8) [OF b] by simp
  ultimately show ?thesis
    using fb parse_flags [OF plain, of "FormatContext_new\<lparr>fc_fg := Some f, fc_bg := Some b\<rparr>" ctx]
    by (cases ctx) (simp add: FormatParser_parse_def getColor_def FormatContext_new_def)
qed

theorem FormatContext_start_parsed_back_witness:
  "\<exists>t. FormatContext_start \<lparr>fc_fg = Some 4, fc_bg = Some 12, fc_bold = True, fc_reverse = False, fc_underline = True\<rparr> ''next'' = Inr t
     \<and> FormatParser_parse t = \<lparr>fc_fg = Some 4, fc_bg = Some 12, fc_bold = True, fc_reverse = False, fc_underline = True\<rparr>"
  by (rule FormatContext_start_parsed_back) (simp_all add: plain_def format_codes_def is_digit_def)

text \<open>
  With a foreground color only, the parser loses a switch: \<open>getColor\<close> reads one character past the
  number to look for a comma and does not put it back, so a bold code right after the color is
  dropped and the formatting of the line is read back without bold.  A context whose only
  formatting is the foreground 0 (white) is not closed at the end of its line either.
\<close>

theorem FormatParser_drops_code_after_color:
  assumes "plain s" "0 \<le> f" "f \<le> 15"
  shows "\<exists>t. FormatContext_start (FormatContext_new\<lparr>fc_fg := Some f, fc_bold := True\<rparr>) s = Inr t
      \<and> FormatParser_parse t = FormatContext_new\<lparr>fc_fg := Some f\<rparr>
    \<and> FormatContext_end (FormatContext_new\<lparr>fc_fg := Some 0\<rparr>) s = s"
proof -
  let ?ctx = "FormatContext_new\<lparr>fc_fg := Some f, fc_bold := True\<rparr>"
  have "FormatContext_start ?ctx s = Inr (CHR 0x03 # zfill 2 (str_of_int f) @ CHR 0x02 # s)"
    using mircColors_numbers [OF assms(2,3)]
    by (simp add: start_flags mircColor_def butlast_append flags_def FormatContext_new_def)
  moreover have "getInt (zfill 2 (str_of_int f) @ CHR 0x02 # s) = (Some f, CHR 0x02 # s)"
    using getInt_digits [OF color_digits(5-7) [OF assms(2,3)], of "CHR 0x02 # s"] color_digits(8) [OF assms(2,3)]
    by (simp add: is_digit_def)
  ultimately show ?thesis using parse_plain [OF assms(1)]
    by (simp add: FormatParser_parse_def getColor_def FormatContext_end_def truthy_def FormatContext_new_def)
qed

theorem FormatParser_drops_code_after_color_witness:
  "\<exists>t. FormatContext_start (FormatContext_new\<lparr>fc_fg := Some 4, fc_bold := True\<rparr>) ''x'' = Inr t
      \<and> FormatParser_parse t = FormatContext_new\<lparr>fc_fg := Some 4\<rparr>"
  using FormatParser_drops_code_after_color [of "''x''" 4] by (auto simp: plain_def format_codes_def)

end
