(* ===== verification/IrcMsgs.thy ===== *)
theory IrcMsgs
  imports IrcUtils
begin

text \<open>
  \<open>ircmsgs.py\<close>: the message object, parsed from a raw line or built from keyword arguments, its
  serialisation, the predicates on it and the functions that construct each kind of message.
  \<open>strict\<close> is the configuration variable \<open>supybot.protocols.irc.strictRfc\<close>. The clock and
  \<open>strftime\<close> are arguments. A message is never false in Python (its length, that of its line, is
  positive), so \<open>if msg\<close> is \<open>msg \<noteq> None\<close>.
\<close>

section \<open>The message object\<close>

datatype tagval = TTrue | TNum int | TText string

record IrcMsg =
  im_prefix :: string
  im_command :: string
  im_args :: "string list"
  im_nick :: string
  im_user :: string
  im_host :: string
  im_str :: "string option"
  im_tags :: "(string, tagval) dict"

text \<open>The end of the constructor: the attributes that come from the prefix.\<close>

definition IrcMsg_finish :: "string option \<Rightarrow> (string, tagval) dict \<Rightarrow> string \<Rightarrow> string \<Rightarrow> string list \<Rightarrow> IrcMsg res" where
  "IrcMsg_finish str tags prefix command args =
     (if isUserHostmask prefix then
        bindR (splitHostmask prefix) (\<lambda>(nick, user, host).
          Inr \<lparr>im_prefix = prefix, im_command = command, im_args = args,
               im_nick = nick, im_user = user, im_host = host, im_str = str, im_tags = tags\<rparr>)
      else Inr \<lparr>im_prefix = prefix, im_command = command, im_args = args,
               im_nick = prefix, im_user = prefix, im_host = prefix, im_str = str, im_tags = tags\<rparr>)"

definition CRLF :: string where
  "CRLF = [CHR 0x0D, CHR 0x0A]"

text \<open>
  The \<open>try\<close> block that takes a raw line apart; a line without the pieces it needs raises
  \<open>ValueError\<close> (unpacking) or \<open>IndexError\<close> (\<open>pop\<close>), which the constructor turns into \<open>MalformedIrcMsg\<close>.
\<close>

definition IrcMsg_tokens :: "string \<Rightarrow> string list" where
  "IrcMsg_tokens s =
     (if has_sub '' :'' s then
        (case split_sub1 '' :'' s of (p, r) \<Rightarrow> split_ws p @ [rstrip_in CRLF (the r)])
      else split_ws s)"

definition IrcMsg_pieces :: "string \<Rightarrow> (string \<times> string \<times> string list) res" where
  "IrcMsg_pieces s =
     bindR (if hd s = CHR '':'' then
              (case split_ws1 (tl s) of [p, r] \<Rightarrow> Inr (p, r) | _ \<Rightarrow> Inl ValueError)
            else Inr ([], s)) (\<lambda>(prefix, s).
     case IrcMsg_tokens s of
       [] \<Rightarrow> Inl IndexError
     | command # args \<Rightarrow> Inr (prefix, command, args))"

definition IrcMsg_parse :: "string \<Rightarrow> IrcMsg res" where
  "IrcMsg_parse s =
     (let s' = (if endswith s [CHR 0x0A] then s else s @ [CHR 0x0A]) in
      case IrcMsg_pieces s' of
        Inl e \<Rightarrow> Inl MalformedIrcMsg
      | Inr (prefix, command, args) \<Rightarrow> IrcMsg_finish (Some s') [] prefix command args)"

definition IrcMsg_new :: "string \<Rightarrow> string \<Rightarrow> string list \<Rightarrow> string \<Rightarrow> IrcMsg option \<Rightarrow> IrcMsg res" where
  "IrcMsg_new s command args prefix msg =
     py_assert (\<not> (msg \<noteq> None \<and> s \<noteq> []))
       (if s = [] \<and> command = [] \<and> msg = None then Inl MalformedIrcMsg
        else if s \<noteq> [] then IrcMsg_parse s
        else (case msg of
            Some m \<Rightarrow> IrcMsg_finish None (im_tags m)
                        (if prefix \<noteq> [] then prefix else im_prefix m)
                        (if command \<noteq> [] then command else im_command m)
                        (if args \<noteq> [] then args else im_args m)
          | None \<Rightarrow> py_assert (\<forall>a \<in> set args. isValidArgument a)
                      (IrcMsg_finish None [] prefix command args)))"

text \<open>\<open>__str__\<close>: the line the message was read from, else the line its fields make, which it keeps.\<close>

definition IrcMsg_render :: "IrcMsg \<Rightarrow> string" where
  "IrcMsg_render m =
     (if im_prefix m \<noteq> [] then
        (if length (im_args m) > 1 then
           '':'' @ im_prefix m @ '' '' @ im_command m @ '' '' @
             join_char CHR '' '' (butlast (im_args m)) @ '' :'' @ List.last (im_args m) @ CRLF
         else if im_args m \<noteq> [] then
           '':'' @ im_prefix m @ '' '' @ im_command m @ '' :'' @ hd (im_args m) @ CRLF
         else '':'' @ im_prefix m @ '' '' @ im_command m @ CRLF)
      else
        (if length (im_args m) > 1 then
           im_command m @ '' '' @ join_char CHR '' '' (butlast (im_args m)) @ '' :'' @ List.last (im_args m) @ CRLF
         else if im_args m \<noteq> [] then im_command m @ '' :'' @ hd (im_args m) @ CRLF
         else im_command m @ CRLF))"

definition IrcMsg_str :: "IrcMsg \<Rightarrow> string \<times> IrcMsg" where
  "IrcMsg_str m =
     (case im_str m of Some s \<Rightarrow> (s, m)
      | None \<Rightarrow> (IrcMsg_render m, m\<lparr>im_str := Some (IrcMsg_render m)\<rparr>))"

definition IrcMsg_len :: "IrcMsg \<Rightarrow> nat" where
  "IrcMsg_len m = length (fst (IrcMsg_str m))"

text \<open>\<open>hash\<close> of strings and of tuples of strings is Python's.\<close>

definition IrcMsg_hash :: "(string \<Rightarrow> int) \<Rightarrow> (string list \<Rightarrow> int) \<Rightarrow> IrcMsg \<Rightarrow> int" where
  "IrcMsg_hash hash_str hash_tuple m =
     Bit_Operations.xor (Bit_Operations.xor (hash_str (im_command m)) (hash_str (im_prefix m))) (hash_tuple (im_args m))"

definition IrcMsg_eq :: "(string \<Rightarrow> int) \<Rightarrow> (string list \<Rightarrow> int) \<Rightarrow> IrcMsg \<Rightarrow> IrcMsg \<Rightarrow> bool" where
  "IrcMsg_eq hash_str hash_tuple m n \<longleftrightarrow>
     IrcMsg_hash hash_str hash_tuple m = IrcMsg_hash hash_str hash_tuple n \<and>
     im_command m = im_command n \<and> im_prefix m = im_prefix n \<and> im_args m = im_args n"

text \<open>The hashes of equal fields are equal, so \<open>==\<close> is equality of the three fields.\<close>

definition IrcMsg_same :: "IrcMsg \<Rightarrow> IrcMsg \<Rightarrow> bool" where
  "IrcMsg_same m n \<longleftrightarrow> im_command m = im_command n \<and> im_prefix m = im_prefix n \<and> im_args m = im_args n"

lemma IrcMsg_eq_same: "IrcMsg_eq hash_str hash_tuple m n = IrcMsg_same m n"
  by (auto simp: IrcMsg_eq_def IrcMsg_same_def IrcMsg_hash_def)

lemma IrcMsg_same_equiv [simp, intro]: "IrcMsg_same m m"
  "IrcMsg_same m n \<Longrightarrow> IrcMsg_same n m" "IrcMsg_same m n \<Longrightarrow> IrcMsg_same n k \<Longrightarrow> IrcMsg_same m k"
  by (simp_all add: IrcMsg_same_def)

definition IrcMsg_reduce :: "IrcMsg \<Rightarrow> IrcMsg res" where
  "IrcMsg_reduce m = IrcMsg_new (fst (IrcMsg_str m)) [] [] [] None"

definition IrcMsg_tag :: "string \<Rightarrow> tagval \<Rightarrow> IrcMsg \<Rightarrow> IrcMsg" where
  "IrcMsg_tag t v m = m\<lparr>im_tags := dict_set t v (im_tags m)\<rparr>"

definition IrcMsg_tagged :: "string \<Rightarrow> IrcMsg \<Rightarrow> tagval option" where
  "IrcMsg_tagged t m = dict_get (im_tags m) t"

section \<open>Predicates and views\<close>

definition msg_arg :: "IrcMsg \<Rightarrow> nat \<Rightarrow> string res" where
  "msg_arg m i = list_item (im_args m) (int i)"

definition isCtcp :: "IrcMsg \<Rightarrow> bool res" where
  "isCtcp m =
     (if im_command m \<in> {''PRIVMSG'', ''NOTICE''} then
        bindR (msg_arg m 1) (\<lambda>a.
          Inr (startswith a [CHR 0x01] \<and> endswith a [CHR 0x01] \<and> length a \<ge> 2))
      else Inr False)"

definition isAction :: "IrcMsg \<Rightarrow> bool res" where
  "isAction m =
     bindR (isCtcp m) (\<lambda>ctcp.
       if ctcp then
         bindR (msg_arg m 1) (\<lambda>s.
         bindR (list_item (split_ws1 (butlast (tl s))) 0) (\<lambda>command. Inr (command = ''ACTION'')))
       else Inr False)"

definition isSplit :: "IrcMsg \<Rightarrow> bool res" where
  "isSplit m =
     (if im_command m = ''QUIT'' then
        bindR (msg_arg m 0) (\<lambda>quitmsg.
          Inr (\<not> startswith quitmsg [CHR 0x22] \<and> \<not> endswith quitmsg [CHR 0x22]
               \<and> length (split_ws quitmsg) = 2))
      else Inr False)"

text \<open>
  \<open>_unactionre.match(s)\<close>: group 1 of \<open>^\x01ACTION\s+(.*)\x01$\<close>. The whitespace is taken greedily, \<open>.\<close> is
  no newline, and \<open>$\<close> also matches before a final newline.
\<close>

definition unaction_group :: "string \<Rightarrow> string option" where
  "unaction_group s =
     (if startswith s (CHR 0x01 # ''ACTION'') then
        (let r = drop 7 s; t = skip_ws r;
             t' = (if endswith t [CHR 0x01, CHR 0x0A] then butlast t else t)
         in if r \<noteq> [] \<and> is_space (hd r) \<and> endswith t' [CHR 0x01] \<and> CHR 0x0A \<notin> set (butlast t')
            then Some (butlast t') else None)
      else None)"

definition unAction :: "IrcMsg \<Rightarrow> string res" where
  "unAction m =
     bindR (isAction m) (\<lambda>b. py_assert b
       (bindR (msg_arg m 1) (\<lambda>s.
          case unaction_group s of None \<Rightarrow> Inl AttributeError | Some g \<Rightarrow> Inr g)))"

definition xml_escape :: "string \<Rightarrow> string" where
  "xml_escape s =
     replace_char CHR ''>'' ''&gt;'' (replace_char CHR ''<'' ''&lt;''
       (replace_char CHR 0x22 ''&quot;'' (replace_char CHR ''&'' ''&amp;'' s)))"

definition toXml :: "string \<Rightarrow> bool \<Rightarrow> bool \<Rightarrow> IrcMsg \<Rightarrow> string res" where
  "toXml now pretty includeTime m =
     py_assert (im_command m = xml_escape (im_command m))
       (Inr (''<msg command='' @ [CHR 0x22] @ im_command m @ [CHR 0x22] @ '' prefix='' @ [CHR 0x22]
             @ xml_escape (im_prefix m) @ [CHR 0x22]
             @ (if includeTime then '' time='' @ [CHR 0x22] @ now @ [CHR 0x22] else [])
             @ ''>'' @ (if pretty then [CHR 0x0A] else [])
             @ concat (map (\<lambda>arg. (if pretty then ''    '' else []) @ ''<arg>'' @ xml_escape arg @ ''</arg>''
                                   @ (if pretty then [CHR 0x0A] else [])) (im_args m))
             @ ''</msg>'' @ [CHR 0x0A]))"

definition pretty_nick :: "bool \<Rightarrow> IrcMsg \<Rightarrow> string res" where
  "pretty_nick addRecipients m =
     (if addRecipients then bindR (msg_arg m 0) (\<lambda>a. Inr (im_nick m @ ''/'' @ a)) else Inr (im_nick m))"

definition pretty_nickorprefix :: "IrcMsg \<Rightarrow> string" where
  "pretty_nickorprefix m = (if im_nick m \<noteq> [] then im_nick m else im_prefix m)"

definition pretty_body :: "bool \<Rightarrow> bool \<Rightarrow> IrcMsg \<Rightarrow> string res" where
  "pretty_body addRecipients showNick m =
     (if im_command m = ''PRIVMSG'' then
        bindR (msg_arg m 1) (\<lambda>a1.
          case unaction_group a1 of
            Some g \<Rightarrow> bindR (pretty_nick addRecipients m) (\<lambda>n. Inr (''* '' @ n @ '' '' @ g))
          | None \<Rightarrow>
              if \<not> showNick then Inr a1
              else bindR (pretty_nick addRecipients m) (\<lambda>n. Inr (''<'' @ n @ ''> '' @ a1)))
      else if im_command m = ''NOTICE'' then
        (if \<not> showNick then msg_arg m 1
         else bindR (pretty_nick addRecipients m) (\<lambda>n.
              bindR (msg_arg m 1) (\<lambda>a1. Inr (''-'' @ n @ ''- '' @ a1))))
      else if im_command m = ''JOIN'' then
        bindR (msg_arg m 0) (\<lambda>a0. Inr (''*** '' @ im_nick m @ '' has joined '' @ a0))
      else if im_command m = ''PART'' then
        bindR (if length (im_args m) > 1 then bindR (msg_arg m 1) (\<lambda>a1. Inr ('' ('' @ a1 @ '')'')) else Inr [])
          (\<lambda>partmsg. bindR (msg_arg m 0) (\<lambda>a0.
             Inr (''*** '' @ im_nick m @ '' has parted '' @ a0 @ partmsg)))
      else if im_command m = ''KICK'' then
        bindR (if length (im_args m) > 2 then bindR (msg_arg m 1) (\<lambda>a1. Inr ('' ('' @ a1 @ '')'')) else Inr [])
          (\<lambda>kickmsg. bindR (msg_arg m 1) (\<lambda>a1.
             Inr (''*** '' @ a1 @ '' was kicked by '' @ im_nick m @ kickmsg)))
      else if im_command m = ''MODE'' then
        Inr (''*** '' @ pretty_nickorprefix m @ '' sets mode: '' @ join_char CHR '' '' (im_args m))
      else if im_command m = ''QUIT'' then
        Inr (''*** '' @ im_nick m @ '' has quit IRC'' @
             (if im_args m \<noteq> [] then '' ('' @ hd (im_args m) @ '')'' else []))
      else if im_command m = ''TOPIC'' then
        bindR (msg_arg m 1) (\<lambda>a1. Inr (''*** '' @ pretty_nickorprefix m @ '' changes topic to '' @ a1))
      else if im_command m = ''NICK'' then
        bindR (msg_arg m 0) (\<lambda>a0. Inr (''*** '' @ im_nick m @ '' is now known as '' @ a0))
      else Inr (''--- Unknown command '' @ [CHR 0x22] @ join_char CHR '' '' (im_args m) @ [CHR 0x22]))"

definition prettyPrint :: "(string \<Rightarrow> tagval \<Rightarrow> string) \<Rightarrow> bool \<Rightarrow> string option \<Rightarrow> bool \<Rightarrow> IrcMsg \<Rightarrow> string res" where
  "prettyPrint strftime addRecipients timestampFormat showNick m =
     bindR (pretty_body addRecipients showNick m) (\<lambda>s.
       Inr (case (timestampFormat, IrcMsg_tagged ''receivedAt'' m) of
           (Some fmt, Some at) \<Rightarrow> if fmt = [] \<or> at = TNum 0 then s else strftime fmt at @ '' '' @ s
         | _ \<Rightarrow> s))"

definition replyTo :: "IrcMsg \<Rightarrow> string res" where
  "replyTo m = bindR (msg_arg m 0) (\<lambda>a. Inr (if isChannel a then a else im_nick m))"

section \<open>Constructors\<close>

text \<open>\<open>if msg and not prefix: prefix = msg.prefix\<close>, and the constructor with keyword arguments.\<close>

definition msg_prefix :: "string \<Rightarrow> IrcMsg option \<Rightarrow> string" where
  "msg_prefix prefix msg = (case msg of Some m \<Rightarrow> if prefix = [] then im_prefix m else prefix | None \<Rightarrow> prefix)"

definition IrcMsg_kw :: "string \<Rightarrow> string \<Rightarrow> string list \<Rightarrow> IrcMsg option \<Rightarrow> IrcMsg res" where
  "IrcMsg_kw prefix command args msg = IrcMsg_new [] command args prefix msg"

definition pong_msg :: "bool \<Rightarrow> string \<Rightarrow> string \<Rightarrow> IrcMsg option \<Rightarrow> IrcMsg res" where
  "pong_msg strict payload prefix msg =
     py_assert (strict \<longrightarrow> payload \<noteq> [])
       (IrcMsg_kw (msg_prefix prefix msg) ''PONG'' [payload] msg)"

definition ping_msg :: "bool \<Rightarrow> string \<Rightarrow> string \<Rightarrow> IrcMsg option \<Rightarrow> IrcMsg res" where
  "ping_msg strict payload prefix msg =
     py_assert (strict \<longrightarrow> payload \<noteq> [])
       (IrcMsg_kw (msg_prefix prefix msg) ''PING'' [payload] msg)"

definition op_msg :: "bool \<Rightarrow> string \<Rightarrow> string \<Rightarrow> string \<Rightarrow> IrcMsg option \<Rightarrow> IrcMsg res" where
  "op_msg strict channel nick prefix msg =
     py_assert (strict \<longrightarrow> isChannel channel \<and> isNick nick)
       (IrcMsg_kw (msg_prefix prefix msg) ''MODE'' [channel, ''+o'', nick] msg)"

definition ops_msg :: "bool \<Rightarrow> string \<Rightarrow> string list \<Rightarrow> string \<Rightarrow> IrcMsg option \<Rightarrow> IrcMsg res" where
  "ops_msg strict channel nicks prefix msg =
     py_assert (strict \<longrightarrow> isChannel channel \<and> nicks \<noteq> [] \<and> (\<forall>n \<in> set nicks. isNick n))
       (IrcMsg_kw (msg_prefix prefix msg) ''MODE''
          (channel # (CHR ''+'' # replicate (length nicks) CHR ''o'') # nicks) msg)"

definition deop_msg :: "bool \<Rightarrow> string \<Rightarrow> string \<Rightarrow> string \<Rightarrow> IrcMsg option \<Rightarrow> IrcMsg res" where
  "deop_msg strict channel nick prefix msg =
     py_assert (strict \<longrightarrow> isChannel channel \<and> isNick nick)
       (IrcMsg_kw (msg_prefix prefix msg) ''MODE'' [channel, ''-o'', nick] msg)"

definition deops_msg :: "bool \<Rightarrow> string \<Rightarrow> string list \<Rightarrow> string \<Rightarrow> IrcMsg option \<Rightarrow> IrcMsg res" where
  "deops_msg strict channel nicks prefix msg =
     py_assert (strict \<longrightarrow> isChannel channel \<and> nicks \<noteq> [] \<and> (\<forall>n \<in> set nicks. isNick n))
       (IrcMsg_kw (msg_prefix prefix msg) ''MODE''
          (channel # (CHR ''-'' # replicate (length nicks) CHR ''o'') # nicks) msg)"

definition halfop_msg :: "bool \<Rightarrow> string \<Rightarrow> string \<Rightarrow> string \<Rightarrow> IrcMsg option \<Rightarrow> IrcMsg res" where
  "halfop_msg strict channel nick prefix msg =
     py_assert (strict \<longrightarrow> isChannel channel \<and> isNick nick)
       (IrcMsg_kw (msg_prefix prefix msg) ''MODE'' [channel, ''+h'', nick] msg)"

definition halfops_msg :: "bool \<Rightarrow> string \<Rightarrow> string list \<Rightarrow> string \<Rightarrow> IrcMsg option \<Rightarrow> IrcMsg res" where
  "halfops_msg strict channel nicks prefix msg =
     py_assert (strict \<longrightarrow> isChannel channel \<and> nicks \<noteq> [] \<and> (\<forall>n \<in> set nicks. isNick n))
       (IrcMsg_kw (msg_prefix prefix msg) ''MODE''
          (channel # (CHR ''+'' # replicate (length nicks) CHR ''h'') # nicks) msg)"

definition dehalfop_msg :: "bool \<Rightarrow> string \<Rightarrow> string \<Rightarrow> string \<Rightarrow> IrcMsg option \<Rightarrow> IrcMsg res" where
  "dehalfop_msg strict channel nick prefix msg =
     py_assert (strict \<longrightarrow> isChannel channel \<and> isNick nick)
       (IrcMsg_kw (msg_prefix prefix msg) ''MODE'' [channel, ''-h'', nick] msg)"

definition dehalfops_msg :: "bool \<Rightarrow> string \<Rightarrow> string list \<Rightarrow> string \<Rightarrow> IrcMsg option \<Rightarrow> IrcMsg res" where
  "dehalfops_msg strict channel nicks prefix msg =
     py_assert (strict \<longrightarrow> isChannel channel \<and> nicks \<noteq> [] \<and> (\<forall>n \<in> set nicks. isNick n))
       (IrcMsg_kw (msg_prefix prefix msg) ''MODE''
          (channel # (CHR ''-'' # replicate (length nicks) CHR ''h'') # nicks) msg)"

definition voice_msg :: "bool \<Rightarrow> string \<Rightarrow> string \<Rightarrow> string \<Rightarrow> IrcMsg option \<Rightarrow> IrcMsg res" where
  "voice_msg strict channel nick prefix msg =
     py_assert (strict \<longrightarrow> isChannel channel \<and> isNick nick)
       (IrcMsg_kw (msg_prefix prefix msg) ''MODE'' [channel, ''+v'', nick] msg)"

definition voices_msg :: "bool \<Rightarrow> string \<Rightarrow> string list \<Rightarrow> string \<Rightarrow> IrcMsg option \<Rightarrow> IrcMsg res" where
  "voices_msg strict channel nicks prefix msg =
     py_assert (strict \<longrightarrow> isChannel channel \<and> nicks \<noteq> [] \<and> (\<forall>n \<in> set nicks. isNick n))
       (IrcMsg_kw (msg_prefix prefix msg) ''MODE''
          (channel # (CHR ''+'' # replicate (length nicks) CHR ''v'') # nicks) msg)"

definition devoice_msg :: "bool \<Rightarrow> string \<Rightarrow> string \<Rightarrow> string \<Rightarrow> IrcMsg option \<Rightarrow> IrcMsg res" where
  "devoice_msg strict channel nick prefix msg =
     py_assert (strict \<longrightarrow> isChannel channel \<and> isNick nick)
       (IrcMsg_kw (msg_prefix prefix msg) ''MODE'' [channel, ''-v'', nick] msg)"

definition devoices_msg :: "bool \<Rightarrow> string \<Rightarrow> string list \<Rightarrow> string \<Rightarrow> IrcMsg option \<Rightarrow> IrcMsg res" where
  "devoices_msg strict channel nicks prefix msg =
     py_assert (strict \<longrightarrow> isChannel channel \<and> nicks \<noteq> [] \<and> (\<forall>n \<in> set nicks. isNick n))
       (IrcMsg_kw (msg_prefix prefix msg) ''MODE''
          (channel # (CHR ''-'' # replicate (length nicks) CHR ''v'') # nicks) msg)"

text \<open>\<open>[channel] + ircutils.joinModes(modes)\<close> for modes whose arguments are strings.\<close>

definition mode_args :: "string \<Rightarrow> (string \<times> string) list \<Rightarrow> string list res" where
  "mode_args channel modes =
     bindR (joinModes (map (\<lambda>(m, a). (m, Some (PStr a))) modes)) (\<lambda>args. Inr (channel # map py_str args))"

definition ban_msg :: "bool \<Rightarrow> string \<Rightarrow> string \<Rightarrow> string \<Rightarrow> string \<Rightarrow> IrcMsg option \<Rightarrow> IrcMsg res" where
  "ban_msg strict channel hostmask exception prefix msg =
     py_assert (strict \<longrightarrow> isChannel channel \<and> isUserHostmask hostmask)
       (bindR (mode_args channel ([(''+b'', hostmask)] @ (if exception \<noteq> [] then [(''+e'', exception)] else []))) (\<lambda>args.
        IrcMsg_kw (msg_prefix prefix msg) ''MODE'' args msg))"

definition bans_msg :: "bool \<Rightarrow> string \<Rightarrow> string list \<Rightarrow> string list \<Rightarrow> string \<Rightarrow> IrcMsg option \<Rightarrow> IrcMsg res" where
  "bans_msg strict channel hostmasks exceptions prefix msg =
     py_assert (strict \<longrightarrow> isChannel channel \<and> (\<forall>h \<in> set hostmasks. isUserHostmask h))
       (bindR (mode_args channel (map (Pair ''+b'') hostmasks @ map (Pair ''+e'') exceptions)) (\<lambda>args.
        IrcMsg_kw (msg_prefix prefix msg) ''MODE'' args msg))"

definition unban_msg :: "bool \<Rightarrow> string \<Rightarrow> string \<Rightarrow> string \<Rightarrow> IrcMsg option \<Rightarrow> IrcMsg res" where
  "unban_msg strict channel hostmask prefix msg =
     py_assert (strict \<longrightarrow> isChannel channel \<and> isUserHostmask hostmask)
       (IrcMsg_kw (msg_prefix prefix msg) ''MODE'' [channel, ''-b'', hostmask] msg)"

definition kick_msg :: "bool \<Rightarrow> string \<Rightarrow> string \<Rightarrow> string \<Rightarrow> string \<Rightarrow> IrcMsg option \<Rightarrow> IrcMsg res" where
  "kick_msg strict channel nick s prefix msg =
     py_assert (strict \<longrightarrow> isChannel channel \<and> isNick nick)
       (if s \<noteq> [] then IrcMsg_kw (msg_prefix prefix msg) ''KICK'' [channel, nick, s] msg
        else IrcMsg_kw (msg_prefix prefix msg) ''KICK'' [channel, nick] msg)"

definition kicks_msg :: "bool \<Rightarrow> string \<Rightarrow> string list \<Rightarrow> string \<Rightarrow> string \<Rightarrow> IrcMsg option \<Rightarrow> IrcMsg res" where
  "kicks_msg strict channel nicks s prefix msg =
     py_assert (strict \<longrightarrow> isChannel channel \<and> (\<forall>n \<in> set nicks. isNick n))
       (if s \<noteq> [] then IrcMsg_kw (msg_prefix prefix msg) ''KICK'' [channel, join_char CHR '','' nicks, s] msg
        else IrcMsg_kw (msg_prefix prefix msg) ''KICK'' [channel, join_char CHR '','' nicks] msg)"

definition privmsg_msg :: "bool \<Rightarrow> string \<Rightarrow> string \<Rightarrow> string \<Rightarrow> IrcMsg option \<Rightarrow> IrcMsg res" where
  "privmsg_msg strict recipient s prefix msg =
     py_assert (strict \<longrightarrow> (isChannel recipient \<or> isNick recipient) \<and> s \<noteq> [])
       (IrcMsg_kw (msg_prefix prefix msg) ''PRIVMSG'' [recipient, s] msg)"

definition dcc_msg :: "string \<Rightarrow> string \<Rightarrow> string list \<Rightarrow> string \<Rightarrow> IrcMsg res" where
  "dcc_msg recipient kind args prefix =
     py_assert (isNick recipient)
       (let k = py_upper kind in
        py_assert (k \<in> {''SEND'', ''CHAT'', ''RESUME'', ''ACCEPT''})
          (IrcMsg_kw prefix ''PRIVMSG'' [recipient, join_char CHR '' '' (k # args)] None))"

definition action_msg :: "bool \<Rightarrow> string \<Rightarrow> string \<Rightarrow> string \<Rightarrow> IrcMsg option \<Rightarrow> IrcMsg res" where
  "action_msg strict recipient s prefix msg =
     py_assert (strict \<longrightarrow> isChannel recipient \<or> isNick recipient)
       (IrcMsg_kw (msg_prefix prefix msg) ''PRIVMSG'' [recipient, CHR 0x01 # ''ACTION '' @ s @ [CHR 0x01]] msg)"

definition notice_msg :: "bool \<Rightarrow> string \<Rightarrow> string \<Rightarrow> string \<Rightarrow> IrcMsg option \<Rightarrow> IrcMsg res" where
  "notice_msg strict recipient s prefix msg =
     py_assert (strict \<longrightarrow> (isChannel recipient \<or> isNick recipient) \<and> s \<noteq> [])
       (IrcMsg_kw (msg_prefix prefix msg) ''NOTICE'' [recipient, s] msg)"

definition valid_key :: "string \<Rightarrow> bool" where
  "valid_key key \<longleftrightarrow>
     (\<forall>c \<in> set key. ord c < 128) \<and> CHR 0x00 \<notin> set key \<and> CHR 0x0D \<notin> set key \<and> CHR 0x0A \<notin> set key \<and>
     CHR 0x0C \<notin> set key \<and> CHR 0x09 \<notin> set key \<and> CHR 0x0B \<notin> set key \<and> CHR '' '' \<notin> set key"

definition join_msg :: "bool \<Rightarrow> string \<Rightarrow> string option \<Rightarrow> string \<Rightarrow> IrcMsg option \<Rightarrow> IrcMsg res" where
  "join_msg strict channel key prefix msg =
     py_assert (strict \<longrightarrow> isChannel channel)
       (case key of None \<Rightarrow> IrcMsg_kw (msg_prefix prefix msg) ''JOIN'' [channel] msg
        | Some k \<Rightarrow> py_assert (strict \<longrightarrow> valid_key k)
            (IrcMsg_kw (msg_prefix prefix msg) ''JOIN'' [channel, k] msg))"

definition joins_msg :: "bool \<Rightarrow> string list \<Rightarrow> string list option \<Rightarrow> string \<Rightarrow> IrcMsg option \<Rightarrow> IrcMsg res" where
  "joins_msg strict channels keys prefix msg =
     py_assert (strict \<longrightarrow> (\<forall>c \<in> set channels. isChannel c))
       (let ks = (case keys of None \<Rightarrow> [] | Some ks \<Rightarrow> ks) in
        py_assert (length ks \<le> length channels)
          (if ks = [] then IrcMsg_kw (msg_prefix prefix msg) ''JOIN'' [join_char CHR '','' channels] msg
           else py_assert (strict \<longrightarrow> (\<forall>k \<in> set ks. valid_key k))
             (IrcMsg_kw (msg_prefix prefix msg) ''JOIN'' [join_char CHR '','' channels, join_char CHR '','' ks] msg)))"

definition part_msg :: "bool \<Rightarrow> string \<Rightarrow> string \<Rightarrow> string \<Rightarrow> IrcMsg option \<Rightarrow> IrcMsg res" where
  "part_msg strict channel s prefix msg =
     py_assert (strict \<longrightarrow> isChannel channel)
       (if s \<noteq> [] then IrcMsg_kw (msg_prefix prefix msg) ''PART'' [channel, s] msg
        else IrcMsg_kw (msg_prefix prefix msg) ''PART'' [channel] msg)"

definition parts_msg :: "bool \<Rightarrow> string list \<Rightarrow> string \<Rightarrow> string \<Rightarrow> IrcMsg option \<Rightarrow> IrcMsg res" where
  "parts_msg strict channels s prefix msg =
     py_assert (strict \<longrightarrow> (\<forall>c \<in> set channels. isChannel c))
       (if s \<noteq> [] then IrcMsg_kw (msg_prefix prefix msg) ''PART'' [join_char CHR '','' channels, s] msg
        else IrcMsg_kw (msg_prefix prefix msg) ''PART'' [join_char CHR '','' channels] msg)"

definition quit_msg :: "string \<Rightarrow> string \<Rightarrow> IrcMsg option \<Rightarrow> IrcMsg res" where
  "quit_msg s prefix msg =
     (if s \<noteq> [] then IrcMsg_kw (msg_prefix prefix msg) ''QUIT'' [s] msg
      else IrcMsg_kw (msg_prefix prefix msg) ''QUIT'' [] msg)"

definition topic_msg :: "bool \<Rightarrow> string \<Rightarrow> string option \<Rightarrow> string \<Rightarrow> IrcMsg option \<Rightarrow> IrcMsg res" where
  "topic_msg strict channel topic prefix msg =
     py_assert (strict \<longrightarrow> isChannel channel)
       (case topic of None \<Rightarrow> IrcMsg_kw (msg_prefix prefix msg) ''TOPIC'' [channel] msg
        | Some t \<Rightarrow> IrcMsg_kw (msg_prefix prefix msg) ''TOPIC'' [channel, t] msg)"

definition nick_msg :: "bool \<Rightarrow> string \<Rightarrow> string \<Rightarrow> IrcMsg option \<Rightarrow> IrcMsg res" where
  "nick_msg strict nick prefix msg =
     py_assert (strict \<longrightarrow> isNick nick)
       (IrcMsg_kw (msg_prefix prefix msg) ''NICK'' [nick] msg)"

definition user_msg :: "bool \<Rightarrow> string \<Rightarrow> string \<Rightarrow> string \<Rightarrow> IrcMsg option \<Rightarrow> IrcMsg res" where
  "user_msg strict ident user prefix msg =
     py_assert (strict \<longrightarrow> CHR 0x00 \<notin> set ident \<and> CHR 0x0D \<notin> set ident \<and> CHR 0x0A \<notin> set ident
        \<and> CHR '' '' \<notin> set ident \<and> CHR ''@'' \<notin> set ident)
       (IrcMsg_kw (msg_prefix prefix msg) ''USER'' [ident, ''0'', ''*'', user] msg)"

definition who_msg :: "bool \<Rightarrow> string \<Rightarrow> string \<Rightarrow> IrcMsg option \<Rightarrow> IrcMsg res" where
  "who_msg strict hostmaskOrChannel prefix msg =
     py_assert (strict \<longrightarrow> isChannel hostmaskOrChannel \<or> isUserHostmask hostmaskOrChannel)
       (IrcMsg_kw (msg_prefix prefix msg) ''WHO'' [hostmaskOrChannel] msg)"

definition whois_msg :: "bool \<Rightarrow> string \<Rightarrow> string \<Rightarrow> string \<Rightarrow> IrcMsg option \<Rightarrow> IrcMsg res" where
  "whois_msg strict nick hmask prefix msg =
     py_assert (strict \<longrightarrow> isNick nick)
       (IrcMsg_kw (msg_prefix prefix msg) ''WHOIS'' [nick, hmask] msg)"

text \<open>
  \<open>names()\<close>: with no channel the strict assertion calls \<open>isChannel(None)\<close>, which is \<open>None\<close>, false.
\<close>

definition names_msg :: "bool \<Rightarrow> string option \<Rightarrow> string \<Rightarrow> IrcMsg option \<Rightarrow> IrcMsg res" where
  "names_msg strict channel prefix msg =
     py_assert (strict \<longrightarrow> (case channel of None \<Rightarrow> False | Some c \<Rightarrow> isChannel c))
       (case channel of Some c \<Rightarrow> IrcMsg_kw (msg_prefix prefix msg) ''NAMES'' [c] msg
        | None \<Rightarrow> IrcMsg_kw (msg_prefix prefix msg) ''NAMES'' [] msg)"

text \<open>\<open>mode\<close>: a single string, or a sequence whose elements go through \<open>str\<close>.\<close>

definition mode_msg :: "string \<Rightarrow> string + pyval list \<Rightarrow> string \<Rightarrow> IrcMsg option \<Rightarrow> IrcMsg res" where
  "mode_msg channel args prefix msg =
     IrcMsg_kw (msg_prefix prefix msg) ''MODE''
       (channel # (case args of Inl s \<Rightarrow> [s] | Inr vs \<Rightarrow> map py_str vs)) msg"

definition limit_msg :: "string \<Rightarrow> pyval \<Rightarrow> string \<Rightarrow> IrcMsg option \<Rightarrow> IrcMsg res" where
  "limit_msg channel limit prefix msg = mode_msg channel (Inr [PStr ''+l'', limit]) prefix msg"

definition unlimit_msg :: "string \<Rightarrow> pyval \<Rightarrow> string \<Rightarrow> IrcMsg option \<Rightarrow> IrcMsg res" where
  "unlimit_msg channel limit prefix msg = mode_msg channel (Inr [PStr ''-l'', limit]) prefix msg"

definition invite_msg :: "bool \<Rightarrow> string \<Rightarrow> string \<Rightarrow> string \<Rightarrow> IrcMsg option \<Rightarrow> IrcMsg res" where
  "invite_msg strict nick channel prefix msg =
     py_assert (strict \<longrightarrow> isNick nick)
       (IrcMsg_kw (msg_prefix prefix msg) ''INVITE'' [nick, channel] msg)"

definition password_msg :: "bool \<Rightarrow> string \<Rightarrow> string \<Rightarrow> IrcMsg option \<Rightarrow> IrcMsg res" where
  "password_msg strict password prefix msg =
     py_assert (strict \<longrightarrow> password \<noteq> [])
       (IrcMsg_kw (msg_prefix prefix msg) ''PASS'' [password] msg)"

definition ison_msg :: "bool \<Rightarrow> string \<Rightarrow> string \<Rightarrow> IrcMsg option \<Rightarrow> IrcMsg res" where
  "ison_msg strict nick prefix msg =
     py_assert (strict \<longrightarrow> isNick nick)
       (IrcMsg_kw (msg_prefix prefix msg) ''ISON'' [nick] msg)"

definition error_msg :: "string \<Rightarrow> IrcMsg option \<Rightarrow> IrcMsg res" where
  "error_msg s msg = IrcMsg_kw [] ''ERROR'' [s] msg"


section \<open>Lines are read back\<close>

definition token :: "string \<Rightarrow> bool" where
  "token w \<longleftrightarrow> w \<noteq> [] \<and> no_space w \<and> hd w \<noteq> CHR '':''"

lemma tokenD: "token w \<Longrightarrow> w \<noteq> []" "token w \<Longrightarrow> no_space w" "token w \<Longrightarrow> CHR '' '' \<notin> set w"
  "token w \<Longrightarrow> hd w \<noteq> CHR '':''" "token w \<Longrightarrow> \<not> is_space (hd w)"
  by (auto simp: token_def is_space_def)

lemma startswith_space: "startswith (c # s) '' :'' \<longleftrightarrow> c = CHR '' '' \<and> s \<noteq> [] \<and> hd s = CHR '':''"
  by (cases s) (auto simp: startswith_def)

lemma split_sub1_word:
  "CHR '' '' \<notin> set w \<Longrightarrow> split_sub1 '' :'' (w @ s) = (w @ fst (split_sub1 '' :'' s), snd (split_sub1 '' :'' s))"
  by (induction w) (auto simp: startswith_space split: prod.splits)

lemma split_sub1_tokens:
  "ws \<noteq> [] \<Longrightarrow> \<forall>w \<in> set ws. token w \<Longrightarrow>
     split_sub1 '' :'' (join_char CHR '' '' ws @ '' :'' @ r) = (join_char CHR '' '' ws, Some r)"
proof (induction "CHR '' ''" ws rule: join_char.induct)
  case (2 w)
  then show ?case using split_sub1_word [of w "'' :'' @ r"] tokenD(3) [of w]
    by (simp add: startswith_space)
next
  case (3 w v vs)
  define t where "t = join_char CHR '' '' (v # vs) @ '' :'' @ r"
  from 3 have "token v" by simp
  then have "t \<noteq> []" "hd t \<noteq> CHR '':''"
    using tokenD [of v] by (cases v; cases vs; force simp: t_def)+
  then have "split_sub1 '' :'' (CHR '' '' # t)
      = (CHR '' '' # fst (split_sub1 '' :'' t), snd (split_sub1 '' :'' t))"
    by (simp add: startswith_space split: prod.splits)
  moreover have "split_sub1 '' :'' t = (join_char CHR '' '' (v # vs), Some r)"
    using 3 by (simp add: t_def)
  ultimately show ?case
    using 3 split_sub1_word [of w "CHR '' '' # t"] tokenD(3) [of w] by (simp add: t_def)
qed simp

lemma rstrip_CRLF:
  assumes "isValidArgument a"
  shows "rstrip_in CRLF (a @ CRLF) = a"
proof -
  have "\<forall>c \<in> set (rev a). c \<notin> set CRLF" using assms by (auto simp: CRLF_def isValidArgument_def)
  then have "dropWhile (\<lambda>c. c \<in> set CRLF) (rev a) = rev a" by (cases "rev a") auto
  then show ?thesis by (simp add: rstrip_in_def CRLF_def)
qed

lemma is_space_CRLF: "is_space CHR 0x0D" "is_space CHR 0x0A" "is_space CHR '' ''"
  by (simp_all add: is_space_def)

lemma join_char_Cons: "ws \<noteq> [] \<Longrightarrow> join_char c (w # ws) = w @ c # join_char c ws"
  by (cases ws) auto

text \<open>The body of a line: what follows the prefix.\<close>

definition line_body :: "string \<Rightarrow> string list \<Rightarrow> string" where
  "line_body command args =
     (if args = [] then command else join_char CHR '' '' (command # butlast args) @ '' :'' @ List.last args) @ CRLF"

lemma IrcMsg_render_body:
  "IrcMsg_render m =
     (if im_prefix m \<noteq> [] then CHR '':'' # im_prefix m @ CHR '' '' # line_body (im_command m) (im_args m)
      else line_body (im_command m) (im_args m))"
proof (cases "im_args m")
  case (Cons a as)
  then show ?thesis
    by (cases as) (simp_all add: IrcMsg_render_def line_body_def join_char_Cons)
qed (simp add: IrcMsg_render_def line_body_def)

lemma line_body_hd: "token command \<Longrightarrow> line_body command args \<noteq> [] \<and> hd (line_body command args) = hd command"
  by (cases "butlast args"; cases command) (auto simp: line_body_def token_def)

lemma IrcMsg_tokens_body:
  assumes "token command" "\<forall>a \<in> set (butlast args). token a" "\<forall>a \<in> set args. isValidArgument a"
  shows "IrcMsg_tokens (line_body command args) = command # args"
proof (cases "args = []")
  case True
  have "split_ws (command @ CRLF) = [command]"
    using assms(1) split_ws_word(2) [of command "CHR 0x0D" "[CHR 0x0A]"]
    by (simp add: CRLF_def is_space_CRLF tokenD)
  moreover have "split_sub1 '' :'' (command @ CRLF) = (command @ CRLF, None)"
    using split_sub1_word [of "command @ CRLF" "[]"] tokenD(3) [OF assms(1)] by (simp add: CRLF_def)
  ultimately show ?thesis using True by (simp add: IrcMsg_tokens_def has_sub_def line_body_def)
next
  case False
  let ?ws = "command # butlast args"
  have ws: "\<forall>w \<in> set ?ws. token w" using assms by simp
  then have "split_sub1 '' :'' (line_body command args) = (join_char CHR '' '' ?ws, Some (List.last args @ CRLF))"
    using split_sub1_tokens [of ?ws "List.last args @ CRLF"] False by (simp add: line_body_def)
  moreover have "split_ws (join_char CHR '' '' ?ws) = ?ws"
    using ws by (intro split_ws_join) (simp add: token_def)
  moreover have "rstrip_in CRLF (List.last args @ CRLF) = List.last args"
    using assms(3) False by (simp add: rstrip_CRLF)
  ultimately show ?thesis using False by (simp add: IrcMsg_tokens_def has_sub_def)
qed

lemma IrcMsg_pieces_render:
  assumes p: "no_space (im_prefix m)" and c: "token (im_command m)"
    and a: "\<forall>a \<in> set (butlast (im_args m)). token a" "\<forall>a \<in> set (im_args m). isValidArgument a"
  shows "IrcMsg_pieces (IrcMsg_render m) = Inr (im_prefix m, im_command m, im_args m)"
proof -
  let ?b = "line_body (im_command m) (im_args m)"
  have b: "?b \<noteq> []" "\<not> is_space (hd ?b)" "hd ?b \<noteq> CHR '':''"
    using line_body_hd [OF c] tokenD [OF c] by simp_all
  show ?thesis
  proof (cases "im_prefix m = []")
    case True
    then show ?thesis using b IrcMsg_tokens_body [OF c a]
      by (simp add: IrcMsg_pieces_def IrcMsg_render_body)
  next
    case False
    then have "split_ws1 (im_prefix m @ CHR '' '' # ?b) = [im_prefix m, ?b]"
      using b p by (intro split_ws1_word) (auto simp: is_space_CRLF)
    then show ?thesis using False IrcMsg_tokens_body [OF c a]
      by (simp add: IrcMsg_pieces_def IrcMsg_render_body)
  qed
qed

lemma IrcMsg_finish_fields:
  "IrcMsg_finish str tags p c a = Inr m \<Longrightarrow> im_prefix m = p \<and> im_command m = c \<and> im_args m = a \<and> im_str m = str"
  "IrcMsg_finish str tags p c a = Inr m \<Longrightarrow>
     IrcMsg_finish str' tags' p c a = Inr (m\<lparr>im_str := str', im_tags := tags'\<rparr>)"
  by (auto simp: IrcMsg_finish_def split: if_splits)

lemma endswith_render: "endswith (IrcMsg_render m) [CHR 0x0A]"
proof -
  have "\<exists>t. IrcMsg_render m = t @ [CHR 0x0A]" by (auto simp: IrcMsg_render_body line_body_def CRLF_def)
  then show ?thesis by auto
qed

lemma IrcMsg_render_nonempty [simp]: "IrcMsg_render m \<noteq> []"
  by (simp add: IrcMsg_render_body line_body_def CRLF_def)

lemma IrcMsg_kw_fields:
  assumes "IrcMsg_kw prefix command args None = Inr m"
  shows "im_prefix m = prefix" "im_command m = command" "im_args m = args" "im_str m = None" "im_tags m = []"
    "\<forall>a \<in> set args. isValidArgument a" "IrcMsg_finish None [] prefix command args = Inr m"
proof -
  show f: "IrcMsg_finish None [] prefix command args = Inr m" and "\<forall>a \<in> set args. isValidArgument a"
    using assms by (auto simp: IrcMsg_kw_def IrcMsg_new_def split: if_splits)
  then show "im_prefix m = prefix" "im_command m = command" "im_args m = args" "im_str m = None"
    using IrcMsg_finish_fields(1) [OF f] by simp_all
  show "im_tags m = []" using f by (auto simp: IrcMsg_finish_def split: if_splits)
qed

text \<open>
  C2: A message built from a prefix, a command and arguments is read back from the line it is sent
  as: parsing its \<open>str\<close> gives an equal message with the same nick, user and host, for every command
  and middle arguments that are words not starting with a colon and any last argument the constructor
  accepts (spaces, colons and the empty string included).
\<close>

theorem IrcMsg_roundtrip:
  assumes m: "IrcMsg_kw prefix command args None = Inr m"
    and words: "no_space prefix" "token command" "\<forall>a \<in> set (butlast args). token a"
  shows "\<exists>m'. IrcMsg_new (fst (IrcMsg_str m)) [] [] [] None = Inr m' \<and> IrcMsg_eq hash_str hash_tuple m' m
    \<and> im_nick m' = im_nick m \<and> im_user m' = im_user m \<and> im_host m' = im_host m
    \<and> fst (IrcMsg_str m') = fst (IrcMsg_str m)"
proof -
  note f = IrcMsg_kw_fields [OF m]
  have str: "fst (IrcMsg_str m) = IrcMsg_render m" using f by (simp add: IrcMsg_str_def)
  have "IrcMsg_pieces (IrcMsg_render m) = Inr (prefix, command, args)"
    using IrcMsg_pieces_render [of m] words f by simp
  then have "IrcMsg_parse (IrcMsg_render m) = Inr (m\<lparr>im_str := Some (IrcMsg_render m), im_tags := []\<rparr>)"
    using IrcMsg_finish_fields(2) [OF f(7)] by (simp add: IrcMsg_parse_def Let_def endswith_render)
  then show ?thesis
    by (simp add: str IrcMsg_new_def) (simp add: IrcMsg_eq_def IrcMsg_hash_def IrcMsg_str_def)
qed

theorem IrcMsg_roundtrip_witness:
  "\<exists>m. IrcMsg_kw ''n!u@h'' ''PRIVMSG'' [''#c'', '':-) hello ''] None = Inr m \<and>
     (\<exists>m'. IrcMsg_new (fst (IrcMsg_str m)) [] [] [] None = Inr m' \<and> IrcMsg_eq (\<lambda>_. 0) (\<lambda>_. 0) m' m)"
proof -
  have "\<not> isl (IrcMsg_kw ''n!u@h'' ''PRIVMSG'' [''#c'', '':-) hello ''] None)" by code_simp
  then obtain m where m: "IrcMsg_kw ''n!u@h'' ''PRIVMSG'' [''#c'', '':-) hello ''] None = Inr m"
    by (rule ok_resE)
  have "no_space ''n!u@h''" "token ''PRIVMSG''" "\<forall>a \<in> set (butlast [''#c'', '':-) hello '']). token a"
    by code_simp+
  from IrcMsg_roundtrip [OF m this, of "\<lambda>_. 0" "\<lambda>_. 0"] m show ?thesis by blast
qed


section \<open>One message, one line\<close>

lemma set_join_char: "set (join_char c ws) \<subseteq> {c} \<union> (\<Union>w \<in> set ws. set w)"
  by (induction c ws rule: join_char.induct) auto

lemma isValidArgument_append [simp]:
  "isValidArgument (a @ b) \<longleftrightarrow> isValidArgument a \<and> isValidArgument b"
  "isValidArgument (c # b) \<longleftrightarrow> c \<noteq> CHR 0x0D \<and> c \<noteq> CHR 0x0A \<and> c \<noteq> CHR 0x00 \<and> isValidArgument b"
  "isValidArgument []"
  by (auto simp: isValidArgument_def)

lemma isValidArgument_join:
  "isValidArgument [c] \<Longrightarrow> \<forall>w \<in> set ws. isValidArgument w \<Longrightarrow> isValidArgument (join_char c ws)"
  using set_join_char [of c ws] by (fastforce simp: isValidArgument_def)

lemma line_body_valid:
  assumes "isValidArgument command" "\<forall>a \<in> set args. isValidArgument a"
  shows "\<exists>l. line_body command args = l @ CRLF \<and> isValidArgument l"
proof -
  have "isValidArgument (join_char CHR '' '' (command # butlast args))"
    using assms by (intro isValidArgument_join) (auto dest: in_set_butlastD)
  then have "isValidArgument (join_char CHR '' '' (command # butlast args) @ '' :'' @ List.last args)" if "args \<noteq> []"
    using assms that by (simp del: join_char.simps)
  then show ?thesis using assms by (auto simp: line_body_def)
qed

lemma render_valid:
  assumes "isValidArgument (im_prefix m)" "isValidArgument (im_command m)" "\<forall>a \<in> set (im_args m). isValidArgument a"
  shows "\<exists>l. IrcMsg_render m = l @ CRLF \<and> isValidArgument l"
proof -
  obtain l where l: "line_body (im_command m) (im_args m) = l @ CRLF" "isValidArgument l"
    using line_body_valid [OF assms(2,3)] by blast
  then show ?thesis
    using assms(1) by (auto simp: IrcMsg_render_body intro: exI [of _ "CHR '':'' # im_prefix m @ CHR '' '' # l"])
qed

text \<open>
  Sending text is safe exactly when the message is built from scratch. \<open>privmsg\<close> without a
  template message either refuses its arguments with \<open>AssertionError\<close> or gives a message whose line
  contains no carriage return, newline or NUL before its final CRLF, so it is one command to the
  server. With a template (\<open>msg=\<close>) the arguments are not validated: the text goes into the line as it
  is, line breaks included.
\<close>

theorem privmsg_one_line_unless_msg:
  assumes "isValidArgument prefix" "isChannel recipient" "s \<noteq> []" "im_prefix base = []"
  shows "(case privmsg_msg True recipient s prefix None of
            Inl e \<Rightarrow> e = AssertionError \<and> \<not> (isValidArgument recipient \<and> isValidArgument s)
          | Inr m \<Rightarrow> isValidArgument s \<and> (\<exists>l. fst (IrcMsg_str m) = l @ CRLF \<and> isValidArgument l))
    \<and> (\<exists>m. privmsg_msg True recipient s [] (Some base) = Inr m
          \<and> fst (IrcMsg_str m) = ''PRIVMSG '' @ recipient @ '' :'' @ s @ CRLF)"
proof
  have nf: "IrcMsg_finish str tags p c a \<noteq> Inl e" for str tags p c a e
    using splitHostmask_total [of p] by (auto simp: IrcMsg_finish_def split: prod.splits)
  have priv: "isValidArgument ''PRIVMSG''" by code_simp
  show "case privmsg_msg True recipient s prefix None of
            Inl e \<Rightarrow> e = AssertionError \<and> \<not> (isValidArgument recipient \<and> isValidArgument s)
          | Inr m \<Rightarrow> isValidArgument s \<and> (\<exists>l. fst (IrcMsg_str m) = l @ CRLF \<and> isValidArgument l)"
  proof (cases "privmsg_msg True recipient s prefix None")
    case (Inl e)
    then show ?thesis using nf assms
      by (auto simp: privmsg_msg_def IrcMsg_kw_def IrcMsg_new_def msg_prefix_def py_assert_def split: if_splits)
  next
    case (Inr m)
    then have kw: "IrcMsg_kw prefix ''PRIVMSG'' [recipient, s] None = Inr m"
      by (simp add: privmsg_msg_def msg_prefix_def)
    note f = IrcMsg_kw_fields [OF kw]
    have "\<exists>l. IrcMsg_render m = l @ CRLF \<and> isValidArgument l"
      using f assms priv by (intro render_valid) simp_all
    then show ?thesis using Inr f by (simp add: IrcMsg_str_def)
  qed
  show "\<exists>m. privmsg_msg True recipient s [] (Some base) = Inr m
          \<and> fst (IrcMsg_str m) = ''PRIVMSG '' @ recipient @ '' :'' @ s @ CRLF"
    using assms by (simp add: privmsg_msg_def IrcMsg_kw_def IrcMsg_new_def msg_prefix_def IrcMsg_finish_def
        isUserHostmask_def IrcMsg_str_def IrcMsg_render_def Let_def)
qed

theorem privmsg_one_line_unless_msg_witness:
  "\<exists>base m. privmsg_msg True ''#c'' (''a'' @ CRLF @ ''QUIT'') [] (Some base) = Inr m
     \<and> fst (IrcMsg_str m) = ''PRIVMSG #c :a'' @ CRLF @ ''QUIT'' @ CRLF"
proof -
  have "\<not> isl (IrcMsg_kw [] ''PING'' [] None)" by code_simp
  then obtain base where base: "IrcMsg_kw [] ''PING'' [] None = Inr base" by (rule ok_resE)
  have "isValidArgument []" "isChannel ''#c''" "''a'' @ CRLF @ ''QUIT'' \<noteq> []" by code_simp+
  from privmsg_one_line_unless_msg [OF this IrcMsg_kw_fields(1) [OF base]]
  show ?thesis by auto
qed

section \<open>Actions\<close>

text \<open>
  The text put into an action is what \<open>unAction\<close> takes out of it, and \<open>isAction\<close> recognises it,
  for every text without a newline that does not start with whitespace.
\<close>

theorem action_unAction:
  assumes m: "action_msg strict recipient s prefix None = Inr m"
    and s: "CHR 0x0A \<notin> set s" "s = [] \<or> \<not> is_space (hd s)"
  shows "isCtcp m = Inr True \<and> isAction m = Inr True \<and> unAction m = Inr s"
proof -
  let ?a = "CHR 0x01 # ''ACTION '' @ s @ [CHR 0x01]"
  from m have kw: "IrcMsg_kw prefix ''PRIVMSG'' [recipient, ?a] None = Inr m"
    by (simp add: action_msg_def msg_prefix_def)
  note f = IrcMsg_kw_fields [OF kw]
  have a: "msg_arg m 1 = Inr ?a" using f by (simp add: msg_arg_def list_item_def list_index_def)
  have ctcp: "isCtcp m = Inr True"
    using f a endswith_append [of "CHR 0x01 # ''ACTION '' @ s" "[CHR 0x01]"]
    by (simp add: isCtcp_def startswith_def)
  have word: "split_ws1 (''ACTION'' @ CHR '' '' # s) = (if s = [] then [''ACTION''] else [''ACTION'', s])"
    using s split_ws1_word(2) [of "''ACTION''" "CHR '' ''" s]
    by (cases s) (simp_all add: split_ws1_def is_space_def skip_ws_def)
  have act: "isAction m = Inr True"
    using ctcp a word by (simp add: isAction_def butlast_append list_item_def list_index_def)
  have "skip_ws (CHR '' '' # s @ [CHR 0x01]) = s @ [CHR 0x01]"
    using s by (cases s) (simp_all add: is_space_def)
  then have "unaction_group ?a = Some s"
    using s endswith_append [of s "[CHR 0x01]"]
    by (simp add: unaction_group_def startswith_def Let_def is_space_def endswith_def)
  with act a ctcp show ?thesis by (simp add: unAction_def)
qed

theorem action_unAction_witness:
  "\<exists>m. action_msg True ''#c'' ''waves'' [] None = Inr m \<and> unAction m = Inr ''waves''"
proof -
  have "\<not> isl (action_msg True ''#c'' ''waves'' [] None)" by code_simp
  then obtain m where m: "action_msg True ''#c'' ''waves'' [] None = Inr m" by (rule ok_resE)
  have "CHR 0x0A \<notin> set ''waves''" "''waves'' = [] \<or> \<not> is_space (hd ''waves'')" by code_simp+
  from action_unAction [OF m this] m show ?thesis by blast
qed


section \<open>Mode messages\<close>

lemma int_of_str_nick:
  assumes "isNick n"
  shows "mode_arg (PStr n) = PStr n"
proof -
  from assms obtain c r where n: "n = c # r" and c: "nick_first c"
    by (cases n) (auto simp: isNick_with_def nickRe_match_def Let_def split: if_splits)
  have c': "\<not> is_space c" "\<not> is_digit c" "c \<noteq> CHR ''-''" "c \<noteq> CHR ''+''"
    using c by (auto simp: nick_first_def nickchars_def is_space_def is_digit_def is_alpha_def
        is_upper_def is_lower_def)
  have "strip_ws n \<noteq> [] \<and> hd (strip_ws n) = c"
  proof -
    have "skip_ws (rev n) \<noteq> []" using c' n skip_ws_eq_Nil_iff [of "rev n"] by simp
    moreover have "\<exists>u. rev n = u @ skip_ws (rev n)"
      by (metis skip_ws_def takeWhile_dropWhile_id)
    ultimately show ?thesis using c' n
      by (auto simp: strip_ws_def) (metis hd_append2 hd_rev last_ConsL last_appendR last_snoc rev.simps(2))
  qed
  with c' have "int_of_str n = Inl ValueError"
    by (cases "strip_ws n") (auto simp: int_of_str_def Let_def)
  then show ?thesis by simp
qed

lemma separate_loop_same:
  assumes "c \<notin> set ''+-''" "takes_argument sign c" "\<forall>n \<in> set nicks. isNick n"
  shows "separate_loop (replicate (length nicks) c) sign (map PStr nicks)
    = Inr (map (\<lambda>n. ([sign, c], Some (PStr n))) nicks)"
  using assms by (induction nicks) (auto simp: takes_argument_def int_of_str_nick simp del: mode_arg.simps)

text \<open>The six functions that give or take a status from several nicks, with the change each makes.\<close>

definition status_functions ::
  "(string \<times> (bool \<Rightarrow> string \<Rightarrow> string list \<Rightarrow> string \<Rightarrow> IrcMsg option \<Rightarrow> IrcMsg res)) list" where
  "status_functions = [(''+o'', ops_msg), (''-o'', deops_msg), (''+h'', halfops_msg), (''-h'', dehalfops_msg),
     (''+v'', voices_msg), (''-v'', devoices_msg)]"

lemma status_takes_argument:
  "\<forall>s \<in> set ''+-''. \<forall>c \<in> set ''ohv''. takes_argument s c \<and> c \<notin> set ''+-''"
  by code_simp

lemma status_function:
  assumes "(change, f) \<in> set status_functions"
  shows "\<exists>sign c. change = [sign, c] \<and> sign \<in> set ''+-'' \<and> c \<notin> set ''+-'' \<and> takes_argument sign c \<and>
    f True channel nicks prefix None = py_assert (isChannel channel \<and> nicks \<noteq> [] \<and> (\<forall>n \<in> set nicks. isNick n))
      (IrcMsg_kw prefix ''MODE'' (channel # (sign # replicate (length nicks) c) # nicks) None)"
proof -
  from assms obtain s c where "change = [s, c]" "s \<in> set ''+-''" "c \<in> set ''ohv''"
    and "f True channel nicks prefix None = py_assert (isChannel channel \<and> nicks \<noteq> [] \<and> (\<forall>n \<in> set nicks. isNick n))
      (IrcMsg_kw prefix ''MODE'' (channel # (s # replicate (length nicks) c) # nicks) None)"
    by (simp add: status_functions_def) (elim disjE conjE;
      simp add: ops_msg_def deops_msg_def halfops_msg_def dehalfops_msg_def voices_msg_def devoices_msg_def msg_prefix_def)
  with status_takes_argument show ?thesis by blast
qed

text \<open>
  The messages of \<open>ops\<close>, \<open>deops\<close>, \<open>halfops\<close>, \<open>dehalfops\<close>, \<open>voices\<close> and \<open>devoices\<close>, separated as a
  receiver separates them, are exactly one change of that status for each nick, in order.
\<close>

lemma status_message_separates:
  assumes f: "(change, f) \<in> set status_functions" and m: "f True channel nicks prefix None = Inr m"
  shows "im_command m = ''MODE'' \<and> hd (im_args m) = channel
    \<and> separateModes (map PStr (tl (im_args m))) = Inr (map (\<lambda>n. (change, Some (PStr n))) nicks)"
proof -
  obtain sign c where ch: "change = [sign, c]" "sign \<in> set ''+-''" "c \<notin> set ''+-''" "takes_argument sign c"
      and kw: "f True channel nicks prefix None = py_assert (isChannel channel \<and> nicks \<noteq> [] \<and> (\<forall>n \<in> set nicks. isNick n))
        (IrcMsg_kw prefix ''MODE'' (channel # (sign # replicate (length nicks) c) # nicks) None)"
    using status_function [OF f] by blast
  with m have nicks: "\<forall>n \<in> set nicks. isNick n"
    and m': "IrcMsg_kw prefix ''MODE'' (channel # (sign # replicate (length nicks) c) # nicks) None = Inr m"
    by auto
  from separate_loop_same [OF ch(3,4) nicks] ch(2) show ?thesis
    unfolding IrcMsg_kw_fields(2,3) [OF m'] ch(1)
    by (auto simp: separateModes_def)
qed

end
