(* ===== verification/FloodQueues.thy ===== *)
theory FloodQueues
  imports IrcMsgs TimeoutQueues
begin

text \<open>
  \<open>FloodQueue\<close> of \<open>ircutils.py\<close>: for each \<open>user@host\<close> a queue of what that user did lately.  Every
  inner \<open>TimeoutQueue\<close> is given a callable that asks the flood queue for its timeout, so its
  environment is that number.  What is stored is the message itself (\<open>Inl\<close>) or another value.
\<close>

type_synonym 'w flood_elt = "IrcMsg + 'w"
type_synonym 'w flood_tq = "(int, (int \<times> 'w flood_elt) list) TimeoutQueue"

record ('e, 'w) FloodQueue =
  fq_timeout :: "'e timeout"
  fq_queues :: "'w flood_tq IrcDict"

definition FloodQueue_new :: "'e timeout option \<Rightarrow> 'w flood_tq IrcDict option \<Rightarrow> ('e, 'w) FloodQueue" where
  "FloodQueue_new tmo queues =
     \<lparr>fq_timeout = (case tmo of None \<Rightarrow> Fixed 0 | Some t \<Rightarrow> t),
      fq_queues = (case queues of None \<Rightarrow> [] | Some q \<Rightarrow> q)\<rparr>"

definition FloodQueue_key :: "IrcMsg \<Rightarrow> string" where
  "FloodQueue_key msg = im_user msg @ ''@'' @ im_host msg"

definition FloodQueue_getTimeout :: "'e \<Rightarrow> ('e, 'w) FloodQueue \<Rightarrow> int" where
  "FloodQueue_getTimeout e fq = (case fq_timeout fq of Fixed t \<Rightarrow> t | Callable f \<Rightarrow> f e)"

text \<open>
  \<open>_getQueue\<close> with \<open>insert=True\<close>: the flood queue with the queue of the message's user in it.  The
  queue is a shared object; \<open>ircdict_modify\<close> under the key is a call of its methods.
\<close>

definition FloodQueue_getQueue :: "IrcMsg \<Rightarrow> ('e, 'w) FloodQueue \<Rightarrow> ('e, 'w) FloodQueue" where
  "FloodQueue_getQueue msg fq =
     (case ircdict_item (fq_queues fq) (FloodQueue_key msg) of
        Inr q \<Rightarrow> fq
      | Inl _ \<Rightarrow> fq\<lparr>fq_queues := ircdict_set (FloodQueue_key msg)
                   (TimeoutQueue_new (Callable (\<lambda>t. t)) None []) (fq_queues fq)\<rparr>)"

definition FloodQueue_enqueue :: "int \<Rightarrow> IrcMsg \<Rightarrow> 'w option \<Rightarrow> ('e, 'w) FloodQueue \<Rightarrow> ('e, 'w) FloodQueue" where
  "FloodQueue_enqueue now msg what fq =
     (let elt = (case what of None \<Rightarrow> Inl msg | Some w \<Rightarrow> Inr w);
          fq' = FloodQueue_getQueue msg fq
      in fq'\<lparr>fq_queues := ircdict_modify (FloodQueue_key msg)
              (TimeoutQueue_enqueue smallqueue_enqueue now elt None) (fq_queues fq')\<rparr>)"

definition FloodQueue_len :: "'e \<Rightarrow> int \<Rightarrow> IrcMsg \<Rightarrow> ('e, 'w) FloodQueue \<Rightarrow> (nat \<times> ('e, 'w) FloodQueue) option" where
  "FloodQueue_len e now msg fq =
     (case ircdict_get (fq_queues fq) (FloodQueue_key msg) of
        None \<Rightarrow> Some (0, fq)
      | Some q \<Rightarrow>
          map_option (\<lambda>(n, q'). (n, fq\<lparr>fq_queues := ircdict_modify (FloodQueue_key msg) (\<lambda>_. q') (fq_queues fq)\<rparr>))
            (TimeoutQueue_len smallqueue_dequeue smallqueue_peek length (FloodQueue_getTimeout e fq) now q))"

definition flood_elt_eq :: "'w flood_elt \<Rightarrow> 'w flood_elt \<Rightarrow> bool" where
  "flood_elt_eq x y =
     (case x of Inl m \<Rightarrow> (case y of Inl n \<Rightarrow> IrcMsg_same m n | Inr w \<Rightarrow> False)
      | Inr v \<Rightarrow> (case y of Inl n \<Rightarrow> False | Inr w \<Rightarrow> v = w))"

definition FloodQueue_has :: "'e \<Rightarrow> int \<Rightarrow> IrcMsg \<Rightarrow> 'w option \<Rightarrow> ('e, 'w) FloodQueue \<Rightarrow> bool" where
  "FloodQueue_has e now msg what fq =
     (case ircdict_get (fq_queues fq) (FloodQueue_key msg) of
        None \<Rightarrow> False
      | Some q \<Rightarrow>
          let w = (case what of None \<Rightarrow> Inl msg | Some w \<Rightarrow> Inr w)
          in \<exists>elt \<in> set (TimeoutQueue_iter (\<lambda>q. q) (FloodQueue_getTimeout e fq) now q). flood_elt_eq elt w)"

section \<open>What is counted\<close>

text \<open>The recorded history of the user of a message, oldest first.\<close>

definition flood_history :: "('e, 'w) FloodQueue \<Rightarrow> string \<Rightarrow> (int \<times> 'w flood_elt) list" where
  "flood_history fq k = (case ircdict_get (fq_queues fq) k of None \<Rightarrow> [] | Some q \<Rightarrow> tq_queue q)"

definition flood_wf :: "('e, 'w) FloodQueue \<Rightarrow> bool" where
  "flood_wf fq \<longleftrightarrow> (\<forall>k q. ircdict_get (fq_queues fq) k = Some q \<longrightarrow> tq_timeout q = Callable (\<lambda>t. t))"

lemma flood_wf_new [wf_intros]: "flood_wf (FloodQueue_new tmo None)"
  by (simp add: flood_wf_def FloodQueue_new_def)

lemma getQueue_get:
  "ircdict_get (fq_queues (FloodQueue_getQueue msg fq)) k =
     (if toLower k = toLower (FloodQueue_key msg) \<and> ircdict_get (fq_queues fq) k = None
      then Some (TimeoutQueue_new (Callable (\<lambda>t. t)) None []) else ircdict_get (fq_queues fq) k)"
proof (cases "toLower k = toLower (FloodQueue_key msg)")
  case True
  then have "ircdict_get (fq_queues fq) k = ircdict_get (fq_queues fq) (FloodQueue_key msg)"
    by (simp add: pdict_lookup_eq)
  with True show ?thesis
    by (cases "ircdict_get (fq_queues fq) (FloodQueue_key msg)")
      (simp_all add: FloodQueue_getQueue_def pdict_getitem_lookup)
next
  case False
  then show ?thesis by (simp add: FloodQueue_getQueue_def split: sum.split)
qed

lemma FloodQueue_enqueue_history:
  "flood_history (FloodQueue_enqueue now msg what fq) k =
     (if toLower k = toLower (FloodQueue_key msg)
      then flood_history fq k @ [(now, case what of None \<Rightarrow> Inl msg | Some w \<Rightarrow> Inr w)]
      else flood_history fq k)"
  by (auto simp: flood_history_def FloodQueue_enqueue_def Let_def getQueue_get TimeoutQueue_enqueue_def
    TimeoutQueue_new_def smallqueue_enqueue_def split: option.split)

lemma FloodQueue_enqueue_wf [wf_intros]: "flood_wf fq \<Longrightarrow> flood_wf (FloodQueue_enqueue now msg what fq)"
  by (auto simp: flood_wf_def FloodQueue_enqueue_def Let_def getQueue_get TimeoutQueue_enqueue_def
    TimeoutQueue_new_def split: if_splits)

lemma FloodQueue_enqueue_timeout [simp]: "fq_timeout (FloodQueue_enqueue now msg what fq) = fq_timeout fq"
  by (simp add: FloodQueue_enqueue_def FloodQueue_getQueue_def Let_def split: sum.split)

text \<open>A sequence of calls of \<open>enqueue\<close>, each at its time.\<close>

definition flood_run :: "(int \<times> IrcMsg) list \<Rightarrow> ('e, 'w) FloodQueue \<Rightarrow> ('e, 'w) FloodQueue" where
  "flood_run events fq = foldl (\<lambda>fq (t, msg). FloodQueue_enqueue t msg None fq) fq events"

lemma flood_run_history:
  "flood_history (flood_run events fq) k = flood_history fq k @
     map (\<lambda>(t, m). (t, Inl m)) (filter (\<lambda>(t, m). toLower (FloodQueue_key m) = toLower k) events)"
  by (induction events arbitrary: fq) (auto simp: flood_run_def FloodQueue_enqueue_history)

lemma flood_run_wf: "flood_wf fq \<Longrightarrow> flood_wf (flood_run events fq) \<and> fq_timeout (flood_run events fq) = fq_timeout fq"
  by (induction events arbitrary: fq) (auto simp: flood_run_def wf_intros)

text \<open>
  A flood queue counts per user: after any sequence of messages recorded at non-decreasing times,
  \<open>len(msg)\<close> returns the number of those messages that came from the same \<open>user@host\<close>
  (compared as IRC compares names) and are at most the configured timeout old, whatever the other
  users sent.
\<close>

theorem FloodQueue_len_counts:
  fixes e :: 'e and tmo :: "'e timeout option"
  assumes "sorted (map fst events)"
  shows "\<exists>fq'. FloodQueue_len e now msg (flood_run events (FloodQueue_new tmo None :: ('e, 'w) FloodQueue)) =
    Some (length (filter (\<lambda>(t, m). toLower (FloodQueue_key m) = toLower (FloodQueue_key msg)
            \<and> now - t \<le> (case tmo of None \<Rightarrow> 0 | Some (Fixed n) \<Rightarrow> n | Some (Callable f) \<Rightarrow> f e)) events), fq')"
proof -
  let ?k = "FloodQueue_key msg" and ?fq = "flood_run events (FloodQueue_new tmo None :: ('e, 'w) FloodQueue)"
  let ?tmo = "case tmo of None \<Rightarrow> 0 | Some (Fixed n) \<Rightarrow> n | Some (Callable f) \<Rightarrow> f e"
  let ?mine = "filter (\<lambda>(t, m). toLower (FloodQueue_key m) = toLower ?k) events"
  have "flood_wf ?fq \<and> fq_timeout ?fq = fq_timeout (FloodQueue_new tmo None :: ('e, 'w) FloodQueue)"
    by (rule flood_run_wf) (rule flood_wf_new)
  then have wf: "flood_wf ?fq" "fq_timeout ?fq = (case tmo of None \<Rightarrow> Fixed 0 | Some t \<Rightarrow> t)"
    by (blast, simp add: FloodQueue_new_def)
  have tmo: "FloodQueue_getTimeout e ?fq = ?tmo"
    using wf(2) by (simp add: FloodQueue_getTimeout_def split: option.split timeout.split)
  have hist: "flood_history ?fq ?k = map (\<lambda>(t, m). (t, Inl m)) ?mine"
    by (simp add: flood_run_history) (simp add: flood_history_def FloodQueue_new_def)
  have count: "length (filter (\<lambda>(t, _). now - t \<le> ?tmo) (map (\<lambda>(t, m). (t, Inl m)) ?mine))
      = length (filter (\<lambda>(t, m). toLower (FloodQueue_key m) = toLower ?k \<and> now - t \<le> ?tmo) events)"
    by (induction events) auto
  show ?thesis
  proof (cases "ircdict_get (fq_queues ?fq) ?k")
    case None
    then have "map (\<lambda>(t, m). (t, Inl m :: 'w flood_elt)) ?mine = []"
      using hist by (simp add: flood_history_def)
    with None show ?thesis by (auto simp: FloodQueue_len_def filter_empty_conv)
  next
    case (Some q)
    then have q: "tq_queue q = map (\<lambda>(t, m). (t, Inl m)) ?mine"
      using hist by (simp add: flood_history_def)
    have "tq_timeout q = Callable (\<lambda>t. t)" using wf(1) Some unfolding flood_wf_def by blast
    then have get: "TimeoutQueue_getTimeout ?tmo q = ?tmo" by (simp add: TimeoutQueue_getTimeout_def)
    have "sorted (map fst (filter (\<lambda>(t, m). toLower (FloodQueue_key m) = toLower ?k) events))"
      using assms sorted_filter [of fst] by blast
    then have "sorted (map fst (tq_queue q))" by (simp add: q comp_def case_prod_unfold)
    from tsq.len_returns [OF this, of ?tmo now] get q count Some tmo
    show ?thesis by (auto simp: FloodQueue_len_def)
  qed
qed

theorem FloodQueue_len_counts_witness:
  "\<exists>m fq'. IrcMsg_kw ''n!u@h'' ''PING'' [] None = Inr m \<and>
     FloodQueue_len () 12 m (flood_run [(1, m), (5, m), (9, m)] (FloodQueue_new (Some (Fixed 10)) None :: (unit, unit) FloodQueue))
       = Some (2, fq')"
proof -
  have "\<not> isl (IrcMsg_kw ''n!u@h'' ''PING'' [] None)" by code_simp
  then obtain m where m: "IrcMsg_kw ''n!u@h'' ''PING'' [] None = Inr m" by (rule ok_resE)
  from FloodQueue_len_counts [of "[(1, m), (5, m), (9, m)]" "()" 12 m "Some (Fixed 10)"] m
  show ?thesis by (simp add: numeral_2_eq_2)
qed

end
