(* ===== verification/IrcQueue.thy ===== *)
theory IrcQueue
  imports IrcMsgs Structures
begin

text \<open>
  \<open>IrcMsgQueue\<close> of \<open>irclib.py\<close>: the queue of outgoing messages, with three priorities, an optional
  test for duplicates (\<open>queuing.duplicates\<close>, the argument \<open>dups\<close>) and a minimum distance of JOIN
  messages (\<open>queuing.rateLimit.join\<close>, the argument \<open>limit\<close>). The clock of a call is \<open>now\<close>.
\<close>

definition high_commands :: "string set" where
  "high_commands = {''MODE'', ''KICK'', ''PONG'', ''NICK'', ''PASS'', ''CAPAB''}"

definition low_commands :: "string set" where
  "low_commands = {''PRIVMSG'', ''PING'', ''WHO'', ''NOTICE'', ''JOIN''}"

record IrcMsgQueue =
  mq_high :: "IrcMsg smallqueue"
  mq_normal :: "IrcMsg smallqueue"
  mq_low :: "IrcMsg smallqueue"
  mq_lastJoin :: int

definition IrcMsgQueue_empty :: IrcMsgQueue where
  "IrcMsgQueue_empty = \<lparr>mq_high = [], mq_normal = [], mq_low = [], mq_lastJoin = 0\<rparr>"

definition IrcMsgQueue_reset :: "IrcMsgQueue \<Rightarrow> IrcMsgQueue" where
  "IrcMsgQueue_reset q = q\<lparr>mq_lastJoin := 0, mq_high := [], mq_normal := [], mq_low := []\<rparr>"

text \<open>\<open>msg in L\<close> compares with \<open>==\<close>.\<close>

definition msg_in :: "IrcMsg \<Rightarrow> IrcMsg list \<Rightarrow> bool" where
  "msg_in m L \<longleftrightarrow> (\<exists>x \<in> set L. IrcMsg_same x m)"

definition IrcMsgQueue_contains :: "IrcMsg \<Rightarrow> IrcMsgQueue \<Rightarrow> bool" where
  "IrcMsgQueue_contains m q \<longleftrightarrow> msg_in m (mq_normal q) \<or> msg_in m (mq_low q) \<or> msg_in m (mq_high q)"

definition IrcMsgQueue_enqueue :: "bool \<Rightarrow> IrcMsg \<Rightarrow> IrcMsgQueue \<Rightarrow> bool \<times> IrcMsgQueue" where
  "IrcMsgQueue_enqueue dups m q =
     (if IrcMsgQueue_contains m q \<and> dups then (False, q)
      else if im_command m \<in> high_commands then (True, q\<lparr>mq_high := smallqueue_enqueue (mq_high q) m\<rparr>)
      else if im_command m \<in> low_commands then (True, q\<lparr>mq_low := smallqueue_enqueue (mq_low q) m\<rparr>)
      else (True, q\<lparr>mq_normal := smallqueue_enqueue (mq_normal q) m\<rparr>))"

definition IrcMsgQueue_new :: "bool \<Rightarrow> IrcMsg list \<Rightarrow> IrcMsgQueue" where
  "IrcMsgQueue_new dups msgs = foldl (\<lambda>q m. snd (IrcMsgQueue_enqueue dups m q)) IrcMsgQueue_empty msgs"

definition IrcMsgQueue_dequeue :: "int \<Rightarrow> int \<Rightarrow> IrcMsgQueue \<Rightarrow> IrcMsg option \<times> IrcMsgQueue" where
  "IrcMsgQueue_dequeue limit now q =
     (case smallqueue_dequeue (mq_high q) of
        Inr (m, r) \<Rightarrow> (Some m, q\<lparr>mq_high := r\<rparr>)
      | Inl _ \<Rightarrow>
     (case smallqueue_dequeue (mq_normal q) of
        Inr (m, r) \<Rightarrow> (Some m, q\<lparr>mq_normal := r\<rparr>)
      | Inl _ \<Rightarrow>
     (case smallqueue_dequeue (mq_low q) of
        Inr (m, r) \<Rightarrow>
          if im_command m = ''JOIN'' then
            (if mq_lastJoin q + limit \<le> now then (Some m, q\<lparr>mq_low := r, mq_lastJoin := now\<rparr>)
             else (None, q\<lparr>mq_low := smallqueue_enqueue r m\<rparr>))
          else (Some m, q\<lparr>mq_low := r\<rparr>)
      | Inl _ \<Rightarrow> (None, q))))"

definition IrcMsgQueue_nonzero :: "IrcMsgQueue \<Rightarrow> bool" where
  "IrcMsgQueue_nonzero q \<longleftrightarrow> mq_high q \<noteq> [] \<or> mq_normal q \<noteq> [] \<or> mq_low q \<noteq> []"

definition IrcMsgQueue_len :: "IrcMsgQueue \<Rightarrow> nat" where
  "IrcMsgQueue_len q = length (mq_high q) + length (mq_low q) + length (mq_normal q)"

section \<open>The queue is a stable priority queue\<close>

definition priority :: "IrcMsg \<Rightarrow> nat" where
  "priority m = (if im_command m \<in> high_commands then 0 else if im_command m \<in> low_commands then 2 else 1)"

definition IrcMsgQueue_content :: "IrcMsgQueue \<Rightarrow> IrcMsg list" where
  "IrcMsgQueue_content q = mq_high q @ mq_normal q @ mq_low q"

definition IrcMsgQueue_wf :: "IrcMsgQueue \<Rightarrow> bool" where
  "IrcMsgQueue_wf q \<longleftrightarrow> (\<forall>m \<in> set (mq_high q). priority m = 0) \<and> (\<forall>m \<in> set (mq_normal q). priority m = 1)
     \<and> (\<forall>m \<in> set (mq_low q). priority m = 2)"

lemma contains_content: "IrcMsgQueue_contains m q \<longleftrightarrow> msg_in m (IrcMsgQueue_content q)"
  unfolding IrcMsgQueue_contains_def IrcMsgQueue_content_def msg_in_def set_append bex_Un by blast

lemma len_content: "IrcMsgQueue_len q = length (IrcMsgQueue_content q)"
  by (simp add: IrcMsgQueue_len_def IrcMsgQueue_content_def)

lemma nonzero_content: "IrcMsgQueue_nonzero q \<longleftrightarrow> IrcMsgQueue_content q \<noteq> []"
  by (auto simp: IrcMsgQueue_nonzero_def IrcMsgQueue_content_def)

lemma wf_empty [simp, wf_intros]: "IrcMsgQueue_wf IrcMsgQueue_empty"
  by (simp add: IrcMsgQueue_wf_def IrcMsgQueue_empty_def)

lemma content_empty [simp]: "IrcMsgQueue_content IrcMsgQueue_empty = []"
  by (simp add: IrcMsgQueue_content_def IrcMsgQueue_empty_def)

lemma wf_enqueue [wf_intros]: "IrcMsgQueue_wf q \<Longrightarrow> IrcMsgQueue_wf (snd (IrcMsgQueue_enqueue dups m q))"
  by (auto simp: IrcMsgQueue_wf_def IrcMsgQueue_enqueue_def smallqueue_enqueue_def priority_def)

lemma wf_dequeue [wf_intros]: "IrcMsgQueue_wf q \<Longrightarrow> IrcMsgQueue_wf (snd (IrcMsgQueue_dequeue limit now q))"
  by (auto simp: IrcMsgQueue_wf_def IrcMsgQueue_dequeue_def smallqueue_enqueue_def smallqueue_dequeue_def
    split: list.split)

text \<open>Lists made of three segments of constant keys.\<close>

lemma filter_const_key: "\<forall>x \<in> set xs. f x = c \<Longrightarrow> filter (\<lambda>x. k = f x) xs = (if k = c then xs else [])"
  by (induction xs) auto

lemma sorted_three:
  fixes f :: "'a \<Rightarrow> nat"
  assumes "\<forall>x \<in> set xs. f x = 0" "\<forall>x \<in> set ys. f x = 1" "\<forall>x \<in> set zs. f x = 2"
  shows "sorted (map f (xs @ ys @ zs))"
proof -
  have const: "sorted (map f us)" if "\<forall>x \<in> set us. f x = c" for us and c :: nat
    using that by (induction us) auto
  show ?thesis using const assms by (auto simp: sorted_append)
qed

lemma content_enqueue:
  assumes wf: "IrcMsgQueue_wf q" and fresh: "\<not> (dups \<and> msg_in m (IrcMsgQueue_content q))"
  shows "fst (IrcMsgQueue_enqueue dups m q)"
    and "IrcMsgQueue_content (snd (IrcMsgQueue_enqueue dups m q)) = sort_key priority (IrcMsgQueue_content q @ [m])"
proof -
  let ?q = "snd (IrcMsgQueue_enqueue dups m q)"
  show "fst (IrcMsgQueue_enqueue dups m q)"
    using fresh by (auto simp: IrcMsgQueue_enqueue_def contains_content)
  have wf': "IrcMsgQueue_wf ?q" using wf by (rule wf_enqueue)
  have "priority m = 0 \<and> ?q = q\<lparr>mq_high := mq_high q @ [m]\<rparr>
    \<or> priority m = 1 \<and> ?q = q\<lparr>mq_normal := mq_normal q @ [m]\<rparr>
    \<or> priority m = 2 \<and> ?q = q\<lparr>mq_low := mq_low q @ [m]\<rparr>"
    using fresh unfolding IrcMsgQueue_enqueue_def contains_content priority_def smallqueue_enqueue_def by auto
  then have segments: "mset (IrcMsgQueue_content ?q) = mset (IrcMsgQueue_content q @ [m])"
      "filter (\<lambda>x. k = priority x) (IrcMsgQueue_content ?q) = filter (\<lambda>x. k = priority x) (IrcMsgQueue_content q @ [m])" for k
    using wf by (elim disjE conjE; simp add: IrcMsgQueue_content_def IrcMsgQueue_wf_def filter_const_key)+
  have "sorted (map priority (IrcMsgQueue_content ?q))"
    unfolding IrcMsgQueue_content_def using wf' by (intro sorted_three) (simp_all add: IrcMsgQueue_wf_def)
  then show "IrcMsgQueue_content ?q = sort_key priority (IrcMsgQueue_content q @ [m])"
    using segments by (intro properties_for_sort_key [symmetric]) simp_all
qed

lemma dequeue_content:
  assumes "IrcMsgQueue_wf q"
  shows "case IrcMsgQueue_content q of
      [] \<Rightarrow> IrcMsgQueue_dequeue limit now q = (None, q)
    | m # rest \<Rightarrow>
        if im_command m = ''JOIN'' \<and> now < mq_lastJoin q + limit
        then fst (IrcMsgQueue_dequeue limit now q) = None
          \<and> IrcMsgQueue_content (snd (IrcMsgQueue_dequeue limit now q)) = rest @ [m]
        else fst (IrcMsgQueue_dequeue limit now q) = Some m
          \<and> IrcMsgQueue_content (snd (IrcMsgQueue_dequeue limit now q)) = rest"
proof -
  have join: "priority m = 2" if "im_command m = ''JOIN''" for m
    using that by (simp add: priority_def high_commands_def low_commands_def)
  then have nojoin: "im_command (hd (mq_high q)) \<noteq> ''JOIN''" if "mq_high q \<noteq> []"
    using assms that by (cases "mq_high q") (fastforce simp: IrcMsgQueue_wf_def)+
  have nojoin': "im_command (hd (mq_normal q)) \<noteq> ''JOIN''" if "mq_normal q \<noteq> []"
    using assms that join by (cases "mq_normal q") (fastforce simp: IrcMsgQueue_wf_def)+
  show ?thesis
    using nojoin nojoin' by (cases "mq_high q"; cases "mq_normal q"; cases "mq_low q")
      (simp_all add: IrcMsgQueue_content_def IrcMsgQueue_dequeue_def smallqueue_dequeue_def smallqueue_enqueue_def)
qed

section \<open>Runs\<close>

text \<open>A run: calls of \<open>enqueue\<close>, and calls of \<open>dequeue\<close> at given times; the result lists what was handed out, and when.\<close>

datatype mqop = MqEnq IrcMsg | MqDeq int

fun mq_run :: "bool \<Rightarrow> int \<Rightarrow> mqop list \<Rightarrow> IrcMsgQueue \<Rightarrow> (int \<times> IrcMsg) list \<times> IrcMsgQueue" where
  "mq_run dups limit [] q = ([], q)"
| "mq_run dups limit (MqEnq m # ops) q = mq_run dups limit ops (snd (IrcMsgQueue_enqueue dups m q))"
| "mq_run dups limit (MqDeq now # ops) q =
     (case IrcMsgQueue_dequeue limit now q of (out, q') \<Rightarrow>
      case mq_run dups limit ops q' of (outs, q'') \<Rightarrow>
        ((case out of None \<Rightarrow> outs | Some m \<Rightarrow> (now, m) # outs), q''))"

lemma wf_run [wf_intros]: "IrcMsgQueue_wf q \<Longrightarrow> IrcMsgQueue_wf (snd (mq_run dups limit ops q))"
proof (induction dups limit ops q rule: mq_run.induct)
  case (3 dups limit now ops q)
  then show ?case using wf_dequeue [of q limit now] by (cases "IrcMsgQueue_dequeue limit now q") (auto split: prod.split)
qed (simp_all add: wf_enqueue)

text \<open>
  C40: The outgoing queue is a stable priority queue. In every queue a run of operations can reach, a
  message that is not refused as a duplicate is placed by the stable sort of the content by priority;
  \<open>dequeue\<close> hands out the first message of the content, unless that is a JOIN that comes too soon after
  the last one, which then goes to the end and nothing is handed out; no other message is lost,
  duplicated or overtaken.
\<close>

theorem IrcMsgQueue_stable_priority:
  assumes q: "q = snd (mq_run dups limit ops IrcMsgQueue_empty)"
    and fresh: "\<not> (dups \<and> IrcMsgQueue_contains m q)"
  shows "IrcMsgQueue_content (snd (IrcMsgQueue_enqueue dups m q)) = sort_key priority (IrcMsgQueue_content q @ [m])
    \<and> (case IrcMsgQueue_content q of
      [] \<Rightarrow> IrcMsgQueue_dequeue limit now q = (None, q)
    | x # rest \<Rightarrow>
        if im_command x = ''JOIN'' \<and> now < mq_lastJoin q + limit
        then fst (IrcMsgQueue_dequeue limit now q) = None
          \<and> IrcMsgQueue_content (snd (IrcMsgQueue_dequeue limit now q)) = rest @ [x]
        else fst (IrcMsgQueue_dequeue limit now q) = Some x
          \<and> IrcMsgQueue_content (snd (IrcMsgQueue_dequeue limit now q)) = rest)"
  using content_enqueue(2) [of q dups m] dequeue_content [of q limit now] wf_run [OF wf_empty, of dups limit ops]
    fresh q by (simp add: contains_content)

theorem IrcMsgQueue_stable_priority_witness:
  "\<exists>j k. IrcMsg_kw [] ''JOIN'' [''#c''] None = Inr j \<and> IrcMsg_kw [] ''KICK'' [''#c'', ''n''] None = Inr k \<and>
     IrcMsgQueue_content (snd (IrcMsgQueue_enqueue False k (snd (mq_run False 0 [MqEnq j] IrcMsgQueue_empty))))
       = sort_key priority [j, k]"
proof -
  have "\<not> isl (IrcMsg_kw [] ''JOIN'' [''#c''] None)" "\<not> isl (IrcMsg_kw [] ''KICK'' [''#c'', ''n''] None)" by code_simp+
  then obtain j k where jk: "IrcMsg_kw [] ''JOIN'' [''#c''] None = Inr j" "IrcMsg_kw [] ''KICK'' [''#c'', ''n''] None = Inr k"
    by (elim ok_resE)
  have "im_command j = ''JOIN''" using IrcMsg_kw_fields(2) [OF jk(1)] .
  then have c: "IrcMsgQueue_content (snd (mq_run False 0 [MqEnq j] IrcMsgQueue_empty)) = [j]"
    by (simp add: IrcMsgQueue_enqueue_def IrcMsgQueue_content_def IrcMsgQueue_empty_def smallqueue_enqueue_def)
  show ?thesis
    using IrcMsgQueue_stable_priority [where dups = False and m = k and ops = "[MqEnq j]" and limit = 0, OF refl] jk
    unfolding c by auto
qed

lemma dequeue_lastJoin:
  assumes "IrcMsgQueue_wf q" "IrcMsgQueue_dequeue limit now q = (out, q')"
  shows "case out of
      None \<Rightarrow> mq_lastJoin q' = mq_lastJoin q
    | Some m \<Rightarrow> if im_command m = ''JOIN'' then mq_lastJoin q + limit \<le> now \<and> mq_lastJoin q' = now
               else mq_lastJoin q' = mq_lastJoin q"
proof -
  have join: "priority m = 2" if "im_command m = ''JOIN''" for m
    using that by (simp add: priority_def high_commands_def low_commands_def)
  show ?thesis using assms join
    by (auto simp: IrcMsgQueue_dequeue_def smallqueue_dequeue_def IrcMsgQueue_wf_def
        split: list.splits if_splits)
qed

lemma enqueue_lastJoin [simp]: "mq_lastJoin (snd (IrcMsgQueue_enqueue dups m q)) = mq_lastJoin q"
  by (simp add: IrcMsgQueue_enqueue_def)

definition join_times :: "(int \<times> IrcMsg) list \<Rightarrow> int list" where
  "join_times outs = map fst (filter (\<lambda>(t, m). im_command m = ''JOIN'') outs)"

text \<open>
  JOIN messages are rate limited: in every run, whatever is queued in between and whatever the
  clock shows, two JOINs are handed out at times at least \<open>limit\<close> apart.
\<close>

theorem JOIN_rate_limited:
  assumes "0 \<le> limit"
  shows "sorted_wrt (\<lambda>t t'. t + limit \<le> t') (join_times (fst (mq_run dups limit ops IrcMsgQueue_empty)))"
proof -
  have "sorted_wrt (\<lambda>t t'. t + limit \<le> t') (join_times (fst (mq_run dups limit ops q)))
      \<and> (\<forall>t \<in> set (join_times (fst (mq_run dups limit ops q))). mq_lastJoin q + limit \<le> t)"
    if "IrcMsgQueue_wf q" for q
    using that assms
  proof (induction dups limit ops q rule: mq_run.induct)
    case (3 dups limit now ops q)
    obtain out q' where d: "IrcMsgQueue_dequeue limit now q = (out, q')" by (cases "IrcMsgQueue_dequeue limit now q")
    then have "IrcMsgQueue_wf q'" using wf_dequeue [OF "3.prems"(1), of limit now] by simp
    moreover have "mq_lastJoin q + limit \<le> t" if "mq_lastJoin q \<le> t'" "t' + limit \<le> t" for t t'
      using that by simp
    moreover have "mq_lastJoin q \<le> mq_lastJoin q'"
      using dequeue_lastJoin [OF "3.prems"(1) d] "3.prems"(2) by (auto split: option.splits if_splits)
    ultimately show ?case
      using 3 d dequeue_lastJoin [OF "3.prems"(1) d]
      by (cases "mq_run dups limit ops q'") (fastforce simp: join_times_def split: option.splits if_splits)
  qed (simp_all add: wf_enqueue join_times_def)
  then show ?thesis by simp
qed

theorem JOIN_rate_limited_witness:
  "\<exists>j. IrcMsg_kw [] ''JOIN'' [''#c''] None = Inr j \<and>
     sorted_wrt (\<lambda>t t'. t + 10 \<le> t')
       (join_times (fst (mq_run False 10 [MqEnq j, MqEnq j, MqDeq 15, MqDeq 17, MqDeq 30] IrcMsgQueue_empty))) \<and>
     join_times (fst (mq_run False 10 [MqEnq j, MqEnq j, MqDeq 15, MqDeq 17, MqDeq 30] IrcMsgQueue_empty)) = [15, 30]"
proof -
  have "\<not> isl (IrcMsg_kw [] ''JOIN'' [''#c''] None)" by code_simp
  then obtain j where j: "IrcMsg_kw [] ''JOIN'' [''#c''] None = Inr j" by (rule ok_resE)
  have "join_times (fst (mq_run False 10 (let j = projr (IrcMsg_kw [] ''JOIN'' [''#c''] None) in
      [MqEnq j, MqEnq j, MqDeq 15, MqDeq 17, MqDeq 30]) IrcMsgQueue_empty)) = [15, 30]"
    by code_simp
  then have "join_times (fst (mq_run False 10 [MqEnq j, MqEnq j, MqDeq 15, MqDeq 17, MqDeq 30] IrcMsgQueue_empty)) = [15, 30]"
    by (simp only: j sum.sel Let_def)
  moreover have "sorted_wrt (\<lambda>t t'. t + 10 \<le> t')
      (join_times (fst (mq_run False 10 [MqEnq j, MqEnq j, MqDeq 15, MqDeq 17, MqDeq 30] IrcMsgQueue_empty)))"
    by (rule JOIN_rate_limited) simp
  ultimately show ?thesis using j by (intro exI [of _ j] conjI)
qed

end
