(* ===== verification/ChannelStates.thy ===== *)
theory ChannelStates
  imports IrcMsgs
begin

text \<open>
  \<open>ChannelState\<close> of \<open>irclib.py\<close>: what the bot knows of one channel.  The user sets are \<open>IrcSet\<close>s and the
  modes an \<open>IrcDict\<close>.  A method that may raise after mutating the channel is an action on it.
\<close>

record ChannelState =
  cs_topic :: string
  cs_created :: int
  cs_ops :: IrcSet
  cs_bans :: IrcSet
  cs_users :: IrcSet
  cs_voices :: IrcSet
  cs_halfops :: IrcSet
  cs_modes :: "pyval option IrcDict"

definition ChannelState_new :: ChannelState where
  "ChannelState_new =
     \<lparr>cs_topic = [], cs_created = 0, cs_ops = [], cs_bans = [], cs_users = [], cs_voices = [],
      cs_halfops = [], cs_modes = []\<rparr>"

definition isOp :: "ChannelState \<Rightarrow> string \<Rightarrow> bool" where
  "isOp c nick \<longleftrightarrow> ircset_has (cs_ops c) nick"

definition isVoice :: "ChannelState \<Rightarrow> string \<Rightarrow> bool" where
  "isVoice c nick \<longleftrightarrow> ircset_has (cs_voices c) nick"

definition isHalfop :: "ChannelState \<Rightarrow> string \<Rightarrow> bool" where
  "isHalfop c nick \<longleftrightarrow> ircset_has (cs_halfops c) nick"

definition user_markers :: string where
  "user_markers = ''@%+&~''"

text \<open>The \<open>while\<close> loop over the markers in front of the nick.\<close>

fun addUser_markers :: "string \<Rightarrow> string \<Rightarrow> (ChannelState, unit) act" where
  "addUser_markers nick [] = retA ()"
| "addUser_markers nick (marker # user) =
     (if marker \<in> set user_markers then
        seqA (assertA (user \<noteq> []))
       (seqA (modifyA (\<lambda>c.
          if marker \<in> set ''@&~'' then c\<lparr>cs_ops := ircset_add nick (cs_ops c)\<rparr>
          else if marker = CHR ''%'' then c\<lparr>cs_halfops := ircset_add nick (cs_halfops c)\<rparr>
          else if marker = CHR ''+'' then c\<lparr>cs_voices := ircset_add nick (cs_voices c)\<rparr>
          else c))
        (addUser_markers nick user))
      else retA ())"

definition ChannelState_addUser :: "string \<Rightarrow> (ChannelState, unit) act" where
  "ChannelState_addUser user =
     (let nick = lstrip_in user_markers user in
      if nick = [] then retA ()
      else seqA (addUser_markers nick user)
                (modifyA (\<lambda>c. c\<lparr>cs_users := ircset_add nick (cs_users c)\<rparr>)))"

text \<open>One pass of the loop in \<open>replaceUser\<close>; \<open>s.remove\<close> cannot raise behind the test.\<close>

definition replace_in :: "string \<Rightarrow> string \<Rightarrow> IrcSet \<Rightarrow> IrcSet" where
  "replace_in oldNick newNick s =
     (if ircset_has s oldNick then ircset_add newNick (ircset_discard oldNick s) else s)"

definition ChannelState_replaceUser :: "string \<Rightarrow> string \<Rightarrow> ChannelState \<Rightarrow> ChannelState" where
  "ChannelState_replaceUser oldNick newNick c =
     c\<lparr>cs_users := replace_in oldNick newNick (cs_users c),
       cs_ops := replace_in oldNick newNick (cs_ops c),
       cs_halfops := replace_in oldNick newNick (cs_halfops c),
       cs_voices := replace_in oldNick newNick (cs_voices c)\<rparr>"

definition ChannelState_removeUser :: "string \<Rightarrow> ChannelState \<Rightarrow> ChannelState" where
  "ChannelState_removeUser user c =
     c\<lparr>cs_users := ircset_discard user (cs_users c),
       cs_ops := ircset_discard user (cs_ops c),
       cs_halfops := ircset_discard user (cs_halfops c),
       cs_voices := ircset_discard user (cs_voices c)\<rparr>"

definition ChannelState_setMode :: "char \<Rightarrow> pyval option \<Rightarrow> (ChannelState, unit) act" where
  "ChannelState_setMode mode value =
     seqA (assertA (mode \<notin> set ''ovhbeq''))
          (modifyA (\<lambda>c. c\<lparr>cs_modes := ircdict_set [mode] value (cs_modes c)\<rparr>))"

definition ChannelState_unsetMode :: "char \<Rightarrow> (ChannelState, unit) act" where
  "ChannelState_unsetMode mode =
     seqA (assertA (mode \<notin> set ''ovhbeq''))
          (modifyA (\<lambda>c. c\<lparr>cs_modes := ircdict_drop [mode] (cs_modes c)\<rparr>))"

text \<open>
  \<open>getSet\<close> and the call on its result: the set of a status mode, updated in place.  For \<open>e\<close> and \<open>q\<close> the
  set is a fresh one nobody keeps.  An integer argument is normalised through \<open>str\<close>.
\<close>

definition update_status :: "char \<Rightarrow> (IrcSet \<Rightarrow> IrcSet) \<Rightarrow> ChannelState \<Rightarrow> ChannelState" where
  "update_status ch f c =
     (if ch = CHR ''o'' then c\<lparr>cs_ops := f (cs_ops c)\<rparr>
      else if ch = CHR ''v'' then c\<lparr>cs_voices := f (cs_voices c)\<rparr>
      else if ch = CHR ''h'' then c\<lparr>cs_halfops := f (cs_halfops c)\<rparr>
      else if ch = CHR ''b'' then c\<lparr>cs_bans := f (cs_bans c)\<rparr>
      else c)"

definition value_str :: "pyval option \<Rightarrow> string" where
  "value_str value = (case value of None \<Rightarrow> ''None'' | Some v \<Rightarrow> py_str v)"

definition doMode_change :: "mode_change \<Rightarrow> (ChannelState, unit) act" where
  "doMode_change mc =
     (case mc of (mode, value) \<Rightarrow>
      case mode of
        [action, modeChar] \<Rightarrow>
          if modeChar \<in> set ''ovhbeq'' then
            (if action = CHR ''-'' then modifyA (update_status modeChar (ircset_discard (value_str value)))
             else if action = CHR ''+'' then modifyA (update_status modeChar (ircset_add (value_str value)))
             else retA ())
          else if action = CHR ''+'' then ChannelState_setMode modeChar value
          else seqA (assertA (action = CHR ''-'')) (ChannelState_unsetMode modeChar)
      | _ \<Rightarrow> raiseA ValueError)"

definition ChannelState_doMode :: "IrcMsg \<Rightarrow> (ChannelState, unit) act" where
  "ChannelState_doMode msg =
     bindA (liftA (separateModes (map PStr (tl (im_args msg))))) (forA doMode_change)"

section \<open>Well-formedness\<close>

definition ChannelState_wf :: "ChannelState \<Rightarrow> bool" where
  "ChannelState_wf c \<longleftrightarrow> nset_wf toLower (cs_ops c) \<and> nset_wf toLower (cs_bans c) \<and> nset_wf toLower (cs_users c)
     \<and> nset_wf toLower (cs_voices c) \<and> nset_wf toLower (cs_halfops c) \<and> pdict_wf toLower (cs_modes c)"

lemma ChannelState_wf_new [simp, wf_intros]: "ChannelState_wf ChannelState_new"
  by (simp add: ChannelState_wf_def ChannelState_new_def)

lemma nset_wf_replace_in [wf_intros]: "nset_wf toLower s \<Longrightarrow> nset_wf toLower (replace_in old new s)"
  by (simp add: replace_in_def wf_intros)

lemma ChannelState_wf_replaceUser [wf_intros]: "ChannelState_wf c \<Longrightarrow> ChannelState_wf (ChannelState_replaceUser old new c)"
  and ChannelState_wf_removeUser [wf_intros]: "ChannelState_wf c \<Longrightarrow> ChannelState_wf (ChannelState_removeUser u c)"
  by (simp_all add: ChannelState_wf_def ChannelState_replaceUser_def ChannelState_removeUser_def wf_intros)

lemma ChannelState_wf_update_status:
  "ChannelState_wf c \<Longrightarrow> (\<And>s. nset_wf toLower s \<Longrightarrow> nset_wf toLower (f s)) \<Longrightarrow> ChannelState_wf (update_status ch f c)"
  by (simp add: ChannelState_wf_def update_status_def)

lemma keeps_addUser_markers [wf_intros]: "keepsA ChannelState_wf (addUser_markers nick user)"
  by (induction nick user rule: addUser_markers.induct)
    (auto intro!: wf_intros simp: ChannelState_wf_def)

lemma keeps_addUser [wf_intros]: "keepsA ChannelState_wf (ChannelState_addUser user)"
  by (auto simp: ChannelState_addUser_def Let_def ChannelState_wf_def [of "_\<lparr>cs_users := _\<rparr>"]
    intro!: wf_intros) (auto simp: ChannelState_wf_def)

lemma keeps_setMode [wf_intros]: "keepsA ChannelState_wf (ChannelState_setMode m v)"
  and keeps_unsetMode [wf_intros]: "keepsA ChannelState_wf (ChannelState_unsetMode m)"
  by (auto simp: ChannelState_setMode_def ChannelState_unsetMode_def ChannelState_wf_def intro!: wf_intros)

lemma keeps_doMode_change [wf_intros]: "keepsA ChannelState_wf (doMode_change mc)"
  by (auto simp: doMode_change_def split: prod.split list.split
    intro!: wf_intros ChannelState_wf_update_status)

lemma channel_keeps_doMode [wf_intros]: "keepsA ChannelState_wf (ChannelState_doMode msg)"
  by (auto simp: ChannelState_doMode_def intro!: wf_intros)

section \<open>What the operations do to the membership\<close>

lemma addUser_markers_run:
  assumes "set ms \<subseteq> set user_markers" "nick \<noteq> []" "hd nick \<notin> set user_markers"
  shows "\<exists>c'. addUser_markers n (ms @ nick) c = (Inr (), c') \<and>
    ircset_abs (cs_ops c') = ircset_abs (cs_ops c) \<union> (if set ms \<inter> set ''@&~'' \<noteq> {} then {toLower n} else {}) \<and>
    ircset_abs (cs_halfops c') = ircset_abs (cs_halfops c) \<union> (if CHR ''%'' \<in> set ms then {toLower n} else {}) \<and>
    ircset_abs (cs_voices c') = ircset_abs (cs_voices c) \<union> (if CHR ''+'' \<in> set ms then {toLower n} else {}) \<and>
    cs_users c' = cs_users c \<and> cs_bans c' = cs_bans c \<and> cs_modes c' = cs_modes c \<and> cs_topic c' = cs_topic c"
  using assms(1)
proof (induction ms arbitrary: c)
  case Nil
  then show ?case using assms(2,3) by (cases nick) (simp_all add: act_defs)
next
  case (Cons k ms)
  let ?c = "if k \<in> set ''@&~'' then c\<lparr>cs_ops := ircset_add n (cs_ops c)\<rparr>
          else if k = CHR ''%'' then c\<lparr>cs_halfops := ircset_add n (cs_halfops c)\<rparr>
          else if k = CHR ''+'' then c\<lparr>cs_voices := ircset_add n (cs_voices c)\<rparr> else c"
  have k: "k \<in> set user_markers" and ms: "set ms \<subseteq> set user_markers" using Cons.prems by auto
  have "addUser_markers n ((k # ms) @ nick) c = addUser_markers n (ms @ nick) ?c"
    using k assms(2) by (simp add: act_defs)
  moreover have "k = CHR ''@'' \<or> k = CHR ''&'' \<or> k = CHR ''~'' \<or> k = CHR ''%'' \<or> k = CHR ''+''"
    using k by (auto simp: user_markers_def)
  ultimately show ?case using Cons.IH [OF ms, of ?c]
    by (elim disjE) (auto simp: Un_commute)
qed

text \<open>
  Adding a user as a NAMES reply lists them (any power prefixes, then the nick) never raises, puts
  the bare nick into the users, makes it an op exactly for \<open>@\<close>, \<open>&\<close> or \<open>~\<close>, a halfop for \<open>%\<close> and a voice for
  \<open>+\<close>, and changes nobody else and nothing else.
\<close>

lemma addUser_power_prefixes:
  assumes ms: "set ms \<subseteq> set user_markers" and nick: "nick \<noteq> []" "hd nick \<notin> set user_markers"
  shows "\<exists>c'. ChannelState_addUser (ms @ nick) c = (Inr (), c') \<and>
    ircset_abs (cs_users c') = insert (toLower nick) (ircset_abs (cs_users c)) \<and>
    ircset_abs (cs_ops c') = ircset_abs (cs_ops c) \<union> (if set ms \<inter> set ''@&~'' \<noteq> {} then {toLower nick} else {}) \<and>
    ircset_abs (cs_halfops c') = ircset_abs (cs_halfops c) \<union> (if CHR ''%'' \<in> set ms then {toLower nick} else {}) \<and>
    ircset_abs (cs_voices c') = ircset_abs (cs_voices c) \<union> (if CHR ''+'' \<in> set ms then {toLower nick} else {}) \<and>
    cs_bans c' = cs_bans c \<and> cs_modes c' = cs_modes c \<and> cs_topic c' = cs_topic c"
proof -
  have "lstrip_in user_markers (ms @ nick) = nick"
  proof -
    have "dropWhile (\<lambda>c. c \<in> set user_markers) (ms @ nick) = dropWhile (\<lambda>c. c \<in> set user_markers) nick"
      using ms by (intro dropWhile_append2) auto
    also have "\<dots> = nick" using nick by (cases nick) auto
    finally show ?thesis by (simp add: lstrip_in_def)
  qed
  moreover obtain c1 where "addUser_markers nick (ms @ nick) c = (Inr (), c1)"
      and c1: "ircset_abs (cs_ops c1) = ircset_abs (cs_ops c) \<union> (if set ms \<inter> set ''@&~'' \<noteq> {} then {toLower nick} else {})"
        "ircset_abs (cs_halfops c1) = ircset_abs (cs_halfops c) \<union> (if CHR ''%'' \<in> set ms then {toLower nick} else {})"
        "ircset_abs (cs_voices c1) = ircset_abs (cs_voices c) \<union> (if CHR ''+'' \<in> set ms then {toLower nick} else {})"
        "cs_users c1 = cs_users c" "cs_bans c1 = cs_bans c" "cs_modes c1 = cs_modes c" "cs_topic c1 = cs_topic c"
    using addUser_markers_run [OF assms, of nick c] by blast
  ultimately have "ChannelState_addUser (ms @ nick) c = (Inr (), c1\<lparr>cs_users := ircset_add nick (cs_users c1)\<rparr>)"
    using nick by (simp add: ChannelState_addUser_def act_defs)
  then show ?thesis using c1 by simp
qed

text \<open>The set of a status and what a run of changes of one status does to it.\<close>

definition status_set :: "char \<Rightarrow> ChannelState \<Rightarrow> string set" where
  "status_set ch c =
     (if ch = CHR ''o'' then ircset_abs (cs_ops c) else if ch = CHR ''v'' then ircset_abs (cs_voices c)
      else if ch = CHR ''h'' then ircset_abs (cs_halfops c) else ircset_abs (cs_bans c))"

lemma status_set_update:
  assumes "ch \<in> set ''ovhb''"
  shows "status_set ch' (update_status ch (ircset_add x) c)
      = (if ch' = ch \<or> ch = CHR ''b'' \<and> ch' \<notin> set ''ovh'' then insert (toLower x) (status_set ch' c) else status_set ch' c)"
    and "status_set ch' (update_status ch (ircset_discard x) c)
      = (if ch' = ch \<or> ch = CHR ''b'' \<and> ch' \<notin> set ''ovh'' then status_set ch' c - {toLower x} else status_set ch' c)"
    and "cs_users (update_status ch f c) = cs_users c \<and> cs_modes (update_status ch f c) = cs_modes c"
  using assms by (auto simp: status_set_def update_status_def)

lemma forA_status_changes:
  assumes ch: "ch \<in> set ''ohv''" and sign: "sign \<in> set ''+-''"
  shows "\<exists>c'. forA doMode_change (map (\<lambda>n. ([sign, ch], Some (PStr n))) nicks) c = (Inr (), c')
    \<and> status_set ch c' = (if sign = CHR ''+'' then status_set ch c \<union> toLower ` set nicks
                          else status_set ch c - toLower ` set nicks)
    \<and> (\<forall>ch' \<in> set ''ohvb'' - {ch}. status_set ch' c' = status_set ch' c)
    \<and> cs_users c' = cs_users c \<and> cs_modes c' = cs_modes c"
proof (induction nicks arbitrary: c)
  case Nil
  then show ?case by (simp add: act_defs)
next
  case (Cons n nicks)
  have ch': "ch \<in> set ''ovhb''" "ch \<in> set ''ovhbeq''" "ch \<noteq> CHR ''b''" using ch by auto
  define c1 where "c1 = (if sign = CHR ''+'' then update_status ch (ircset_add n) c
    else update_status ch (ircset_discard n) c)"
  have step: "doMode_change ([sign, ch], Some (PStr n)) c = (Inr (), c1)"
    using sign ch' by (auto simp: doMode_change_def act_defs c1_def value_str_def)
  obtain c' where c': "forA doMode_change (map (\<lambda>n. ([sign, ch], Some (PStr n))) nicks) c1 = (Inr (), c')"
    "status_set ch c' = (if sign = CHR ''+'' then status_set ch c1 \<union> toLower ` set nicks
                          else status_set ch c1 - toLower ` set nicks)"
    "\<forall>ch' \<in> set ''ohvb'' - {ch}. status_set ch' c' = status_set ch' c1"
    "cs_users c' = cs_users c1 \<and> cs_modes c' = cs_modes c1"
    using Cons.IH [of c1] by blast
  show ?case
    using step c' ch' by (auto simp: seqA_def bindA_def c1_def status_set_update)
qed

text \<open>
  The bot understands its own mode messages: when a message built by \<open>ops\<close>, \<open>deops\<close>, \<open>halfops\<close>,
  \<open>dehalfops\<close>, \<open>voices\<close> or \<open>devoices\<close> comes back from the server, \<open>doMode\<close> raises nothing and gives or takes
  that status for exactly the nicks it names (compared as IRC compares names), and touches no other
  status, no user and no mode.
\<close>

theorem doMode_status_message:
  assumes f: "([sign, ch], f) \<in> set status_functions" and m: "f True channel nicks prefix None = Inr m"
  shows "\<exists>c'. ChannelState_doMode m c = (Inr (), c')
    \<and> status_set ch c' = (if sign = CHR ''+'' then status_set ch c \<union> toLower ` set nicks
                          else status_set ch c - toLower ` set nicks)
    \<and> (\<forall>ch' \<in> set ''ohvb'' - {ch}. status_set ch' c' = status_set ch' c)
    \<and> cs_users c' = cs_users c \<and> cs_modes c' = cs_modes c"
proof -
  have "ch \<in> set ''ohv''" "sign \<in> set ''+-''" using f by (auto simp: status_functions_def)
  from forA_status_changes [OF this, of nicks c] status_message_separates [OF f m]
  show ?thesis by (auto simp: ChannelState_doMode_def bindA_def liftA_def)
qed

theorem doMode_status_message_witness:
  "\<exists>m c'. ops_msg True ''#c'' [''al'', ''bo''] [] None = Inr m \<and> ChannelState_doMode m ChannelState_new = (Inr (), c')
     \<and> status_set CHR ''o'' c' = {toLower ''al'', toLower ''bo''}"
proof -
  have "\<not> isl (ops_msg True ''#c'' [''al'', ''bo''] [] None)" by code_simp
  then obtain m where m: "ops_msg True ''#c'' [''al'', ''bo''] [] None = Inr m" by (rule ok_resE)
  have "([CHR ''+'', CHR ''o''], ops_msg) \<in> set status_functions" by (simp add: status_functions_def)
  from doMode_status_message [OF this, OF m, of ChannelState_new] m
  show ?thesis by (auto simp: status_set_def ChannelState_new_def)
qed

text \<open>
  Channel modes are kept in a case-insensitive dictionary, so two different modes whose letters
  differ in case (\<open>C\<close> and \<open>c\<close> on networks that have both) are one entry: after \<open>+C\<close> the bot also finds
  \<open>c\<close> set, and \<open>-c\<close> erases what \<open>+C\<close> set.
\<close>

theorem mode_letters_conflated:
  assumes "m \<noteq> m'" "toLower [m] = toLower [m']" "m \<notin> set ''ovhbeq''" "m' \<notin> set ''ovhbeq''"
  shows "ircdict_get (cs_modes (snd (ChannelState_setMode m v c))) [m'] = Some v
    \<and> ircdict_get (cs_modes (snd (seqA (ChannelState_setMode m v) (ChannelState_unsetMode m') c))) [m] = None"
  using assms by (simp add: ChannelState_setMode_def ChannelState_unsetMode_def act_defs)

theorem mode_letters_conflated_witness:
  "ircdict_get (cs_modes (snd (ChannelState_setMode CHR ''C'' None ChannelState_new))) ''c'' = Some None"
proof -
  have "CHR ''C'' \<noteq> CHR ''c''" "toLower ''C'' = toLower ''c''" "CHR ''C'' \<notin> set ''ovhbeq''" "CHR ''c'' \<notin> set ''ovhbeq''"
    by code_simp+
  from mode_letters_conflated [OF this] show ?thesis by blast
qed

end
