(* ===== verification/IrcStates.thy ===== *)
theory IrcStates
  imports ChannelStates
begin

text \<open>
  \<open>IrcState\<close> of \<open>irclib.py\<close>: the history, what the server supports (numeric 005), the hostmask of each
  nick and the channels.  \<open>me\<close> is \<open>irc.nick\<close>, all that the handlers read of the \<open>irc\<close> object.
\<close>

datatype supval = SNone | SInt int | SStr string | SPrefix "(char, char) dict" | SMaxlist "(char, int) dict"

record IrcState =
  is_history :: "IrcMsg RingBuffer"
  is_supported :: "(string, supval) pdict"
  is_nicksToHostmasks :: "string IrcDict"
  is_channels :: "ChannelState IrcDict"

definition py_capitalize :: "string \<Rightarrow> string" where
  "py_capitalize s = (case s of [] \<Rightarrow> [] | c # r \<Rightarrow> upper_char c # py_lower r)"

definition IrcState_new :: "int \<Rightarrow> IrcState res" where
  "IrcState_new maxHistoryLength =
     bindR (RingBuffer_new maxHistoryLength []) (\<lambda>h.
       Inr \<lparr>is_history = h, is_supported = [], is_nicksToHostmasks = [], is_channels = []\<rparr>)"

definition IrcState_reset :: "int \<Rightarrow> (IrcState, unit) act" where
  "IrcState_reset maxHistoryLength =
     seqA (modifyA (\<lambda>s. s\<lparr>is_history := RingBuffer_reset (is_history s), is_channels := [], is_supported := [],
                          is_nicksToHostmasks := []\<rparr>))
    (bindA (getA is_history) (\<lambda>h.
     bindA (liftA (RingBuffer_resize h maxHistoryLength)) (\<lambda>h'.
       modifyA (\<lambda>s. s\<lparr>is_history := h'\<rparr>))))"

text \<open>\<open>copy\<close>: deep copies; \<open>supported\<close> is left as the constructor makes it.\<close>

definition IrcState_copy :: "int \<Rightarrow> IrcState \<Rightarrow> IrcState res" where
  "IrcState_copy maxHistoryLength s =
     bindR (IrcState_new maxHistoryLength) (\<lambda>ret.
       Inr (ret\<lparr>is_history := is_history s, is_nicksToHostmasks := is_nicksToHostmasks s,
                is_channels := is_channels s\<rparr>))"

definition getTopic :: "string \<Rightarrow> IrcState \<Rightarrow> string res" where
  "getTopic channel s = bindR (ircdict_item (is_channels s) channel) (\<lambda>c. Inr (cs_topic c))"

definition nickToHostmask :: "string \<Rightarrow> IrcState \<Rightarrow> string res" where
  "nickToHostmask nick s = ircdict_item (is_nicksToHostmasks s) nick"

text \<open>\<open>chan = self.channels[channel]\<close> and then a method of \<open>chan\<close>, which is the object in the dictionary.\<close>

definition onChannel :: "string \<Rightarrow> (ChannelState, 'a) act \<Rightarrow> (IrcState, 'a) act" where
  "onChannel channel m = (\<lambda>s.
     case ircdict_item (is_channels s) channel of
       Inl e \<Rightarrow> (Inl e, s)
     | Inr c \<Rightarrow> (case m c of (r, c') \<Rightarrow>
         (r, s\<lparr>is_channels := ircdict_modify channel (\<lambda>_. c') (is_channels s)\<rparr>)))"

definition hasChannel :: "string \<Rightarrow> IrcState \<Rightarrow> bool" where
  "hasChannel channel s \<longleftrightarrow> pdict_has toLower (is_channels s) channel"

definition putChannel :: "string \<Rightarrow> ChannelState \<Rightarrow> IrcState \<Rightarrow> IrcState" where
  "putChannel channel c s = s\<lparr>is_channels := ircdict_set channel c (is_channels s)\<rparr>"

definition dropChannel :: "string \<Rightarrow> IrcState \<Rightarrow> IrcState" where
  "dropChannel channel s = s\<lparr>is_channels := ircdict_drop channel (is_channels s)\<rparr>"

definition arg_at :: "IrcMsg \<Rightarrow> nat \<Rightarrow> ('s, string) act" where
  "arg_at msg i = liftA (msg_arg msg i)"

section \<open>Numeric 005\<close>

definition dict_of_zip :: "'k list \<Rightarrow> 'v list \<Rightarrow> ('k, 'v) dict" where
  "dict_of_zip ks vs = foldl (\<lambda>d (k, v). dict_set k v d) [] (zip ks vs)"

definition prefixParser :: "string \<Rightarrow> supval res" where
  "prefixParser s =
     (if CHR '')'' \<in> set s then
        (case split_char CHR '')'' s of
           [left, right] \<Rightarrow>
             (case left of
                [] \<Rightarrow> Inl IndexError
              | c # left' \<Rightarrow> py_assert (c = CHR ''('')
                  (py_assert (length left' = length right) (Inr (SPrefix (dict_of_zip left' right)))))
         | _ \<Rightarrow> Inl ValueError)
      else Inr (SPrefix (dict_of_zip ''ovh'' s)))"

text \<open>The loop over the pairs \<open>modes:limit\<close>: the modes, and the limit once for each mode.\<close>

fun maxlist_pairs :: "string list \<Rightarrow> (string \<times> int list) res" where
  "maxlist_pairs [] = Inr ([], [])"
| "maxlist_pairs (pair # pairs) =
     bindR (unpack2 (split_char1 CHR '':'' pair)) (\<lambda>(mode, limit).
     bindR (int_of_str limit) (\<lambda>n.
     bindR (maxlist_pairs pairs) (\<lambda>(modes, limits).
       Inr (mode @ modes, replicate (length mode) n @ limits))))"

definition maxlistParser :: "string \<Rightarrow> supval res" where
  "maxlistParser s =
     bindR (maxlist_pairs (split_char CHR '','' s)) (\<lambda>(modes, limits). Inr (SMaxlist (dict_of_zip modes limits)))"

definition maxbansParser :: "string \<Rightarrow> supval res" where
  "maxbansParser s =
     (if CHR '':'' \<in> set s then
        bindR (maxlist_pairs (split_char CHR '','' s)) (\<lambda>(modes, limits).
          let d = dict_of_zip modes limits in
          py_assert (dict_has d CHR ''b'') (bindR (dict_item d CHR ''b'') (\<lambda>n. Inr (SInt n))))
      else bindR (int_of_str s) (\<lambda>n. Inr (SInt n)))"

definition int_options :: "string list" where
  "int_options = [''modes'', ''keylen'', ''nicklen'', ''userlen'', ''hostlen'', ''kicklen'', ''awaylen'',
     ''silence'', ''topiclen'', ''channellen'', ''maxtargets'', ''maxnicklen'', ''maxchannels'', ''watch'']"

definition convert_005 :: "string \<Rightarrow> string \<Rightarrow> supval res" where
  "convert_005 name value =
     (let k = py_lower name in
      if k \<in> set int_options then bindR (int_of_str value) (\<lambda>n. Inr (SInt n))
      else if k = ''prefix'' then prefixParser value
      else if k = ''maxlist'' then maxlistParser value
      else if k = ''maxbans'' then maxbansParser value
      else Inr (SStr value))"

definition support :: "string \<Rightarrow> supval \<Rightarrow> IrcState \<Rightarrow> IrcState" where
  "support name v s = s\<lparr>is_supported := pdict_setitem py_lower name v (is_supported s)\<rparr>"

text \<open>A converter that raises is logged and its option skipped.\<close>

definition do005_arg :: "string \<Rightarrow> (IrcState, unit) act" where
  "do005_arg arg =
     (case split_char1 CHR ''='' arg of
        (name, Some value) \<Rightarrow>
          (case convert_005 name value of
             Inr v \<Rightarrow> modifyA (support name v)
           | Inl _ \<Rightarrow> retA ())
      | (_, None) \<Rightarrow> modifyA (support arg SNone))"

definition do005 :: "IrcMsg \<Rightarrow> (IrcState, unit) act" where
  "do005 msg = forA do005_arg (butlast (tl (im_args msg)))"

section \<open>The other handlers\<close>

definition rememberHostmask :: "string \<Rightarrow> string \<Rightarrow> IrcState \<Rightarrow> IrcState" where
  "rememberHostmask nick hostmask s =
     s\<lparr>is_nicksToHostmasks := ircdict_set nick hostmask (is_nicksToHostmasks s)\<rparr>"

definition forgetHostmask :: "string \<Rightarrow> IrcState \<Rightarrow> IrcState" where
  "forgetHostmask nick s = s\<lparr>is_nicksToHostmasks := ircdict_drop nick (is_nicksToHostmasks s)\<rparr>"

definition do352 :: "IrcMsg \<Rightarrow> (IrcState, unit) act" where
  "do352 msg =
     bindA (arg_at msg 5) (\<lambda>nick. bindA (arg_at msg 2) (\<lambda>user. bindA (arg_at msg 3) (\<lambda>host.
       modifyA (rememberHostmask nick (nick @ ''!'' @ user @ ''@'' @ host)))))"

definition do353 :: "IrcMsg \<Rightarrow> (IrcState, unit) act" where
  "do353 msg =
     (case im_args msg of
        [_, typ, channel, names] \<Rightarrow>
          seqA (modifyA (\<lambda>s. if hasChannel channel s then s else putChannel channel ChannelState_new s))
          (seqA (forA (\<lambda>name. onChannel channel (ChannelState_addUser name)) (split_ws names))
           (if typ = ''@'' then
              onChannel channel (modifyA (\<lambda>c. c\<lparr>cs_modes := ircdict_set ''s'' None (cs_modes c)\<rparr>))
            else retA ()))
      | _ \<Rightarrow> raiseA ValueError)"

definition doJoin_channel :: "string \<Rightarrow> string \<Rightarrow> (IrcState, unit) act" where
  "doJoin_channel nick channel =
     bindA (getA (hasChannel channel)) (\<lambda>known.
       if known then onChannel channel (ChannelState_addUser nick)
       else if nick \<noteq> [] then
         (case ChannelState_addUser nick ChannelState_new of
            (Inr _, chan) \<Rightarrow> modifyA (putChannel channel chan)
          | (Inl e, _) \<Rightarrow> raiseA e)
       else retA ())"

definition doJoin :: "IrcMsg \<Rightarrow> (IrcState, unit) act" where
  "doJoin msg =
     bindA (arg_at msg 0) (\<lambda>channels. forA (doJoin_channel (im_nick msg)) (split_char CHR '','' channels))"

definition doMode :: "IrcMsg \<Rightarrow> (IrcState, unit) act" where
  "doMode msg =
     bindA (arg_at msg 0) (\<lambda>channel.
       if isChannel channel then
         seqA (modifyA (\<lambda>s. if hasChannel channel s then s else putChannel channel ChannelState_new s))
              (onChannel channel (ChannelState_doMode msg))
       else retA ())"

definition do324_change :: "mode_change \<Rightarrow> (ChannelState, unit) act" where
  "do324_change mc =
     (case mc of (mode, value) \<Rightarrow>
      case mode of
        [sign, modeChar] \<Rightarrow>
          if sign = CHR ''+'' \<and> modeChar \<notin> set ''ovh'' then ChannelState_setMode modeChar value
          else if sign = CHR ''-'' \<and> modeChar \<notin> set ''ovh'' then ChannelState_unsetMode modeChar
          else retA ()
      | _ \<Rightarrow> raiseA IndexError)"

definition do324 :: "IrcMsg \<Rightarrow> (IrcState, unit) act" where
  "do324 msg =
     bindA (arg_at msg 1) (\<lambda>channel.
       onChannel channel
         (bindA (liftA (separateModes (map PStr (drop 2 (im_args msg))))) (forA do324_change)))"

definition do329 :: "IrcMsg \<Rightarrow> (IrcState, unit) act" where
  "do329 msg =
     bindA (arg_at msg 1) (\<lambda>channel.
       onChannel channel
         (bindA (arg_at msg 2) (\<lambda>a. bindA (liftA (int_of_str a)) (\<lambda>t. modifyA (\<lambda>c. c\<lparr>cs_created := t\<rparr>)))))"

definition doPart_channel :: "string \<Rightarrow> string \<Rightarrow> string \<Rightarrow> (IrcState, unit) act" where
  "doPart_channel me nick channel =
     bindA (getA (hasChannel channel)) (\<lambda>known.
       if \<not> known then retA ()
       else if strEqual nick me then modifyA (dropChannel channel)
       else onChannel channel (modifyA (ChannelState_removeUser nick)))"

definition doPart :: "string \<Rightarrow> IrcMsg \<Rightarrow> (IrcState, unit) act" where
  "doPart me msg =
     bindA (arg_at msg 0) (\<lambda>channels. forA (doPart_channel me (im_nick msg)) (split_char CHR '','' channels))"

text \<open>The loop of \<open>doKick\<close>: it returns when the bot itself is kicked.\<close>

fun doKick_users :: "string \<Rightarrow> string \<Rightarrow> string list \<Rightarrow> (IrcState, unit) act" where
  "doKick_users me channel [] = retA ()"
| "doKick_users me channel (user # users) =
     (if strEqual user me then modifyA (dropChannel channel)
      else seqA (onChannel channel (modifyA (ChannelState_removeUser user))) (doKick_users me channel users))"

definition doKick :: "string \<Rightarrow> IrcMsg \<Rightarrow> (IrcState, unit) act" where
  "doKick me msg =
     (case im_args msg of
        channel # users # _ \<Rightarrow>
          bindA (getA (hasChannel channel)) (\<lambda>known.
            if known then doKick_users me channel (split_char CHR '','' users) else raiseA KeyError)
      | _ \<Rightarrow> raiseA ValueError)"

definition doQuit :: "IrcMsg \<Rightarrow> (IrcState, unit) act" where
  "doQuit msg =
     modifyA (\<lambda>s.
       let s' = s\<lparr>is_channels := pdict_map_values (ChannelState_removeUser (im_nick msg)) (is_channels s)\<rparr>
       in if pdict_has toLower (is_nicksToHostmasks s') (im_nick msg) then forgetHostmask (im_nick msg) s' else s')"

definition setTopic :: "string \<Rightarrow> string \<Rightarrow> (IrcState, unit) act" where
  "setTopic channel topic = onChannel channel (modifyA (\<lambda>c. c\<lparr>cs_topic := topic\<rparr>))"

definition doTopic :: "IrcMsg \<Rightarrow> (IrcState, unit) act" where
  "doTopic msg =
     (if length (im_args msg) = 1 then retA ()
      else bindA (arg_at msg 0) (\<lambda>channel.
        bindA (getA (hasChannel channel)) (\<lambda>known.
          if known then bindA (arg_at msg 1) (setTopic channel) else retA ())))"

definition do332 :: "IrcMsg \<Rightarrow> (IrcState, unit) act" where
  "do332 msg =
     bindA (arg_at msg 1) (\<lambda>channel.
       onChannel channel (bindA (arg_at msg 2) (\<lambda>t. modifyA (\<lambda>c. c\<lparr>cs_topic := t\<rparr>))))"

text \<open>The \<open>KeyError\<close> of deleting a hostmask that is not known is caught; that of the assertion in \<open>joinHostmask\<close> is not.\<close>

definition doNick :: "IrcMsg \<Rightarrow> (IrcState, unit) act" where
  "doNick msg =
     bindA (arg_at msg 0) (\<lambda>newNick.
       let oldNick = im_nick msg in
       seqA (if im_user msg \<noteq> [] \<and> im_host msg \<noteq> [] then
               bindA (liftA (joinHostmask newNick (im_user msg) (im_host msg))) (\<lambda>h. modifyA (rememberHostmask newNick h))
             else retA ())
      (seqA (modifyA (forgetHostmask oldNick))
            (modifyA (\<lambda>s. s\<lparr>is_channels := pdict_map_values (ChannelState_replaceUser oldNick newNick) (is_channels s)\<rparr>))))"

text \<open>\<open>dispatchCommand\<close>: the method \<open>do\<close> followed by the capitalised command, if there is one.\<close>

definition IrcState_dispatch :: "string \<Rightarrow> IrcMsg \<Rightarrow> (IrcState, unit) act" where
  "IrcState_dispatch me msg =
     (let cmd = py_capitalize (im_command msg) in
      if cmd = ''005'' then do005 msg
      else if cmd = ''352'' then do352 msg
      else if cmd = ''353'' then do353 msg
      else if cmd = ''Join'' then doJoin msg
      else if cmd = ''Mode'' then doMode msg
      else if cmd = ''324'' then do324 msg
      else if cmd = ''329'' then do329 msg
      else if cmd = ''Part'' then doPart me msg
      else if cmd = ''Kick'' then doKick me msg
      else if cmd = ''Quit'' then doQuit msg
      else if cmd = ''Topic'' then doTopic msg
      else if cmd = ''332'' then do332 msg
      else if cmd = ''Nick'' then doNick msg
      else retA ())"

definition IrcState_addMsg :: "string \<Rightarrow> IrcMsg \<Rightarrow> (IrcState, unit) act" where
  "IrcState_addMsg me msg =
     bindA (getA is_history) (\<lambda>h. bindA (liftA (RingBuffer_append h msg)) (\<lambda>h'.
     seqA (modifyA (\<lambda>s. s\<lparr>is_history := h'\<rparr>))
    (seqA (if isUserHostmask (im_prefix msg) \<and> im_command msg \<noteq> ''NICK''
           then modifyA (rememberHostmask (im_nick msg) (im_prefix msg)) else retA ())
          (IrcState_dispatch me msg))))"

section \<open>Well-formedness is kept, also by the handlers that raise\<close>

definition IrcState_wf :: "IrcState \<Rightarrow> bool" where
  "IrcState_wf s \<longleftrightarrow> RingBuffer_wf (is_history s) \<and> pdict_wf py_lower (is_supported s)
     \<and> pdict_wf toLower (is_nicksToHostmasks s) \<and> pdict_wf toLower (is_channels s)
     \<and> pdict_all ChannelState_wf (is_channels s)"

lemma IrcState_wf_channels:
  "IrcState_wf s \<Longrightarrow> pdict_wf toLower d \<Longrightarrow> pdict_all ChannelState_wf d \<Longrightarrow> IrcState_wf (s\<lparr>is_channels := d\<rparr>)"
  by (simp add: IrcState_wf_def)

lemma IrcState_wf_putChannel [wf_intros]:
  "IrcState_wf s \<Longrightarrow> ChannelState_wf c \<Longrightarrow> IrcState_wf (putChannel ch c s)"
  unfolding putChannel_def
  by (rule IrcState_wf_channels, assumption)
    (auto simp: IrcState_wf_def intro!: wf_intros)

lemma IrcState_wf_dropChannel [wf_intros]: "IrcState_wf s \<Longrightarrow> IrcState_wf (dropChannel ch s)"
  unfolding dropChannel_def
  by (rule IrcState_wf_channels, assumption) (auto simp: IrcState_wf_def intro!: wf_intros)

lemma IrcState_wf_map_channels:
  "IrcState_wf s \<Longrightarrow> (\<And>c. ChannelState_wf c \<Longrightarrow> ChannelState_wf (f c)) \<Longrightarrow>
     IrcState_wf (s\<lparr>is_channels := pdict_map_values f (is_channels s)\<rparr>)"
  by (rule IrcState_wf_channels, assumption) (auto simp: IrcState_wf_def intro!: wf_intros)

lemma IrcState_wf_remember [wf_intros]: "IrcState_wf s \<Longrightarrow> IrcState_wf (rememberHostmask n h s)"
  and IrcState_wf_forget [wf_intros]: "IrcState_wf s \<Longrightarrow> IrcState_wf (forgetHostmask n s)"
  and IrcState_wf_support [wf_intros]: "IrcState_wf s \<Longrightarrow> IrcState_wf (support n v s)"
  by (simp_all add: IrcState_wf_def rememberHostmask_def forgetHostmask_def support_def wf_intros)

lemma keeps_onChannel [wf_intros]:
  assumes "keepsA ChannelState_wf m"
  shows "keepsA IrcState_wf (onChannel ch m)"
  unfolding keepsA_def
proof (intro allI impI)
  fix s assume s: "IrcState_wf s"
  show "IrcState_wf (snd (onChannel ch m s))"
  proof (cases "ircdict_get (is_channels s) ch")
    case None
    with s show ?thesis by (simp add: onChannel_def pdict_getitem_lookup)
  next
    case (Some c)
    then have "ChannelState_wf c" using s by (auto simp: IrcState_wf_def elim: pdict_all_lookup)
    then have c': "ChannelState_wf (snd (m c))" using assms by (simp add: keepsA_def)
    obtain r c1 where m: "m c = (r, c1)" by (cases "m c")
    have "IrcState_wf (s\<lparr>is_channels := ircdict_modify ch (\<lambda>_. c1) (is_channels s)\<rparr>)"
      by (rule IrcState_wf_channels [OF s])
        (use s c' m in \<open>auto simp: IrcState_wf_def intro!: wf_intros\<close>)
    with Some m show ?thesis by (simp add: onChannel_def pdict_getitem_lookup)
  qed
qed

lemma ChannelState_wf_set_mode: "ChannelState_wf c \<Longrightarrow> ChannelState_wf (c\<lparr>cs_modes := ircdict_set k v (cs_modes c)\<rparr>)"
  and ChannelState_wf_created: "ChannelState_wf c \<Longrightarrow> ChannelState_wf (c\<lparr>cs_created := t\<rparr>)"
  and ChannelState_wf_topic: "ChannelState_wf c \<Longrightarrow> ChannelState_wf (c\<lparr>cs_topic := tp\<rparr>)"
  by (simp_all add: ChannelState_wf_def wf_intros)

lemma keeps_arg_at [wf_intros]: "keepsA P (arg_at msg i)"
  by (simp add: arg_at_def wf_intros)

text \<open>
  What an invariant \<open>P\<close> of the state, with \<open>Q\<close> of each channel, has to be stable under for every handler
  to keep it; the handlers use nothing but these operations.
\<close>

locale state_invariant =
  fixes P :: "IrcState \<Rightarrow> bool" and Q :: "ChannelState \<Rightarrow> bool"
  assumes put: "P s \<Longrightarrow> Q c \<Longrightarrow> P (putChannel ch c s)"
    and drop: "P s \<Longrightarrow> P (dropChannel ch s)"
    and on: "keepsA Q (m :: (ChannelState, unit) act) \<Longrightarrow> keepsA P (onChannel ch m)"
    and map_channels: "P s \<Longrightarrow> (\<And>c. Q c \<Longrightarrow> Q (f c)) \<Longrightarrow> P (s\<lparr>is_channels := pdict_map_values f (is_channels s)\<rparr>)"
    and remember: "P s \<Longrightarrow> P (rememberHostmask n h s)"
    and forget: "P s \<Longrightarrow> P (forgetHostmask n s)"
    and supports: "P s \<Longrightarrow> P (support n v s)"
    and Q_new: "Q ChannelState_new"
    and Q_addUser: "keepsA Q (ChannelState_addUser u)"
    and Q_removeUser: "Q c \<Longrightarrow> Q (ChannelState_removeUser u c)"
    and Q_replaceUser: "Q c \<Longrightarrow> Q (ChannelState_replaceUser old new c)"
    and Q_setMode: "keepsA Q (ChannelState_setMode mo mv)"
    and Q_unsetMode: "keepsA Q (ChannelState_unsetMode mo)"
    and Q_doMode: "keepsA Q (ChannelState_doMode msg)"
    and Q_secret: "Q c \<Longrightarrow> Q (c\<lparr>cs_modes := ircdict_set k mv (cs_modes c)\<rparr>)"
    and Q_created: "Q c \<Longrightarrow> Q (c\<lparr>cs_created := t\<rparr>)"
    and Q_topic: "Q c \<Longrightarrow> Q (c\<lparr>cs_topic := tp\<rparr>)"
begin

lemmas stable = put drop on map_channels remember forget supports Q_new Q_addUser Q_removeUser
  Q_replaceUser Q_setMode Q_unsetMode Q_doMode Q_secret Q_created Q_topic

lemma keeps_do005: "keepsA P (do005 msg)"
  by (auto simp: do005_def do005_arg_def split: prod.split option.split sum.split intro!: wf_intros stable)

lemma keeps_do352: "keepsA P (do352 msg)"
  by (auto simp: do352_def intro!: wf_intros stable)

lemma keeps_do353: "keepsA P (do353 msg)"
  by (auto simp: do353_def split: list.split intro!: wf_intros stable)

lemma keeps_doJoin: "keepsA P (doJoin msg)"
proof -
  have "keepsA P (doJoin_channel nick ch)" for nick ch
  proof -
    obtain r c where r: "ChannelState_addUser nick ChannelState_new = (r, c)" by fastforce
    with Q_addUser [of nick] Q_new have "Q c" by (auto simp: keepsA_def)
    with r show ?thesis
      by (cases r) (auto simp: doJoin_channel_def intro!: wf_intros stable)
  qed
  then show ?thesis by (auto simp: doJoin_def intro!: wf_intros)
qed

lemma keeps_doMode: "keepsA P (doMode msg)"
  by (auto simp: doMode_def intro!: wf_intros stable)

lemma keeps_do324: "keepsA P (do324 msg)"
  by (auto simp: do324_def do324_change_def split: prod.split list.split intro!: wf_intros stable)

lemma keeps_do329: "keepsA P (do329 msg)"
  by (auto simp: do329_def intro!: wf_intros stable)

lemma keeps_doPart: "keepsA P (doPart me msg)"
  by (auto simp: doPart_def doPart_channel_def intro!: wf_intros stable)

lemma keeps_doKick: "keepsA P (doKick me msg)"
proof -
  have "keepsA P (doKick_users me ch users)" for ch users
    by (induction users) (auto intro!: wf_intros stable)
  then show ?thesis by (auto simp: doKick_def split: list.split intro!: wf_intros)
qed

lemma keeps_doQuit: "keepsA P (doQuit msg)"
  by (auto simp: doQuit_def Let_def intro!: wf_intros stable)

lemma keeps_doTopic: "keepsA P (doTopic msg)"
  by (auto simp: doTopic_def setTopic_def intro!: wf_intros stable)

lemma keeps_do332: "keepsA P (do332 msg)"
  by (auto simp: do332_def intro!: wf_intros stable)

lemma keeps_doNick: "keepsA P (doNick msg)"
  by (auto simp: doNick_def Let_def intro!: wf_intros stable)

lemma keeps_dispatch: "keepsA P (IrcState_dispatch me msg)"
  unfolding IrcState_dispatch_def Let_def
  by (intro wf_intros keeps_do005 keeps_do352 keeps_do353 keeps_doJoin keeps_doMode keeps_do324 keeps_do329
    keeps_doPart keeps_doKick keeps_doQuit keeps_doTopic keeps_do332 keeps_doNick)

end

interpretation wf_inv: state_invariant IrcState_wf ChannelState_wf
  by unfold_locales (auto intro: wf_intros IrcState_wf_map_channels ChannelState_wf_set_mode
    ChannelState_wf_created ChannelState_wf_topic)

text \<open>No handler touches the history.\<close>

lemma onChannel_history: "is_history (snd (onChannel ch m s)) = is_history s"
  by (simp add: onChannel_def split: sum.split prod.split)

interpretation history_inv: state_invariant "\<lambda>s. is_history s = h" "\<lambda>_. True" for h
  by unfold_locales
    (simp_all add: keepsA_def onChannel_history putChannel_def dropChannel_def rememberHostmask_def
      forgetHostmask_def support_def)

text \<open>The history: \<open>append\<close> never raises on a well-formed buffer.\<close>

lemma addMsg_history:
  assumes "RingBuffer_wf (is_history s)"
  obtains h where "RingBuffer_append (is_history s) msg = Inr h" "RingBuffer_wf h"
    "RingBuffer_content h = lastn (nat (rb_maxSize (is_history s))) (RingBuffer_content (is_history s) @ [msg])"
    "rb_maxSize h = rb_maxSize (is_history s)"
  using RingBuffer_append_lastn [OF assms, of msg] by blast

lemma IrcState_wf_history: "IrcState_wf s \<Longrightarrow> RingBuffer_wf h \<Longrightarrow> IrcState_wf (s\<lparr>is_history := h\<rparr>)"
  by (simp add: IrcState_wf_def)

text \<open>Everything \<open>addMsg\<close> does after appending to the history.\<close>

definition addMsg_rest :: "string \<Rightarrow> IrcMsg \<Rightarrow> (IrcState, unit) act" where
  "addMsg_rest me msg =
     seqA (if isUserHostmask (im_prefix msg) \<and> im_command msg \<noteq> ''NICK''
           then modifyA (rememberHostmask (im_nick msg) (im_prefix msg)) else retA ())
          (IrcState_dispatch me msg)"

lemma addMsg_rest_eq:
  "RingBuffer_append (is_history s) msg = Inr h \<Longrightarrow>
     IrcState_addMsg me msg s = addMsg_rest me msg (s\<lparr>is_history := h\<rparr>)"
  by (simp add: IrcState_addMsg_def addMsg_rest_def act_defs)

lemma addMsg_keeps:
  assumes s: "IrcState_wf s"
  shows "IrcState_wf (snd (IrcState_addMsg me msg s))"
    and "RingBuffer_content (is_history (snd (IrcState_addMsg me msg s)))
      = lastn (nat (rb_maxSize (is_history s))) (RingBuffer_content (is_history s) @ [msg])"
    and "rb_maxSize (is_history (snd (IrcState_addMsg me msg s))) = rb_maxSize (is_history s)"
proof -
  from s obtain h where h: "RingBuffer_append (is_history s) msg = Inr h" "RingBuffer_wf h"
    "RingBuffer_content h = lastn (nat (rb_maxSize (is_history s))) (RingBuffer_content (is_history s) @ [msg])"
    "rb_maxSize h = rb_maxSize (is_history s)"
    by (auto simp: IrcState_wf_def elim: addMsg_history)
  have wf: "keepsA IrcState_wf (addMsg_rest me msg)"
    unfolding addMsg_rest_def by (intro wf_intros wf_inv.remember wf_inv.keeps_dispatch)
  have hist: "keepsA (\<lambda>s. is_history s = h) (addMsg_rest me msg)"
    unfolding addMsg_rest_def by (intro wf_intros history_inv.remember history_inv.keeps_dispatch)
  note eq = addMsg_rest_eq [OF h(1), of me]
  show "IrcState_wf (snd (IrcState_addMsg me msg s))"
    using wf IrcState_wf_history [OF s h(2)] by (simp add: keepsA_def eq)
  have "is_history (snd (IrcState_addMsg me msg s)) = h"
    using hist by (simp add: keepsA_def eq)
  with h show "RingBuffer_content (is_history (snd (IrcState_addMsg me msg s)))
      = lastn (nat (rb_maxSize (is_history s))) (RingBuffer_content (is_history s) @ [msg])"
    "rb_maxSize (is_history (snd (IrcState_addMsg me msg s))) = rb_maxSize (is_history s)"
    by simp_all
qed

text \<open>
  The state after a sequence of messages, each with the nick the bot had at the time; as the
  \<open>MetaFirewall\<close> around \<open>addMsg\<close> does, an exception is dropped and the state it left is kept.
\<close>

definition IrcState_run :: "(string \<times> IrcMsg) list \<Rightarrow> IrcState \<Rightarrow> IrcState" where
  "IrcState_run msgs s = foldl (\<lambda>s (me, msg). snd (IrcState_addMsg me msg s)) s msgs"

lemma IrcState_run_wf:
  assumes "IrcState_wf s"
  shows "IrcState_wf (IrcState_run msgs s) \<and> rb_maxSize (is_history (IrcState_run msgs s)) = rb_maxSize (is_history s)
    \<and> RingBuffer_content (is_history (IrcState_run msgs s))
        = lastn (nat (rb_maxSize (is_history s))) (RingBuffer_content (is_history s) @ map snd msgs)"
  using assms
proof (induction msgs rule: rev_induct)
  case Nil
  then show ?case by (auto simp: IrcState_run_def IrcState_wf_def RingBuffer_wf_def split: if_splits)
next
  case (snoc p msgs)
  obtain me msg where p: "p = (me, msg)" by (cases p)
  let ?s = "IrcState_run msgs s"
  have ih: "IrcState_wf ?s" "rb_maxSize (is_history ?s) = rb_maxSize (is_history s)"
    "RingBuffer_content (is_history ?s) = lastn (nat (rb_maxSize (is_history s))) (RingBuffer_content (is_history s) @ map snd msgs)"
    using snoc by simp_all
  have "IrcState_run (msgs @ [p]) s = snd (IrcState_addMsg me msg ?s)"
    by (simp add: IrcState_run_def p)
  with addMsg_keeps [OF ih(1), of me msg] ih p show ?case
    by (simp add: lastn_snoc_lastn)
qed

lemma IrcState_new_wf:
  assumes "IrcState_new n = Inr s0"
  shows "IrcState_wf s0 \<and> 0 < n"
proof -
  have n: "0 < n" and s0: "s0 = \<lparr>is_history = RingBuffer_reset \<lparr>rb_L = [], rb_i = 0, rb_full = False, rb_maxSize = n\<rparr>,
      is_supported = [], is_nicksToHostmasks = [], is_channels = []\<rparr>"
    using assms by (auto simp: IrcState_new_def RingBuffer_new_def split: if_splits)
  then show ?thesis using RingBuffer_new_wf [OF n] by (simp add: IrcState_wf_def)
qed

text \<open>
  C14: Whatever messages the server sends, malformed and unexpected ones that make a handler raise half
  way included, the state stays well formed (no name is twice in a user set of a channel, no key twice
  in a dictionary), and the history is exactly the last \<open>maxHistoryLength\<close> messages, all of them
  counted.
\<close>

theorem IrcState_stays_wellformed:
  assumes "IrcState_new n = Inr s0"
  shows "IrcState_wf (IrcState_run msgs s0)
    \<and> RingBuffer_list (is_history (IrcState_run msgs s0)) = Inr (lastn (nat n) (map snd msgs))"
proof -
  have n: "0 < n" and s0: "s0 = \<lparr>is_history = RingBuffer_reset \<lparr>rb_L = [], rb_i = 0, rb_full = False, rb_maxSize = n\<rparr>,
      is_supported = [], is_nicksToHostmasks = [], is_channels = []\<rparr>"
    using assms by (auto simp: IrcState_new_def RingBuffer_new_def split: if_splits)
  then have "IrcState_wf s0" using RingBuffer_new_wf [OF n] by (simp add: IrcState_wf_def)
  from IrcState_run_wf [OF this, of msgs] show ?thesis
    by (auto simp: IrcState_wf_def RingBuffer_list_content)
      (simp add: s0 RingBuffer_content_def RingBuffer_reset_def)
qed

theorem IrcState_stays_wellformed_witness:
  "\<exists>s0. IrcState_new 2 = Inr s0 \<and> IrcState_wf (IrcState_run [] s0)"
proof -
  have "\<not> isl (IrcState_new 2)" by code_simp
  then obtain s0 where s0: "IrcState_new 2 = Inr s0" by (rule ok_resE)
  from IrcState_stays_wellformed [OF this, of "[]"] s0 show ?thesis by blast
qed

end
