(* ===== verification/IrcStateLaws.thy ===== *)
theory IrcStateLaws
  imports IrcStates
begin

text \<open>
  What the handlers of \<open>IrcState\<close> do to the membership of the channels and to the hostmasks, seen through
  the lookups clients use.
\<close>

abbreviation channel_of :: "IrcState \<Rightarrow> string \<Rightarrow> ChannelState option" where
  "channel_of s ch \<equiv> ircdict_get (is_channels s) ch"

abbreviation hostmask_of :: "IrcState \<Rightarrow> string \<Rightarrow> string option" where
  "hostmask_of s n \<equiv> ircdict_get (is_nicksToHostmasks s) n"

text \<open>The four sets of a channel that hold nicks, by name.\<close>

datatype nick_set = Users | Ops | Halfops | Voices

fun nicks_in :: "nick_set \<Rightarrow> ChannelState \<Rightarrow> string set" where
  "nicks_in Users c = ircset_abs (cs_users c)"
| "nicks_in Ops c = ircset_abs (cs_ops c)"
| "nicks_in Halfops c = ircset_abs (cs_halfops c)"
| "nicks_in Voices c = ircset_abs (cs_voices c)"

definition rename_nick :: "string \<Rightarrow> string \<Rightarrow> string set \<Rightarrow> string set" where
  "rename_nick old new X =
     (if toLower old \<in> X then insert (toLower new) (X - {toLower old}) else X)"

lemma nicks_in_replaceUser [simp]: "nicks_in k (ChannelState_replaceUser old new c) = rename_nick old new (nicks_in k c)"
  by (cases k) (simp_all add: ChannelState_replaceUser_def replace_in_def rename_nick_def)

lemma nicks_in_removeUser [simp]: "nicks_in k (ChannelState_removeUser u c) = nicks_in k c - {toLower u}"
  by (cases k) (simp_all add: ChannelState_removeUser_def)

lemma lookup_cong: "toLower k = toLower k' \<Longrightarrow> ircdict_get d k = ircdict_get d k'"
  by (simp add: pdict_lookup_eq)

lemma hostmask_remember [simp]:
  "hostmask_of (rememberHostmask n h s) n' = (if toLower n' = toLower n then Some h else hostmask_of s n')"
  by (simp add: rememberHostmask_def)

lemma hostmask_forget [simp]:
  "hostmask_of (forgetHostmask n s) n' = (if toLower n' = toLower n then None else hostmask_of s n')"
  by (simp add: forgetHostmask_def)

lemma channels_remember [simp]: "is_channels (rememberHostmask n h s) = is_channels s"
  and channels_forget [simp]: "is_channels (forgetHostmask n s) = is_channels s"
  and hostmasks_put [simp]: "is_nicksToHostmasks (putChannel ch c s) = is_nicksToHostmasks s"
  and hostmasks_drop [simp]: "is_nicksToHostmasks (dropChannel ch s) = is_nicksToHostmasks s"
  and channels_put [simp]: "channel_of (putChannel ch c s) ch' = (if toLower ch' = toLower ch then Some c else channel_of s ch')"
  and channels_drop [simp]: "channel_of (dropChannel ch s) ch' = (if toLower ch' = toLower ch then None else channel_of s ch')"
  by (simp_all add: rememberHostmask_def forgetHostmask_def putChannel_def dropChannel_def)

lemma hasChannel_iff [simp]: "hasChannel ch s \<longleftrightarrow> channel_of s ch \<noteq> None"
  by (simp add: hasChannel_def pdict_has_def)

lemma msg_arg_0 [simp]: "im_args msg = a # as \<Longrightarrow> msg_arg msg 0 = Inr a"
  by (simp add: msg_arg_def list_item_def list_index_def)

text \<open>The state after a NICK message from a user with a full hostmask.\<close>

lemma doNick_state:
  assumes "im_args msg = [new]" "new \<noteq> []" "im_user msg \<noteq> []" "im_host msg \<noteq> []"
  shows "doNick msg s = (Inr (),
    let s1 = forgetHostmask (im_nick msg)
               (rememberHostmask new (new @ ''!'' @ im_user msg @ ''@'' @ im_host msg) s)
    in s1\<lparr>is_channels := pdict_map_values (ChannelState_replaceUser (im_nick msg) new) (is_channels s)\<rparr>)"
  using assms by (simp add: doNick_def arg_at_def act_defs joinHostmask_def Let_def)

text \<open>
  A nick change renames the user everywhere and changes nothing else: in every channel and in each
  of the sets of users, ops, halfops and voices the old nick becomes the new one where it was a member,
  the new nick gets the hostmask with the same user and host, the old nick has none, and every other
  nick keeps its own.
\<close>

theorem NICK_renames_everywhere:
  assumes msg: "im_args msg = [new]" "new \<noteq> []" "im_user msg \<noteq> []" "im_host msg \<noteq> []"
    and new: "toLower new \<noteq> toLower (im_nick msg)"
  shows "\<exists>s'. doNick msg s = (Inr (), s')
    \<and> (\<forall>ch. case channel_of s ch of
          None \<Rightarrow> channel_of s' ch = None
        | Some c \<Rightarrow> (\<exists>c'. channel_of s' ch = Some c' \<and> (\<forall>k. nicks_in k c' = rename_nick (im_nick msg) new (nicks_in k c))
             \<and> cs_modes c' = cs_modes c \<and> cs_bans c' = cs_bans c \<and> cs_topic c' = cs_topic c))
    \<and> (\<forall>n. hostmask_of s' n =
          (if toLower n = toLower new then Some (new @ ''!'' @ im_user msg @ ''@'' @ im_host msg)
           else if toLower n = toLower (im_nick msg) then None else hostmask_of s n))"
  unfolding doNick_state [OF msg]
  using new by (auto simp: Let_def split: option.split) (auto simp: ChannelState_replaceUser_def)

text \<open>A state with one channel and one known hostmask, and a message from a user, for the witnesses.\<close>

definition small_state :: IrcState where
  "small_state =
     rememberHostmask ''al'' ''al!u@h''
       (putChannel ''#c'' (snd (ChannelState_addUser ''@al'' ChannelState_new)) (projr (IrcState_new 5)))"

definition from_al :: "string \<Rightarrow> string list \<Rightarrow> IrcMsg" where
  "from_al command args = projr (IrcMsg_kw ''al!u@h'' command args None)"

theorem NICK_renames_everywhere_witness:
  "\<exists>s'. doNick (from_al ''NICK'' [''bo'']) small_state = (Inr (), s') \<and> hostmask_of s' ''BO'' = Some ''bo!u@h''
     \<and> (\<exists>c'. channel_of s' ''#C'' = Some c' \<and> toLower ''bo'' \<in> nicks_in Ops c')"
proof -
  let ?m = "from_al ''NICK'' [''bo'']"
  have m: "im_args ?m = [''bo'']" "''bo'' \<noteq> []" "im_user ?m \<noteq> []" "im_host ?m \<noteq> []"
      "toLower ''bo'' \<noteq> toLower (im_nick ?m)" by code_simp+
  have "channel_of small_state ''#C'' \<noteq> None" "toLower (im_nick ?m) \<in> nicks_in Ops (the (channel_of small_state ''#C''))"
      "im_user ?m = ''u''" "im_host ?m = ''h''" by code_simp+
  moreover have "toLower ''BO'' = toLower ''bo''" by code_simp
  moreover obtain s' where s': "doNick ?m small_state = (Inr (), s')"
    "\<And>ch. case channel_of small_state ch of
          None \<Rightarrow> channel_of s' ch = None
        | Some c \<Rightarrow> (\<exists>c'. channel_of s' ch = Some c' \<and> (\<forall>k. nicks_in k c' = rename_nick (im_nick ?m) ''bo'' (nicks_in k c))
             \<and> cs_modes c' = cs_modes c \<and> cs_bans c' = cs_bans c \<and> cs_topic c' = cs_topic c)"
    "\<And>n. hostmask_of s' n =
          (if toLower n = toLower ''bo'' then Some (''bo'' @ ''!'' @ im_user ?m @ ''@'' @ im_host ?m)
           else if toLower n = toLower (im_nick ?m) then None else hostmask_of small_state n)"
    using NICK_renames_everywhere [OF m, of small_state] by blast
  moreover have "toLower ''bo'' \<in> nicks_in Ops c'"
    if "toLower (im_nick ?m) \<in> nicks_in Ops c" "\<forall>k. nicks_in k c' = rename_nick (im_nick ?m) ''bo'' (nicks_in k c)" for c c'
    using that by (simp only: rename_nick_def if_True) simp
  ultimately show ?thesis using s'(1) s'(2) [of "''#C''"] s'(3) [of "''BO''"]
    by (cases "channel_of small_state ''#C''") (simp_all del: nicks_in.simps, blast)
qed

text \<open>
  A nick change to the same nick in another case loses the user's hostmask: the handler stores the new
  hostmask and then deletes the entry of the old nick, which is the same entry.
\<close>

theorem NICK_case_change_forgets_hostmask:
  assumes msg: "im_args msg = [new]" "new \<noteq> []" "im_user msg \<noteq> []" "im_host msg \<noteq> []"
    and new: "toLower new = toLower (im_nick msg)"
  shows "\<exists>s'. doNick msg s = (Inr (), s') \<and> nickToHostmask new s' = Inl KeyError"
  unfolding doNick_state [OF msg]
  using new by (simp add: Let_def nickToHostmask_def pdict_getitem_lookup)

theorem NICK_case_change_forgets_hostmask_witness:
  "nickToHostmask ''Al'' small_state = Inr ''al!u@h'' \<and>
   (\<exists>s'. doNick (from_al ''NICK'' [''Al'']) small_state = (Inr (), s') \<and> nickToHostmask ''Al'' s' = Inl KeyError)"
proof
  let ?m = "from_al ''NICK'' [''Al'']"
  have m: "im_args ?m = [''Al'']" "''Al'' \<noteq> []" "im_user ?m \<noteq> []" "im_host ?m \<noteq> []"
      "toLower ''Al'' = toLower (im_nick ?m)" by code_simp+
  show "\<exists>s'. doNick ?m small_state = (Inr (), s') \<and> nickToHostmask ''Al'' s' = Inl KeyError"
    by (rule NICK_case_change_forgets_hostmask [OF m])
  show "nickToHostmask ''Al'' small_state = Inr ''al!u@h''" by code_simp
qed

section \<open>Leaving\<close>

lemma onChannel_modify:
  "onChannel ch (modifyA f) s =
     (case channel_of s ch of None \<Rightarrow> (Inl KeyError, s)
      | Some c \<Rightarrow> (Inr (), s\<lparr>is_channels := ircdict_modify ch (\<lambda>_. f c) (is_channels s)\<rparr>))"
  by (simp add: onChannel_def pdict_getitem_lookup act_defs split: option.split)

lemma channel_of_modified:
  assumes "channel_of s ch = Some c"
  shows "channel_of (s\<lparr>is_channels := ircdict_modify ch (\<lambda>_. c') (is_channels s)\<rparr>) ch'
    = (if toLower ch' = toLower ch then Some c' else channel_of s ch')"
  using assms lookup_cong [of ch' ch "is_channels s"] by simp

lemma doPart_channel_state:
  "\<exists>s'. doPart_channel me nick ch s = (Inr (), s') \<and> is_nicksToHostmasks s' = is_nicksToHostmasks s
    \<and> (\<forall>x. channel_of s' x = (if toLower x = toLower ch
          then (if strEqual nick me then None else map_option (ChannelState_removeUser nick) (channel_of s x))
          else channel_of s x))"
proof (cases "channel_of s ch")
  case None
  have "channel_of s x = None" if "toLower x = toLower ch" for x
    using lookup_cong [OF that, of "is_channels s"] None by simp
  with None show ?thesis by (auto simp: doPart_channel_def act_defs)
next
  case (Some c)
  have "channel_of s x = Some c" if "toLower x = toLower ch" for x
    using lookup_cong [OF that, of "is_channels s"] Some by simp
  with Some channel_of_modified [OF Some] show ?thesis
    by (auto simp: doPart_channel_def bindA_def getA_def onChannel_modify)
      (auto simp: modifyA_def)
qed

lemma removeUser_idem: "nicks_in k (ChannelState_removeUser u (ChannelState_removeUser u c)) = nicks_in k (ChannelState_removeUser u c)"
  by simp

definition same_except_nicks :: "ChannelState \<Rightarrow> ChannelState \<Rightarrow> bool" where
  "same_except_nicks c c' \<longleftrightarrow> cs_modes c' = cs_modes c \<and> cs_bans c' = cs_bans c \<and> cs_topic c' = cs_topic c
     \<and> cs_created c' = cs_created c"

lemma same_except_nicks_removeUser [simp]: "same_except_nicks c (ChannelState_removeUser u c')  \<longleftrightarrow> same_except_nicks c c'"
  by (simp add: same_except_nicks_def ChannelState_removeUser_def)

lemma same_except_nicks_refl [simp]: "same_except_nicks c c"
  by (simp add: same_except_nicks_def)

definition without_user :: "string \<Rightarrow> ChannelState \<Rightarrow> ChannelState \<Rightarrow> bool" where
  "without_user u c c' \<longleftrightarrow> (\<forall>k. nicks_in k c' = nicks_in k c - {toLower u}) \<and> same_except_nicks c c'"

lemma without_user_removeUser: "without_user u c (ChannelState_removeUser u c)"
  by (simp add: without_user_def)

lemma without_user_trans: "without_user u c c' \<Longrightarrow> without_user u c' c'' \<Longrightarrow> without_user u c c''"
  by (auto simp: without_user_def same_except_nicks_def)

lemma forA_doPart:
  "\<exists>s'. forA (doPart_channel me nick) chs s = (Inr (), s') \<and> is_nicksToHostmasks s' = is_nicksToHostmasks s
    \<and> (\<forall>x. if toLower x \<in> toLower ` set chs
           then (if strEqual nick me then channel_of s' x = None
                 else rel_option (without_user nick) (channel_of s x) (channel_of s' x))
           else channel_of s' x = channel_of s x)"
proof (induction chs arbitrary: s)
  case Nil
  then show ?case by (simp add: retA_def)
next
  case (Cons ch chs)
  obtain s1 where s1: "doPart_channel me nick ch s = (Inr (), s1)" "is_nicksToHostmasks s1 = is_nicksToHostmasks s"
    "\<And>x. channel_of s1 x = (if toLower x = toLower ch
          then (if strEqual nick me then None else map_option (ChannelState_removeUser nick) (channel_of s x))
          else channel_of s x)"
    using doPart_channel_state [of me nick ch s] by blast
  obtain s' where s': "forA (doPart_channel me nick) chs s1 = (Inr (), s')" "is_nicksToHostmasks s' = is_nicksToHostmasks s1"
    "\<And>x. if toLower x \<in> toLower ` set chs
           then (if strEqual nick me then channel_of s' x = None
                 else rel_option (without_user nick) (channel_of s1 x) (channel_of s' x))
           else channel_of s' x = channel_of s1 x"
    using Cons.IH [of s1] by blast
  have step: "rel_option (without_user nick) o1 o2"
    if "rel_option (without_user nick) (map_option (ChannelState_removeUser nick) o1) o2" for o1 o2
    using that by (cases o1) (auto simp: option_rel_Some1 intro: without_user_trans [OF without_user_removeUser])
  have same: "rel_option (without_user nick) o1 (map_option (ChannelState_removeUser nick) o1)" for o1
    by (cases o1) (simp_all add: without_user_removeUser)
  have "if toLower x \<in> toLower ` set (ch # chs)
           then (if strEqual nick me then channel_of s' x = None
                 else rel_option (without_user nick) (channel_of s x) (channel_of s' x))
           else channel_of s' x = channel_of s x" for x
  proof (cases "toLower x \<in> toLower ` set chs")
    case True
    then show ?thesis using s'(3) [of x] s1(3) [of x] step by (auto split: if_splits)
  next
    case False
    then show ?thesis using s'(3) [of x] s1(3) [of x] same by (auto split: if_splits)
  qed
  with s1 s' show ?case by (auto simp: seqA_def bindA_def)
qed

text \<open>
  PART is handled exactly: in each channel it lists the user disappears from the users, ops, halfops
  and voices and nobody else does; when the user is the bot itself the channel is forgotten; channels
  it does not list, and listed channels that are not known, stay as they are. Nothing is raised.
\<close>

theorem PART_leaves_listed_channels:
  assumes "im_args msg = a # as"
  shows "\<exists>s'. doPart me msg s = (Inr (), s') \<and> is_nicksToHostmasks s' = is_nicksToHostmasks s
    \<and> (\<forall>x. if toLower x \<in> toLower ` set (split_char CHR '','' a)
           then (if strEqual (im_nick msg) me then channel_of s' x = None
                 else rel_option (without_user (im_nick msg)) (channel_of s x) (channel_of s' x))
           else channel_of s' x = channel_of s x)"
  using forA_doPart [of me "im_nick msg" "split_char CHR '','' a" s] assms
  by (simp add: doPart_def arg_at_def bindA_def liftA_def)

theorem PART_leaves_listed_channels_witness:
  "\<exists>s'. doPart ''bot'' (from_al ''PART'' [''#x,#C'']) small_state = (Inr (), s')
     \<and> rel_option (without_user ''al'') (channel_of small_state ''#c'') (channel_of s' ''#c'')"
proof -
  let ?m = "from_al ''PART'' [''#x,#C'']"
  have m: "im_args ?m = [''#x,#C'']" by code_simp
  have "toLower ''#c'' \<in> toLower ` set (split_char CHR '','' ''#x,#C'')" "\<not> strEqual (im_nick ?m) ''bot''"
    "im_nick ?m = ''al''" by code_simp+
  moreover obtain s' where "doPart ''bot'' ?m small_state = (Inr (), s')"
    "\<And>x. if toLower x \<in> toLower ` set (split_char CHR '','' ''#x,#C'')
           then (if strEqual (im_nick ?m) ''bot'' then channel_of s' x = None
                 else rel_option (without_user (im_nick ?m)) (channel_of small_state x) (channel_of s' x))
           else channel_of s' x = channel_of small_state x"
    using PART_leaves_listed_channels [OF m, of "''bot''" small_state] by blast
  ultimately show ?thesis by metis
qed

text \<open>
  QUIT removes the user from every channel (users, ops, halfops and voices) and forgets the hostmask;
  all other members, modes, bans and topics, and all other hostmasks, stay. Nothing is raised.
\<close>

theorem QUIT_leaves_everywhere:
  "\<exists>s'. doQuit msg s = (Inr (), s')
    \<and> (\<forall>x. rel_option (without_user (im_nick msg)) (channel_of s x) (channel_of s' x))
    \<and> (\<forall>n. hostmask_of s' n = (if toLower n = toLower (im_nick msg) then None else hostmask_of s n))"
proof -
  have *: "rel_option (without_user u) o1 (map_option (ChannelState_removeUser u) o1)" for u o1
    by (cases o1) (simp_all add: without_user_removeUser)
  have absent: "hostmask_of s n = None" if "hostmask_of s (im_nick msg) = None" "toLower n = toLower (im_nick msg)" for n
    using lookup_cong [OF that(2), of "is_nicksToHostmasks s"] that by simp
  show ?thesis
    by (cases "hostmask_of s (im_nick msg)")
      (simp_all add: doQuit_def modifyA_def Let_def pdict_has_def * absent)
qed

section \<open>Being kicked, and the reply to NAMES\<close>

lemma doKick_users_state:
  assumes "channel_of s ch = Some c"
  shows "\<exists>s'. doKick_users me ch users s = (Inr (), s') \<and> is_nicksToHostmasks s' = is_nicksToHostmasks s
    \<and> (\<forall>x. if toLower x = toLower ch
           then (if \<exists>u \<in> set users. strEqual u me then channel_of s' x = None
                 else \<exists>c'. channel_of s' x = Some c' \<and> same_except_nicks c c'
                        \<and> (\<forall>k. nicks_in k c' = nicks_in k c - toLower ` set users))
           else channel_of s' x = channel_of s x)"
  using assms
proof (induction users arbitrary: s c)
  case Nil
  then have "channel_of s x = Some c" if "toLower x = toLower ch" for x
    using lookup_cong [OF that, of "is_channels s"] by simp
  then show ?case by (auto simp: retA_def)
next
  case (Cons u users)
  show ?case
  proof (cases "strEqual u me")
    case True
    then show ?thesis by (auto simp: modifyA_def)
  next
    case False
    let ?s = "s\<lparr>is_channels := ircdict_modify ch (\<lambda>_. ChannelState_removeUser u c) (is_channels s)\<rparr>"
    have step: "onChannel ch (modifyA (ChannelState_removeUser u)) s = (Inr (), ?s)"
      using Cons.prems by (simp add: onChannel_modify)
    have c1: "channel_of ?s ch = Some (ChannelState_removeUser u c)" using Cons.prems by simp
    obtain s' where s': "doKick_users me ch users ?s = (Inr (), s')" "is_nicksToHostmasks s' = is_nicksToHostmasks ?s"
      "\<And>x. if toLower x = toLower ch
           then (if \<exists>u \<in> set users. strEqual u me then channel_of s' x = None
                 else \<exists>c'. channel_of s' x = Some c' \<and> same_except_nicks (ChannelState_removeUser u c) c'
                        \<and> (\<forall>k. nicks_in k c' = nicks_in k (ChannelState_removeUser u c) - toLower ` set users))
           else channel_of s' x = channel_of ?s x"
      using Cons.IH [OF c1] by blast
    have eq: "same_except_nicks (ChannelState_removeUser u c) c' = same_except_nicks c c'" for c'
      by (simp add: same_except_nicks_def ChannelState_removeUser_def)
    have sets: "nicks_in k (ChannelState_removeUser u c) - toLower ` set users = nicks_in k c - toLower ` set (u # users)" for k
      by auto
    have me: "(\<exists>v \<in> set (u # users). strEqual v me) \<longleftrightarrow> (\<exists>v \<in> set users. strEqual v me)"
      using False by simp
    have all: "if toLower x = toLower ch
           then (if \<exists>u \<in> set (u # users). strEqual u me then channel_of s' x = None
                 else \<exists>c'. channel_of s' x = Some c' \<and> same_except_nicks c c'
                        \<and> (\<forall>k. nicks_in k c' = nicks_in k c - toLower ` set (u # users)))
           else channel_of s' x = channel_of s x" for x
      using s'(3) [of x] unfolding eq sets me by (cases "toLower x = toLower ch") simp_all
    have "doKick_users me ch (u # users) s = (Inr (), s')"
      using False step s'(1) by (simp add: seqA_def bindA_def)
    moreover have "is_nicksToHostmasks s' = is_nicksToHostmasks s" using s'(2) by simp
    ultimately show ?thesis using all by (intro exI [of _ s'] conjI allI)
  qed
qed

text \<open>
  KICK is handled exactly: on a channel the bot knows, every user the message lists disappears from
  the users, ops, halfops and voices and nobody else does; when the bot is among them the channel is
  forgotten. Other channels are not touched and nothing is raised.
\<close>

theorem KICK_removes_listed_users:
  assumes args: "im_args msg = ch # users # rest" and known: "channel_of s ch = Some c"
  shows "\<exists>s'. doKick me msg s = (Inr (), s') \<and> is_nicksToHostmasks s' = is_nicksToHostmasks s
    \<and> (\<forall>x. if toLower x = toLower ch
           then (if \<exists>u \<in> set (split_char CHR '','' users). strEqual u me then channel_of s' x = None
                 else \<exists>c'. channel_of s' x = Some c' \<and> same_except_nicks c c'
                        \<and> (\<forall>k. nicks_in k c' = nicks_in k c - toLower ` set (split_char CHR '','' users)))
           else channel_of s' x = channel_of s x)"
  using doKick_users_state [OF known, of me "split_char CHR '','' users"] args known
  by (simp add: doKick_def bindA_def getA_def)

theorem KICK_removes_listed_users_witness:
  "\<exists>s'. doKick ''bot'' (from_al ''KICK'' [''#c'', ''x,AL'']) small_state = (Inr (), s')
     \<and> (\<exists>c'. channel_of s' ''#C'' = Some c' \<and> toLower ''al'' \<notin> nicks_in Ops c')"
proof -
  let ?m = "from_al ''KICK'' [''#c'', ''x,AL'']"
  have m: "im_args ?m = ''#c'' # ''x,AL'' # []" by code_simp
  have "channel_of small_state ''#c'' \<noteq> None" by code_simp
  then obtain c where c: "channel_of small_state ''#c'' = Some c" by blast
  have u: "\<not> (\<exists>u \<in> set (split_char CHR '','' ''x,AL''). strEqual u ''bot'')" "toLower ''#C'' = toLower ''#c''"
    "toLower ''al'' \<in> toLower ` set (split_char CHR '','' ''x,AL'')" by code_simp+
  obtain s' where s': "doKick ''bot'' ?m small_state = (Inr (), s')"
    "\<And>x. if toLower x = toLower ''#c''
           then (if \<exists>u \<in> set (split_char CHR '','' ''x,AL''). strEqual u ''bot'' then channel_of s' x = None
                 else \<exists>c'. channel_of s' x = Some c' \<and> same_except_nicks c c'
                        \<and> (\<forall>k. nicks_in k c' = nicks_in k c - toLower ` set (split_char CHR '','' ''x,AL'')))
           else channel_of s' x = channel_of small_state x"
    using KICK_removes_listed_users [OF m c, of "''bot''"] by blast
  define X where "X = toLower ` set (split_char CHR '','' ''x,AL'')"
  obtain c' where c': "channel_of s' ''#C'' = Some c'" "nicks_in Ops c' = nicks_in Ops c - X"
    using s'(2) [of "''#C''"] u(1,2) unfolding X_def by (simp only: if_False if_True refl simp_thms) metis
  have "toLower ''al'' \<notin> nicks_in Ops c'" using u(3) unfolding c'(2) X_def by blast
  with s'(1) c'(1) show ?thesis by blast
qed

lemma forA_onChannel:
  assumes "channel_of s ch = Some c"
  shows "\<exists>s'. forA (\<lambda>x. onChannel ch (m x)) xs s = (fst (forA m xs c), s')
    \<and> is_nicksToHostmasks s' = is_nicksToHostmasks s
    \<and> (\<forall>x. channel_of s' x = (if toLower x = toLower ch then Some (snd (forA m xs c)) else channel_of s x))"
  using assms
proof (induction xs arbitrary: s c)
  case Nil
  then have "channel_of s x = Some c" if "toLower x = toLower ch" for x
    using lookup_cong [OF that, of "is_channels s"] by simp
  then show ?case by (auto simp: retA_def)
next
  case (Cons y ys)
  obtain r c1 where r: "m y c = (r, c1)" by fastforce
  let ?s = "s\<lparr>is_channels := ircdict_modify ch (\<lambda>_. c1) (is_channels s)\<rparr>"
  have step: "onChannel ch (m y) s = (r, ?s)"
    using Cons.prems r by (simp add: onChannel_def pdict_getitem_lookup)
  have other: "channel_of ?s x = (if toLower x = toLower ch then Some c1 else channel_of s x)" for x
    by (rule channel_of_modified [OF Cons.prems])
  show ?case
  proof (cases r)
    case (Inl e)
    then show ?thesis using step r other by (auto simp: seqA_def bindA_def)
  next
    case (Inr u)
    have "channel_of ?s ch = Some c1" using other [of ch] by simp
    from Cons.IH [OF this] Inr step r other show ?thesis by (auto simp: seqA_def bindA_def)
  qed
qed

text \<open>The names of a reply: markers and nick of each.\<close>

definition name_entry :: "string \<times> string \<Rightarrow> bool" where
  "name_entry p \<longleftrightarrow> set (fst p) \<subseteq> set user_markers \<and> snd p \<noteq> [] \<and> hd (snd p) \<notin> set user_markers \<and> no_space (snd p)"

definition nicks_marked :: "string \<Rightarrow> (string \<times> string) list \<Rightarrow> string set" where
  "nicks_marked marks entries = toLower ` snd ` {p \<in> set entries. set (fst p) \<inter> set marks \<noteq> {}}"

lemma nicks_marked_Nil [simp]: "nicks_marked marks [] = {}"
  by (simp add: nicks_marked_def)

lemma nicks_marked_Cons [simp]:
  "nicks_marked marks (p # ps) =
     (if set (fst p) \<inter> set marks \<noteq> {} then insert (toLower (snd p)) (nicks_marked marks ps) else nicks_marked marks ps)"
  by (auto simp: nicks_marked_def)

lemma addUser_power_prefixes_sets:
  assumes "set ms \<subseteq> set user_markers" "n \<noteq> []" "hd n \<notin> set user_markers"
  shows "\<exists>c1. ChannelState_addUser (ms @ n) c = (Inr (), c1)
    \<and> nicks_in Users c1 = insert (toLower n) (nicks_in Users c)
    \<and> nicks_in Ops c1 = nicks_in Ops c \<union> (if set ms \<inter> set ''@&~'' \<noteq> {} then {toLower n} else {})
    \<and> nicks_in Halfops c1 = nicks_in Halfops c \<union> (if CHR ''%'' \<in> set ms then {toLower n} else {})
    \<and> nicks_in Voices c1 = nicks_in Voices c \<union> (if CHR ''+'' \<in> set ms then {toLower n} else {})
    \<and> cs_modes c1 = cs_modes c"
  using addUser_power_prefixes [OF assms, of c] unfolding nicks_in.simps by blast

lemma forA_addUser:
  assumes "\<forall>p \<in> set entries. name_entry p"
  shows "\<exists>c'. forA ChannelState_addUser (map (\<lambda>(ms, n). ms @ n) entries) c = (Inr (), c')
    \<and> nicks_in Users c' = nicks_in Users c \<union> toLower ` snd ` set entries
    \<and> nicks_in Ops c' = nicks_in Ops c \<union> nicks_marked ''@&~'' entries
    \<and> nicks_in Halfops c' = nicks_in Halfops c \<union> nicks_marked ''%'' entries
    \<and> nicks_in Voices c' = nicks_in Voices c \<union> nicks_marked ''+'' entries
    \<and> cs_modes c' = cs_modes c"
  using assms
proof (induction entries arbitrary: c)
  case Nil
  then show ?case by (simp add: retA_def)
next
  case (Cons p entries)
  obtain ms n where p: "p = (ms, n)" by (cases p)
  with Cons.prems have e: "set ms \<subseteq> set user_markers" "n \<noteq> []" "hd n \<notin> set user_markers"
    by (auto simp: name_entry_def)
  obtain c1 where c1: "ChannelState_addUser (ms @ n) c = (Inr (), c1)"
    "nicks_in Users c1 = insert (toLower n) (nicks_in Users c)"
    "nicks_in Ops c1 = nicks_in Ops c \<union> (if set ms \<inter> set ''@&~'' \<noteq> {} then {toLower n} else {})"
    "nicks_in Halfops c1 = nicks_in Halfops c \<union> (if CHR ''%'' \<in> set ms then {toLower n} else {})"
    "nicks_in Voices c1 = nicks_in Voices c \<union> (if CHR ''+'' \<in> set ms then {toLower n} else {})"
    "cs_modes c1 = cs_modes c"
    using addUser_power_prefixes_sets [OF e, of c] by auto
  obtain c' where c': "forA ChannelState_addUser (map (\<lambda>(ms, n). ms @ n) entries) c1 = (Inr (), c')"
    "nicks_in Users c' = nicks_in Users c1 \<union> toLower ` snd ` set entries"
    "nicks_in Ops c' = nicks_in Ops c1 \<union> nicks_marked ''@&~'' entries"
    "nicks_in Halfops c' = nicks_in Halfops c1 \<union> nicks_marked ''%'' entries"
    "nicks_in Voices c' = nicks_in Voices c1 \<union> nicks_marked ''+'' entries"
    "cs_modes c' = cs_modes c1"
    using Cons.IH [of c1] Cons.prems by auto
  have "forA ChannelState_addUser (map (\<lambda>(ms, n). ms @ n) (p # entries)) c = (Inr (), c')"
    using c1(1) c'(1) p by (simp add: seqA_def bindA_def)
  moreover have "nicks_in Users c' = nicks_in Users c \<union> toLower ` snd ` set (p # entries)"
    unfolding c'(2) c1(2) p by auto
  moreover have "nicks_in Ops c' = nicks_in Ops c \<union> nicks_marked ''@&~'' (p # entries)"
    unfolding c'(3) c1(3) p nicks_marked_Cons by auto
  moreover have "nicks_in Halfops c' = nicks_in Halfops c \<union> nicks_marked ''%'' (p # entries)"
    unfolding c'(4) c1(4) p nicks_marked_Cons by auto
  moreover have "nicks_in Voices c' = nicks_in Voices c \<union> nicks_marked ''+'' (p # entries)"
    unfolding c'(5) c1(5) p nicks_marked_Cons by auto
  ultimately show ?case using c'(6) c1(6) by (intro exI [of _ c'] conjI) simp_all
qed

text \<open>
  The reply to NAMES builds the channel: for a channel not known before, \<open>do353\<close> raises nothing and
  leaves a channel whose users are exactly the nicks listed (stripped of their power prefixes), whose
  ops are those with \<open>@\<close>, \<open>&\<close> or \<open>~\<close>, whose halfops those with \<open>%\<close> and whose voices those with \<open>+\<close>; the mode
  \<open>s\<close> is set exactly for a reply of type \<open>@\<close>, and no other channel changes.
\<close>

theorem NAMES_reply_builds_channel:
  assumes args: "im_args msg = [me, typ, ch, join_char CHR '' '' (map (\<lambda>(ms, n). ms @ n) entries)]"
    and entries: "\<forall>p \<in> set entries. name_entry p" and unknown: "channel_of s ch = None"
  shows "\<exists>s' c. do353 msg s = (Inr (), s') \<and> channel_of s' ch = Some c
    \<and> nicks_in Users c = toLower ` snd ` set entries
    \<and> nicks_in Ops c = nicks_marked ''@&~'' entries
    \<and> nicks_in Halfops c = nicks_marked ''%'' entries
    \<and> nicks_in Voices c = nicks_marked ''+'' entries
    \<and> (ircdict_get (cs_modes c) ''s'' \<noteq> None \<longleftrightarrow> typ = ''@'')
    \<and> (\<forall>x. toLower x \<noteq> toLower ch \<longrightarrow> channel_of s' x = channel_of s x)"
proof -
  let ?s = "putChannel ch ChannelState_new s" and ?names = "map (\<lambda>(ms, n). ms @ n) entries"
  have split: "split_ws (join_char CHR '' '' ?names) = ?names"
  proof (rule split_ws_join)
    have "no_space user_markers" by code_simp
    then show "\<forall>x \<in> set ?names. x \<noteq> [] \<and> no_space x"
      using entries by (fastforce simp: name_entry_def)
  qed
  obtain c1 where c1: "forA ChannelState_addUser ?names ChannelState_new = (Inr (), c1)"
    "nicks_in Users c1 = nicks_in Users ChannelState_new \<union> toLower ` snd ` set entries"
    "nicks_in Ops c1 = nicks_in Ops ChannelState_new \<union> nicks_marked ''@&~'' entries"
    "nicks_in Halfops c1 = nicks_in Halfops ChannelState_new \<union> nicks_marked ''%'' entries"
    "nicks_in Voices c1 = nicks_in Voices ChannelState_new \<union> nicks_marked ''+'' entries"
    "cs_modes c1 = cs_modes ChannelState_new"
    using forA_addUser [OF entries, of ChannelState_new] by blast
  have new: "nicks_in k ChannelState_new = {}" "cs_modes ChannelState_new = []" for k
    by (cases k; simp add: ChannelState_new_def)+
  have "channel_of ?s ch = Some ChannelState_new" by simp
  from forA_onChannel [OF this, of ChannelState_addUser ?names] c1(1)
  obtain s1 where s1: "forA (\<lambda>x. onChannel ch (ChannelState_addUser x)) ?names ?s = (Inr (), s1)"
    "\<And>x. channel_of s1 x = (if toLower x = toLower ch then Some c1 else channel_of s x)"
    by auto
  let ?c = "if typ = ''@'' then c1\<lparr>cs_modes := ircdict_set ''s'' None (cs_modes c1)\<rparr> else c1"
  let ?s' = "if typ = ''@'' then s1\<lparr>is_channels := ircdict_modify ch (\<lambda>_. ?c) (is_channels s1)\<rparr> else s1"
  have s1ch: "channel_of s1 ch = Some c1" using s1(2) by simp
  have run: "do353 msg s = (Inr (), ?s')"
    using args unknown s1 s1ch split
    by (simp add: do353_def seqA_def bindA_def modifyA_def onChannel_def pdict_getitem_lookup retA_def)
  have sets: "nicks_in k ?c = nicks_in k c1" for k by (cases k) auto
  have "channel_of ?s' x = (if toLower x = toLower ch then Some ?c else channel_of s x)" for x
    using s1(2) channel_of_modified [OF s1ch, of ?c x] by auto
  moreover have "ircdict_get (cs_modes ?c) ''s'' \<noteq> None \<longleftrightarrow> typ = ''@''"
    using c1(6) new(2) by simp
  ultimately show ?thesis
    using run sets c1 new by (intro exI [of _ ?s'] exI [of _ ?c]) simp
qed

theorem NAMES_reply_builds_channel_witness:
  "\<exists>s' c. do353 (from_al ''353'' [''bot'', ''='', ''#d'', ''@+al bo'']) small_state = (Inr (), s')
     \<and> channel_of s' ''#d'' = Some c \<and> nicks_in Users c = {toLower ''al'', toLower ''bo''}"
proof -
  have m: "im_args (from_al ''353'' [''bot'', ''='', ''#d'', ''@+al bo'']) = [''bot'', ''='', ''#d'',
      join_char CHR '' '' (map (\<lambda>(ms, n). ms @ n) [(''@+'', ''al''), ([], ''bo'')])]"
    "\<forall>p \<in> set [(''@+'', ''al''), ([], ''bo'')]. name_entry p" "channel_of small_state ''#d'' = None"
    by code_simp+
  from NAMES_reply_builds_channel [OF m] show ?thesis by auto
qed

end
