(* ===== verification/Capabilities.thy ===== *)
theory Capabilities
  imports IrcUtils
begin

text \<open>
  The capability functions of \<open>ircdb.py\<close>, and its two capability sets. A capability is a word, an
  anticapability has \<open>-\<close> in front, and a channel capability is \<open>#channel,capability\<close>.
\<close>

section \<open>Capabilities as strings\<close>

definition isCapability :: "string \<Rightarrow> bool" where
  "isCapability capability \<longleftrightarrow> length (split_ws1 capability) = 1"

definition isChannelCapability :: "string \<Rightarrow> bool" where
  "isChannelCapability capability =
     (case split_char1 CHR '','' capability of
        (channel, Some cap) \<Rightarrow> isChannel channel \<and> isCapability cap
      | (_, None) \<Rightarrow> False)"

definition fromChannelCapability :: "string \<Rightarrow> (string \<times> string) res" where
  "fromChannelCapability capability =
     py_assert (isChannelCapability capability) (unpack2 (split_char1 CHR '','' capability))"

definition makeChannelCapability :: "string \<Rightarrow> string \<Rightarrow> string res" where
  "makeChannelCapability channel capability =
     py_assert (isCapability capability) (py_assert (isChannel channel) (Inr (channel @ '','' @ capability)))"

text \<open>\<open>capability[0]\<close> is read only of a capability, which is not empty.\<close>

definition isAntiCapability :: "string \<Rightarrow> bool" where
  "isAntiCapability capability =
     (let cap = (if isChannelCapability capability
                 then the (snd (split_char1 CHR '','' capability)) else capability)
      in isCapability cap \<and> startswith cap ''-'')"

definition makeAntiCapability :: "string \<Rightarrow> string res" where
  "makeAntiCapability capability =
     py_assert (isCapability capability) (py_assert (\<not> isAntiCapability capability)
       (if isChannelCapability capability then
          bindR (fromChannelCapability capability) (\<lambda>(channel, cap). makeChannelCapability channel (''-'' @ cap))
        else Inr (''-'' @ capability)))"

definition unAntiCapability :: "string \<Rightarrow> string res" where
  "unAntiCapability capability =
     py_assert (isCapability capability)
       (if \<not> isAntiCapability capability then Inl ValueError
        else if isChannelCapability capability then
          bindR (fromChannelCapability capability) (\<lambda>(channel, cap). Inr (channel @ '','' @ tl cap))
        else Inr (tl capability))"

definition invertCapability :: "string \<Rightarrow> string res" where
  "invertCapability capability =
     py_assert (isCapability capability)
       (if isAntiCapability capability then unAntiCapability capability else makeAntiCapability capability)"

definition canonicalCapability :: "string \<Rightarrow> string res" where
  "canonicalCapability capability = py_assert (isCapability capability) (Inr (py_lower capability))"

definition unWildcardHostmask :: "string \<Rightarrow> string" where
  "unWildcardHostmask hostmask = filter (\<lambda>c. c \<notin> set ''!@*?'') hostmask"

section \<open>CapabilitySet\<close>

type_synonym CapabilitySet = "string list"

definition CapabilitySet_add :: "string \<Rightarrow> CapabilitySet \<Rightarrow> CapabilitySet res" where
  "CapabilitySet_add capability s =
     (let cap = toLower capability in
      bindR (invertCapability cap) (\<lambda>inverted.
        Inr (List.insert cap (if inverted \<in> set s then removeAll inverted s else s))))"

definition CapabilitySet_new :: "string list \<Rightarrow> CapabilitySet res" where
  "CapabilitySet_new capabilities = foldR CapabilitySet_add capabilities []"

definition CapabilitySet_remove :: "string \<Rightarrow> CapabilitySet \<Rightarrow> CapabilitySet res" where
  "CapabilitySet_remove capability s =
     (let cap = toLower capability in
      if cap \<in> set s then Inr (removeAll cap s) else Inl KeyError)"

definition CapabilitySet_contains :: "CapabilitySet \<Rightarrow> string \<Rightarrow> bool res" where
  "CapabilitySet_contains s capability =
     (let cap = toLower capability in
      if cap \<in> set s then Inr True
      else bindR (invertCapability cap) (\<lambda>inverted. Inr (inverted \<in> set s)))"

definition CapabilitySet_check :: "CapabilitySet \<Rightarrow> string \<Rightarrow> bool res" where
  "CapabilitySet_check s capability =
     (let cap = toLower capability in
      if cap \<in> set s then Inr True
      else bindR (invertCapability cap) (\<lambda>inverted. if inverted \<in> set s then Inr False else Inl KeyError))"

section \<open>UserCapabilitySet\<close>

definition antiOwner :: string where
  "antiOwner = ''-owner''"

definition UserCapabilitySet_contains :: "CapabilitySet \<Rightarrow> string \<Rightarrow> bool res" where
  "UserCapabilitySet_contains s capability =
     (let cap = toLower capability in
      if cap = ''owner'' \<or> cap = antiOwner then Inr True
      else bindR (CapabilitySet_contains s ''owner'') (\<lambda>owner.
        if owner then Inr True else CapabilitySet_contains s cap))"

definition UserCapabilitySet_check :: "CapabilitySet \<Rightarrow> string \<Rightarrow> bool res" where
  "UserCapabilitySet_check s capability =
     (let cap = toLower capability in
      bindR (CapabilitySet_contains s ''owner'') (\<lambda>owner.
        if cap = ''owner'' \<or> cap = antiOwner then
          (if owner then Inr (\<not> isAntiCapability cap) else Inr (isAntiCapability cap))
        else if owner then Inr (\<not> isAntiCapability cap)
        else CapabilitySet_check s cap))"

definition UserCapabilitySet_add :: "string \<Rightarrow> CapabilitySet \<Rightarrow> CapabilitySet res" where
  "UserCapabilitySet_add capability s =
     (let cap = toLower capability in py_assert (cap \<noteq> ''-owner'') (CapabilitySet_add cap s))"

definition UserCapabilitySet_new :: "string list \<Rightarrow> CapabilitySet res" where
  "UserCapabilitySet_new capabilities = foldR UserCapabilitySet_add capabilities []"

lemma antiOwner_made: "makeAntiCapability ''owner'' = Inr antiOwner"
  by code_simp

section \<open>The shape of a capability\<close>

text \<open>A bare word, with or without a channel, with or without the sign; these are what users grant.\<close>

definition base_capability :: "string \<Rightarrow> bool" where
  "base_capability w \<longleftrightarrow> w \<noteq> [] \<and> no_space w \<and> hd w \<noteq> CHR ''-'' \<and> CHR '','' \<notin> set w"

definition channel_word :: "string option \<Rightarrow> bool" where
  "channel_word ch \<longleftrightarrow> (case ch of None \<Rightarrow> True | Some c \<Rightarrow> isChannel c \<and> no_space c)"

definition mk_capability :: "string option \<Rightarrow> bool \<Rightarrow> string \<Rightarrow> string" where
  "mk_capability ch anti w =
     (case ch of None \<Rightarrow> [] | Some c \<Rightarrow> c @ '','') @ (if anti then ''-'' else []) @ w"

definition proper_capability :: "string \<Rightarrow> bool" where
  "proper_capability cap \<longleftrightarrow> (\<exists>ch anti w. channel_word ch \<and> base_capability w \<and> cap = mk_capability ch anti w)"

lemma isCapability_word: "w \<noteq> [] \<Longrightarrow> no_space w \<Longrightarrow> isCapability w"
  by (simp add: isCapability_def split_ws1_word)

lemma channel_no_comma: "isChannel c \<Longrightarrow> CHR '','' \<notin> set c"
  by (simp add: isChannel_with_def)

lemma mk_capability_word:
  assumes "channel_word ch" "base_capability w"
  shows "mk_capability ch anti w \<noteq> [] \<and> no_space (mk_capability ch anti w)"
  using assms by (cases ch) (auto simp: mk_capability_def channel_word_def base_capability_def is_space_def)

lemma isChannelCapability_mk:
  assumes "channel_word ch" "base_capability w"
  shows "isChannelCapability (mk_capability ch anti w) \<longleftrightarrow> ch \<noteq> None"
    and "isCapability (mk_capability ch anti w)"
    and "isAntiCapability (mk_capability ch anti w) \<longleftrightarrow> anti"
proof -
  let ?c = "(if anti then ''-'' else []) @ w"
  have c: "isCapability ?c" "CHR '','' \<notin> set ?c" "startswith ?c ''-'' \<longleftrightarrow> anti"
  proof -
    have "?c \<noteq> []" "no_space ?c" using assms(2) by (cases anti; auto simp: base_capability_def is_space_def)+
    then show "isCapability ?c" by (rule isCapability_word)
    show "CHR '','' \<notin> set ?c" "startswith ?c ''-'' \<longleftrightarrow> anti"
      using assms(2) by (cases w; cases anti; simp add: base_capability_def startswith_def)+
  qed
  show 1: "isChannelCapability (mk_capability ch anti w) \<longleftrightarrow> ch \<noteq> None"
    using assms(1) c channel_no_comma
    by (cases ch) (simp_all add: isChannelCapability_def mk_capability_def channel_word_def)
  show "isCapability (mk_capability ch anti w)"
    using mk_capability_word [OF assms, of anti] by (intro isCapability_word) auto
  then show "isAntiCapability (mk_capability ch anti w) \<longleftrightarrow> anti"
    using 1 c assms(1) channel_no_comma
    by (cases ch) (simp_all add: isAntiCapability_def Let_def mk_capability_def channel_word_def)
qed

lemma fromChannelCapability_mk:
  assumes "channel_word (Some ch)" "base_capability w"
  shows "fromChannelCapability (mk_capability (Some ch) anti w) = Inr (ch, mk_capability None anti w)"
  using isChannelCapability_mk(1) [OF assms, of anti] assms(1) channel_no_comma [of ch]
  by (simp add: fromChannelCapability_def unpack2_def mk_capability_def channel_word_def)

lemma invertCapability_mk:
  assumes "channel_word ch" "base_capability w"
  shows "invertCapability (mk_capability ch anti w) = Inr (mk_capability ch (\<not> anti) w)"
proof (cases anti)
  case True
  then show ?thesis
    using isChannelCapability_mk [OF assms, of anti] fromChannelCapability_mk [of _ w anti] assms
    by (cases ch) (simp_all add: invertCapability_def unAntiCapability_def, simp_all add: mk_capability_def)
next
  case False
  have "isCapability (''-'' @ w)"
    using assms(2) by (intro isCapability_word) (auto simp: base_capability_def is_space_def)
  then show ?thesis
    using False isChannelCapability_mk [OF assms, of anti] fromChannelCapability_mk [of _ w anti] assms
    by (cases ch) (simp_all add: invertCapability_def makeAntiCapability_def makeChannelCapability_def channel_word_def,
      simp_all add: mk_capability_def)
qed

section \<open>Case folding keeps the shape\<close>

lemma rfc1459_char_below: "ord x < 65 \<Longrightarrow> rfc1459_char c = x \<longleftrightarrow> c = x"
  unfolding ord_eq_iff [of "rfc1459_char c"] ord_eq_iff [of c] ord_rfc1459_char
  by (auto simp: rfc1459_code_def)

lemma rfc1459_char_punctuation [simp]:
  "rfc1459_char c = CHR ''-'' \<longleftrightarrow> c = CHR ''-''" "rfc1459_char c = CHR '','' \<longleftrightarrow> c = CHR '',''"
  "rfc1459_char c = CHR ''#'' \<longleftrightarrow> c = CHR ''#''" "rfc1459_char c = CHR ''&'' \<longleftrightarrow> c = CHR ''&''"
  "rfc1459_char c = CHR ''+'' \<longleftrightarrow> c = CHR ''+''" "rfc1459_char c = CHR ''!'' \<longleftrightarrow> c = CHR ''!''"
  "rfc1459_char c = CHR 0x07 \<longleftrightarrow> c = CHR 0x07"
  by (simp_all add: rfc1459_char_below)

lemma rfc1459_char_fixed [simp]: "rfc1459_char CHR ''-'' = CHR ''-''" "rfc1459_char CHR '','' = CHR '',''"
  by simp_all

lemma ord_space: "is_space c \<longleftrightarrow> ord c \<in> {9..13} \<or> ord c = 32"
  unfolding is_space_def by (simp add: ord_eq_iff [of c] del: of_char_eq_iff) linarith

lemma is_space_rfc1459_char [simp]: "is_space (rfc1459_char c) \<longleftrightarrow> is_space c"
  unfolding ord_space ord_rfc1459_char by (auto simp: rfc1459_code_def)

lemma toLower_Nil_iff [simp]: "toLower s = [] \<longleftrightarrow> s = []"
  by (simp add: toLower_def)

lemma hd_toLower: "s \<noteq> [] \<Longrightarrow> hd (toLower s) = rfc1459_char (hd s)"
  by (cases s) (simp_all add: toLower_def)

lemma comma_toLower [simp]: "CHR '','' \<in> set (toLower s) \<longleftrightarrow> CHR '','' \<in> set s"
  and bell_toLower [simp]: "CHR 0x07 \<in> set (toLower s) \<longleftrightarrow> CHR 0x07 \<in> set s"
  and no_space_toLower [simp]: "no_space (toLower s) \<longleftrightarrow> no_space s"
proof -
  show "CHR '','' \<in> set (toLower s) \<longleftrightarrow> CHR '','' \<in> set s"
    by (simp add: toLower_def image_iff) (metis rfc1459_char_punctuation(2))
  show "CHR 0x07 \<in> set (toLower s) \<longleftrightarrow> CHR 0x07 \<in> set s"
    by (simp add: toLower_def image_iff) (metis rfc1459_char_punctuation(7))
  show "no_space (toLower s) \<longleftrightarrow> no_space s"
    by (simp add: toLower_def)
qed

lemma base_capability_toLower: "base_capability w \<Longrightarrow> base_capability (toLower w)"
  by (simp add: base_capability_def hd_toLower)

lemma channel_word_toLower: "channel_word ch \<Longrightarrow> channel_word (map_option toLower ch)"
proof (cases ch)
  case (Some c)
  assume "channel_word ch"
  with Some have c: "isChannel c" "no_space c" by (simp_all add: channel_word_def)
  then have ne: "c \<noteq> []" by (simp add: isChannel_with_def)
  have "rfc1459_char (hd c) \<in> set ''#&+!''" using c(1) by (simp add: isChannel_with_def)
  moreover have "length (split_ws1 (toLower c)) = 1"
    using ne c(2) split_ws1_word(1) [of "toLower c"] by simp
  ultimately have "isChannel (toLower c)"
    using c ne by (simp add: isChannel_with_def hd_toLower)
  with c Some show ?thesis by (simp add: channel_word_def)
qed (simp add: channel_word_def)

lemma toLower_mk: "toLower (mk_capability ch anti w) = mk_capability (map_option toLower ch) anti (toLower w)"
  by (cases ch) (simp_all add: mk_capability_def, simp_all add: toLower_def)

section \<open>Inverting\<close>

text \<open>The inverse of a proper capability, as a total function.\<close>

definition inverse_of :: "string \<Rightarrow> string" where
  "inverse_of cap = projr (invertCapability cap)"

lemma proper_capabilityE:
  assumes "proper_capability cap"
  obtains ch anti w where "channel_word ch" "base_capability w" "cap = mk_capability ch anti w"
  using assms by (auto simp: proper_capability_def)

lemma proper_facts:
  assumes "proper_capability cap"
  shows "invertCapability cap = Inr (inverse_of cap)" "proper_capability (inverse_of cap)"
    "inverse_of (inverse_of cap) = cap" "isAntiCapability (inverse_of cap) \<longleftrightarrow> \<not> isAntiCapability cap"
    "inverse_of cap \<noteq> cap" "proper_capability (toLower cap)" "inverse_of (toLower cap) = toLower (inverse_of cap)"
    "isAntiCapability (toLower cap) \<longleftrightarrow> isAntiCapability cap" "isCapability cap"
    "isChannelCapability (inverse_of cap) \<longleftrightarrow> isChannelCapability cap"
proof -
  obtain ch anti w where s: "channel_word ch" "base_capability w" "cap = mk_capability ch anti w"
    using assms by (rule proper_capabilityE)
  have inv: "invertCapability (mk_capability ch b w) = Inr (mk_capability ch (\<not> b) w)" for b
    using s by (simp add: invertCapability_mk)
  note low = channel_word_toLower [OF s(1)] base_capability_toLower [OF s(2)]
  have i: "inverse_of cap = mk_capability ch (\<not> anti) w" by (simp add: inverse_of_def s inv)
  show "invertCapability cap = Inr (inverse_of cap)" unfolding i unfolding s by (rule inv)
  show "proper_capability (inverse_of cap)" using s i by (auto simp: proper_capability_def)
  show "inverse_of (inverse_of cap) = cap" by (simp add: i) (simp add: inverse_of_def inv s)
  show anti: "isAntiCapability (inverse_of cap) \<longleftrightarrow> \<not> isAntiCapability cap"
    unfolding i unfolding s isChannelCapability_mk(3) [OF s(1,2)] ..
  then show "inverse_of cap \<noteq> cap" by metis
  show "proper_capability (toLower cap)" using low s by (auto simp: proper_capability_def toLower_mk)
  show "inverse_of (toLower cap) = toLower (inverse_of cap)"
    unfolding i unfolding s toLower_mk inverse_of_def invertCapability_mk [OF low] by simp
  show "isAntiCapability (toLower cap) \<longleftrightarrow> isAntiCapability cap"
    using isChannelCapability_mk(3) [OF s(1,2)] isChannelCapability_mk(3) [OF low] by (simp add: s toLower_mk)
  show "isCapability cap" using isChannelCapability_mk(2) [OF s(1,2)] by (simp add: s)
  show "isChannelCapability (inverse_of cap) \<longleftrightarrow> isChannelCapability cap"
    unfolding i unfolding s isChannelCapability_mk(1) [OF s(1,2)] ..
qed

text \<open>
  Inverting is an involution on capabilities and anticapabilities, with and without a channel: the
  inverse exists, is of the other sign, keeps the channel, and inverts back; making an anticapability
  and undoing it are the two halves of it.
\<close>

theorem invertCapability_involution:
  assumes "proper_capability cap"
  shows "\<exists>inv. invertCapability cap = Inr inv \<and> proper_capability inv \<and> invertCapability inv = Inr cap
    \<and> (isAntiCapability inv \<longleftrightarrow> \<not> isAntiCapability cap)
    \<and> (isChannelCapability inv \<longleftrightarrow> isChannelCapability cap)
    \<and> (if isAntiCapability cap then unAntiCapability cap = Inr inv \<and> makeAntiCapability inv = Inr cap
       else makeAntiCapability cap = Inr inv \<and> unAntiCapability inv = Inr cap)"
  using proper_facts [OF assms] proper_facts(1) [OF proper_facts(2) [OF assms]] proper_facts(9) [OF proper_facts(2) [OF assms]]
  by (cases "isAntiCapability cap") (simp_all add: invertCapability_def)

theorem invertCapability_involution_witness:
  "\<exists>inv. invertCapability ''#c,op'' = Inr inv \<and> invertCapability inv = Inr ''#c,op''"
proof -
  have "channel_word (Some ''#c'')" "base_capability ''op''" "''#c,op'' = mk_capability (Some ''#c'') False ''op''"
    by code_simp+
  then have "proper_capability ''#c,op''" unfolding proper_capability_def by blast
  from invertCapability_involution [OF this] show ?thesis by blast
qed

section \<open>CapabilitySet is a partial function to truth values\<close>

definition CapabilitySet_ok :: "CapabilitySet \<Rightarrow> bool" where
  "CapabilitySet_ok s \<longleftrightarrow> distinct s \<and> (\<forall>c \<in> set s. proper_capability c \<and> toLower c = c \<and> inverse_of c \<notin> set s)"

lemma CapabilitySet_ok_Nil [simp, wf_intros]: "CapabilitySet_ok []"
  by (simp add: CapabilitySet_ok_def)

lemma CapabilitySet_add_eq:
  assumes "proper_capability cap"
  shows "CapabilitySet_add cap s = Inr (List.insert (toLower cap) (removeAll (toLower (inverse_of cap)) s))"
  using proper_facts [OF assms] proper_facts(1) [OF proper_facts(6) [OF assms]]
  by (simp add: CapabilitySet_add_def Let_def)

lemma CapabilitySet_check_eq:
  assumes "proper_capability c"
  shows "CapabilitySet_check s c =
    (if toLower c \<in> set s then Inr True else if toLower (inverse_of c) \<in> set s then Inr False else Inl KeyError)"
    and "CapabilitySet_contains s c = Inr (toLower c \<in> set s \<or> toLower (inverse_of c) \<in> set s)"
  using proper_facts(7) [OF assms] proper_facts(1) [OF proper_facts(6) [OF assms]]
  by (simp_all add: CapabilitySet_check_def CapabilitySet_contains_def Let_def)

lemma CapabilitySet_ok_add:
  assumes s: "CapabilitySet_ok s" and cap: "proper_capability cap"
  shows "CapabilitySet_ok (List.insert (toLower cap) (removeAll (toLower (inverse_of cap)) s))"
proof -
  note low = proper_facts [OF proper_facts(6) [OF cap]]
  have i: "inverse_of (toLower cap) = toLower (inverse_of cap)" using proper_facts(7) [OF cap] .
  have "c \<in> set s \<Longrightarrow> c \<noteq> toLower (inverse_of cap) \<Longrightarrow> inverse_of c \<noteq> toLower cap" for c
  proof
    assume c: "c \<in> set s" "c \<noteq> toLower (inverse_of cap)" and eq: "inverse_of c = toLower cap"
    have "proper_capability c" using c(1) s by (simp add: CapabilitySet_ok_def)
    then have "c = inverse_of (toLower cap)" using proper_facts(3) [of c] eq by simp
    with c(2) i show False by simp
  qed
  with s i low(5) proper_facts(6) [OF cap] show ?thesis
    by (auto simp: CapabilitySet_ok_def distinct_removeAll)
qed

text \<open>
  A \<open>CapabilitySet\<close> is a partial function from capabilities to truth values. Adding a capability never
  raises, makes \<open>check\<close> true for it and false for its inverse, and leaves the answer for every other one;
  the set never holds a capability together with its inverse; and \<open>in\<close> says whether \<open>check\<close> has an answer.
\<close>

theorem CapabilitySet_add_check:
  assumes s: "CapabilitySet_ok s" and cap: "proper_capability cap"
  shows "\<exists>s'. CapabilitySet_add cap s = Inr s' \<and> CapabilitySet_ok s'
    \<and> (\<forall>c. proper_capability c \<longrightarrow>
         CapabilitySet_check s' c =
           (if toLower c = toLower cap then Inr True
            else if toLower c = toLower (inverse_of cap) then Inr False
            else CapabilitySet_check s c)
         \<and> CapabilitySet_contains s' c = Inr (CapabilitySet_check s' c \<noteq> Inl KeyError))"
proof -
  let ?s = "List.insert (toLower cap) (removeAll (toLower (inverse_of cap)) s)"
  have "CapabilitySet_check ?s c =
      (if toLower c = toLower cap then Inr True else if toLower c = toLower (inverse_of cap) then Inr False
       else CapabilitySet_check s c)" if c: "proper_capability c" for c
  proof -
    have inv: "toLower (inverse_of c) = toLower cap \<longleftrightarrow> toLower c = toLower (inverse_of cap)"
      using proper_facts(3,7) c cap by (metis proper_facts(6))
    have ne: "toLower cap \<noteq> toLower (inverse_of cap)"
      using proper_facts(5) [OF proper_facts(6) [OF cap]] proper_facts(7) [OF cap] by simp
    have inv': "toLower (inverse_of c) = toLower (inverse_of cap) \<longleftrightarrow> toLower c = toLower cap"
      using proper_facts(3,7) c cap by (metis proper_facts(6))
    show ?thesis using inv inv' ne by (auto simp: CapabilitySet_check_eq [OF c])
  qed
  moreover have "CapabilitySet_contains ?s c = Inr (CapabilitySet_check ?s c \<noteq> Inl KeyError)" if "proper_capability c" for c
    using CapabilitySet_check_eq [OF that] by simp
  ultimately show ?thesis
    using CapabilitySet_add_eq [OF cap, of s] CapabilitySet_ok_add [OF s cap] by auto
qed

theorem CapabilitySet_add_check_witness:
  "\<exists>s'. CapabilitySet_add ''-Admin'' [''admin''] = Inr s' \<and> CapabilitySet_check s' ''ADMIN'' = Inr False"
proof -
  have w: "channel_word None" "base_capability ''Admin''" "base_capability ''admin''" "base_capability ''ADMIN''"
    "''-Admin'' = mk_capability None True ''Admin''" "''admin'' = mk_capability None False ''admin''"
    "''ADMIN'' = mk_capability None False ''ADMIN''" by code_simp+
  then have p: "proper_capability ''-Admin''" "proper_capability ''admin''" "proper_capability ''ADMIN''"
    unfolding proper_capability_def by blast+
  have "toLower ''admin'' = ''admin''" "inverse_of ''admin'' \<notin> set [''admin'']"
    "toLower ''ADMIN'' \<noteq> toLower ''-Admin''" "toLower ''ADMIN'' = toLower (inverse_of ''-Admin'')" by code_simp+
  moreover from this p have "CapabilitySet_ok [''admin'']" by (simp add: CapabilitySet_ok_def)
  ultimately show ?thesis using CapabilitySet_add_check [OF _ p(1), of "[''admin'']"] p(3) by auto
qed

section \<open>The owner\<close>

definition UserCapabilitySet_ok :: "CapabilitySet \<Rightarrow> bool" where
  "UserCapabilitySet_ok s \<longleftrightarrow> CapabilitySet_ok s \<and> antiOwner \<notin> set s"

lemma owner_proper: "proper_capability ''owner''" "toLower ''owner'' = ''owner''" "inverse_of ''owner'' = antiOwner"
  "proper_capability antiOwner" "toLower antiOwner = antiOwner" "inverse_of antiOwner = ''owner''"
  "isAntiCapability antiOwner" "\<not> isAntiCapability ''owner''" "''owner'' \<noteq> antiOwner"
proof -
  have "channel_word None" "base_capability ''owner''" "''owner'' = mk_capability None False ''owner''"
    "antiOwner = mk_capability None True ''owner''" by code_simp+
  then show "proper_capability ''owner''" "proper_capability antiOwner" unfolding proper_capability_def by blast+
  show "toLower ''owner'' = ''owner''" "inverse_of ''owner'' = antiOwner" "toLower antiOwner = antiOwner"
    "inverse_of antiOwner = ''owner''" "isAntiCapability antiOwner" "\<not> isAntiCapability ''owner''" "''owner'' \<noteq> antiOwner"
    by code_simp+
qed

lemma contains_owner: "UserCapabilitySet_ok s \<Longrightarrow> CapabilitySet_contains s ''owner'' = Inr (''owner'' \<in> set s)"
  using CapabilitySet_check_eq(2) [OF owner_proper(1), of s] by (simp add: owner_proper UserCapabilitySet_ok_def)

lemma UserCapabilitySet_ok_Nil [simp, wf_intros]: "UserCapabilitySet_ok []"
  by (simp add: UserCapabilitySet_ok_def)

lemma UserCapabilitySet_add_ok:
  assumes s: "UserCapabilitySet_ok s" and cap: "proper_capability cap"
  shows "if toLower cap = antiOwner then UserCapabilitySet_add cap s = Inl AssertionError
    else \<exists>s'. UserCapabilitySet_add cap s = Inr s' \<and> UserCapabilitySet_ok s'
      \<and> set s' = insert (toLower cap) (set s - {toLower (inverse_of cap)})"
proof (cases "toLower cap = antiOwner")
  case True
  then show ?thesis by (simp add: UserCapabilitySet_add_def antiOwner_def)
next
  case False
  have low: "proper_capability (toLower cap)" "toLower (inverse_of (toLower cap)) = toLower (inverse_of cap)"
    using proper_facts(6,7) [OF cap] by simp_all
  have "CapabilitySet_ok s" using s by (simp add: UserCapabilitySet_ok_def)
  from CapabilitySet_ok_add [OF this low(1)] CapabilitySet_add_eq [OF low(1), of s] False s low(2) show ?thesis
    by (auto simp: UserCapabilitySet_add_def antiOwner_def UserCapabilitySet_ok_def)
qed

text \<open>
  The capability of an owner: a user's set never contains \<open>-owner\<close> (adding it raises
  \<open>AssertionError\<close>); with \<open>owner\<close> in it every capability is granted and every anticapability denied,
  whatever else the set contains; without it \<open>owner\<close> is denied and \<open>-owner\<close> granted, and for every other
  capability the set answers as a plain \<open>CapabilitySet\<close>.
\<close>

theorem owner_capability_rules:
  assumes s: "UserCapabilitySet_ok s" and c: "proper_capability c"
  shows "(if toLower c = antiOwner then UserCapabilitySet_add c s = Inl AssertionError
          else \<exists>s'. UserCapabilitySet_add c s = Inr s' \<and> UserCapabilitySet_ok s')
    \<and> UserCapabilitySet_check s c =
      (if ''owner'' \<in> set s then Inr (\<not> isAntiCapability c)
       else if toLower c = ''owner'' then Inr False
       else if toLower c = antiOwner then Inr True
       else CapabilitySet_check s c)"
proof
  show "if toLower c = antiOwner then UserCapabilitySet_add c s = Inl AssertionError
          else \<exists>s'. UserCapabilitySet_add c s = Inr s' \<and> UserCapabilitySet_ok s'"
    using UserCapabilitySet_add_ok [OF s c] by (auto split: if_splits)
  have "CapabilitySet_check s (toLower c) = CapabilitySet_check s c"
    by (simp add: CapabilitySet_check_def)
  then show "UserCapabilitySet_check s c =
      (if ''owner'' \<in> set s then Inr (\<not> isAntiCapability c)
       else if toLower c = ''owner'' then Inr False
       else if toLower c = antiOwner then Inr True
       else CapabilitySet_check s c)"
    using contains_owner [OF s] proper_facts(8) [OF c] owner_proper(7,8,9)
    by (auto simp: UserCapabilitySet_check_def Let_def)
qed

theorem owner_capability_rules_witness:
  "UserCapabilitySet_check [''owner''] ''#c,op'' = Inr True \<and> UserCapabilitySet_check [] ''#c,op'' = Inl KeyError"
proof -
  have "channel_word (Some ''#c'')" "base_capability ''op''" "''#c,op'' = mk_capability (Some ''#c'') False ''op''"
    by code_simp+
  then have p: "proper_capability ''#c,op''" unfolding proper_capability_def by blast
  have ok: "UserCapabilitySet_ok [''owner'']" "UserCapabilitySet_ok []"
    using owner_proper by (simp_all add: UserCapabilitySet_ok_def CapabilitySet_ok_def)
  have "\<not> isAntiCapability ''#c,op''" "toLower ''#c,op'' \<noteq> ''owner''" "toLower ''#c,op'' \<noteq> antiOwner"
    "CapabilitySet_check [] ''#c,op'' = Inl KeyError" by code_simp+
  with owner_capability_rules [OF ok(1) p] owner_capability_rules [OF ok(2) p] show ?thesis by simp
qed

end
