(* ===== verification/IrcUsers.thy ===== *)
theory IrcUsers
  imports Capabilities
begin

text \<open>
  \<open>IrcUser\<close> of \<open>ircdb.py\<close>: one account.  The clock is \<open>now\<close>, the timeout of an identification is
  \<open>tmo\<close> (\<open>databases.users.timeoutIdentification\<close>, 0 for none), \<open>hasher\<close> the digest function and \<open>salt\<close> a
  fresh salt.  Hostmask patterns are matched with \<open>patternEqual\<close>; the caches in front of it are
  transparent.
\<close>

record IrcUser =
  iu_id :: "int option"
  iu_auth :: "(int \<times> string) list"
  iu_name :: string
  iu_ignore :: bool
  iu_secure :: bool
  iu_hashed :: bool
  iu_password :: string
  iu_capabilities :: CapabilitySet
  iu_hostmasks :: IrcSet

definition IrcUser_new :: "bool \<Rightarrow> string \<Rightarrow> string \<Rightarrow> string list \<Rightarrow> IrcSet option \<Rightarrow> bool \<Rightarrow> bool \<Rightarrow> IrcUser res" where
  "IrcUser_new ign pw nm caps hostmasks secure hashed =
     bindR (UserCapabilitySet_new caps) (\<lambda>cs.
       Inr \<lparr>iu_id = None, iu_auth = [], iu_name = nm, iu_ignore = ign, iu_secure = secure, iu_hashed = hashed,
            iu_password = pw, iu_capabilities = cs,
            iu_hostmasks = (case hostmasks of None \<Rightarrow> [] | Some h \<Rightarrow> h)\<rparr>)"

definition IrcUser_addCapability :: "string \<Rightarrow> IrcUser \<Rightarrow> IrcUser res" where
  "IrcUser_addCapability cap u =
     bindR (UserCapabilitySet_add cap (iu_capabilities u)) (\<lambda>cs. Inr (u\<lparr>iu_capabilities := cs\<rparr>))"

definition IrcUser_removeCapability :: "string \<Rightarrow> IrcUser \<Rightarrow> IrcUser res" where
  "IrcUser_removeCapability cap u =
     bindR (CapabilitySet_remove cap (iu_capabilities u)) (\<lambda>cs. Inr (u\<lparr>iu_capabilities := cs\<rparr>))"

definition IrcUser_checkCapability :: "string \<Rightarrow> IrcUser \<Rightarrow> bool res" where
  "IrcUser_checkCapability cap u =
     (if iu_ignore u then Inr (isAntiCapability cap)
      else UserCapabilitySet_check (iu_capabilities u) cap)"

section \<open>Passwords\<close>

text \<open>\<open>utils.saltHash\<close> with the salt given.\<close>

definition saltHash :: "(string \<Rightarrow> string) \<Rightarrow> string \<Rightarrow> string \<Rightarrow> string" where
  "saltHash hasher password salt = salt @ ''|'' @ hasher (salt @ password)"

definition IrcUser_setPassword :: "(string \<Rightarrow> string) \<Rightarrow> string \<Rightarrow> string \<Rightarrow> bool \<Rightarrow> IrcUser \<Rightarrow> IrcUser" where
  "IrcUser_setPassword hasher salt password hashed u =
     (if hashed \<or> iu_hashed u then u\<lparr>iu_hashed := True, iu_password := saltHash hasher password salt\<rparr>
      else u\<lparr>iu_password := password\<rparr>)"

definition IrcUser_checkPassword :: "(string \<Rightarrow> string) \<Rightarrow> string option \<Rightarrow> IrcUser \<Rightarrow> bool res" where
  "IrcUser_checkPassword hasher password u =
     (case password of
        None \<Rightarrow> Inr False
      | Some p \<Rightarrow>
          if iu_hashed u then
            (case split_char CHR ''|'' (iu_password u) of
               [salt, _] \<Rightarrow> Inr (iu_password u = saltHash hasher p salt)
             | _ \<Rightarrow> Inl ValueError)
          else Inr (iu_password u = p))"

section \<open>Hostmasks and authentication\<close>

text \<open>What \<open>checkHostmask\<close> returns: \<open>True\<close>, the pattern that matches, or \<open>False\<close>.\<close>

datatype hostmask_match = AuthMatch | PatMatch string | NoMatch

fun match_true :: "hostmask_match \<Rightarrow> bool" where
  "match_true AuthMatch = True"
| "match_true (PatMatch p) = (p \<noteq> [])"
| "match_true NoMatch = False"

text \<open>The loop over \<open>self.auth\<close>: whether it returns \<open>True\<close>, and the removals collected until then.\<close>

fun auth_scan :: "int \<Rightarrow> int \<Rightarrow> string \<Rightarrow> (int \<times> string) list \<Rightarrow> bool \<times> (int \<times> string) list" where
  "auth_scan tmo now hostmask [] = (False, [])"
| "auth_scan tmo now hostmask ((at, authmask) # auth) =
     (if tmo \<noteq> 0 \<and> at + tmo < now then
        (case auth_scan tmo now hostmask auth of (found, removals) \<Rightarrow> (found, (at, authmask) # removals))
      else if hostmask = authmask then (True, [])
      else auth_scan tmo now hostmask auth)"

fun first_pattern :: "string \<Rightarrow> string list \<Rightarrow> hostmask_match" where
  "first_pattern hostmask [] = NoMatch"
| "first_pattern hostmask (pat # pats) =
     (if patternEqual pat hostmask then PatMatch pat else first_pattern hostmask pats)"

definition IrcUser_checkHostmask :: "int \<Rightarrow> int \<Rightarrow> string \<Rightarrow> bool \<Rightarrow> IrcUser \<Rightarrow> hostmask_match \<times> IrcUser" where
  "IrcUser_checkHostmask tmo now hostmask useAuth u =
     (if useAuth then
        (case auth_scan tmo now hostmask (iu_auth u) of (found, removals) \<Rightarrow>
           let u' = u\<lparr>iu_auth := fold remove1 (rev removals) (iu_auth u)\<rparr> in
           if found then (AuthMatch, u') else (first_pattern hostmask (iu_hostmasks u'), u'))
      else (first_pattern hostmask (iu_hostmasks u), u))"

definition IrcUser_addHostmask :: "string \<Rightarrow> IrcUser \<Rightarrow> IrcUser res" where
  "IrcUser_addHostmask hostmask u =
     py_assert (isUserHostmask hostmask)
       (if length (unWildcardHostmask hostmask) < 8 then Inl ValueError
        else Inr (u\<lparr>iu_hostmasks := ircset_add hostmask (iu_hostmasks u)\<rparr>))"

definition IrcUser_removeHostmask :: "string \<Rightarrow> IrcUser \<Rightarrow> IrcUser res" where
  "IrcUser_removeHostmask hostmask u =
     bindR (nset_remove toLower hostmask (iu_hostmasks u)) (\<lambda>hs. Inr (u\<lparr>iu_hostmasks := hs\<rparr>))"

definition IrcUser_addAuth :: "int \<Rightarrow> int \<Rightarrow> string \<Rightarrow> IrcUser \<Rightarrow> IrcUser res" where
  "IrcUser_addAuth tmo now hostmask u =
     (if match_true (fst (IrcUser_checkHostmask tmo now hostmask False u)) \<or> \<not> iu_secure u
      then Inr (u\<lparr>iu_auth := iu_auth u @ [(now, hostmask)]\<rparr>)
      else Inl ValueError)"

text \<open>\<open>preserve\<close>: the lines written, without their line separators; the last one is empty.\<close>

definition IrcUser_preserve :: "string \<Rightarrow> IrcUser \<Rightarrow> string list" where
  "IrcUser_preserve indent u =
     map (\<lambda>s. indent @ s)
       ([''name '' @ iu_name u, ''ignore '' @ py_bool (iu_ignore u), ''secure '' @ py_bool (iu_secure u),
         ''hashed '' @ py_bool (iu_hashed u), ''password '' @ iu_password u]
        @ map (\<lambda>c. ''capability '' @ c) (iu_capabilities u)
        @ map (\<lambda>h. ''hostmask '' @ h) (iu_hostmasks u)) @ [[]]"

section \<open>Laws\<close>

lemma split_char_salt:
  assumes "CHR ''|'' \<notin> set salt" "CHR ''|'' \<notin> set digest"
  shows "split_char CHR ''|'' (salt @ ''|'' @ digest) = [salt, digest]"
  using assms by simp

text \<open>
  A password that was set is accepted, and another one is accepted exactly when it is the same
  string, or, for a hashed password, when its salted digest is the same; \<open>None\<close> is never accepted.
  (Digests are written without \<open>|\<close>, as hexadecimal ones are, and so are salts.)
\<close>

theorem password_set_then_checked:
  assumes salt: "CHR ''|'' \<notin> set salt" and hex: "\<And>s. CHR ''|'' \<notin> set (hasher s)"
  shows "IrcUser_checkPassword hasher (Some p') (IrcUser_setPassword hasher salt p hashed u) =
      Inr (if hashed \<or> iu_hashed u then hasher (salt @ p) = hasher (salt @ p') else p = p')
    \<and> IrcUser_checkPassword hasher (Some p) (IrcUser_setPassword hasher salt p hashed u) = Inr True
    \<and> IrcUser_checkPassword hasher None (IrcUser_setPassword hasher salt p hashed u) = Inr False"
  using split_char_salt [OF salt hex [of "salt @ p"]]
  by (auto simp: IrcUser_checkPassword_def IrcUser_setPassword_def saltHash_def)

theorem password_set_then_checked_witness:
  "IrcUser_checkPassword (map (\<lambda>c. if c = CHR ''|'' then CHR ''!'' else c)) (Some ''secret'')
     (IrcUser_setPassword (map (\<lambda>c. if c = CHR ''|'' then CHR ''!'' else c)) ''ab12'' ''secret'' True
       (projr (IrcUser_new False [] ''joe'' [] None False False))) = Inr True"
  by (rule password_set_then_checked [THEN conjunct2, THEN conjunct1]) auto

lemma first_pattern_iff:
  "first_pattern hostmask pats = NoMatch \<longleftrightarrow> (\<forall>p \<in> set pats. \<not> patternEqual p hostmask)"
  "first_pattern hostmask pats = PatMatch p \<Longrightarrow> p \<in> set pats \<and> patternEqual p hostmask"
  "first_pattern hostmask pats \<noteq> AuthMatch"
  by (induction pats) (auto split: if_splits)

lemma auth_scan_expired: "(found, removals) = auth_scan tmo now h auth \<Longrightarrow>
    (\<forall>p \<in> set removals. tmo \<noteq> 0 \<and> fst p + tmo < now)
    \<and> (found \<longleftrightarrow> (\<exists>at. (at, h) \<in> set auth \<and> \<not> (tmo \<noteq> 0 \<and> at + tmo < now)))"
proof (induction auth arbitrary: found removals)
  case (Cons p auth)
  obtain at mask where p: "p = (at, mask)" by (cases p)
  obtain f r where fr: "auth_scan tmo now h auth = (f, r)" by fastforce
  from Cons.IH [OF fr [symmetric]] Cons.prems p fr show ?case
    by (auto split: if_splits)
qed simp

lemma mem_fold_remove1: "x \<in> set xs \<Longrightarrow> x \<notin> set rs \<Longrightarrow> x \<in> set (fold remove1 rs xs)"
  by (induction rs arbitrary: xs) (auto simp: in_set_remove1)

lemma set_fold_remove1: "set (fold remove1 rs xs) \<subseteq> set xs"
  by (induction rs arbitrary: xs) (auto dest: subsetD [OF set_remove1_subset])

text \<open>An identification of the hostmask that has not timed out.\<close>

definition live_auth :: "int \<Rightarrow> int \<Rightarrow> string \<Rightarrow> IrcUser \<Rightarrow> bool" where
  "live_auth tmo now h u \<longleftrightarrow> (\<exists>at \<in> fst ` set (iu_auth u). (at, h) \<in> set (iu_auth u) \<and> (tmo = 0 \<or> now \<le> at + tmo))"

text \<open>
  \<open>checkHostmask\<close> recognises a user exactly by a live identification or by a hostmask pattern: it
  returns \<open>True\<close> exactly when the hostmask was identified at most \<open>timeout\<close> ago (or no timeout is set), a
  matching pattern of the user when there is no such identification, and \<open>False\<close> when neither matches.
  The only effect is that expired identifications may disappear.
\<close>

theorem checkHostmask_recognises:
  "(case fst (IrcUser_checkHostmask tmo now h True u) of
      AuthMatch \<Rightarrow> live_auth tmo now h u
    | PatMatch p \<Rightarrow> \<not> live_auth tmo now h u \<and> p \<in> set (iu_hostmasks u) \<and> patternEqual p h
    | NoMatch \<Rightarrow> \<not> live_auth tmo now h u \<and> (\<forall>p \<in> set (iu_hostmasks u). \<not> patternEqual p h))
    \<and> (\<exists>auth. snd (IrcUser_checkHostmask tmo now h True u) = u\<lparr>iu_auth := auth\<rparr> \<and> set auth \<subseteq> set (iu_auth u)
        \<and> (\<forall>p \<in> set (iu_auth u) - set auth. tmo \<noteq> 0 \<and> fst p + tmo < now))"
proof -
  obtain found removals where scan: "auth_scan tmo now h (iu_auth u) = (found, removals)" by fastforce
  note s = auth_scan_expired [OF scan [symmetric]]
  then have live: "found \<longleftrightarrow> live_auth tmo now h u"
    unfolding live_auth_def by (metis fst_conv image_eqI not_less)
  have "\<forall>p \<in> set (iu_auth u) - set (fold remove1 (rev removals) (iu_auth u)). tmo \<noteq> 0 \<and> fst p + tmo < now"
    using s mem_fold_remove1 [of _ "iu_auth u" "rev removals"] by auto
  with scan set_fold_remove1 [of "rev removals" "iu_auth u"]
  have "\<exists>auth. snd (IrcUser_checkHostmask tmo now h True u) = u\<lparr>iu_auth := auth\<rparr> \<and> set auth \<subseteq> set (iu_auth u)
        \<and> (\<forall>p \<in> set (iu_auth u) - set auth. tmo \<noteq> 0 \<and> fst p + tmo < now)"
    by (auto simp: IrcUser_checkHostmask_def Let_def)
  moreover have "case fst (IrcUser_checkHostmask tmo now h True u) of
      AuthMatch \<Rightarrow> live_auth tmo now h u
    | PatMatch p \<Rightarrow> \<not> live_auth tmo now h u \<and> p \<in> set (iu_hostmasks u) \<and> patternEqual p h
    | NoMatch \<Rightarrow> \<not> live_auth tmo now h u \<and> (\<forall>p \<in> set (iu_hostmasks u). \<not> patternEqual p h)"
    using live scan first_pattern_iff(1) [of h "iu_hostmasks u"] first_pattern_iff(3) [of h "iu_hostmasks u"]
      first_pattern_iff(2) [of h "iu_hostmasks u"]
    by (cases "first_pattern h (iu_hostmasks u)") (auto simp: IrcUser_checkHostmask_def Let_def)
  ultimately show ?thesis by blast
qed

theorem checkHostmask_recognises_witness:
  "\<not> live_auth 3600 5000 ''joe!j@host.example'' \<lparr>iu_id = Some 1, iu_auth = [(1000, ''joe!j@host.example'')], iu_name = ''joe'', iu_ignore = False,
      iu_secure = False, iu_hashed = False, iu_password = ''x'', iu_capabilities = [],
      iu_hostmasks = [''*!j@*.example'']\<rparr>"
proof -
  have "fst (IrcUser_checkHostmask 3600 5000 ''joe!j@host.example'' True
     \<lparr>iu_id = Some 1, iu_auth = [(1000, ''joe!j@host.example'')], iu_name = ''joe'', iu_ignore = False,
      iu_secure = False, iu_hashed = False, iu_password = ''x'', iu_capabilities = [],
      iu_hostmasks = [''*!j@*.example'']\<rparr>) = PatMatch ''*!j@*.example''"
    by code_simp
  with checkHostmask_recognises [THEN conjunct1, of 3600 5000 "''joe!j@host.example''"
     "\<lparr>iu_id = Some 1, iu_auth = [(1000, ''joe!j@host.example'')], iu_name = ''joe'', iu_ignore = False,
      iu_secure = False, iu_hashed = False, iu_password = ''x'', iu_capabilities = [],
      iu_hostmasks = [''*!j@*.example'']\<rparr>"]
  show ?thesis by simp
qed

end
