(* ===== verification/Unpreserve.thy ===== *)
theory Unpreserve
  imports PyString
begin

text \<open>
  \<open>unpreserve.py\<close>: the reader of the indented text files the databases are kept in.  A file is a
  sequence of blocks of equally indented lines; each block is given to a new \<open>Creator\<close>, one method
  call per line, and \<open>finish\<close> is called when the indentation changes.

  The class of the creator is a record of its three operations over a world \<open>'w\<close> (the database, the
  creator's own fields and its class variables).  A text file is one string; its lines end in a
  newline.
\<close>

section \<open>Text files\<close>

definition newline :: char where
  "newline = CHR 0x0A"

text \<open>What a sequence of \<open>fd.write(s); fd.write(os.linesep)\<close> leaves in the file.\<close>

definition file_text :: "string list \<Rightarrow> string" where
  "file_text ls = concat (map (\<lambda>l. l @ [newline]) ls)"

text \<open>The lines an iteration over the file yields, without their newlines.\<close>

definition file_lines :: "string \<Rightarrow> string list" where
  "file_lines t = (let ls = split_char newline t in if last ls = [] then butlast ls else ls)"

text \<open>\<open>s.expandtabs()\<close>, with the current column as an argument.\<close>

fun expandtabs :: "nat \<Rightarrow> string \<Rightarrow> string" where
  "expandtabs col [] = []"
| "expandtabs col (c # cs) =
     (if c = CHR 0x09 then replicate (8 - col mod 8) CHR '' '' @ expandtabs 0 cs
      else if c = newline \<or> c = CHR 0x0D then c # expandtabs 0 cs
      else c # expandtabs (Suc col) cs)"

section \<open>Reader\<close>

record 'w Creator =
  cr_new :: "('w, unit) act"
  cr_finish :: "('w, unit) act"
  cr_command :: "string \<Rightarrow> string \<Rightarrow> ('w, unit) act"

record 'w Reader =
  rd_world :: 'w
  rd_creator :: bool
  rd_modifiedCreator :: bool
  rd_indent :: "int option"

definition Reader_new :: "'w \<Rightarrow> 'w Reader" where
  "Reader_new w = \<lparr>rd_world = w, rd_creator = False, rd_modifiedCreator = False, rd_indent = None\<rparr>"

text \<open>A method of the current creator, run on the world.\<close>

definition on_world :: "('w, 'a) act \<Rightarrow> ('w Reader, 'a) act" where
  "on_world m = (\<lambda>r. case m (rd_world r) of (x, w) \<Rightarrow> (x, r\<lparr>rd_world := w\<rparr>))"

definition Reader_normalizeCommand :: "string \<Rightarrow> string" where
  "Reader_normalizeCommand s = py_lower s"

text \<open>The block of a line: a new indentation finishes the old creator and makes a new one.\<close>

definition Reader_indentation :: "'w Creator \<Rightarrow> int \<Rightarrow> ('w Reader, unit) act" where
  "Reader_indentation C indent =
     bindA (getA (\<lambda>r. rd_indent r = Some indent)) (\<lambda>same.
       if same then retA ()
       else seqA (bindA (getA rd_creator) (\<lambda>has. if has then on_world (cr_finish C) else retA ()))
           (seqA (on_world (cr_new C))
             (modifyA (\<lambda>r. r\<lparr>rd_creator := True, rd_modifiedCreator := False, rd_indent := Some indent\<rparr>))))"

text \<open>The body of the loop over the lines.\<close>

definition Reader_line :: "'w Creator \<Rightarrow> string \<Rightarrow> ('w Reader, unit) act" where
  "Reader_line C line =
     (if strip_ws line = [] then retA ()
      else
        let l = expandtabs 0 (rstrip_in [CHR 0x0D, newline] line);
            s = lstrip_in '' '' l;
            indent = int (length l) - int (length s)
        in seqA (Reader_indentation C indent)
             (case split_ws1 s of
                [command, rest] \<Rightarrow>
                  seqA (modifyA (\<lambda>r. r\<lparr>rd_modifiedCreator := True\<rparr>))
                    (on_world (cr_command C (Reader_normalizeCommand command) rest))
              | _ \<Rightarrow> raiseA ValueError))"

definition Reader_read :: "'w Creator \<Rightarrow> string list \<Rightarrow> ('w Reader, unit) act" where
  "Reader_read C ls =
     seqA (forA (Reader_line C) ls)
       (bindA (getA rd_modifiedCreator) (\<lambda>modified. if modified then on_world (cr_finish C) else retA ()))"

text \<open>\<open>Reader(C).readFile(filename)\<close> on the text of the file; \<open>None\<close> when there is no such file.\<close>

definition Reader_readFile :: "'w Creator \<Rightarrow> string option \<Rightarrow> ('w, unit) act" where
  "Reader_readFile C text = (\<lambda>w.
     (case text of
        None \<Rightarrow> (Inl EnvironmentError, w)
      | Some t \<Rightarrow> (case Reader_read C (file_lines t) (Reader_new w) of (x, r) \<Rightarrow> (x, rd_world r))))"

section \<open>Laws\<close>

lemma split_char_lines:
  assumes "\<forall>l \<in> set ls. c \<notin> set l"
  shows "split_char c (concat (map (\<lambda>l. l @ [c]) ls)) = ls @ [[]]"
  using assms
proof (induction ls)
  case (Cons l ls)
  have "split_char c (l @ c # t) = l # split_char c t" if "c \<notin> set l" for l t
    using that by (induction l) auto
  with Cons show ?case by simp
qed simp

text \<open>Lines written to a file are the lines read from it.\<close>

lemma file_lines_text: "\<forall>l \<in> set ls. newline \<notin> set l \<Longrightarrow> file_lines (file_text ls) = ls"
  by (simp add: file_lines_def file_text_def split_char_lines)

lemma file_text_append: "file_text (xs @ ys) = file_text xs @ file_text ys"
  by (simp add: file_text_def)

text \<open>A line without tabs and carriage returns reaches the creator as it is.\<close>

definition plain_char :: "char \<Rightarrow> bool" where
  "plain_char c \<longleftrightarrow> c \<noteq> CHR 0x09 \<and> c \<noteq> newline \<and> c \<noteq> CHR 0x0D"

lemma expandtabs_plain: "\<forall>c \<in> set s. plain_char c \<Longrightarrow> expandtabs col s = s"
  by (induction s arbitrary: col) (auto simp: plain_char_def)

lemma rstrip_in_plain:
  assumes "\<forall>c \<in> set s. c \<notin> set cs"
  shows "rstrip_in cs s = s"
proof -
  have "\<forall>c \<in> set (rev s). c \<notin> set cs" using assms by simp
  then have "dropWhile (\<lambda>c. c \<in> set cs) (rev s) = rev s"
    by (cases "rev s") (simp_all del: set_rev)
  then show ?thesis by (simp add: rstrip_in_def)
qed

lemma Reader_line_plain:
  assumes cmd: "cmd \<noteq> []" "no_space cmd" "\<forall>c \<in> set cmd. plain_char c"
    and rest: "rest \<noteq> []" "\<not> is_space (hd rest)" "\<forall>c \<in> set rest. plain_char c"
  shows "Reader_line C (replicate n CHR '' '' @ cmd @ CHR '' '' # rest) =
    seqA (Reader_indentation C (int n))
      (seqA (modifyA (\<lambda>r. r\<lparr>rd_modifiedCreator := True\<rparr>))
        (on_world (cr_command C (py_lower cmd) rest)))"
proof -
  let ?s = "cmd @ CHR '' '' # rest" and ?l = "replicate n CHR '' '' @ cmd @ CHR '' '' # rest"
  have sp: "plain_char CHR '' ''" by (simp add: plain_char_def newline_def)
  have all: "\<forall>c \<in> set ?l. plain_char c" using cmd(3) rest(3) sp by auto
  have r: "rstrip_in [CHR 0x0D, newline] ?l = ?l"
    by (rule rstrip_in_plain) (use all in \<open>auto simp: plain_char_def\<close>)
  have hd: "hd cmd \<noteq> CHR '' ''" using cmd by (cases cmd) (auto simp: is_space_def)
  then have s: "lstrip_in '' '' ?l = ?s"
    using cmd(1) unfolding lstrip_in_def by (induction n) (cases cmd, auto)
  have "rev (skip_ws ?l) \<noteq> [] \<and> \<not> (\<forall>c \<in> set (skip_ws ?l). is_space c)"
  proof -
    have "skip_ws ?l = ?s"
      using cmd(1,2) by (induction n) (cases cmd, auto simp: is_space_def)
    then show ?thesis using cmd(1,2) by (cases cmd) auto
  qed
  then have ne: "strip_ws ?l \<noteq> []"
    by (auto simp: strip_ws_def skip_ws_eq_Nil_iff)
  have "split_ws1 ?s = [cmd, rest]"
    using split_ws1_word(2) [OF cmd(1,2), of "CHR '' ''" rest] rest by (simp add: is_space_def)
  with ne r s expandtabs_plain [OF all, of 0] show ?thesis
    by (simp add: Reader_line_def Let_def Reader_normalizeCommand_def)
qed

section \<open>The interface of a creator\<close>

text \<open>A text that starts with a visible character, as every word of a line of the file does.\<close>

definition visible :: "string \<Rightarrow> bool" where
  "visible h \<longleftrightarrow> h \<noteq> [] \<and> \<not> is_space (hd h)"

lemma split_ws1_visible: "split_ws1 s = [c, r] \<Longrightarrow> visible r"
proof -
  have "skip_ws t \<noteq> [] \<Longrightarrow> \<not> is_space (hd (skip_ws t))" for t
    by (induction t) auto
  moreover assume "split_ws1 s = [c, r]"
  ultimately show ?thesis by (auto simp: split_ws1_def Let_def visible_def split: if_splits)
qed

text \<open>
  What a database relies on when its file is read: an invariant of the world that the three
  operations of the creator keep is kept by the reader, whatever the file holds and wherever the
  reading ends.
\<close>

locale creator_invariant =
  fixes P :: "'w \<Rightarrow> bool" and C :: "'w Creator"
  assumes new: "keepsA P (cr_new C)"
    and finish: "keepsA P (cr_finish C)"
    and command: "visible rest \<Longrightarrow> keepsA P (cr_command C cmd rest)"
begin

lemma on_world_keeps: "keepsA P m \<Longrightarrow> keepsA (\<lambda>r. P (rd_world r)) (on_world m)"
  by (auto simp: keepsA_def on_world_def split: prod.split)

lemma indentation_keeps: "keepsA (\<lambda>r. P (rd_world r)) (Reader_indentation C i)"
  unfolding Reader_indentation_def
  by (intro wf_intros on_world_keeps new finish) simp

lemma line_keeps: "keepsA (\<lambda>r. P (rd_world r)) (Reader_line C l)"
  unfolding Reader_line_def Let_def
  by (auto intro!: wf_intros indentation_keeps on_world_keeps command dest: split_ws1_visible split: list.split)

lemma read_keeps: "keepsA (\<lambda>r. P (rd_world r)) (Reader_read C ls)"
  unfolding Reader_read_def by (intro wf_intros line_keeps on_world_keeps finish)

lemma readFile_keeps: "P w \<Longrightarrow> P (snd (Reader_readFile C text w))"
proof (cases "text")
  case (Some t)
  assume "P w"
  obtain x r where run: "Reader_read C (file_lines t) (Reader_new w) = (x, r)" by fastforce
  from keepsAD [OF read_keeps _ run] \<open>P w\<close> have "P (rd_world r)" by (simp add: Reader_new_def)
  with Some run show ?thesis by (simp add: Reader_readFile_def)
qed (simp add: Reader_readFile_def)

end

end
