(* ===== verification/UsersDb.thy ===== *)
theory UsersDb
  imports IrcUsers Structures Unpreserve
begin

text \<open>
  \<open>UsersDictionary\<close> and \<open>IrcUserCreator\<close> of \<open>ircdb.py\<close>: the table of users, the two caches in front of
  its name and hostmask lookups, and the file it is kept in.

  A cache maps a name or hostmask to an id and an id back to its name, or to the set of its
  hostmasks, in one \<open>CacheDict\<close>; keys and values are sums of the two types.  \<open>ud_disk\<close> is the file
  system the object writes to.  \<open>tmo\<close> and \<open>now\<close> are the timeout of an identification and the clock.
  Python shares the \<open>IrcUser\<close> objects between the table and the plugins: the method of a user that
  is in the table is \<open>UsersDictionary_edit\<close>.  Every value of the table is an \<open>IrcUser\<close>, so the
  \<open>isinstance(u, int)\<close> loop of \<open>getUser\<close> does not run.
\<close>

type_synonym 'v id_cache = "(string + int, int + 'v) CacheDict"

record UsersDictionary =
  ud_noFlush :: bool
  ud_filename :: "string option"
  ud_users :: "(int, IrcUser) dict"
  ud_nextId :: int
  ud_nameCache :: "string id_cache"
  ud_hostmaskCache :: "string list id_cache"
  ud_disk :: "(string, string) dict"

type_synonym 'a users_act = "(UsersDictionary, 'a) act"

definition UsersDictionary_new :: "(string, string) dict \<Rightarrow> UsersDictionary" where
  "UsersDictionary_new disk =
     \<lparr>ud_noFlush = False, ud_filename = None, ud_users = [], ud_nextId = 0,
      ud_nameCache = CacheDict_new 1000, ud_hostmaskCache = CacheDict_new 1000, ud_disk = disk\<rparr>"

section \<open>The caches\<close>

text \<open>\<open>cache[s]\<close> for a string: the id; \<open>cache[id]\<close>: the name or the set of hostmasks.\<close>

definition cache_id :: "'v id_cache \<Rightarrow> string \<Rightarrow> int res" where
  "cache_id c s = bindR (CacheDict_getitem c (Inl s)) (\<lambda>v. case v of Inl i \<Rightarrow> Inr i | Inr _ \<Rightarrow> Inl TypeError)"

definition cache_back :: "'v id_cache \<Rightarrow> int \<Rightarrow> 'v res" where
  "cache_back c i = bindR (CacheDict_getitem c (Inr i)) (\<lambda>v. case v of Inr x \<Rightarrow> Inr x | Inl _ \<Rightarrow> Inl TypeError)"

text \<open>A method of a set that is in the cache: the set changes, the dictionary does not.\<close>

definition cache_update :: "int \<Rightarrow> 'v \<Rightarrow> 'v id_cache \<Rightarrow> 'v id_cache" where
  "cache_update i x c = c\<lparr>cd_d := dict_set (Inr i) (Inr x) (cd_d c)\<rparr>"

definition cache_has :: "'v id_cache \<Rightarrow> string + int \<Rightarrow> bool" where
  "cache_has c k = dict_has (cd_d c) k"

definition setNameCache :: "string id_cache \<Rightarrow> unit users_act" where
  "setNameCache c = modifyA (\<lambda>d. d\<lparr>ud_nameCache := c\<rparr>)"

definition setHostmaskCache :: "string list id_cache \<Rightarrow> unit users_act" where
  "setHostmaskCache c = modifyA (\<lambda>d. d\<lparr>ud_hostmaskCache := c\<rparr>)"

text \<open>\<open>del cache[k]\<close>.\<close>

definition delNameCache :: "string + int \<Rightarrow> unit users_act" where
  "delNameCache k = bindA (getA ud_nameCache) (\<lambda>c. bindA (liftA (CacheDict_delitem c k)) setNameCache)"

definition delHostmaskCache :: "string + int \<Rightarrow> unit users_act" where
  "delHostmaskCache k = bindA (getA ud_hostmaskCache) (\<lambda>c. bindA (liftA (CacheDict_delitem c k)) setHostmaskCache)"

text \<open>\<open>del self._nameCache[self._nameCache[id]]; del self._nameCache[id]\<close>.\<close>

definition dropName :: "int \<Rightarrow> unit users_act" where
  "dropName i =
     bindA (getA ud_nameCache) (\<lambda>c. bindA (liftA (cache_back c i)) (\<lambda>s.
       seqA (delNameCache (Inl s)) (delNameCache (Inr i))))"

definition dropHostmasks :: "int \<Rightarrow> unit users_act" where
  "dropHostmasks i =
     bindA (getA ud_hostmaskCache) (\<lambda>c. bindA (liftA (cache_back c i)) (\<lambda>hs.
       seqA (forA (\<lambda>h. delHostmaskCache (Inl h)) hs) (delHostmaskCache (Inr i))))"

definition invalidate_id :: "int \<Rightarrow> unit users_act" where
  "invalidate_id i =
     seqA (bindA (getA (\<lambda>d. cache_has (ud_nameCache d) (Inr i))) (\<lambda>b. if b then dropName i else retA ()))
       (bindA (getA (\<lambda>d. cache_has (ud_hostmaskCache d) (Inr i))) (\<lambda>b. if b then dropHostmasks i else retA ()))"

text \<open>
  The \<open>hostmask\<close> branch of \<open>invalidateCache\<close>: the id the hostmask was cached for, which the
  following branches then use.
\<close>

definition invalidate_hostmask :: "int option \<Rightarrow> string \<Rightarrow> int option users_act" where
  "invalidate_hostmask oid hostmask =
     bindA (getA ud_hostmaskCache) (\<lambda>c.
       if \<not> cache_has c (Inl hostmask) then retA oid
       else bindA (liftA (cache_id c hostmask)) (\<lambda>i.
         seqA (delHostmaskCache (Inl hostmask))
         (bindA (getA ud_hostmaskCache) (\<lambda>c'.
           bindA (liftA (cache_back c' i)) (\<lambda>hs.
             if hostmask \<notin> set hs then raiseA KeyError
             else let hs' = removeAll hostmask hs in
               seqA (setHostmaskCache (cache_update i hs' c'))
                 (seqA (if hs' = [] then delHostmaskCache (Inr i) else retA ()) (retA (Some i))))))))"

definition UsersDictionary_invalidateCache :: "int option \<Rightarrow> string option \<Rightarrow> string option \<Rightarrow> unit users_act" where
  "UsersDictionary_invalidateCache oid hostmask nm =
     bindA (case hostmask of None \<Rightarrow> retA oid | Some h \<Rightarrow> invalidate_hostmask oid h) (\<lambda>oid'.
       seqA (case (nm, oid') of
               (None, _) \<Rightarrow> retA ()
             | (Some _, None) \<Rightarrow> raiseA KeyError
             | (Some _, Some i) \<Rightarrow> dropName i)
         (case oid' of None \<Rightarrow> retA () | Some i \<Rightarrow> invalidate_id i))"

section \<open>Lookups\<close>

text \<open>
  One pass of \<open>checkHostmask\<close> over the table: the ids that match, each with what matched, and the
  table afterwards (expired identifications are dropped on the way).
\<close>

definition match_users :: "int \<Rightarrow> int \<Rightarrow> string \<Rightarrow> (int, IrcUser) dict \<Rightarrow> (int \<times> hostmask_match) list" where
  "match_users tmo now s us =
     filter (\<lambda>(i, m). match_true m) (map (\<lambda>(i, u). (i, fst (IrcUser_checkHostmask tmo now s True u))) us)"

definition expire_users :: "int \<Rightarrow> int \<Rightarrow> string \<Rightarrow> (int, IrcUser) dict \<Rightarrow> (int, IrcUser) dict" where
  "expire_users tmo now s us = map (\<lambda>(i, u). (i, snd (IrcUser_checkHostmask tmo now s True u))) us"

text \<open>The value of \<open>checkHostmask\<close> as the hostmask to remove: \<open>True\<close> is turned into a string.\<close>

fun match_text :: "hostmask_match \<Rightarrow> string" where
  "match_text AuthMatch = ''True''"
| "match_text (PatMatch p) = p"
| "match_text NoMatch = ''False''"

text \<open>A method of the user \<open>i\<close>, run on the object that is in the table.\<close>

definition UsersDictionary_edit :: "int \<Rightarrow> (IrcUser \<Rightarrow> IrcUser res) \<Rightarrow> unit users_act" where
  "UsersDictionary_edit i f =
     bindA (getA ud_users) (\<lambda>us. bindA (liftA (dict_item us i)) (\<lambda>u. bindA (liftA (f u)) (\<lambda>u'.
       modifyA (\<lambda>d. d\<lparr>ud_users := dict_set i u' us\<rparr>))))"

definition hostmask_lookup :: "int \<Rightarrow> int \<Rightarrow> string \<Rightarrow> int users_act" where
  "hostmask_lookup tmo now s =
     bindA (getA ud_users) (\<lambda>us.
       seqA (modifyA (\<lambda>d. d\<lparr>ud_users := expire_users tmo now s us\<rparr>))
         (case match_users tmo now s us of
            [] \<Rightarrow> raiseA KeyError
          | [(i, _)] \<Rightarrow>
              bindA (getA ud_hostmaskCache) (\<lambda>c.
                let c1 = CacheDict_setitem c (Inl s) (Inl i) in
                seqA (setHostmaskCache (case cache_back c1 i of
                        Inr hs \<Rightarrow> cache_update i (List.insert s hs) c1
                      | Inl _ \<Rightarrow> CacheDict_setitem c1 (Inr i) (Inr [s])))
                  (retA i))
          | ids \<Rightarrow>
              seqA (forA (\<lambda>(i, m). UsersDictionary_edit i (IrcUser_removeHostmask (match_text m))) ids)
                (raiseA DuplicateHostmask)))"

definition name_lookup :: "string \<Rightarrow> int users_act" where
  "name_lookup s =
     bindA (getA ud_users) (\<lambda>us.
       case find (\<lambda>(i, u). s = py_lower (iu_name u)) us of
         None \<Rightarrow> raiseA KeyError
       | Some (i, _) \<Rightarrow>
           bindA (getA ud_nameCache) (\<lambda>c.
             seqA (setNameCache (CacheDict_setitem (CacheDict_setitem c (Inl s) (Inl i)) (Inr i) (Inr s)))
               (retA i)))"

definition UsersDictionary_getUserId :: "int \<Rightarrow> int \<Rightarrow> string \<Rightarrow> int users_act" where
  "UsersDictionary_getUserId tmo now s =
     (if isUserHostmask s then
        bindA (getA ud_hostmaskCache) (\<lambda>c.
          case cache_id c s of Inl KeyError \<Rightarrow> hostmask_lookup tmo now s | r \<Rightarrow> liftA r)
      else
        bindA (getA ud_nameCache) (\<lambda>c.
          case cache_id c (py_lower s) of Inl KeyError \<Rightarrow> name_lookup (py_lower s) | r \<Rightarrow> liftA r))"

datatype user_key = ById int | ByText string

definition UsersDictionary_getUser :: "int \<Rightarrow> int \<Rightarrow> user_key \<Rightarrow> IrcUser users_act" where
  "UsersDictionary_getUser tmo now key =
     bindA (case key of ById i \<Rightarrow> retA i | ByText s \<Rightarrow> UsersDictionary_getUserId tmo now s) (\<lambda>i.
       seqA (UsersDictionary_edit i (\<lambda>u. Inr (u\<lparr>iu_id := Some i\<rparr>)))
         (bindA (getA ud_users) (\<lambda>us. liftA (dict_item us i))))"

definition UsersDictionary_hasUser :: "int \<Rightarrow> int \<Rightarrow> user_key \<Rightarrow> bool users_act" where
  "UsersDictionary_hasUser tmo now key = (\<lambda>d.
     (case UsersDictionary_getUser tmo now key d of
        (Inr _, d') \<Rightarrow> (Inr True, d')
      | (Inl e, d') \<Rightarrow> (if e = KeyError then Inr False else Inl e, d')))"

definition UsersDictionary_numUsers :: "UsersDictionary \<Rightarrow> nat" where
  "UsersDictionary_numUsers d = length (ud_users d)"

definition UsersDictionary_iteritems :: "UsersDictionary \<Rightarrow> (int \<times> IrcUser) list" where
  "UsersDictionary_iteritems d = ud_users d"

section \<open>The file\<close>

definition users_text :: "(int, IrcUser) dict \<Rightarrow> string" where
  "users_text us = file_text (concat (map (\<lambda>(i, u). (''user '' @ str_of_int i) # IrcUser_preserve ''  '' u) (sort_key fst us)))"

definition UsersDictionary_flush :: "UsersDictionary \<Rightarrow> UsersDictionary" where
  "UsersDictionary_flush d =
     (if ud_noFlush d then d
      else case ud_filename d of
        None \<Rightarrow> d
      | Some f \<Rightarrow> d\<lparr>ud_disk := dict_set f (users_text (ud_users d)) (ud_disk d)\<rparr>)"

definition UsersDictionary_close :: "UsersDictionary \<Rightarrow> UsersDictionary" where
  "UsersDictionary_close d = (UsersDictionary_flush d)\<lparr>ud_users := []\<rparr>"

section \<open>Changes\<close>

text \<open>
  The loop of \<open>setUser\<close> over the hostmasks of the user and the other users.  \<open>checkHostmask\<close> may
  drop expired identifications of the other users; the loop ends with the first collision.
\<close>

fun collide_users :: "int \<Rightarrow> int \<Rightarrow> int \<Rightarrow> string \<Rightarrow> (int, IrcUser) dict \<Rightarrow> bool \<times> (int, IrcUser) dict" where
  "collide_users tmo now i h [] = (False, [])"
| "collide_users tmo now i h ((j, u) # us) =
     (if j = i then (case collide_users tmo now i h us of (b, us') \<Rightarrow> (b, (j, u) # us'))
      else case IrcUser_checkHostmask tmo now h True u of (m, u') \<Rightarrow>
        if match_true m then (True, (j, u') # us)
        else if \<exists>other \<in> set (iu_hostmasks u'). patternEqual h other then (True, (j, u') # us)
        else case collide_users tmo now i h us of (b, us') \<Rightarrow> (b, (j, u') # us'))"

definition hostmask_free :: "int \<Rightarrow> int \<Rightarrow> int \<Rightarrow> string \<Rightarrow> unit users_act" where
  "hostmask_free tmo now i h =
     bindA (getA ud_users) (\<lambda>us. case collide_users tmo now i h us of (b, us') \<Rightarrow>
       seqA (modifyA (\<lambda>d. d\<lparr>ud_users := us'\<rparr>)) (if b then raiseA DuplicateHostmask else retA ()))"

text \<open>
  \<open>setUser\<close>.  \<open>raise DuplicateHostmask, hostmask\<close> in the name check reads a local variable that is
  bound only by the loop below it.
\<close>

definition name_free :: "int \<Rightarrow> int \<Rightarrow> int \<Rightarrow> string \<Rightarrow> unit users_act" where
  "name_free tmo now i nm = (\<lambda>d.
     (case UsersDictionary_getUserId tmo now nm d of
        (Inr j, d') \<Rightarrow> if j \<noteq> i then (Inl UnboundLocalError, d') else (Inr (), d')
      | (Inl e, d') \<Rightarrow> if e = KeyError then (Inr (), d') else (Inl e, d')))"

definition UsersDictionary_setUser :: "int \<Rightarrow> int \<Rightarrow> IrcUser \<Rightarrow> bool \<Rightarrow> unit users_act" where
  "UsersDictionary_setUser tmo now u doFlush =
     (case iu_id u of
        None \<Rightarrow> raiseA TypeError
      | Some i \<Rightarrow>
          seqA (modifyA (\<lambda>d. d\<lparr>ud_nextId := max (ud_nextId d) i\<rparr>))
            (seqA (name_free tmo now i (iu_name u))
              (seqA (forA (hostmask_free tmo now i) (iu_hostmasks u))
                (seqA (UsersDictionary_invalidateCache (Some i) None None)
                  (seqA (modifyA (\<lambda>d. d\<lparr>ud_users := dict_set i u (ud_users d)\<rparr>))
                    (if doFlush then modifyA UsersDictionary_flush else retA ()))))))"

definition UsersDictionary_delUser :: "int \<Rightarrow> unit users_act" where
  "UsersDictionary_delUser i =
     bindA (getA ud_users) (\<lambda>us. bindA (liftA (dict_del i us)) (\<lambda>us'.
       seqA (modifyA (\<lambda>d. d\<lparr>ud_users := us'\<rparr>))
         (seqA (invalidate_id i) (modifyA UsersDictionary_flush))))"

text \<open>\<open>newUser\<close>: the file is written before the id is put into the new object, and before it has a name.\<close>

definition UsersDictionary_newUser :: "IrcUser users_act" where
  "UsersDictionary_newUser =
     bindA (liftA (IrcUser_new False [] [] [] None False True)) (\<lambda>u.
       seqA (modifyA (\<lambda>d. d\<lparr>ud_nextId := ud_nextId d + 1\<rparr>))
         (bindA (getA ud_nextId) (\<lambda>i.
           seqA (modifyA (\<lambda>d. d\<lparr>ud_users := dict_set i u (ud_users d)\<rparr>))
             (seqA (modifyA UsersDictionary_flush)
               (seqA (UsersDictionary_edit i (\<lambda>u. Inr (u\<lparr>iu_id := Some i\<rparr>)))
                 (retA (u\<lparr>iu_id := Some i\<rparr>)))))))"

text \<open>\<open>IrcUser.clearAuth\<close> of the user \<open>i\<close>: it invalidates the cache entries of its hostmasks.\<close>

definition IrcUser_clearAuth :: "int \<Rightarrow> unit users_act" where
  "IrcUser_clearAuth i =
     bindA (getA ud_users) (\<lambda>us. bindA (liftA (dict_item us i)) (\<lambda>u.
       seqA (forA (\<lambda>(at, h). UsersDictionary_invalidateCache None (Some h) None) (iu_auth u))
         (UsersDictionary_edit i (\<lambda>u. Inr (u\<lparr>iu_auth := []\<rparr>)))))"

section \<open>Reading the file\<close>

text \<open>
  \<open>IrcUserCreator\<close> works on the database and on its class variable \<open>u\<close>.  \<open>ev\<close> is \<open>bool(eval(rest))\<close>.
  A command that names another attribute of the creator calls something that does not take these
  arguments; an unknown one is a bad command.
\<close>

record users_world =
  uw_db :: UsersDictionary
  uw_u :: "IrcUser option"

definition IrcUserCreator_init :: "(users_world, unit) act" where
  "IrcUserCreator_init =
     bindA (getA uw_u) (\<lambda>u. case u of
       Some _ \<Rightarrow> retA ()
     | None \<Rightarrow> bindA (liftA (IrcUser_new False [] [] [] None False False)) (\<lambda>u.
         modifyA (\<lambda>w. w\<lparr>uw_u := Some u\<rparr>)))"

text \<open>A method that changes \<open>self.u\<close>; when there is none, \<open>None\<close> has no attributes.\<close>

definition creator_change :: "(IrcUser \<Rightarrow> IrcUser res) \<Rightarrow> (users_world, unit) act" where
  "creator_change f =
     bindA (getA uw_u) (\<lambda>u. case u of
       None \<Rightarrow> raiseA AttributeError
     | Some u \<Rightarrow> bindA (liftA (f u)) (\<lambda>u'. modifyA (\<lambda>w. w\<lparr>uw_u := Some u'\<rparr>)))"

definition IrcUserCreator_user :: "string \<Rightarrow> IrcUser \<Rightarrow> IrcUser res" where
  "IrcUserCreator_user rest u =
     (if iu_id u \<noteq> None then Inl ValueError
      else bindR (int_of_str rest) (\<lambda>i. Inr (u\<lparr>iu_id := Some i\<rparr>)))"

definition IrcUserCreator_checkId :: "(IrcUser \<Rightarrow> IrcUser res) \<Rightarrow> IrcUser \<Rightarrow> IrcUser res" where
  "IrcUserCreator_checkId f u = (if iu_id u = None then Inl ValueError else f u)"

definition IrcUserCreator_name :: "string \<Rightarrow> IrcUser \<Rightarrow> IrcUser res" where
  "IrcUserCreator_name rest = IrcUserCreator_checkId (\<lambda>u. Inr (u\<lparr>iu_name := rest\<rparr>))"

definition IrcUserCreator_ignore :: "(string \<Rightarrow> bool res) \<Rightarrow> string \<Rightarrow> IrcUser \<Rightarrow> IrcUser res" where
  "IrcUserCreator_ignore ev rest =
     IrcUserCreator_checkId (\<lambda>u. bindR (ev rest) (\<lambda>b. Inr (u\<lparr>iu_ignore := b\<rparr>)))"

definition IrcUserCreator_secure :: "(string \<Rightarrow> bool res) \<Rightarrow> string \<Rightarrow> IrcUser \<Rightarrow> IrcUser res" where
  "IrcUserCreator_secure ev rest =
     IrcUserCreator_checkId (\<lambda>u. bindR (ev rest) (\<lambda>b. Inr (u\<lparr>iu_secure := b\<rparr>)))"

definition IrcUserCreator_hashed :: "(string \<Rightarrow> bool res) \<Rightarrow> string \<Rightarrow> IrcUser \<Rightarrow> IrcUser res" where
  "IrcUserCreator_hashed ev rest =
     IrcUserCreator_checkId (\<lambda>u. bindR (ev rest) (\<lambda>b. Inr (u\<lparr>iu_hashed := b\<rparr>)))"

definition IrcUserCreator_password :: "string \<Rightarrow> IrcUser \<Rightarrow> IrcUser res" where
  "IrcUserCreator_password rest = IrcUserCreator_checkId (\<lambda>u. Inr (u\<lparr>iu_password := rest\<rparr>))"

definition IrcUserCreator_hostmask :: "string \<Rightarrow> IrcUser \<Rightarrow> IrcUser res" where
  "IrcUserCreator_hostmask rest =
     IrcUserCreator_checkId (\<lambda>u. Inr (u\<lparr>iu_hostmasks := ircset_add rest (iu_hostmasks u)\<rparr>))"

definition IrcUserCreator_capability :: "string \<Rightarrow> IrcUser \<Rightarrow> IrcUser res" where
  "IrcUserCreator_capability rest = IrcUserCreator_checkId (IrcUser_addCapability rest)"

definition IrcUserCreator_command :: "(string \<Rightarrow> bool res) \<Rightarrow> string \<Rightarrow> string \<Rightarrow> (users_world, unit) act" where
  "IrcUserCreator_command ev command rest =
     (if command = ''user'' then creator_change (IrcUserCreator_user rest)
      else if command = ''name'' then creator_change (IrcUserCreator_name rest)
      else if command = ''ignore'' then creator_change (IrcUserCreator_ignore ev rest)
      else if command = ''secure'' then creator_change (IrcUserCreator_secure ev rest)
      else if command = ''hashed'' then creator_change (IrcUserCreator_hashed ev rest)
      else if command = ''password'' then creator_change (IrcUserCreator_password rest)
      else if command = ''hostmask'' then creator_change (IrcUserCreator_hostmask rest)
      else if command = ''capability'' then creator_change (IrcUserCreator_capability rest)
      else if command \<in> {''finish'', ''u'', ''users''} then raiseA TypeError
      else raiseA ValueError)"

text \<open>A method of the database, run from the creator.\<close>

definition on_db :: "'a users_act \<Rightarrow> (users_world, 'a) act" where
  "on_db m = (\<lambda>w. case m (uw_db w) of (x, d) \<Rightarrow> (x, w\<lparr>uw_db := d\<rparr>))"

definition IrcUserCreator_finish :: "int \<Rightarrow> int \<Rightarrow> (users_world, unit) act" where
  "IrcUserCreator_finish tmo now = (\<lambda>w.
     (case uw_u w of
        None \<Rightarrow> (Inl AttributeError, w)
      | Some u \<Rightarrow>
          if iu_name u = [] then (Inr (), w)
          else (case on_db (UsersDictionary_setUser tmo now u True) w of
              (Inr _, w') \<Rightarrow> (Inr (), w'\<lparr>uw_u := None\<rparr>)
            | (Inl e, w') \<Rightarrow>
                if e \<noteq> DuplicateHostmask then (Inl e, w')
                else let u' = u\<lparr>iu_hostmasks := []\<rparr> in
                  (case on_db (UsersDictionary_setUser tmo now u' True) (w'\<lparr>uw_u := Some u'\<rparr>) of
                     (Inr _, w'') \<Rightarrow> (Inr (), w''\<lparr>uw_u := None\<rparr>)
                   | (Inl e', w'') \<Rightarrow> (Inl e', w'')))))"

definition IrcUserCreator :: "(string \<Rightarrow> bool res) \<Rightarrow> int \<Rightarrow> int \<Rightarrow> users_world Creator" where
  "IrcUserCreator ev tmo now =
     \<lparr>cr_new = IrcUserCreator_init, cr_finish = IrcUserCreator_finish tmo now,
      cr_command = IrcUserCreator_command ev\<rparr>"

text \<open>\<open>open\<close>: every exception of the reader is logged, none leaves.\<close>

definition UsersDictionary_open :: "(string \<Rightarrow> bool res) \<Rightarrow> int \<Rightarrow> int \<Rightarrow> string \<Rightarrow> users_world \<Rightarrow> users_world" where
  "UsersDictionary_open ev tmo now filename w =
     (let d = (uw_db w)\<lparr>ud_filename := Some filename, ud_noFlush := True\<rparr>;
          (r, w1) = Reader_readFile (IrcUserCreator ev tmo now) (dict_get (ud_disk d) filename) (w\<lparr>uw_db := d\<rparr>);
          d1 = (uw_db w1)\<lparr>ud_noFlush := False\<rparr>
      in w1\<lparr>uw_db := (if isl r then d1 else UsersDictionary_flush d1)\<rparr>)"

definition UsersDictionary_reload :: "(string \<Rightarrow> bool res) \<Rightarrow> int \<Rightarrow> int \<Rightarrow> users_world \<Rightarrow> users_world" where
  "UsersDictionary_reload ev tmo now w =
     (let d = (uw_db w)\<lparr>ud_nextId := 0, ud_users := [],
                ud_nameCache := (ud_nameCache (uw_db w))\<lparr>cd_d := []\<rparr>,
                ud_hostmaskCache := (ud_hostmaskCache (uw_db w))\<lparr>cd_d := []\<rparr>\<rparr>
      in case ud_filename d of
           None \<Rightarrow> w\<lparr>uw_db := d\<rparr>
         | Some f \<Rightarrow> UsersDictionary_open ev tmo now f (w\<lparr>uw_db := d\<rparr>))"

end
