(* ===== verification/UsersDbLaws.thy ===== *)
theory UsersDbLaws
  imports UsersDb
begin

text \<open>
  The laws of the user database: the hostmasks of different users never overlap, whatever the
  sequence of operations; what a lookup, a rename and a full cache do to the caches; and what the
  file keeps of the table.
\<close>

section \<open>Hostmasks of different users\<close>

text \<open>No hostmask of a user matches a hostmask of another one.\<close>

definition hostmasks_disjoint :: "(int, IrcUser) dict \<Rightarrow> bool" where
  "hostmasks_disjoint us \<longleftrightarrow>
     (\<forall>i j u v. map_of us i = Some u \<longrightarrow> map_of us j = Some v \<longrightarrow> i \<noteq> j \<longrightarrow>
        (\<forall>h \<in> set (iu_hostmasks u). \<forall>p \<in> set (iu_hostmasks v). \<not> patternEqual p h))"

text \<open>What every operation except \<open>setUser\<close> does to the hostmasks: users keep theirs or lose some.\<close>

definition hostmasks_within :: "(int, IrcUser) dict \<Rightarrow> (int, IrcUser) dict \<Rightarrow> bool" where
  "hostmasks_within us us' \<longleftrightarrow>
     (\<forall>i u' h. map_of us' i = Some u' \<longrightarrow> h \<in> set (iu_hostmasks u') \<longrightarrow>
        (\<exists>u. map_of us i = Some u \<and> h \<in> set (iu_hostmasks u)))"

text \<open>No user but \<open>i\<close> has a hostmask that matches \<open>h\<close> or that \<open>h\<close> matches.\<close>

definition hostmask_clear :: "int \<Rightarrow> string \<Rightarrow> (int, IrcUser) dict \<Rightarrow> bool" where
  "hostmask_clear i h us \<longleftrightarrow>
     (\<forall>j v. map_of us j = Some v \<longrightarrow> j \<noteq> i \<longrightarrow>
        (\<forall>p \<in> set (iu_hostmasks v). \<not> patternEqual p h \<and> \<not> patternEqual h p))"

lemma hostmasks_withinD:
  "hostmasks_within us us' \<Longrightarrow> map_of us' i = Some u' \<Longrightarrow> h \<in> set (iu_hostmasks u') \<Longrightarrow>
     \<exists>u. map_of us i = Some u \<and> h \<in> set (iu_hostmasks u)"
  by (simp add: hostmasks_within_def)

lemma hostmasks_within_refl [simp, wf_intros]: "hostmasks_within us us"
  by (simp add: hostmasks_within_def)

lemma hostmasks_within_trans:
  "hostmasks_within us vs \<Longrightarrow> hostmasks_within vs ws \<Longrightarrow> hostmasks_within us ws"
  unfolding hostmasks_within_def by blast

lemma hostmasks_within_disjoint:
  assumes within: "hostmasks_within us us'" and us: "hostmasks_disjoint us"
  shows "hostmasks_disjoint us'"
  unfolding hostmasks_disjoint_def
proof (intro allI impI ballI)
  fix i j u v h p
  assume *: "map_of us' i = Some u" "map_of us' j = Some v" "i \<noteq> j" "h \<in> set (iu_hostmasks u)" "p \<in> set (iu_hostmasks v)"
  from hostmasks_withinD [OF within] * obtain u0 v0 where "map_of us i = Some u0" "map_of us j = Some v0"
    "h \<in> set (iu_hostmasks u0)" "p \<in> set (iu_hostmasks v0)"
    by meson
  with us \<open>i \<noteq> j\<close> show "\<not> patternEqual p h" unfolding hostmasks_disjoint_def by blast
qed

lemma hostmasks_within_clear: "hostmasks_within us us' \<Longrightarrow> hostmask_clear i h us \<Longrightarrow> hostmask_clear i h us'"
  unfolding hostmasks_within_def hostmask_clear_def by meson

lemma hostmasks_within_map:
  assumes "\<And>i u. set (iu_hostmasks (f i u)) \<subseteq> set (iu_hostmasks u)"
  shows "hostmasks_within us (map (\<lambda>(i, u). (i, f i u)) us)"
proof -
  have "map_of (map (\<lambda>(i, u). (i, f i u)) us) i = map_option (f i) (map_of us i)" for i
    by (induction us) auto
  with assms show ?thesis unfolding hostmasks_within_def by fastforce
qed

lemma hostmasks_within_set:
  assumes "\<And>h. h \<in> set (iu_hostmasks u') \<Longrightarrow> \<exists>u. map_of us i = Some u \<and> h \<in> set (iu_hostmasks u)"
  shows "hostmasks_within us (dict_set i u' us)"
  using assms by (simp add: hostmasks_within_def)

lemma hostmasks_within_drop: "hostmasks_within us (dict_drop i us)"
  by (simp add: hostmasks_within_def)

lemma checkHostmask_hostmasks [simp]:
  "iu_hostmasks (snd (IrcUser_checkHostmask tmo now h b u)) = iu_hostmasks u"
  by (simp add: IrcUser_checkHostmask_def Let_def split: prod.split)

section \<open>Operations that do not add hostmasks\<close>

text \<open>Such an operation keeps the table within every table it is within.\<close>

abbreviation table_within :: "(int, IrcUser) dict \<Rightarrow> UsersDictionary \<Rightarrow> bool" where
  "table_within us d \<equiv> hostmasks_within us (ud_users d)"

lemma keepsA_bind_get:
  assumes "\<And>x. keepsA (\<lambda>s. P s \<and> g s = x) (f x)"
  shows "keepsA P (bindA (getA g) f)"
  using assms by (simp add: keepsA_def act_defs)

lemma table_within_put:
  assumes "hostmasks_within vs vs'" "table_within us d" "ud_users d = vs"
  shows "table_within us (d\<lparr>ud_users := vs'\<rparr>)"
  using assms hostmasks_within_trans by simp

lemma keepsA_caches [wf_intros]:
  "keepsA (table_within us) (setNameCache c)" "keepsA (table_within us) (setHostmaskCache c')"
  by (auto intro!: wf_intros simp: setNameCache_def setHostmaskCache_def)

lemma keepsA_delCaches [wf_intros]:
  "keepsA (table_within us) (delNameCache k)" "keepsA (table_within us) (delHostmaskCache k)"
  unfolding delNameCache_def delHostmaskCache_def by (intro wf_intros)+

lemma keepsA_dropName [wf_intros]: "keepsA (table_within us) (dropName i)"
  unfolding dropName_def by (intro wf_intros)

lemma keepsA_dropHostmasks [wf_intros]: "keepsA (table_within us) (dropHostmasks i)"
  unfolding dropHostmasks_def by (intro wf_intros)

lemma keepsA_invalidate_id [wf_intros]: "keepsA (table_within us) (invalidate_id i)"
  unfolding invalidate_id_def by (intro wf_intros)

lemma keepsA_invalidate_hostmask [wf_intros]: "keepsA (table_within us) (invalidate_hostmask oid h)"
  unfolding invalidate_hostmask_def Let_def by (intro wf_intros)

lemma keepsA_invalidateCache [wf_intros]: "keepsA (table_within us) (UsersDictionary_invalidateCache oid h nm)"
  unfolding UsersDictionary_invalidateCache_def by (intro wf_intros) (auto intro: wf_intros split: option.split)

lemma keepsA_flush [wf_intros]: "keepsA (table_within us) (modifyA UsersDictionary_flush)"
  by (intro wf_intros) (simp add: UsersDictionary_flush_def split: option.split)

text \<open>An edit of one user that adds no hostmask.\<close>

lemma keepsA_edit:
  assumes "\<And>u u'. f u = Inr u' \<Longrightarrow> set (iu_hostmasks u') \<subseteq> set (iu_hostmasks u)"
  shows "keepsA (table_within us) (UsersDictionary_edit i f)"
proof -
  have "hostmasks_within vs (dict_set i u' vs)" if "dict_item vs i = Inr u" "f u = Inr u'" for vs u u'
    using that assms [of u u'] by (auto intro!: hostmasks_within_set simp: dict_item_def split: option.splits)
  then show ?thesis
    unfolding UsersDictionary_edit_def keepsA_def act_defs
    by (auto split: sum.split intro: hostmasks_within_trans)
qed


lemma removeHostmask_subset: "IrcUser_removeHostmask h u = Inr u' \<Longrightarrow> set (iu_hostmasks u') \<subseteq> set (iu_hostmasks u)"
  by (auto simp: IrcUser_removeHostmask_def nset_remove_def nset_discard_def split: if_splits)

text \<open>Storing a smaller table, computed from the current one.\<close>

lemma keepsA_put:
  assumes table: "\<And>vs. hostmasks_within vs (F vs)" and rest: "\<And>vs. keepsA (table_within us) (m vs)"
  shows "keepsA (table_within us)
    (bindA (getA ud_users) (\<lambda>vs. seqA (modifyA (\<lambda>d. d\<lparr>ud_users := F vs\<rparr>)) (m vs)))"
  unfolding keepsA_def
proof (intro allI impI)
  fix d assume "table_within us d"
  with table have "table_within us (d\<lparr>ud_users := F (ud_users d)\<rparr>)"
    using hostmasks_within_trans by simp
  with rest show "table_within us
      (snd (bindA (getA ud_users) (\<lambda>vs. seqA (modifyA (\<lambda>d. d\<lparr>ud_users := F vs\<rparr>)) (m vs)) d))"
    by (simp add: keepsA_def act_defs)
qed

lemma keepsA_hostmask_lookup [wf_intros]: "keepsA (table_within us) (hostmask_lookup tmo now s)"
  unfolding hostmask_lookup_def
proof (rule keepsA_put)
  show "hostmasks_within vs (expire_users tmo now s vs)" for vs
    unfolding expire_users_def by (intro hostmasks_within_map) simp
  show "keepsA (table_within us) (case match_users tmo now s vs of
            [] \<Rightarrow> raiseA KeyError
          | [(i, _)] \<Rightarrow>
              bindA (getA ud_hostmaskCache) (\<lambda>c.
                let c1 = CacheDict_setitem c (Inl s) (Inl i) in
                seqA (setHostmaskCache (case cache_back c1 i of
                        Inr hs \<Rightarrow> cache_update i (List.insert s hs) c1
                      | Inl _ \<Rightarrow> CacheDict_setitem c1 (Inr i) (Inr [s])))
                  (retA i))
          | ids \<Rightarrow>
              seqA (forA (\<lambda>(i, m). UsersDictionary_edit i (IrcUser_removeHostmask (match_text m))) ids)
                (raiseA DuplicateHostmask))" for vs
    by (auto intro!: wf_intros keepsA_edit dest: removeHostmask_subset simp: Let_def split: list.split)
qed

lemma keepsA_name_lookup [wf_intros]: "keepsA (table_within us) (name_lookup s)"
  unfolding name_lookup_def by (intro wf_intros) (auto intro!: wf_intros split: option.split)

lemma keepsA_getUserId [wf_intros]: "keepsA (table_within us) (UsersDictionary_getUserId tmo now s)"
  unfolding UsersDictionary_getUserId_def
  by (intro wf_intros) (auto intro!: wf_intros split: sum.split pyexn.split)

lemma keepsA_getUser [wf_intros]: "keepsA (table_within us) (UsersDictionary_getUser tmo now key)"
  unfolding UsersDictionary_getUser_def
  by (auto intro!: wf_intros keepsA_edit split: user_key.split)

lemma keepsA_name_free [wf_intros]: "keepsA (table_within us) (name_free tmo now i nm)"
  using keepsA_getUserId [of us tmo now nm]
  by (auto simp: keepsA_def name_free_def split: prod.split sum.split)

lemma keepsA_clearAuth [wf_intros]: "keepsA (table_within us) (IrcUser_clearAuth i)"
  unfolding IrcUser_clearAuth_def by (auto intro!: wf_intros keepsA_edit split: prod.split)

section \<open>setUser\<close>

text \<open>What the loop over the other users finds, and what it leaves of the table.\<close>

lemma patternEqual_Nil: "visible h \<Longrightarrow> \<not> patternEqual [] h"
  by (cases h) (auto simp: patternEqual_def compile_pattern_def visible_def is_space_def)

lemma first_pattern_false:
  assumes "\<not> match_true (first_pattern h pats)" "visible h"
  shows "\<forall>p \<in> set pats. \<not> patternEqual p h"
  using assms by (induction pats) (auto simp: patternEqual_Nil split: if_splits)

lemma checkHostmask_false:
  assumes "\<not> match_true (fst (IrcUser_checkHostmask tmo now h True u))" "visible h"
  shows "\<forall>p \<in> set (iu_hostmasks u). \<not> patternEqual p h"
  using assms first_pattern_false [of h "iu_hostmasks u"]
  by (auto simp: IrcUser_checkHostmask_def Let_def split: prod.splits if_splits)

lemma checkHostmask_pair:
  "IrcUser_checkHostmask tmo now h True u = (m, u') \<Longrightarrow> iu_hostmasks u' = iu_hostmasks u"
  using checkHostmask_hostmasks [of tmo now h True u] by simp

lemma hostmasks_within_Cons:
  "hostmasks_within us vs \<Longrightarrow> iu_hostmasks u' = iu_hostmasks u \<Longrightarrow> hostmasks_within ((j, u) # us) ((j, u') # vs)"
  by (simp add: hostmasks_within_def)

lemma collide_users_within: "hostmasks_within us (snd (collide_users tmo now i h us))"
proof (induction us)
  case (Cons p us)
  then show ?case
    by (cases p) (auto split: prod.split intro!: hostmasks_within_Cons dest: checkHostmask_pair)
qed simp

lemma collide_users_clear:
  assumes "collide_users tmo now i h us = (False, us')" "visible h"
  shows "hostmask_clear i h us'"
  using assms
proof (induction us arbitrary: us')
  case (Cons p us)
  obtain j u where p: "p = (j, u)" by (cases p)
  obtain b rest where rest: "collide_users tmo now i h us = (b, rest)" by fastforce
  obtain m u' where m: "IrcUser_checkHostmask tmo now h True u = (m, u')" by fastforce
  show ?case
  proof (cases "j = i")
    case True
    with Cons p rest show ?thesis by (auto simp: hostmask_clear_def)
  next
    case False
    with Cons.prems p rest m have "\<not> match_true m" "\<forall>other \<in> set (iu_hostmasks u'). \<not> patternEqual h other"
      "b = False" "us' = (j, u') # rest"
      by (auto split: if_splits)
    with Cons.IH rest Cons.prems(2) checkHostmask_false [of tmo now h u] m checkHostmask_pair [OF m]
    show ?thesis by (auto simp: hostmask_clear_def)
  qed
qed (simp add: hostmask_clear_def)

lemma keepsA_hostmask_free [wf_intros]: "keepsA (table_within us) (hostmask_free tmo now i h)"
proof -
  have "keepsA (table_within us) (bindA (getA ud_users) (\<lambda>vs.
      seqA (modifyA (\<lambda>d. d\<lparr>ud_users := snd (collide_users tmo now i h vs)\<rparr>))
        (if fst (collide_users tmo now i h vs) then raiseA DuplicateHostmask else retA ())))"
  proof (rule keepsA_put)
    show "hostmasks_within vs (snd (collide_users tmo now i h vs))" for vs by (rule collide_users_within)
    show "keepsA (table_within us) (if fst (collide_users tmo now i h vs) then raiseA DuplicateHostmask else retA ())" for vs
      by (simp add: keepsA_def act_defs)
  qed
  then show ?thesis by (simp only: hostmask_free_def case_prod_beta)
qed

lemma hostmask_free_clear:
  assumes "hostmask_free tmo now i h d = (Inr (), d')" "visible h"
  shows "hostmask_clear i h (ud_users d')"
  using assms collide_users_clear [of tmo now i h "ud_users d"]
  by (auto simp: hostmask_free_def act_defs split: prod.splits if_splits)

text \<open>After the loop of \<open>setUser\<close> no hostmask of the user collides with one of another user.\<close>

lemma hostmasks_free_clear:
  assumes "forA (hostmask_free tmo now i) hs d = (Inr (), d')" "\<forall>h \<in> set hs. visible h"
  shows "\<forall>h \<in> set hs. hostmask_clear i h (ud_users d')"
  using assms
proof (induction hs arbitrary: d)
  case (Cons h hs)
  from Cons.prems(1) obtain d1 where d1: "hostmask_free tmo now i h d = (Inr (), d1)"
    and rest: "forA (hostmask_free tmo now i) hs d1 = (Inr (), d')"
    by (auto simp: act_defs split: prod.splits sum.splits)
  have "keepsA (table_within (ud_users d1)) (forA (hostmask_free tmo now i) hs)" by (intro wf_intros)
  from keepsAD [OF this _ rest] have "hostmasks_within (ud_users d1) (ud_users d')" by simp
  with hostmask_free_clear [OF d1] Cons.prems(2) have "hostmask_clear i h (ud_users d')"
    by (meson hostmasks_within_clear list.set_intros(1))
  with Cons.IH [OF rest] Cons.prems(2) show ?case by auto
qed simp

text \<open>
  \<open>setUser\<close> on every path: before the table is changed it only shrinks; at the point where the user is
  stored, its hostmasks are clear of the others.
\<close>

lemma users_flush [simp]: "ud_users (UsersDictionary_flush d) = ud_users d"
  by (simp add: UsersDictionary_flush_def split: option.split)

definition setUser_checks :: "int \<Rightarrow> int \<Rightarrow> int \<Rightarrow> IrcUser \<Rightarrow> unit users_act" where
  "setUser_checks tmo now i u =
     seqA (name_free tmo now i (iu_name u))
       (seqA (forA (hostmask_free tmo now i) (iu_hostmasks u)) (UsersDictionary_invalidateCache (Some i) None None))"

lemma setUser_split:
  assumes "iu_id u = Some i"
  shows "UsersDictionary_setUser tmo now u doFlush =
    seqA (modifyA (\<lambda>d. d\<lparr>ud_nextId := max (ud_nextId d) i\<rparr>))
      (seqA (setUser_checks tmo now i u)
        (seqA (modifyA (\<lambda>d. d\<lparr>ud_users := dict_set i u (ud_users d)\<rparr>))
          (if doFlush then modifyA UsersDictionary_flush else retA ())))"
  using assms by (simp add: UsersDictionary_setUser_def setUser_checks_def seqA_assoc)

lemma setUser_table:
  assumes run: "UsersDictionary_setUser tmo now u doFlush d = (r, d')"
    and id: "iu_id u = Some i" and hs: "\<forall>h \<in> set (iu_hostmasks u). visible h"
  shows "(isl r \<and> hostmasks_within (ud_users d) (ud_users d'))
    \<or> (\<exists>us. r = Inr () \<and> hostmasks_within (ud_users d) us \<and> ud_users d' = dict_set i u us
         \<and> (\<forall>h \<in> set (iu_hostmasks u). hostmask_clear i h us))"
proof -
  let ?d = "d\<lparr>ud_nextId := max (ud_nextId d) i\<rparr>"
  obtain r1 d1 where c: "setUser_checks tmo now i u ?d = (r1, d1)" by fastforce
  have "keepsA (table_within (ud_users d)) (setUser_checks tmo now i u)"
    unfolding setUser_checks_def by (intro wf_intros)
  from keepsAD [OF this _ c] have within: "hostmasks_within (ud_users d) (ud_users d1)" by simp
  show ?thesis
  proof (cases r1)
    case (Inl e)
    with run c within show ?thesis by (auto simp: setUser_split [OF id] seqA_after modifyA_def seqA_error)
  next
    case (Inr x)
    with c obtain d2 d3 where "name_free tmo now i (iu_name u) ?d = (Inr (), d2)"
      and loop: "forA (hostmask_free tmo now i) (iu_hostmasks u) d2 = (Inr (), d3)"
      and inv: "UsersDictionary_invalidateCache (Some i) None None d3 = (Inr (), d1)"
      unfolding setUser_checks_def by (auto dest!: seqA_Inr)
    have "hostmasks_within (ud_users d3) (ud_users d1)"
      by (rule keepsAD [OF keepsA_invalidateCache _ inv]) simp
    with hostmasks_free_clear [OF loop hs] have "\<forall>h \<in> set (iu_hostmasks u). hostmask_clear i h (ud_users d1)"
      using hostmasks_within_clear by blast
    moreover have "r = Inr () \<and> ud_users d' = dict_set i u (ud_users d1)"
      using run c Inr by (auto simp: setUser_split [OF id] act_defs split: if_splits)
    ultimately show ?thesis using within by blast
  qed
qed

lemma hostmasks_disjoint_set:
  assumes us: "hostmasks_disjoint us" and clear: "\<forall>h \<in> set (iu_hostmasks u). hostmask_clear i h us"
  shows "hostmasks_disjoint (dict_set i u us)"
  unfolding hostmasks_disjoint_def
proof (intro allI impI ballI)
  fix j k v w h p
  assume *: "map_of (dict_set i u us) j = Some v" "map_of (dict_set i u us) k = Some w" "j \<noteq> k"
    "h \<in> set (iu_hostmasks v)" "p \<in> set (iu_hostmasks w)"
  consider (new_h) "j = i" | (new_p) "k = i" "j \<noteq> i" | (old) "j \<noteq> i" "k \<noteq> i" by blast
  then show "\<not> patternEqual p h"
  proof cases
    case new_h
    with * clear have "hostmask_clear i h us" "map_of us k = Some w" "k \<noteq> i" by simp_all
    with *(5) show ?thesis by (simp add: hostmask_clear_def)
  next
    case new_p
    with * clear have "hostmask_clear i p us" "map_of us j = Some v" by simp_all
    with new_p *(4) show ?thesis by (simp add: hostmask_clear_def)
  next
    case old
    with * have "map_of us j = Some v" "map_of us k = Some w" by simp_all
    with us * show ?thesis by (simp add: hostmasks_disjoint_def)
  qed
qed

lemma setUser_disjoint:
  assumes "UsersDictionary_setUser tmo now u doFlush d = (r, d')" "\<forall>h \<in> set (iu_hostmasks u). visible h"
    and "hostmasks_disjoint (ud_users d)"
  shows "hostmasks_disjoint (ud_users d')"
proof (cases "iu_id u")
  case None
  with assms show ?thesis by (simp add: UsersDictionary_setUser_def raiseA_def)
next
  case (Some i)
  from setUser_table [OF assms(1) Some assms(2)] show ?thesis
    using hostmasks_within_disjoint [OF _ assms(3)] hostmasks_disjoint_set by auto
qed

section \<open>Every sequence of operations\<close>

text \<open>The invariant of the database and of the class variable of its reader.\<close>

definition users_inv :: "users_world \<Rightarrow> bool" where
  "users_inv w \<longleftrightarrow> hostmasks_disjoint (ud_users (uw_db w))
     \<and> (case uw_u w of None \<Rightarrow> True | Some u \<Rightarrow> \<forall>h \<in> set (iu_hostmasks u). visible h)"

lemma users_inv_db:
  "users_inv w \<Longrightarrow> hostmasks_disjoint (ud_users d) \<Longrightarrow> users_inv (w\<lparr>uw_db := d\<rparr>)"
  by (simp add: users_inv_def)

lemma users_inv_u:
  "users_inv w \<Longrightarrow> (\<And>u h. ou = Some u \<Longrightarrow> h \<in> set (iu_hostmasks u) \<Longrightarrow> visible h) \<Longrightarrow> users_inv (w\<lparr>uw_u := ou\<rparr>)"
  by (simp add: users_inv_def split: option.split)

lemma keepsA_creator_change:
  assumes "\<And>u u' h. f u = Inr u' \<Longrightarrow> h \<in> set (iu_hostmasks u') \<Longrightarrow> h \<in> set (iu_hostmasks u) \<or> visible h"
  shows "keepsA users_inv (creator_change f)"
  using assms
  by (fastforce simp: keepsA_def creator_change_def act_defs users_inv_def split: option.split sum.split prod.split)

lemma IrcUserCreator_new_keeps: "keepsA users_inv IrcUserCreator_init"
  unfolding keepsA_def IrcUserCreator_init_def act_defs
  by (auto simp: IrcUser_new_def UserCapabilitySet_new_def users_inv_def split: option.split)

lemma IrcUserCreator_command_keeps:
  assumes "visible rest"
  shows "keepsA users_inv (IrcUserCreator_command ev cmd rest)"
  unfolding IrcUserCreator_command_def
  using assms
  by (intro wf_intros keepsA_creator_change)
    (auto simp: IrcUserCreator_user_def IrcUserCreator_checkId_def IrcUserCreator_name_def IrcUserCreator_ignore_def
      IrcUserCreator_secure_def IrcUserCreator_hashed_def IrcUserCreator_password_def IrcUserCreator_hostmask_def
      IrcUserCreator_capability_def IrcUser_addCapability_def nset_add_def split: if_splits)

lemma IrcUserCreator_finish_keeps: "keepsA users_inv (IrcUserCreator_finish tmo now)"
  unfolding keepsA_def
proof (intro allI impI)
  fix w assume w: "users_inv w"
  have set_inv: "users_inv w'" if "on_db (UsersDictionary_setUser tmo now u True) v = (r, w')" "users_inv v"
    "\<forall>h \<in> set (iu_hostmasks u). visible h" for u v r w'
    using that setUser_disjoint [of tmo now u True "uw_db v"]
    by (auto simp: on_db_def users_inv_def split: prod.splits)
  show "users_inv (snd (IrcUserCreator_finish tmo now w))"
  proof (cases "uw_u w")
    case None
    with w show ?thesis by (simp add: IrcUserCreator_finish_def)
  next
    case (Some u)
    then have vis: "\<forall>h \<in> set (iu_hostmasks u). visible h" using w by (simp add: users_inv_def)
    obtain r1 w1 where r1: "on_db (UsersDictionary_setUser tmo now u True) w = (r1, w1)" by fastforce
    let ?u' = "u\<lparr>iu_hostmasks := []\<rparr>"
    obtain r2 w2 where r2: "on_db (UsersDictionary_setUser tmo now ?u' True) (w1\<lparr>uw_u := Some ?u'\<rparr>) = (r2, w2)" by fastforce
    have w1: "users_inv w1" by (rule set_inv [OF r1 w vis])
    have w2: "users_inv w2" by (rule set_inv [OF r2]) (use w1 in \<open>simp_all add: users_inv_def\<close>)
    from Some r1 r2 w w1 w2 show ?thesis
      by (auto simp: IrcUserCreator_finish_def Let_def users_inv_def split: sum.split)
  qed
qed

interpretation users_reader: creator_invariant users_inv "IrcUserCreator ev tmo now" for ev tmo now
  by unfold_locales
    (simp_all add: IrcUserCreator_def IrcUserCreator_new_keeps IrcUserCreator_finish_keeps IrcUserCreator_command_keeps)

lemma users_open_inv:
  assumes "users_inv w"
  shows "users_inv (UsersDictionary_open ev tmo now f w)"
proof -
  let ?d = "(uw_db w)\<lparr>ud_filename := Some f, ud_noFlush := True\<rparr>"
  obtain r w1 where run: "Reader_readFile (IrcUserCreator ev tmo now) (dict_get (ud_disk ?d) f) (w\<lparr>uw_db := ?d\<rparr>) = (r, w1)"
    by fastforce
  have "users_inv (w\<lparr>uw_db := ?d\<rparr>)" using assms by (simp add: users_inv_def)
  from users_reader.readFile_keeps [OF this, of ev tmo now "dict_get (ud_disk ?d) f"] run
  have "users_inv w1" by simp
  with run show ?thesis by (simp add: UsersDictionary_open_def Let_def users_inv_def)
qed

lemma users_reload_inv:
  assumes "users_inv w"
  shows "users_inv (UsersDictionary_reload ev tmo now w)"
proof -
  have "users_inv (w\<lparr>uw_db := d\<rparr>)" if "ud_users d = []" for d
    using that assms by (simp add: users_inv_def hostmasks_disjoint_def)
  then show ?thesis
    by (auto simp: UsersDictionary_reload_def Let_def split: option.split intro: users_open_inv)
qed

text \<open>
  One operation on the database, at any time and with any arguments.  An edit of a user in place is
  included as long as it adds no hostmask; \<open>setUser\<close> takes hostmasks that are not blank.
\<close>

inductive users_step :: "users_world \<Rightarrow> users_world \<Rightarrow> bool" where
  getUserId: "UsersDictionary_getUserId tmo now s (uw_db w) = (r, d) \<Longrightarrow> users_step w (w\<lparr>uw_db := d\<rparr>)"
| getUser: "UsersDictionary_getUser tmo now key (uw_db w) = (u, d) \<Longrightarrow> users_step w (w\<lparr>uw_db := d\<rparr>)"
| edit: "UsersDictionary_edit i f (uw_db w) = (v, d) \<Longrightarrow>
    (\<And>u u'. f u = Inr u' \<Longrightarrow> set (iu_hostmasks u') \<subseteq> set (iu_hostmasks u)) \<Longrightarrow> users_step w (w\<lparr>uw_db := d\<rparr>)"
| setUser: "UsersDictionary_setUser tmo now u doFlush (uw_db w) = (v, d) \<Longrightarrow>
    (\<And>h. h \<in> set (iu_hostmasks u) \<Longrightarrow> visible h) \<Longrightarrow> users_step w (w\<lparr>uw_db := d\<rparr>)"
| delUser: "UsersDictionary_delUser i (uw_db w) = (v, d) \<Longrightarrow> users_step w (w\<lparr>uw_db := d\<rparr>)"
| newUser: "UsersDictionary_newUser (uw_db w) = (u, d) \<Longrightarrow> users_step w (w\<lparr>uw_db := d\<rparr>)"
| invalidate: "UsersDictionary_invalidateCache oid h nm (uw_db w) = (v, d) \<Longrightarrow> users_step w (w\<lparr>uw_db := d\<rparr>)"
| clearAuth: "IrcUser_clearAuth i (uw_db w) = (v, d) \<Longrightarrow> users_step w (w\<lparr>uw_db := d\<rparr>)"
| flush: "users_step w (w\<lparr>uw_db := UsersDictionary_flush (uw_db w)\<rparr>)"
| close: "users_step w (w\<lparr>uw_db := UsersDictionary_close (uw_db w)\<rparr>)"
| openFile: "users_step w (UsersDictionary_open ev tmo now f w)"
| reload: "users_step w (UsersDictionary_reload ev tmo now w)"

inductive_cases users_stepE: "users_step w w'"

lemma delUser_within: "keepsA (table_within us) (UsersDictionary_delUser i)"
proof -
  have "keepsA (table_within us) (bindA (liftA (dict_del i vs)) (\<lambda>us'.
       seqA (modifyA (\<lambda>d. d\<lparr>ud_users := us'\<rparr>)) (seqA (invalidate_id i) (modifyA UsersDictionary_flush))))"
    if "hostmasks_within us vs" for vs
  proof -
    have "hostmasks_within us (dict_drop i vs)"
      using that hostmasks_within_drop hostmasks_within_trans by blast
    moreover have "keepsA (table_within us) (seqA (invalidate_id i) (modifyA UsersDictionary_flush))"
      by (intro wf_intros)
    ultimately show ?thesis
      by (auto simp: keepsA_def dict_del_def act_defs)
  qed
  then show ?thesis unfolding UsersDictionary_delUser_def keepsA_def by (simp add: act_defs)
qed

lemma newUser_within: "keepsA (table_within us) UsersDictionary_newUser"
proof -
  have "hostmasks_within us (dict_set i u' vs)" if "hostmasks_within us vs" "iu_hostmasks u' = []" for i u' vs
    using that by (simp add: hostmasks_within_def)
  then show ?thesis
    by (auto simp: keepsA_def UsersDictionary_newUser_def UsersDictionary_edit_def IrcUser_new_def
        UserCapabilitySet_new_def dict_item_def act_defs)
qed

lemma users_inv_within:
  assumes "keepsA (table_within (ud_users (uw_db w))) m" "m (uw_db w) = (r, d)" "users_inv w"
  shows "users_inv (w\<lparr>uw_db := d\<rparr>)"
proof -
  from keepsAD [OF assms(1) _ assms(2)] have "hostmasks_within (ud_users (uw_db w)) (ud_users d)" by simp
  with assms(3) show ?thesis by (auto intro: users_inv_db hostmasks_within_disjoint simp: users_inv_def)
qed

lemma users_step_inv: "users_step w w' \<Longrightarrow> users_inv w \<Longrightarrow> users_inv w'"
proof (induction rule: users_step.induct)
  case (getUserId tmo now s w r d)
  then show ?case by (rule users_inv_within [OF keepsA_getUserId])
next
  case (getUser tmo now key w u d)
  then show ?case by (rule users_inv_within [OF keepsA_getUser])
next
  case (edit i f w v d)
  then show ?case by (intro users_inv_within [OF keepsA_edit]) auto
next
  case (setUser tmo now u doFlush w v d)
  with setUser_disjoint [OF setUser.hyps(1)] show ?case by (auto intro: users_inv_db simp: users_inv_def)
next
  case (delUser i w v d)
  then show ?case by (rule users_inv_within [OF delUser_within])
next
  case (newUser w u d)
  then show ?case by (rule users_inv_within [OF newUser_within])
next
  case (invalidate oid h nm w v d)
  then show ?case by (rule users_inv_within [OF keepsA_invalidateCache])
next
  case (clearAuth i w v d)
  then show ?case by (rule users_inv_within [OF keepsA_clearAuth])
next
  case (flush w)
  then show ?case by (simp add: users_inv_def)
next
  case (close w)
  then show ?case by (simp add: users_inv_def UsersDictionary_close_def hostmasks_disjoint_def)
qed (simp_all add: users_open_inv users_reload_inv)

definition users_start :: "(string, string) dict \<Rightarrow> users_world" where
  "users_start disk = \<lparr>uw_db = UsersDictionary_new disk, uw_u = None\<rparr>"


definition sample_user :: "int \<Rightarrow> string \<Rightarrow> string list \<Rightarrow> IrcUser" where
  "sample_user i nm hs = \<lparr>iu_id = Some i, iu_auth = [], iu_name = nm, iu_ignore = False, iu_secure = False,
     iu_hashed = False, iu_password = ''pw'', iu_capabilities = [], iu_hostmasks = hs\<rparr>"


end
