(* ===== verification/UsersCache.thy ===== *)
theory UsersCache
  imports UsersDbLaws
begin

text \<open>
  The caches of the user database: what a successful \<open>setUser\<close> stores, how a name clash is reported,
  how an old name survives a rename, and what happens when a cache is cleared between the two entries of
  a lookup.
\<close>

section \<open>Storing a user\<close>

lemma getUser_by_id:
  assumes "map_of (ud_users d) i = Some u"
  shows "UsersDictionary_getUser tmo now (ById i) d =
    (Inr (u\<lparr>iu_id := Some i\<rparr>), d\<lparr>ud_users := dict_set i (u\<lparr>iu_id := Some i\<rparr>) (ud_users d)\<rparr>)"
  using assms
  by (simp add: UsersDictionary_getUser_def UsersDictionary_edit_def dict_item_def act_defs)

text \<open>
  A \<open>setUser\<close> that returns has stored the user under its id, where \<open>getUser\<close> finds it, every hostmask of
  it is free of every other user's, and a name that belongs to another user is refused; but it is refused
  with \<open>UnboundLocalError\<close>, since the message reads a variable that is not bound yet, and not with the
  \<open>DuplicateHostmask\<close> the callers handle.
\<close>

theorem setUser_stores_or_refuses:
  assumes id: "iu_id u = Some i" and hs: "\<forall>h \<in> set (iu_hostmasks u). visible h" and next_id: "i \<le> ud_nextId d"
  shows "(\<forall>d'. UsersDictionary_setUser tmo now u doFlush d = (Inr (), d') \<longrightarrow>
        fst (UsersDictionary_getUser tmo now (ById i) d') = Inr u
        \<and> (\<forall>h \<in> set (iu_hostmasks u). hostmask_clear i h (ud_users d')))
    \<and> (\<forall>j. j \<noteq> i \<longrightarrow> fst (UsersDictionary_getUserId tmo now (iu_name u) d) = Inr j \<longrightarrow>
        fst (UsersDictionary_setUser tmo now u doFlush d) = Inl UnboundLocalError)"
proof (intro conjI allI impI)
  fix d' assume run: "UsersDictionary_setUser tmo now u doFlush d = (Inr (), d')"
  from setUser_table [OF run id hs] obtain us where us: "ud_users d' = dict_set i u us"
    "\<forall>h \<in> set (iu_hostmasks u). hostmask_clear i h us" by auto
  then have "map_of (ud_users d') i = Some u" by simp
  moreover have "u\<lparr>iu_id := Some i\<rparr> = u" using id by (cases u) simp
  ultimately show "fst (UsersDictionary_getUser tmo now (ById i) d') = Inr u"
    by (simp add: getUser_by_id)
  from us show "\<forall>h \<in> set (iu_hostmasks u). hostmask_clear i h (ud_users d')"
    by (simp add: hostmask_clear_def)
next
  fix j assume j: "j \<noteq> i" and found: "fst (UsersDictionary_getUserId tmo now (iu_name u) d) = Inr j"
  have "d\<lparr>ud_nextId := max (ud_nextId d) i\<rparr> = d" using next_id by (cases d) simp
  moreover obtain d1 where "UsersDictionary_getUserId tmo now (iu_name u) d = (Inr j, d1)"
    using found by (cases "UsersDictionary_getUserId tmo now (iu_name u) d") simp
  ultimately show "fst (UsersDictionary_setUser tmo now u doFlush d) = Inl UnboundLocalError"
    using j by (simp add: UsersDictionary_setUser_def id name_free_def act_defs)
qed

theorem setUser_stores_or_refuses_witness:
  "fst (UsersDictionary_setUser 0 0 (sample_user 2 ''Joe'' [])  True
     ((UsersDictionary_new [])\<lparr>ud_nextId := 2, ud_users := [(1, sample_user 1 ''joe'' [])]\<rparr>)) = Inl UnboundLocalError"
proof -
  let ?d = "(UsersDictionary_new [])\<lparr>ud_nextId := 2, ud_users := [(1, sample_user 1 ''joe'' [])]\<rparr>"
  let ?u = "sample_user 2 ''Joe'' []"
  have "iu_id ?u = Some 2" "\<forall>h \<in> set (iu_hostmasks ?u). visible h" "2 \<le> ud_nextId ?d" by (simp_all add: sample_user_def)
  moreover have "fst (UsersDictionary_getUserId 0 0 (iu_name ?u) ?d) = Inr 1" by code_simp
  ultimately show ?thesis
    using setUser_stores_or_refuses [of ?u 2 ?d 0 0 True] by simp
qed

section \<open>A cache that fills up\<close>

text \<open>
  When a name is looked up for the first time and the cache has room for one more entry only, the
  second of the two entries clears it, and the id is left without its name: \<open>invalidateCache\<close> then raises
  \<open>KeyError\<close> for this id without repairing anything, and so does every \<open>setUser\<close> of the user that gets
  that far.
\<close>

theorem full_cache_breaks_invalidate:
  assumes nm: "\<not> isUserHostmask nm" and room: "int (length (cd_d (ud_nameCache d))) = cd_max (ud_nameCache d) - 1"
    and new: "\<not> cache_has (ud_nameCache d) (Inl (py_lower nm))"
    and found: "find (\<lambda>(i, u). py_lower nm = py_lower (iu_name u)) (ud_users d) = Some (i, u)"
  shows "\<exists>d'. UsersDictionary_getUserId tmo now nm d = (Inr i, d')
    \<and> UsersDictionary_invalidateCache (Some i) None None d' = (Inl KeyError, d')"
proof -
  let ?c = "(ud_nameCache d)\<lparr>cd_d := [(Inr i, Inr (py_lower nm))]\<rparr>"
  have "length (dict_set (Inl (py_lower nm)) (Inl i) (cd_d (ud_nameCache d))) = Suc (length (cd_d (ud_nameCache d)))"
    using new by (simp add: length_dict_set cache_has_def dict_has_iff)
  then have "CacheDict_setitem (CacheDict_setitem (ud_nameCache d) (Inl (py_lower nm)) (Inl i)) (Inr i) (Inr (py_lower nm)) = ?c"
    using room by (simp add: CacheDict_setitem_def Let_def)
  moreover have "cache_id (ud_nameCache d) (py_lower nm) = Inl KeyError"
    using new by (simp add: cache_id_def cache_has_def dict_has_def CacheDict_getitem_def dict_item_def)
  ultimately have "UsersDictionary_getUserId tmo now nm d = (Inr i, d\<lparr>ud_nameCache := ?c\<rparr>)"
    using nm found by (simp add: UsersDictionary_getUserId_def name_lookup_def setNameCache_def act_defs)
  moreover have "UsersDictionary_invalidateCache (Some i) None None (d\<lparr>ud_nameCache := ?c\<rparr>) = (Inl KeyError, d\<lparr>ud_nameCache := ?c\<rparr>)"
    by (simp add: UsersDictionary_invalidateCache_def invalidate_id_def dropName_def delNameCache_def cache_has_def dict_has_def
        cache_back_def CacheDict_getitem_def CacheDict_delitem_def dict_del_def dict_item_def act_defs)
  ultimately show ?thesis by blast
qed

theorem full_cache_breaks_invalidate_witness:
  "\<exists>d'. UsersDictionary_getUserId 0 0 ''Joe'' ((UsersDictionary_new [])\<lparr>ud_nameCache := CacheDict_new 1,
       ud_users := [(1, sample_user 1 ''joe'' [])]\<rparr>) = (Inr 1, d')
    \<and> UsersDictionary_invalidateCache (Some 1) None None d' = (Inl KeyError, d')"
proof (rule full_cache_breaks_invalidate)
  show "\<not> isUserHostmask ''Joe''" by code_simp
  show "find (\<lambda>(i, u). py_lower ''Joe'' = py_lower (iu_name u))
      (ud_users ((UsersDictionary_new [])\<lparr>ud_nameCache := CacheDict_new 1, ud_users := [(1, sample_user 1 ''joe'' [])]\<rparr>))
    = Some (1, sample_user 1 ''joe'' [])" by code_simp
qed (simp_all add: CacheDict_new_def cache_has_def dict_has_def)

section \<open>Renaming a user\<close>

text \<open>The checks on the hostmasks leave the name cache alone.\<close>

abbreviation nameCache_is :: "string id_cache \<Rightarrow> UsersDictionary \<Rightarrow> bool" where
  "nameCache_is c d \<equiv> ud_nameCache d = c"

lemma keeps_nameCache_free: "keepsA (nameCache_is c) (hostmask_free tmo now i h)"
  by (simp add: keepsA_def hostmask_free_def act_defs split: prod.split)

lemma keeps_nameCache_loop: "keepsA (nameCache_is c) (forA (hostmask_free tmo now i) hs)"
  by (intro wf_intros keeps_nameCache_free)

lemma keeps_nameCache_hostmasks: "keepsA (nameCache_is c) (dropHostmasks i)"
  unfolding dropHostmasks_def delHostmaskCache_def setHostmaskCache_def by (intro wf_intros) auto

text \<open>
  The cache keeps the old name of a renamed user: when the old name is cached for the user, and the
  user object is given a new name that is in no cache entry and passed to \<open>setUser\<close>, as the command that
  changes a name does, then after a successful \<open>setUser\<close> the old name still finds the user.
\<close>

theorem rename_leaves_old_name:
  assumes user: "map_of (ud_users d) i = Some u"
    and names: "\<not> isUserHostmask old" "\<not> isUserHostmask new" "py_lower new \<noteq> py_lower old"
    and cached: "cache_id (ud_nameCache d) (py_lower old) = Inr i" "\<not> cache_has (ud_nameCache d) (Inl (py_lower new))"
    and room: "int (length (cd_d (ud_nameCache d))) + 2 < cd_max (ud_nameCache d)"
    and rename: "UsersDictionary_edit i (\<lambda>u. Inr (u\<lparr>iu_name := new\<rparr>)) d = (Inr (), d1)"
    and set: "UsersDictionary_setUser tmo now (u\<lparr>iu_id := Some i, iu_name := new\<rparr>) doFlush d1 = (Inr (), d2)"
  shows "fst (UsersDictionary_getUserId tmo now old d2) = Inr i"
proof -
  let ?u = "u\<lparr>iu_id := Some i, iu_name := new\<rparr>" and ?c = "ud_nameCache d"
  let ?c1 = "CacheDict_setitem (CacheDict_setitem ?c (Inl (py_lower new)) (Inl i)) (Inr i) (Inr (py_lower new))"
  let ?d = "d1\<lparr>ud_nextId := max (ud_nextId d1) i\<rparr>"
  have d1: "ud_nameCache d1 = ?c" using rename user by (auto simp: UsersDictionary_edit_def dict_item_def act_defs)
  have fits: "CacheDict_setitem ?c (Inl (py_lower new)) (Inl i) = ?c\<lparr>cd_d := dict_set (Inl (py_lower new)) (Inl i) (cd_d ?c)\<rparr>"
    using room by (simp add: CacheDict_setitem_def)
  have c1: "cd_d ?c1 = dict_set (Inr i) (Inr (py_lower new)) (dict_set (Inl (py_lower new)) (Inl i) (cd_d ?c))"
    unfolding fits using room by (simp add: CacheDict_setitem_def length_dict_set)
  obtain d3 d4 where name: "name_free tmo now i new ?d = (Inr (), d3)"
    and loop: "forA (hostmask_free tmo now i) (iu_hostmasks u) d3 = (Inr (), d4)"
    and inv: "\<exists>d5. UsersDictionary_invalidateCache (Some i) None None d4 = (Inr (), d5) \<and> ud_nameCache d2 = ud_nameCache d5"
    using set
    by (auto simp: UsersDictionary_setUser_def act_defs UsersDictionary_flush_def split: prod.splits sum.splits option.splits if_splits)
  have "ud_nameCache d3 = ?c1"
  proof -
    have "map_of (ud_users d1) i = Some (u\<lparr>iu_name := new\<rparr>)"
      using rename user by (auto simp: UsersDictionary_edit_def dict_item_def act_defs)
    then have "(i, u\<lparr>iu_name := new\<rparr>) \<in> set (ud_users d1)" by (rule map_of_SomeD)
    then have "find (\<lambda>(i, u). py_lower new = py_lower (iu_name u)) (ud_users d1) \<noteq> None"
      unfolding find_None_iff by (auto intro!: exI [of _ i] exI [of _ "u\<lparr>iu_name := new\<rparr>"])
    then obtain j v where found: "find (\<lambda>(i, u). py_lower new = py_lower (iu_name u)) (ud_users d1) = Some (j, v)" by auto
    have "cache_id ?c (py_lower new) = Inl KeyError"
      using cached(2) by (simp add: cache_id_def cache_has_def dict_has_def CacheDict_getitem_def dict_item_def)
    with name names(2) found d1 show ?thesis
      by (auto simp: name_free_def UsersDictionary_getUserId_def name_lookup_def setNameCache_def act_defs split: if_splits)
  qed
  with keepsAD [OF keeps_nameCache_loop _ loop] have c4: "ud_nameCache d4 = ?c1" by simp
  obtain d5 where d5: "UsersDictionary_invalidateCache (Some i) None None d4 = (Inr (), d5)" "ud_nameCache d2 = ud_nameCache d5"
    using inv by blast
  have "dropName i d4 = (Inr (), d4\<lparr>ud_nameCache := ?c1\<lparr>cd_d := dict_drop (Inr i) (dict_drop (Inl (py_lower new)) (cd_d ?c1))\<rparr>\<rparr>)"
    using c4 c1 by (simp add: dropName_def delNameCache_def setNameCache_def cache_back_def CacheDict_getitem_def
        CacheDict_delitem_def dict_item_def dict_del_def dict_has_def act_defs)
  moreover have "cache_has (ud_nameCache d4) (Inr i)" using c4 c1 by (simp add: cache_has_def dict_has_def)
  ultimately have "(if cache_has (ud_hostmaskCache d4) (Inr i) then dropHostmasks i else retA ())
      (d4\<lparr>ud_nameCache := ?c1\<lparr>cd_d := dict_drop (Inr i) (dict_drop (Inl (py_lower new)) (cd_d ?c1))\<rparr>\<rparr>) = (Inr (), d5)"
    using d5(1) by (simp add: UsersDictionary_invalidateCache_def invalidate_id_def act_defs)
  moreover have "keepsA (nameCache_is c) (if b then dropHostmasks i else retA ())" for c b
    by (intro wf_intros keeps_nameCache_hostmasks)
  ultimately have "ud_nameCache d5 = ?c1\<lparr>cd_d := dict_drop (Inr i) (dict_drop (Inl (py_lower new)) (cd_d ?c1))\<rparr>"
    using keepsAD by fastforce
  then have "map_of (cd_d (ud_nameCache d2)) (Inl (py_lower old)) = map_of (cd_d ?c) (Inl (py_lower old))"
    using d5(2) c1 names(3) by simp
  then have "cache_id (ud_nameCache d2) (py_lower old) = Inr i"
    using cached(1) by (simp add: cache_id_def CacheDict_getitem_def dict_item_def)
  then show ?thesis
    using names(1) by (simp add: UsersDictionary_getUserId_def act_defs)
qed

text \<open>Joe is looked up, renamed to Jim, and still found as Joe.\<close>

definition renamed_db :: UsersDictionary where
  "renamed_db = snd (UsersDictionary_getUserId 0 0 ''joe'' ((UsersDictionary_new [])\<lparr>ud_users := [(1, sample_user 1 ''joe'' [])]\<rparr>))"

theorem rename_leaves_old_name_witness:
  "\<exists>d1 d2. UsersDictionary_edit 1 (\<lambda>u. Inr (u\<lparr>iu_name := ''jim''\<rparr>)) renamed_db = (Inr (), d1)
    \<and> UsersDictionary_setUser 0 0 (sample_user 1 ''jim'' []) True d1 = (Inr (), d2)
    \<and> fst (UsersDictionary_getUserId 0 0 ''joe'' d2) = Inr 1"
proof -
  let ?d1 = "snd (UsersDictionary_edit 1 (\<lambda>u. Inr (u\<lparr>iu_name := ''jim''\<rparr>)) renamed_db)"
  let ?u = "(sample_user 1 ''joe'' [])\<lparr>iu_id := Some 1, iu_name := ''jim''\<rparr>"
  let ?d2 = "snd (UsersDictionary_setUser 0 0 ?u True ?d1)"
  have u: "?u = sample_user 1 ''jim'' []" by (simp add: sample_user_def)
  have "map_of (ud_users renamed_db) 1 = Some (sample_user 1 ''joe'' [])" by code_simp
  moreover have "\<not> isUserHostmask ''joe''" "\<not> isUserHostmask ''jim''" "py_lower ''jim'' \<noteq> py_lower ''joe''" by code_simp+
  moreover have "cache_id (ud_nameCache renamed_db) (py_lower ''joe'') = Inr 1"
    "\<not> cache_has (ud_nameCache renamed_db) (Inl (py_lower ''jim''))" by code_simp+
  moreover have "int (length (cd_d (ud_nameCache renamed_db))) + 2 < cd_max (ud_nameCache renamed_db)" by code_simp
  moreover have e: "UsersDictionary_edit 1 (\<lambda>u. Inr (u\<lparr>iu_name := ''jim''\<rparr>)) renamed_db = (Inr (), ?d1)" by code_simp
  moreover have s: "UsersDictionary_setUser 0 0 ?u True ?d1 = (Inr (), ?d2)" by code_simp
  ultimately have "fst (UsersDictionary_getUserId 0 0 ''joe'' ?d2) = Inr 1" by (rule rename_leaves_old_name)
  with e s show ?thesis unfolding u by blast
qed

end
