(* ===== verification/UsersFile.thy ===== *)
theory UsersFile
  imports UsersDbLaws
begin

text \<open>
  What the file keeps of the user database: a table that is flushed and reloaded comes back, user by
  user, and a user that has no name makes the reader stop.
\<close>

section \<open>What can be written\<close>

text \<open>A field of a line: not empty, not starting with a blank, without tabs and line ends.\<close>

definition field_ok :: "string \<Rightarrow> bool" where
  "field_ok s \<longleftrightarrow> visible s \<and> (\<forall>c \<in> set s. plain_char c)"

definition user_ok :: "IrcUser \<Rightarrow> bool" where
  "user_ok u \<longleftrightarrow> field_ok (iu_name u) \<and> \<not> isUserHostmask (iu_name u) \<and> field_ok (iu_password u)
     \<and> UserCapabilitySet_ok (iu_capabilities u)
     \<and> (\<forall>c \<in> set (iu_capabilities u). field_ok c)
     \<and> nset_wf toLower (iu_hostmasks u) \<and> (\<forall>h \<in> set (iu_hostmasks u). field_ok h)"

definition storable :: "(int, IrcUser) dict \<Rightarrow> bool" where
  "storable us \<longleftrightarrow> dict_wf us \<and> hostmasks_disjoint us \<and> (\<forall>(i, u) \<in> set us. user_ok u)
     \<and> (\<forall>(i, u) \<in> set us. \<forall>(j, v) \<in> set us. py_lower (iu_name u) = py_lower (iu_name v) \<longrightarrow> i = j)"

text \<open>
  What comes back: the identifications are not kept, and the capabilities, a set in Python, come back
  in another order.
\<close>

definition reloaded :: "int \<times> IrcUser \<Rightarrow> int \<times> IrcUser" where
  "reloaded p = (case p of (i, u) \<Rightarrow>
     (i, u\<lparr>iu_id := Some i, iu_auth := [], iu_capabilities := rev (iu_capabilities u)\<rparr>))"

section \<open>One line\<close>

definition reading :: "UsersDictionary \<Rightarrow> IrcUser \<Rightarrow> nat \<Rightarrow> users_world Reader" where
  "reading d u n = \<lparr>rd_world = \<lparr>uw_db = d, uw_u = Some u\<rparr>, rd_creator = True, rd_modifiedCreator = True,
     rd_indent = Some (int n)\<rparr>"

definition evTF :: "(string \<Rightarrow> bool res) \<Rightarrow> bool" where
  "evTF ev \<longleftrightarrow> ev ''True'' = Inr True \<and> ev ''False'' = Inr False"

lemma ev_py_bool: "evTF ev \<Longrightarrow> ev (py_bool b) = Inr b"
  by (simp add: evTF_def py_bool_def)

text \<open>The words of the commands.\<close>

definition command_word :: "string \<Rightarrow> bool" where
  "command_word w \<longleftrightarrow> w \<noteq> [] \<and> no_space w \<and> (\<forall>c \<in> set w. plain_char c) \<and> py_lower w = w"

lemma command_words:
  "command_word ''user''" "command_word ''name''" "command_word ''ignore''" "command_word ''secure''"
  "command_word ''hashed''" "command_word ''password''" "command_word ''hostmask''" "command_word ''capability''"
  by code_simp+

lemma two_blanks: "''  '' @ s = replicate 2 CHR '' '' @ s"
  by (simp add: numeral_2_eq_2)

text \<open>A line of the same indentation, for a command that changes the user.\<close>

lemma field_line:
  assumes cmd: "command_word w" and rest: "field_ok rest"
    and run: "IrcUserCreator_command ev w rest = creator_change g" "g u = Inr u'"
  shows "Reader_line (IrcUserCreator ev tmo now) (''  '' @ w @ CHR '' '' # rest) (reading d u 2) = (Inr (), reading d u' 2)"
  using Reader_line_plain [of w rest "IrcUserCreator ev tmo now" 2] cmd rest run
  unfolding two_blanks
  by (simp add: field_ok_def visible_def command_word_def Reader_indentation_def reading_def on_world_def
      IrcUserCreator_def creator_change_def act_defs)

lemmas creator_defs = IrcUserCreator_command_def IrcUserCreator_user_def IrcUserCreator_checkId_def
  IrcUserCreator_name_def IrcUserCreator_ignore_def IrcUserCreator_secure_def IrcUserCreator_hashed_def
  IrcUserCreator_password_def IrcUserCreator_hostmask_def IrcUserCreator_capability_def IrcUser_addCapability_def

text \<open>The lines of the fields of one user.\<close>

lemma field_lines:
  assumes id: "iu_id u \<noteq> None" and rest: "field_ok rest"
  shows "Reader_line (IrcUserCreator ev tmo now) (''  name '' @ rest) (reading d u 2)
      = (Inr (), reading d (u\<lparr>iu_name := rest\<rparr>) 2)"
    and "ev rest = Inr b \<Longrightarrow> Reader_line (IrcUserCreator ev tmo now) (''  ignore '' @ rest) (reading d u 2)
      = (Inr (), reading d (u\<lparr>iu_ignore := b\<rparr>) 2)"
    and "ev rest = Inr b \<Longrightarrow> Reader_line (IrcUserCreator ev tmo now) (''  secure '' @ rest) (reading d u 2)
      = (Inr (), reading d (u\<lparr>iu_secure := b\<rparr>) 2)"
    and "ev rest = Inr b \<Longrightarrow> Reader_line (IrcUserCreator ev tmo now) (''  hashed '' @ rest) (reading d u 2)
      = (Inr (), reading d (u\<lparr>iu_hashed := b\<rparr>) 2)"
    and "Reader_line (IrcUserCreator ev tmo now) (''  password '' @ rest) (reading d u 2)
      = (Inr (), reading d (u\<lparr>iu_password := rest\<rparr>) 2)"
    and "Reader_line (IrcUserCreator ev tmo now) (''  hostmask '' @ rest) (reading d u 2)
      = (Inr (), reading d (u\<lparr>iu_hostmasks := ircset_add rest (iu_hostmasks u)\<rparr>) 2)"
    and "UserCapabilitySet_add rest (iu_capabilities u) = Inr cs \<Longrightarrow> Reader_line (IrcUserCreator ev tmo now) (''  capability '' @ rest) (reading d u 2)
      = (Inr (), reading d (u\<lparr>iu_capabilities := cs\<rparr>) 2)"
proof -
  note line = field_line [OF _ rest, where ev = ev and u = u and d = d and tmo = tmo and now = now]
  show "Reader_line (IrcUserCreator ev tmo now) (''  name '' @ rest) (reading d u 2)
      = (Inr (), reading d (u\<lparr>iu_name := rest\<rparr>) 2)"
    using line [OF command_words(2), of "IrcUserCreator_name rest" "u\<lparr>iu_name := rest\<rparr>"] id
    by (simp add: creator_defs)
  show "Reader_line (IrcUserCreator ev tmo now) (''  ignore '' @ rest) (reading d u 2)
      = (Inr (), reading d (u\<lparr>iu_ignore := b\<rparr>) 2)" if "ev rest = Inr b"
    using line [OF command_words(3), of "IrcUserCreator_ignore ev rest" "u\<lparr>iu_ignore := b\<rparr>"] id that
    by (simp add: creator_defs)
  show "Reader_line (IrcUserCreator ev tmo now) (''  secure '' @ rest) (reading d u 2)
      = (Inr (), reading d (u\<lparr>iu_secure := b\<rparr>) 2)" if "ev rest = Inr b"
    using line [OF command_words(4), of "IrcUserCreator_secure ev rest" "u\<lparr>iu_secure := b\<rparr>"] id that
    by (simp add: creator_defs)
  show "Reader_line (IrcUserCreator ev tmo now) (''  hashed '' @ rest) (reading d u 2)
      = (Inr (), reading d (u\<lparr>iu_hashed := b\<rparr>) 2)" if "ev rest = Inr b"
    using line [OF command_words(5), of "IrcUserCreator_hashed ev rest" "u\<lparr>iu_hashed := b\<rparr>"] id that
    by (simp add: creator_defs)
  show "Reader_line (IrcUserCreator ev tmo now) (''  password '' @ rest) (reading d u 2)
      = (Inr (), reading d (u\<lparr>iu_password := rest\<rparr>) 2)"
    using line [OF command_words(6), of "IrcUserCreator_password rest" "u\<lparr>iu_password := rest\<rparr>"] id
    by (simp add: creator_defs)
  show "Reader_line (IrcUserCreator ev tmo now) (''  hostmask '' @ rest) (reading d u 2)
      = (Inr (), reading d (u\<lparr>iu_hostmasks := ircset_add rest (iu_hostmasks u)\<rparr>) 2)"
    using line [OF command_words(7), of "IrcUserCreator_hostmask rest" "u\<lparr>iu_hostmasks := ircset_add rest (iu_hostmasks u)\<rparr>"] id
    by (simp add: creator_defs)
  show "Reader_line (IrcUserCreator ev tmo now) (''  capability '' @ rest) (reading d u 2)
      = (Inr (), reading d (u\<lparr>iu_capabilities := cs\<rparr>) 2)" if "UserCapabilitySet_add rest (iu_capabilities u) = Inr cs"
    using line [OF command_words(8), of "IrcUserCreator_capability rest" "u\<lparr>iu_capabilities := cs\<rparr>"] id that
    by (simp add: creator_defs)
qed

section \<open>The lines of one user\<close>

lemma capability_lines:
  assumes "UserCapabilitySet_ok (old @ cs)" "\<forall>c \<in> set cs. field_ok c" "iu_id u \<noteq> None" "iu_capabilities u = rev old"
  shows "forA (Reader_line (IrcUserCreator ev tmo now)) (map (\<lambda>c. ''  capability '' @ c) cs) (reading d u 2)
    = (Inr (), reading d (u\<lparr>iu_capabilities := rev (old @ cs)\<rparr>) 2)"
  using assms
proof (induction cs arbitrary: old u)
  case (Cons c cs)
  from Cons.prems(1) have c: "proper_capability c" "toLower c = c" "inverse_of c \<notin> set old" "c \<noteq> antiOwner" "c \<notin> set old"
    by (auto simp: UserCapabilitySet_ok_def CapabilitySet_ok_def)
  then have "UserCapabilitySet_add c (rev old) = Inr (c # rev old)"
    using CapabilitySet_add_eq [OF c(1), of "rev old"] proper_facts(7) [OF c(1)]
    by (simp add: UserCapabilitySet_add_def antiOwner_def)
  then have "Reader_line (IrcUserCreator ev tmo now) (''  capability '' @ c) (reading d u 2)
      = (Inr (), reading d (u\<lparr>iu_capabilities := c # rev old\<rparr>) 2)"
    using Cons.prems by (intro field_lines(7)) simp_all
  with Cons.IH [of "old @ [c]" "u\<lparr>iu_capabilities := c # rev old\<rparr>"] Cons.prems
  show ?case by (simp add: forA_step del: forA.simps)
next
  case Nil
  then show ?case by (cases u) (simp add: forA_Nil del: forA.simps)
qed

lemma hostmask_lines:
  assumes "nset_wf toLower (old @ hs)" "\<forall>h \<in> set hs. field_ok h" "iu_id u \<noteq> None" "iu_hostmasks u = old"
  shows "forA (Reader_line (IrcUserCreator ev tmo now)) (map (\<lambda>h. ''  hostmask '' @ h) hs) (reading d u 2)
    = (Inr (), reading d (u\<lparr>iu_hostmasks := old @ hs\<rparr>) 2)"
  using assms
proof (induction hs arbitrary: old u)
  case (Cons h hs)
  have "ircset_add h old = old @ [h]"
    using Cons.prems(1) by (auto simp: nset_add_def nset_contains_def nset_wf_def simp del: nset_contains_abs)
  then have "Reader_line (IrcUserCreator ev tmo now) (''  hostmask '' @ h) (reading d u 2)
      = (Inr (), reading d (u\<lparr>iu_hostmasks := old @ [h]\<rparr>) 2)"
    using field_lines(6) [of u h] Cons.prems by simp
  with Cons.IH [of "old @ [h]" "u\<lparr>iu_hostmasks := old @ [h]\<rparr>"] Cons.prems
  show ?case by (simp add: forA_step del: forA.simps)
next
  case Nil
  then show ?case by (cases u) (simp add: forA_Nil del: forA.simps)
qed

text \<open>A user object as the creator makes it, with the id of the block.\<close>

definition fresh_user :: "int \<Rightarrow> IrcUser" where
  "fresh_user i = \<lparr>iu_id = Some i, iu_auth = [], iu_name = [], iu_ignore = False, iu_secure = False,
     iu_hashed = False, iu_password = [], iu_capabilities = [], iu_hostmasks = []\<rparr>"

text \<open>The first indented line finishes nothing, as the user has no name yet.\<close>

lemma first_field_line:
  assumes "command_word w" "field_ok rest" "iu_name u = []"
  shows "Reader_line (IrcUserCreator ev tmo now) (''  '' @ w @ CHR '' '' # rest) (reading d u 0) =
    Reader_line (IrcUserCreator ev tmo now) (''  '' @ w @ CHR '' '' # rest) (reading d u 2)"
  using Reader_line_plain [of w rest "IrcUserCreator ev tmo now" 2] assms
  unfolding two_blanks
  by (simp add: field_ok_def visible_def command_word_def Reader_indentation_def reading_def on_world_def
      IrcUserCreator_def IrcUserCreator_finish_def IrcUserCreator_init_def act_defs)

lemma field_ok_py_bool: "field_ok (py_bool b)"
  by (cases b) (simp_all add: py_bool_def field_ok_def visible_def plain_char_def newline_def is_space_def)

lemma blank_line: "Reader_line C [] r = (Inr (), r)"
  by (simp add: Reader_line_def strip_ws_def act_defs)

lemma user_lines:
  assumes u: "user_ok u" and ev: "evTF ev"
  shows "forA (Reader_line (IrcUserCreator ev tmo now)) (IrcUser_preserve ''  '' u) (reading d (fresh_user i) 0)
    = (Inr (), reading d (snd (reloaded (i, u))) 2)"
proof -
  let ?L = "Reader_line (IrcUserCreator ev tmo now)"
  let ?u1 = "(fresh_user i)\<lparr>iu_name := iu_name u\<rparr>"
  let ?u2 = "?u1\<lparr>iu_ignore := iu_ignore u\<rparr>"
  let ?u3 = "?u2\<lparr>iu_secure := iu_secure u\<rparr>"
  let ?u4 = "?u3\<lparr>iu_hashed := iu_hashed u\<rparr>"
  let ?u5 = "?u4\<lparr>iu_password := iu_password u\<rparr>"
  let ?u6 = "?u5\<lparr>iu_capabilities := rev (iu_capabilities u)\<rparr>"
  let ?u7 = "?u6\<lparr>iu_hostmasks := iu_hostmasks u\<rparr>"
  have name: "?L (''  name '' @ iu_name u) (reading d (fresh_user i) 0) = (Inr (), reading d ?u1 2)"
    using first_field_line [OF command_words(2), of "iu_name u" "fresh_user i"] field_lines(1) [of "fresh_user i" "iu_name u"] u
    by (simp add: user_ok_def fresh_user_def)
  have l2: "?L (''  ignore '' @ py_bool (iu_ignore u)) (reading d ?u1 2) = (Inr (), reading d ?u2 2)"
    by (rule field_lines(2)) (simp_all add: fresh_user_def field_ok_py_bool ev_py_bool [OF ev])
  have l3: "?L (''  secure '' @ py_bool (iu_secure u)) (reading d ?u2 2) = (Inr (), reading d ?u3 2)"
    by (rule field_lines(3)) (simp_all add: fresh_user_def field_ok_py_bool ev_py_bool [OF ev])
  have l4: "?L (''  hashed '' @ py_bool (iu_hashed u)) (reading d ?u3 2) = (Inr (), reading d ?u4 2)"
    by (rule field_lines(4)) (simp_all add: fresh_user_def field_ok_py_bool ev_py_bool [OF ev])
  have l5: "?L (''  password '' @ iu_password u) (reading d ?u4 2) = (Inr (), reading d ?u5 2)"
    by (rule field_lines(5)) (use u in \<open>simp_all add: fresh_user_def user_ok_def\<close>)
  have caps: "forA ?L (map (\<lambda>c. ''  capability '' @ c) (iu_capabilities u)) (reading d ?u5 2) = (Inr (), reading d ?u6 2)"
    using capability_lines [of "[]" "iu_capabilities u" ?u5] u by (simp add: user_ok_def fresh_user_def)
  have hosts: "forA ?L (map (\<lambda>h. ''  hostmask '' @ h) (iu_hostmasks u)) (reading d ?u6 2) = (Inr (), reading d ?u7 2)"
    using hostmask_lines [of "[]" "iu_hostmasks u" ?u6] u by (simp add: user_ok_def fresh_user_def)
  have lines: "IrcUser_preserve ''  '' u = (''  name '' @ iu_name u) # (''  ignore '' @ py_bool (iu_ignore u))
      # (''  secure '' @ py_bool (iu_secure u)) # (''  hashed '' @ py_bool (iu_hashed u)) # (''  password '' @ iu_password u)
      # map (\<lambda>c. ''  capability '' @ c) (iu_capabilities u) @ map (\<lambda>h. ''  hostmask '' @ h) (iu_hostmasks u) @ [[]]"
    by (simp add: IrcUser_preserve_def)
  have u7: "?u7 = snd (reloaded (i, u))" by (simp add: reloaded_def fresh_user_def)
  show ?thesis
    unfolding lines u7 [symmetric]
    by (simp only: forA_step [where f = ?L, OF name] forA_step [where f = ?L, OF l2] forA_step [where f = ?L, OF l3] forA_step [where f = ?L, OF l4]
        forA_step [where f = ?L, OF l5] forA_after [where f = ?L, OF caps] forA_after [where f = ?L, OF hosts] forA_step [where f = ?L, OF blank_line] forA_Nil)
qed

section \<open>Finishing a user\<close>

text \<open>The database while its file is read: nothing cached, nobody identified, not flushing.\<close>

definition clean :: "UsersDictionary \<Rightarrow> bool" where
  "clean d \<longleftrightarrow> ud_noFlush d \<and> cd_d (ud_nameCache d) = [] \<and> cd_d (ud_hostmaskCache d) = []
     \<and> (\<forall>(j, v) \<in> set (ud_users d). iu_auth v = [])"

lemma checkHostmask_no_auth:
  "iu_auth u = [] \<Longrightarrow> IrcUser_checkHostmask tmo now h True u = (first_pattern h (iu_hostmasks u), u)"
  by (cases u) (simp add: IrcUser_checkHostmask_def)

lemma collide_users_none:
  assumes "\<And>j v. (j, v) \<in> set us \<Longrightarrow> iu_auth v = [] \<and> j \<noteq> i
      \<and> (\<forall>p \<in> set (iu_hostmasks v). \<not> patternEqual p h \<and> \<not> patternEqual h p)"
  shows "collide_users tmo now i h us = (False, us)"
  using assms
proof (induction us)
  case (Cons p us)
  obtain j v where p: "p = (j, v)" by (cases p)
  from Cons.prems [of j v] p have v: "iu_auth v = []" "j \<noteq> i"
    and pats: "\<forall>p \<in> set (iu_hostmasks v). \<not> patternEqual p h \<and> \<not> patternEqual h p" by simp_all
  from pats have "first_pattern h (iu_hostmasks v) = NoMatch" by (simp add: first_pattern_iff)
  moreover have "collide_users tmo now i h us = (False, us)"
    by (rule Cons.IH, rule Cons.prems) simp
  ultimately show ?case using p v pats by (simp add: checkHostmask_no_auth)
qed simp

lemma setUser_fresh:
  assumes d: "clean d" and id: "iu_id u = Some i" and nm: "\<not> isUserHostmask (iu_name u)"
    and others: "\<And>j v. (j, v) \<in> set (ud_users d) \<Longrightarrow> j \<noteq> i \<and> py_lower (iu_name v) \<noteq> py_lower (iu_name u)
      \<and> (\<forall>h \<in> set (iu_hostmasks u). \<forall>p \<in> set (iu_hostmasks v). \<not> patternEqual p h \<and> \<not> patternEqual h p)"
  shows "UsersDictionary_setUser tmo now u True d =
    (Inr (), d\<lparr>ud_nextId := max (ud_nextId d) i, ud_users := ud_users d @ [(i, u)]\<rparr>)"
proof -
  let ?d = "d\<lparr>ud_nextId := max (ud_nextId d) i\<rparr>"
  have "find (\<lambda>(j, v). py_lower (iu_name u) = py_lower (iu_name v)) (ud_users d) = None"
    using others by (force simp: find_None_iff)
  then have name: "name_free tmo now i (iu_name u) ?d = (Inr (), ?d)"
    using d nm by (simp add: name_free_def UsersDictionary_getUserId_def name_lookup_def cache_id_def clean_def
        CacheDict_getitem_def dict_item_def act_defs)
  have "collide_users tmo now i h (ud_users d) = (False, ud_users d)" if "h \<in> set (iu_hostmasks u)" for h
    using that others d by (intro collide_users_none) (fastforce simp: clean_def)
  then have free: "hostmask_free tmo now i h ?d = (Inr (), ?d)" if "h \<in> set (iu_hostmasks u)" for h
    using that by (simp add: hostmask_free_def act_defs)
  have "set hs \<subseteq> set (iu_hostmasks u) \<Longrightarrow> forA (hostmask_free tmo now i) hs ?d = (Inr (), ?d)" for hs
    by (induction hs) (simp_all add: forA_Nil forA_step free del: forA.simps)
  then have loop: "forA (hostmask_free tmo now i) (iu_hostmasks u) ?d = (Inr (), ?d)" by simp
  have "i \<notin> fst ` set (ud_users d)" using others by force
  then have upd: "dict_set i u (ud_users d) = ud_users d @ [(i, u)]"
    by (rule dict_set_new)
  have checks: "setUser_checks tmo now i u ?d = (Inr (), ?d)"
    using d unfolding setUser_checks_def seqA_after [where m = "name_free tmo now i (iu_name u)", OF name]
      seqA_after [where m = "forA (hostmask_free tmo now i) (iu_hostmasks u)", OF loop]
    by (simp add: UsersDictionary_invalidateCache_def invalidate_id_def cache_has_def dict_has_def clean_def act_defs)
  have start: "seqA (modifyA (\<lambda>d. d\<lparr>ud_nextId := max (ud_nextId d) i\<rparr>)) n d = n ?d" for n :: "unit users_act"
    by (simp add: act_defs)
  show ?thesis
    using d by (simp add: setUser_split [OF id] start checks upd clean_def UsersDictionary_flush_def act_defs)
qed

section \<open>The whole file\<close>

definition user_block :: "int \<times> IrcUser \<Rightarrow> string list" where
  "user_block = (\<lambda>(i, u). (''user '' @ str_of_int i) # IrcUser_preserve ''  '' u)"

lemma reloaded_simps [simp]:
  "fst (reloaded p) = fst p" "iu_id (snd (reloaded p)) = Some (fst p)" "iu_name (snd (reloaded p)) = iu_name (snd p)"
  "iu_hostmasks (snd (reloaded p)) = iu_hostmasks (snd p)" "iu_auth (snd (reloaded p)) = []"
  by (cases p, simp add: reloaded_def)+

lemma storableD:
  assumes "storable us" "(i, u) \<in> set us"
  shows "user_ok u" "(j, v) \<in> set us \<Longrightarrow> py_lower (iu_name u) = py_lower (iu_name v) \<Longrightarrow> i = j"
    "(j, v) \<in> set us \<Longrightarrow> i \<noteq> j \<Longrightarrow> h \<in> set (iu_hostmasks u) \<Longrightarrow> p \<in> set (iu_hostmasks v) \<Longrightarrow>
       \<not> patternEqual p h \<and> \<not> patternEqual h p"
proof -
  show "user_ok u" "(j, v) \<in> set us \<Longrightarrow> py_lower (iu_name u) = py_lower (iu_name v) \<Longrightarrow> i = j"
    using assms unfolding storable_def by blast+
  assume *: "(j, v) \<in> set us" "i \<noteq> j" "h \<in> set (iu_hostmasks u)" "p \<in> set (iu_hostmasks v)"
  have "map_of us i = Some u" "map_of us j = Some v" "hostmasks_disjoint us"
    using assms *(1) by (auto simp: storable_def dict_wf_def)
  with * show "\<not> patternEqual p h \<and> \<not> patternEqual h p" unfolding hostmasks_disjoint_def by blast
qed

text \<open>Finishing the block of \<open>(i, u)\<close> stores the user.\<close>

lemma finish_user:
  assumes st: "storable (done @ (i, u) # rs)" and d: "clean d" "ud_users d = map reloaded done"
  shows "IrcUserCreator_finish tmo now \<lparr>uw_db = d, uw_u = Some (snd (reloaded (i, u)))\<rparr> =
    (Inr (), \<lparr>uw_db = d\<lparr>ud_nextId := max (ud_nextId d) i, ud_users := map reloaded (done @ [(i, u)])\<rparr>, uw_u = None\<rparr>)"
proof -
  let ?u = "snd (reloaded (i, u))"
  have mem: "(i, u) \<in> set (done @ (i, u) # rs)" by simp
  have dist: "j \<noteq> i" if "(j, v) \<in> set done" for j v
    using st that by (auto simp: storable_def dict_wf_def rev_image_eqI)
  have "UsersDictionary_setUser tmo now ?u True d =
      (Inr (), d\<lparr>ud_nextId := max (ud_nextId d) i, ud_users := ud_users d @ [(i, ?u)]\<rparr>)"
  proof (rule setUser_fresh [OF d(1)])
    show "\<not> isUserHostmask (iu_name ?u)" using storableD(1) [OF st mem] by (simp add: user_ok_def)
    fix j v' assume "(j, v') \<in> set (ud_users d)"
    then obtain v where v: "(j, v) \<in> set done" "v' = snd (reloaded (j, v))"
      using d(2) by (auto simp: reloaded_def)
    then have v_mem: "(j, v) \<in> set (done @ (i, u) # rs)" and ne: "j \<noteq> i" using dist by auto
    from storableD(2) [OF st v_mem mem] storableD(3) [OF st mem v_mem] ne v(2)
    show "j \<noteq> i \<and> py_lower (iu_name v') \<noteq> py_lower (iu_name ?u)
        \<and> (\<forall>h \<in> set (iu_hostmasks ?u). \<forall>p \<in> set (iu_hostmasks v'). \<not> patternEqual p h \<and> \<not> patternEqual h p)"
      by auto
  qed simp
  moreover have "iu_name ?u \<noteq> []" using storableD(1) [OF st mem] by (simp add: user_ok_def field_ok_def visible_def)
  moreover have "(i, ?u) = reloaded (i, u)" by (simp add: reloaded_def)
  ultimately show ?thesis by (simp add: IrcUserCreator_finish_def on_db_def d(2))
qed

text \<open>The line \<open>user i\<close> after a finished block, or at the start of the file.\<close>

lemma user_line_eq:
  "Reader_line (IrcUserCreator ev tmo now) (''user '' @ str_of_int i) =
    seqA (Reader_indentation (IrcUserCreator ev tmo now) 0) (seqA (modifyA (\<lambda>r. r\<lparr>rd_modifiedCreator := True\<rparr>))
        (on_world (creator_change (IrcUserCreator_user (str_of_int i)))))"
proof -
  have digits: "\<forall>c \<in> set (str_of_int i). \<not> is_space c"
    using no_space_str_of_nat by (auto simp: str_of_int_def is_space_def [of "CHR ''-''"])
  then have "field_ok (str_of_int i)"
    by (auto simp: field_ok_def visible_def plain_char_def newline_def is_space_def str_of_int_def str_of_nat_def)
  then show ?thesis
    using Reader_line_plain [of "''user''" "str_of_int i" "IrcUserCreator ev tmo now" 0] command_words(1)
    by (simp add: field_ok_def visible_def command_word_def IrcUserCreator_def IrcUserCreator_command_def)
qed

lemma user_line:
  assumes start: "r = Reader_new \<lparr>uw_db = d, uw_u = None\<rparr> \<or> (\<exists>d0 u. r = reading d0 u 2 \<and>
      IrcUserCreator_finish tmo now \<lparr>uw_db = d0, uw_u = Some u\<rparr> = (Inr (), \<lparr>uw_db = d, uw_u = None\<rparr>))"
  shows "Reader_line (IrcUserCreator ev tmo now) (''user '' @ str_of_int i) r = (Inr (), reading d (fresh_user i) 0)"
proof -
  let ?C = "IrcUserCreator ev tmo now"
  have "Reader_indentation ?C 0 r = (Inr (), \<lparr>rd_world = \<lparr>uw_db = d, uw_u = Some ((fresh_user i)\<lparr>iu_id := None\<rparr>)\<rparr>,
      rd_creator = True, rd_modifiedCreator = False, rd_indent = Some 0\<rparr>)"
    using start
    by (auto simp: Reader_indentation_def Reader_new_def reading_def on_world_def IrcUserCreator_def fresh_user_def
        IrcUserCreator_init_def IrcUser_new_def UserCapabilitySet_new_def act_defs)
  then show ?thesis
    unfolding user_line_eq
    by (simp add: act_defs on_world_def IrcUserCreator_user_def creator_change_def reading_def fresh_user_def)
qed

lemma user_block_lines:
  assumes "user_ok u" "evTF ev" "r = Reader_new \<lparr>uw_db = d, uw_u = None\<rparr> \<or> (\<exists>d0 v. r = reading d0 v 2 \<and>
      IrcUserCreator_finish tmo now \<lparr>uw_db = d0, uw_u = Some v\<rparr> = (Inr (), \<lparr>uw_db = d, uw_u = None\<rparr>))"
  shows "forA (Reader_line (IrcUserCreator ev tmo now)) (user_block (i, u)) r = (Inr (), reading d (snd (reloaded (i, u))) 2)"
  using user_line [OF assms(3), of ev i] user_lines [OF assms(1,2), of tmo now d i]
  by (simp add: user_block_def forA_step del: forA.simps)

text \<open>Reading the blocks \<open>rs\<close> after the blocks \<open>done\<close> and \<open>p\<close>, the last of which is not finished.\<close>

definition same_store :: "UsersDictionary \<Rightarrow> UsersDictionary \<Rightarrow> bool" where
  "same_store d d' \<longleftrightarrow> ud_filename d' = ud_filename d \<and> ud_disk d' = ud_disk d"

lemma blocks_lines:
  assumes "storable (done @ p # rs)" "clean d" "ud_users d = map reloaded done" "evTF ev"
  shows "\<exists>d'. forA (Reader_line (IrcUserCreator ev tmo now)) (concat (map user_block rs)) (reading d (snd (reloaded p)) 2)
      = (Inr (), reading d' (snd (reloaded (last (p # rs)))) 2)
    \<and> clean d' \<and> ud_users d' = map reloaded (done @ butlast (p # rs)) \<and> same_store d d'"
  using assms
proof (induction rs arbitrary: "done" p d)
  case Nil
  then show ?case by (auto simp: forA_Nil same_store_def simp del: forA.simps)
next
  case (Cons q rs)
  obtain i u where p: "p = (i, u)" by (cases p)
  let ?d = "d\<lparr>ud_nextId := max (ud_nextId d) i, ud_users := map reloaded (done @ [(i, u)])\<rparr>"
  from finish_user [OF Cons.prems(1) [unfolded p] Cons.prems(2,3)]
  have "IrcUserCreator_finish tmo now \<lparr>uw_db = d, uw_u = Some (snd (reloaded p))\<rparr> = (Inr (), \<lparr>uw_db = ?d, uw_u = None\<rparr>)"
    by (simp add: p)
  moreover have "user_ok (snd q)"
    using storableD(1) [OF Cons.prems(1), of "fst q" "snd q"] by simp
  ultimately have block: "forA (Reader_line (IrcUserCreator ev tmo now)) (user_block q) (reading d (snd (reloaded p)) 2)
      = (Inr (), reading ?d (snd (reloaded q)) 2)"
    using user_block_lines [OF _ Cons.prems(4), of "snd q" "reading d (snd (reloaded p)) 2" ?d tmo now "fst q"] by auto
  have "storable ((done @ [p]) @ q # rs)" "clean ?d" "ud_users ?d = map reloaded (done @ [p])"
    using Cons.prems(1,2,3) by (auto simp: clean_def p reloaded_def)
  from Cons.IH [OF this Cons.prems(4)] obtain d' where
    d': "forA (Reader_line (IrcUserCreator ev tmo now)) (concat (map user_block rs)) (reading ?d (snd (reloaded q)) 2)
      = (Inr (), reading d' (snd (reloaded (last (q # rs)))) 2)"
    "clean d'" "ud_users d' = map reloaded ((done @ [p]) @ butlast (q # rs))" "same_store ?d d'" by blast
  have "forA (Reader_line (IrcUserCreator ev tmo now)) (concat (map user_block (q # rs))) (reading d (snd (reloaded p)) 2)
      = (Inr (), reading d' (snd (reloaded (last (p # q # rs)))) 2)"
    unfolding list.map concat.simps forA_after [where f = "Reader_line (IrcUserCreator ev tmo now)", OF block] d'(1)
    by simp
  with d' show ?case by (intro exI [of _ d']) (simp add: same_store_def)
qed

text \<open>All the blocks of a table, from an empty database; the last one is not finished yet.\<close>

lemma table_lines:
  assumes "storable (p # rs)" "clean d" "ud_users d = []" "evTF ev"
  shows "\<exists>d'. forA (Reader_line (IrcUserCreator ev tmo now)) (concat (map user_block (p # rs))) (Reader_new \<lparr>uw_db = d, uw_u = None\<rparr>)
      = (Inr (), reading d' (snd (reloaded (last (p # rs)))) 2)
    \<and> clean d' \<and> ud_users d' = map reloaded (butlast (p # rs)) \<and> same_store d d'"
proof -
  have "user_ok (snd p)" using storableD(1) [OF assms(1), of "fst p" "snd p"] by simp
  from user_block_lines [OF this assms(4), of "Reader_new \<lparr>uw_db = d, uw_u = None\<rparr>" d tmo now "fst p"]
  have block: "forA (Reader_line (IrcUserCreator ev tmo now)) (user_block p) (Reader_new \<lparr>uw_db = d, uw_u = None\<rparr>)
      = (Inr (), reading d (snd (reloaded p)) 2)" by simp
  from blocks_lines [of "[]" p rs d ev tmo now] assms obtain d' where
    d': "forA (Reader_line (IrcUserCreator ev tmo now)) (concat (map user_block rs)) (reading d (snd (reloaded p)) 2)
      = (Inr (), reading d' (snd (reloaded (last (p # rs)))) 2)"
    "clean d'" "ud_users d' = map reloaded (butlast (p # rs))" "same_store d d'" by auto
  have "forA (Reader_line (IrcUserCreator ev tmo now)) (concat (map user_block (p # rs))) (Reader_new \<lparr>uw_db = d, uw_u = None\<rparr>)
      = (Inr (), reading d' (snd (reloaded (last (p # rs)))) 2)"
    unfolding list.map(2) concat.simps(2) forA_after [where f = "Reader_line (IrcUserCreator ev tmo now)", OF block] d'(1) ..
  with d' show ?thesis by blast
qed

section \<open>Flush and reload\<close>

lemma storable_perm:
  assumes "storable us" "mset us' = mset us"
  shows "storable us'"
proof -
  have set: "set us' = set us" using assms(2) by (rule mset_eq_setD)
  have "mset (map fst us') = mset (map fst us)" using assms(2) by simp
  then have wf: "dict_wf us'" using assms(1) by (metis dict_wf_def mset_eq_imp_distinct_iff storable_def)
  then have "map_of us' = map_of us"
    using assms(1) set map_of_inject_set [of us' us] by (auto simp: storable_def dict_wf_def)
  then show ?thesis using assms(1) set wf unfolding storable_def hostmasks_disjoint_def by simp
qed

lemma user_block_newline:
  assumes "user_ok u" "l \<in> set (user_block (i, u))"
  shows "newline \<notin> set l"
proof -
  have words: "\<forall>w \<in> {''user '', ''  name '', ''  ignore '', ''  secure '', ''  hashed '', ''  password '',
      ''  capability '', ''  hostmask ''}. newline \<notin> set w"
    by code_simp
  have str: "newline \<notin> set (str_of_int i)"
    using no_space_str_of_nat by (auto simp: str_of_int_def newline_def is_space_def)
  have fields: "newline \<notin> set s" if "field_ok s" for s using that by (auto simp: field_ok_def plain_char_def)
  have b: "newline \<notin> set (py_bool b)" for b using fields [OF field_ok_py_bool] .
  have add: "newline \<notin> set (x @ y)" if "newline \<notin> set x" "newline \<notin> set y" for x y using that by simp
  have eq: "user_block (i, u) = (''user '' @ str_of_int i) # (''  name '' @ iu_name u) # (''  ignore '' @ py_bool (iu_ignore u))
      # (''  secure '' @ py_bool (iu_secure u)) # (''  hashed '' @ py_bool (iu_hashed u)) # (''  password '' @ iu_password u)
      # map (\<lambda>c. ''  capability '' @ c) (iu_capabilities u) @ map (\<lambda>h. ''  hostmask '' @ h) (iu_hostmasks u) @ [[]]"
    by (simp add: user_block_def IrcUser_preserve_def)
  show ?thesis
    using assms(2) unfolding eq
    by (elim set_ConsD [elim_format] disjE; (simp only:)?)
      (use assms(1) words str fields b in \<open>auto simp: user_ok_def\<close>)
qed

lemma users_text_block: "users_text us = file_text (concat (map user_block (sort_key fst us)))"
  by (simp add: users_text_def user_block_def)

lemma flush_disk:
  assumes "\<not> ud_noFlush d" "ud_filename d = Some f"
  shows "dict_get (ud_disk (UsersDictionary_flush d)) f = Some (users_text (ud_users d))"
    "ud_filename (UsersDictionary_flush d) = Some f"
  using assms by (simp_all add: UsersDictionary_flush_def)

text \<open>The database \<open>reload\<close> reads into.\<close>

definition emptied :: "string \<Rightarrow> UsersDictionary \<Rightarrow> UsersDictionary" where
  "emptied f d = d\<lparr>ud_nextId := 0, ud_users := [], ud_nameCache := (ud_nameCache d)\<lparr>cd_d := []\<rparr>,
     ud_hostmaskCache := (ud_hostmaskCache d)\<lparr>cd_d := []\<rparr>, ud_filename := Some f, ud_noFlush := True\<rparr>"

lemma clean_emptied: "clean (emptied f d)" "ud_users (emptied f d) = []"
  by (simp_all add: clean_def emptied_def)

lemma reload_reads:
  assumes "ud_filename (uw_db w) = Some f" "dict_get (ud_disk (uw_db w)) f = Some (file_text ls)"
    and "\<forall>l \<in> set ls. newline \<notin> set l"
    and run: "Reader_read (IrcUserCreator ev tmo now) ls (Reader_new \<lparr>uw_db = emptied f (uw_db w), uw_u = uw_u w\<rparr>) = (x, r)"
  shows "ud_users (uw_db (UsersDictionary_reload ev tmo now w)) = ud_users (uw_db (rd_world r))"
    "uw_u (UsersDictionary_reload ev tmo now w) = uw_u (rd_world r)"
    "isl x \<Longrightarrow> uw_db (UsersDictionary_reload ev tmo now w) = (uw_db (rd_world r))\<lparr>ud_noFlush := False\<rparr>"
proof -
  have eq: "w\<lparr>uw_db := emptied f (uw_db w)\<rparr> = \<lparr>uw_db = emptied f (uw_db w), uw_u = uw_u w\<rparr>" by (cases w) simp
  have "Reader_readFile (IrcUserCreator ev tmo now) (dict_get (ud_disk (emptied f (uw_db w))) f)
      (w\<lparr>uw_db := emptied f (uw_db w)\<rparr>) = (x, rd_world r)"
    unfolding eq Reader_readFile_def using assms(2) run file_lines_text [OF assms(3)] by (simp add: emptied_def)
  moreover have "UsersDictionary_reload ev tmo now w =
      (let (r, w1) = Reader_readFile (IrcUserCreator ev tmo now) (dict_get (ud_disk (emptied f (uw_db w))) f)
            (w\<lparr>uw_db := emptied f (uw_db w)\<rparr>);
           d1 = (uw_db w1)\<lparr>ud_noFlush := False\<rparr>
       in w1\<lparr>uw_db := (if isl r then d1 else UsersDictionary_flush d1)\<rparr>)"
    using assms(1) by (simp add: UsersDictionary_reload_def UsersDictionary_open_def emptied_def Let_def)
  ultimately have "UsersDictionary_reload ev tmo now w =
      (let d1 = (uw_db (rd_world r))\<lparr>ud_noFlush := False\<rparr>
       in (rd_world r)\<lparr>uw_db := (if isl x then d1 else UsersDictionary_flush d1)\<rparr>)"
    by simp
  then show "ud_users (uw_db (UsersDictionary_reload ev tmo now w)) = ud_users (uw_db (rd_world r))"
    "uw_u (UsersDictionary_reload ev tmo now w) = uw_u (rd_world r)"
    "isl x \<Longrightarrow> uw_db (UsersDictionary_reload ev tmo now w) = (uw_db (rd_world r))\<lparr>ud_noFlush := False\<rparr>"
    by (simp_all add: Let_def)
qed


definition sample_world :: users_world where
  "sample_world = \<lparr>uw_db = (UsersDictionary_new [])\<lparr>ud_filename := Some ''users.conf'',
     ud_users := [(2, sample_user 2 ''jane'' [''*!jane@*.example'']), (1, sample_user 1 ''joe'' [''*!joe@*.example''])]\<rparr>,
     uw_u = None\<rparr>"

lemma visible_sample: "field_ok ''jane''" "field_ok ''joe''" "field_ok ''pw''" "field_ok ''*!jane@*.example''"
  "field_ok ''*!joe@*.example''" "\<not> isUserHostmask ''jane''" "\<not> isUserHostmask ''joe''"
  "\<not> patternEqual ''*!jane@*.example'' ''*!joe@*.example''" "\<not> patternEqual ''*!joe@*.example'' ''*!jane@*.example''"
  "py_lower ''jane'' \<noteq> py_lower ''joe''"
  by code_simp+

lemma storable_sample: "storable (ud_users (uw_db sample_world))"
  using visible_sample
  by (auto simp: storable_def sample_world_def sample_user_def UsersDictionary_new_def dict_wf_def hostmasks_disjoint_def
      user_ok_def nset_wf_def split: if_splits)

definition evBool :: "string \<Rightarrow> bool res" where
  "evBool s = (if s = ''True'' then Inr True else if s = ''False'' then Inr False else Inl TypeError)"

lemma evTF_evBool: "evTF evBool"
  by (simp add: evTF_def evBool_def)


section \<open>A user without a name\<close>

lemma unnamed_line: "Reader_line C ''  name '' = seqA (Reader_indentation C 2) (raiseA ValueError)"
proof -
  have "strip_ws ''  name '' \<noteq> []" "rstrip_in [CHR 0x0D, newline] ''  name '' = ''  name ''"
    "expandtabs 0 ''  name '' = ''  name ''" "lstrip_in '' '' ''  name '' = ''name ''" "split_ws1 ''name '' = [''name'']"
    by code_simp+
  then show ?thesis by (simp add: Reader_line_def Let_def)
qed

lemma unnamed_block:
  assumes "iu_name u = []"
    and start: "r = Reader_new \<lparr>uw_db = d, uw_u = None\<rparr> \<or> (\<exists>d0 v. r = reading d0 v 2 \<and>
      IrcUserCreator_finish tmo now \<lparr>uw_db = d0, uw_u = Some v\<rparr> = (Inr (), \<lparr>uw_db = d, uw_u = None\<rparr>))"
  shows "\<exists>r'. forA (Reader_line (IrcUserCreator ev tmo now)) (user_block (i, u) @ ls) r = (Inl ValueError, r')
    \<and> rd_world r' = \<lparr>uw_db = d, uw_u = Some (fresh_user i)\<rparr>"
proof -
  let ?L = "Reader_line (IrcUserCreator ev tmo now)"
  have "user_block (i, u) @ ls = (''user '' @ str_of_int i) # ''  name '' # tl (tl (user_block (i, u) @ ls))"
    using assms(1) by (simp add: user_block_def IrcUser_preserve_def)
  moreover have "\<exists>r'. ?L ''  name '' (reading d (fresh_user i) 0) = (Inl ValueError, r')
      \<and> rd_world r' = \<lparr>uw_db = d, uw_u = Some (fresh_user i)\<rparr>"
    unfolding unnamed_line
    by (simp add: Reader_indentation_def reading_def on_world_def IrcUserCreator_def IrcUserCreator_finish_def
        IrcUserCreator_init_def fresh_user_def act_defs)
  then obtain r' where r': "?L ''  name '' (reading d (fresh_user i) 0) = (Inl ValueError, r')"
    "rd_world r' = \<lparr>uw_db = d, uw_u = Some (fresh_user i)\<rparr>" by blast
  ultimately have "forA ?L (user_block (i, u) @ ls) r = (Inl ValueError, r')"
    using forA_step [where f = ?L, OF user_line [OF start, of ev i]] forA_error [where f = ?L, OF r'(1)] by metis
  with r'(2) show ?thesis by blast
qed

text \<open>
  A user without a name, which is what \<open>newUser\<close> stores until a name is set, breaks the file: when it
  is flushed and reloaded the users before it in the order of their ids come back and all the others are
  lost; and as the creator's class variable keeps the half-read user, another reload loses them all.
\<close>

theorem unnamed_user_breaks_reload:
  assumes table: "sort_key fst (ud_users (uw_db w)) = us @ (i, u) # vs" and us: "storable us" and u: "iu_name u = []"
    and lines: "\<forall>l \<in> set (concat (map user_block (us @ (i, u) # vs))). newline \<notin> set l" and ev: "evTF ev"
    and w: "\<not> ud_noFlush (uw_db w)" "ud_filename (uw_db w) = Some f" "uw_u w = None"
  shows "let w1 = UsersDictionary_reload ev tmo now (w\<lparr>uw_db := UsersDictionary_flush (uw_db w)\<rparr>)
    in ud_users (uw_db w1) = map reloaded us \<and> uw_u w1 = Some (fresh_user i)
       \<and> ud_users (uw_db (UsersDictionary_reload ev tmo now w1)) = []"
proof -
  let ?w = "w\<lparr>uw_db := UsersDictionary_flush (uw_db w)\<rparr>" and ?C = "IrcUserCreator ev tmo now"
  let ?ls = "concat (map user_block (us @ (i, u) # vs))" and ?d = "emptied f (UsersDictionary_flush (uw_db w))"
  let ?tail = "user_block (i, u) @ concat (map user_block vs)"
  have disk: "dict_get (ud_disk (uw_db ?w)) f = Some (file_text ?ls)" "ud_filename (uw_db ?w) = Some f"
    using flush_disk [OF w(1,2)] table by (simp_all add: users_text_block)
  have "\<exists>r d. forA (Reader_line ?C) ?ls (Reader_new \<lparr>uw_db = ?d, uw_u = None\<rparr>) = (Inl ValueError, r)
      \<and> rd_world r = \<lparr>uw_db = d, uw_u = Some (fresh_user i)\<rparr> \<and> ud_users d = map reloaded us \<and> same_store ?d d"
  proof (cases us)
    case Nil
    with unnamed_block [OF u disjI1 [OF refl], of ev tmo now i "concat (map user_block vs)" ?d] clean_emptied
    show ?thesis by (fastforce simp: same_store_def)
  next
    case (Cons p rs)
    from table_lines [OF us [unfolded Cons] clean_emptied ev, of tmo now f "UsersDictionary_flush (uw_db w)"] obtain d' where
      d': "forA (Reader_line ?C) (concat (map user_block us)) (Reader_new \<lparr>uw_db = ?d, uw_u = None\<rparr>)
          = (Inr (), reading d' (snd (reloaded (last (p # rs)))) 2)"
      "clean d'" "ud_users d' = map reloaded (butlast (p # rs))" "same_store ?d d'"
      unfolding Cons by blast
    obtain j v where l: "last (p # rs) = (j, v)" by fastforce
    have split: "p # rs = butlast (p # rs) @ [(j, v)]" unfolding l [symmetric] by simp
    let ?d' = "d'\<lparr>ud_nextId := max (ud_nextId d') j, ud_users := map reloaded (butlast (p # rs) @ [(j, v)])\<rparr>"
    have fin: "IrcUserCreator_finish tmo now \<lparr>uw_db = d', uw_u = Some (snd (reloaded (j, v)))\<rparr> = (Inr (), \<lparr>uw_db = ?d', uw_u = None\<rparr>)"
    proof (rule finish_user [OF _ d'(2,3)])
      show "storable (butlast (p # rs) @ (j, v) # [])" using us unfolding Cons by (subst (asm) split)
    qed
    obtain r where r: "forA (Reader_line ?C) ?tail (reading d' (snd (reloaded (last (p # rs)))) 2) = (Inl ValueError, r)"
      "rd_world r = \<lparr>uw_db = ?d', uw_u = Some (fresh_user i)\<rparr>"
      using unnamed_block [OF u disjI2, of "reading d' (snd (reloaded (last (p # rs)))) 2" tmo now ?d' ev i "concat (map user_block vs)"] fin
      unfolding l by blast
    have "forA (Reader_line ?C) ?ls (Reader_new \<lparr>uw_db = ?d, uw_u = None\<rparr>) = (Inl ValueError, r)"
      using forA_after [where f = "Reader_line ?C", OF d'(1)] r(1) by simp
    moreover have "ud_users ?d' = map reloaded us" unfolding Cons by (subst (2) split) simp
    ultimately show ?thesis using r(2) d'(4) by (auto simp: same_store_def)
  qed
  then obtain r d where read: "forA (Reader_line ?C) ?ls (Reader_new \<lparr>uw_db = ?d, uw_u = None\<rparr>) = (Inl ValueError, r)"
    and r: "rd_world r = \<lparr>uw_db = d, uw_u = Some (fresh_user i)\<rparr>" "ud_users d = map reloaded us" "same_store ?d d" by blast
  let ?w1 = "UsersDictionary_reload ev tmo now ?w"
  have "Reader_read ?C ?ls (Reader_new \<lparr>uw_db = emptied f (uw_db ?w), uw_u = uw_u ?w\<rparr>) = (Inl ValueError, r)"
    using read w(3) by (simp add: Reader_read_def seqA_error)
  note first = reload_reads [OF disk(2,1) lines this]
  have w1: "ud_filename (uw_db ?w1) = Some f" "dict_get (ud_disk (uw_db ?w1)) f = Some (file_text ?ls)" "uw_u ?w1 = Some (fresh_user i)"
    using first r disk by (simp_all add: same_store_def emptied_def)
  obtain k ls where ls: "?ls = (''user '' @ str_of_int k) # ls"
    by (cases us) (auto simp: user_block_def split: prod.split)
  have "\<exists>r'. Reader_line ?C (''user '' @ str_of_int k) (Reader_new \<lparr>uw_db = emptied f (uw_db ?w1), uw_u = Some (fresh_user i)\<rparr>)
      = (Inl ValueError, r') \<and> uw_db (rd_world r') = emptied f (uw_db ?w1)"
    unfolding user_line_eq
    by (simp add: Reader_indentation_def Reader_new_def on_world_def IrcUserCreator_def IrcUserCreator_init_def
        IrcUserCreator_user_def creator_change_def fresh_user_def act_defs)
  then obtain r' where "Reader_read ?C ?ls (Reader_new \<lparr>uw_db = emptied f (uw_db ?w1), uw_u = uw_u ?w1\<rparr>) = (Inl ValueError, r')"
    "uw_db (rd_world r') = emptied f (uw_db ?w1)"
    unfolding w1(3) ls Reader_read_def by (auto simp: seqA_error forA_error simp del: forA.simps)
  from reload_reads(1) [OF w1(1,2) lines this(1)] this(2) have "ud_users (uw_db (UsersDictionary_reload ev tmo now ?w1)) = []"
    by (simp add: emptied_def)
  with first r w1(3) show ?thesis by (simp add: Let_def)
qed

theorem unnamed_user_breaks_reload_witness:
  "let w = sample_world\<lparr>uw_db := (uw_db sample_world)\<lparr>ud_users := [(1, sample_user 1 ''joe'' []), (2, sample_user 2 [] []),
         (3, sample_user 3 ''jane'' [])]\<rparr>\<rparr>;
       w1 = UsersDictionary_reload evBool 0 0 (w\<lparr>uw_db := UsersDictionary_flush (uw_db w)\<rparr>)
   in map fst (ud_users (uw_db w1)) = [1]"
proof -
  let ?us = "[(1, sample_user 1 ''joe'' []), (2, sample_user 2 [] []), (3, sample_user 3 ''jane'' [])]"
  let ?w = "sample_world\<lparr>uw_db := (uw_db sample_world)\<lparr>ud_users := ?us\<rparr>\<rparr>"
  have "\<not> ud_noFlush (uw_db ?w)" "ud_filename (uw_db ?w) = Some ''users.conf''" "uw_u ?w = None"
    by (simp_all add: sample_world_def UsersDictionary_new_def)
  moreover have "sort_key fst (ud_users (uw_db ?w)) = [(1, sample_user 1 ''joe'' [])] @ (2, sample_user 2 [] []) # [(3, sample_user 3 ''jane'' [])]"
    by simp
  moreover have "storable [(1, sample_user 1 ''joe'' [])]"
    using visible_sample
    by (simp add: storable_def sample_user_def dict_wf_def hostmasks_disjoint_def user_ok_def nset_wf_def)
  moreover have "iu_name (sample_user 2 [] []) = []" by (simp add: sample_user_def)
  moreover have "\<forall>l \<in> set (concat (map user_block ([(1, sample_user 1 ''joe'' [])] @ (2, sample_user 2 [] []) # [(3, sample_user 3 ''jane'' [])]))). newline \<notin> set l"
    by code_simp
  ultimately have "map fst (ud_users (uw_db (UsersDictionary_reload evBool 0 0 (?w\<lparr>uw_db := UsersDictionary_flush (uw_db ?w)\<rparr>))))
      = map fst (map reloaded [(1, sample_user 1 ''joe'' [])])"
    using unnamed_user_breaks_reload [OF _ _ _ _ evTF_evBool, of ?w] unfolding Let_def by metis
  then show ?thesis by (simp add: Let_def)
qed

end
