(* ===== verification/ChannelsDb.thy ===== *)
theory ChannelsDb
  imports Capabilities Unpreserve
begin

text \<open>
  \<open>IrcChannel\<close>, \<open>ChannelsDictionary\<close>, \<open>IrcChannelCreator\<close> and \<open>IgnoresDB\<close> of \<open>ircdb.py\<close>: the settings, bans
  and ignores of a channel, the table of channels with its file, and the list of ignored hostmasks.

  The clock \<open>now\<close> and the file system are arguments; \<open>readInt\<close> is \<open>int(float(s))\<close> and \<open>ev\<close> is \<open>bool(eval(s))\<close>.
\<close>

section \<open>Expiring lists of hostmasks\<close>

text \<open>
  The loop over \<open>items()\<close>, a copy of the dictionary: whether a live entry matches, and the dead entries
  that were deleted before the loop ended.
\<close>

fun expire_scan :: "(int \<Rightarrow> bool) \<Rightarrow> string \<Rightarrow> (string \<times> int) list \<Rightarrow> bool \<times> (string \<times> int) list" where
  "expire_scan live h [] = (False, [])"
| "expire_scan live h ((p, e) # ps) =
     (if live e then (if patternEqual p h then (True, []) else expire_scan live h ps)
      else (case expire_scan live h ps of (b, dead) \<Rightarrow> (b, (p, e) # dead)))"

definition drop_dead :: "(string \<times> int) list \<Rightarrow> (string, int) dict \<Rightarrow> (string, int) dict" where
  "drop_dead dead d = fold (\<lambda>(p, e). dict_drop p) dead d"

text \<open>\<open>now < expiration or not expiration\<close>.\<close>

definition ban_live :: "int \<Rightarrow> int \<Rightarrow> bool" where
  "ban_live now e \<longleftrightarrow> now < e \<or> e = 0"

section \<open>IrcChannel\<close>

record IrcChannel =
  ic_defaultAllow :: bool
  ic_expiredBans :: "(string \<times> int) list"
  ic_bans :: "(string, int) dict"
  ic_ignores :: "(string, int) dict"
  ic_silences :: "string list"
  ic_exceptions :: "string list"
  ic_capabilities :: CapabilitySet
  ic_lobotomized :: bool

definition defaultOff :: "string list" where
  "defaultOff = [''op'', ''halfop'', ''voice'', ''protected'']"

definition default_off :: "string \<Rightarrow> CapabilitySet \<Rightarrow> CapabilitySet res" where
  "default_off cap cs =
     bindR (CapabilitySet_contains cs cap) (\<lambda>b.
       if b then Inr cs else bindR (makeAntiCapability cap) (\<lambda>anti. CapabilitySet_add anti cs))"

definition IrcChannel_new :: "(string, int) dict \<Rightarrow> string list \<Rightarrow> string list \<Rightarrow> (string, int) dict \<Rightarrow> CapabilitySet \<Rightarrow> bool \<Rightarrow> bool
    \<Rightarrow> IrcChannel res" where
  "IrcChannel_new bans silences exceptions ignores capabilities lobotomized defaultAllow =
     bindR (foldR default_off defaultOff capabilities) (\<lambda>cs.
       Inr \<lparr>ic_defaultAllow = defaultAllow, ic_expiredBans = [], ic_bans = bans, ic_ignores = ignores,
            ic_silences = silences, ic_exceptions = exceptions, ic_capabilities = cs, ic_lobotomized = lobotomized\<rparr>)"

definition IrcChannel_addBan :: "string \<Rightarrow> int \<Rightarrow> IrcChannel \<Rightarrow> IrcChannel res" where
  "IrcChannel_addBan hostmask expiration c =
     py_assert (isUserHostmask hostmask) (Inr (c\<lparr>ic_bans := dict_set hostmask expiration (ic_bans c)\<rparr>))"

definition IrcChannel_removeBan :: "string \<Rightarrow> IrcChannel \<Rightarrow> (int \<times> IrcChannel) res" where
  "IrcChannel_removeBan hostmask c =
     py_assert (isUserHostmask hostmask)
       (bindR (dict_item (ic_bans c) hostmask) (\<lambda>e. Inr (e, c\<lparr>ic_bans := dict_drop hostmask (ic_bans c)\<rparr>)))"

definition IrcChannel_checkBan :: "int \<Rightarrow> string \<Rightarrow> (IrcChannel, bool) act" where
  "IrcChannel_checkBan now hostmask =
     seqA (assertA (isUserHostmask hostmask))
       (bindA (getA (\<lambda>c. expire_scan (ban_live now) hostmask (ic_bans c))) (\<lambda>(b, dead).
         seqA (modifyA (\<lambda>c. c\<lparr>ic_expiredBans := ic_expiredBans c @ dead, ic_bans := drop_dead dead (ic_bans c)\<rparr>))
           (retA b)))"

definition IrcChannel_addIgnore :: "string \<Rightarrow> int \<Rightarrow> IrcChannel \<Rightarrow> IrcChannel res" where
  "IrcChannel_addIgnore hostmask expiration c =
     py_assert (isUserHostmask hostmask) (Inr (c\<lparr>ic_ignores := dict_set hostmask expiration (ic_ignores c)\<rparr>))"

definition IrcChannel_removeIgnore :: "string \<Rightarrow> IrcChannel \<Rightarrow> (int \<times> IrcChannel) res" where
  "IrcChannel_removeIgnore hostmask c =
     py_assert (isUserHostmask hostmask)
       (bindR (dict_item (ic_ignores c) hostmask) (\<lambda>e. Inr (e, c\<lparr>ic_ignores := dict_drop hostmask (ic_ignores c)\<rparr>)))"

definition IrcChannel_addCapability :: "string \<Rightarrow> IrcChannel \<Rightarrow> IrcChannel res" where
  "IrcChannel_addCapability cap c =
     py_assert (isCapability cap)
       (bindR (CapabilitySet_add cap (ic_capabilities c)) (\<lambda>cs. Inr (c\<lparr>ic_capabilities := cs\<rparr>)))"

definition IrcChannel_removeCapability :: "string \<Rightarrow> IrcChannel \<Rightarrow> IrcChannel res" where
  "IrcChannel_removeCapability cap c =
     py_assert (isCapability cap)
       (bindR (CapabilitySet_remove cap (ic_capabilities c)) (\<lambda>cs. Inr (c\<lparr>ic_capabilities := cs\<rparr>)))"

definition IrcChannel_setDefaultCapability :: "bool \<Rightarrow> IrcChannel \<Rightarrow> IrcChannel" where
  "IrcChannel_setDefaultCapability b c = c\<lparr>ic_defaultAllow := b\<rparr>"

definition IrcChannel_checkCapability :: "string \<Rightarrow> IrcChannel \<Rightarrow> bool res" where
  "IrcChannel_checkCapability cap c =
     py_assert (isCapability cap)
       (bindR (CapabilitySet_contains (ic_capabilities c) cap) (\<lambda>b.
         if b then CapabilitySet_check (ic_capabilities c) cap
         else Inr (if isAntiCapability cap then \<not> ic_defaultAllow c else ic_defaultAllow c)))"

text \<open>\<open>testing\<close> is \<open>world.testing\<close>.\<close>

definition IrcChannel_checkIgnored :: "bool \<Rightarrow> int \<Rightarrow> string \<Rightarrow> (IrcChannel, bool) act" where
  "IrcChannel_checkIgnored testing now hostmask =
     bindA (getA ic_lobotomized) (\<lambda>lobotomized.
       if lobotomized then retA True
       else if testing then retA False
       else seqA (assertA (isUserHostmask hostmask))
         (bindA (IrcChannel_checkBan now hostmask) (\<lambda>banned.
           if banned then retA True
           else bindA (getA (\<lambda>c. expire_scan (ban_live now) hostmask (ic_ignores c))) (\<lambda>(b, dead).
             seqA (modifyA (\<lambda>c. c\<lparr>ic_ignores := drop_dead dead (ic_ignores c)\<rparr>)) (retA b)))))"

text \<open>The bans and the ignores are written in the order of their expiration.\<close>

definition IrcChannel_preserve :: "string \<Rightarrow> IrcChannel \<Rightarrow> string list" where
  "IrcChannel_preserve indent c =
     map (\<lambda>s. indent @ s)
       ([''lobotomized '' @ py_bool (ic_lobotomized c), ''defaultAllow '' @ py_bool (ic_defaultAllow c)]
        @ map (\<lambda>cap. ''capability '' @ cap) (ic_capabilities c)
        @ map (\<lambda>(b, e). ''ban '' @ b @ '' '' @ str_of_int e) (sortBy snd (ic_bans c))
        @ map (\<lambda>(b, e). ''ignore '' @ b @ '' '' @ str_of_int e) (sortBy snd (ic_ignores c))) @ [[]]"

section \<open>ChannelsDictionary\<close>

record ChannelsDictionary =
  cn_noFlush :: bool
  cn_filename :: "string option"
  cn_channels :: "IrcChannel IrcDict"
  cn_disk :: "(string, string) dict"

definition ChannelsDictionary_new :: "(string, string) dict \<Rightarrow> ChannelsDictionary" where
  "ChannelsDictionary_new disk = \<lparr>cn_noFlush = False, cn_filename = None, cn_channels = [], cn_disk = disk\<rparr>"

definition channels_text :: "IrcChannel IrcDict \<Rightarrow> string" where
  "channels_text cs = file_text (concat (map (\<lambda>(name, c). (''channel '' @ name) # IrcChannel_preserve ''  '' c) (pdict_iteritems cs)))"

definition ChannelsDictionary_flush :: "ChannelsDictionary \<Rightarrow> ChannelsDictionary" where
  "ChannelsDictionary_flush d =
     (if cn_noFlush d then d
      else case cn_filename d of
        None \<Rightarrow> d
      | Some f \<Rightarrow> d\<lparr>cn_disk := dict_set f (channels_text (cn_channels d)) (cn_disk d)\<rparr>)"

definition ChannelsDictionary_close :: "ChannelsDictionary \<Rightarrow> ChannelsDictionary" where
  "ChannelsDictionary_close d = (ChannelsDictionary_flush d)\<lparr>cn_channels := []\<rparr>"

text \<open>\<open>IrcChannel()\<close> never raises; the result is named once.\<close>

definition new_channel :: IrcChannel where
  "new_channel = projr (IrcChannel_new [] [] [] [] [] False True)"

definition ChannelsDictionary_getChannel :: "string \<Rightarrow> ChannelsDictionary \<Rightarrow> IrcChannel \<times> ChannelsDictionary" where
  "ChannelsDictionary_getChannel channel d =
     (let name = py_lower channel in
      case ircdict_get (cn_channels d) name of
        Some c \<Rightarrow> (c, d)
      | None \<Rightarrow> (new_channel, d\<lparr>cn_channels := ircdict_set name new_channel (cn_channels d)\<rparr>))"

definition ChannelsDictionary_setChannel :: "string \<Rightarrow> IrcChannel \<Rightarrow> ChannelsDictionary \<Rightarrow> ChannelsDictionary" where
  "ChannelsDictionary_setChannel channel c d =
     ChannelsDictionary_flush (d\<lparr>cn_channels := ircdict_set (py_lower channel) c (cn_channels d)\<rparr>)"

definition ChannelsDictionary_iteritems :: "ChannelsDictionary \<Rightarrow> (string \<times> IrcChannel) list" where
  "ChannelsDictionary_iteritems d = pdict_iteritems (cn_channels d)"

text \<open>A method of the channel object \<open>getChannel\<close> returns, which is the one in the table.\<close>

definition on_channel :: "string \<Rightarrow> (IrcChannel, 'a) act \<Rightarrow> (ChannelsDictionary, 'a) act" where
  "on_channel channel m = (\<lambda>d.
     (case ChannelsDictionary_getChannel channel d of (c, d1) \<Rightarrow>
        case m c of (x, c') \<Rightarrow> (x, d1\<lparr>cn_channels := ircdict_modify (py_lower channel) (\<lambda>_. c') (cn_channels d1)\<rparr>)))"

section \<open>Reading the file\<close>

text \<open>\<open>cw_name\<close> is the class variable \<open>name\<close>; \<open>cw_c\<close> and \<open>cw_hadChannel\<close> are fields of the current creator.\<close>

record channels_world =
  cw_db :: ChannelsDictionary
  cw_name :: "string option"
  cw_c :: IrcChannel
  cw_hadChannel :: bool

definition IrcChannelCreator_init :: "(channels_world, unit) act" where
  "IrcChannelCreator_init =
     modifyA (\<lambda>w. w\<lparr>cw_c := new_channel, cw_hadChannel := (cw_name w \<noteq> None \<and> cw_name w \<noteq> Some [])\<rparr>)"

definition IrcChannelCreator_channel :: "string \<Rightarrow> (channels_world, unit) act" where
  "IrcChannelCreator_channel rest =
     bindA (getA cw_name) (\<lambda>nm. if nm \<noteq> None then raiseA ValueError else modifyA (\<lambda>w. w\<lparr>cw_name := Some rest\<rparr>))"

definition IrcChannelCreator_checkId :: "(channels_world, unit) act" where
  "IrcChannelCreator_checkId = bindA (getA cw_name) (\<lambda>nm. if nm = None then raiseA ValueError else retA ())"

definition channel_change :: "(IrcChannel \<Rightarrow> IrcChannel res) \<Rightarrow> (channels_world, unit) act" where
  "channel_change f =
     seqA IrcChannelCreator_checkId
       (bindA (getA cw_c) (\<lambda>c. bindA (liftA (f c)) (\<lambda>c'. modifyA (\<lambda>w. w\<lparr>cw_c := c'\<rparr>))))"

definition IrcChannelCreator_lobotomized :: "(string \<Rightarrow> bool res) \<Rightarrow> string \<Rightarrow> (channels_world, unit) act" where
  "IrcChannelCreator_lobotomized ev rest =
     channel_change (\<lambda>c. bindR (ev rest) (\<lambda>b. Inr (c\<lparr>ic_lobotomized := b\<rparr>)))"

definition IrcChannelCreator_defaultallow :: "(string \<Rightarrow> bool res) \<Rightarrow> string \<Rightarrow> (channels_world, unit) act" where
  "IrcChannelCreator_defaultallow ev rest =
     channel_change (\<lambda>c. bindR (ev rest) (\<lambda>b. Inr (c\<lparr>ic_defaultAllow := b\<rparr>)))"

definition IrcChannelCreator_capability :: "string \<Rightarrow> (channels_world, unit) act" where
  "IrcChannelCreator_capability rest =
     channel_change (\<lambda>c. bindR (CapabilitySet_add rest (ic_capabilities c)) (\<lambda>cs. Inr (c\<lparr>ic_capabilities := cs\<rparr>)))"

text \<open>\<open>(pattern, expiration) = rest.split()\<close>.\<close>

definition two_words :: "string \<Rightarrow> (string \<times> string) res" where
  "two_words rest = (case split_ws rest of [p, e] \<Rightarrow> Inr (p, e) | _ \<Rightarrow> Inl ValueError)"

definition IrcChannelCreator_ban :: "(string \<Rightarrow> int res) \<Rightarrow> string \<Rightarrow> (channels_world, unit) act" where
  "IrcChannelCreator_ban readInt rest =
     channel_change (\<lambda>c. bindR (two_words rest) (\<lambda>(p, e). bindR (readInt e) (\<lambda>n.
       Inr (c\<lparr>ic_bans := dict_set p n (ic_bans c)\<rparr>))))"

definition IrcChannelCreator_ignore :: "(string \<Rightarrow> int res) \<Rightarrow> string \<Rightarrow> (channels_world, unit) act" where
  "IrcChannelCreator_ignore readInt rest =
     channel_change (\<lambda>c. bindR (two_words rest) (\<lambda>(p, e). bindR (readInt e) (\<lambda>n.
       Inr (c\<lparr>ic_ignores := dict_set p n (ic_ignores c)\<rparr>))))"

definition IrcChannelCreator_finish :: "(channels_world, unit) act" where
  "IrcChannelCreator_finish =
     bindA (getA (\<lambda>w. (cw_hadChannel w, cw_name w))) (\<lambda>(had, nm).
       if had then
         (case nm of
            None \<Rightarrow> raiseA AttributeError
          | Some name \<Rightarrow> modifyA (\<lambda>w. w\<lparr>cw_db := ChannelsDictionary_setChannel name (cw_c w) (cw_db w), cw_name := None\<rparr>))
       else retA ())"

definition IrcChannelCreator_command :: "(string \<Rightarrow> bool res) \<Rightarrow> (string \<Rightarrow> int res) \<Rightarrow> string \<Rightarrow> string \<Rightarrow> (channels_world, unit) act" where
  "IrcChannelCreator_command ev readInt command rest =
     (if command = ''channel'' then IrcChannelCreator_channel rest
      else if command = ''lobotomized'' then IrcChannelCreator_lobotomized ev rest
      else if command = ''defaultallow'' then IrcChannelCreator_defaultallow ev rest
      else if command = ''capability'' then IrcChannelCreator_capability rest
      else if command = ''ban'' then IrcChannelCreator_ban readInt rest
      else if command = ''ignore'' then IrcChannelCreator_ignore readInt rest
      else if command \<in> {''finish'', ''c'', ''channels'', ''name''} then raiseA TypeError
      else raiseA ValueError)"

definition IrcChannelCreator :: "(string \<Rightarrow> bool res) \<Rightarrow> (string \<Rightarrow> int res) \<Rightarrow> channels_world Creator" where
  "IrcChannelCreator ev readInt =
     \<lparr>cr_new = IrcChannelCreator_init, cr_finish = IrcChannelCreator_finish,
      cr_command = IrcChannelCreator_command ev readInt\<rparr>"

definition ChannelsDictionary_open :: "(string \<Rightarrow> bool res) \<Rightarrow> (string \<Rightarrow> int res) \<Rightarrow> string \<Rightarrow> channels_world \<Rightarrow> channels_world" where
  "ChannelsDictionary_open ev readInt filename w =
     (let d = (cw_db w)\<lparr>cn_filename := Some filename, cn_noFlush := True\<rparr>;
          (r, w1) = Reader_readFile (IrcChannelCreator ev readInt) (dict_get (cn_disk d) filename) (w\<lparr>cw_db := d\<rparr>);
          d1 = (cw_db w1)\<lparr>cn_noFlush := False\<rparr>
      in w1\<lparr>cw_db := (if isl r then d1 else ChannelsDictionary_flush d1)\<rparr>)"

definition ChannelsDictionary_reload :: "(string \<Rightarrow> bool res) \<Rightarrow> (string \<Rightarrow> int res) \<Rightarrow> channels_world \<Rightarrow> channels_world" where
  "ChannelsDictionary_reload ev readInt w =
     (case cn_filename (cw_db w) of
        None \<Rightarrow> w
      | Some f \<Rightarrow> ChannelsDictionary_open ev readInt f (w\<lparr>cw_db := (cw_db w)\<lparr>cn_channels := []\<rparr>\<rparr>))"

section \<open>IgnoresDB\<close>

record IgnoresDB =
  ig_filename :: "string option"
  ig_hostmasks :: "(string, int) dict"
  ig_disk :: "(string, string) dict"

definition IgnoresDB_new :: "(string, string) dict \<Rightarrow> IgnoresDB" where
  "IgnoresDB_new disk = \<lparr>ig_filename = None, ig_hostmasks = [], ig_disk = disk\<rparr>"

definition IgnoresDB_add :: "string \<Rightarrow> int \<Rightarrow> IgnoresDB \<Rightarrow> IgnoresDB res" where
  "IgnoresDB_add hostmask expiration d =
     py_assert (isUserHostmask hostmask) (Inr (d\<lparr>ig_hostmasks := dict_set hostmask expiration (ig_hostmasks d)\<rparr>))"

definition IgnoresDB_remove :: "string \<Rightarrow> IgnoresDB \<Rightarrow> IgnoresDB res" where
  "IgnoresDB_remove hostmask d = bindR (dict_del hostmask (ig_hostmasks d)) (\<lambda>hs. Inr (d\<lparr>ig_hostmasks := hs\<rparr>))"

text \<open>One line of the file; whatever goes wrong is logged.\<close>

definition ignores_line :: "(string \<Rightarrow> int res) \<Rightarrow> string \<Rightarrow> IgnoresDB \<Rightarrow> IgnoresDB" where
  "ignores_line readInt line d =
     (case split_ws (rstrip_in [CHR 0x0D, newline] line) of
        [] \<Rightarrow> d
      | hostmask # L \<Rightarrow>
          (case bindR (case L of [] \<Rightarrow> Inr 0 | e # _ \<Rightarrow> readInt e) (\<lambda>expiration. IgnoresDB_add hostmask expiration d) of
             Inr d' \<Rightarrow> d' | Inl _ \<Rightarrow> d))"

definition nonCommentNonEmptyLines :: "string list \<Rightarrow> string list" where
  "nonCommentNonEmptyLines ls = filter (\<lambda>l. strip_ws l \<noteq> []) (filter (\<lambda>l. \<not> startswith l ''#'') ls)"

definition IgnoresDB_open :: "(string \<Rightarrow> int res) \<Rightarrow> string \<Rightarrow> (IgnoresDB, unit) act" where
  "IgnoresDB_open readInt filename =
     seqA (modifyA (\<lambda>d. d\<lparr>ig_filename := Some filename\<rparr>))
       (bindA (getA (\<lambda>d. dict_get (ig_disk d) filename)) (\<lambda>t. case t of
          None \<Rightarrow> raiseA EnvironmentError
        | Some s \<Rightarrow> modifyA (fold (ignores_line readInt) (nonCommentNonEmptyLines (file_lines s)))))"

definition IgnoresDB_flush :: "int \<Rightarrow> IgnoresDB \<Rightarrow> IgnoresDB" where
  "IgnoresDB_flush now d =
     (case ig_filename d of
        None \<Rightarrow> d
      | Some f \<Rightarrow> d\<lparr>ig_disk := dict_set f (file_text (map (\<lambda>(h, e). h @ '' '' @ str_of_int e)
          (filter (\<lambda>(h, e). now < e \<or> e = 0) (ig_hostmasks d)))) (ig_disk d)\<rparr>)"

definition IgnoresDB_close :: "int \<Rightarrow> IgnoresDB \<Rightarrow> IgnoresDB" where
  "IgnoresDB_close now d = (IgnoresDB_flush now d)\<lparr>ig_hostmasks := []\<rparr>"

definition IgnoresDB_reload :: "(string \<Rightarrow> int res) \<Rightarrow> (IgnoresDB, unit) act" where
  "IgnoresDB_reload readInt = (\<lambda>d.
     (case ig_filename d of
        None \<Rightarrow> (Inr (), d)
      | Some f \<Rightarrow>
          (case IgnoresDB_open readInt f (d\<lparr>ig_hostmasks := []\<rparr>) of
             (Inr _, d') \<Rightarrow> (Inr (), d')
           | (Inl e, d') \<Rightarrow>
               if e = EnvironmentError
               then (Inr (), d'\<lparr>ig_hostmasks := AList.updates (map fst (ig_hostmasks d)) (map snd (ig_hostmasks d)) (ig_hostmasks d')\<rparr>)
               else (Inl e, d'))))"

definition IgnoresDB_checkIgnored :: "int \<Rightarrow> string \<Rightarrow> IgnoresDB \<Rightarrow> bool \<times> IgnoresDB" where
  "IgnoresDB_checkIgnored now prefix d =
     (case expire_scan (\<lambda>e. \<not> (e \<noteq> 0 \<and> e < now)) prefix (ig_hostmasks d) of
        (b, dead) \<Rightarrow> (b, d\<lparr>ig_hostmasks := drop_dead dead (ig_hostmasks d)\<rparr>))"

end
