(* ===== verification/AccessChecks.thy ===== *)
theory AccessChecks
  imports UsersDbLaws ChannelsDb
begin

text \<open>
  The functions of \<open>ircdb.py\<close> the rest of the bot asks: \<open>checkIgnored\<close>, \<open>checkCapability\<close>,
  \<open>checkCapabilities\<close>, and the registry value \<open>supybot.capabilities\<close>.

  \<open>access\<close> holds the three databases; \<open>access_conf\<close> the configuration values that are read, the clock
  (one reading per call) and \<open>world.testing\<close>.
\<close>

record access =
  ac_users :: UsersDictionary
  ac_channels :: ChannelsDictionary
  ac_ignores :: IgnoresDB

record access_conf =
  cf_now :: int
  cf_timeout :: int
  cf_testing :: bool
  cf_defaultIgnore :: bool
  cf_capabilities :: CapabilitySet
  cf_default :: bool

definition with_users :: "'a users_act \<Rightarrow> (access, 'a) act" where
  "with_users m = (\<lambda>s. case m (ac_users s) of (x, d) \<Rightarrow> (x, s\<lparr>ac_users := d\<rparr>))"

definition with_channel :: "string \<Rightarrow> (IrcChannel, 'a) act \<Rightarrow> (access, 'a) act" where
  "with_channel channel m = (\<lambda>s. case on_channel channel m (ac_channels s) of (x, d) \<Rightarrow> (x, s\<lparr>ac_channels := d\<rparr>))"

definition with_ignores :: "(IgnoresDB \<Rightarrow> 'a \<times> IgnoresDB) \<Rightarrow> (access, 'a) act" where
  "with_ignores f = (\<lambda>s. case f (ac_ignores s) of (x, d) \<Rightarrow> (Inr x, s\<lparr>ac_ignores := d\<rparr>))"

section \<open>checkIgnored\<close>

text \<open>\<open>try: ... except KeyError: ...\<close>; other exceptions leave.\<close>

definition except_KeyError :: "('s, 'a) act \<Rightarrow> ('s, 'a) act \<Rightarrow> ('s, 'a) act" where
  "except_KeyError m handler = (\<lambda>s. case m s of (Inl KeyError, s') \<Rightarrow> handler s' | r \<Rightarrow> r)"

definition lookup_user :: "access_conf \<Rightarrow> string \<Rightarrow> (access, IrcUser option) act" where
  "lookup_user cf hostmask =
     except_KeyError
       (with_users (bindA (UsersDictionary_getUserId (cf_timeout cf) (cf_now cf) hostmask) (\<lambda>i.
          bindA (UsersDictionary_getUser (cf_timeout cf) (cf_now cf) (ById i)) (\<lambda>u. retA (Some u)))))
       (retA None)"

definition channel_ignores :: "access_conf \<Rightarrow> string \<Rightarrow> string \<Rightarrow> (access, bool) act" where
  "channel_ignores cf hostmask recipient =
     with_channel recipient (IrcChannel_checkIgnored (cf_testing cf) (cf_now cf) hostmask)"

definition checkIgnored :: "access_conf \<Rightarrow> string \<Rightarrow> string \<Rightarrow> (access, bool) act" where
  "checkIgnored cf hostmask recipient =
     bindA (with_ignores (IgnoresDB_checkIgnored (cf_now cf) hostmask)) (\<lambda>ignored.
       if ignored then retA True
       else bindA (lookup_user cf hostmask) (\<lambda>found. case found of
         None \<Rightarrow>
           if isChannel recipient then channel_ignores cf hostmask recipient
           else retA (cf_defaultIgnore cf)
       | Some user \<Rightarrow>
           bindA (liftA (IrcUser_checkCapability ''owner'' user)) (\<lambda>owner.
             if owner then retA False
             else if iu_ignore user then retA True
             else if recipient \<noteq> [] \<and> isChannel recipient then channel_ignores cf hostmask recipient
             else retA False)))"

section \<open>checkCapability\<close>

text \<open>\<open>_x\<close>.\<close>

definition anti_adjusted :: "string \<Rightarrow> bool \<Rightarrow> bool" where
  "anti_adjusted capability ret = (if isAntiCapability capability then \<not> ret else ret)"

text \<open>The answer of a channel: its own entry, or its default.\<close>

definition channel_answer :: "string \<Rightarrow> IrcChannel \<Rightarrow> bool res" where
  "channel_answer cap c =
     bindR (CapabilitySet_contains (ic_capabilities c) cap) (\<lambda>b.
       if b then IrcChannel_checkCapability cap c else Inr (anti_adjusted cap (ic_defaultAllow c)))"

definition on_value :: "(IrcChannel \<Rightarrow> 'a res) \<Rightarrow> (IrcChannel, 'a) act" where
  "on_value f = (\<lambda>c. (f c, c))"

text \<open>The answer of the configuration, for a capability of no channel.\<close>

definition default_answer :: "access_conf \<Rightarrow> string \<Rightarrow> bool res" where
  "default_answer cf cap =
     bindR (CapabilitySet_contains (cf_capabilities cf) cap) (\<lambda>b.
       if b then CapabilitySet_check (cf_capabilities cf) cap else Inr (anti_adjusted cap (cf_default cf)))"

text \<open>
  The \<open>try\<close> of the channel branch: a \<open>KeyError\<close>, which nothing in it raises for a channel of the table,
  continues with the rest of the function, where \<open>capability\<close> is by now the capability without its channel.
\<close>

definition checkCapabilityForUnknownUser :: "access_conf \<Rightarrow> string \<Rightarrow> (access, bool) act" where
  "checkCapabilityForUnknownUser cf capability =
     (if isChannelCapability capability then
        bindA (liftA (fromChannelCapability capability)) (\<lambda>(channel, cap).
          except_KeyError (with_channel channel (on_value (channel_answer cap))) (liftA (default_answer cf cap)))
      else liftA (default_answer cf capability))"

text \<open>The account of \<open>hostmask\<close>: \<open>None\<close> where the code falls back to the unknown user.\<close>

definition account_of :: "access_conf \<Rightarrow> string \<Rightarrow> (access, IrcUser option) act" where
  "account_of cf hostmask = (\<lambda>s.
     (case with_users (UsersDictionary_getUser (cf_timeout cf) (cf_now cf) (ByText hostmask)) s of
        (Inr u, s') \<Rightarrow>
          (if iu_secure u \<and> \<not> match_true (fst (IrcUser_checkHostmask (cf_timeout cf) (cf_now cf) hostmask False u))
           then (Inr None, s') else (Inr (Some u), s'))
      | (Inl e, s') \<Rightarrow>
          (if e \<in> {KeyError, ValueError, DuplicateHostmask, UnicodeError} then (Inr None, s') else (Inl e, s'))))"

text \<open>\<open>u._checkCapability(chanop)\<close> with the \<open>KeyError\<close> of an unset capability taken as no.\<close>

definition is_chanop :: "IrcUser \<Rightarrow> string \<Rightarrow> bool res" where
  "is_chanop u channel =
     (case bindR (makeChannelCapability channel ''op'') (\<lambda>chanop. IrcUser_checkCapability chanop u) of
        Inl e \<Rightarrow> if e = KeyError then Inr False else Inl e
      | r \<Rightarrow> r)"

definition known_answer :: "access_conf \<Rightarrow> string \<Rightarrow> IrcUser \<Rightarrow> (access, bool) act" where
  "known_answer cf capability u =
     bindA (liftA (UserCapabilitySet_contains (iu_capabilities u) capability)) (\<lambda>own.
       if own then liftA (IrcUser_checkCapability capability u)
       else if isChannelCapability capability then
         bindA (liftA (fromChannelCapability capability)) (\<lambda>(channel, cap).
           bindA (liftA (is_chanop u channel)) (\<lambda>op.
             if op then retA (anti_adjusted cap True)
             else with_channel channel (on_value (channel_answer cap))))
       else liftA (default_answer cf capability))"

definition checkCapability :: "access_conf \<Rightarrow> string \<Rightarrow> string \<Rightarrow> (access, bool) act" where
  "checkCapability cf hostmask capability =
     (if cf_testing cf then retA (anti_adjusted capability True)
      else bindA (account_of cf hostmask) (\<lambda>account. case account of
        None \<Rightarrow> checkCapabilityForUnknownUser cf capability
      | Some u \<Rightarrow> known_answer cf capability u))"

fun checkCapabilities :: "access_conf \<Rightarrow> string \<Rightarrow> string list \<Rightarrow> bool \<Rightarrow> (access, bool) act" where
  "checkCapabilities cf hostmask [] requireAll = retA requireAll"
| "checkCapabilities cf hostmask (capability # capabilities) requireAll =
     bindA (checkCapability cf hostmask capability) (\<lambda>b.
       if requireAll \<and> \<not> b then retA False
       else if \<not> requireAll \<and> b then retA True
       else checkCapabilities cf hostmask capabilities requireAll)"

section \<open>DefaultCapabilities\<close>

text \<open>
  \<open>setValue\<close>: the value becomes a \<open>CapabilitySet\<close> of the list; \<open>-owner\<close> is added when the set does not
  \<^emph>\<open>contain\<close> it, and a \<open>CapabilitySet\<close> contains a capability also when its inverse is in it.
\<close>

definition DefaultCapabilities_setValue :: "bool \<Rightarrow> string list \<Rightarrow> CapabilitySet res" where
  "DefaultCapabilities_setValue allowDefaultOwner v =
     bindR (CapabilitySet_new v) (\<lambda>value.
       bindR (CapabilitySet_contains value ''-owner'') (\<lambda>b.
         if \<not> b \<and> \<not> allowDefaultOwner then CapabilitySet_add ''-owner'' value else Inr value))"

end
