(* ===== verification/AccessLaws.thy ===== *)
theory AccessLaws
  imports AccessChecks
begin

text \<open>
  The laws of the access checks: asking for a capability and for its inverse always gives opposite
  answers, owners may do everything, the guard of the default capabilities, and what expires when.
\<close>

section \<open>Well-formed databases\<close>

definition users_caps_ok :: "UsersDictionary \<Rightarrow> bool" where
  "users_caps_ok d \<longleftrightarrow> (\<forall>u \<in> snd ` set (ud_users d). UserCapabilitySet_ok (iu_capabilities u))"

definition channels_caps_ok :: "ChannelsDictionary \<Rightarrow> bool" where
  "channels_caps_ok d \<longleftrightarrow> (\<forall>c \<in> snd ` snd ` set (cn_channels d). CapabilitySet_ok (ic_capabilities c))"

lemma checkHostmask_caps [simp]: "iu_capabilities (snd (IrcUser_checkHostmask tmo now h b u)) = iu_capabilities u"
  by (simp add: IrcUser_checkHostmask_def Let_def split: prod.split)

lemma users_caps_edit:
  assumes "\<And>u u'. f u = Inr u' \<Longrightarrow> iu_capabilities u' = iu_capabilities u"
  shows "keepsA users_caps_ok (UsersDictionary_edit i f)"
proof -
  have "users_caps_ok (d\<lparr>ud_users := dict_set i u' (ud_users d)\<rparr>)"
    if "users_caps_ok d" "dict_item (ud_users d) i = Inr u" "f u = Inr u'" for d u u'
  proof -
    from that(2) have "(i, u) \<in> set (ud_users d)" by (auto simp: dict_item_def dest: map_of_SomeD split: option.splits)
    with that(1) assms [OF that(3)] have "UserCapabilitySet_ok (iu_capabilities u')" by (force simp: users_caps_ok_def)
    with that(1) show ?thesis by (fastforce simp: users_caps_ok_def dest!: set_dict_set)
  qed
  then show ?thesis
    unfolding UsersDictionary_edit_def keepsA_def act_defs by (auto split: sum.split)
qed

lemma users_caps_removeHostmask: "IrcUser_removeHostmask h u = Inr u' \<Longrightarrow> iu_capabilities u' = iu_capabilities u"
  by (auto simp: IrcUser_removeHostmask_def)

lemma users_caps_lookup: "keepsA users_caps_ok (hostmask_lookup tmo now s)"
proof -
  have expire: "users_caps_ok (d\<lparr>ud_users := expire_users tmo now s (ud_users d)\<rparr>)" if "users_caps_ok d" for d
    using that by (force simp: users_caps_ok_def expire_users_def)
  have rest: "keepsA users_caps_ok (case ids of
            [] \<Rightarrow> raiseA KeyError
          | [(i, _)] \<Rightarrow>
              bindA (getA ud_hostmaskCache) (\<lambda>c.
                let c1 = CacheDict_setitem c (Inl s) (Inl i) in
                seqA (setHostmaskCache (case cache_back c1 i of
                        Inr hs \<Rightarrow> cache_update i (List.insert s hs) c1
                      | Inl _ \<Rightarrow> CacheDict_setitem c1 (Inr i) (Inr [s])))
                  (retA i))
          | ids \<Rightarrow>
              seqA (forA (\<lambda>(i, m). UsersDictionary_edit i (IrcUser_removeHostmask (match_text m))) ids)
                (raiseA DuplicateHostmask))" for ids
    by (auto intro!: wf_intros users_caps_edit dest: users_caps_removeHostmask
        simp: Let_def setHostmaskCache_def users_caps_ok_def split: list.split)
  show ?thesis
    unfolding hostmask_lookup_def keepsA_def
    using expire rest by (auto simp: keepsA_def act_defs)
qed

lemma users_caps_name_lookup: "keepsA users_caps_ok (name_lookup s)"
  unfolding name_lookup_def setNameCache_def
  by (intro wf_intros) (auto intro!: wf_intros simp: users_caps_ok_def split: option.split)

lemma users_caps_getUserId: "keepsA users_caps_ok (UsersDictionary_getUserId tmo now s)"
  unfolding UsersDictionary_getUserId_def
  by (intro wf_intros) (auto intro!: wf_intros users_caps_lookup users_caps_name_lookup split: sum.split pyexn.split)

lemma users_caps_getUser: "keepsA users_caps_ok (UsersDictionary_getUser tmo now key)"
  unfolding UsersDictionary_getUser_def
  by (auto intro!: wf_intros users_caps_edit users_caps_getUserId split: user_key.split)

lemma getUser_caps:
  assumes "users_caps_ok d" "UsersDictionary_getUser tmo now key d = (Inr u, d')"
  shows "UserCapabilitySet_ok (iu_capabilities u)"
proof -
  from keepsAD [OF users_caps_getUser assms] have "users_caps_ok d'" .
  moreover have "\<exists>i. dict_item (ud_users d') i = Inr u"
    using assms(2)
    by (auto simp: UsersDictionary_getUser_def act_defs split: prod.splits sum.splits)
  ultimately show ?thesis
    by (force simp: users_caps_ok_def dict_item_def dest: map_of_SomeD split: option.splits)
qed

section \<open>Opposite questions\<close>

text \<open>The opposite of an outcome: an exception stays what it is.\<close>

abbreviation opposite :: "bool res \<Rightarrow> bool res" where
  "opposite \<equiv> map_sum id Not"

lemma contains_inverse:
  assumes "proper_capability c"
  shows "CapabilitySet_contains s (inverse_of c) = CapabilitySet_contains s c"
  using CapabilitySet_check_eq(2) [OF assms, of s] CapabilitySet_check_eq(2) [OF proper_facts(2) [OF assms], of s]
    proper_facts(3) [OF assms] by auto

lemma check_inverse:
  assumes "proper_capability c" "CapabilitySet_ok s"
  shows "CapabilitySet_check s (inverse_of c) = opposite (CapabilitySet_check s c)"
proof -
  have "\<not> (toLower c \<in> set s \<and> toLower (inverse_of c) \<in> set s)"
    using assms(2) proper_facts(6,7) [OF assms(1)] by (metis CapabilitySet_ok_def)
  then show ?thesis
    using CapabilitySet_check_eq(1) [OF assms(1), of s] CapabilitySet_check_eq(1) [OF proper_facts(2) [OF assms(1)], of s]
      proper_facts(3) [OF assms(1)] by auto
qed

lemma anti_adjusted_inverse: "proper_capability c \<Longrightarrow> anti_adjusted (inverse_of c) b = (\<not> anti_adjusted c b)"
  using proper_facts(4) by (simp add: anti_adjusted_def)

lemma proper_channel_parts:
  assumes "proper_capability cap" "isChannelCapability cap"
  obtains channel c where "fromChannelCapability cap = Inr (channel, c)" "proper_capability c"
    "fromChannelCapability (inverse_of cap) = Inr (channel, inverse_of c)"
proof -
  obtain ch anti w where s: "channel_word ch" "base_capability w" "cap = mk_capability ch anti w"
    using assms(1) by (rule proper_capabilityE)
  then obtain channel where ch: "ch = Some channel" using assms(2) isChannelCapability_mk(1) [OF s(1,2), of anti] by auto
  let ?c = "mk_capability None anti w"
  have none: "channel_word None" by (simp add: channel_word_def)
  have "inverse_of cap = mk_capability ch (\<not> anti) w" using invertCapability_mk [OF s(1,2), of anti] s(3) by (simp add: inverse_of_def)
  moreover have "inverse_of ?c = mk_capability None (\<not> anti) w" using invertCapability_mk [OF none s(2), of anti] by (simp add: inverse_of_def)
  moreover have "proper_capability ?c" using none s(2) by (auto simp: proper_capability_def)
  ultimately show thesis
    using that [of channel ?c] fromChannelCapability_mk [OF s(1) [unfolded ch] s(2)] s(3) ch by simp
qed

lemma channel_answer_inverse:
  assumes c: "proper_capability c" and ok: "CapabilitySet_ok (ic_capabilities chan)"
  shows "channel_answer (inverse_of c) chan = opposite (channel_answer c chan)"
  using contains_inverse [OF c] check_inverse [OF c ok] anti_adjusted_inverse [OF c]
    CapabilitySet_check_eq(2) [OF c, of "ic_capabilities chan"] proper_facts(9) [OF c] proper_facts(9) [OF proper_facts(2) [OF c]]
  by (auto simp: channel_answer_def IrcChannel_checkCapability_def)

lemma default_answer_inverse:
  assumes "proper_capability c" "CapabilitySet_ok (cf_capabilities cf)"
  shows "default_answer cf (inverse_of c) = opposite (default_answer cf c)"
  using contains_inverse [OF assms(1)] check_inverse [OF assms] anti_adjusted_inverse [OF assms(1)]
    CapabilitySet_check_eq(2) [OF assms(1), of "cf_capabilities cf"]
  by (auto simp: default_answer_def)

lemma inverse_owner_iff:
  assumes "proper_capability c"
  shows "toLower (inverse_of c) = ''owner'' \<longleftrightarrow> toLower c = antiOwner" "toLower (inverse_of c) = antiOwner \<longleftrightarrow> toLower c = ''owner''"
  using proper_facts(2,3,7) [OF assms] proper_facts(3,6,7) [OF assms] owner_proper
  by (metis proper_facts(3,6,7))+

lemma user_contains_inverse:
  assumes "proper_capability c"
  shows "UserCapabilitySet_contains s (inverse_of c) = UserCapabilitySet_contains s c"
  using inverse_owner_iff [OF assms] contains_inverse [OF proper_facts(6) [OF assms], of s] proper_facts(7) [OF assms]
  by (auto simp: UserCapabilitySet_contains_def Let_def cong: if_cong)

lemma user_check_inverse:
  assumes c: "proper_capability c" and s: "UserCapabilitySet_ok s"
  shows "UserCapabilitySet_check s (inverse_of c) = opposite (UserCapabilitySet_check s c)"
proof -
  have low: "toLower (inverse_of c) = inverse_of (toLower c)" using proper_facts(7) [OF c] by simp
  have "isAntiCapability (toLower (inverse_of c)) \<longleftrightarrow> \<not> isAntiCapability (toLower c)"
    using proper_facts(4,8) [OF c] proper_facts(8) [OF proper_facts(2) [OF c]] by simp
  moreover have "CapabilitySet_check s (toLower (inverse_of c)) = opposite (CapabilitySet_check s (toLower c))"
    unfolding low using check_inverse [OF proper_facts(6) [OF c]] s by (simp add: UserCapabilitySet_ok_def)
  ultimately show ?thesis
    using inverse_owner_iff [OF c] contains_owner [OF s] by (auto simp: UserCapabilitySet_check_def Let_def)
qed

lemma IrcUser_check_inverse:
  "proper_capability c \<Longrightarrow> UserCapabilitySet_ok (iu_capabilities u) \<Longrightarrow>
    IrcUser_checkCapability (inverse_of c) u = opposite (IrcUser_checkCapability c u)"
  by (simp add: IrcUser_checkCapability_def user_check_inverse proper_facts(4))

text \<open>The channel the answer comes from is well formed.\<close>

lemma new_channel_ok: "CapabilitySet_ok (ic_capabilities new_channel)"
proof -
  have caps: "set (ic_capabilities new_channel) = {''-op'', ''-halfop'', ''-voice'', ''-protected''}" "distinct (ic_capabilities new_channel)"
    by code_simp+
  have anti: "proper_capability (CHR ''-'' # w)" if "base_capability w" for w
    using that unfolding proper_capability_def
    by (intro exI [of _ None] exI [of _ True] exI [of _ w]) (simp add: mk_capability_def channel_word_def)
  have "base_capability ''op''" "base_capability ''halfop''" "base_capability ''voice''" "base_capability ''protected''"
    by code_simp+
  note p = this [THEN anti]
  have "\<forall>c \<in> {''-op'', ''-halfop'', ''-voice'', ''-protected''}. toLower c = c
      \<and> inverse_of c \<notin> {''-op'', ''-halfop'', ''-voice'', ''-protected''}"
    by code_simp
  with caps p show ?thesis by (auto simp: CapabilitySet_ok_def)
qed

lemma getChannel_ok:
  assumes "channels_caps_ok d"
  shows "CapabilitySet_ok (ic_capabilities (fst (ChannelsDictionary_getChannel channel d)))"
proof (cases "ircdict_get (cn_channels d) (py_lower channel)")
  case None
  then show ?thesis by (simp add: ChannelsDictionary_getChannel_def new_channel_ok)
next
  case (Some c)
  then obtain k where "(toLower (py_lower channel), k, c) \<in> set (cn_channels d)"
    by (auto simp: pdict_lookup_eq dest: map_of_SomeD)
  then have "c \<in> snd ` snd ` set (cn_channels d)" by force
  with assms have "CapabilitySet_ok (ic_capabilities c)" unfolding channels_caps_ok_def by blast
  with Some show ?thesis by (simp add: ChannelsDictionary_getChannel_def)
qed

lemma with_channel_value:
  "fst (with_channel channel (on_value f) s) = f (fst (ChannelsDictionary_getChannel channel (ac_channels s)))"
  by (simp add: with_channel_def on_channel_def on_value_def split: prod.split)

lemma with_users_channels: "with_users m s = (x, s') \<Longrightarrow> ac_channels s' = ac_channels s"
  by (auto simp: with_users_def split: prod.splits)

lemma account_of_ok:
  assumes "users_caps_ok (ac_users s)" "account_of cf h s = (Inr (Some u), s')"
  shows "UserCapabilitySet_ok (iu_capabilities u)"
  using assms getUser_caps
  by (force simp: account_of_def with_users_def split: prod.splits sum.splits if_splits)

lemma account_of_channels: "account_of cf h s = (r, s') \<Longrightarrow> ac_channels s' = ac_channels s"
  by (auto simp: account_of_def dest: with_users_channels split: prod.splits sum.splits if_splits)

lemma known_answer_inverse:
  assumes c: "proper_capability c" and u: "UserCapabilitySet_ok (iu_capabilities u)"
    and chans: "channels_caps_ok (ac_channels s)" and cf: "CapabilitySet_ok (cf_capabilities cf)"
  shows "fst (known_answer cf (inverse_of c) u s) = opposite (fst (known_answer cf c u s))"
proof (cases "UserCapabilitySet_contains (iu_capabilities u) c")
  case (Inl e)
  then show ?thesis by (simp add: known_answer_def user_contains_inverse [OF c] act_defs)
next
  case (Inr own)
  show ?thesis
  proof (cases "own \<or> \<not> isChannelCapability c")
    case True
    with Inr show ?thesis
      using IrcUser_check_inverse [OF c u] default_answer_inverse [OF c cf] proper_facts(10) [OF c]
      by (auto simp: known_answer_def user_contains_inverse [OF c] act_defs)
  next
    case False
    then obtain channel c0 where parts: "fromChannelCapability c = Inr (channel, c0)" "proper_capability c0"
      "fromChannelCapability (inverse_of c) = Inr (channel, inverse_of c0)"
      using proper_channel_parts [OF c] by blast
    let ?chan = "fst (ChannelsDictionary_getChannel channel (ac_channels s))"
    have ans: "fst (known_answer cf k u s) = (case is_chanop u channel of Inl e \<Rightarrow> Inl e
        | Inr op \<Rightarrow> if op then Inr (anti_adjusted k0 True) else channel_answer k0 ?chan)"
      if "UserCapabilitySet_contains (iu_capabilities u) k = Inr False" "isChannelCapability k"
        "fromChannelCapability k = Inr (channel, k0)" for k k0
      using that with_channel_value [of channel "channel_answer k0" s]
      by (simp add: known_answer_def act_defs split: sum.split prod.split)
    show ?thesis
      using ans [of c c0] ans [of "inverse_of c" "inverse_of c0"] False Inr parts user_contains_inverse [OF c] proper_facts(10) [OF c]
        channel_answer_inverse [OF parts(2) getChannel_ok [OF chans], of channel] anti_adjusted_inverse [OF parts(2)]
      by (auto split: sum.split)
  qed
qed

lemma except_KeyError_value:
  "fst (except_KeyError m n s) = (if fst (m s) = Inl KeyError then fst (n (snd (m s))) else fst (m s))"
  by (auto simp: except_KeyError_def split: prod.split sum.split pyexn.split)

lemma channel_answer_no_KeyError:
  assumes "proper_capability c"
  shows "channel_answer c chan \<noteq> Inl KeyError"
  using CapabilitySet_check_eq [OF assms, of "ic_capabilities chan"] proper_facts(9) [OF assms]
  by (auto simp: channel_answer_def IrcChannel_checkCapability_def)

lemma unknown_answer_inverse:
  assumes c: "proper_capability c" and chans: "channels_caps_ok (ac_channels s)" and cf: "CapabilitySet_ok (cf_capabilities cf)"
  shows "fst (checkCapabilityForUnknownUser cf (inverse_of c) s) = opposite (fst (checkCapabilityForUnknownUser cf c s))"
proof (cases "isChannelCapability c")
  case False
  then show ?thesis
    using default_answer_inverse [OF c cf] proper_facts(10) [OF c]
    by (simp add: checkCapabilityForUnknownUser_def liftA_def)
next
  case True
  then obtain channel c0 where parts: "fromChannelCapability c = Inr (channel, c0)" "proper_capability c0"
    "fromChannelCapability (inverse_of c) = Inr (channel, inverse_of c0)"
    using proper_channel_parts [OF c] by blast
  let ?chan = "fst (ChannelsDictionary_getChannel channel (ac_channels s))"
  have ans: "fst (checkCapabilityForUnknownUser cf k s) = channel_answer k0 ?chan"
    if "isChannelCapability k" "fromChannelCapability k = Inr (channel, k0)" "proper_capability k0" for k k0
    using that channel_answer_no_KeyError [OF that(3), of ?chan]
    by (simp add: checkCapabilityForUnknownUser_def bindA_def liftA_def except_KeyError_value with_channel_value)
  show ?thesis
    using ans [of c c0] ans [of "inverse_of c" "inverse_of c0"] True parts proper_facts(10) [OF c] proper_facts(2) [OF parts(2)]
      channel_answer_inverse [OF parts(2) getChannel_ok [OF chans], of channel]
    by simp
qed

text \<open>
  C25: \<open>checkCapability\<close> is consistent: whoever asks and whatever the databases and the configuration hold, the
  answer for an anticapability is the opposite of the answer for its capability, and an exception is the
  same exception for both.
\<close>

theorem checkCapability_consistent:
  assumes cap: "proper_capability cap" and users: "users_caps_ok (ac_users s)" and chans: "channels_caps_ok (ac_channels s)"
    and cf: "CapabilitySet_ok (cf_capabilities cf)"
  shows "fst (checkCapability cf hostmask (inverse_of cap) s) = opposite (fst (checkCapability cf hostmask cap s))"
proof (cases "cf_testing cf")
  case True
  then show ?thesis using anti_adjusted_inverse [OF cap] by (simp add: checkCapability_def retA_def)
next
  case False
  obtain r s' where run: "account_of cf hostmask s = (r, s')" by fastforce
  from account_of_channels [OF run] chans have chans': "channels_caps_ok (ac_channels s')" by simp
  show ?thesis
  proof (cases r)
    case (Inl e)
    with False run show ?thesis by (simp add: checkCapability_def bindA_def)
  next
    case (Inr account)
    show ?thesis
    proof (cases account)
      case None
      with Inr False run unknown_answer_inverse [OF cap chans' cf] show ?thesis by (simp add: checkCapability_def bindA_def)
    next
      case (Some u)
      with account_of_ok [OF users] run Inr have "UserCapabilitySet_ok (iu_capabilities u)" by blast
      from known_answer_inverse [OF cap this chans' cf] Some Inr False run show ?thesis
        by (simp add: checkCapability_def bindA_def)
    qed
  qed
qed

definition sample_conf :: access_conf where
  "sample_conf = \<lparr>cf_now = 0, cf_timeout = 0, cf_testing = False, cf_defaultIgnore = False,
     cf_capabilities = [''-owner'', ''-admin''], cf_default = True\<rparr>"

definition sample_access :: access where
  "sample_access = \<lparr>ac_users = UsersDictionary_new [], ac_channels = ChannelsDictionary_new [], ac_ignores = IgnoresDB_new []\<rparr>"

lemma proper_plain: "base_capability w \<Longrightarrow> proper_capability w" "base_capability w \<Longrightarrow> proper_capability (CHR ''-'' # w)"
proof -
  assume w: "base_capability w"
  have none: "channel_word None" by (simp add: channel_word_def)
  have "w = mk_capability None False w" "CHR ''-'' # w = mk_capability None True w" by (simp_all add: mk_capability_def)
  with w none show "proper_capability w" "proper_capability (CHR ''-'' # w)" unfolding proper_capability_def by blast+
qed

theorem checkCapability_consistent_witness:
  "fst (checkCapability sample_conf ''joe!j@h'' ''-admin'' sample_access) = Inr True
    \<and> fst (checkCapability sample_conf ''joe!j@h'' ''admin'' sample_access) = Inr False"
proof -
  have "base_capability ''admin''" "base_capability ''owner''" by code_simp+
  note p = this [THEN proper_plain(1)] this [THEN proper_plain(2)]
  have i: "inverse_of ''admin'' = ''-admin''" "inverse_of ''-admin'' = ''admin''" "inverse_of ''-owner'' = ''owner''"
    "toLower ''-admin'' = ''-admin''" "toLower ''-owner'' = ''-owner''" by code_simp+
  have "users_caps_ok (ac_users sample_access)" "channels_caps_ok (ac_channels sample_access)" "CapabilitySet_ok (cf_capabilities sample_conf)"
    using p i
    by (simp_all add: users_caps_ok_def channels_caps_ok_def sample_access_def sample_conf_def UsersDictionary_new_def
        ChannelsDictionary_new_def CapabilitySet_ok_def)
  from checkCapability_consistent [OF p(1) this, of "''joe!j@h''"] i(1)
  have "fst (checkCapability sample_conf ''joe!j@h'' ''-admin'' sample_access)
      = opposite (fst (checkCapability sample_conf ''joe!j@h'' ''admin'' sample_access))" by simp
  moreover have "fst (checkCapability sample_conf ''joe!j@h'' ''admin'' sample_access) = Inr False" by code_simp
  ultimately show ?thesis by simp
qed

section \<open>Owners\<close>

lemma owner_answers:
  assumes u: "UserCapabilitySet_ok (iu_capabilities u)" "''owner'' \<in> set (iu_capabilities u)" "\<not> iu_ignore u"
    and cap: "proper_capability cap"
  shows "IrcUser_checkCapability cap u = Inr (\<not> isAntiCapability cap)"
    "\<not> cf_testing cf \<Longrightarrow> account_of cf h s = (Inr (Some u), s') \<Longrightarrow> checkCapability cf h cap s = (Inr (\<not> isAntiCapability cap), s')"
proof -
  have owner: "CapabilitySet_contains (iu_capabilities u) ''owner'' = Inr True" using contains_owner [OF u(1)] u(2) by simp
  show check: "IrcUser_checkCapability cap u = Inr (\<not> isAntiCapability cap)"
    using owner u(3) proper_facts(8) [OF cap] by (simp add: IrcUser_checkCapability_def UserCapabilitySet_check_def Let_def)
  have own: "UserCapabilitySet_contains (iu_capabilities u) cap = Inr True"
    using owner by (simp add: UserCapabilitySet_contains_def Let_def)
  show "checkCapability cf h cap s = (Inr (\<not> isAntiCapability cap), s')"
    if "\<not> cf_testing cf" "account_of cf h s = (Inr (Some u), s')"
    using that check own by (simp add: checkCapability_def known_answer_def bindA_def liftA_def)
qed


definition owner_access :: access where
  "owner_access = sample_access\<lparr>ac_users := (UsersDictionary_new [])\<lparr>ud_users :=
     [(1, (sample_user 1 ''boss'' [''*!boss@*.example''])\<lparr>iu_capabilities := [''owner'']\<rparr>)]\<rparr>\<rparr>"


section \<open>The default capabilities\<close>

lemma CapabilitySet_new_ok:
  assumes "\<forall>c \<in> set v. proper_capability c" "CapabilitySet_ok s"
  shows "\<exists>cs. foldR CapabilitySet_add v s = Inr cs \<and> CapabilitySet_ok cs \<and> set cs \<subseteq> set s \<union> toLower ` set v
    \<and> (''owner'' \<in> set s \<union> toLower ` set v \<and> (\<forall>c \<in> set v. toLower c \<noteq> antiOwner) \<longrightarrow> ''owner'' \<in> set cs)"
  using assms
proof (induction v arbitrary: s)
  case (Cons c v)
  let ?s = "List.insert (toLower c) (removeAll (toLower (inverse_of c)) s)"
  have c: "proper_capability c" using Cons.prems(1) by simp
  have "toLower (inverse_of c) = ''owner'' \<longleftrightarrow> toLower c = antiOwner" by (rule inverse_owner_iff [OF c])
  then have keep: "''owner'' \<in> set s \<union> toLower ` set (c # v) \<and> (\<forall>c \<in> set (c # v). toLower c \<noteq> antiOwner) \<Longrightarrow>
      ''owner'' \<in> set ?s \<union> toLower ` set v \<and> (\<forall>c \<in> set v. toLower c \<noteq> antiOwner)" by simp
  from Cons.IH [OF _ CapabilitySet_ok_add [OF Cons.prems(2) c]] Cons.prems(1) obtain cs where
    cs: "foldR CapabilitySet_add v ?s = Inr cs" "CapabilitySet_ok cs" "set cs \<subseteq> set ?s \<union> toLower ` set v"
    "''owner'' \<in> set ?s \<union> toLower ` set v \<and> (\<forall>c \<in> set v. toLower c \<noteq> antiOwner) \<longrightarrow> ''owner'' \<in> set cs" by auto
  have "set ?s \<subseteq> insert (toLower c) (set s)" by auto
  with cs(3) have "set cs \<subseteq> set s \<union> toLower ` set (c # v)" by auto
  moreover have "foldR CapabilitySet_add (c # v) s = Inr cs" using cs(1) CapabilitySet_add_eq [OF c, of s] by simp
  ultimately show ?case using cs(2,4) keep by blast
qed simp

text \<open>
  The guard against a default \<open>owner\<close> does not hold: when \<open>owner\<close> is in the list of default capabilities,
  the set counts as containing \<open>-owner\<close>, so \<open>setValue\<close> does not add it although it was not allowed to be
  missing, and from then on everybody without an account is an owner. A list without both gets \<open>-owner\<close>.
\<close>

theorem default_owner_not_prevented:
  assumes v: "\<forall>c \<in> set v. proper_capability c \<and> toLower c \<noteq> antiOwner"
  shows "\<exists>cs. DefaultCapabilities_setValue False v = Inr cs
    \<and> (if ''owner'' \<in> toLower ` set v
        then \<forall>cf s. cf_capabilities cf = cs \<longrightarrow> fst (checkCapabilityForUnknownUser cf ''owner'' s) = Inr True
        else \<forall>cf s. cf_capabilities cf = cs \<longrightarrow> fst (checkCapabilityForUnknownUser cf ''owner'' s) = Inr False)"
proof -
  from CapabilitySet_new_ok [of v "[]"] v obtain cs where cs: "CapabilitySet_new v = Inr cs" "CapabilitySet_ok cs"
    and sub: "set cs \<subseteq> toLower ` set v" and own: "''owner'' \<in> toLower ` set v \<Longrightarrow> ''owner'' \<in> set cs"
    unfolding CapabilitySet_new_def by auto
  have anti: "antiOwner \<notin> set cs"
  proof
    assume "antiOwner \<in> set cs"
    then obtain c where "c \<in> set v" "toLower c = antiOwner" using sub by auto
    with v show False by auto
  qed
  have literal: "''-owner'' = antiOwner" "\<not> isChannelCapability ''owner''" by code_simp+
  have guard: "CapabilitySet_contains cs antiOwner = Inr (''owner'' \<in> set cs)"
    using CapabilitySet_check_eq(2) [OF owner_proper(4), of cs] anti by (simp add: owner_proper)
  have answer: "fst (checkCapabilityForUnknownUser cf ''owner'' s) = Inr b"
    if "cf_capabilities cf = ds" "CapabilitySet_contains ds ''owner'' = Inr True" "CapabilitySet_check ds ''owner'' = Inr b" for cf s ds b
    using that literal(2) by (simp add: checkCapabilityForUnknownUser_def default_answer_def liftA_def)
  show ?thesis
  proof (cases "''owner'' \<in> toLower ` set v")
    case True
    then have "''owner'' \<in> set cs" by (rule own)
    then have "CapabilitySet_contains cs ''owner'' = Inr True" "CapabilitySet_check cs ''owner'' = Inr True"
      using CapabilitySet_check_eq [OF owner_proper(1), of cs] by (simp_all add: owner_proper)
    with True guard \<open>''owner'' \<in> set cs\<close> cs(1) answer show ?thesis
      by (simp add: DefaultCapabilities_setValue_def literal)
  next
    case False
    then have no: "''owner'' \<notin> set cs" using sub by blast
    let ?ds = "List.insert antiOwner (removeAll ''owner'' cs)"
    have add: "CapabilitySet_add antiOwner cs = Inr ?ds"
      using CapabilitySet_add_eq [OF owner_proper(4), of cs] by (simp add: owner_proper)
    have "CapabilitySet_contains ?ds ''owner'' = Inr True" "CapabilitySet_check ?ds ''owner'' = Inr False"
      using CapabilitySet_check_eq [OF owner_proper(1), of ?ds] no owner_proper(9) by (simp_all add: owner_proper)
    with False guard no cs(1) add answer show ?thesis
      by (simp add: DefaultCapabilities_setValue_def literal)
  qed
qed

theorem default_owner_not_prevented_witness:
  "DefaultCapabilities_setValue False [''owner''] = Inr [''owner'']
    \<and> fst (checkCapabilityForUnknownUser (sample_conf\<lparr>cf_capabilities := [''owner'']\<rparr>) ''owner'' sample_access) = Inr True"
proof -
  have v: "\<forall>c \<in> set [''owner'']. proper_capability c \<and> toLower c \<noteq> antiOwner"
    using owner_proper by simp
  have "DefaultCapabilities_setValue False [''owner''] = Inr [''owner'']" by code_simp
  moreover have "''owner'' \<in> toLower ` set [''owner'']" using owner_proper by simp
  ultimately show ?thesis using default_owner_not_prevented [OF v] by auto
qed

section \<open>What expires when\<close>

lemma expire_scan_spec:
  "fst (expire_scan live h ps) \<longleftrightarrow> (\<exists>(p, e) \<in> set ps. live e \<and> patternEqual p h)"
  "set (snd (expire_scan live h ps)) \<subseteq> {(p, e) \<in> set ps. \<not> live e}"
  by (induction ps) (auto split: prod.splits if_splits)

lemma drop_dead_set:
  assumes "dict_wf d" "set dead \<subseteq> {(p, e) \<in> set d. \<not> live e}"
  shows "set (drop_dead dead d) \<subseteq> set d" "{(p, e) \<in> set d. live e} \<subseteq> set (drop_dead dead d)"
proof -
  have sub: "set (drop_dead dead d) \<subseteq> set d" for d :: "(string, int) dict"
    by (induction dead arbitrary: d) (auto simp: drop_dead_def dest!: subsetD [OF set_dict_drop])
  then show "set (drop_dead dead d) \<subseteq> set d" .
  have keep: "x \<in> set (drop_dead dead d)" if "x \<in> set d" "fst x \<notin> fst ` set dead" for x and d :: "(string, int) dict"
    using that
  proof (induction dead arbitrary: d)
    case (Cons q dead)
    have "x \<in> set (dict_drop (fst q) d)" using Cons.prems by (cases x) (auto simp: AList.delete_eq)
    with Cons show ?case by (simp add: drop_dead_def case_prod_beta)
  qed (simp add: drop_dead_def)
  have "fst x \<notin> fst ` set dead" if "x \<in> set d" "live (snd x)" for x
  proof
    assume "fst x \<in> fst ` set dead"
    then obtain e where e: "(fst x, e) \<in> set dead" by auto
    with assms(2) have "(fst x, e) \<in> set d" "\<not> live e" by auto
    with that assms(1) show False using eq_key_imp_eq_value [of d "fst x" e "snd x"] by (simp add: dict_wf_def)
  qed
  with keep show "{(p, e) \<in> set d. live e} \<subseteq> set (drop_dead dead d)" by auto
qed

text \<open>
  A hostmask is banned from a channel exactly when a pattern that has not expired matches it, an
  expiration of 0 meaning never; the check only removes patterns that have expired, and appends what it
  removed to the expired bans.
\<close>

theorem checkBan_exact:
  assumes h: "isUserHostmask h" and bans: "dict_wf (ic_bans c)"
  shows "\<exists>dead. let c' = snd (IrcChannel_checkBan now h c) in
      fst (IrcChannel_checkBan now h c) = Inr (\<exists>(p, e) \<in> set (ic_bans c). (e = 0 \<or> now < e) \<and> patternEqual p h)
    \<and> c' = c\<lparr>ic_expiredBans := ic_expiredBans c @ dead, ic_bans := ic_bans c'\<rparr>
    \<and> set dead \<subseteq> {(p, e) \<in> set (ic_bans c). e \<noteq> 0 \<and> e \<le> now}
    \<and> {(p, e) \<in> set (ic_bans c). e = 0 \<or> now < e} \<subseteq> set (ic_bans c') \<and> set (ic_bans c') \<subseteq> set (ic_bans c)"
proof -
  let ?b = "fst (expire_scan (ban_live now) h (ic_bans c))" and ?dead = "snd (expire_scan (ban_live now) h (ic_bans c))"
  have run: "IrcChannel_checkBan now h c =
      (Inr ?b, c\<lparr>ic_expiredBans := ic_expiredBans c @ ?dead, ic_bans := drop_dead ?dead (ic_bans c)\<rparr>)"
    using h by (simp add: IrcChannel_checkBan_def act_defs case_prod_beta)
  have live: "ban_live now e \<longleftrightarrow> e = 0 \<or> now < e" for e by (auto simp: ban_live_def)
  note spec = expire_scan_spec [of "ban_live now" h "ic_bans c"]
  note sets = drop_dead_set [OF bans spec(2)]
  show ?thesis
    unfolding run
    by (rule exI [of _ ?dead]) (use spec sets in \<open>auto simp: live Let_def\<close>)
qed

theorem checkBan_exact_witness:
  "fst (IrcChannel_checkBan 100 ''joe!j@host.example''
     (new_channel\<lparr>ic_bans := [(''*!*@old.example'', 50), (''*!*@host.example'', 200)]\<rparr>)) = Inr True"
proof -
  let ?c = "new_channel\<lparr>ic_bans := [(''*!*@old.example'', 50), (''*!*@host.example'', 200)]\<rparr>"
  have "isUserHostmask ''joe!j@host.example''" "patternEqual ''*!*@host.example'' ''joe!j@host.example''" by code_simp+
  moreover have "dict_wf (ic_bans ?c)" by (simp add: dict_wf_def)
  ultimately show ?thesis using checkBan_exact [of "''joe!j@host.example''" ?c 100] by (auto simp: Let_def)
qed

section \<open>The file of the ignore list\<close>

definition ignore_ok :: "(string \<Rightarrow> int res) \<Rightarrow> string \<times> int \<Rightarrow> bool" where
  "ignore_ok readInt p \<longleftrightarrow> isUserHostmask (fst p) \<and> fst p \<noteq> [] \<and> no_space (fst p) \<and> hd (fst p) \<noteq> CHR ''#''
     \<and> readInt (str_of_int (snd p)) = Inr (snd p)"

definition ignore_line :: "string \<times> int \<Rightarrow> string" where
  "ignore_line = (\<lambda>(h, e). h @ '' '' @ str_of_int e)"

lemma no_space_str_of_int: "no_space (str_of_int i)" "str_of_int i \<noteq> []"
  using no_space_str_of_nat by (auto simp: str_of_int_def str_of_nat_def is_space_def [of "CHR ''-''"])

lemma ignore_line_chars:
  assumes "ignore_ok readInt p"
  shows "newline \<notin> set (ignore_line p)" "CHR 0x0D \<notin> set (ignore_line p)"
proof -
  have "\<not> is_space c \<or> c = CHR '' ''" if "c \<in> set (ignore_line p)" for c
    using that assms no_space_str_of_int(1) [of "snd p"]
    by (cases p) (auto simp: ignore_line_def ignore_ok_def)
  moreover have "is_space newline" "is_space CHR 0x0D" "newline \<noteq> CHR '' ''" "CHR 0x0D \<noteq> CHR '' ''" by code_simp+
  ultimately show "newline \<notin> set (ignore_line p)" "CHR 0x0D \<notin> set (ignore_line p)" by blast+
qed

lemma ignores_line_read:
  assumes "ignore_ok readInt p"
  shows "ignores_line readInt (ignore_line p) d = d\<lparr>ig_hostmasks := dict_set (fst p) (snd p) (ig_hostmasks d)\<rparr>"
    and "strip_ws (ignore_line p) \<noteq> []" and "\<not> startswith (ignore_line p) ''#''"
proof -
  obtain h e where p: "p = (h, e)" by (cases p)
  have "rstrip_in [CHR 0x0D, newline] (ignore_line p) = ignore_line p"
    by (rule rstrip_in_plain) (use ignore_line_chars [OF assms] in auto)
  moreover have "split_ws (ignore_line p) = [h, str_of_int e]"
    using assms split_ws_word(2) [of h "CHR '' ''" "str_of_int e"] split_ws_word(1) [OF no_space_str_of_int(2,1), of e]
    by (simp add: p ignore_line_def ignore_ok_def is_space_def)
  ultimately show "ignores_line readInt (ignore_line p) d = d\<lparr>ig_hostmasks := dict_set (fst p) (snd p) (ig_hostmasks d)\<rparr>"
    using assms by (simp add: ignores_line_def p ignore_ok_def IgnoresDB_add_def)
  have "skip_ws (ignore_line p) = ignore_line p"
    using assms by (cases h) (auto simp: p ignore_line_def ignore_ok_def)
  then show "strip_ws (ignore_line p) \<noteq> []"
    using assms by (cases h) (auto simp: strip_ws_def skip_ws_eq_Nil_iff p ignore_line_def ignore_ok_def)
  show "\<not> startswith (ignore_line p) ''#''"
    using assms by (cases h) (auto simp: p ignore_line_def ignore_ok_def startswith_def)
qed

lemma ignores_lines_read:
  assumes "\<forall>p \<in> set ps. ignore_ok readInt p" "dict_wf (ig_hostmasks d @ ps)"
  shows "fold (ignores_line readInt) (nonCommentNonEmptyLines (map ignore_line ps)) d = d\<lparr>ig_hostmasks := ig_hostmasks d @ ps\<rparr>"
  using assms
proof (induction ps arbitrary: d)
  case (Cons p ps)
  let ?d = "d\<lparr>ig_hostmasks := ig_hostmasks d @ [p]\<rparr>"
  have p: "ignore_ok readInt p" using Cons.prems by simp
  have "dict_set (fst p) (snd p) (ig_hostmasks d) = ig_hostmasks d @ [p]"
    using Cons.prems(2) dict_set_new [of "fst p" "ig_hostmasks d" "snd p"] by (simp add: dict_wf_def image_Un)
  with ignores_line_read [OF p] Cons.IH [of ?d] Cons.prems show ?case
    by (simp add: nonCommentNonEmptyLines_def)
qed (cases d, simp add: nonCommentNonEmptyLines_def)

text \<open>
  Writing the ignore list and reading it back keeps exactly the entries that have not expired, in
  order; but the two notions of expiry differ: an entry at the very second of its expiration is dropped
  from the file although \<open>checkIgnored\<close> still ignores whom it matches.
\<close>

theorem ignores_flush_reload:
  assumes entries: "\<forall>p \<in> set (ig_hostmasks d). ignore_ok readInt p" "dict_wf (ig_hostmasks d)" and f: "ig_filename d = Some f"
  shows "(\<exists>d'. IgnoresDB_reload readInt (IgnoresDB_flush now d) = (Inr (), d')
      \<and> ig_hostmasks d' = filter (\<lambda>(h, e). now < e \<or> e = 0) (ig_hostmasks d))
    \<and> (\<forall>(h, e) \<in> set (ig_hostmasks d). e = now \<longrightarrow> e \<noteq> 0 \<longrightarrow> patternEqual h prefix \<longrightarrow>
      fst (IgnoresDB_checkIgnored now prefix d) \<and> (h, e) \<notin> set (filter (\<lambda>(h, e). now < e \<or> e = 0) (ig_hostmasks d)))"
proof -
  let ?ps = "filter (\<lambda>(h, e). now < e \<or> e = 0) (ig_hostmasks d)"
  have ps: "\<forall>p \<in> set ?ps. ignore_ok readInt p" "dict_wf ([] @ ?ps)"
    using entries by (auto simp: dict_wf_def distinct_map_filter)
  have lines: "file_lines (file_text (map ignore_line ?ps)) = map ignore_line ?ps"
    by (rule file_lines_text) (simp only: set_map ball_simps, use ps(1) ignore_line_chars(1) in blast)
  let ?d = "(IgnoresDB_flush now d)\<lparr>ig_hostmasks := []\<rparr>"
  have "dict_get (ig_disk ?d) f = Some (file_text (map ignore_line ?ps))" "ig_filename (IgnoresDB_flush now d) = Some f"
    using f by (simp_all add: IgnoresDB_flush_def ignore_line_def)
  with lines ignores_lines_read [OF ps(1), of "?d\<lparr>ig_filename := Some f\<rparr>"] ps(2)
  have "\<exists>d'. IgnoresDB_reload readInt (IgnoresDB_flush now d) = (Inr (), d') \<and> ig_hostmasks d' = ?ps"
    by (simp add: IgnoresDB_reload_def IgnoresDB_open_def act_defs)
  moreover have "\<forall>(h, e) \<in> set (ig_hostmasks d). e = now \<longrightarrow> e \<noteq> 0 \<longrightarrow> patternEqual h prefix \<longrightarrow>
      fst (IgnoresDB_checkIgnored now prefix d) \<and> (h, e) \<notin> set ?ps"
    using expire_scan_spec(1) [of "\<lambda>e. \<not> (e \<noteq> 0 \<and> e < now)" prefix "ig_hostmasks d"]
    by (force simp: IgnoresDB_checkIgnored_def case_prod_beta)
  ultimately show ?thesis by blast
qed

theorem ignores_flush_reload_witness:
  "\<exists>d'. IgnoresDB_reload int_of_str (IgnoresDB_flush 100
      \<lparr>ig_filename = Some ''ignores.conf'', ig_hostmasks = [(''a!b@c'', 50), (''d!e@f'', 0)], ig_disk = []\<rparr>) = (Inr (), d')
    \<and> ig_hostmasks d' = [(''d!e@f'', 0)]"
proof -
  let ?d = "\<lparr>ig_filename = Some ''ignores.conf'', ig_hostmasks = [(''a!b@c'', 50), (''d!e@f'', 0)], ig_disk = []\<rparr>"
  have "isUserHostmask ''a!b@c''" "isUserHostmask ''d!e@f''" by code_simp+
  then have "\<forall>p \<in> set (ig_hostmasks ?d). ignore_ok int_of_str p" by (simp add: ignore_ok_def is_space_def)
  moreover have "dict_wf (ig_hostmasks ?d)" by (simp add: dict_wf_def)
  ultimately show ?thesis using ignores_flush_reload [THEN conjunct1, of ?d int_of_str "''ignores.conf''" 100] by simp
qed

end
