(* ===== verification/IrcClient.thy ===== *)
theory IrcClient
  imports IrcStates IrcQueue UsersDb
begin

text \<open>
  \<open>Irc\<close> and \<open>IrcCallback\<close> of \<open>irclib.py\<close>: the connection object that the driver feeds the messages of the
  server to and takes the messages to send from.

  \<open>irc_driver\<close> is the driver as the calls made to it, oldest first (\<open>None\<close>: not set yet);
  \<open>irc_inWorld\<close> says whether the object is in \<open>world.ircs\<close>, \<open>irc_cleared\<close> whether the common list of callbacks
  has been emptied; \<open>irc_users\<close> is \<open>ircdb.users\<close>; \<open>irc_random\<close> holds the random numbers to come.  A callback is
  a record of its methods, functions on the connection that may raise and may change it; callbacks that
  register or remove callbacks while a message is processed are outside the model.  \<open>now\<close> is the clock.
\<close>

section \<open>The object\<close>

datatype driver_call = DriverDie | DriverReconnect bool

record Irc =
  irc_network :: string
  irc_zombie :: bool
  irc_state :: IrcState
  irc_queue :: IrcMsgQueue
  irc_fastqueue :: "IrcMsg smallqueue"
  irc_driver :: "driver_call list option"
  irc_nick :: string
  irc_user :: string
  irc_ident :: string
  irc_alternateNicks :: "string list"
  irc_password :: string
  irc_prefix :: string
  irc_lastTake :: int
  irc_server :: string
  irc_afterConnect :: bool
  irc_lastping :: int
  irc_outstandingPing :: bool
  irc_startedSync :: "int IrcDict"
  irc_inWorld :: bool
  irc_cleared :: bool
  irc_users :: UsersDictionary
  irc_random :: "(nat \<times> nat) list"

record irc_conf =
  ck_nick :: string
  ck_user :: string
  ck_ident :: string
  ck_alternates :: "string list"
  ck_password :: string
  ck_throttleTime :: int
  ck_ping :: bool
  ck_pingInterval :: int
  ck_umodes :: string
  ck_follow :: bool
  ck_strictRfc :: bool
  ck_dups :: bool
  ck_joinLimit :: int
  ck_maxHistory :: int
  ck_testing :: bool
  ck_timeout :: int
  ck_otherIrcs :: nat

record callback =
  cb_name :: string
  cb_callBefore :: "string list"
  cb_callAfter :: "string list"
  cb_inFilter :: "IrcMsg \<Rightarrow> (Irc, IrcMsg option) act"
  cb_outFilter :: "IrcMsg \<Rightarrow> (Irc, IrcMsg option) act"
  cb_call :: "IrcMsg \<Rightarrow> (Irc, unit) act"
  cb_reset :: "(Irc, unit) act"
  cb_die :: "(Irc, unit) act"

text \<open>\<open>log.firewall\<close>: an exception is logged and the value of the error handler returned.\<close>

definition firewall :: "'a \<Rightarrow> ('s, 'a) act \<Rightarrow> ('s, 'a) act" where
  "firewall dflt m = (\<lambda>s. case m s of (Inl e, s') \<Rightarrow> (Inr dflt, s') | r \<Rightarrow> r)"

text \<open>\<open>try: ... except: log.exception(...)\<close> around a statement.\<close>

abbreviation swallow :: "('s, unit) act \<Rightarrow> ('s, unit) act" where
  "swallow \<equiv> firewall ()"

text \<open>The methods of a callback class, as its metaclass firewalls them.\<close>

definition inFilter :: "callback \<Rightarrow> IrcMsg \<Rightarrow> (Irc, IrcMsg option) act" where
  "inFilter cb msg = firewall (Some msg) (cb_inFilter cb msg)"

definition outFilter :: "callback \<Rightarrow> IrcMsg \<Rightarrow> (Irc, IrcMsg option) act" where
  "outFilter cb msg = firewall (Some msg) (cb_outFilter cb msg)"

definition callback_call :: "callback \<Rightarrow> IrcMsg \<Rightarrow> (Irc, unit) act" where
  "callback_call cb msg = swallow (cb_call cb msg)"

definition live_callbacks :: "callback list \<Rightarrow> Irc \<Rightarrow> callback list" where
  "live_callbacks cbs irc = (if irc_cleared irc then [] else cbs)"

section \<open>The list of callbacks\<close>

definition getCallback :: "string \<Rightarrow> callback list \<Rightarrow> callback option" where
  "getCallback nm cbs = find (\<lambda>cb. py_lower (cb_name cb) = py_lower nm) cbs"

definition removeCallback :: "string \<Rightarrow> callback list \<Rightarrow> callback list \<times> callback list" where
  "removeCallback nm cbs = partition (\<lambda>cb. py_lower (cb_name cb) = py_lower nm) cbs"

text \<open>
  \<open>callPrecedence\<close>: the callbacks are named by their lower-case names, which are unique in the list.  The
  two assertions raise for a callback that names itself, and the firewall then answers with two empty lists.
\<close>

definition cb_key :: "callback \<Rightarrow> string" where
  "cb_key cb = py_lower (cb_name cb)"

definition registered :: "string list \<Rightarrow> callback list \<Rightarrow> string list" where
  "registered names cbs = map cb_key (List.map_filter (\<lambda>nm. getCallback nm cbs) names)"

definition callPrecedence :: "callback list \<Rightarrow> callback \<Rightarrow> string list \<times> string list" where
  "callPrecedence cbs cb =
     (let after = registered (cb_callBefore cb) cbs; before = registered (cb_callAfter cb) cbs in
      if cb_key cb \<in> set after \<or> cb_key cb \<in> set before then ([], []) else (before, after))"

definition precedence_edges :: "callback list \<Rightarrow> (string \<times> string) list" where
  "precedence_edges cbs = concat (map (\<lambda>cb. case callPrecedence cbs cb of (before, after) \<Rightarrow>
     map (\<lambda>other. (other, cb_key cb)) before @ map (\<lambda>other. (cb_key cb, other)) after) cbs)"

definition getFirsts :: "'a list \<Rightarrow> ('a \<times> 'a) list \<Rightarrow> 'a list \<Rightarrow> 'a list" where
  "getFirsts vs edges cbs = filter (\<lambda>v. v \<notin> set cbs \<and> v \<notin> snd ` set edges) vs"

text \<open>
  The loop of \<open>addCallback\<close>.  Python visits the set of the firsts in an order of its own; the model takes
  them in the order of the list.
\<close>

function tsort :: "'a list \<Rightarrow> ('a \<times> 'a) list \<Rightarrow> 'a list \<Rightarrow> 'a list" where
  "tsort vs edges cbs =
     (let firsts = getFirsts vs edges cbs in
      if firsts = [] then cbs
      else tsort vs (filter (\<lambda>e. fst e \<notin> set firsts) edges) (cbs @ firsts))"
  by pat_completeness auto
termination
proof (relation "measure (\<lambda>(vs, edges, cbs). card (set vs - set cbs))", goal_cases)
  case (2 vs edges cbs firsts)
  then obtain v where v: "v \<in> set firsts" by (meson list.set_sel(1))
  have "set firsts \<subseteq> set vs - set cbs" using 2 by (auto simp: getFirsts_def)
  with v have "set vs - set (cbs @ firsts) \<subset> set vs - set cbs" by auto
  then show ?case by (simp add: psubset_card_mono)
qed simp

declare tsort.simps [simp del]

text \<open>\<open>addCallback\<close>: the callback is in the list already when the sort finds a cycle and the assertion raises.\<close>

definition addCallback :: "callback \<Rightarrow> (callback list, unit) act" where
  "addCallback cb =
     seqA (bindA (getA (getCallback (cb_name cb))) (\<lambda>found. assertA (Option.is_none found)))
       (seqA (modifyA (\<lambda>cbs. cbs @ [cb]))
         (bindA (getA (\<lambda>cbs. (cbs, tsort (map cb_key cbs) (precedence_edges cbs) []))) (\<lambda>(cbs, order).
           seqA (assertA (length order = length cbs))
             (modifyA (\<lambda>_. List.map_filter (\<lambda>k. find (\<lambda>c. cb_key c = k) cbs) order)))))"

section \<open>Names on this network\<close>

text \<open>
  \<open>isChannel\<close> with what the server supports: a \<open>CHANTYPES\<close> without a value cannot be searched, a
  \<open>CHANNELLEN\<close> without a value is smaller than every length.
\<close>

definition Irc_isChannel :: "IrcState \<Rightarrow> string \<Rightarrow> bool res" where
  "Irc_isChannel st s =
     (let len = (case pdict_lookup py_lower (is_supported st) ''channellen'' of
                   None \<Rightarrow> 50 | Some (SInt n) \<Rightarrow> n | Some _ \<Rightarrow> -1)
      in case pdict_lookup py_lower (is_supported st) ''chantypes'' of
           None \<Rightarrow> Inr (isChannel_with ''#&+!'' len s)
         | Some (SStr t) \<Rightarrow> Inr (isChannel_with t len s)
         | Some _ \<Rightarrow> if s \<noteq> [] \<and> CHR '','' \<notin> set s \<and> CHR 0x07 \<notin> set s then Inl TypeError else Inr False)"

definition Irc_isNick :: "IrcState \<Rightarrow> string \<Rightarrow> bool" where
  "Irc_isNick st s =
     isNick_with True (case pdict_lookup py_lower (is_supported st) ''nicklen'' of
       Some (SInt n) \<Rightarrow> Some n | _ \<Rightarrow> None) s"

section \<open>Queues and driver\<close>

definition queueMsg :: "irc_conf \<Rightarrow> IrcMsg \<Rightarrow> (Irc, bool) act" where
  "queueMsg cf msg =
     bindA (getA irc_zombie) (\<lambda>zombie.
       if zombie then retA False
       else bindA (getA (\<lambda>irc. IrcMsgQueue_enqueue (ck_dups cf) msg (irc_queue irc))) (\<lambda>(b, q).
         seqA (modifyA (\<lambda>irc. irc\<lparr>irc_queue := q\<rparr>)) (retA b)))"

definition sendMsg :: "IrcMsg \<Rightarrow> (Irc, unit) act" where
  "sendMsg msg =
     bindA (getA irc_zombie) (\<lambda>zombie.
       if zombie then retA ()
       else modifyA (\<lambda>irc. irc\<lparr>irc_fastqueue := smallqueue_enqueue (irc_fastqueue irc) msg\<rparr>))"

text \<open>\<open>self.queueMsg(ircmsgs.f(...))\<close> and \<open>self.sendMsg(ircmsgs.f(...))\<close>: the constructor may raise.\<close>

definition queue_new :: "irc_conf \<Rightarrow> IrcMsg res \<Rightarrow> (Irc, unit) act" where
  "queue_new cf r = bindA (liftA r) (\<lambda>m. seqA (queueMsg cf m) (retA ()))"

definition send_new :: "IrcMsg res \<Rightarrow> (Irc, unit) act" where
  "send_new r = bindA (liftA r) sendMsg"

text \<open>A method of \<open>self.driver\<close>, which is \<open>None\<close> until the driver sets it.\<close>

definition driverCall :: "driver_call \<Rightarrow> (Irc, unit) act" where
  "driverCall c =
     bindA (getA irc_driver) (\<lambda>d. case d of
       None \<Rightarrow> raiseA AttributeError
     | Some calls \<Rightarrow> modifyA (\<lambda>irc. irc\<lparr>irc_driver := Some (calls @ [c])\<rparr>))"

definition reallyDie :: "irc_conf \<Rightarrow> callback list \<Rightarrow> (Irc, unit) act" where
  "reallyDie cf cbs =
     seqA (bindA (getA irc_driver) (\<lambda>d. if d \<noteq> None then driverCall DriverDie else retA ()))
       (bindA (getA irc_inWorld) (\<lambda>inWorld.
         if inWorld then
           seqA (modifyA (\<lambda>irc. irc\<lparr>irc_inWorld := False\<rparr>))
             (if ck_otherIrcs cf = 0 then
                seqA (bindA (getA (live_callbacks cbs)) (forA (\<lambda>cb. swallow (cb_die cb))))
                  (modifyA (\<lambda>irc. irc\<lparr>irc_cleared := True\<rparr>))
              else retA ())
         else retA ()))"

definition die :: "irc_conf \<Rightarrow> callback list \<Rightarrow> (Irc, unit) act" where
  "die cf cbs =
     swallow (seqA (modifyA (\<lambda>irc. irc\<lparr>irc_zombie := True\<rparr>))
       (bindA (getA irc_afterConnect) (\<lambda>connected. if \<not> connected then reallyDie cf cbs else retA ())))"

section \<open>Connecting\<close>

definition setNonResettingVariables :: "irc_conf \<Rightarrow> int \<Rightarrow> Irc \<Rightarrow> Irc" where
  "setNonResettingVariables cf now irc =
     irc\<lparr>irc_nick := ck_nick cf, irc_user := ck_user cf, irc_ident := ck_ident cf,
         irc_alternateNicks := ck_alternates cf, irc_password := ck_password cf,
         irc_prefix := ck_nick cf @ ''!'' @ ck_ident cf @ ''@unset.domain'',
         irc_lastTake := 0, irc_server := ''unset'', irc_afterConnect := False, irc_lastping := now,
         irc_outstandingPing := False\<rparr>"

definition queueConnectMessages :: "irc_conf \<Rightarrow> callback list \<Rightarrow> (Irc, unit) act" where
  "queueConnectMessages cf cbs =
     bindA (getA irc_zombie) (\<lambda>zombie.
       if zombie then seqA (driverCall DriverDie) (reallyDie cf cbs)
       else bindA (getA (\<lambda>irc. irc)) (\<lambda>irc.
         seqA (if irc_password irc \<noteq> [] then queue_new cf (password_msg (ck_strictRfc cf) (irc_password irc) [] None) else retA ())
           (seqA (queue_new cf (nick_msg (ck_strictRfc cf) (irc_nick irc) [] None))
             (queue_new cf (user_msg (ck_strictRfc cf) (irc_ident irc) (irc_user irc) [] None)))))"

definition Irc_blank :: "string \<Rightarrow> IrcState \<Rightarrow> UsersDictionary \<Rightarrow> (nat \<times> nat) list \<Rightarrow> Irc" where
  "Irc_blank network st users rnd =
     \<lparr>irc_network = network, irc_zombie = False, irc_state = st, irc_queue = IrcMsgQueue_empty,
      irc_fastqueue = [], irc_driver = None, irc_nick = [], irc_user = [], irc_ident = [],
      irc_alternateNicks = [], irc_password = [], irc_prefix = [], irc_lastTake = 0, irc_server = [],
      irc_afterConnect = False, irc_lastping = 0, irc_outstandingPing = False, irc_startedSync = [],
      irc_inWorld = True, irc_cleared = False, irc_users = users, irc_random = rnd\<rparr>"

definition Irc_new :: "irc_conf \<Rightarrow> callback list \<Rightarrow> int \<Rightarrow> string \<Rightarrow> UsersDictionary \<Rightarrow> (nat \<times> nat) list \<Rightarrow> Irc res" where
  "Irc_new cf cbs now network users rnd =
     bindR (IrcState_new (ck_maxHistory cf)) (\<lambda>st.
       case queueConnectMessages cf cbs (setNonResettingVariables cf now (Irc_blank network st users rnd)) of
         (Inl e, _) \<Rightarrow> Inl e
       | (Inr _, irc) \<Rightarrow> Inr irc)"

text \<open>A method of \<open>self.state\<close>.\<close>

definition on_state :: "(IrcState, 'a) act \<Rightarrow> (Irc, 'a) act" where
  "on_state m = (\<lambda>irc. case m (irc_state irc) of (x, st) \<Rightarrow> (x, irc\<lparr>irc_state := st\<rparr>))"

definition Irc_reset :: "irc_conf \<Rightarrow> callback list \<Rightarrow> int \<Rightarrow> (Irc, unit) act" where
  "Irc_reset cf cbs now =
     seqA (modifyA (setNonResettingVariables cf now))
       (seqA (on_state (IrcState_reset (ck_maxHistory cf)))
         (seqA (modifyA (\<lambda>irc. irc\<lparr>irc_queue := IrcMsgQueue_reset (irc_queue irc), irc_fastqueue := [], irc_startedSync := []\<rparr>))
           (seqA (bindA (getA (live_callbacks cbs)) (forA (\<lambda>cb. swallow (cb_reset cb))))
             (queueConnectMessages cf cbs))))"

section \<open>The next nick to try\<close>

text \<open>\<open>nick %= conf.supybot.nick()\<close>: one \<open>%s\<close>, and \<open>%%\<close> for a percent sign; any other use raises.\<close>

fun format_one :: "string \<Rightarrow> string option \<Rightarrow> string res" where
  "format_one [] arg = (if arg = None then Inr [] else Inl TypeError)"
| "format_one [c] arg =
     (if c = CHR ''%'' then Inl ValueError else bindR (format_one [] arg) (\<lambda>r. Inr (c # r)))"
| "format_one (c # d # s) arg =
     (if c = CHR ''%'' then
        (if d = CHR ''%'' then bindR (format_one s arg) (\<lambda>r. Inr (CHR ''%'' # r))
         else if d = CHR ''s'' then
           (case arg of None \<Rightarrow> Inl TypeError | Some a \<Rightarrow> bindR (format_one s None) (\<lambda>r. Inr (a @ r)))
         else Inl ValueError)
      else bindR (format_one (d # s) arg) (\<lambda>r. Inr (c # r)))"

text \<open>The loop that puts random digits into the nick until it is another one.\<close>

fun random_nick :: "string \<Rightarrow> string \<Rightarrow> string \<Rightarrow> (nat \<times> nat) list \<Rightarrow> (string \<times> (nat \<times> nat) list) res" where
  "random_nick nick ret L [] = (if strEqual ret nick then Inl RuntimeError else Inr (ret, []))"
| "random_nick nick ret L ((p, k) # rnd) =
     (if strEqual ret nick then
        (let L' = L[p mod length L := char_of (48 + k mod 10 :: nat)] in random_nick nick L' L' rnd)
      else Inr (ret, (p, k) # rnd))"

definition getNextNick :: "irc_conf \<Rightarrow> (Irc, string) act" where
  "getNextNick cf =
     bindA (getA irc_alternateNicks) (\<lambda>alts. case alts of
       nick # rest \<Rightarrow>
         seqA (modifyA (\<lambda>irc. irc\<lparr>irc_alternateNicks := rest\<rparr>))
           (if has_sub ''%s'' nick then liftA (format_one nick (Some (ck_nick cf))) else retA nick)
     | [] \<Rightarrow>
         let nick = ck_nick cf; L = nick @ replicate (4 - length nick) CHR 0x60 in
         bindA (getA (\<lambda>irc. random_nick nick nick L (irc_random irc))) (\<lambda>r. bindA (liftA r) (\<lambda>(ret, rnd).
           seqA (modifyA (\<lambda>irc. irc\<lparr>irc_random := rnd\<rparr>)) (retA ret))))"

end
