(* ===== verification/IrcLoop.thy ===== *)
theory IrcLoop
  imports IrcClient
begin

text \<open>
  The handlers of \<open>Irc\<close>, \<open>feedMsg\<close> (a message from the server) and \<open>takeMsg\<close> (the next message to send).

  Both are firewalled: an exception ends them with \<open>None\<close>, with the changes made so far.  \<open>takeMsg\<close> calls
  itself when a filter drops a message; each of the calls takes a reading of the clock from the list
  \<open>readings\<close>, and the result is \<open>None\<close> when the readings run out.
\<close>

section \<open>Handlers\<close>

definition irc_arg :: "IrcMsg \<Rightarrow> nat \<Rightarrow> (Irc, string) act" where
  "irc_arg msg i = liftA (msg_arg msg i)"

text \<open>\<open>(beginning, version) = rsplit(msg.args[-1], maxsplit=1)\<close>: two words at least.\<close>

definition Irc_do002 :: "IrcMsg \<Rightarrow> (Irc, unit) act" where
  "Irc_do002 msg =
     (if im_args msg = [] then raiseA IndexError
      else if length (split_ws (List.last (im_args msg))) < 2 then raiseA ValueError else retA ())"

definition Irc_doPing :: "irc_conf \<Rightarrow> IrcMsg \<Rightarrow> (Irc, unit) act" where
  "Irc_doPing cf msg = bindA (irc_arg msg 0) (\<lambda>payload. send_new (pong_msg (ck_strictRfc cf) payload [] None))"

definition Irc_doPong :: "IrcMsg \<Rightarrow> (Irc, unit) act" where
  "Irc_doPong msg = modifyA (\<lambda>irc. irc\<lparr>irc_outstandingPing := False\<rparr>)"

definition Irc_do376 :: "irc_conf \<Rightarrow> IrcMsg \<Rightarrow> (Irc, unit) act" where
  "Irc_do376 cf msg =
     seqA (modifyA (\<lambda>irc. irc\<lparr>irc_afterConnect := True, irc_alternateNicks := ck_alternates cf\<rparr>))
       (case ck_umodes cf of
          [] \<Rightarrow> retA ()
        | c # _ \<Rightarrow>
            let umodes = (if c = CHR ''+'' \<or> c = CHR ''-'' then ck_umodes cf else CHR ''+'' # ck_umodes cf) in
            bindA (getA irc_nick) (\<lambda>nick. send_new (mode_msg nick (Inl umodes) [] None)))"

definition Irc_do43x :: "irc_conf \<Rightarrow> IrcMsg \<Rightarrow> (Irc, unit) act" where
  "Irc_do43x cf msg =
     bindA (getA irc_afterConnect) (\<lambda>connected.
       if connected then retA ()
       else bindA (getNextNick cf) (\<lambda>newNick. bindA (getA irc_nick) (\<lambda>nick.
         seqA (assertA (newNick \<noteq> nick)) (send_new (nick_msg (ck_strictRfc cf) newNick [] None)))))"

definition Irc_doJoin :: "irc_conf \<Rightarrow> int \<Rightarrow> IrcMsg \<Rightarrow> (Irc, unit) act" where
  "Irc_doJoin cf now msg =
     bindA (getA irc_nick) (\<lambda>nick.
       if im_nick msg \<noteq> nick then retA ()
       else bindA (irc_arg msg 0) (\<lambda>channel.
         seqA (queue_new cf (who_msg (ck_strictRfc cf) channel [] None))
           (seqA (queue_new cf (mode_msg channel (Inr []) [] None))
             (modifyA (\<lambda>irc. irc\<lparr>irc_startedSync := ircdict_set channel now (irc_startedSync irc)\<rparr>)))))"

definition Irc_do315 :: "IrcMsg \<Rightarrow> (Irc, unit) act" where
  "Irc_do315 msg =
     bindA (irc_arg msg 1) (\<lambda>channel.
       modifyA (\<lambda>irc. irc\<lparr>irc_startedSync := ircdict_drop channel (irc_startedSync irc)\<rparr>))"

definition Irc_doError :: "IrcMsg \<Rightarrow> (Irc, unit) act" where
  "Irc_doError msg =
     bindA (irc_arg msg 0) (\<lambda>reason. bindA (getA irc_zombie) (\<lambda>zombie.
       if zombie then retA ()
       else if startswith reason ''Closing Link'' then driverCall (DriverReconnect False)
       else if has_sub ''too fast'' reason then driverCall (DriverReconnect True)
       else retA ()))"

text \<open>A method of the user database, run from the connection.\<close>

definition on_users :: "'a users_act \<Rightarrow> (Irc, 'a) act" where
  "on_users m = (\<lambda>irc. case m (irc_users irc) of (x, d) \<Rightarrow> (x, irc\<lparr>irc_users := d\<rparr>))"

text \<open>
  Following an identification: the entry \<open>i\<close> of \<open>auth\<close> of the user object in the table is replaced, and the
  user set again.
\<close>

definition follow_auth :: "irc_conf \<Rightarrow> int \<Rightarrow> int \<Rightarrow> nat \<Rightarrow> string \<Rightarrow> unit users_act" where
  "follow_auth cf now uid i newhostmask =
     seqA (UsersDictionary_edit uid (\<lambda>u.
         bindR (list_item (iu_auth u) (int i)) (\<lambda>(at, _).
           bindR (list_store (iu_auth u) (int i) (at, newhostmask)) (\<lambda>auth. Inr (u\<lparr>iu_auth := auth\<rparr>)))))
       (bindA (getA ud_users) (\<lambda>us. bindA (liftA (dict_item us uid)) (\<lambda>u.
         UsersDictionary_setUser (ck_timeout cf) now u True)))"

definition follow_identification :: "irc_conf \<Rightarrow> int \<Rightarrow> IrcMsg \<Rightarrow> IrcUser \<Rightarrow> int \<Rightarrow> (Irc, unit) act" where
  "follow_identification cf now msg u uid =
     (if iu_auth u = [] then retA ()
      else bindA (liftA (splitHostmask (im_prefix msg))) (\<lambda>(_, user, host).
        bindA (irc_arg msg 0) (\<lambda>newNick. bindA (liftA (joinHostmask newNick user host)) (\<lambda>newhostmask.
          forA (\<lambda>(i, (at, authmask)).
              if strEqual (im_prefix msg) authmask then on_users (follow_auth cf now uid i newhostmask) else retA ())
            (List.enumerate 0 (iu_auth u))))))"

definition Irc_doNick :: "irc_conf \<Rightarrow> int \<Rightarrow> IrcMsg \<Rightarrow> (Irc, unit) act" where
  "Irc_doNick cf now msg =
     bindA (getA irc_nick) (\<lambda>nick.
       if im_nick msg = nick then
         bindA (irc_arg msg 0) (\<lambda>newNick.
           seqA (modifyA (\<lambda>irc. irc\<lparr>irc_nick := newNick\<rparr>))
             (bindA (liftA (splitHostmask (im_prefix msg))) (\<lambda>(_, user, domain).
               bindA (liftA (joinHostmask newNick user domain)) (\<lambda>p. modifyA (\<lambda>irc. irc\<lparr>irc_prefix := p\<rparr>)))))
       else if ck_follow cf then (\<lambda>irc.
         (case on_users (bindA (UsersDictionary_getUserId (ck_timeout cf) now (im_prefix msg)) (\<lambda>i.
             bindA (UsersDictionary_getUser (ck_timeout cf) now (ById i)) (\<lambda>u. retA (i, u)))) irc of
            (Inr (i, u), irc') \<Rightarrow> follow_identification cf now msg u i irc'
          | (Inl e, irc') \<Rightarrow> (if e = KeyError then Inr () else Inl e, irc')))
       else retA ())"

text \<open>\<open>dispatchCommand\<close>; \<open>do43x\<close> is found as a handler too, and called without its second argument.\<close>

definition Irc_dispatch :: "irc_conf \<Rightarrow> int \<Rightarrow> IrcMsg \<Rightarrow> (Irc, unit) act" where
  "Irc_dispatch cf now msg =
     (let cmd = py_capitalize (im_command msg) in
      if cmd = ''002'' then Irc_do002 msg
      else if cmd = ''Ping'' then Irc_doPing cf msg
      else if cmd = ''Pong'' then Irc_doPong msg
      else if cmd \<in> {''376'', ''377'', ''422''} then Irc_do376 cf msg
      else if cmd \<in> {''433'', ''432''} then Irc_do43x cf msg
      else if cmd = ''43x'' then raiseA TypeError
      else if cmd = ''Join'' then Irc_doJoin cf now msg
      else if cmd = ''315'' then Irc_do315 msg
      else if cmd = ''Error'' then Irc_doError msg
      else if cmd = ''Nick'' then Irc_doNick cf now msg
      else retA ())"

section \<open>feedMsg\<close>

definition nickSetters :: "string set" where
  "nickSetters = {''001'', ''002'', ''003'', ''004'', ''250'', ''251'', ''252'', ''254'', ''255'', ''265'', ''266'',
     ''372'', ''375'', ''376'', ''333'', ''353'', ''332'', ''366'', ''005''}"

text \<open>The message as it is tagged and, when its prefix is the bot's nick, corrected.\<close>

definition receive :: "IrcMsg \<Rightarrow> (Irc, IrcMsg) act" where
  "receive msg =
     bindA (getA (\<lambda>irc. irc)) (\<lambda>irc.
       let m = IrcMsg_tag ''receivedOn'' (TText (irc_network irc))
                 (IrcMsg_tag ''receivedBy'' (TText (''Irc object for '' @ irc_network irc)) msg) in
       seqA (if im_args m \<noteq> [] then bindA (liftA (Irc_isChannel (irc_state irc) (hd (im_args m)))) (\<lambda>_. retA ()) else retA ())
         (if im_prefix m = irc_nick irc then liftA (IrcMsg_kw (irc_prefix irc) [] [] (Some m)) else retA m))"

text \<open>The prefix, nick and server attributes.\<close>

definition learn_names :: "IrcMsg \<Rightarrow> (Irc, unit) act" where
  "learn_names msg =
     seqA (modifyA (\<lambda>irc. if im_nick msg = irc_nick irc \<and> irc_prefix irc \<noteq> im_prefix msg
                          then irc\<lparr>irc_prefix := im_prefix msg\<rparr> else irc))
       (if im_command msg \<in> nickSetters then
          bindA (irc_arg msg 0) (\<lambda>nick.
            modifyA (\<lambda>irc. irc\<lparr>irc_nick := nick, irc_server := im_prefix msg\<rparr>))
        else retA ())"

text \<open>The filters: each sees what the previous one made of the message; \<open>None\<close> ends the processing.\<close>

fun in_filters :: "callback list \<Rightarrow> IrcMsg \<Rightarrow> (Irc, IrcMsg option) act" where
  "in_filters [] msg = retA (Some msg)"
| "in_filters (cb # cbs) msg =
     bindA (inFilter cb msg) (\<lambda>r. case r of None \<Rightarrow> retA None | Some m \<Rightarrow> in_filters cbs m)"

text \<open>The rest: the tracked state and the callbacks.\<close>

definition announce :: "callback list \<Rightarrow> IrcMsg \<Rightarrow> (Irc, unit) act" where
  "announce cbs msg =
     seqA (bindA (getA irc_nick) (\<lambda>nick. swallow (on_state (IrcState_addMsg nick msg))))
       (bindA (getA (live_callbacks cbs)) (\<lambda>filters.
         bindA (in_filters filters msg) (\<lambda>r. case r of
           None \<Rightarrow> retA ()
         | Some m \<Rightarrow> bindA (getA (live_callbacks cbs)) (forA (\<lambda>cb. callback_call cb m)))))"

definition feedMsg_body :: "irc_conf \<Rightarrow> callback list \<Rightarrow> int \<Rightarrow> IrcMsg \<Rightarrow> (Irc, unit) act" where
  "feedMsg_body cf cbs now msg =
     bindA (receive msg) (\<lambda>m. seqA (learn_names m) (seqA (Irc_dispatch cf now m) (announce cbs m)))"

definition feedMsg :: "irc_conf \<Rightarrow> callback list \<Rightarrow> int \<Rightarrow> IrcMsg \<Rightarrow> (Irc, unit) act" where
  "feedMsg cf cbs now msg = swallow (feedMsg_body cf cbs now msg)"

section \<open>takeMsg\<close>

text \<open>A ping that is due: the last one was not answered, or a new one is queued.  \<open>stamp\<close> is \<open>log.timestamp\<close>.\<close>

definition check_ping :: "(int \<Rightarrow> string) \<Rightarrow> irc_conf \<Rightarrow> callback list \<Rightarrow> int \<Rightarrow> (Irc, unit) act" where
  "check_ping stamp cf cbs now =
     bindA (getA (\<lambda>irc. irc)) (\<lambda>irc.
       if irc_outstandingPing irc then
         bindA (liftA (error_msg (''Ping sent at '' @ stamp (irc_lastping irc) @ '' not replied to.'') None)) (\<lambda>m.
           seqA (feedMsg cf cbs now m) (driverCall (DriverReconnect False)))
       else if irc_zombie irc then retA ()
       else seqA (modifyA (\<lambda>irc. irc\<lparr>irc_lastping := now, irc_outstandingPing := True\<rparr>))
              (queue_new cf (ping_msg (ck_strictRfc cf) (str_of_int now) [] None)))"

text \<open>The message the queues give at this moment.\<close>

definition pick_msg :: "(int \<Rightarrow> string) \<Rightarrow> irc_conf \<Rightarrow> callback list \<Rightarrow> int \<Rightarrow> (Irc, IrcMsg option) act" where
  "pick_msg stamp cf cbs now =
     bindA (getA (\<lambda>irc. irc)) (\<lambda>irc.
       if irc_fastqueue irc \<noteq> [] then
         bindA (liftA (smallqueue_dequeue (irc_fastqueue irc))) (\<lambda>(m, q).
           seqA (modifyA (\<lambda>irc. irc\<lparr>irc_fastqueue := q\<rparr>)) (retA (Some m)))
       else if IrcMsgQueue_nonzero (irc_queue irc) then
         (if now - irc_lastTake irc \<le> ck_throttleTime cf then retA None
          else case IrcMsgQueue_dequeue (ck_joinLimit cf) now (irc_queue irc) of (m, q) \<Rightarrow>
            seqA (modifyA (\<lambda>irc. irc\<lparr>irc_lastTake := now, irc_queue := q\<rparr>)) (retA m))
       else if irc_afterConnect irc \<and> ck_ping cf \<and> irc_lastping irc + ck_pingInterval cf < now then
         seqA (check_ping stamp cf cbs now) (retA None)
       else retA None)"

fun out_filters :: "callback list \<Rightarrow> IrcMsg \<Rightarrow> (Irc, IrcMsg option) act" where
  "out_filters [] msg = retA (Some msg)"
| "out_filters (cb # cbs) msg =
     bindA (outFilter cb msg) (\<lambda>r. case r of None \<Rightarrow> retA None | Some m \<Rightarrow> out_filters cbs m)"

text \<open>A message that is too long is cut; its line is a private attribute of the message.\<close>

definition truncate_msg :: "IrcMsg \<Rightarrow> IrcMsg" where
  "truncate_msg msg =
     (case IrcMsg_str msg of (s, m) \<Rightarrow>
        if length s > 512 then m\<lparr>im_str := Some (take 500 s @ CRLF)\<rparr> else m)"

definition take_outgoing :: "irc_conf \<Rightarrow> IrcMsg \<Rightarrow> (Irc, IrcMsg option) act" where
  "take_outgoing cf msg =
     (let m = truncate_msg msg in
      seqA (if ck_testing cf then bindA (getA irc_nick) (\<lambda>nick. on_state (IrcState_addMsg nick m)) else retA ())
        (retA (Some m)))"

definition take_nothing :: "irc_conf \<Rightarrow> callback list \<Rightarrow> (Irc, IrcMsg option) act" where
  "take_nothing cf cbs =
     bindA (getA irc_zombie) (\<lambda>zombie.
       if zombie then seqA (driverCall DriverDie) (seqA (reallyDie cf cbs) (retA None)) else retA None)"

text \<open>The value of an action behind the firewall.\<close>

definition run_firewalled :: "(Irc, IrcMsg option) act \<Rightarrow> Irc \<Rightarrow> IrcMsg option \<times> Irc" where
  "run_firewalled m irc = (case m irc of (Inl e, s) \<Rightarrow> (None, s) | (Inr r, s) \<Rightarrow> (r, s))"

fun takeMsg :: "(int \<Rightarrow> string) \<Rightarrow> irc_conf \<Rightarrow> callback list \<Rightarrow> int list \<Rightarrow> Irc \<Rightarrow> (IrcMsg option \<times> Irc) option" where
  "takeMsg stamp cf cbs [] irc = None"
| "takeMsg stamp cf cbs (now # readings) irc =
     (case pick_msg stamp cf cbs now irc of
        (Inl e, s) \<Rightarrow> Some (None, s)
      | (Inr None, s) \<Rightarrow> Some (run_firewalled (take_nothing cf cbs) s)
      | (Inr (Some msg), s) \<Rightarrow>
          (case out_filters (rev (live_callbacks cbs s)) msg s of
             (Inl e, s') \<Rightarrow> Some (None, s')
           | (Inr None, s') \<Rightarrow> takeMsg stamp cf cbs readings s'
           | (Inr (Some m), s') \<Rightarrow> Some (run_firewalled (take_outgoing cf m) s')))"

end
