(* ===== verification/IrcLoopLaws.thy ===== *)
theory IrcLoopLaws
  imports IrcLoop IrcStateLaws
begin

text \<open>
  What the connection object promises.  The locales \<open>connection_input\<close>, \<open>connection_output\<close> and
  \<open>connection_life\<close> state what a property of the connection must be stable under to hold after messages
  were fed, after messages were taken, and after the object was reset or told to die; each is proved for all
  handlers at once and interpreted with the properties needed below.  The callbacks are parameters:
  \<open>callback_keeps\<close> is what is asked of them.
\<close>

section \<open>Invariants of the connection\<close>

definition callback_keeps :: "(Irc \<Rightarrow> bool) \<Rightarrow> callback \<Rightarrow> bool" where
  "callback_keeps P cb \<longleftrightarrow>
     (\<forall>m. keepsA P (cb_inFilter cb m) \<and> keepsA P (cb_outFilter cb m) \<and> keepsA P (cb_call cb m))
     \<and> keepsA P (cb_reset cb) \<and> keepsA P (cb_die cb)"

text \<open>What the queues, the driver and the tracked state are; the other attributes are names and timers.\<close>

definition irc_core where
  "irc_core irc = (irc_zombie irc, irc_state irc, irc_queue irc, irc_fastqueue irc, irc_driver irc, irc_inWorld irc)"

lemma keepsA_firewall [wf_intros]: "keepsA P m \<Longrightarrow> keepsA P (firewall x m)"
  by (auto simp: keepsA_def firewall_def split: prod.split sum.split)

lemma callbacks_firewalled [wf_intros]:
  assumes "callback_keeps P cb"
  shows "keepsA P (inFilter cb m)" "keepsA P (outFilter cb m)" "keepsA P (callback_call cb m)"
    "keepsA P (swallow (cb_reset cb))" "keepsA P (swallow (cb_die cb))"
  using assms by (auto simp: callback_keeps_def inFilter_def outFilter_def callback_call_def intro!: keepsA_firewall)

lemma in_filters_keeps [wf_intros]:
  "(\<And>cb. cb \<in> set cbs \<Longrightarrow> callback_keeps P cb) \<Longrightarrow> keepsA P (in_filters cbs m)"
  by (induction cbs arbitrary: m) (auto intro!: wf_intros split: option.split)

lemma out_filters_keeps [wf_intros]:
  "(\<And>cb. cb \<in> set cbs \<Longrightarrow> callback_keeps P cb) \<Longrightarrow> keepsA P (out_filters cbs m)"
  by (induction cbs arbitrary: m) (auto intro!: wf_intros split: option.split)

lemma keepsA_bind_live:
  assumes "\<And>xs. set xs \<subseteq> set cbs \<Longrightarrow> keepsA P (f xs)"
  shows "keepsA P (bindA (getA (live_callbacks cbs)) f)"
  using assms [of cbs] assms [of "[]"] by (auto simp: keepsA_def act_defs live_callbacks_def)

locale connection_input =
  fixes P :: "Irc \<Rightarrow> bool"
  assumes core: "\<And>irc irc'. P irc \<Longrightarrow> irc_core irc' = irc_core irc \<Longrightarrow> P irc'"
    and queued: "\<And>cf m. keepsA P (queueMsg cf m)"
    and sent: "\<And>m. keepsA P (sendMsg m)"
    and driven: "\<And>c. keepsA P (driverCall c)"
    and tracked: "\<And>nick m. keepsA P (on_state (IrcState_addMsg nick m))"
begin

lemma names: "(\<And>irc. irc_core (f irc) = irc_core irc) \<Longrightarrow> keepsA P (modifyA f)"
  using core by (auto simp: keepsA_def modifyA_def)

lemma users: "keepsA P (on_users m)"
  unfolding keepsA_def on_users_def by (auto split: prod.split intro: core simp: irc_core_def)

lemma made: "keepsA P (queue_new cf r)" "keepsA P (send_new r)"
  unfolding queue_new_def send_new_def by (intro wf_intros queued sent)+

lemmas stable_input = queued sent driven tracked users made names

lemma next_nick: "keepsA P (getNextNick cf)"
  unfolding getNextNick_def Let_def
  by (intro wf_intros) (auto split: list.split prod.split intro!: wf_intros names simp: irc_core_def)

lemma follows: "keepsA P (follow_identification cf now m u uid)"
proof -
  have "keepsA P (irc_arg m i)" for i by (simp add: irc_arg_def wf_intros)
  then show ?thesis unfolding follow_identification_def by (auto split: prod.split intro!: wf_intros users)
qed

lemma nick_changes: "keepsA P (Irc_doNick cf now m)"
proof -
  have arg: "keepsA P (irc_arg m i)" for i by (simp add: irc_arg_def wf_intros)
  let ?found = "on_users (bindA (UsersDictionary_getUserId (ck_timeout cf) now (im_prefix m)) (\<lambda>i.
      bindA (UsersDictionary_getUser (ck_timeout cf) now (ById i)) (\<lambda>u. retA (i, u))))"
  let ?follow = "\<lambda>irc. (case ?found irc of
      (Inr (i, u), irc') \<Rightarrow> follow_identification cf now m u i irc'
    | (Inl e, irc') \<Rightarrow> (if e = KeyError then Inr () else Inl e, irc'))"
  have "keepsA P ?follow"
    unfolding keepsA_def
  proof (intro allI impI)
    fix irc assume P: "P irc"
    obtain r irc' where r: "?found irc = (r, irc')" by (cases "?found irc")
    with users P have "P irc'" by (rule keepsAD)
    then show "P (snd (?follow irc))"
      using r follows by (cases r) (auto simp: keepsA_def split: prod.split)
  qed
  then show ?thesis unfolding Irc_doNick_def
    by (auto split: prod.split intro!: wf_intros names arg simp: irc_core_def)
qed

lemma dispatched: "keepsA P (Irc_dispatch cf now m)"
proof -
  have arg: "keepsA P (irc_arg m i)" for i by (simp add: irc_arg_def wf_intros)
  have 376: "keepsA P (Irc_do376 cf m)"
    unfolding Irc_do376_def Let_def
    by (intro wf_intros names) (auto simp: irc_core_def split: list.split intro!: wf_intros made)
  have 315: "keepsA P (Irc_do315 m)" "keepsA P (Irc_doPong m)" "keepsA P (Irc_doJoin cf now m)"
    "keepsA P (Irc_do43x cf m)" "keepsA P (Irc_doError m)" "keepsA P (Irc_doPing cf m)" "keepsA P (Irc_do002 m)"
    unfolding Irc_do315_def Irc_doPong_def Irc_doJoin_def Irc_do43x_def Irc_doError_def Irc_doPing_def Irc_do002_def
    by (auto intro!: wf_intros names arg made driven next_nick simp: irc_core_def)
  show ?thesis unfolding Irc_dispatch_def Let_def
    by (intro wf_intros 376 315 nick_changes)
qed

lemma fed:
  assumes "\<And>cb. cb \<in> set cbs \<Longrightarrow> callback_keeps P cb"
  shows "keepsA P (feedMsg cf cbs now m)"
proof -
  have arg: "keepsA P (irc_arg m i)" for i m by (simp add: irc_arg_def wf_intros)
  have "keepsA P (receive m)" "keepsA P (learn_names m')" for m'
    unfolding receive_def learn_names_def Let_def by (auto intro!: wf_intros names arg simp: irc_core_def)
  moreover have "callback_keeps P cb" if "cb \<in> set xs" "set xs \<subseteq> set cbs" for cb xs
    using assms that by blast
  ultimately show ?thesis
    unfolding feedMsg_def feedMsg_body_def announce_def
    by (auto intro!: wf_intros dispatched tracked keepsA_bind_live split: option.split)
qed

end

locale connection_output = connection_input +
  assumes sent_off: "\<And>irc m q. P irc \<Longrightarrow> smallqueue_dequeue (irc_fastqueue irc) = Inr (m, q) \<Longrightarrow> P (irc\<lparr>irc_fastqueue := q\<rparr>)"
    and handed_out: "\<And>irc limit now t. P irc \<Longrightarrow>
      P (irc\<lparr>irc_lastTake := t, irc_queue := snd (IrcMsgQueue_dequeue limit now (irc_queue irc))\<rparr>)"
    and out_of_world: "\<And>irc. P irc \<Longrightarrow> P (irc\<lparr>irc_inWorld := False\<rparr>)"
begin

lemma dead:
  assumes "\<And>cb. cb \<in> set cbs \<Longrightarrow> callback_keeps P cb"
  shows "keepsA P (reallyDie cf cbs)"
proof -
  have "callback_keeps P cb" if "cb \<in> set xs" "set xs \<subseteq> set cbs" for cb xs
    using assms that by blast
  moreover have "P (irc\<lparr>irc_cleared := True\<rparr>)" if "P irc" for irc
    using that by (rule core) (simp add: irc_core_def)
  ultimately show ?thesis unfolding reallyDie_def
    by (auto intro!: wf_intros driven keepsA_bind_live out_of_world)
qed

lemma pinged:
  assumes "\<And>cb. cb \<in> set cbs \<Longrightarrow> callback_keeps P cb"
  shows "keepsA P (check_ping stamp cf cbs now)"
  unfolding check_ping_def
  by (intro wf_intros fed assms made driven names) (simp_all add: irc_core_def)

lemma picked:
  assumes "\<And>cb. cb \<in> set cbs \<Longrightarrow> callback_keeps P cb"
  shows "keepsA P (pick_msg stamp cf cbs now)"
  unfolding keepsA_def
proof (intro allI impI)
  fix irc assume P: "P irc"
  show "P (snd (pick_msg stamp cf cbs now irc))"
  proof (cases "irc_fastqueue irc")
    case (Cons m q)
    then have "smallqueue_dequeue (irc_fastqueue irc) = Inr (m, q)" by (simp add: smallqueue_dequeue_def)
    with sent_off [OF P this] Cons show ?thesis by (simp add: pick_msg_def act_defs)
  next
    case Nil
    have handed: "P (irc\<lparr>irc_lastTake := now, irc_queue := q\<rparr>)"
      if "IrcMsgQueue_dequeue (ck_joinLimit cf) now (irc_queue irc) = (r, q)" for r q
      using handed_out [OF P, where t = now and limit = "ck_joinLimit cf" and now = now] that by simp
    have pinged: "P s" if "check_ping stamp cf cbs now irc = (r, s)" for r s
      by (rule keepsAD [OF pinged [OF assms] P that])
    show ?thesis
      using Nil P handed pinged by (auto simp: pick_msg_def act_defs split: prod.split sum.split)
  qed
qed

lemma firewalled_run: "keepsA P m \<Longrightarrow> P s \<Longrightarrow> P (snd (run_firewalled m s))"
  by (auto simp: run_firewalled_def keepsA_def split: prod.split sum.split)

lemma taken:
  assumes cbs: "\<And>cb. cb \<in> set cbs \<Longrightarrow> callback_keeps P cb"
    and "P irc" and "takeMsg stamp cf cbs readings irc = Some (r, irc')"
  shows "P irc'"
  using assms(2,3)
proof (induction readings arbitrary: irc)
  case (Cons now readings)
  obtain p s where p: "pick_msg stamp cf cbs now irc = (p, s)" by fastforce
  have s: "P s" by (rule keepsAD [OF picked [OF cbs] Cons.prems(1) p])
  have idle: "keepsA P (take_nothing cf cbs)"
    unfolding take_nothing_def by (intro wf_intros driven dead cbs)
  have outgoing: "keepsA P (take_outgoing cf m)" for m
    unfolding take_outgoing_def Let_def by (intro wf_intros tracked)
  show ?case
  proof (cases p)
    case (Inl e)
    with Cons.prems(2) p s show ?thesis by simp
  next
    case (Inr found)
    show ?thesis
    proof (cases found)
      case None
      have "P (snd (run_firewalled (take_nothing cf cbs) s))" by (rule firewalled_run [OF idle s])
      with None Inr Cons.prems(2) p show ?thesis by auto
    next
      case (Some m)
      obtain q s' where q: "out_filters (rev (live_callbacks cbs s)) m s = (q, s')" by fastforce
      have "keepsA P (out_filters (rev (live_callbacks cbs s)) m)"
        using cbs by (intro out_filters_keeps) (auto simp: live_callbacks_def split: if_splits)
      from this s q have s': "P s'" by (rule keepsAD)
      moreover have "P irc'" if "run_firewalled (take_outgoing cf m') s' = (r, irc')" for m'
        using firewalled_run [of "take_outgoing cf m'" s'] outgoing s' that by simp
      ultimately show ?thesis
        using Inr Some Cons.prems(2) p q Cons.IH [of s'] by (auto split: sum.splits option.splits)
    qed
  qed
qed simp

end

text \<open>\<open>P\<close> as a whole life keeps it: the object is reset when the driver reconnects, and told to die.\<close>

locale connection_life = connection_output +
  assumes condemned: "\<And>irc. P irc \<Longrightarrow> P (irc\<lparr>irc_zombie := True\<rparr>)"
    and restarted: "\<And>n. 0 < n \<Longrightarrow> keepsA P (on_state (IrcState_reset n))"
    and emptied: "\<And>irc. P irc \<Longrightarrow> P (irc\<lparr>irc_queue := IrcMsgQueue_reset (irc_queue irc), irc_fastqueue := []\<rparr>)"
begin

lemma died:
  assumes "\<And>cb. cb \<in> set cbs \<Longrightarrow> callback_keeps P cb"
  shows "keepsA P (die cf cbs)"
  unfolding die_def by (intro wf_intros dead assms condemned)

lemma connected:
  assumes "\<And>cb. cb \<in> set cbs \<Longrightarrow> callback_keeps P cb"
  shows "keepsA P (queueConnectMessages cf cbs)"
  unfolding queueConnectMessages_def by (intro wf_intros dead driven made assms)

lemma was_reset:
  assumes "\<And>cb. cb \<in> set cbs \<Longrightarrow> callback_keeps P cb" and history: "0 < ck_maxHistory cf"
  shows "keepsA P (Irc_reset cf cbs now)"
proof -
  have "callback_keeps P cb" if "cb \<in> set xs" "set xs \<subseteq> set cbs" for cb xs
    using assms that by blast
  moreover have "P (irc\<lparr>irc_queue := IrcMsgQueue_reset (irc_queue irc), irc_fastqueue := [], irc_startedSync := []\<rparr>)"
    if "P irc" for irc
    by (rule core [OF emptied [OF that]]) (simp add: irc_core_def)
  moreover have "keepsA P (queueConnectMessages cf cbs)" by (rule connected [OF assms(1)])
  moreover have "P (setNonResettingVariables cf now irc)" if "P irc" for irc
    using that by (rule core) (simp add: irc_core_def setNonResettingVariables_def)
  ultimately show ?thesis unfolding Irc_reset_def
    by (auto intro!: wf_intros restarted [OF history] keepsA_bind_live)
qed

end

section \<open>Runs\<close>

text \<open>What the driver, the rest of the program and the operator do with a connection.\<close>

inductive irc_step :: "(int \<Rightarrow> string) \<Rightarrow> irc_conf \<Rightarrow> callback list \<Rightarrow> Irc \<Rightarrow> Irc \<Rightarrow> bool"
  for stamp cf cbs where
  step_feed: "irc_step stamp cf cbs irc (snd (feedMsg cf cbs now m irc))"
| step_take: "takeMsg stamp cf cbs readings irc = Some (r, irc') \<Longrightarrow> irc_step stamp cf cbs irc irc'"
| step_queue: "irc_step stamp cf cbs irc (snd (queueMsg cf m irc))"
| step_send: "irc_step stamp cf cbs irc (snd (sendMsg m irc))"
| step_reset: "irc_step stamp cf cbs irc (snd (Irc_reset cf cbs now irc))"
| step_die: "irc_step stamp cf cbs irc (snd (die cf cbs irc))"
| step_driver: "irc_step stamp cf cbs irc (irc\<lparr>irc_driver := Some []\<rparr>)"

inductive_cases irc_stepE: "irc_step stamp cf cbs irc irc'"

abbreviation irc_steps where "irc_steps stamp cf cbs \<equiv> (irc_step stamp cf cbs)\<^sup>*\<^sup>*"

context connection_life
begin

lemma steps_keep:
  assumes "irc_steps stamp cf cbs irc irc'" "P irc"
    and cbs: "\<And>cb. cb \<in> set cbs \<Longrightarrow> callback_keeps P cb"
    and driver: "\<And>irc. P irc \<Longrightarrow> P (irc\<lparr>irc_driver := Some []\<rparr>)"
    and history: "0 < ck_maxHistory cf"
  shows "P irc'"
  using assms(1,2)
proof (induction rule: rtranclp_induct)
  case (step irc1 irc2)
  then have "P irc1" by simp
  with step.hyps(2) show ?case
  proof (cases rule: irc_step.cases)
    case (step_take readings r)
    with \<open>P irc1\<close> taken [OF cbs] show ?thesis by blast
  qed (use fed [OF cbs] queued sent was_reset [OF cbs history] died [OF cbs] driver in \<open>auto simp: keepsA_def\<close>)
qed

end

end
