(* ===== verification/IrcPromises.thy ===== *)
theory IrcPromises
  imports IrcLoopLaws
begin

text \<open>
  The properties of the connection: its invariants over every run, the zombie's promise, the answer to a
  PING, what \<open>takeMsg\<close> returns and that it returns, the order of the callbacks and the next nick.
\<close>

section \<open>The invariants\<close>

definition irc_wf :: "Irc \<Rightarrow> bool" where
  "irc_wf irc \<longleftrightarrow> IrcState_wf (irc_state irc) \<and> IrcMsgQueue_wf (irc_queue irc)"

definition irc_pending :: "Irc \<Rightarrow> IrcMsg list" where
  "irc_pending irc = irc_fastqueue irc @ IrcMsgQueue_content (irc_queue irc)"

definition zombie_within :: "IrcMsg multiset \<Rightarrow> Irc \<Rightarrow> bool" where
  "zombie_within M irc \<longleftrightarrow> irc_zombie irc \<and> mset (irc_pending irc) \<subseteq># M"

lemma snd_queueMsg:
  "snd (queueMsg cf m irc) =
     (if irc_zombie irc then irc else irc\<lparr>irc_queue := snd (IrcMsgQueue_enqueue (ck_dups cf) m (irc_queue irc))\<rparr>)"
  by (simp add: queueMsg_def act_defs split: prod.split)

lemma snd_sendMsg:
  "snd (sendMsg m irc) = (if irc_zombie irc then irc else irc\<lparr>irc_fastqueue := irc_fastqueue irc @ [m]\<rparr>)"
  by (simp add: sendMsg_def act_defs smallqueue_enqueue_def)

lemma snd_driverCall:
  "snd (driverCall c irc) = irc\<lparr>irc_driver := map_option (\<lambda>calls. calls @ [c]) (irc_driver irc)\<rparr>"
  by (cases "irc_driver irc") (simp_all add: driverCall_def act_defs)

lemma snd_on_state: "snd (on_state m irc) = irc\<lparr>irc_state := snd (m (irc_state irc))\<rparr>"
  by (simp add: on_state_def split: prod.split)

lemmas connection_moves = snd_queueMsg snd_sendMsg snd_driverCall snd_on_state

lemma snd_firewall: "snd (firewall x m s) = snd (m s)"
  by (simp add: firewall_def split: prod.split sum.split)

lemma smallqueue_dequeue_Inr: "smallqueue_dequeue xs = Inr (m, q) \<longleftrightarrow> xs = m # q"
  by (auto simp: smallqueue_dequeue_def split: list.split)

lemma mset_dequeue: "mset (IrcMsgQueue_content (snd (IrcMsgQueue_dequeue limit now q))) \<subseteq># mset (IrcMsgQueue_content q)"
  by (cases "mq_high q"; cases "mq_normal q"; cases "mq_low q")
    (auto simp: IrcMsgQueue_content_def IrcMsgQueue_dequeue_def smallqueue_dequeue_def smallqueue_enqueue_def
      intro: mset_subset_eq_add_right)

lemma content_reset [simp]: "IrcMsgQueue_content (IrcMsgQueue_reset q) = []"
  by (simp add: IrcMsgQueue_content_def IrcMsgQueue_reset_def)

lemma wf_reset [simp, wf_intros]: "IrcMsgQueue_wf (IrcMsgQueue_reset q)"
  by (simp add: IrcMsgQueue_wf_def IrcMsgQueue_reset_def)

lemma IrcState_reset_wf:
  assumes "0 < n" "IrcState_wf s"
  shows "IrcState_wf (snd (IrcState_reset n s))"
  using assms
  by (auto simp: IrcState_reset_def act_defs RingBuffer_resize_def RingBuffer_reset_def IrcState_wf_def
      RingBuffer_wf_def pdict_wf_def pdict_all_def)

interpretation wf_life: connection_life irc_wf
proof unfold_locales
  show "irc_wf irc'" if "irc_wf irc" "irc_core irc' = irc_core irc" for irc irc'
    using that by (simp add: irc_wf_def irc_core_def)
  show "keepsA irc_wf (on_state (IrcState_reset n))" if "0 < n" for n
    using that by (simp add: keepsA_def snd_on_state irc_wf_def IrcState_reset_wf)
qed (auto simp: keepsA_def connection_moves irc_wf_def wf_enqueue wf_dequeue addMsg_keeps)

interpretation zombie_life: connection_life "zombie_within M" for M
proof unfold_locales
  show "zombie_within M irc'" if "zombie_within M irc" "irc_core irc' = irc_core irc" for irc irc'
    using that by (simp add: zombie_within_def irc_pending_def irc_core_def)
  show "zombie_within M (irc\<lparr>irc_fastqueue := q\<rparr>)"
    if "zombie_within M irc" "smallqueue_dequeue (irc_fastqueue irc) = Inr (m, q)" for irc m q
    using that by (auto simp: zombie_within_def irc_pending_def smallqueue_dequeue_Inr
        intro: subset_mset.order_trans [rotated])
  show "zombie_within M (irc\<lparr>irc_lastTake := t, irc_queue := snd (IrcMsgQueue_dequeue limit now (irc_queue irc))\<rparr>)"
    if "zombie_within M irc" for irc limit now t
    using that mset_dequeue [of limit now "irc_queue irc"]
    by (auto simp: zombie_within_def irc_pending_def intro: subset_mset.order_trans [rotated])
qed (auto simp: keepsA_def connection_moves zombie_within_def irc_pending_def)

text \<open>A configuration, a connection and a plugin that acts on it, for the witnesses.\<close>

definition sample_irc_conf :: irc_conf where
  "sample_irc_conf = \<lparr>ck_nick = ''bot'', ck_user = ''A bot'', ck_ident = ''b'', ck_alternates = [], ck_password = [],
     ck_throttleTime = 1, ck_ping = True, ck_pingInterval = 120, ck_umodes = ''i'', ck_follow = True, ck_strictRfc = True,
     ck_dups = False, ck_joinLimit = 0, ck_maxHistory = 3, ck_testing = False, ck_timeout = 600, ck_otherIrcs = 0\<rparr>"

definition no_users :: UsersDictionary where
  "no_users = UsersDictionary_new []"

definition sample_irc :: Irc where
  "sample_irc = projr (Irc_new sample_irc_conf [] 1000 ''net'' no_users [])"

definition echo_callback :: callback where
  "echo_callback = \<lparr>cb_name = ''Echo'', cb_callBefore = [], cb_callAfter = [],
     cb_inFilter = (\<lambda>m. retA (Some m)), cb_outFilter = (\<lambda>m. retA (Some m)),
     cb_call = (\<lambda>m. if im_command m = ''PRIVMSG'' then seqA (queueMsg sample_irc_conf m) (retA ()) else retA ()),
     cb_reset = retA (), cb_die = retA ()\<rparr>"

lemma echo_keeps:
  assumes "\<And>cf m. keepsA P (queueMsg cf m)"
  shows "callback_keeps P echo_callback"
  using assms by (auto simp: callback_keeps_def echo_callback_def intro!: wf_intros)

lemma Irc_new_wf:
  assumes "Irc_new cf cbs now network users rnd = Inr irc0"
    and cbs: "\<And>cb. cb \<in> set cbs \<Longrightarrow> callback_keeps irc_wf cb"
  shows "irc_wf irc0 \<and> 0 < ck_maxHistory cf"
proof -
  from assms(1) obtain st where st: "IrcState_new (ck_maxHistory cf) = Inr st"
    by (cases "IrcState_new (ck_maxHistory cf)") (simp_all add: Irc_new_def)
  let ?irc1 = "setNonResettingVariables cf now (Irc_blank network st users rnd)"
  have irc0: "snd (queueConnectMessages cf cbs ?irc1) = irc0"
    using assms(1) st by (auto simp: Irc_new_def split: prod.splits sum.splits)
  have "IrcState_wf st" "0 < ck_maxHistory cf"
    using IrcState_new_wf [OF st] by simp_all
  then have "irc_wf ?irc1" by (simp add: irc_wf_def setNonResettingVariables_def Irc_blank_def)
  moreover have "keepsA irc_wf (queueConnectMessages cf cbs)" by (rule wf_life.connected [OF cbs])
  ultimately show ?thesis using irc0 \<open>0 < ck_maxHistory cf\<close> by (auto simp: keepsA_def)
qed

text \<open>
  C10: Whatever the server sends, whenever the driver asks for a message, reconnects or the object is told to
  die, and whatever plugins do through the operations of the connection, the connection stays well formed: its
  state (channels, hostmasks, history) and its queue are, and every message is in the queue of its priority.
\<close>

theorem connection_stays_wellformed:
  assumes "Irc_new cf cbs now network users rnd = Inr irc0" and "irc_steps stamp cf cbs irc0 irc"
    and "\<And>cb. cb \<in> set cbs \<Longrightarrow> callback_keeps irc_wf cb"
  shows "irc_wf irc"
proof -
  have "irc_wf irc0" "0 < ck_maxHistory cf" using Irc_new_wf [OF assms(1)] assms(3) by simp_all
  from wf_life.steps_keep [OF assms(2) this(1) assms(3) _ this(2)] show ?thesis by (simp add: irc_wf_def)
qed

theorem connection_stays_wellformed_witness:
  "\<exists>irc0. Irc_new sample_irc_conf [echo_callback] 1000 ''net'' no_users [] = Inr irc0
     \<and> irc_wf (snd (feedMsg sample_irc_conf [echo_callback] 1001 (from_al ''PRIVMSG'' [''#c'', ''hi'']) irc0))"
proof -
  have "\<not> isl (Irc_new sample_irc_conf [echo_callback] 1000 ''net'' no_users [])" by code_simp
  then obtain irc0 where new: "Irc_new sample_irc_conf [echo_callback] 1000 ''net'' no_users [] = Inr irc0"
    by (rule ok_resE)
  have "callback_keeps irc_wf cb" if "cb \<in> set [echo_callback]" for cb
    using that echo_keeps [OF wf_life.queued] by simp
  from connection_stays_wellformed [OF new r_into_rtranclp this, OF step_feed [where stamp = str_of_int]] new
  show ?thesis by blast
qed

text \<open>
  C33: A connection that was told to die accepts nothing more: in every run from there on it stays a zombie and
  nothing is ever in its queues that was not there before.
\<close>

theorem zombie_accepts_nothing:
  assumes "irc_zombie irc" and "irc_steps stamp cf cbs irc irc'" and "0 < ck_maxHistory cf"
    and "\<And>cb M. cb \<in> set cbs \<Longrightarrow> callback_keeps (zombie_within M) cb"
  shows "irc_zombie irc' \<and> mset (irc_pending irc') \<subseteq># mset (irc_pending irc)"
proof -
  have "zombie_within (mset (irc_pending irc)) irc" using assms(1) by (simp add: zombie_within_def)
  from zombie_life.steps_keep [OF assms(2) this assms(4) _ assms(3)]
  have "zombie_within (mset (irc_pending irc)) irc'" by (simp add: zombie_within_def irc_pending_def)
  then show ?thesis by (simp add: zombie_within_def)
qed

theorem zombie_accepts_nothing_witness:
  "irc_zombie (snd (die sample_irc_conf [] sample_irc))
   \<and> irc_zombie (snd (sendMsg (from_al ''QUIT'' []) (snd (die sample_irc_conf [] sample_irc))))
   \<and> mset (irc_pending (snd (sendMsg (from_al ''QUIT'' []) (snd (die sample_irc_conf [] sample_irc)))))
     \<subseteq># mset (irc_pending (snd (die sample_irc_conf [] sample_irc)))"
proof -
  have z: "irc_zombie (snd (die sample_irc_conf [] sample_irc))" by code_simp
  have h: "0 < ck_maxHistory sample_irc_conf" by code_simp
  show ?thesis
    using zombie_accepts_nothing [OF z r_into_rtranclp h, where cbs = "[]", OF step_send [where stamp = str_of_int]] z
    by simp
qed

section \<open>Taking a message\<close>

lemma truncate_fits: "length (fst (IrcMsg_str (truncate_msg m))) \<le> 512"
  by (auto simp: truncate_msg_def IrcMsg_str_def CRLF_def split: prod.split option.split)

lemma truncate_line:
  "fst (IrcMsg_str (truncate_msg m)) =
     (if length (fst (IrcMsg_str m)) \<le> 512 then fst (IrcMsg_str m) else take 500 (fst (IrcMsg_str m)) @ CRLF)"
  by (auto simp: truncate_msg_def IrcMsg_str_def split: prod.split option.split)

lemma run_take_outgoing:
  "run_firewalled (take_outgoing cf m) s = (r, s') \<Longrightarrow> r = None \<or> r = Some (truncate_msg m)"
  by (auto simp: run_firewalled_def take_outgoing_def act_defs Let_def split: prod.splits sum.splits if_splits)

lemma run_take_nothing: "run_firewalled (take_nothing cf cbs) s = (r, s') \<Longrightarrow> r = None"
  by (auto simp: run_firewalled_def take_nothing_def act_defs split: prod.splits sum.splits if_splits)

text \<open>
  C35: Whatever the plugins make of it, a message handed to the driver fits the protocol: its line has at most
  512 characters.
\<close>

theorem takeMsg_fits:
  assumes "takeMsg stamp cf cbs readings irc = Some (Some m, irc')"
  shows "length (fst (IrcMsg_str m)) \<le> 512"
  using assms
proof (induction readings arbitrary: irc)
  case (Cons now readings)
  from Cons.prems show ?case
    using Cons.IH truncate_fits
    by (auto split: prod.splits sum.splits option.splits dest!: run_take_nothing run_take_outgoing)
qed simp

definition long_irc :: Irc where
  "long_irc = snd (sendMsg (from_al ''PRIVMSG'' [''#c'', replicate 520 CHR ''x'']) sample_irc)"

theorem takeMsg_fits_witness:
  "\<exists>m irc'. takeMsg str_of_int sample_irc_conf [echo_callback] [2000] long_irc = Some (Some m, irc')
     \<and> length (fst (IrcMsg_str m)) \<le> 512"
proof -
  have "case takeMsg str_of_int sample_irc_conf [echo_callback] [2000] long_irc of
      Some (Some m, _) \<Rightarrow> True | _ \<Rightarrow> False" by code_simp
  then obtain m irc' where m: "takeMsg str_of_int sample_irc_conf [echo_callback] [2000] long_irc = Some (Some m, irc')"
    by (auto split: option.splits prod.splits)
  with takeMsg_fits [OF m] show ?thesis by blast
qed

text \<open>A message is taken from the queues at each call that goes on.\<close>

lemma pick_msg_pending:
  assumes "pick_msg stamp cf cbs now irc = (Inr (Some m), s)"
  shows "length (irc_pending s) < length (irc_pending irc)"
proof (cases "irc_fastqueue irc")
  case (Cons x q)
  with assms show ?thesis
    by (auto simp: pick_msg_def act_defs smallqueue_dequeue_def irc_pending_def)
next
  case Nil
  have "length (IrcMsgQueue_content q') < length (IrcMsgQueue_content q)"
    if "IrcMsgQueue_dequeue limit now q = (Some m, q')" for limit q q'
    using that by (cases "mq_high q"; cases "mq_normal q"; cases "mq_low q")
      (auto simp: IrcMsgQueue_content_def IrcMsgQueue_dequeue_def smallqueue_dequeue_def split: if_splits)
  with Nil assms show ?thesis
    by (auto simp: pick_msg_def act_defs irc_pending_def split: if_splits prod.splits sum.splits)
qed

lemma out_filters_only:
  assumes "\<And>cb m. cb \<in> set cbs \<Longrightarrow> keepsA P (cb_outFilter cb m)"
  shows "keepsA P (out_filters cbs m)"
  using assms by (induction cbs arbitrary: m) (auto simp: outFilter_def intro!: wf_intros split: option.split)

text \<open>
  C34: \<open>takeMsg\<close> returns: it calls itself once for each message a filter drops, so when the filters queue
  nothing themselves one call more than there are messages waiting is enough.
\<close>

theorem takeMsg_returns:
  assumes "\<And>cb m n. cb \<in> set cbs \<Longrightarrow> keepsA (\<lambda>s. length (irc_pending s) \<le> n) (cb_outFilter cb m)"
    and "length (irc_pending irc) < length readings"
  shows "takeMsg stamp cf cbs readings irc \<noteq> None"
  using assms(2)
proof (induction readings arbitrary: irc)
  case (Cons now readings)
  obtain p s where p: "pick_msg stamp cf cbs now irc = (p, s)" by fastforce
  show ?case
  proof (cases "\<exists>m. p = Inr (Some m)")
    case False
    with p show ?thesis by (cases p; cases "projr p") auto
  next
    case True
    then obtain m where m: "p = Inr (Some m)" by blast
    obtain q s' where q: "out_filters (rev (live_callbacks cbs s)) m s = (q, s')" by fastforce
    have "keepsA (\<lambda>x. length (irc_pending x) \<le> length (irc_pending s)) (out_filters (rev (live_callbacks cbs s)) m)"
      using assms(1) by (intro out_filters_only) (auto simp: live_callbacks_def split: if_splits)
    from keepsAD [OF this order_refl q] have "length (irc_pending s') \<le> length (irc_pending s)" .
    with pick_msg_pending p m Cons.prems have "length (irc_pending s') < length readings" by fastforce
    from Cons.IH [OF this] p m q show ?thesis by (auto split: sum.split option.split)
  qed
qed simp

text \<open>A plugin that lets nothing out.\<close>

definition mute_callback :: callback where
  "mute_callback = echo_callback\<lparr>cb_outFilter := \<lambda>m. retA None\<rparr>"

theorem takeMsg_returns_witness:
  "takeMsg str_of_int sample_irc_conf [mute_callback] [2000, 2001, 2002] sample_irc \<noteq> None"
proof (rule takeMsg_returns)
  show "keepsA (\<lambda>s. length (irc_pending s) \<le> n) (cb_outFilter cb m)" if "cb \<in> set [mute_callback]" for cb m n
    using that by (auto simp: mute_callback_def intro!: wf_intros)
  show "length (irc_pending sample_irc) < length [2000, 2001, 2002]" by code_simp
qed

section \<open>A zombie with messages\<close>

lemma forA_swallow_keeps:
  assumes "\<And>x. x \<in> set xs \<Longrightarrow> keepsA P (f x)" and "P s"
  obtains s' where "forA (\<lambda>x. swallow (f x)) xs s = (Inr (), s')" "P s'"
proof -
  have "\<exists>s'. forA (\<lambda>x. swallow (f x)) xs s = (Inr (), s') \<and> P s'"
    using assms
  proof (induction xs arbitrary: s)
    case (Cons x xs)
    obtain s1 where s1: "swallow (f x) s = (Inr (), s1)"
      by (cases "f x s"; cases "fst (f x s)") (auto simp: firewall_def)
    have "keepsA P (swallow (f x))" using Cons.prems(1) by (simp add: keepsA_firewall)
    from keepsAD [OF this Cons.prems(2) s1] have "P s1" .
    with Cons.IH Cons.prems(1) show ?case by (simp add: forA_step [where f = "\<lambda>x. swallow (f x)", OF s1] del: forA.simps)
  qed (simp add: retA_def)
  with that show thesis by blast
qed

text \<open>
  A zombie dies with messages in its queue: when the queue is throttled (or a JOIN has to wait) \<open>takeMsg\<close>
  finds no message and ends the connection, though \<open>die\<close> promises that it will not die until its queues are
  clear; the messages are never sent.
\<close>

theorem zombie_drops_queue:
  assumes zombie: "irc_zombie irc" "irc_fastqueue irc = []" "irc_driver irc = Some calls" "irc_inWorld irc"
    and waiting: "IrcMsgQueue_nonzero (irc_queue irc)" "now - irc_lastTake irc \<le> ck_throttleTime cf"
    and cbs: "\<And>cb Q. cb \<in> set cbs \<Longrightarrow> keepsA (\<lambda>s. Q (irc_queue s) (irc_driver s) (irc_inWorld s)) (cb_die cb)"
  shows "\<exists>irc'. takeMsg stamp cf cbs (now # readings) irc = Some (None, irc')
    \<and> irc_driver irc' = Some (calls @ [DriverDie, DriverDie]) \<and> \<not> irc_inWorld irc'
    \<and> IrcMsgQueue_nonzero (irc_queue irc')"
proof -
  let ?dead = "\<lambda>s. irc_queue s = irc_queue irc \<and> irc_driver s = Some (calls @ [DriverDie, DriverDie]) \<and> \<not> irc_inWorld s"
  let ?irc = "irc\<lparr>irc_driver := Some (calls @ [DriverDie, DriverDie]), irc_inWorld := False\<rparr>"
  have pick: "pick_msg stamp cf cbs now irc = (Inr None, irc)"
    using assms by (simp add: pick_msg_def act_defs)
  have kept: "keepsA ?dead (cb_die cb)" if "cb \<in> set (live_callbacks cbs ?irc)" for cb
    using cbs [of cb "\<lambda>q d w. q = irc_queue irc \<and> d = Some (calls @ [DriverDie, DriverDie]) \<and> \<not> w"] that
    by (simp add: live_callbacks_def split: if_splits)
  have "?dead ?irc" by simp
  obtain s' where s': "forA (\<lambda>cb. swallow (cb_die cb)) (live_callbacks cbs ?irc) ?irc = (Inr (), s')" "?dead s'"
    by (rule forA_swallow_keeps [where P = ?dead and f = cb_die, OF kept \<open>?dead ?irc\<close>])
  have "\<exists>irc'. take_nothing cf cbs irc = (Inr None, irc') \<and> ?dead irc'"
    using zombie s' by (simp add: take_nothing_def driverCall_def reallyDie_def act_defs live_callbacks_def)
  with pick waiting(1) show ?thesis by (auto simp: run_firewalled_def)
qed

theorem zombie_drops_queue_witness:
  "\<exists>irc'. takeMsg str_of_int sample_irc_conf [echo_callback] [2000]
       (sample_irc\<lparr>irc_zombie := True, irc_driver := Some [], irc_lastTake := 2000\<rparr>) = Some (None, irc')
     \<and> irc_driver irc' = Some [DriverDie, DriverDie] \<and> \<not> irc_inWorld irc' \<and> IrcMsgQueue_nonzero (irc_queue irc')"
proof -
  let ?irc = "sample_irc\<lparr>irc_zombie := True, irc_driver := Some [], irc_lastTake := 2000\<rparr>"
  have a: "irc_zombie ?irc" "irc_driver ?irc = Some []" by simp_all
  have b: "irc_fastqueue ?irc = []" "irc_inWorld ?irc" "IrcMsgQueue_nonzero (irc_queue ?irc)"
    "2000 - irc_lastTake ?irc \<le> ck_throttleTime sample_irc_conf" by code_simp+
  have "keepsA (\<lambda>s. Q (irc_queue s) (irc_driver s) (irc_inWorld s)) (cb_die cb)"
    if "cb \<in> set [echo_callback]" for cb and Q :: "IrcMsgQueue \<Rightarrow> driver_call list option \<Rightarrow> bool \<Rightarrow> bool"
    using that by (simp add: echo_callback_def keepsA_ret)
  from zombie_drops_queue [OF a(1) b(1) a(2) b(2-4) this] show ?thesis by (simp only: append_Nil)
qed

section \<open>Pings\<close>

text \<open>A plugin that lets messages through as they are, and takes nothing from the front of the queue.\<close>

definition lets_through :: "callback \<Rightarrow> bool" where
  "lets_through cb \<longleftrightarrow>
     (\<forall>m s. cb_inFilter cb m s = (Inr (Some m), s) \<and> cb_outFilter cb m s = (Inr (Some m), s))
     \<and> (\<forall>m q. keepsA (\<lambda>s. \<exists>more. irc_fastqueue s = q # more) (cb_call cb m))"

lemma in_filters_through:
  "(\<And>cb. cb \<in> set cbs \<Longrightarrow> lets_through cb) \<Longrightarrow> in_filters cbs m s = (Inr (Some m), s)"
  by (induction cbs) (auto simp: lets_through_def inFilter_def firewall_def act_defs)

lemma out_filters_through:
  "(\<And>cb. cb \<in> set cbs \<Longrightarrow> lets_through cb) \<Longrightarrow> out_filters cbs m s = (Inr (Some m), s)"
  by (induction cbs) (auto simp: lets_through_def outFilter_def firewall_def act_defs)

lemma announce_keeps_front:
  assumes cbs: "\<And>cb. cb \<in> set cbs \<Longrightarrow> lets_through cb"
  shows "keepsA (\<lambda>s. \<exists>more. irc_fastqueue s = q # more) (announce cbs m)"
proof -
  let ?P = "\<lambda>s. \<exists>more. irc_fastqueue s = q # more"
  have "keepsA ?P (in_filters xs m)" if "set xs \<subseteq> set cbs" for xs m
  proof -
    have "lets_through cb" if "cb \<in> set xs" for cb using cbs that \<open>set xs \<subseteq> set cbs\<close> by blast
    then show ?thesis by (simp add: keepsA_def in_filters_through)
  qed
  moreover have "keepsA ?P (callback_call cb m)" if "cb \<in> set xs" "set xs \<subseteq> set cbs" for cb m xs
    using cbs [of cb] that by (auto simp: callback_call_def lets_through_def intro!: keepsA_firewall)
  moreover have "keepsA ?P (on_state f)" for f :: "(IrcState, unit) act"
    by (simp add: keepsA_def snd_on_state)
  ultimately show ?thesis unfolding announce_def
    by (auto split: option.split intro!: keepsA_seq keepsA_firewall keepsA_bind_live)
      (auto split: option.split intro!: keepsA_firewall keepsA_bind keepsA_get keepsA_ret keepsA_for keepsA_bind_live)
qed

lemma capitalize_PING: "py_capitalize ''PING'' = ''Ping''"
  by code_simp

text \<open>The message as \<open>receive\<close> tags it.\<close>

lemma receive_tagged:
  assumes "im_prefix msg \<noteq> irc_nick irc" "im_args msg = a # as" "Irc_isChannel (irc_state irc) a = Inr c"
  obtains m where "receive msg irc = (Inr m, irc)" "im_command m = im_command msg" "im_args m = im_args msg"
    "im_prefix m = im_prefix msg" "im_nick m = im_nick msg"
proof
  let ?m = "IrcMsg_tag ''receivedOn'' (TText (irc_network irc))
      (IrcMsg_tag ''receivedBy'' (TText (''Irc object for '' @ irc_network irc)) msg)"
  show "receive msg irc = (Inr ?m, irc)"
    using assms by (simp add: receive_def act_defs Let_def IrcMsg_tag_def)
qed (simp_all add: IrcMsg_tag_def)

lemma pong_line:
  assumes "pong_msg strict payload [] None = Inr p"
  shows "im_command p = ''PONG''" "fst (IrcMsg_str p) = ''PONG :'' @ payload @ CRLF"
proof -
  have kw: "IrcMsg_kw [] ''PONG'' [payload] None = Inr p"
    using assms by (simp add: pong_msg_def msg_prefix_def)
  note f = IrcMsg_kw_fields [OF kw]
  show "im_command p = ''PONG''" "fst (IrcMsg_str p) = ''PONG :'' @ payload @ CRLF"
    using f by (simp_all add: IrcMsg_str_def IrcMsg_render_def)
qed

lemma fed_ping_queues_pong:
  assumes msg: "im_command msg = ''PING''" "im_args msg = payload # rest" "im_prefix msg \<noteq> irc_nick irc"
      "Irc_isChannel (irc_state irc) payload = Inr c"
    and pong: "pong_msg (ck_strictRfc cf) payload [] None = Inr p"
    and irc: "\<not> irc_zombie irc" "irc_fastqueue irc = []"
    and cbs: "\<And>cb. cb \<in> set cbs \<Longrightarrow> lets_through cb"
  shows "\<exists>more. irc_fastqueue (snd (feedMsg cf cbs now msg irc)) = p # more"
proof -
  obtain m where m: "receive msg irc = (Inr m, irc)" "im_command m = ''PING''" "im_args m = payload # rest"
    using receive_tagged [OF msg(3,2,4)] msg(1,2) by metis
  obtain irc1 where learn: "learn_names m irc = (Inr (), irc1)"
    and irc1: "irc_zombie irc1 = irc_zombie irc" "irc_fastqueue irc1 = irc_fastqueue irc"
    using m(2) by (auto simp: learn_names_def nickSetters_def act_defs split: if_splits)
  have ping: "Irc_dispatch cf now m irc1 = (Inr (), irc1\<lparr>irc_fastqueue := [p]\<rparr>)"
    using m irc irc1 pong
    by (simp add: Irc_dispatch_def capitalize_PING Irc_doPing_def irc_arg_def send_new_def sendMsg_def
        smallqueue_enqueue_def act_defs)
  have body: "feedMsg_body cf cbs now msg irc = announce cbs m (irc1\<lparr>irc_fastqueue := [p]\<rparr>)"
    using m learn ping by (simp add: feedMsg_body_def act_defs)
  have "\<exists>more. irc_fastqueue (snd (announce cbs m (irc1\<lparr>irc_fastqueue := [p]\<rparr>))) = p # more"
    using announce_keeps_front [OF cbs, where q = p and m = m] by (simp add: keepsA_def)
  then show ?thesis
    by (simp add: feedMsg_def snd_firewall body)
qed


definition server_ping :: IrcMsg where
  "server_ping = projr (IrcMsg_kw ''irc.net'' ''PING'' [''t0k''] None)"

lemma echo_lets_through: "lets_through echo_callback"
  by (auto simp: lets_through_def echo_callback_def keepsA_def act_defs queueMsg_def split: prod.split)


text \<open>The driver's calls so far stay, and more may come.\<close>

definition driver_since :: "driver_call list \<Rightarrow> Irc \<Rightarrow> bool" where
  "driver_since calls irc \<longleftrightarrow> (\<exists>more. irc_driver irc = Some (calls @ more))"

interpretation driver_output: connection_output "driver_since calls" for calls
proof unfold_locales
  show "driver_since calls irc'" if "driver_since calls irc" "irc_core irc' = irc_core irc" for irc irc'
    using that by (simp add: driver_since_def irc_core_def)
qed (auto simp: keepsA_def connection_moves driver_since_def)

lemma ping_error_message:
  assumes "isValidArgument t"
  shows "\<exists>m. error_msg (''Ping sent at '' @ t @ '' not replied to.'') None = Inr m"
proof -
  have "isValidArgument (''Ping sent at '' @ t @ '' not replied to.'')"
    using assms by (simp add: isValidArgument_def)
  then show ?thesis
    by (auto simp: error_msg_def IrcMsg_kw_def IrcMsg_new_def IrcMsg_finish_def isUserHostmask_def)
qed

text \<open>
  C37: A dead connection is noticed: when the last ping was not answered within the interval and nothing waits
  to be sent, the next call of \<open>takeMsg\<close> sends nothing and tells the driver to reconnect, whatever the plugins do
  with the error message they are told first.
\<close>

theorem unanswered_ping_reconnects:
  assumes due: "irc_outstandingPing irc" "irc_afterConnect irc" "ck_ping cf" "irc_lastping irc + ck_pingInterval cf < now"
    and idle: "irc_fastqueue irc = []" "\<not> IrcMsgQueue_nonzero (irc_queue irc)" "irc_driver irc = Some calls"
    and stamp: "isValidArgument (stamp (irc_lastping irc))"
    and cbs: "\<And>cb d. cb \<in> set cbs \<Longrightarrow> callback_keeps (driver_since d) cb"
  shows "\<exists>irc' before after. takeMsg stamp cf cbs (now # readings) irc = Some (None, irc')
    \<and> irc_driver irc' = Some (calls @ before @ DriverReconnect False # after)"
proof -
  obtain m where m: "error_msg (''Ping sent at '' @ stamp (irc_lastping irc) @ '' not replied to.'') None = Inr m"
    using ping_error_message [OF stamp] by blast
  obtain irc1 where fed: "feedMsg cf cbs now m irc = (Inr (), irc1)"
    by (cases "feedMsg_body cf cbs now m irc"; cases "fst (feedMsg_body cf cbs now m irc)")
      (auto simp: feedMsg_def firewall_def)
  have "driver_since calls irc" using idle by (simp add: driver_since_def)
  with driver_output.fed [OF cbs] have "driver_since calls irc1" using fed by (rule keepsAD)
  then obtain before where before: "irc_driver irc1 = Some (calls @ before)" by (auto simp: driver_since_def)
  let ?d = "calls @ before @ [DriverReconnect False]"
  let ?irc2 = "irc1\<lparr>irc_driver := Some ?d\<rparr>"
  have pick: "pick_msg stamp cf cbs now irc = (Inr None, ?irc2)"
    using due idle m fed before by (simp add: pick_msg_def check_ping_def driverCall_def act_defs)
  have "keepsA (driver_since ?d) (take_nothing cf cbs)"
    unfolding take_nothing_def by (intro wf_intros driver_output.driven driver_output.dead cbs)
  then have "driver_since ?d (snd (run_firewalled (take_nothing cf cbs) ?irc2))"
    by (rule driver_output.firewalled_run) (simp add: driver_since_def)
  moreover obtain irc' where "run_firewalled (take_nothing cf cbs) ?irc2 = (None, irc')"
    using run_take_nothing by (cases "run_firewalled (take_nothing cf cbs) ?irc2") blast
  ultimately show ?thesis using pick by (auto simp: driver_since_def)
qed

theorem unanswered_ping_reconnects_witness:
  "\<exists>irc' before after. takeMsg str_of_int sample_irc_conf [echo_callback] [2000]
       (sample_irc\<lparr>irc_outstandingPing := True, irc_afterConnect := True, irc_driver := Some [], irc_queue := IrcMsgQueue_empty\<rparr>)
       = Some (None, irc')
     \<and> irc_driver irc' = Some ([] @ before @ DriverReconnect False # after)"
proof -
  let ?irc = "sample_irc\<lparr>irc_outstandingPing := True, irc_afterConnect := True, irc_driver := Some [], irc_queue := IrcMsgQueue_empty\<rparr>"
  have a: "irc_outstandingPing ?irc" "irc_afterConnect ?irc" "irc_driver ?irc = Some []" by simp_all
  have b: "ck_ping sample_irc_conf" "irc_lastping ?irc + ck_pingInterval sample_irc_conf < 2000"
    "irc_fastqueue ?irc = []" "\<not> IrcMsgQueue_nonzero (irc_queue ?irc)" "isValidArgument (str_of_int (irc_lastping ?irc))"
    by code_simp+
  have "callback_keeps (driver_since d) cb" if "cb \<in> set [echo_callback]" for cb d
    using that echo_keeps [OF driver_output.queued] by simp
  from unanswered_ping_reconnects [where stamp = str_of_int and readings = "[]", OF a(1,2) b(1-4) a(3) b(5) this]
  show ?thesis by blast
qed

section \<open>The next nick\<close>

lemma random_nick_differs:
  "random_nick nick ret L rnd = Inr (r, rest) \<Longrightarrow> \<not> strEqual r nick"
  by (induction nick ret L rnd rule: random_nick.induct) (auto simp: Let_def split: if_splits)

lemma random_nick_error: "random_nick nick ret L rnd = Inl e \<Longrightarrow> e = RuntimeError"
  by (induction nick ret L rnd rule: random_nick.induct) (auto simp: Let_def split: if_splits)

lemma random_nick_length:
  "random_nick nick ret L rnd = Inr (r, rest) \<Longrightarrow> r = ret \<or> length r = length L"
  by (induction nick ret L rnd rule: random_nick.induct) (auto simp: Let_def split: if_splits)

lemma digit_folded:
  assumes "i < 10"
  shows "rfc1459_char (char_of (48 + i :: nat)) = char_of (48 + i)"
proof -
  have "\<forall>i \<in> set [0..<10]. rfc1459_char (char_of (48 + i :: nat)) = char_of (48 + i)" by code_simp
  with assms show ?thesis by simp
qed

lemma digits_distinct:
  assumes "i < 10" "j < 10" "i \<noteq> j"
  shows "rfc1459_char (char_of (48 + i :: nat)) \<noteq> rfc1459_char (char_of (48 + j))"
  using assms by (simp add: digit_folded char_of_eq_iff take_bit_eq_mod)

text \<open>Two draws of different digits for the same position: one of them makes another nick.\<close>

lemma random_nick_returns:
  assumes "L \<noteq> []" "k mod 10 \<noteq> k' mod 10"
  shows "\<exists>r rest. random_nick nick ret L ((p, k) # (p, k') # rnd) = Inr (r, rest)"
proof -
  let ?i = "p mod length L"
  let ?L1 = "L[?i := char_of (48 + k mod 10 :: nat)]" and ?L2 = "L[?i := char_of (48 + k' mod 10 :: nat)]"
  have i: "?i < length L" using assms(1) by simp
  have "\<not> (strEqual ?L1 nick \<and> strEqual ?L2 nick)"
  proof
    assume both: "strEqual ?L1 nick \<and> strEqual ?L2 nick"
    then have "map rfc1459_char ?L1 ! ?i = map rfc1459_char ?L2 ! ?i" by (simp add: strEqual_def toLower_def)
    with i digits_distinct [of "k mod 10" "k' mod 10"] assms(2) show False by simp
  qed
  moreover have "random_nick nick r L rnd = Inr (r, rnd)" if "\<not> strEqual r nick" for r L rnd
    using that by (cases rnd) auto
  ultimately show ?thesis by (auto simp: Let_def)
qed

text \<open>
  When the nick is taken and no alternate is left, another one is found: whatever the random choices were,
  the nick differs from the configured one for the server too, and it has at least four characters; and the loop
  ends as soon as two draws in a row give different digits for one position.
\<close>

theorem next_nick_is_new:
  assumes "irc_alternateNicks irc = []"
  shows "case getNextNick cf irc of
      (Inr nick, irc') \<Rightarrow> \<not> strEqual nick (ck_nick cf) \<and> length nick = max 4 (length (ck_nick cf))
    | (Inl e, irc') \<Rightarrow> e = RuntimeError \<and> (\<nexists>p k k' rnd. irc_random irc = (p, k) # (p, k') # rnd \<and> k mod 10 \<noteq> k' mod 10)"
proof -
  let ?nick = "ck_nick cf" and ?L = "ck_nick cf @ replicate (4 - length (ck_nick cf)) CHR 0x60"
  have step: "getNextNick cf irc = (case random_nick ?nick ?nick ?L (irc_random irc) of
      Inl e \<Rightarrow> (Inl e, irc) | Inr (ret, rnd) \<Rightarrow> (Inr ret, irc\<lparr>irc_random := rnd\<rparr>))"
    using assms by (simp add: getNextNick_def act_defs Let_def split: sum.split prod.split)
  show ?thesis
  proof (cases "random_nick ?nick ?nick ?L (irc_random irc)")
    case (Inl e)
    have "e = RuntimeError" using Inl
      by (rule random_nick_error)
    moreover have "\<nexists>p k k' rnd. irc_random irc = (p, k) # (p, k') # rnd \<and> k mod 10 \<noteq> k' mod 10"
      using Inl random_nick_returns [of ?L] by (auto simp del: random_nick.simps) (metis Inl_Inr_False)+
    ultimately show ?thesis using Inl by (simp add: step)
  next
    case (Inr r)
    obtain ret rnd where r: "r = (ret, rnd)" by (cases r)
    have new: "\<not> strEqual ret ?nick" using random_nick_differs Inr r by simp
    then have "ret \<noteq> ?nick" by (auto simp: strEqual_def)
    with random_nick_length Inr r have "length ret = length ?L" by blast
    with new show ?thesis using Inr r by (simp add: step)
  qed
qed

theorem next_nick_is_new_witness:
  "case getNextNick sample_irc_conf (sample_irc\<lparr>irc_random := [(2, 3)]\<rparr>) of
      (Inr nick, irc') \<Rightarrow> nick = ''bo3`'' \<and> \<not> strEqual nick ''bot'' \<and> length nick = max 4 (length ''bot'')
    | (Inl e, irc') \<Rightarrow> False"
proof -
  let ?irc = "sample_irc\<lparr>irc_random := [(2, 3)]\<rparr>"
  have a: "irc_alternateNicks ?irc = []" by code_simp
  have "case getNextNick sample_irc_conf ?irc of (Inr nick, _) \<Rightarrow> nick = ''bo3`'' | _ \<Rightarrow> False" by code_simp
  moreover have "ck_nick sample_irc_conf = ''bot''" by (simp add: sample_irc_conf_def)
  ultimately show ?thesis using next_nick_is_new [OF a, of sample_irc_conf] by (auto split: prod.splits sum.splits)
qed

end
