(* ===== verification/CallbackOrder.thy ===== *)
theory CallbackOrder
  imports IrcPromises
begin

text \<open>
  The order \<open>addCallback\<close> puts the callbacks in: the loop is a topological sort, complete exactly when the
  wishes of the callbacks have no cycle.
\<close>

definition precedes :: "'a \<Rightarrow> 'a \<Rightarrow> 'a list \<Rightarrow> bool" where
  "precedes a b xs \<longleftrightarrow> (\<exists>us vs. xs = us @ vs \<and> a \<in> set us \<and> b \<in> set vs)"

lemma precedes_append: "precedes a b xs \<Longrightarrow> precedes a b (xs @ ys)"
  unfolding precedes_def by (metis append.assoc in_set_conv_decomp set_append UnCI)

lemma precedes_across: "a \<in> set xs \<Longrightarrow> b \<in> set ys \<Longrightarrow> precedes a b (xs @ ys)"
  unfolding precedes_def by blast

text \<open>What holds of the list built so far; the edges left are those that leave a vertex not yet placed.\<close>

definition sorted_so_far :: "'a list \<Rightarrow> ('a \<times> 'a) list \<Rightarrow> 'a list \<Rightarrow> bool" where
  "sorted_so_far vs edges0 cbs \<longleftrightarrow> distinct cbs \<and> set cbs \<subseteq> set vs
     \<and> (\<forall>(a, b) \<in> set edges0. b \<in> set cbs \<longrightarrow> precedes a b cbs)"

definition remaining :: "('a \<times> 'a) list \<Rightarrow> 'a list \<Rightarrow> ('a \<times> 'a) list" where
  "remaining edges0 cbs = filter (\<lambda>e. fst e \<notin> set cbs) edges0"

lemma sorted_so_far_step:
  assumes sorted: "sorted_so_far vs edges0 cbs" and vs: "distinct vs"
    and firsts: "firsts = getFirsts vs (remaining edges0 cbs) cbs"
  shows "sorted_so_far vs edges0 (cbs @ firsts)"
    and "filter (\<lambda>e. fst e \<notin> set firsts) (remaining edges0 cbs) = remaining edges0 (cbs @ firsts)"
proof -
  have f: "distinct firsts" "set firsts \<subseteq> set vs" "set cbs \<inter> set firsts = {}"
    using vs by (auto simp: firsts getFirsts_def)
  have "precedes a b (cbs @ firsts)" if e: "(a, b) \<in> set edges0" and b: "b \<in> set (cbs @ firsts)" for a b
  proof (cases "b \<in> set cbs")
    case True
    with sorted e show ?thesis by (auto simp: sorted_so_far_def intro: precedes_append)
  next
    case False
    with b have "b \<in> set firsts" by simp
    moreover have "a \<in> set cbs"
    proof (rule ccontr)
      assume "a \<notin> set cbs"
      with e have "(a, b) \<in> set (remaining edges0 cbs)" by (simp add: remaining_def)
      then have "b \<in> snd ` set (remaining edges0 cbs)" by force
      with \<open>b \<in> set firsts\<close> show False by (simp add: firsts getFirsts_def)
    qed
    ultimately show ?thesis by (intro precedes_across)
  qed
  with f sorted show "sorted_so_far vs edges0 (cbs @ firsts)" by (auto simp: sorted_so_far_def)
  show "filter (\<lambda>e. fst e \<notin> set firsts) (remaining edges0 cbs) = remaining edges0 (cbs @ firsts)"
    by (auto simp: remaining_def intro: filter_cong)
qed

lemma tsort_sorted:
  assumes "distinct vs" "sorted_so_far vs edges0 cbs" "edges = remaining edges0 cbs"
  shows "sorted_so_far vs edges0 (tsort vs edges cbs)
    \<and> getFirsts vs (remaining edges0 (tsort vs edges cbs)) (tsort vs edges cbs) = []"
  using assms
proof (induction vs edges cbs rule: tsort.induct)
  case (1 vs edges cbs)
  let ?firsts = "getFirsts vs edges cbs"
  show ?case
  proof (cases "?firsts = []")
    case True
    then have "tsort vs edges cbs = cbs" by (simp add: tsort.simps [of vs edges cbs])
    with "1.prems" True show ?thesis by simp
  next
    case False
    note step = sorted_so_far_step [OF "1.prems"(2,1), of ?firsts]
    have "tsort vs edges cbs = tsort vs (filter (\<lambda>e. fst e \<notin> set ?firsts) edges) (cbs @ ?firsts)"
      using False by (subst tsort.simps) (simp add: Let_def)
    moreover have "?firsts = getFirsts vs (remaining edges0 cbs) cbs" using "1.prems"(3) by simp
    ultimately show ?thesis
      using "1.IH" [OF refl False "1.prems"(1) step(1)] step(2) "1.prems"(3) by simp
  qed
qed

text \<open>A vertex is left out only in a cycle: every vertex left has a predecessor that is left.\<close>

lemma tsort_left_over:
  assumes "distinct vs" and edges: "fst ` set edges \<subseteq> set vs"
    and b: "b \<in> set vs" "b \<notin> set (tsort vs edges [])"
  shows "\<exists>a \<in> set vs - set (tsort vs edges []). (a, b) \<in> set edges"
proof -
  let ?cbs = "tsort vs edges []"
  have "getFirsts vs (remaining edges ?cbs) ?cbs = []"
    using tsort_sorted [of vs edges "[]" edges] assms(1) by (simp add: sorted_so_far_def remaining_def)
  with b have "b \<in> snd ` set (remaining edges ?cbs)" by (auto simp: getFirsts_def filter_empty_conv)
  with edges show ?thesis by (fastforce simp: remaining_def)
qed

section \<open>Registering a callback\<close>

lemma getCallback_None: "Option.is_none (getCallback nm cbs) \<longleftrightarrow> py_lower nm \<notin> cb_key ` set cbs"
  by (auto simp: getCallback_def find_None_iff cb_key_def Option.is_none_def image_iff)

lemma registered_keys: "set (registered names cbs) \<subseteq> cb_key ` set cbs"
proof -
  have "cb \<in> set cbs" if "getCallback nm cbs = Some cb" for nm cb
    using that by (auto simp: getCallback_def find_Some_iff)
  then show ?thesis by (auto simp: registered_def List.map_filter_def)
qed

lemma precedence_edges_keys:
  "(a, b) \<in> set (precedence_edges cbs) \<Longrightarrow> a \<in> cb_key ` set cbs \<and> b \<in> cb_key ` set cbs"
  using registered_keys
  by (fastforce simp: precedence_edges_def callPrecedence_def Let_def split: if_splits)

text \<open>
  Who wants to be called before whom: by the name in \<open>callBefore\<close> of the first or in \<open>callAfter\<close> of the second,
  case aside, when both are registered; the wishes of a callback that names itself are not heard.
\<close>

definition names_itself :: "callback \<Rightarrow> bool" where
  "names_itself c \<longleftrightarrow> cb_key c \<in> py_lower ` (set (cb_callBefore c) \<union> set (cb_callAfter c))"

definition wants_before :: "callback list \<Rightarrow> string \<Rightarrow> string \<Rightarrow> bool" where
  "wants_before cbs a b \<longleftrightarrow> a \<in> cb_key ` set cbs \<and> b \<in> cb_key ` set cbs \<and>
     (\<exists>c \<in> set cbs. \<not> names_itself c \<and>
        (cb_key c = a \<and> b \<in> py_lower ` set (cb_callBefore c) \<or> cb_key c = b \<and> a \<in> py_lower ` set (cb_callAfter c)))"

lemma getCallback_key: "getCallback nm cbs = Some c \<Longrightarrow> c \<in> set cbs \<and> cb_key c = py_lower nm"
  by (auto simp: getCallback_def find_Some_iff cb_key_def)

lemma set_map_filter: "y \<in> set (List.map_filter f xs) \<longleftrightarrow> (\<exists>x \<in> set xs. f x = Some y)"
  by (induction xs) (auto simp: map_filter_simps split: option.split)

lemma set_registered: "set (registered names cbs) = py_lower ` set names \<inter> cb_key ` set cbs"
proof (rule set_eqI)
  fix k
  have found: "(\<exists>c. getCallback nm cbs = Some c \<and> k = cb_key c) \<longleftrightarrow> k = py_lower nm \<and> k \<in> cb_key ` set cbs" for nm
    using getCallback_None [of nm cbs] by (cases "getCallback nm cbs") (auto dest: getCallback_key)
  have "k \<in> set (registered names cbs) \<longleftrightarrow> (\<exists>nm \<in> set names. \<exists>c. getCallback nm cbs = Some c \<and> k = cb_key c)"
  proof -
    have "k \<in> set (registered names cbs) \<longleftrightarrow> (\<exists>c. c \<in> set (List.map_filter (\<lambda>nm. getCallback nm cbs) names) \<and> k = cb_key c)"
      by (simp add: registered_def image_iff Bex_def)
    then show ?thesis unfolding set_map_filter by blast
  qed
  also have "\<dots> \<longleftrightarrow> k \<in> py_lower ` set names \<inter> cb_key ` set cbs"
    unfolding found by (simp add: image_iff)
  finally show "k \<in> set (registered names cbs) \<longleftrightarrow> k \<in> py_lower ` set names \<inter> cb_key ` set cbs" .
qed

lemma edge_wish:
  assumes "\<And>c. c \<in> C \<Longrightarrow> f c \<in> K"
  shows "(\<exists>c \<in> C. \<not> n c \<and> (b = f c \<and> a \<in> A c \<inter> K \<or> a = f c \<and> b \<in> B c \<inter> K))
    \<longleftrightarrow> a \<in> K \<and> b \<in> K \<and> (\<exists>c \<in> C. \<not> n c \<and> (f c = a \<and> b \<in> B c \<or> f c = b \<and> a \<in> A c))"
  using assms by blast

lemma set_precedence_edges: "(a, b) \<in> set (precedence_edges cbs) \<longleftrightarrow> wants_before cbs a b"
proof -
  have "cb_key c \<in> set (registered (cb_callBefore c) cbs) \<or> cb_key c \<in> set (registered (cb_callAfter c) cbs)
      \<longleftrightarrow> names_itself c" if "c \<in> set cbs" for c
    using that by (auto simp: set_registered names_itself_def)
  then have edge: "(a, b) \<in> set (case callPrecedence cbs c of (before, after) \<Rightarrow>
        map (\<lambda>other. (other, cb_key c)) before @ map (\<lambda>other. (cb_key c, other)) after)
      \<longleftrightarrow> \<not> names_itself c \<and> (b = cb_key c \<and> a \<in> set (registered (cb_callAfter c) cbs)
        \<or> a = cb_key c \<and> b \<in> set (registered (cb_callBefore c) cbs))" if "c \<in> set cbs" for c
    using that by (cases "names_itself c") (simp add: callPrecedence_def Let_def, force simp: callPrecedence_def Let_def)
  have "(a, b) \<in> set (precedence_edges cbs) \<longleftrightarrow> (\<exists>c \<in> set cbs. \<not> names_itself c \<and>
      (b = cb_key c \<and> a \<in> set (registered (cb_callAfter c) cbs) \<or> a = cb_key c \<and> b \<in> set (registered (cb_callBefore c) cbs)))"
    using edge by (simp add: precedence_edges_def cong: bex_cong)
  also have "\<dots> \<longleftrightarrow> wants_before cbs a b"
    unfolding set_registered wants_before_def by (rule edge_wish) simp
  finally show ?thesis .
qed

lemma find_key:
  assumes "distinct (map cb_key cbs)" "cb \<in> set cbs"
  shows "find (\<lambda>c. cb_key c = cb_key cb) cbs = Some cb"
  using assms by (induction cbs) (auto simp: rev_image_eqI)

lemma reorder_callbacks:
  assumes "distinct (map cb_key cbs)" "distinct order" "set order = cb_key ` set cbs"
  defines "cbs' \<equiv> List.map_filter (\<lambda>k. find (\<lambda>c. cb_key c = k) cbs) order"
  shows "map cb_key cbs' = order" "mset cbs' = mset cbs"
proof -
  have "map cb_key (List.map_filter (\<lambda>k. find (\<lambda>c. cb_key c = k) cbs) ks) = ks"
    "set (List.map_filter (\<lambda>k. find (\<lambda>c. cb_key c = k) cbs) ks) \<subseteq> set cbs" if "set ks \<subseteq> cb_key ` set cbs" for ks
    using that by (induction ks) (auto simp: map_filter_simps find_key [OF assms(1)])
  from this [of order] assms(3) have keys: "map cb_key cbs' = order" and sub: "set cbs' \<subseteq> set cbs"
    by (simp_all add: cbs'_def)
  have "distinct cbs" "distinct cbs'" using assms(1,2) keys by (auto simp: distinct_map)
  moreover have "set cbs' = set cbs"
  proof
    show "set cbs \<subseteq> set cbs'"
    proof
      fix cb assume cb: "cb \<in> set cbs"
      then have "cb_key cb \<in> cb_key ` set cbs'" using keys assms(3) by (metis image_eqI image_set)
      with sub cb assms(1) show "cb \<in> set cbs'" by (auto simp: distinct_map inj_on_def)
    qed
  qed (rule sub)
  ultimately show "mset cbs' = mset cbs" by (simp add: set_eq_iff_mset_eq_distinct)
  show "map cb_key cbs' = order" by (rule keys)
qed

text \<open>
  C36: A callback that is registered is placed so that everybody's wishes hold: the callbacks are those before and
  the new one, their names stay unique, and each is called before and after the callbacks it asks for.  When
  registering fails, the name was taken and nothing changed, or the wishes of some callbacks are circular; then
  the new callback stays in the list all the same, at the end.
\<close>

theorem addCallback_sorts:
  assumes unique: "distinct (map cb_key cbs)"
  shows "case addCallback cb cbs of
      (Inr _, cbs') \<Rightarrow> mset cbs' = mset (cbs @ [cb]) \<and> distinct (map cb_key cbs')
        \<and> (\<forall>a b. wants_before cbs' a b \<longrightarrow> precedes a b (map cb_key cbs'))
    | (Inl e, cbs') \<Rightarrow> e = AssertionError \<and>
        (cbs' = cbs \<and> cb_key cb \<in> cb_key ` set cbs
         \<or> cbs' = cbs @ [cb] \<and> (\<exists>S. S \<noteq> {} \<and> S \<subseteq> cb_key ` set cbs' \<and>
             (\<forall>b \<in> S. \<exists>a \<in> S. wants_before cbs' a b)))"
proof (cases "cb_key cb \<in> cb_key ` set cbs")
  case True
  then have "addCallback cb cbs = (Inl AssertionError, cbs)"
    using getCallback_None [of "cb_name cb" cbs] by (simp add: addCallback_def act_defs cb_key_def [of cb])
  with True show ?thesis by simp
next
  case False
  let ?cbs = "cbs @ [cb]" and ?E = "precedence_edges (cbs @ [cb])"
  let ?vs = "map cb_key ?cbs"
  let ?order = "tsort ?vs ?E []"
  let ?new = "List.map_filter (\<lambda>k. find (\<lambda>c. cb_key c = k) ?cbs) ?order"
  have vs: "distinct ?vs" using unique False by simp
  have sorted: "sorted_so_far ?vs ?E ?order"
    using tsort_sorted [OF vs, of ?E "[]" ?E] by (simp add: sorted_so_far_def remaining_def)
  have run: "addCallback cb cbs = (if length ?order = length ?cbs then (Inr (), ?new) else (Inl AssertionError, ?cbs))"
    using False getCallback_None [of "cb_name cb" cbs] by (simp add: addCallback_def act_defs cb_key_def [of cb])
  show ?thesis
  proof (cases "length ?order = length ?cbs")
    case True
    have d: "distinct ?order" "set ?order \<subseteq> set ?vs" using sorted by (simp_all only: sorted_so_far_def)
    have "card (set ?order) = card (set ?vs)"
      using True d(1) vs by (simp only: distinct_card length_map)
    with d(2) have all: "set ?order = set ?vs" by (simp only: card_subset_eq List.finite_set)
    then have "set ?order = cb_key ` set ?cbs" by (simp only: set_map)
    note new = reorder_callbacks [OF vs d(1) this]
    have "precedes a b ?order" if "(a, b) \<in> set ?E" for a b
    proof -
      have "b \<in> set ?order" using precedence_edges_keys [OF that] all by (simp only: set_map)
      with sorted that show ?thesis by (auto simp only: sorted_so_far_def)
    qed
    then have "precedes a b (map cb_key ?new)" if "wants_before ?cbs a b" for a b
      unfolding new(1) using that by (simp only: set_precedence_edges)
    moreover have "distinct (map cb_key ?new)" unfolding new(1) by (rule d(1))
    moreover have "wants_before ?new = wants_before ?cbs"
      unfolding wants_before_def mset_eq_setD [OF new(2)] by (rule refl)
    moreover have "addCallback cb cbs = (Inr (), ?new)" using run unfolding True by (simp only: refl if_True)
    ultimately obtain cbs' where "addCallback cb cbs = (Inr (), cbs')" "mset cbs' = mset ?cbs" "distinct (map cb_key cbs')"
        "\<forall>a b. wants_before cbs' a b \<longrightarrow> precedes a b (map cb_key cbs')"
      using new(2) by metis
    then show ?thesis by simp
  next
    case False
    define S where "S = set ?vs - set ?order"
    have "S \<noteq> {}"
    proof
      assume "S = {}"
      then have "set ?order = set ?vs" using sorted by (auto simp only: sorted_so_far_def S_def)
      then have "length ?order = length ?vs"
        using sorted vs by (simp only: sorted_so_far_def distinct_card [symmetric])
      with False show False by (simp only: length_map)
    qed
    moreover have "fst ` set ?E \<subseteq> set ?vs" using precedence_edges_keys [of _ _ ?cbs] by fastforce
    then have "\<exists>a \<in> S. wants_before ?cbs a b" if "b \<in> S" for b
      using tsort_left_over [OF vs, of ?E b] that by (simp only: S_def Diff_iff simp_thms set_precedence_edges)
    moreover have "S \<subseteq> cb_key ` set ?cbs" by (auto simp: S_def)
    moreover have "addCallback cb cbs = (Inl AssertionError, ?cbs)" using run False by (simp only: if_False)
    ultimately show ?thesis by (simp only: prod.case sum.case) blast
  qed
qed

definition early_callback :: callback where
  "early_callback = echo_callback\<lparr>cb_name := ''A'', cb_callBefore := [''b'']\<rparr>"

definition late_callback :: callback where
  "late_callback = echo_callback\<lparr>cb_name := ''B''\<rparr>"

theorem addCallback_sorts_witness:
  "case addCallback early_callback [late_callback] of
      (Inr _, cbs') \<Rightarrow> map cb_key cbs' = [''a'', ''b''] \<and> mset cbs' = mset [late_callback, early_callback]
    | (Inl e, cbs') \<Rightarrow> False"
proof -
  have d: "distinct (map cb_key [late_callback])" by simp
  have "case addCallback early_callback [late_callback] of
      (Inr _, cbs') \<Rightarrow> map cb_key cbs' = [''a'', ''b''] | (Inl e, cbs') \<Rightarrow> False" by code_simp
  then obtain x cbs' where run: "addCallback early_callback [late_callback] = (Inr x, cbs')"
      and keys: "map cb_key cbs' = [''a'', ''b'']"
    by (cases "addCallback early_callback [late_callback]"; cases "fst (addCallback early_callback [late_callback])") simp_all
  have "mset cbs' = mset ([late_callback] @ [early_callback])"
    using addCallback_sorts [OF d, of early_callback] by (simp only: run prod.case sum.case)
  with run keys show ?thesis by simp
qed

end
