(* ===== verification/Cdb.thy ===== *)
theory Cdb
  imports PyString
begin

text \<open>
  \<open>cdb.py\<close>: the constant database on disk (a hash table with 256 buckets and linear probing), its reader, and
  the writable database on top of it that keeps a journal of its changes.

  A file is a byte string.  A file that is written is a pair of its content and its position.  Positions and
  lengths are Python integers; \<open>struct\<close> packs and unpacks them as little-endian unsigned words of 32 bits and
  raises (\<open>StructError\<close>) for any other.
\<close>

unbundle bit_operations_syntax

section \<open>Hash and packing\<close>

definition cdb_hash :: "string \<Rightarrow> int" where
  "cdb_hash s = foldl (\<lambda>h c. ((h + push_bit 5 h) XOR int (ord c)) AND 0xFFFFFFFF) 5381 s"

definition pack_L :: "int \<Rightarrow> string res" where
  "pack_L i =
     (if 0 \<le> i \<and> i < 2 ^ 32
      then Inr [char_of (i mod 256), char_of (i div 2 ^ 8 mod 256), char_of (i div 2 ^ 16 mod 256), char_of (i div 2 ^ 24 mod 256)]
      else Inl StructError)"

fun unpack_L :: "string \<Rightarrow> int res" where
  "unpack_L [a, b, c, d] = Inr (of_char a + 2 ^ 8 * of_char b + 2 ^ 16 * of_char c + 2 ^ 24 * of_char d)"
| "unpack_L s = Inl StructError"

definition pack2Ints :: "int \<Rightarrow> int \<Rightarrow> string res" where
  "pack2Ints i j = bindR (pack_L i) (\<lambda>a. bindR (pack_L j) (\<lambda>b. Inr (a @ b)))"

definition unpack2Ints :: "string \<Rightarrow> (int \<times> int) res" where
  "unpack2Ints s =
     (if length s = 8 then bindR (unpack_L (take 4 s)) (\<lambda>i. bindR (unpack_L (drop 4 s)) (\<lambda>j. Inr (i, j)))
      else Inl StructError)"

text \<open>\<open>struct.unpack('<i', s)\<close>: a signed word.\<close>

definition unpack_i :: "string \<Rightarrow> int res" where
  "unpack_i s = bindR (unpack_L s) (\<lambda>n. Inr (if n < 2 ^ 31 then n else n - 2 ^ 32))"

section \<open>Text records\<close>

text \<open>\<open>dump\<close>, the lines of the journal, and \<open>_readKeyValue\<close>, which answers \<open>None\<close> at the end of the file.\<close>

definition cdb_record :: "char \<Rightarrow> string \<Rightarrow> string \<Rightarrow> string" where
  "cdb_record initchar key value =
     initchar # str_of_nat (length key) @ '','' @ str_of_nat (length value) @ '':'' @ key @ ''->'' @ value @ [CHR 0x0A]"

definition cdb_dump :: "(string \<times> string) list \<Rightarrow> string" where
  "cdb_dump m = concat (map (\<lambda>(key, value). cdb_record CHR ''+'' key value) m)"

fun read_len :: "char \<Rightarrow> nat \<Rightarrow> string \<Rightarrow> (nat \<times> string) res" where
  "read_len stop n [] = Inl ValueError"
| "read_len stop n (c # s) =
     (if c = stop then Inr (n, s) else if is_digit c then read_len stop (10 * n + digit_val c) s else Inl ValueError)"

definition readKeyValue :: "string \<Rightarrow> ((char \<times> string \<times> string) \<times> string) option res" where
  "readKeyValue fd =
     (case fd of
        [] \<Rightarrow> Inr None
      | initchar # s \<Rightarrow>
          bindR (read_len CHR '','' 0 s) (\<lambda>(klen, s). bindR (read_len CHR '':'' 0 s) (\<lambda>(dlen, s).
            let key = take klen s; s = drop klen s in
            py_assert (take 2 s = ''->'')
              (let s = drop 2 s; value = take dlen s; s = drop dlen s in
               py_assert (take 1 s = [CHR 0x0A]) (Inr (Some ((initchar, key, value), drop 1 s)))))))"

section \<open>Maker\<close>

type_synonym bfile = "string \<times> nat"

definition f_seek :: "nat \<Rightarrow> bfile \<Rightarrow> bfile" where
  "f_seek p fd = (fst fd, p)"

definition f_tell :: "bfile \<Rightarrow> int" where
  "f_tell fd = int (snd fd)"

text \<open>Writing beyond the end fills the gap with zeros.\<close>

definition f_write :: "string \<Rightarrow> bfile \<Rightarrow> bfile" where
  "f_write s fd = (case fd of (content, p) \<Rightarrow>
     let c = content @ replicate (p - length content) CHR 0x00 in
     if s = [] then fd else (take p c @ s @ drop (p + length s) c, p + length s))"

record Maker =
  mk_fd :: bfile
  mk_hashPointers :: "(int \<times> int) list"
  mk_hashes :: "(int \<times> int) list list"

definition Maker_new :: Maker where
  "Maker_new = \<lparr>mk_fd = f_seek 2048 ([], 0), mk_hashPointers = replicate 256 (0, 0), mk_hashes = replicate 256 []\<rparr>"

definition Maker_add :: "string \<Rightarrow> string \<Rightarrow> Maker \<Rightarrow> Maker res" where
  "Maker_add key data mk =
     (let h = cdb_hash key; hashPointer = nat (h mod 256); startPosition = f_tell (mk_fd mk) in
      bindR (pack2Ints (int (length key)) (int (length data))) (\<lambda>lens.
        Inr (mk\<lparr>mk_fd := f_write data (f_write key (f_write lens (mk_fd mk))),
                mk_hashes := (mk_hashes mk)[hashPointer := mk_hashes mk ! hashPointer @ [(h, startPosition)]]\<rparr>)))"

text \<open>
  \<open>while a[i] != (0, 0)\<close>: the next free slot.  The loop goes round the table, so a table without a free slot
  would hold it for ever; the first argument counts the slots not yet looked at.
\<close>

fun free_slot :: "nat \<Rightarrow> (int \<times> int) list \<Rightarrow> nat \<Rightarrow> nat res" where
  "free_slot 0 a i = Inl NoReturn"
| "free_slot (Suc k) a i = (if a ! i = (0, 0) then Inr i else free_slot k a (Suc i mod length a))"

definition put_slot :: "int \<times> int \<Rightarrow> (int \<times> int) list \<Rightarrow> (int \<times> int) list res" where
  "put_slot e a = bindR (free_slot (length a) a (nat (fst e div 256) mod length a)) (\<lambda>i. Inr (a[i := e]))"

text \<open>The table of a bucket, and a sequence of pairs written out.\<close>

definition hash_table :: "(int \<times> int) list \<Rightarrow> (int \<times> int) list res" where
  "hash_table hash = foldR put_slot hash (replicate (2 * length hash) (0, 0))"

definition write_ints :: "(int \<times> int) list \<Rightarrow> bfile \<Rightarrow> bfile res" where
  "write_ints = foldR (\<lambda>(i, j) fd. bindR (pack2Ints i j) (\<lambda>s. Inr (f_write s fd)))"

definition Maker_serializeHash :: "(int \<times> int) list \<Rightarrow> bfile \<Rightarrow> (int \<times> bfile) res" where
  "Maker_serializeHash hash fd =
     bindR (hash_table hash) (\<lambda>a. bindR (write_ints a fd) (\<lambda>fd'. Inr (int (length hash * 2), fd')))"

definition finish_bucket :: "nat \<Rightarrow> Maker \<Rightarrow> Maker res" where
  "finish_bucket i mk =
     bindR (Maker_serializeHash (mk_hashes mk ! i) (mk_fd mk)) (\<lambda>(hashLen, fd).
       Inr (mk\<lparr>mk_fd := fd, mk_hashPointers := (mk_hashPointers mk)[i := (f_tell (mk_fd mk), hashLen)]\<rparr>))"

definition Maker_serializeHashPointers :: "Maker \<Rightarrow> bfile res" where
  "Maker_serializeHashPointers mk = write_ints (mk_hashPointers mk) (f_seek 0 (mk_fd mk))"

text \<open>\<open>finish\<close>: the content of the file, which takes the place of the old one.\<close>

definition Maker_finish :: "Maker \<Rightarrow> string res" where
  "Maker_finish mk =
     bindR (foldR finish_bucket [0..<256] mk) (\<lambda>mk'. bindR (Maker_serializeHashPointers mk') (\<lambda>fd. Inr (fst fd)))"

definition Maker_add_all :: "(string \<times> string) list \<Rightarrow> Maker \<Rightarrow> Maker res" where
  "Maker_add_all = foldR (\<lambda>(key, data). Maker_add key data)"

text \<open>A database made from the pairs that are added to it.\<close>

definition cdb_file :: "(string \<times> string) list \<Rightarrow> string res" where
  "cdb_file kvs = bindR (Maker_add_all kvs Maker_new) Maker_finish"

lemma read_len_shorter: "read_len stop n s = Inr (k, s') \<Longrightarrow> length s' < length s"
  by (induction stop n s rule: read_len.induct) (auto split: if_splits)

lemma readKeyValue_shorter: "readKeyValue fd = Inr (Some (r, rest)) \<Longrightarrow> length rest < length fd"
  by (auto simp: readKeyValue_def Let_def split: list.splits dest!: read_len_shorter)

text \<open>\<open>make\<close>: the records of a dump, one after the other.\<close>

function make_loop :: "string \<Rightarrow> Maker \<Rightarrow> Maker res" where
  "make_loop fd mk =
     (case readKeyValue fd of
        Inl e \<Rightarrow> Inl e
      | Inr None \<Rightarrow> Inr mk
      | Inr (Some ((initchar, key, value), rest)) \<Rightarrow>
          py_assert (initchar = CHR ''+'') (case Maker_add key value mk of Inl e \<Rightarrow> Inl e | Inr mk' \<Rightarrow> make_loop rest mk'))"
  by pat_completeness auto
termination
  by (relation "measure (\<lambda>(fd, mk). length fd)") (auto dest: readKeyValue_shorter)

declare make_loop.simps [simp del]

definition cdb_make :: "string \<Rightarrow> string res" where
  "cdb_make text = bindR (make_loop text Maker_new) Maker_finish"

section \<open>Reader\<close>

record Reader =
  rd_file :: string
  rd_loop :: int
  rd_khash :: int
  rd_kpos :: int
  rd_hpos :: int
  rd_hslots :: int
  rd_dpos :: int
  rd_dlen :: int

definition Reader_new :: "string \<Rightarrow> Reader" where
  "Reader_new file = \<lparr>rd_file = file, rd_loop = 0, rd_khash = 0, rd_kpos = 0, rd_hpos = 0, rd_hslots = 0, rd_dpos = 0, rd_dlen = 0\<rparr>"

definition file_read :: "int \<Rightarrow> int \<Rightarrow> string \<Rightarrow> string" where
  "file_read len pos file = take (nat len) (drop (nat pos) file)"

definition Reader_match :: "string \<Rightarrow> int \<Rightarrow> Reader \<Rightarrow> bool" where
  "Reader_match key pos rd \<longleftrightarrow> file_read (int (length key)) pos (rd_file rd) = key"

text \<open>\<open>_findnext\<close>: the start of a search, when \<open>loop\<close> is zero, and the loop over the slots.\<close>

definition findnext_start :: "string \<Rightarrow> (Reader, bool) act" where
  "findnext_start key =
     bindA (getA rd_loop) (\<lambda>loop.
       if loop \<noteq> 0 then retA True
       else seqA (modifyA (\<lambda>rd. rd\<lparr>rd_khash := cdb_hash key\<rparr>))
         (bindA (getA (\<lambda>rd. rd)) (\<lambda>rd. bindA (liftA (unpack2Ints (file_read 8 ((rd_khash rd * 8) AND 2047) (rd_file rd)))) (\<lambda>(hpos, hslots).
           seqA (modifyA (\<lambda>rd. rd\<lparr>rd_hpos := hpos, rd_hslots := hslots\<rparr>))
             (if hslots = 0 then retA False
              else seqA (modifyA (\<lambda>rd. rd\<lparr>rd_kpos := hpos + ((rd_khash rd div 256) mod hslots) * 8\<rparr>)) (retA True))))))"

definition next_slot :: "Reader \<Rightarrow> Reader" where
  "next_slot rd =
     (let kpos = rd_kpos rd + 8 in
      rd\<lparr>rd_loop := rd_loop rd + 1, rd_kpos := (if kpos = rd_hpos rd + rd_hslots rd * 8 then rd_hpos rd else kpos)\<rparr>)"

function findnext_loop :: "string \<Rightarrow> (Reader, bool) act" where
  "findnext_loop key rd =
     (if rd_loop rd < rd_hslots rd then
        (case unpack2Ints (file_read 8 (rd_kpos rd) (rd_file rd)) of
           Inl e \<Rightarrow> (Inl e, rd)
         | Inr (h, p) \<Rightarrow>
             if p = 0 then (Inr False, rd)
             else if h = rd_khash rd then
               (case unpack2Ints (file_read 8 p (rd_file rd)) of
                  Inl e \<Rightarrow> (Inl e, next_slot rd)
                | Inr (u, dlen) \<Rightarrow>
                    if u = int (length key) \<and> Reader_match key (p + 8) rd
                    then (Inr True, (next_slot rd)\<lparr>rd_dlen := dlen, rd_dpos := p + 8 + u\<rparr>)
                    else findnext_loop key ((next_slot rd)\<lparr>rd_dlen := dlen\<rparr>))
             else findnext_loop key (next_slot rd))
      else (Inr False, rd))"
  by pat_completeness auto
termination
  by (relation "measure (\<lambda>(key, rd). nat (rd_hslots rd - rd_loop rd))") (auto simp: next_slot_def Let_def)

declare findnext_loop.simps [simp del]

definition Reader_findnext :: "string \<Rightarrow> (Reader, bool) act" where
  "Reader_findnext key = bindA (findnext_start key) (\<lambda>go. if go then findnext_loop key else retA False)"

text \<open>\<open>_find\<close>, which is \<open>has_key\<close> and \<open>__contains__\<close> too; \<open>find\<close> is \<open>__getitem__\<close>, for a reader without \<open>default\<close>.\<close>

definition Reader_contains :: "string \<Rightarrow> nat \<Rightarrow> (Reader, bool) act" where
  "Reader_contains key loop = seqA (modifyA (\<lambda>rd. rd\<lparr>rd_loop := int loop\<rparr>)) (Reader_findnext key)"

definition Reader_getCurrentData :: "(Reader, string) act" where
  "Reader_getCurrentData = getA (\<lambda>rd. file_read (rd_dlen rd) (rd_dpos rd) (rd_file rd))"

definition Reader_find :: "string \<Rightarrow> nat \<Rightarrow> (Reader, string) act" where
  "Reader_find key loop =
     bindA (Reader_contains key loop) (\<lambda>found. if found then Reader_getCurrentData else raiseA KeyError)"

definition Reader_get :: "string \<Rightarrow> string option \<Rightarrow> (Reader, string option) act" where
  "Reader_get key dflt = (\<lambda>rd. case Reader_find key 0 rd of
     (Inr v, rd') \<Rightarrow> (Inr (Some v), rd')
   | (Inl e, rd') \<Rightarrow> (if e = KeyError then Inr dflt else Inl e, rd'))"

lemma findnext_loop_advances:
  "findnext_loop key rd = (Inr True, rd') \<Longrightarrow> rd_hslots rd' = rd_hslots rd \<and> rd_loop rd < rd_loop rd' \<and> rd_loop rd' \<le> rd_hslots rd"
proof (induction key rd rule: findnext_loop.induct)
  case (1 key rd)
  note step = findnext_loop.simps [of key rd]
  have loop: "rd_loop rd < rd_hslots rd" using "1.prems" unfolding step by (auto split: if_splits)
  obtain h p where hp: "unpack2Ints (file_read 8 (rd_kpos rd) (rd_file rd)) = Inr (h, p)" "p \<noteq> 0"
    using "1.prems" loop unfolding step by (auto split: sum.splits prod.splits if_splits)
  have moved: "rd_hslots (next_slot rd) = rd_hslots rd" "rd_loop (next_slot rd) = rd_loop rd + 1"
    by (simp_all add: next_slot_def Let_def)
  show ?case
  proof (cases "h = rd_khash rd")
    case False
    with "1.prems" loop hp have "findnext_loop key (next_slot rd) = (Inr True, rd')" unfolding step by simp
    with "1.IH"(2) [OF loop hp(1) refl hp(2) False] moved show ?thesis by simp
  next
    case True
    with "1.prems" loop hp obtain u dlen where u: "unpack2Ints (file_read 8 p (rd_file rd)) = Inr (u, dlen)"
      unfolding step by (auto split: sum.splits)
    show ?thesis
    proof (cases "u = int (length key) \<and> Reader_match key (p + 8) rd")
      case match: True
      with "1.prems" loop hp True u moved show ?thesis unfolding step by auto
    next
      case match: False
      with "1.prems" loop hp True u have "findnext_loop key ((next_slot rd)\<lparr>rd_dlen := dlen\<rparr>) = (Inr True, rd')"
        unfolding step by (auto split: if_splits)
      with "1.IH"(1) [OF loop hp(1) refl hp(2) True u refl match] moved show ?thesis by simp
    qed
  qed
qed

text \<open>
  \<open>findall\<close> goes on from wherever the last search stopped.  After a hit \<open>loop\<close> is not zero, so that the rounds
  after the first one do not start the search again.
\<close>

function findall_more :: "string \<Rightarrow> (Reader, string list) act" where
  "findall_more key rd =
     (case findnext_loop key rd of
        (Inl e, rd') \<Rightarrow> (Inl e, rd')
      | (Inr found, rd') \<Rightarrow>
          if found then
            (case Reader_getCurrentData rd' of
               (Inl e, rd'') \<Rightarrow> (Inl e, rd'')
             | (Inr v, _) \<Rightarrow> (case findall_more key rd' of (Inl e, rd'') \<Rightarrow> (Inl e, rd'') | (Inr vs, rd'') \<Rightarrow> (Inr (v # vs), rd'')))
          else (Inr [], rd'))"
  by pat_completeness auto
termination
  by (relation "measure (\<lambda>(key, rd). nat (rd_hslots rd - rd_loop rd))") (auto dest!: findnext_loop_advances [OF sym])

declare findall_more.simps [simp del]

definition Reader_findall :: "string \<Rightarrow> (Reader, string list) act" where
  "Reader_findall key =
     bindA (Reader_findnext key) (\<lambda>found.
       if found then bindA Reader_getCurrentData (\<lambda>v. bindA (findall_more key) (\<lambda>vs. retA (v # vs))) else retA [])"

lemma of_char_int: "0 \<le> (of_char c :: int)"
  using of_nat_0_le_iff [where ?'a = int, of "of_char c"] by (simp only: of_nat_of_char)

lemma unpack_L_nonneg: "unpack_L s = Inr n \<Longrightarrow> 0 \<le> n"
proof (cases s rule: unpack_L.cases)
  case (1 a b c d)
  moreover assume "unpack_L s = Inr n"
  ultimately show ?thesis using of_char_int [of a] of_char_int [of b] of_char_int [of c] of_char_int [of d] by simp
qed simp_all

lemma unpack2Ints_nonneg: "unpack2Ints s = Inr (i, j) \<Longrightarrow> 0 \<le> i \<and> 0 \<le> j"
  using unpack_L_nonneg by (simp add: unpack2Ints_def split: if_splits) blast

text \<open>\<open>iteritems\<close>, run to its end.\<close>

function items_loop :: "(Reader, (string \<times> string) list) act" where
  "items_loop rd =
     (if rd_hslots rd < rd_loop rd then
        (case unpack2Ints (file_read 8 (rd_hslots rd) (rd_file rd)) of
           Inl e \<Rightarrow> (Inl e, rd)
         | Inr (klen, dlen) \<Rightarrow>
             let dpos = rd_hslots rd + 8 + klen;
                 item = (file_read klen (rd_hslots rd + 8) (rd_file rd), file_read dlen dpos (rd_file rd)) in
             (case items_loop (rd\<lparr>rd_hslots := dpos + dlen\<rparr>) of
                (Inl e, rd') \<Rightarrow> (Inl e, rd')
              | (Inr items, rd') \<Rightarrow> (Inr (item # items), rd')))
      else (Inr [], rd))"
  by pat_completeness auto
termination
  by (relation "measure (\<lambda>rd. nat (rd_loop rd - rd_hslots rd))") (auto dest!: unpack2Ints_nonneg)

declare items_loop.simps [simp del]

definition Reader_items :: "(Reader, (string \<times> string) list) act" where
  "Reader_items =
     bindA (getA rd_file) (\<lambda>file. bindA (liftA (unpack_i (file_read 4 0 file))) (\<lambda>loop.
       seqA (modifyA (\<lambda>rd. rd\<lparr>rd_loop := loop, rd_hslots := 2048\<rparr>))
         (bindA items_loop (\<lambda>items. seqA (modifyA (\<lambda>rd. rd\<lparr>rd_loop := 0, rd_hslots := 0\<rparr>)) (retA items)))))"

definition Reader_len :: "Reader \<Rightarrow> int res" where
  "Reader_len rd = bindR (unpack_i (file_read 4 0 (rd_file rd))) (\<lambda>start. Inr ((int (length (rd_file rd)) - start) div 16))"

end
