(* ===== verification/CdbWriter.thy ===== *)
theory CdbWriter
  imports Cdb
begin

text \<open>
  \<open>ReaderWriter\<close> of \<open>cdb.py\<close>: a database that is read from a constant one and from the changes made since,
  which a journal records; \<open>flush\<close> builds a new constant database from both.

  The two files are the bytes of the reader and \<open>rw_journal\<close>.  The limit of changes is absent (or 0), an
  integer, or a float, given as a fraction with a positive denominator.
\<close>

datatype maxmods = NoLimit | Limit int | Ratio int int

record ReaderWriter =
  rw_maxmods :: maxmods
  rw_mods :: int
  rw_cdb :: Reader
  rw_journal :: string
  rw_adds :: "(string, string) dict"
  rw_removals :: "string set"

section \<open>The journal\<close>

definition journalRemoveKey :: "string \<Rightarrow> ReaderWriter \<Rightarrow> ReaderWriter" where
  "journalRemoveKey key rw = rw\<lparr>rw_journal := rw_journal rw @ cdb_record CHR ''-'' key []\<rparr>"

definition journalAddKey :: "string \<Rightarrow> string \<Rightarrow> ReaderWriter \<Rightarrow> ReaderWriter" where
  "journalAddKey key value rw = rw\<lparr>rw_journal := rw_journal rw @ cdb_record CHR ''+'' key value\<rparr>"

text \<open>What one record of the journal does to the keys removed and added.\<close>

definition replay :: "char \<times> string \<times> string \<Rightarrow> string set \<times> (string, string) dict \<Rightarrow> string set \<times> (string, string) dict" where
  "replay r st = (case (r, st) of ((initchar, key, value), (removals, adds)) \<Rightarrow>
     if initchar = CHR ''+'' then (removals - {key}, dict_set key value adds)
     else if initchar = CHR ''-'' then (insert key removals, dict_drop key adds)
     else (removals, adds))"

function journal_loop :: "string \<Rightarrow> string set \<times> (string, string) dict \<Rightarrow> (string set \<times> (string, string) dict) res" where
  "journal_loop fd st =
     (case readKeyValue fd of
        Inl e \<Rightarrow> Inl e
      | Inr None \<Rightarrow> Inr st
      | Inr (Some (r, rest)) \<Rightarrow> journal_loop rest (replay r st))"
  by pat_completeness auto
termination
  by (relation "measure (\<lambda>(fd, st). length fd)") (auto dest: readKeyValue_shorter)

declare journal_loop.simps [simp del]

text \<open>
  The new database: the old one without the keys removed and with the values added in their place (once for each
  key), then the other values added.  A value that was written is \<open>None\<close> from then on.
\<close>

fun merge_old :: "string set \<Rightarrow> (string \<times> string) list \<Rightarrow> (string, string option) dict \<times> Maker
    \<Rightarrow> ((string, string option) dict \<times> Maker) res" where
  "merge_old removals [] st = Inr st"
| "merge_old removals ((key, value) # items) (adds, mk) =
     (if key \<in> removals then merge_old removals items (adds, mk)
      else (case dict_get adds key of
          Some None \<Rightarrow> merge_old removals items (adds, mk)
        | Some (Some value') \<Rightarrow>
            bindR (Maker_add key value' mk) (\<lambda>mk'. merge_old removals items (dict_set key None adds, mk'))
        | None \<Rightarrow> bindR (Maker_add key value mk) (\<lambda>mk'. merge_old removals items (adds, mk'))))"

definition merge_new :: "(string, string option) dict \<Rightarrow> Maker \<Rightarrow> Maker res" where
  "merge_new = foldR (\<lambda>(key, value) mk. case value of None \<Rightarrow> Inr mk | Some v \<Rightarrow> Maker_add key v mk)"

definition readJournal :: "string \<Rightarrow> string \<Rightarrow> string res" where
  "readJournal journal file =
     bindR (journal_loop journal ({}, [])) (\<lambda>(removals, adds).
       if removals = {} \<and> adds = [] then Inr file
       else bindR (fst (Reader_items (Reader_new file))) (\<lambda>items.
         bindR (merge_old removals items (map (\<lambda>(k, v). (k, Some v)) adds, Maker_new)) (\<lambda>(adds', mk).
           bindR (merge_new adds' mk) Maker_finish)))"

section \<open>The database\<close>

text \<open>\<open>__init__\<close>; a journal that does not exist is as good as an empty one.\<close>

definition ReaderWriter_new :: "string \<Rightarrow> string \<Rightarrow> maxmods \<Rightarrow> ReaderWriter res" where
  "ReaderWriter_new file journal maxmods =
     bindR (readJournal journal file) (\<lambda>file'.
       Inr \<lparr>rw_maxmods = maxmods, rw_mods = 0, rw_cdb = Reader_new file', rw_journal = [], rw_adds = [], rw_removals = {}\<rparr>)"

definition ReaderWriter_flush :: "(ReaderWriter, unit) act" where
  "ReaderWriter_flush =
     bindA (getA (\<lambda>rw. readJournal (rw_journal rw) (rd_file (rw_cdb rw)))) (\<lambda>r. bindA (liftA r) (\<lambda>file.
       modifyA (\<lambda>rw. rw\<lparr>rw_cdb := Reader_new file, rw_journal := []\<rparr>)))"

definition flushIfOverLimit :: "(ReaderWriter, unit) act" where
  "flushIfOverLimit =
     bindA (getA (\<lambda>rw. rw)) (\<lambda>rw. case rw_maxmods rw of
       NoLimit \<Rightarrow> retA ()
     | Limit n \<Rightarrow>
         if n \<noteq> 0 \<and> n < rw_mods rw then seqA ReaderWriter_flush (modifyA (\<lambda>rw. rw\<lparr>rw_mods := 0\<rparr>)) else retA ()
     | Ratio n d \<Rightarrow>
         if n = 0 then retA ()
         else seqA (assertA (0 \<le> n)) (bindA (liftA (Reader_len (rw_cdb rw))) (\<lambda>len.
           if n < d * (rw_mods rw div max len 100)
           then seqA ReaderWriter_flush (modifyA (\<lambda>rw. rw\<lparr>rw_mods := 0\<rparr>)) else retA ())))"

text \<open>A method of the reader.\<close>

definition on_cdb :: "(Reader, 'a) act \<Rightarrow> (ReaderWriter, 'a) act" where
  "on_cdb m = (\<lambda>rw. case m (rw_cdb rw) of (x, rd) \<Rightarrow> (x, rw\<lparr>rw_cdb := rd\<rparr>))"

definition ReaderWriter_getitem :: "string \<Rightarrow> (ReaderWriter, string) act" where
  "ReaderWriter_getitem key =
     bindA (getA (\<lambda>rw. rw)) (\<lambda>rw.
       if key \<in> rw_removals rw then raiseA KeyError
       else (case dict_get (rw_adds rw) key of Some v \<Rightarrow> retA v | None \<Rightarrow> on_cdb (Reader_find key 0)))"

definition ReaderWriter_contains :: "string \<Rightarrow> (ReaderWriter, bool) act" where
  "ReaderWriter_contains key =
     bindA (getA (\<lambda>rw. rw)) (\<lambda>rw.
       if key \<in> rw_removals rw then retA False
       else if dict_has (rw_adds rw) key then retA True else on_cdb (Reader_contains key 0))"

definition changed :: "(ReaderWriter, unit) act" where
  "changed = seqA (modifyA (\<lambda>rw. rw\<lparr>rw_mods := rw_mods rw + 1\<rparr>)) flushIfOverLimit"

definition ReaderWriter_delitem :: "string \<Rightarrow> (ReaderWriter, unit) act" where
  "ReaderWriter_delitem key =
     bindA (getA (\<lambda>rw. rw)) (\<lambda>rw.
       if key \<in> rw_removals rw then raiseA KeyError
       else bindA (on_cdb (Reader_contains key 0)) (\<lambda>inCdb.
         if dict_has (rw_adds rw) key \<and> inCdb then
           seqA (modifyA (\<lambda>rw. (journalRemoveKey key rw)\<lparr>rw_adds := dict_drop key (rw_adds rw),
                     rw_removals := insert key (rw_removals rw)\<rparr>)) changed
         else if dict_has (rw_adds rw) key then
           seqA (modifyA (\<lambda>rw. (journalRemoveKey key rw)\<lparr>rw_adds := dict_drop key (rw_adds rw)\<rparr>)) changed
         else if inCdb then seqA (modifyA (journalRemoveKey key)) changed
         else raiseA KeyError))"

definition ReaderWriter_setitem :: "string \<Rightarrow> string \<Rightarrow> (ReaderWriter, unit) act" where
  "ReaderWriter_setitem key value =
     seqA (modifyA (\<lambda>rw. rw\<lparr>rw_removals := rw_removals rw - {key}\<rparr>))
       (seqA (modifyA (journalAddKey key value))
         (seqA (modifyA (\<lambda>rw. rw\<lparr>rw_adds := dict_set key value (rw_adds rw)\<rparr>)) changed))"

fun items_over :: "ReaderWriter \<Rightarrow> string set \<Rightarrow> (string \<times> string) list \<Rightarrow> (string \<times> string) list" where
  "items_over rw already [] = filter (\<lambda>(key, _). key \<notin> already) (rw_adds rw)"
| "items_over rw already ((key, value) # items) =
     (if key \<in> rw_removals rw \<or> key \<in> already then items_over rw already items
      else (case dict_get (rw_adds rw) key of
          Some v \<Rightarrow> (key, v) # items_over rw (insert key already) items
        | None \<Rightarrow> (key, value) # items_over rw already items))"

definition ReaderWriter_items :: "(ReaderWriter, (string \<times> string) list) act" where
  "ReaderWriter_items = bindA (on_cdb Reader_items) (\<lambda>items. getA (\<lambda>rw. items_over rw {} items))"

definition ReaderWriter_get :: "string \<Rightarrow> string option \<Rightarrow> (ReaderWriter, string option) act" where
  "ReaderWriter_get key dflt = (\<lambda>rw. case ReaderWriter_getitem key rw of
     (Inr v, rw') \<Rightarrow> (Inr (Some v), rw')
   | (Inl e, rw') \<Rightarrow> (if e = KeyError then Inr dflt else Inl e, rw'))"

definition ReaderWriter_setdefault :: "string \<Rightarrow> string \<Rightarrow> (ReaderWriter, string) act" where
  "ReaderWriter_setdefault key value = (\<lambda>rw. case ReaderWriter_getitem key rw of
     (Inr v, rw') \<Rightarrow> (Inr v, rw')
   | (Inl e, rw') \<Rightarrow>
       if e = KeyError then seqA (ReaderWriter_setitem key value) (retA value) rw' else (Inl e, rw'))"

definition ReaderWriter_close :: "(ReaderWriter, unit) act" where
  "ReaderWriter_close = ReaderWriter_flush"

text \<open>\<open>open\<close>: the modes; \<open>None\<close> is a file that does not exist.\<close>

datatype cdb_handle = HReader Reader | HWriter ReaderWriter

definition cdb_open :: "char \<Rightarrow> string option \<Rightarrow> string \<Rightarrow> maxmods \<Rightarrow> cdb_handle res" where
  "cdb_open mode file journal maxmods =
     (let writer = (\<lambda>f. bindR (ReaderWriter_new f journal maxmods) (\<lambda>rw. Inr (HWriter rw)));
          fresh = bindR (Maker_finish Maker_new) writer in
      if mode = CHR ''r'' then (case file of None \<Rightarrow> Inl EnvironmentError | Some f \<Rightarrow> Inr (HReader (Reader_new f)))
      else if mode = CHR ''w'' then
        (case file of None \<Rightarrow> bindR (journal_loop journal ({}, [])) (\<lambda>_. Inl EnvironmentError) | Some f \<Rightarrow> writer f)
      else if mode = CHR ''c'' then (case file of None \<Rightarrow> fresh | Some f \<Rightarrow> writer f)
      else if mode = CHR ''n'' then fresh
      else Inl ValueError)"

end
