(* ===== verification/CdbTable.thy ===== *)
theory CdbTable
  imports Cdb
begin

text \<open>
  The hash tables of a constant database: the entries of a hash value are found, in the order they were added,
  by going round the table from their slot up to the first free one; a table is never full, so the search for a
  free slot ends.
\<close>

abbreviation used :: "int \<times> int \<Rightarrow> bool" where
  "used e \<equiv> e \<noteq> (0, 0)"

definition start_slot :: "int \<Rightarrow> 'a list \<Rightarrow> nat" where
  "start_slot h a = nat (h div 256) mod length a"

text \<open>The slots as a search for \<open>h\<close> visits them, and the entries it meets before the first free slot.\<close>

definition search_order :: "int \<Rightarrow> (int \<times> int) list \<Rightarrow> (int \<times> int) list" where
  "search_order h a = rotate (start_slot h a) a"

definition reached :: "int \<Rightarrow> (int \<times> int) list \<Rightarrow> (int \<times> int) list" where
  "reached h a = takeWhile used (search_order h a)"

definition with_hash :: "int \<Rightarrow> (int \<times> int) list \<Rightarrow> (int \<times> int) list" where
  "with_hash h = filter (\<lambda>e. fst e = h)"

text \<open>\<open>a\<close> is a table of the entries \<open>es\<close>, added in this order.\<close>

definition table_of :: "(int \<times> int) list \<Rightarrow> (int \<times> int) list \<Rightarrow> bool" where
  "table_of es a \<longleftrightarrow>
     (\<forall>h. with_hash h (reached h a) = with_hash h es)
     \<and> (\<forall>h. with_hash h (filter used (search_order h a)) = with_hash h es)
     \<and> length (filter used a) = length es \<and> set (filter used a) = set es"

lemma rotate_update:
  assumes "i < length a"
  shows "\<exists>us vs. \<forall>e. rotate s (a[i := e]) = us @ e # vs"
proof -
  define m where "m = s mod length a"
  have rot: "rotate s (a[i := e]) = drop m (a[i := e]) @ take m (a[i := e])" for e
    by (simp add: rotate_drop_take m_def)
  have m: "m < length a" unfolding m_def by (rule mod_less_divisor) (use assms in linarith)
  have split: "a[i := e] = take i a @ e # drop (Suc i) a" for e using assms by (rule upd_conv_take_nth_drop)
  show ?thesis
  proof (cases "i < m")
    case True
    then obtain k where k: "m = Suc (i + k)" by (auto dest: less_imp_Suc_add)
    have "rotate s (a[i := e]) = (drop m a @ take i a) @ e # drop (Suc i) (take m a)" for e
      unfolding rot using assms m k by (simp add: split take_drop ac_simps)
    then show ?thesis by blast
  next
    case False
    then have "rotate s (a[i := e]) = drop m (take i a) @ e # (drop (Suc i) a @ take m a)" for e
      unfolding rot using assms m by (simp add: drop_update_swap upd_conv_take_nth_drop)
    then show ?thesis by blast
  qed
qed

lemma mod_add_cancel: "m < L \<Longrightarrow> n < L \<Longrightarrow> (i + m) mod L = (i + n) mod L \<longleftrightarrow> m = (n :: nat)"
proof
  assume l: "m < L" "n < L" and eq: "(i + m) mod L = (i + n) mod L"
  then have "(int i + int m) mod int L = (int i + int n) mod int L"
    by (metis of_nat_add of_nat_mod)
  from mod_diff_cong [OF this refl, of "int i"] l show "m = n" by simp
qed simp

text \<open>The slot that is found is free, and every slot visited before it is not.\<close>

lemma free_slot_found:
  assumes "free_slot k a i = Inr j" "i < length a" "k \<le> length a"
  shows "j < length a \<and> a ! j = (0, 0) \<and> (\<exists>n < k. j = (i + n) mod length a \<and> (\<forall>m < n. used (a ! ((i + m) mod length a))))"
  using assms
proof (induction k arbitrary: i)
  case (Suc k)
  show ?case
  proof (cases "a ! i = (0, 0)")
    case True
    with Suc.prems show ?thesis by (auto intro!: exI [of _ 0])
  next
    case False
    with Suc.prems have step: "free_slot k a (Suc i mod length a) = Inr j" by simp
    have "Suc i mod length a < length a" by (rule mod_less_divisor) (use Suc.prems(2) in linarith)
    from Suc.IH [OF step this] Suc.prems obtain n where n: "n < k" "j = (Suc i mod length a + n) mod length a" "j < length a"
        "a ! j = (0, 0)" "\<forall>m < n. used (a ! ((Suc i mod length a + m) mod length a))"
      by auto
    have "used (a ! ((i + m) mod length a))" if "m < Suc n" for m
      using that False n(5) Suc.prems(2) by (cases m) (auto simp: mod_simps)
    moreover have "j = (i + Suc n) mod length a" using n(2) by (simp add: mod_simps)
    ultimately show ?thesis using n by (intro conjI exI [of _ "Suc n"]) auto
  qed
qed simp

lemma free_slot_none:
  assumes "free_slot k a i = Inl e" "i < length a"
  shows "\<forall>m < k. used (a ! ((i + m) mod length a))"
  using assms
proof (induction k arbitrary: i)
  case (Suc k)
  have "used (a ! i)" and rest: "free_slot k a (Suc i mod length a) = Inl e" using Suc.prems(1) by (auto split: if_splits)
  have "Suc i mod length a < length a" by (rule mod_less_divisor) (use Suc.prems(2) in linarith)
  from Suc.IH [OF rest this] have IH: "\<forall>m < k. used (a ! ((Suc i mod length a + m) mod length a))" .
  show ?case
  proof (intro allI impI)
    fix m assume "m < Suc k"
    then show "used (a ! ((i + m) mod length a))"
      using \<open>used (a ! i)\<close> IH Suc.prems(2) by (cases m) (auto simp: mod_simps)
  qed
qed simp

text \<open>A table with a free slot: one is found, the first in the search order.\<close>

lemma free_slot_first:
  assumes free: "(0, 0) \<in> set a"
  obtains j where "free_slot (length a) a (start_slot h a) = Inr j" "j < length a" "a ! j = (0, 0)"
    "\<exists>us vs. list_all used us \<and> (\<forall>e. search_order h (a[j := e]) = us @ e # vs)"
proof -
  let ?i = "start_slot h a"
  have ne: "a \<noteq> []" using free by auto
  then have i: "?i < length a" by (simp add: start_slot_def)
  have "\<exists>j. free_slot (length a) a ?i = Inr j"
  proof (cases "free_slot (length a) a ?i")
    case (Inl e)
    from free_slot_none [OF Inl i] have "used (rotate ?i a ! m)" if "m < length a" for m
      using that by (simp add: nth_rotate)
    then have "\<forall>x \<in> set (rotate ?i a). used x" by (metis in_set_conv_nth length_rotate)
    with free show ?thesis by auto
  qed simp
  then obtain j where j: "free_slot (length a) a ?i = Inr j" by blast
  from free_slot_found [OF this i order_refl] obtain n where n: "j < length a" "a ! j = (0, 0)" "n < length a"
      "j = (?i + n) mod length a" "\<forall>m < n. used (a ! ((?i + m) mod length a))" by blast
  have "rotate ?i (a[j := e]) = take n (rotate ?i a) @ e # drop (Suc n) (rotate ?i a)" for e
  proof -
    have "rotate ?i (a[j := e]) = (rotate ?i a)[n := e]"
    proof (rule nth_equalityI)
      fix m assume "m < length (rotate ?i (a[j := e]))"
      moreover from this have "(?i + m) mod length a = (?i + n) mod length a \<longleftrightarrow> m = n"
        using n(3) by (simp add: mod_add_cancel)
      moreover from calculation have "(?i + n) mod length a = (?i + m) mod length a \<longleftrightarrow> m = n" by metis
      ultimately show "rotate ?i (a[j := e]) ! m = (rotate ?i a)[n := e] ! m"
        using n by (cases "m = n") (simp_all add: nth_rotate)
    qed simp
    then show ?thesis using n(3) by (simp add: upd_conv_take_nth_drop)
  qed
  moreover have "list_all used (take n (rotate ?i a))"
    using n by (auto simp: list_all_length nth_rotate)
  ultimately show thesis using that [OF j n(1,2)] by (auto simp: search_order_def start_slot_def)
qed

section \<open>Building the table\<close>

lemma tail_without_hash:
  assumes "list_all used us" "with_hash h (filter used (us @ (0, 0) # vs)) = with_hash h us"
  shows "with_hash h (filter used vs) = []" "with_hash h (takeWhile used vs) = []"
proof -
  have "filter used us = us" using assms(1) by (simp add: list_all_iff)
  with assms(2) show none: "with_hash h (filter used vs) = []" by (simp add: with_hash_def del: filter_filter)
  show "with_hash h (takeWhile used vs) = []"
    using none by (auto simp: with_hash_def filter_empty_conv dest: set_takeWhileD)
qed

lemma filter_used_update:
  assumes "j < length a" "a ! j = (0, 0)" "used e"
  shows "length (filter used (a[j := e])) = Suc (length (filter used a))"
    "set (filter used (a[j := e])) = insert e (set (filter used a))"
proof -
  obtain us vs where a: "a = us @ (0, 0) # vs" "length us = j"
    using id_take_nth_drop [OF assms(1)] assms(1,2) by (metis length_take less_imp_le min.absorb2)
  then have "a[j := e] = us @ e # vs" by (simp add: list_update_append)
  with a assms(3) show "length (filter used (a[j := e])) = Suc (length (filter used a))"
    "set (filter used (a[j := e])) = insert e (set (filter used a))" by auto
qed

text \<open>
  An entry put into a table: it comes after all entries of its hash value, since they were all reached before the
  free slot; entries of other hash values are reached as before, also when the entry closes a gap.
\<close>

lemma put_slot_table:
  assumes t: "table_of es a" and free: "(0, 0) \<in> set a" and e: "used e"
  shows "\<exists>a'. put_slot e a = Inr a' \<and> length a' = length a \<and> table_of (es @ [e]) a'"
proof -
  obtain j where j: "free_slot (length a) a (start_slot (fst e) a) = Inr j" "j < length a" "a ! j = (0, 0)"
    and own: "\<exists>us vs. list_all used us \<and> (\<forall>x. search_order (fst e) (a[j := x]) = us @ x # vs)"
    using free_slot_first [OF free, of "fst e"] by blast
  let ?a = "a[j := e]"
  have put: "put_slot e a = Inr ?a" using j(1) by (simp add: put_slot_def start_slot_def)
  have same: "a[j := (0, 0)] = a" using j(3) by (metis list_update_id)
  have reach: "with_hash h (reached h a) = with_hash h es" "with_hash h (filter used (search_order h a)) = with_hash h es" for h
    using t by (simp_all add: table_of_def)
  have all: "with_hash h (filter used (search_order h ?a)) = with_hash h (es @ [e])
      \<and> with_hash h (reached h ?a) = with_hash h (es @ [e])" for h
  proof (cases "h = fst e")
    case True
    then obtain us vs where uv: "list_all used us" "\<And>x. search_order h (a[j := x]) = us @ x # vs" using own by blast
    have old: "search_order h a = us @ (0, 0) # vs" using uv(2) [of "(0, 0)"] same by simp
    have us: "with_hash h us = with_hash h es" using reach(1) [of h] uv(1)
      by (simp add: reached_def old takeWhile_append2 list_all_iff)
    note none = tail_without_hash [OF uv(1), of h vs]
    have "with_hash h (filter used vs) = []" "with_hash h (takeWhile used vs) = []"
      using none reach(2) [of h] us by (simp_all add: old)
    moreover have "filter used us = us" using uv(1) by (simp add: list_all_iff)
    ultimately show ?thesis unfolding reached_def uv(2) using us uv(1) e True
      by (simp add: takeWhile_append2 list_all_iff with_hash_def del: filter_filter)
  next
    case False
    obtain us vs where uv: "\<And>x. search_order h (a[j := x]) = us @ x # vs"
      using rotate_update [OF j(2)] by (fastforce simp: search_order_def start_slot_def)
    have old: "search_order h a = us @ (0, 0) # vs" using uv [of "(0, 0)"] same by simp
    have f: "with_hash h (filter used (search_order h ?a)) = with_hash h (filter used (search_order h a))"
      using False by (simp add: old uv with_hash_def)
    have "with_hash h (reached h ?a) = with_hash h (reached h a)"
    proof (cases "list_all used us")
      case True
      then have r: "reached h a = us" "reached h ?a = us @ e # takeWhile used vs"
        using e by (simp_all add: reached_def old uv takeWhile_append2 list_all_iff)
      have "with_hash h (takeWhile used vs) = []"
        using tail_without_hash(2) [OF True, of h vs] reach [of h] r(1) by (simp add: old)
      then show ?thesis using r False by (simp add: with_hash_def)
    next
      case f: False
      then have "takeWhile used (us @ x # vs) = takeWhile used us" for x vs
        by (auto simp: list_all_iff takeWhile_append)
      then show ?thesis by (simp add: reached_def old uv)
    qed
    with f reach False show ?thesis by (simp add: with_hash_def)
  qed
  note count = filter_used_update [OF j(2,3) e]
  from all t put count show ?thesis by (simp add: table_of_def)
qed

lemma table_of_empty: "table_of [] (replicate n (0, 0))"
proof -
  have "search_order h (replicate n (0, 0)) = replicate n (0, 0)" for h
    by (rule replicate_eqI) (auto simp: search_order_def)
  then show ?thesis by (cases n) (simp_all add: table_of_def with_hash_def reached_def)
qed

lemma hash_table_total:
  assumes "\<forall>e \<in> set es. used e"
  shows "\<exists>a. hash_table es = Inr a \<and> length a = 2 * length es \<and> table_of es a"
proof -
  have "\<exists>a'. foldR put_slot new a = Inr a' \<and> length a' = length a \<and> table_of (old @ new) a'"
    if "table_of old a" "length (old @ new) < length a \<or> new = []" "\<forall>e \<in> set new. used e" for old new a
    using that
  proof (induction new arbitrary: old a)
    case (Cons e new)
    have "length (filter used a) < length a" using Cons.prems(1,2) by (simp add: table_of_def)
    then have "filter used a \<noteq> a" by auto
    then have "(0, 0) \<in> set a" by (auto simp: filter_id_conv)
    moreover have "used e" using Cons.prems(3) by simp
    ultimately obtain a1 where a1: "put_slot e a = Inr a1" "length a1 = length a" "table_of (old @ [e]) a1"
      using put_slot_table [OF Cons.prems(1)] by blast
    have "length ((old @ [e]) @ new) < length a1 \<or> new = []" using Cons.prems(2) a1(2) by simp
    from Cons.IH [OF a1(3) this] Cons.prems(3) a1 show ?case by simp
  qed simp
  from this [OF table_of_empty, of es "2 * length es"] assms show ?thesis
    by (cases es) (simp_all add: hash_table_def)
qed

end
