(* ===== verification/CdbLayout.thy ===== *)
theory CdbLayout
  imports CdbTable
begin

text \<open>
  The layout of the file that \<open>Maker\<close> writes: 256 pointers, the records one after the other, the tables of the
  buckets.  \<open>lies_at\<close> says that a byte string lies at a position of a file.
\<close>

section \<open>Packed integers\<close>

lemma of_char_char_of_int: "(of_char (char_of (i mod 256 :: int)) :: int) = i mod 256"
  by simp

lemma pack_unpack_L: "pack_L i = Inr s \<Longrightarrow> unpack_L s = Inr i \<and> length s = 4"
proof -
  assume p: "pack_L i = Inr s"
  then have i: "0 \<le> i" "i < 2 ^ 32"
    and s: "s = [char_of (i mod 256), char_of (i div 2 ^ 8 mod 256), char_of (i div 2 ^ 16 mod 256), char_of (i div 2 ^ 24 mod 256)]"
    by (auto simp: pack_L_def split: if_splits)
  define a b c where "a = i div 256" "b = a div 256" "c = b div 256"
  then have d: "i div 2 ^ 8 = a" "i div 2 ^ 16 = b" "i div 2 ^ 24 = c"
    using zdiv_zmult2_eq [of 256 i 256] zdiv_zmult2_eq [of 256 i 65536] zdiv_zmult2_eq [of 256 a 256] by simp_all
  have "c mod 256 = c" using i unfolding d(3) [symmetric] by simp
  moreover have "i = 256 * a + i mod 256" "a = 256 * b + a mod 256" "b = 256 * c + b mod 256"
    by (simp_all add: a_b_c_def)
  ultimately have "i mod 256 + 256 * (a mod 256) + 65536 * (b mod 256) + 16777216 * (c mod 256) = i" by linarith
  then show ?thesis unfolding s d by simp
qed

lemma pack2Ints_unpack: "pack2Ints i j = Inr s \<Longrightarrow> unpack2Ints s = Inr (i, j) \<and> length s = 8"
  by (auto simp: pack2Ints_def unpack2Ints_def dest!: pack_unpack_L)

lemma pack2Ints_total: "0 \<le> i \<Longrightarrow> i < 2 ^ 32 \<Longrightarrow> 0 \<le> j \<Longrightarrow> j < 2 ^ 32 \<Longrightarrow> \<exists>s. pack2Ints i j = Inr s"
  by (simp add: pack2Ints_def pack_L_def)

definition packed :: "int \<times> int \<Rightarrow> string" where
  "packed e = projr (pack2Ints (fst e) (snd e))"

definition packable :: "int \<times> int \<Rightarrow> bool" where
  "packable e \<longleftrightarrow> \<not> isl (pack2Ints (fst e) (snd e))"

lemma packed_unpack: "packable e \<Longrightarrow> unpack2Ints (packed e) = Inr e \<and> length (packed e) = 8"
  unfolding packable_def packed_def by (cases "pack2Ints (fst e) (snd e)") (auto dest: pack2Ints_unpack)

lemma pack2Ints_packed: "pack2Ints i j = Inr s \<longleftrightarrow> packable (i, j) \<and> s = packed (i, j)"
  unfolding packable_def packed_def by (cases "pack2Ints i j") auto

lemma length_packed_list: "\<forall>e \<in> set es. packable e \<Longrightarrow> length (concat (map packed es)) = 8 * length es"
  by (induction es) (simp_all add: packed_unpack)

section \<open>Reading\<close>

definition lies_at :: "string \<Rightarrow> int \<Rightarrow> string \<Rightarrow> bool" where
  "lies_at file p s \<longleftrightarrow> (\<exists>x y. file = x @ s @ y \<and> int (length x) = p)"

lemma lies_at_read: "lies_at file p s \<Longrightarrow> file_read (int (length s)) p file = s"
  by (auto simp: lies_at_def file_read_def)

lemma lies_at_append: "lies_at file p (s @ t) \<longleftrightarrow> lies_at file p s \<and> lies_at file (p + int (length s)) t"
proof
  assume "lies_at file p (s @ t)"
  then obtain x y where "file = x @ s @ t @ y" "int (length x) = p" by (auto simp: lies_at_def)
  then have "file = x @ s @ (t @ y)" "file = (x @ s) @ t @ y" "int (length (x @ s)) = p + int (length s)" by simp_all
  then show "lies_at file p s \<and> lies_at file (p + int (length s)) t" using \<open>int (length x) = p\<close> unfolding lies_at_def by blast
next
  assume "lies_at file p s \<and> lies_at file (p + int (length s)) t"
  then obtain x y x' y' where e: "file = x @ s @ y" "int (length x) = p" "file = x' @ t @ y'" "int (length x') = p + int (length s)"
    unfolding lies_at_def by blast
  then have "length x' = length (x @ s)" by simp
  with e(1,3) have "x' = x @ s" "t @ y' = y" by (metis append.assoc append_eq_append_conv)+
  with e have "file = x @ (s @ t) @ y' \<and> int (length x) = p" by simp
  then show "lies_at file p (s @ t)" unfolding lies_at_def by blast
qed

lemma lies_at_nth:
  assumes "lies_at file p (concat (map packed es))" "\<forall>e \<in> set es. packable e" "j < length es"
  shows "unpack2Ints (file_read 8 (p + 8 * int j) file) = Inr (es ! j)"
  using assms
proof (induction es arbitrary: p j)
  case (Cons e es)
  have e: "unpack2Ints (packed e) = Inr e" "length (packed e) = 8" using Cons.prems(2) packed_unpack by simp_all
  have l: "lies_at file p (packed e)" "lies_at file (p + 8) (concat (map packed es))"
    using Cons.prems(1) e(2) by (simp_all add: lies_at_append)
  show ?case
  proof (cases j)
    case 0
    with lies_at_read [OF l(1)] e show ?thesis by simp
  next
    case (Suc k)
    with Cons.IH [OF l(2)] Cons.prems show ?thesis by (simp add: algebra_simps)
  qed
qed simp

section \<open>Writing\<close>

text \<open>A file being written at its end; it starts at 2048, before anything is there.\<close>

definition at_end :: "bfile \<Rightarrow> string \<Rightarrow> bool" where
  "at_end fd c \<longleftrightarrow> fd = (c, length c) \<or> c = replicate 2048 CHR 0x00 \<and> fd = ([], 2048)"

lemma at_end_tell: "at_end fd c \<Longrightarrow> f_tell fd = int (length c)"
  by (auto simp: at_end_def f_tell_def)

lemma at_end_write: "at_end fd c \<Longrightarrow> at_end (f_write s fd) (c @ s)"
  by (cases "s = []") (auto simp: at_end_def f_write_def)

lemma write_ints_end:
  assumes "write_ints es fd = Inr fd'" "at_end fd c"
  shows "at_end fd' (c @ concat (map packed es)) \<and> (\<forall>e \<in> set es. packable e)"
  using assms
proof (induction es arbitrary: fd c)
  case (Cons e es)
  obtain i j where e: "e = (i, j)" by (cases e)
  with Cons.prems(1) have s: "packable (i, j)" "write_ints es (f_write (packed (i, j)) fd) = Inr fd'"
    by (auto simp: write_ints_def pack2Ints_packed)
  from Cons.IH [OF s(2) at_end_write [OF Cons.prems(2)]] s(1) e show ?case by simp
qed (simp add: write_ints_def)

lemma f_write_inside:
  "p \<le> length c \<Longrightarrow> s \<noteq> [] \<Longrightarrow> f_write s (c, p) = (take p c @ s @ drop (p + length s) c, p + length s)"
  by (simp add: f_write_def Let_def)

lemma write_ints_start:
  assumes "write_ints es (c, p) = Inr fd'" "p \<le> length c"
  shows "fst fd' = take p c @ concat (map packed es) @ drop (p + 8 * length es) c \<and> (\<forall>e \<in> set es. packable e)"
  using assms
proof (induction es arbitrary: c p)
  case (Cons e es)
  obtain i j where e: "e = (i, j)" by (cases e)
  with Cons.prems(1) have s: "packable (i, j)" "write_ints es (f_write (packed (i, j)) (c, p)) = Inr fd'"
    by (auto simp: write_ints_def pack2Ints_packed)
  have l: "length (packed (i, j)) = 8" using packed_unpack [OF s(1)] by simp
  have w: "f_write (packed (i, j)) (c, p) = (take p c @ packed (i, j) @ drop (p + 8) c, p + 8)"
    using Cons.prems(2) l by (subst f_write_inside) auto
  have "p + 8 \<le> length (take p c @ packed (i, j) @ drop (p + 8) c)" using Cons.prems(2) l by simp
  from Cons.IH [OF s(2) [unfolded w] this] s(1) e l Cons.prems(2) show ?case by (simp add: ac_simps)
qed (auto simp: write_ints_def)

section \<open>The records\<close>

fun entry_bytes :: "string \<times> string \<Rightarrow> string" where
  "entry_bytes (key, data) = packed (int (length key), int (length data)) @ key @ data"

fun entry_size :: "string \<times> string \<Rightarrow> int" where
  "entry_size (key, data) = 8 + int (length key) + int (length data)"

fun short :: "string \<times> string \<Rightarrow> bool" where
  "short (key, data) = packable (int (length key), int (length data))"

lemma length_entry: "short e \<Longrightarrow> int (length (entry_bytes e)) = entry_size e"
  by (cases e) (simp add: packed_unpack)

text \<open>The hash and the position of each record, from position \<open>p\<close> on.\<close>

fun positions :: "int \<Rightarrow> (string \<times> string) list \<Rightarrow> (int \<times> int) list" where
  "positions p [] = []"
| "positions p (e # kvs) = (cdb_hash (fst e), p) # positions (p + entry_size e) kvs"

definition in_bucket :: "nat \<Rightarrow> int \<times> int \<Rightarrow> bool" where
  "in_bucket i e \<longleftrightarrow> nat (fst e mod 256) = i"

lemma positions_ge: "(h, q) \<in> set (positions p kvs) \<Longrightarrow> p \<le> q"
proof (induction p kvs rule: positions.induct)
  case (2 p e kvs)
  have "0 \<le> entry_size e" by (cases e) simp
  with 2 show ?case by auto
qed simp

lemma Maker_add_Inr:
  "Maker_add key data mk = Inr mk' \<longleftrightarrow> short (key, data) \<and>
     mk' = mk\<lparr>mk_fd := f_write data (f_write key (f_write (packed (int (length key), int (length data))) (mk_fd mk))),
        mk_hashes := (mk_hashes mk)[nat (cdb_hash key mod 256) := mk_hashes mk ! nat (cdb_hash key mod 256) @ [(cdb_hash key, f_tell (mk_fd mk))]]\<rparr>"
  by (auto simp: Maker_add_def Let_def pack2Ints_packed)

lemma bucket_bound: "nat (h mod 256) < 256"
  using pos_mod_bound [of 256 h] by simp

lemma Maker_add_all_layout:
  assumes "Maker_add_all kvs mk = Inr mk'" "at_end (mk_fd mk) c" "length (mk_hashes mk) = 256"
  shows "at_end (mk_fd mk') (c @ concat (map entry_bytes kvs)) \<and> length (mk_hashes mk') = 256
    \<and> mk_hashPointers mk' = mk_hashPointers mk \<and> (\<forall>e \<in> set kvs. short e)
    \<and> (\<forall>i < 256. mk_hashes mk' ! i = mk_hashes mk ! i @ filter (in_bucket i) (positions (int (length c)) kvs))"
  using assms
proof (induction kvs arbitrary: mk c)
  case (Cons e kvs)
  obtain key data where e: "e = (key, data)" by (cases e)
  from Cons.prems(1) obtain mk1 where add: "Maker_add key data mk = Inr mk1" and rest: "Maker_add_all kvs mk1 = Inr mk'"
    by (auto simp: Maker_add_all_def e)
  note mk1 = add [unfolded Maker_add_Inr]
  have a: "at_end (mk_fd mk1) (c @ entry_bytes e)"
    using mk1 Cons.prems(2) by (simp add: e) (metis append.assoc at_end_write)
  have l: "length (mk_hashes mk1) = 256" using mk1 Cons.prems(3) by simp
  have "short e" using mk1 by (simp add: e)
  from length_entry [OF this] have n: "int (length (c @ entry_bytes e)) = int (length c) + entry_size e" by simp
  have "mk_hashes mk1 ! i = mk_hashes mk ! i @ filter (in_bucket i) [(cdb_hash (fst e), int (length c))]" if "i < 256" for i
    using mk1 at_end_tell [OF Cons.prems(2)] that bucket_bound [of "cdb_hash key"] Cons.prems(3)
    by (auto simp: in_bucket_def nth_list_update e)
  moreover have "mk_hashPointers mk1 = mk_hashPointers mk" using mk1 by simp
  ultimately show ?case using Cons.IH [OF rest a l] \<open>short e\<close> unfolding n by auto
qed (simp add: Maker_add_all_def)

section \<open>The file\<close>

definition table_bytes :: "(nat \<Rightarrow> (int \<times> int) list) \<Rightarrow> nat \<Rightarrow> string" where
  "table_bytes tbl n = concat (map (\<lambda>i. concat (map packed (tbl i))) [0..<n])"

lemma finish_buckets_layout:
  assumes "foldR finish_bucket [0..<n] mk = Inr mk'" "n \<le> 256" "at_end (mk_fd mk) c"
    and "length (mk_hashPointers mk) = 256" "\<forall>i < n. \<forall>e \<in> set (mk_hashes mk ! i). used e"
  shows "mk_hashes mk' = mk_hashes mk \<and> length (mk_hashPointers mk') = 256 \<and> (\<exists>tbl.
      at_end (mk_fd mk') (c @ table_bytes tbl n)
      \<and> (\<forall>i < n. mk_hashPointers mk' ! i = (int (length (c @ table_bytes tbl i)), 2 * int (length (mk_hashes mk ! i)))
           \<and> length (tbl i) = 2 * length (mk_hashes mk ! i) \<and> table_of (mk_hashes mk ! i) (tbl i) \<and> (\<forall>e \<in> set (tbl i). packable e)))"
  using assms
proof (induction n arbitrary: mk')
  case (Suc n)
  from Suc.prems(1) obtain mk1 where one: "foldR finish_bucket [0..<n] mk = Inr mk1" and last: "finish_bucket n mk1 = Inr mk'"
    by (auto simp: foldR_append)
  have "n \<le> 256" "\<forall>i < n. \<forall>e \<in> set (mk_hashes mk ! i). used e"
    using Suc.prems(2) by simp (use Suc.prems(5) less_SucI in blast)
  from Suc.IH [OF one this(1) Suc.prems(3,4) this(2)] obtain tbl where
    ih: "mk_hashes mk1 = mk_hashes mk" "length (mk_hashPointers mk1) = 256" "at_end (mk_fd mk1) (c @ table_bytes tbl n)"
      "\<And>i. i < n \<Longrightarrow> mk_hashPointers mk1 ! i = (int (length (c @ table_bytes tbl i)), 2 * int (length (mk_hashes mk ! i)))
         \<and> length (tbl i) = 2 * length (mk_hashes mk ! i) \<and> table_of (mk_hashes mk ! i) (tbl i) \<and> (\<forall>e \<in> set (tbl i). packable e)"
    by blast
  have "\<forall>e \<in> set (mk_hashes mk ! n). used e" using Suc.prems(5) by blast
  from hash_table_total [OF this] obtain a where
    a: "hash_table (mk_hashes mk ! n) = Inr a" "length a = 2 * length (mk_hashes mk ! n)" "table_of (mk_hashes mk ! n) a" by blast
  from last obtain fd where fd: "write_ints a (mk_fd mk1) = Inr fd"
    and mk': "mk' = mk1\<lparr>mk_fd := fd, mk_hashPointers := (mk_hashPointers mk1)[n := (f_tell (mk_fd mk1), 2 * int (length (mk_hashes mk ! n)))]\<rparr>"
    by (auto simp: finish_bucket_def Maker_serializeHash_def ih(1) a(1) mult.commute)
  note written = write_ints_end [OF fd ih(3)]
  let ?tbl = "tbl(n := a)"
  have same: "table_bytes ?tbl i = table_bytes tbl i" if "i \<le> n" for i
    using that unfolding table_bytes_def by (intro arg_cong [where f = concat] map_cong) auto
  have new: "table_bytes ?tbl (Suc n) = table_bytes tbl n @ concat (map packed a)"
    using same [of n] by (simp add: table_bytes_def)
  have "at_end (mk_fd mk') (c @ table_bytes ?tbl (Suc n))" using written unfolding new mk' by simp
  moreover have "mk_hashPointers mk' ! i = (int (length (c @ table_bytes ?tbl i)), 2 * int (length (mk_hashes mk ! i)))
      \<and> length (?tbl i) = 2 * length (mk_hashes mk ! i) \<and> table_of (mk_hashes mk ! i) (?tbl i) \<and> (\<forall>e \<in> set (?tbl i). packable e)"
    if "i < Suc n" for i
  proof (cases "i = n")
    case True
    then show ?thesis using a written at_end_tell [OF ih(3)] ih(2) Suc.prems(2) same [of n] by (simp add: mk')
  next
    case False
    with that have "i < n" by simp
    with ih(4) [OF this] same [of i] show ?thesis by (simp add: mk')
  qed
  ultimately show ?case using ih(1,2) mk' by auto
qed (auto simp: table_bytes_def)

text \<open>What a file made from \<open>kvs\<close> holds.\<close>

definition cdb_layout :: "string \<Rightarrow> (string \<times> string) list \<Rightarrow> (nat \<Rightarrow> int) \<Rightarrow> (nat \<Rightarrow> (int \<times> int) list) \<Rightarrow> bool" where
  "cdb_layout file kvs ptr tbl \<longleftrightarrow>
     (\<forall>e \<in> set kvs. short e) \<and> lies_at file 2048 (concat (map entry_bytes kvs))
     \<and> ptr 0 = 2048 + sum_list (map entry_size kvs) \<and> int (length file) = ptr 0 + 16 * int (length kvs)
     \<and> packable (ptr 0, int (length (tbl 0))) \<and> lies_at file 0 (packed (ptr 0, int (length (tbl 0))))
     \<and> (\<forall>i < 256. unpack2Ints (file_read 8 (8 * int i) file) = Inr (ptr i, int (length (tbl i)))
          \<and> lies_at file (ptr i) (concat (map packed (tbl i))) \<and> (\<forall>e \<in> set (tbl i). packable e)
          \<and> length (tbl i) = 2 * length (filter (in_bucket i) (positions 2048 kvs))
          \<and> table_of (filter (in_bucket i) (positions 2048 kvs)) (tbl i))"

lemma lies_at_mid: "lies_at (x @ s @ y) (int (length x)) s"
  by (auto simp: lies_at_def)

lemma length_entries: "\<forall>e \<in> set kvs. short e \<Longrightarrow> int (length (concat (map entry_bytes kvs))) = sum_list (map entry_size kvs)"
  by (induction kvs) (simp_all add: length_entry)

lemma length_table_bytes:
  assumes "\<And>i. i < n \<Longrightarrow> (\<forall>e \<in> set (tbl i). packable e) \<and> length (tbl i) = 2 * f i"
  shows "length (table_bytes tbl n) = 16 * sum f {..<n}"
  using assms
proof (induction n)
  case (Suc n)
  then have "\<forall>e \<in> set (tbl n). packable e" "length (tbl n) = 2 * f n" using Suc.prems [of n] by simp_all
  then have "length (concat (map packed (tbl n))) = 16 * f n" using length_packed_list [of "tbl n"] by simp
  moreover have "length (table_bytes tbl n) = 16 * sum f {..<n}" by (rule Suc.IH) (use Suc.prems less_SucI in blast)
  ultimately show ?case by (simp add: table_bytes_def)
qed (simp add: table_bytes_def)

lemma bucket_sizes: "(\<Sum>i < 256. length (filter (in_bucket i) es)) = length es"
proof (induction es)
  case (Cons e es)
  have "(\<Sum>i < 256. length (filter (in_bucket i) (e # es)))
      = (\<Sum>i < 256. (if i = nat (fst e mod 256) then 1 else 0) + length (filter (in_bucket i) es))"
    by (intro sum.cong) (auto simp: in_bucket_def)
  also have "\<dots> = Suc (length es)"
    using Cons bucket_bound [of "fst e"] by (simp add: sum.distrib)
  finally show ?case by simp
qed simp

lemma length_positions [simp]: "length (positions p kvs) = length kvs"
  by (induction p kvs rule: positions.induct) simp_all

lemma table_bytes_at:
  assumes "i < n"
  shows "\<exists>y. table_bytes tbl n = table_bytes tbl i @ concat (map packed (tbl i)) @ y"
proof -
  have "[0..<n] = [0..<i] @ i # [Suc i..<n]" 
    using assms upt_add_eq_append [of 0 i "n - i"] by (simp add: upt_conv_Cons)
  then show ?thesis by (simp add: table_bytes_def)
qed

lemma cdb_file_layout:
  assumes "cdb_file kvs = Inr file"
  shows "\<exists>ptr tbl. cdb_layout file kvs ptr tbl"
proof -
  let ?z = "replicate 2048 CHR 0x00" and ?R = "concat (map entry_bytes kvs)" and ?es = "positions 2048 kvs"
  obtain mk where add: "Maker_add_all kvs Maker_new = Inr mk" and fin: "Maker_finish mk = Inr file"
    using assms by (auto simp: cdb_file_def)
  have z: "at_end (mk_fd Maker_new) ?z" "length (mk_hashes Maker_new) = 256"
    by (simp_all add: Maker_new_def at_end_def f_seek_def)
  from Maker_add_all_layout [OF add z] have mk: "at_end (mk_fd mk) (?z @ ?R)" "length (mk_hashes mk) = 256"
      "length (mk_hashPointers mk) = 256" "\<forall>e \<in> set kvs. short e" "\<And>i. i < 256 \<Longrightarrow> mk_hashes mk ! i = filter (in_bucket i) ?es"
    by (simp_all add: Maker_new_def)
  from fin obtain mk' fd where buckets: "foldR finish_bucket [0..<256] mk = Inr mk'"
    and ptrs: "write_ints (mk_hashPointers mk') (fst (mk_fd mk'), 0) = Inr fd" and out: "file = fst fd"
    by (auto simp: Maker_finish_def Maker_serializeHashPointers_def f_seek_def)
  have "\<forall>i < 256. \<forall>e \<in> set (mk_hashes mk ! i). used e"
    using mk(5) positions_ge [of _ _ 2048 kvs] by fastforce
  from finish_buckets_layout [OF buckets order_refl mk(1,3) this] obtain tbl where
    mk': "length (mk_hashPointers mk') = 256" "at_end (mk_fd mk') ((?z @ ?R) @ table_bytes tbl 256)"
      "\<And>i. i < 256 \<Longrightarrow> mk_hashPointers mk' ! i = (int (length ((?z @ ?R) @ table_bytes tbl i)), 2 * int (length (filter (in_bucket i) ?es)))
         \<and> length (tbl i) = 2 * length (filter (in_bucket i) ?es) \<and> table_of (filter (in_bucket i) ?es) (tbl i) \<and> (\<forall>e \<in> set (tbl i). packable e)"
    using mk(5) by auto
  define P where "P = concat (map packed (mk_hashPointers mk'))"
  define ptr where "ptr i = int (length ((?z @ ?R) @ table_bytes tbl i))" for i
  have start: "fst fd = P @ drop 2048 (fst (mk_fd mk'))" "\<forall>e \<in> set (mk_hashPointers mk'). packable e"
    using write_ints_start [OF ptrs] mk'(1) by (simp_all add: P_def)
  have P: "length P = 2048" using length_packed_list [OF start(2)] mk'(1) by (simp add: P_def)
  have body: "drop 2048 (fst (mk_fd mk')) = ?R @ table_bytes tbl 256"
    using mk'(2) by (auto simp: at_end_def)
  have f: "file = P @ ?R @ table_bytes tbl 256" using out start(1) body by simp
  have ptr: "mk_hashPointers mk' ! i = (ptr i, int (length (tbl i)))" if "i < 256" for i
    using mk'(3) [OF that] by (simp add: ptr_def)
  have Pfile: "lies_at file 0 P" using lies_at_mid [of "[]" P] by (simp add: f)
  have R: "int (length ?R) = sum_list (map entry_size kvs)" by (rule length_entries [OF mk(4)])
  have "lies_at file 2048 ?R" using lies_at_mid [of P ?R] P by (simp add: f)
  moreover have p0: "ptr 0 = 2048 + sum_list (map entry_size kvs)" using R by (simp add: ptr_def table_bytes_def)
  moreover have "int (length file) = ptr 0 + 16 * int (length kvs)"
  proof -
    have "length (table_bytes tbl 256) = 16 * (\<Sum>i < 256. length (filter (in_bucket i) ?es))"
      by (rule length_table_bytes) (use mk'(3) in auto)
    then show ?thesis using P R p0 bucket_sizes [of ?es] by (simp add: f)
  qed
  moreover have "packable (ptr 0, int (length (tbl 0)))" "lies_at file 0 (packed (ptr 0, int (length (tbl 0))))"
  proof -
    obtain rest where "mk_hashPointers mk' = (ptr 0, int (length (tbl 0))) # rest"
      using ptr [of 0] mk'(1) by (cases "mk_hashPointers mk'") auto
    then show "packable (ptr 0, int (length (tbl 0)))" "lies_at file 0 (packed (ptr 0, int (length (tbl 0))))"
      using start(2) Pfile by (simp_all add: P_def lies_at_append)
  qed
  moreover have "unpack2Ints (file_read 8 (8 * int i) file) = Inr (ptr i, int (length (tbl i)))" if "i < 256" for i
    using lies_at_nth [OF Pfile [unfolded P_def] start(2), of i] that mk'(1) ptr by simp
  moreover have "lies_at file (ptr i) (concat (map packed (tbl i)))" if "i < 256" for i
  proof -
    obtain y where "table_bytes tbl 256 = table_bytes tbl i @ concat (map packed (tbl i)) @ y"
      using table_bytes_at [of i 256 tbl] \<open>i < 256\<close> by blast
    then have "file = (P @ ?R @ table_bytes tbl i) @ concat (map packed (tbl i)) @ y" by (simp add: f)
    moreover have "int (length (P @ ?R @ table_bytes tbl i)) = ptr i" using P by (simp add: ptr_def)
    ultimately show ?thesis unfolding lies_at_def by blast
  qed
  ultimately have "cdb_layout file kvs ptr tbl" using mk(4) mk'(3) by (simp add: cdb_layout_def)
  then show ?thesis by blast
qed

end
