(* ===== verification/CdbReader.thy ===== *)
theory CdbReader
  imports CdbLayout
begin

text \<open>Reading a file with the layout of \<open>Maker\<close>: searches, iteration and size.\<close>

section \<open>Records\<close>

definition rec_at :: "string \<Rightarrow> int \<Rightarrow> string \<times> string" where
  "rec_at file p = (case unpack2Ints (file_read 8 p file) of
     Inl _ \<Rightarrow> ([], []) | Inr (u, dlen) \<Rightarrow> (file_read u (p + 8) file, file_read dlen (p + 8 + u) file))"

definition rec_ok :: "string \<Rightarrow> int \<Rightarrow> bool" where
  "rec_ok file p \<longleftrightarrow> unpack2Ints (file_read 8 p file) = Inr (int (length (fst (rec_at file p))), int (length (snd (rec_at file p))))"

lemma rec_at_entry:
  assumes "lies_at file p (entry_bytes e)" "short e"
  shows "rec_at file p = e" "rec_ok file p"
proof -
  obtain k d where e: "e = (k, d)" by (cases e)
  have u: "unpack2Ints (packed (int (length k), int (length d))) = Inr (int (length k), int (length d))"
    "length (packed (int (length k), int (length d))) = 8"
    using packed_unpack assms(2) e by simp_all
  have l: "lies_at file p (packed (int (length k), int (length d)))" "lies_at file (p + 8) k" "lies_at file (p + 8 + int (length k)) d"
    using assms(1) u(2) by (simp_all add: e lies_at_append)
  show "rec_at file p = e" using lies_at_read [OF l(1)] lies_at_read [OF l(2)] lies_at_read [OF l(3)] u by (simp add: rec_at_def e)
  then show "rec_ok file p" using lies_at_read [OF l(1)] u by (simp add: rec_ok_def e)
qed

lemma records_read:
  assumes "lies_at file p (concat (map entry_bytes kvs))" "\<forall>e \<in> set kvs. short e"
  shows "map (\<lambda>e. rec_at file (snd e)) (positions p kvs) = kvs
    \<and> (\<forall>e \<in> set (positions p kvs). rec_ok file (snd e) \<and> fst e = cdb_hash (fst (rec_at file (snd e))))"
  using assms
proof (induction p kvs rule: positions.induct)
  case (2 p e kvs)
  have s: "short e" "\<forall>e \<in> set kvs. short e" using "2.prems"(2) by simp_all
  have "lies_at file p (entry_bytes e)" "lies_at file (p + entry_size e) (concat (map entry_bytes kvs))"
    using "2.prems"(1) length_entry [OF s(1)] by (simp_all add: lies_at_append)
  note here = rec_at_entry [OF this(1) s(1)] and rest = "2.IH" [OF this(2) s(2)]
  show ?case using here rest by simp
qed simp_all

section \<open>Searching\<close>

definition hits :: "string \<Rightarrow> string \<Rightarrow> int \<Rightarrow> (int \<times> int) list \<Rightarrow> (int \<times> int) list" where
  "hits file key h es = filter (\<lambda>e. fst e = h \<and> fst (rec_at file (snd e)) = key) (takeWhile used es)"

text \<open>The reader in the middle of a search for \<open>h\<close> in the table \<open>a\<close> at \<open>pos\<close>: \<open>l\<close> slots were looked at.\<close>

definition searching :: "string \<Rightarrow> int \<Rightarrow> (int \<times> int) list \<Rightarrow> int \<Rightarrow> nat \<Rightarrow> Reader \<Rightarrow> bool" where
  "searching file pos a h l rd \<longleftrightarrow>
     rd_file rd = file \<and> rd_hpos rd = pos \<and> rd_hslots rd = int (length a) \<and> rd_loop rd = int l \<and> rd_khash rd = h
     \<and> rd_kpos rd = pos + 8 * int ((start_slot h a + l) mod length a)"

lemma searching_next:
  assumes "searching file pos a h l rd" "l < length a"
  shows "searching file pos a h (Suc l) (next_slot rd)" "searching file pos a h (Suc l) ((next_slot rd)\<lparr>rd_dlen := x\<rparr>)"
    "searching file pos a h (Suc l) ((next_slot rd)\<lparr>rd_dlen := x, rd_dpos := y\<rparr>)"
proof -
  let ?m = "(start_slot h a + l) mod length a"
  have "(start_slot h a + Suc l) mod length a = (if Suc ?m = length a then 0 else Suc ?m)"
    by (simp add: mod_Suc)
  moreover have "?m < length a" by (rule mod_less_divisor) (use assms(2) in linarith)
  ultimately show "searching file pos a h (Suc l) (next_slot rd)" "searching file pos a h (Suc l) ((next_slot rd)\<lparr>rd_dlen := x\<rparr>)"
    "searching file pos a h (Suc l) ((next_slot rd)\<lparr>rd_dlen := x, rd_dpos := y\<rparr>)"
    using assms(1) by (auto simp: searching_def next_slot_def Let_def)
qed

definition good_table :: "string \<Rightarrow> int \<Rightarrow> (int \<times> int) list \<Rightarrow> bool" where
  "good_table file pos a \<longleftrightarrow> lies_at file pos (concat (map packed a)) \<and> (\<forall>e \<in> set a. packable e)
     \<and> (\<forall>e \<in> set a. used e \<longrightarrow> snd e \<noteq> 0 \<and> rec_ok file (snd e))"

lemma findnext_search:
  assumes a: "good_table file pos a" and s: "searching file pos a h l rd" "l \<le> length a"
  shows "case hits file key h (drop l (search_order h a)) of
      [] \<Rightarrow> \<exists>rd'. findnext_loop key rd = (Inr False, rd') \<and> rd_file rd' = file
    | e # es \<Rightarrow> \<exists>rd' l'. findnext_loop key rd = (Inr True, rd') \<and> searching file pos a h l' rd' \<and> l < l' \<and> l' \<le> length a
        \<and> es = hits file key h (drop l' (search_order h a))
        \<and> Reader_getCurrentData rd' = (Inr (snd (rec_at file (snd e))), rd')"
  using s
proof (induction "length a - l" arbitrary: l rd)
  case 0
  then have "drop l (search_order h a) = []" "\<not> rd_loop rd < rd_hslots rd" by (simp_all add: search_order_def searching_def)
  with "0.prems" show ?case by (simp add: hits_def findnext_loop.simps [of key rd] searching_def)
next
  case (Suc k)
  then have l: "l < length a" by simp
  let ?j = "(start_slot h a + l) mod length a"
  have j: "?j < length a" by (rule mod_less_divisor) (use l in linarith)
  obtain h' p where e: "a ! ?j = (h', p)" by (cases "a ! ?j")
  have order: "drop l (search_order h a) = (h', p) # drop (Suc l) (search_order h a)"
    using l e by (simp add: search_order_def Cons_nth_drop_Suc [symmetric] nth_rotate)
  have read: "unpack2Ints (file_read 8 (rd_kpos rd) (rd_file rd)) = Inr (h', p)"
    using lies_at_nth [where p = pos and es = a and j = ?j] a j e Suc.prems(1) by (simp add: good_table_def searching_def)
  have loop: "rd_loop rd < rd_hslots rd" "rd_file rd = file" "rd_khash rd = h" using Suc.prems(1) l by (simp_all add: searching_def)
  have mem: "(h', p) \<in> set a" using e j by (metis nth_mem)
  note step = findnext_loop.simps [of key rd] and after = searching_next [OF Suc.prems(1) l]
  show ?case
  proof (cases "p = 0")
    case True
    with a mem have "\<not> used (h', p)" by (auto simp: good_table_def)
    with True show ?thesis using loop read by (simp add: step order hits_def)
  next
    case False
    then have rest: "takeWhile used (drop l (search_order h a)) = (h', p) # takeWhile used (drop (Suc l) (search_order h a))"
      by (simp add: order)
    have ok: "rec_ok file p" using a mem False by (auto simp: good_table_def)
    let ?k = "fst (rec_at file p)" and ?d = "snd (rec_at file p)"
    have u: "unpack2Ints (file_read 8 p file) = Inr (int (length ?k), int (length ?d))" using ok by (simp add: rec_ok_def)
    have kd: "file_read (int (length ?k)) (p + 8) file = ?k" "file_read (int (length ?d)) (p + 8 + int (length ?k)) file = ?d"
      using u by (simp_all add: rec_at_def split: sum.splits prod.splits)
    have go_on: ?thesis if "findnext_loop key rd = findnext_loop key rd1" "searching file pos a h (Suc l) rd1"
        "hits file key h (drop l (search_order h a)) = hits file key h (drop (Suc l) (search_order h a))" for rd1
    proof -
      have "k = length a - Suc l" "Suc l \<le> length a" using Suc.hyps(2) l by simp_all
      from Suc.hyps(1) [OF this(1) that(2) this(2)] show ?thesis unfolding that
        by (auto split: list.splits) (metis Suc_lessD)
    qed
    show ?thesis
    proof (cases "h' = h \<and> ?k = key")
      case True
      then have "Reader_match key (p + 8) rd" using kd(1) loop(2) by (simp add: Reader_match_def)
      then have found: "findnext_loop key rd = (Inr True, (next_slot rd)\<lparr>rd_dlen := int (length ?d), rd_dpos := p + 8 + int (length ?k)\<rparr>)"
        using True False loop read u by (simp add: step)
      have "hits file key h (drop l (search_order h a)) = (h', p) # hits file key h (drop (Suc l) (search_order h a))"
        using True by (simp add: hits_def rest)
      moreover have "Reader_getCurrentData ((next_slot rd)\<lparr>rd_dlen := int (length ?d), rd_dpos := p + 8 + int (length ?k)\<rparr>)
          = (Inr ?d, (next_slot rd)\<lparr>rd_dlen := int (length ?d), rd_dpos := p + 8 + int (length ?k)\<rparr>)"
        using kd(2) loop(2) by (simp add: Reader_getCurrentData_def getA_def next_slot_def Let_def)
      moreover have "l < Suc l" "Suc l \<le> length a" using l by simp_all
      ultimately show ?thesis using found after(3) by simp blast
    next
      case miss: False
      then have h: "hits file key h (drop l (search_order h a)) = hits file key h (drop (Suc l) (search_order h a))"
        by (auto simp: hits_def rest)
      show ?thesis
      proof (cases "h' = h")
        case True
        have "\<not> (int (length ?k) = int (length key) \<and> Reader_match key (p + 8) rd)"
          using True miss kd(1) loop(2) by (auto simp: Reader_match_def)
        then have "findnext_loop key rd = findnext_loop key ((next_slot rd)\<lparr>rd_dlen := int (length ?d)\<rparr>)"
          using True False loop read u by (subst step) auto
        then show ?thesis by (rule go_on [OF _ after(2) h])
      next
        case other: False
        then have "findnext_loop key rd = findnext_loop key (next_slot rd)"
          using False loop read by (subst step) auto
        then show ?thesis by (rule go_on [OF _ after(1) h])
      qed
    qed
  qed
qed

section \<open>The database as a list of pairs\<close>

definition values_of :: "string \<Rightarrow> (string \<times> string) list \<Rightarrow> string list" where
  "values_of key kvs = map snd (filter (\<lambda>(k, _). k = key) kvs)"

lemma map_of_values: "map_of kvs key = (case values_of key kvs of [] \<Rightarrow> None | v # _ \<Rightarrow> Some v)"
  by (induction kvs) (auto simp: values_of_def split: list.split)

lemma cdb_hash_nonneg: "0 \<le> cdb_hash s"
proof -
  have "0 \<le> foldl (\<lambda>h c. ((h + push_bit 5 h) XOR int (ord c)) AND 0xFFFFFFFF) h s" if "0 \<le> h" for h
    using that by (induction s arbitrary: h) simp_all
  then show ?thesis by (simp add: cdb_hash_def)
qed

lemma bucket_position:
  assumes "0 \<le> h"
  shows "(h * 8) AND 2047 = 8 * int (nat (h mod 256))"
proof -
  have "(h * 8) AND 2047 = (h * 8) AND mask 11" by (simp add: mask_eq_exp_minus_1)
  also have "\<dots> = (h * 8) mod (256 * 8)" by (simp add: take_bit_eq_mask [symmetric] take_bit_eq_mod)
  also have "\<dots> = 8 * (h mod 256)" unfolding mod_mult_mult2 by simp
  finally show ?thesis by simp
qed

lemma layout_table:
  assumes l: "cdb_layout file kvs ptr tbl" and i: "i < 256"
  shows "good_table file (ptr i) (tbl i)"
    and "map (\<lambda>e. snd (rec_at file (snd e))) (hits file key (cdb_hash key) (search_order (cdb_hash key) (tbl (nat (cdb_hash key mod 256)))))
      = values_of key kvs"
proof -
  let ?es = "positions 2048 kvs" and ?h = "cdb_hash key"
  note all = l [unfolded cdb_layout_def]
  have "lies_at file 2048 (concat (map entry_bytes kvs))" "\<forall>e \<in> set kvs. short e" using all by blast+
  note r = records_read [OF this]
  have t: "table_of (filter (in_bucket i) ?es) (tbl i)" if "i < 256" for i using all that by blast
  have "snd e \<noteq> 0 \<and> rec_ok file (snd e)" if "e \<in> set (tbl i)" "used e" for e
  proof -
    have "e \<in> set (filter used (tbl i))" using that by simp
    then have "e \<in> set ?es" using t [OF i] by (auto simp: table_of_def)
    moreover from this have "2048 \<le> snd e" using positions_ge [of "fst e" "snd e" 2048 kvs] by simp
    ultimately show ?thesis using r by auto
  qed
  then show "good_table file (ptr i) (tbl i)" using all i by (auto simp: good_table_def)
  let ?i = "nat (?h mod 256)"
  have "with_hash ?h (reached ?h (tbl ?i)) = with_hash ?h (filter (in_bucket ?i) ?es)"
    using t [OF bucket_bound] by (simp add: table_of_def)
  also have "\<dots> = with_hash ?h ?es" by (auto simp: with_hash_def in_bucket_def intro: filter_cong)
  finally have same: "with_hash ?h (reached ?h (tbl ?i)) = with_hash ?h ?es" .
  have "hits file key ?h (search_order ?h (tbl ?i)) = filter (\<lambda>e. fst (rec_at file (snd e)) = key) (with_hash ?h (reached ?h (tbl ?i)))"
    by (simp add: hits_def reached_def with_hash_def)
  also have "\<dots> = filter (\<lambda>e. fst (rec_at file (snd e)) = key) (with_hash ?h ?es)" unfolding same ..
  also have "\<dots> = filter (\<lambda>e. fst (rec_at file (snd e)) = key) ?es"
    using r by (auto simp: with_hash_def intro!: filter_cong)
  finally have "map (\<lambda>e. rec_at file (snd e)) (hits file key ?h (search_order ?h (tbl ?i))) = filter (\<lambda>(k, _). k = key) (map (\<lambda>e. rec_at file (snd e)) ?es)"
    by (simp add: filter_map comp_def case_prod_unfold)
  then have "map snd (map (\<lambda>e. rec_at file (snd e)) (hits file key ?h (search_order ?h (tbl ?i)))) = values_of key kvs"
    using r by (simp add: values_of_def)
  then show "map (\<lambda>e. snd (rec_at file (snd e))) (hits file key ?h (search_order ?h (tbl ?i))) = values_of key kvs"
    by (simp add: comp_def)
qed

text \<open>The first round of a search.\<close>

lemma findnext_first:
  fixes key :: string
  defines "i \<equiv> nat (cdb_hash key mod 256)"
  assumes l: "cdb_layout file kvs ptr tbl" and rd: "rd_file rd = file" "rd_loop rd = 0"
  shows "case values_of key kvs of
      [] \<Rightarrow> \<exists>rd'. Reader_findnext key rd = (Inr False, rd') \<and> rd_file rd' = file
    | v # vs \<Rightarrow> \<exists>rd' n. Reader_findnext key rd = (Inr True, rd') \<and> searching file (ptr i) (tbl i) (cdb_hash key) n rd' \<and> 0 < n
        \<and> n \<le> length (tbl i)
        \<and> vs = map (\<lambda>e. snd (rec_at file (snd e))) (hits file key (cdb_hash key) (drop n (search_order (cdb_hash key) (tbl i))))
        \<and> Reader_getCurrentData rd' = (Inr v, rd')"
proof -
  let ?h = "cdb_hash key" and ?a = "tbl i" and ?pos = "ptr i"
  have i: "i < 256" unfolding i_def by (rule bucket_bound)
  have p: "unpack2Ints (file_read 8 ((?h * 8) AND 2047) file) = Inr (?pos, int (length ?a))"
    unfolding bucket_position [OF cdb_hash_nonneg] using l i unfolding cdb_layout_def i_def by blast
  note vals = layout_table(2) [OF l i, of key, folded i_def]
  show ?thesis
  proof (cases "?a = []")
    case True
    then have "values_of key kvs = []" using vals by (simp add: search_order_def hits_def)
    then show ?thesis using True p rd by (simp add: Reader_findnext_def findnext_start_def act_defs)
  next
    case False
    let ?rd = "rd\<lparr>rd_khash := ?h, rd_hpos := ?pos, rd_hslots := int (length ?a), rd_kpos := ?pos + ((?h div 256) mod int (length ?a)) * 8\<rparr>"
    have "int (start_slot ?h ?a mod length ?a) = (?h div 256) mod int (length ?a)"
      using cdb_hash_nonneg [of key] by (simp add: start_slot_def of_nat_mod)
    then have s: "searching file ?pos ?a ?h 0 ?rd" using rd by (simp add: searching_def)
    have go: "Reader_findnext key rd = findnext_loop key ?rd"
      using False p rd by (simp add: Reader_findnext_def findnext_start_def act_defs)
    from findnext_search [OF layout_table(1) [OF l i] s, of key] show ?thesis
      unfolding go vals [symmetric] by (auto split: list.splits)
  qed
qed

section \<open>Lookups, iteration and size\<close>

lemma Reader_lookup:
  assumes l: "cdb_layout file kvs ptr tbl" and rd: "rd_file rd = file"
  shows "\<exists>rd'. Reader_contains key 0 rd = (Inr (map_of kvs key \<noteq> None), rd') \<and> rd_file rd' = file"
    and "\<exists>rd'. Reader_find key 0 rd = (case map_of kvs key of None \<Rightarrow> Inl KeyError | Some v \<Rightarrow> Inr v, rd') \<and> rd_file rd' = file"
proof -
  have start: "Reader_contains key 0 rd = Reader_findnext key (rd\<lparr>rd_loop := 0\<rparr>)"
    by (simp add: Reader_contains_def act_defs)
  note first = findnext_first [OF l, of "rd\<lparr>rd_loop := 0\<rparr>" key, simplified, OF rd, folded start]
  have step: "Reader_find key 0 rd = (case Reader_contains key 0 rd of (Inl e, rd') \<Rightarrow> (Inl e, rd')
      | (Inr found, rd') \<Rightarrow> if found then Reader_getCurrentData rd' else (Inl KeyError, rd'))"
    by (simp add: Reader_find_def act_defs split: prod.split sum.split)
  have same: "searching file p a h n rd' \<Longrightarrow> rd_file rd' = file" for p a h n rd' by (simp add: searching_def)
  show "\<exists>rd'. Reader_contains key 0 rd = (Inr (map_of kvs key \<noteq> None), rd') \<and> rd_file rd' = file"
    using first same unfolding map_of_values by (cases "values_of key kvs") auto
  show "\<exists>rd'. Reader_find key 0 rd = (case map_of kvs key of None \<Rightarrow> Inl KeyError | Some v \<Rightarrow> Inr v, rd') \<and> rd_file rd' = file"
    using first same unfolding map_of_values step by (cases "values_of key kvs") auto
qed

lemma findall_rest:
  assumes a: "good_table file pos a" and s: "searching file pos a h l rd" "l \<le> length a"
  shows "fst (findall_more key rd) = Inr (map (\<lambda>e. snd (rec_at file (snd e))) (hits file key h (drop l (search_order h a))))"
  using s
proof (induction "length a - l" arbitrary: l rd rule: less_induct)
  case less
  note step = findall_more.simps [of key rd] and search = findnext_search [OF a less.prems, of key]
  show ?case
  proof (cases "hits file key h (drop l (search_order h a))")
    case Nil
    with search show ?thesis by (auto simp: step)
  next
    case (Cons e es)
    with search obtain rd' l' where found: "findnext_loop key rd = (Inr True, rd')" "searching file pos a h l' rd'" "l < l'"
        "l' \<le> length a" "es = hits file key h (drop l' (search_order h a))" "Reader_getCurrentData rd' = (Inr (snd (rec_at file (snd e))), rd')"
      by auto
    have "length a - l' < length a - l" using found(3,4) by simp
    from less.hyps [OF this found(2,4)] have rest: "fst (findall_more key rd') = Inr (map (\<lambda>e. snd (rec_at file (snd e))) es)"
      by (simp add: found(5))
    show ?thesis using rest found(1,6) Cons by (cases "findall_more key rd'") (simp add: step)
  qed
qed

lemma Reader_findall_fresh:
  assumes l: "cdb_layout file kvs ptr tbl" and rd: "rd_file rd = file" "rd_loop rd = 0"
  shows "fst (Reader_findall key rd) = Inr (values_of key kvs)"
proof (cases "values_of key kvs")
  case Nil
  with findnext_first [OF l rd, of key] show ?thesis by (auto simp: Reader_findall_def act_defs)
next
  case (Cons v vs)
  let ?i = "nat (cdb_hash key mod 256)"
  have i: "?i < 256" by (rule bucket_bound)
  from Cons findnext_first [OF l rd, of key] obtain rd' n where
    found: "Reader_findnext key rd = (Inr True, rd')" "Reader_getCurrentData rd' = (Inr v, rd')"
    and s: "searching file (ptr ?i) (tbl ?i) (cdb_hash key) n rd'" "n \<le> length (tbl ?i)"
    and vs: "vs = map (\<lambda>e. snd (rec_at file (snd e))) (hits file key (cdb_hash key) (drop n (search_order (cdb_hash key) (tbl ?i))))"
    by auto
  from findall_rest [OF layout_table(1) [OF l i] s, of key] have "fst (findall_more key rd') = Inr vs"
    unfolding vs .
  then show ?thesis using found Cons by (cases "findall_more key rd'") (simp add: Reader_findall_def act_defs)
qed

lemma items_loop_records:
  assumes "lies_at (rd_file rd) p (concat (map entry_bytes kvs))" "\<forall>e \<in> set kvs. short e"
    and "rd_hslots rd = p" "rd_loop rd = p + sum_list (map entry_size kvs)"
  shows "\<exists>rd'. items_loop rd = (Inr kvs, rd') \<and> rd_file rd' = rd_file rd"
  using assms
proof (induction kvs arbitrary: p rd)
  case Nil
  then show ?case by (subst items_loop.simps) simp
next
  case (Cons e kvs)
  obtain k d where e: "e = (k, d)" by (cases e)
  have s: "short e" "\<forall>e \<in> set kvs. short e" using Cons.prems(2) by simp_all
  have here: "lies_at (rd_file rd) p (entry_bytes e)" and rest: "lies_at (rd_file rd) (p + entry_size e) (concat (map entry_bytes kvs))"
    using Cons.prems(1) length_entry [OF s(1)] by (simp_all add: lies_at_append)
  from rec_at_entry [OF here s(1)] have u: "unpack2Ints (file_read 8 p (rd_file rd)) = Inr (int (length k), int (length d))"
    "file_read (int (length k)) (p + 8) (rd_file rd) = k" "file_read (int (length d)) (p + 8 + int (length k)) (rd_file rd) = d"
    by (auto simp: rec_ok_def rec_at_def e)
  have "0 \<le> sum_list (map entry_size kvs)" by (rule sum_list_nonneg) auto
  then have go: "rd_hslots rd < rd_loop rd" using Cons.prems(3,4) by (simp add: e)
  let ?rd = "rd\<lparr>rd_hslots := p + 8 + int (length k) + int (length d)\<rparr>"
  have "rd_hslots ?rd = p + entry_size e" "rd_loop ?rd = p + entry_size e + sum_list (map entry_size kvs)" 
    "lies_at (rd_file ?rd) (p + entry_size e) (concat (map entry_bytes kvs))"
    using Cons.prems(4) rest by (simp_all add: e)
  from Cons.IH [OF this(3) s(2) this(1,2)] obtain rd' where "items_loop ?rd = (Inr kvs, rd')" "rd_file rd' = rd_file rd"
    by auto
  then show ?case using go u Cons.prems(3) by (subst items_loop.simps) (simp add: Let_def e ac_simps)
qed

lemma pointer_word:
  assumes l: "cdb_layout file kvs ptr tbl"
  shows "unpack_i (file_read 4 0 file) = Inr (if ptr 0 < 2 ^ 31 then ptr 0 else ptr 0 - 2 ^ 32)"
proof -
  let ?e = "(ptr 0, int (length (tbl 0)))"
  have e: "packable ?e" "lies_at file 0 (packed ?e)" using l unfolding cdb_layout_def by blast+
  obtain a b where ab: "pack_L (ptr 0) = Inr a" "packed ?e = a @ b"
    using e(1) unfolding packable_def packed_def pack2Ints_def
    by (cases "pack_L (ptr 0)"; cases "pack_L (int (length (tbl 0)))") auto
  from pack_unpack_L [OF ab(1)] have a: "unpack_L a = Inr (ptr 0)" "length a = 4" by simp_all
  have "lies_at file 0 a" using e(2) by (simp add: ab(2) lies_at_append)
  from lies_at_read [OF this] have "file_read 4 0 file = a" using a(2) by simp
  then show ?thesis using a(1) by (simp add: unpack_i_def)
qed

lemma Reader_items_records:
  assumes l: "cdb_layout file kvs ptr tbl" and small: "ptr 0 < 2 ^ 31" and rd: "rd_file rd = file"
  shows "\<exists>rd'. Reader_items rd = (Inr kvs, rd') \<and> rd_file rd' = file \<and> rd_loop rd' = 0"
proof -
  have r: "\<forall>e \<in> set kvs. short e" "lies_at file 2048 (concat (map entry_bytes kvs))" "ptr 0 = 2048 + sum_list (map entry_size kvs)"
    using l unfolding cdb_layout_def by blast+
  let ?rd = "rd\<lparr>rd_loop := ptr 0, rd_hslots := 2048\<rparr>"
  from items_loop_records [of ?rd 2048 kvs] r rd obtain rd' where "items_loop ?rd = (Inr kvs, rd')" "rd_file rd' = file" by auto
  then show ?thesis using pointer_word [OF l] small rd by (simp add: Reader_items_def act_defs)
qed

lemma Reader_len_records:
  assumes l: "cdb_layout file kvs ptr tbl" and small: "ptr 0 < 2 ^ 31" and rd: "rd_file rd = file"
  shows "Reader_len rd = Inr (int (length kvs))"
proof -
  have "int (length file) = ptr 0 + 16 * int (length kvs)" using l unfolding cdb_layout_def by blast
  then show ?thesis using pointer_word [OF l] small rd by (simp add: Reader_len_def)
qed

end
