(* ===== verification/CdbTotal.thy ===== *)
theory CdbTotal
  imports CdbReader
begin

text \<open>
  \<open>Maker\<close> ends and raises nothing for records that leave the file shorter than 4 GB: every pointer and every
  length fits its word, and every table has free slots left.
\<close>

lemma cdb_hash_bound: "cdb_hash s < 2 ^ 32"
proof -
  have "x AND 0xFFFFFFFF < 2 ^ 32" for x :: int
  proof -
    have "x AND 0xFFFFFFFF = x AND mask 32" by (simp add: mask_eq_exp_minus_1)
    then show ?thesis by (simp add: take_bit_eq_mask [symmetric] take_bit_eq_mod)
  qed
  then show ?thesis by (cases s rule: rev_cases) (simp_all add: cdb_hash_def)
qed

lemma packable_iff: "packable (i, j) \<longleftrightarrow> 0 \<le> i \<and> i < 2 ^ 32 \<and> 0 \<le> j \<and> j < 2 ^ 32"
  by (auto simp: packable_def pack2Ints_def pack_L_def)

lemma write_ints_total: "\<forall>e \<in> set es. packable e \<Longrightarrow> \<exists>fd'. write_ints es fd = Inr fd'"
proof (induction es arbitrary: fd)
  case (Cons e es)
  obtain i j where e: "e = (i, j)" by (cases e)
  then have "pack2Ints i j = Inr (packed (i, j))" using Cons.prems by (simp add: pack2Ints_packed)
  then show ?case using Cons e by (simp add: write_ints_def)
qed (simp add: write_ints_def)

lemma Maker_add_all_total: "\<forall>e \<in> set kvs. short e \<Longrightarrow> \<exists>mk'. Maker_add_all kvs mk = Inr mk'"
proof (induction kvs arbitrary: mk)
  case (Cons e kvs)
  obtain k d where e: "e = (k, d)" by (cases e)
  obtain mk1 where "Maker_add k d mk = Inr mk1" using Cons.prems e by (simp add: Maker_add_Inr)
  then show ?case using Cons by (simp add: Maker_add_all_def e)
qed (simp add: Maker_add_all_def)

lemma finish_bucket_total:
  assumes "\<forall>e \<in> set (mk_hashes mk ! i). used e \<and> packable e"
  shows "\<exists>mk'. finish_bucket i mk = Inr mk' \<and> mk_hashes mk' = mk_hashes mk"
proof -
  have "\<forall>e \<in> set (mk_hashes mk ! i). used e" using assms by blast
  from hash_table_total [OF this] obtain a where a: "hash_table (mk_hashes mk ! i) = Inr a" "table_of (mk_hashes mk ! i) a" by blast
  have "packable e" if "e \<in> set a" for e
  proof (cases "used e")
    case True
    with that have "e \<in> set (filter used a)" by simp
    also have "\<dots> = set (mk_hashes mk ! i)" using a(2) unfolding table_of_def by blast
    finally have "e \<in> set (mk_hashes mk ! i)" .
    with assms show ?thesis by blast
  qed (simp add: packable_iff)
  then obtain fd where "write_ints a (mk_fd mk) = Inr fd" using write_ints_total by blast
  then show ?thesis using a(1) by (simp add: finish_bucket_def Maker_serializeHash_def)
qed

lemma finish_buckets_total:
  assumes "\<forall>i < n. \<forall>e \<in> set (mk_hashes mk ! i). used e \<and> packable e"
  shows "\<exists>mk'. foldR finish_bucket [0..<n] mk = Inr mk' \<and> mk_hashes mk' = mk_hashes mk"
  using assms
proof (induction n)
  case (Suc n)
  have "\<forall>i < n. \<forall>e \<in> set (mk_hashes mk ! i). used e \<and> packable e" using Suc.prems less_SucI by blast
  from Suc.IH [OF this] obtain mk1 where mk1: "foldR finish_bucket [0..<n] mk = Inr mk1" "mk_hashes mk1 = mk_hashes mk" by blast
  have "\<forall>e \<in> set (mk_hashes mk1 ! n). used e \<and> packable e" using Suc.prems mk1(2) lessI by metis
  from finish_bucket_total [OF this] mk1 show ?case by (auto simp: foldR_append)
qed simp

lemma positions_bounds:
  "(h, q) \<in> set (positions p kvs) \<Longrightarrow> q < p + sum_list (map entry_size kvs) \<and> h < 2 ^ 32 \<and> 0 \<le> h"
proof (induction p kvs rule: positions.induct)
  case (2 p e kvs)
  have "0 < entry_size e" by (cases e) simp
  moreover have "0 \<le> sum_list (map entry_size kvs)" by (rule sum_list_nonneg) auto
  ultimately show ?case using 2 cdb_hash_bound [of "fst e"] cdb_hash_nonneg [of "fst e"] by auto
qed simp

lemma entry_size_le: "e \<in> set kvs \<Longrightarrow> entry_size e \<le> sum_list (map entry_size kvs)"
  by (rule member_le_sum_list) auto

text \<open>The room a database takes.\<close>

definition cdb_room :: "(string \<times> string) list \<Rightarrow> int" where
  "cdb_room kvs = 2048 + sum_list (map entry_size kvs) + 16 * int (length kvs)"

lemma cdb_file_total:
  assumes "cdb_room kvs < 2 ^ 32"
  shows "\<exists>file. cdb_file kvs = Inr file"
proof -
  let ?z = "replicate 2048 CHR 0x00" and ?R = "concat (map entry_bytes kvs)" and ?es = "positions 2048 kvs"
  have sum: "2048 + sum_list (map entry_size kvs) + 16 * int (length kvs) < 2 ^ 32" using assms by (simp add: cdb_room_def)
  have s: "short e" if "e \<in> set kvs" for e
    using entry_size_le [OF that] sum by (cases e) (simp add: packable_iff)
  then obtain mk where add: "Maker_add_all kvs Maker_new = Inr mk" using Maker_add_all_total by blast
  have z: "at_end (mk_fd Maker_new) ?z" "length (mk_hashes Maker_new) = 256"
    by (simp_all add: Maker_new_def at_end_def f_seek_def)
  from Maker_add_all_layout [OF add z] have mk: "at_end (mk_fd mk) (?z @ ?R)"
      "length (mk_hashPointers mk) = 256" "\<And>i. i < 256 \<Longrightarrow> mk_hashes mk ! i = filter (in_bucket i) ?es"
    by (simp_all add: Maker_new_def)
  have fit: "used e \<and> packable e" if "e \<in> set ?es" for e
  proof (cases e)
    case (Pair h q)
    then show ?thesis using positions_bounds [of h q 2048 kvs] positions_ge [of h q 2048 kvs] that sum by (simp add: packable_iff)
  qed
  then have "\<forall>i < 256. \<forall>e \<in> set (mk_hashes mk ! i). used e \<and> packable e" using mk(3) by simp
  from finish_buckets_total [OF this] obtain mk' where mk': "foldR finish_bucket [0..<256] mk = Inr mk'" by blast
  have "\<forall>i < 256. \<forall>e \<in> set (mk_hashes mk ! i). used e" using mk(3) fit by simp
  from finish_buckets_layout [OF mk' order_refl mk(1,2) this] obtain tbl where
    ptrs: "length (mk_hashPointers mk') = 256"
      "\<And>i. i < 256 \<Longrightarrow> mk_hashPointers mk' ! i = (int (length ((?z @ ?R) @ table_bytes tbl i)), 2 * int (length (filter (in_bucket i) ?es)))
         \<and> length (tbl i) = 2 * length (filter (in_bucket i) ?es) \<and> (\<forall>e \<in> set (tbl i). packable e)"
    using mk(3) by auto
  have R: "int (length ?R) = sum_list (map entry_size kvs)" by (rule length_entries) (use s in blast)
  have "packable (mk_hashPointers mk' ! i)" if i: "i < 256" for i
  proof -
    have "length (table_bytes tbl i) = 16 * (\<Sum>j < i. length (filter (in_bucket j) ?es))"
      by (rule length_table_bytes) (use ptrs(2) i less_trans in blast)
    moreover have "(\<Sum>j < i. length (filter (in_bucket j) ?es)) \<le> (\<Sum>j < 256. length (filter (in_bucket j) ?es))"
      by (rule sum_mono2) (use i in auto)
    ultimately have "length (table_bytes tbl i) \<le> 16 * length kvs" using bucket_sizes [of ?es] by simp
    moreover have "length (filter (in_bucket i) ?es) \<le> length kvs" using length_filter_le [of "in_bucket i" ?es] by simp
    moreover have "0 \<le> sum_list (map entry_size kvs)" by (rule sum_list_nonneg) auto
    ultimately show ?thesis using ptrs(2) [OF i] R sum by (simp add: packable_iff)
  qed
  then have "\<forall>e \<in> set (mk_hashPointers mk'). packable e" using ptrs(1) by (metis in_set_conv_nth)
  then obtain fd where "write_ints (mk_hashPointers mk') (f_seek 0 (mk_fd mk')) = Inr fd" using write_ints_total by blast
  then show ?thesis using add mk' by (simp add: cdb_file_def Maker_finish_def Maker_serializeHashPointers_def)
qed

text \<open>A file that was made for less than 2 GB of records: what iteration and size need.\<close>

lemma layout_small: "cdb_layout file kvs ptr tbl \<Longrightarrow> cdb_room kvs < 2 ^ 31 \<Longrightarrow> ptr 0 < 2 ^ 31"
  unfolding cdb_layout_def cdb_room_def by auto

end
