(* ===== verification/CdbJournal.thy ===== *)
theory CdbJournal
  imports CdbWriter CdbTotal "HOL-Library.Sublist"
begin

text \<open>
  The records of the journal and of a dump, read back; the new database that \<open>_readJournal\<close> makes, as the list of
  the pairs it adds.
\<close>

section \<open>Records\<close>

lemma read_len_digits:
  assumes "\<forall>c \<in> set ds. is_digit c" "\<not> is_digit stop"
  shows "read_len stop n (ds @ stop # s) = Inr (foldl (\<lambda>n c. 10 * n + digit_val c) n ds, s)"
  using assms by (induction ds arbitrary: n) auto

lemma read_len_str:
  assumes "\<not> is_digit stop"
  shows "read_len stop 0 (str_of_nat n @ stop # s) = Inr (n, s)"
  using read_len_digits [of "digits_of n" stop 0 s] assms digits_of_digit nat_of_digits_of [of n]
  by (simp add: str_of_nat_def nat_of_digits_def)

lemma stops: "\<not> is_digit CHR '',''" "\<not> is_digit CHR '':''"
  by (simp_all add: is_digit_def)

lemma cdb_record_rest:
  "cdb_record c k v @ rest = c # str_of_nat (length k) @ CHR '','' # str_of_nat (length v) @ CHR '':'' # k @ ''->'' @ v @ CHR 0x0A # rest"
  by (simp add: cdb_record_def)

lemma readKeyValue_record: "readKeyValue (cdb_record c k v @ rest) = Inr (Some ((c, k, v), rest))"
  unfolding cdb_record_rest by (simp add: readKeyValue_def read_len_str stops Let_def numeral_2_eq_2 numeral_3_eq_3)

text \<open>A record that was cut off.\<close>

lemma read_len_cut:
  assumes "prefix p (ds @ stop # s)" "\<forall>c \<in> set ds. is_digit c" "\<not> is_digit stop"
  shows "read_len stop n p = Inl ValueError \<or>
    (\<exists>q. p = ds @ stop # q \<and> prefix q s \<and> read_len stop n p = Inr (foldl (\<lambda>n c. 10 * n + digit_val c) n ds, q))"
  using assms
proof (induction ds arbitrary: n p)
  case Nil
  then show ?case by (cases p) auto
next
  case (Cons d ds)
  show ?case
  proof (cases p)
    case (Cons c p')
    with Cons.prems have "c = d" "prefix p' (ds @ stop # s)" "is_digit d" "d \<noteq> stop" by auto
    with Cons.IH [of p' "10 * n + digit_val d"] Cons.prems Cons show ?thesis by auto
  qed simp
qed

lemma read_len_str_cut:
  assumes "prefix p (str_of_nat n @ stop # s)" "\<not> is_digit stop"
  obtains "read_len stop 0 p = Inl ValueError" | q where "p = str_of_nat n @ stop # q" "prefix q s" "read_len stop 0 p = Inr (n, q)"
  using read_len_cut [of p "digits_of n" stop s 0] assms digits_of_digit nat_of_digits_of [of n] that
  unfolding str_of_nat_def nat_of_digits_def by metis

lemma readKeyValue_cut:
  assumes "strict_prefix p (cdb_record c k v)" "p \<noteq> []"
  shows "\<exists>e. readKeyValue p = Inl e"
proof -
  note rec = cdb_record_rest [of c k v "[]", simplified]
  let ?s1 = "str_of_nat (length v) @ CHR '':'' # k @ ''->'' @ v @ [CHR 0x0A]"
  obtain p1 where p: "p = c # p1" "strict_prefix p1 (str_of_nat (length k) @ CHR '','' # ?s1)"
    using assms unfolding rec by (cases p) auto
  from p(2) have "prefix p1 (str_of_nat (length k) @ CHR '','' # ?s1)" by (simp add: strict_prefix_def)
  then show ?thesis
  proof (rule read_len_str_cut [OF _ stops(1)])
    assume "read_len CHR '','' 0 p1 = Inl ValueError"
    then show ?thesis by (simp add: readKeyValue_def p(1))
  next
    fix q assume q: "p1 = str_of_nat (length k) @ CHR '','' # q" "prefix q ?s1" "read_len CHR '','' 0 p1 = Inr (length k, q)"
    show ?thesis
    proof (rule read_len_str_cut [OF q(2) stops(2)])
      assume "read_len CHR '':'' 0 q = Inl ValueError"
      then show ?thesis using q(3) by (simp add: readKeyValue_def p(1))
    next
      fix r assume r: "q = str_of_nat (length v) @ CHR '':'' # r" "prefix r (k @ ''->'' @ v @ [CHR 0x0A])"
        "read_len CHR '':'' 0 q = Inr (length v, r)"
      have "length p1 < length (str_of_nat (length k) @ CHR '','' # ?s1)" using p(2) by (rule prefix_length_less)
      then have "length r < length k + 2 + length v + 1" by (simp add: q(1) r(1))
      then have "drop (length v) (drop 2 (drop (length k) r)) = []" by simp
      then show ?thesis using q(3) r(3) by (simp add: readKeyValue_def p(1) py_assert_def Let_def)
    qed
  qed
qed

section \<open>The journal\<close>

type_synonym jrec = "char \<times> string \<times> string"

definition journal_text :: "jrec list \<Rightarrow> string" where
  "journal_text rs = concat (map (\<lambda>(c, k, v). cdb_record c k v) rs)"

lemma journal_text_simps [simp]:
  "journal_text [] = []" "journal_text ((c, k, v) # rs) = cdb_record c k v @ journal_text rs"
  "journal_text (rs @ rs') = journal_text rs @ journal_text rs'"
  by (simp_all add: journal_text_def)

lemma journal_loop_record: "journal_loop (cdb_record c k v @ s) st = journal_loop s (replay (c, k, v) st)"
  by (subst journal_loop.simps) (simp add: readKeyValue_record)

lemma journal_loop_append: "journal_loop (journal_text rs @ s) st = journal_loop s (foldl (\<lambda>st r. replay r st) st rs)"
proof (induction rs arbitrary: st)
  case (Cons r rs)
  then show ?case by (cases r) (simp add: journal_loop_record)
qed simp

definition replayed :: "jrec list \<Rightarrow> string set \<times> (string, string) dict" where
  "replayed rs = foldl (\<lambda>st r. replay r st) ({}, []) rs"

lemma journal_loop_text: "journal_loop (journal_text rs) ({}, []) = Inr (replayed rs)"
  using journal_loop_append [of rs "[]" "({}, [])"] by (simp add: journal_loop.simps [of "[]"] readKeyValue_def replayed_def)

lemma replayed_snoc [simp]: "replayed [] = ({}, [])" "replayed (rs @ [r]) = replay r (replayed rs)"
  by (simp_all add: replayed_def)

text \<open>A journal that breaks off inside a record.\<close>

lemma journal_loop_cut:
  assumes "strict_prefix p (cdb_record c k v)" "p \<noteq> []"
  shows "\<exists>e. journal_loop (journal_text rs @ p) st = Inl e"
  using readKeyValue_cut [OF assms] by (auto simp: journal_loop_append journal_loop.simps [of p])

text \<open>The map that removals and additions make of another one.\<close>

definition overlay :: "string set \<times> (string, string) dict \<Rightarrow> (string \<rightharpoonup> string) \<Rightarrow> string \<rightharpoonup> string" where
  "overlay st m = (\<lambda>k. if k \<in> fst st then None else case map_of (snd st) k of Some v \<Rightarrow> Some v | None \<Rightarrow> m k)"

lemma overlay_empty [simp]: "overlay ({}, []) m = m"
  by (simp add: overlay_def)

lemma overlay_replay:
  "overlay (replay (CHR ''+'', k, v) st) m = (overlay st m)(k \<mapsto> v)"
  "overlay (replay (CHR ''-'', k, v) st) m = (overlay st m)(k := None)"
  by (cases st; auto simp: overlay_def replay_def)+

section \<open>The new database\<close>

text \<open>The pairs that are added for the old database, and the marks left on the values added.\<close>

fun merged_old :: "string set \<Rightarrow> (string \<times> string) list \<Rightarrow> (string, string option) dict
    \<Rightarrow> (string \<times> string) list \<times> (string, string option) dict" where
  "merged_old removals [] adds = ([], adds)"
| "merged_old removals ((key, value) # items) adds =
     (if key \<in> removals then merged_old removals items adds
      else (case map_of adds key of
          Some None \<Rightarrow> merged_old removals items adds
        | Some (Some v) \<Rightarrow> map_prod (Cons (key, v)) id (merged_old removals items (dict_set key None adds))
        | None \<Rightarrow> map_prod (Cons (key, value)) id (merged_old removals items adds)))"

fun merged_new :: "(string, string option) dict \<Rightarrow> (string \<times> string) list" where
  "merged_new [] = []"
| "merged_new ((key, value) # adds) = (case value of None \<Rightarrow> merged_new adds | Some v \<Rightarrow> (key, v) # merged_new adds)"

definition merged :: "string set \<times> (string, string) dict \<Rightarrow> (string \<times> string) list \<Rightarrow> (string \<times> string) list" where
  "merged st items = (case merged_old (fst st) items (map (\<lambda>(k, v). (k, Some v)) (snd st)) of (kvs, adds) \<Rightarrow> kvs @ merged_new adds)"

lemma Maker_add_all_simps [simp]:
  "Maker_add_all [] mk = Inr mk"
  "Maker_add_all ((k, v) # kvs) mk = bindR (Maker_add k v mk) (Maker_add_all kvs)"
  by (simp_all add: Maker_add_all_def)

lemma merge_old_adds:
  "merge_old removals items (adds, mk) =
     bindR (Maker_add_all (fst (merged_old removals items adds)) mk) (\<lambda>mk'. Inr (snd (merged_old removals items adds), mk'))"
  by (induction removals items adds arbitrary: mk rule: merged_old.induct)
    (auto simp: bindR_assoc split: option.split intro!: arg_cong [where f = "bindR _"])

lemma merge_new_adds: "merge_new adds mk = Maker_add_all (merged_new adds) mk"
proof (induction adds arbitrary: mk)
  case (Cons a adds)
  obtain k v where a: "a = (k, v)" by (cases a)
  show ?case using Cons by (cases v) (auto simp: merge_new_def a intro!: arg_cong [where f = "bindR _"])
qed (simp add: merge_new_def)

lemma readJournal_text:
  "readJournal (journal_text rs) old =
     (if replayed rs = ({}, []) then Inr old
      else bindR (fst (Reader_items (Reader_new old))) (\<lambda>items. cdb_file (merged (replayed rs) items)))"
proof -
  obtain removals adds where r: "replayed rs = (removals, adds)" by (cases "replayed rs")
  have all: "Maker_add_all (xs @ ys) mk = bindR (Maker_add_all xs mk) (Maker_add_all ys)" for xs ys mk
    by (simp add: Maker_add_all_def foldR_append)
  show ?thesis
    by (auto simp: readJournal_def journal_loop_text r merged_def cdb_file_def merge_old_adds merge_new_adds bindR_assoc all
        split: prod.split intro!: arg_cong [where f = "bindR _"])
qed

text \<open>What it maps the keys to.\<close>

lemma map_of_merged_new: "distinct (map fst adds) \<Longrightarrow> map_of (merged_new adds) k = (case map_of adds k of Some (Some v) \<Rightarrow> Some v | _ \<Rightarrow> None)"
proof (induction adds)
  case (Cons a adds)
  obtain j v where a: "a = (j, v)" by (cases a)
  have "map_of adds j = None" using Cons.prems by (simp add: a map_of_eq_None_iff)
  then show ?case using Cons by (cases v) (auto simp: a)
qed simp

lemma map_of_merged_old:
  assumes "distinct (map fst adds)" "\<forall>k \<in> removals. map_of adds k = None"
  shows "map_of (case merged_old removals items adds of (kvs, adds') \<Rightarrow> kvs @ merged_new adds') k =
    (if k \<in> removals then None else case map_of adds k of Some v \<Rightarrow> v | None \<Rightarrow> map_of items k)"
  using assms
proof (induction removals items adds rule: merged_old.induct)
  case (1 removals adds)
  then show ?case by (auto simp: map_of_merged_new split: option.splits)
next
  case (2 removals key val items adds)
  show ?case
  proof (cases "key \<in> removals")
    case True
    with 2 show ?thesis by (auto split: option.splits)
  next
    case False
    show ?thesis
    proof (cases "map_of adds key")
      case None
      with 2 False show ?thesis by (auto simp: case_prod_unfold split: option.splits)
    next
      case (Some x)
      show ?thesis
      proof (cases x)
        case None
        with \<open>map_of adds key = Some x\<close> have "map_of adds key = Some None" by simp
        with 2 False show ?thesis by (simp split: option.split)
      next
        case (Some v)
        with \<open>map_of adds key = Some x\<close> have key: "map_of adds key = Some (Some v)" by simp
        have "distinct (map fst (dict_set key None adds))" "\<forall>k \<in> removals. map_of (dict_set key None adds) k = None"
          using "2.prems" False by (auto simp: distinct_update)
        from "2.IH"(4) [OF False key refl this] show ?thesis
          using False key by (auto simp: case_prod_unfold split: option.splits)
      qed
    qed
  qed
qed

lemma map_of_map_Some: "map_of (map (\<lambda>(k, v). (k, Some v)) d) j = map_option Some (map_of d j)"
  by (induction d) auto

lemma map_of_merged:
  assumes "dict_wf (snd st)" "\<forall>k \<in> fst st. map_of (snd st) k = None"
  shows "map_of (merged st items) = overlay st (map_of items)"
proof
  fix k
  let ?a = "map (\<lambda>(k, v). (k, Some v)) (snd st)"
  have a: "map_of ?a j = map_option Some (map_of (snd st) j)" for j by (rule map_of_map_Some)
  then have "distinct (map fst ?a)" "\<forall>k \<in> fst st. map_of ?a k = None"
    using assms by (auto simp: dict_wf_def comp_def case_prod_unfold)
  from map_of_merged_old [OF this, of items k] show "map_of (merged st items) k = overlay st (map_of items) k"
    by (auto simp: merged_def overlay_def a split: option.split)
qed

end
