(* ===== verification/CdbDurable.thy ===== *)
theory CdbDurable
  imports CdbJournal
begin

text \<open>
  The writable database against two maps: what it shows, and what its two files hold.  Every change reaches the
  second; the first differs from it at the keys of the constant database that were deleted since, which stay
  visible until the next flush.
\<close>

section \<open>Room\<close>

definition rooms :: "(string \<times> string) list \<Rightarrow> int" where
  "rooms kvs = sum_list (map (\<lambda>e. entry_size e + 16) kvs)"

lemma rooms_simps [simp]:
  "rooms [] = 0" "rooms ((k, v) # kvs) = 24 + int (length k) + int (length v) + rooms kvs" "rooms (xs @ ys) = rooms xs + rooms ys"
  by (simp_all add: rooms_def)

lemma rooms_nonneg: "0 \<le> rooms kvs"
  unfolding rooms_def by (rule sum_list_nonneg) auto

lemma cdb_room_rooms: "cdb_room kvs = 2048 + rooms kvs"
  by (induction kvs) (auto simp: cdb_room_def rooms_def)

lemma rooms_used:
  "map_of adds key = Some (Some v) \<Longrightarrow>
     rooms (merged_new (dict_set key None adds)) + (24 + int (length key) + int (length v)) = rooms (merged_new adds)"
  by (induction adds) (auto split: option.splits if_splits)

lemma rooms_merged_old:
  "rooms (fst (merged_old removals items adds)) + rooms (merged_new (snd (merged_old removals items adds)))
     \<le> rooms items + rooms (merged_new adds)"
proof (induction removals items adds rule: merged_old.induct)
  case (2 removals key val items adds)
  show ?case
  proof (cases "key \<in> removals")
    case False
    then show ?thesis using 2 rooms_used [of adds key] by (fastforce split: option.splits)
  qed (use 2 in simp)
qed simp

lemma rooms_merged: "rooms (merged st items) \<le> rooms items + rooms (snd st)"
proof -
  have "merged_new (map (\<lambda>(k, v). (k, Some v)) d) = d" for d by (induction d) auto
  then show ?thesis
    using rooms_merged_old [of "fst st" items "map (\<lambda>(k, v). (k, Some v)) (snd st)"] by (simp add: merged_def case_prod_unfold)
qed

lemma length_record: "8 + length k + length v \<le> length (cdb_record c k v)"
proof -
  have "0 < length (str_of_nat n)" for n by (simp add: str_of_nat_def)
  from this [of "length k"] this [of "length v"] show ?thesis by (simp only: cdb_record_def list.size length_append)
qed

lemma rooms_dict:
  "rooms (dict_set k v d) \<le> 24 + int (length k) + int (length v) + rooms d" "rooms (dict_drop k d) \<le> rooms d"
  by (induction d) auto

lemma rooms_replay: "rooms (snd (replay (c, k, v) st)) \<le> rooms (snd st) + 3 * int (length (cdb_record c k v))"
  using rooms_dict(1) [of k v "snd st"] rooms_dict(2) [of k "snd st"] length_record [of k v c] by (cases st) (auto simp: replay_def)

lemma rooms_replayed: "rooms (snd (replayed rs)) \<le> 3 * int (length (journal_text rs))"
proof (induction rs rule: rev_induct)
  case (snoc r rs)
  obtain c k v where r: "r = (c, k, v)" by (cases r)
  then show ?case using snoc rooms_replay [of c k v "replayed rs"] by simp
qed simp

lemma replayed_wf: "dict_wf (snd (replayed rs)) \<and> (\<forall>k \<in> fst (replayed rs). map_of (snd (replayed rs)) k = None)"
proof (induction rs rule: rev_induct)
  case (snoc r rs)
  then show ?case by (cases "replayed rs") (auto simp: replay_def split: prod.split intro: wf_intros)
qed simp

section \<open>Flushing\<close>

definition holds :: "string \<Rightarrow> (string \<times> string) list \<Rightarrow> bool" where
  "holds file kvs \<longleftrightarrow> (\<exists>ptr tbl. cdb_layout file kvs ptr tbl)"

lemma holds_length: "holds file kvs \<Longrightarrow> int (length file) = cdb_room kvs"
  by (auto simp: holds_def cdb_layout_def cdb_room_def)

lemma holds_items: "holds file kvs \<Longrightarrow> int (length file) < 2 ^ 31 \<Longrightarrow> rd_file rd = file \<Longrightarrow>
    \<exists>rd'. Reader_items rd = (Inr kvs, rd') \<and> rd_file rd' = file \<and> rd_loop rd' = 0"
  using holds_length layout_small Reader_items_records unfolding holds_def by metis

lemma readJournal_ok:
  assumes "holds old kvs" "int (length old) + 3 * int (length (journal_text rs)) < 2 ^ 31"
  obtains new kvs' where "readJournal (journal_text rs) old = Inr new" "holds new kvs'"
    "map_of kvs' = overlay (replayed rs) (map_of kvs)" "int (length new) \<le> int (length old) + 3 * int (length (journal_text rs))"
proof (cases "replayed rs = ({}, [])")
  case True
  then show ?thesis using that [of old kvs] assms by (simp add: readJournal_text)
next
  case False
  let ?kvs = "merged (replayed rs) kvs"
  have "int (length old) < 2 ^ 31" using assms(2) by linarith
  from holds_items [OF assms(1) this, of "Reader_new old"] have items: "fst (Reader_items (Reader_new old)) = Inr kvs"
    by (auto simp: Reader_new_def)
  have room: "cdb_room ?kvs \<le> int (length old) + 3 * int (length (journal_text rs))"
    using holds_length [OF assms(1)] rooms_merged [of "replayed rs" kvs] rooms_replayed [of rs] by (simp add: cdb_room_rooms)
  then have "cdb_room ?kvs < 2 ^ 32" using assms(2) by simp
  from cdb_file_total [OF this] obtain new where new: "cdb_file ?kvs = Inr new" by blast
  then have h: "holds new ?kvs" using cdb_file_layout by (simp add: holds_def)
  show ?thesis
  proof (rule that [OF _ h])
    show "readJournal (journal_text rs) old = Inr new" using False items new by (simp add: readJournal_text)
    show "map_of ?kvs = overlay (replayed rs) (map_of kvs)" using replayed_wf by (intro map_of_merged) blast+
    show "int (length new) \<le> int (length old) + 3 * int (length (journal_text rs))" using holds_length [OF h] room by simp
  qed
qed

section \<open>The two maps\<close>

text \<open>\<open>K\<close>: the keys of the constant database that was opened.\<close>

definition on_disk :: "string set \<Rightarrow> ReaderWriter \<Rightarrow> (string \<rightharpoonup> string) \<Rightarrow> (string \<rightharpoonup> string) \<Rightarrow> bool" where
  "on_disk K rw V D \<longleftrightarrow> (\<exists>kvs rs. holds (rd_file (rw_cdb rw)) kvs \<and> rw_journal rw = journal_text rs
     \<and> V = overlay (rw_removals rw, rw_adds rw) (map_of kvs) \<and> D = overlay (replayed rs) (map_of kvs)
     \<and> (\<forall>k. map_of kvs k = None \<or> k \<in> K \<or> k \<in> rw_removals rw \<or> map_of (rw_adds rw) k \<noteq> None))"

definition stands :: "string set \<Rightarrow> ReaderWriter \<Rightarrow> (string \<rightharpoonup> string) \<Rightarrow> (string \<rightharpoonup> string) \<Rightarrow> bool" where
  "stands K rw V D \<longleftrightarrow> on_disk K rw V D
   \<and> (\<forall>k \<in> rw_removals rw. D k = None \<and> map_of (rw_adds rw) k = None)
   \<and> (\<forall>k. map_of (rw_adds rw) k = None \<or> map_of (rw_adds rw) k = D k)
   \<and> (\<forall>k. D k = None \<or> D k = V k)"

definition rw_size :: "ReaderWriter \<Rightarrow> int" where
  "rw_size rw = int (length (rd_file (rw_cdb rw))) + 3 * int (length (rw_journal rw))"

lemma stands_cdb: "rd_file rd = rd_file (rw_cdb rw) \<Longrightarrow> stands K (rw\<lparr>rw_cdb := rd\<rparr>) V D = stands K rw V D"
  and size_cdb: "rd_file rd = rd_file (rw_cdb rw) \<Longrightarrow> rw_size (rw\<lparr>rw_cdb := rd\<rparr>) = rw_size rw"
  and stands_mods [simp]: "stands K (rw\<lparr>rw_mods := n\<rparr>) V D = stands K rw V D"
  and size_mods [simp]: "rw_size (rw\<lparr>rw_mods := n\<rparr>) = rw_size rw"
  by (simp_all add: stands_def on_disk_def rw_size_def)

lemma flush_stands:
  assumes s: "stands K rw V D" and small: "rw_size rw < 2 ^ 31"
  obtains rw' where "ReaderWriter_flush rw = (Inr (), rw')" "stands K rw' D D" "rw_size rw' \<le> rw_size rw"
proof -
  obtain kvs rs where h: "holds (rd_file (rw_cdb rw)) kvs" "rw_journal rw = journal_text rs"
      "V = overlay (rw_removals rw, rw_adds rw) (map_of kvs)" "D = overlay (replayed rs) (map_of kvs)"
      "\<forall>k. map_of kvs k = None \<or> k \<in> K \<or> k \<in> rw_removals rw \<or> map_of (rw_adds rw) k \<noteq> None"
    and inv: "\<forall>k \<in> rw_removals rw. D k = None \<and> map_of (rw_adds rw) k = None"
      "\<forall>k. map_of (rw_adds rw) k = None \<or> map_of (rw_adds rw) k = D k" "\<forall>k. D k = None \<or> D k = V k"
    using s unfolding stands_def on_disk_def by blast
  have "int (length (rd_file (rw_cdb rw))) + 3 * int (length (journal_text rs)) < 2 ^ 31"
    using small by (simp add: rw_size_def h(2))
  from readJournal_ok [OF h(1) this] obtain new kvs' where new: "readJournal (journal_text rs) (rd_file (rw_cdb rw)) = Inr new"
      "holds new kvs'" "map_of kvs' = D" "int (length new) \<le> rw_size rw"
    by (auto simp: rw_size_def h)
  let ?rw = "rw\<lparr>rw_cdb := Reader_new new, rw_journal := []\<rparr>"
  have f: "ReaderWriter_flush rw = (Inr (), ?rw)" by (simp add: ReaderWriter_flush_def act_defs h(2) new(1))
  have seen: "overlay (rw_removals rw, rw_adds rw) D k = D k" for k
  proof (cases "map_of (rw_adds rw) k")
    case (Some v)
    with inv(1,2) have "k \<notin> rw_removals rw" "D k = Some v" by (metis option.distinct(1))+
    with Some show ?thesis by (simp add: overlay_def)
  qed (use inv(1) in \<open>auto simp: overlay_def\<close>)
  have origin: "D k = None \<or> k \<in> K \<or> k \<in> rw_removals rw \<or> map_of (rw_adds rw) k \<noteq> None" for k
  proof (cases "k \<in> rw_removals rw \<or> map_of (rw_adds rw) k \<noteq> None")
    case False
    then have "V k = map_of kvs k" by (simp add: h(3) overlay_def)
    with inv(3) h(5) False show ?thesis by metis
  qed blast
  have "on_disk K ?rw D D"
    unfolding on_disk_def
  proof (intro exI conjI)
    show "holds (rd_file (rw_cdb ?rw)) kvs'" using new(2) by (simp add: Reader_new_def)
    show "rw_journal ?rw = journal_text []" by simp
    show "D = overlay (rw_removals ?rw, rw_adds ?rw) (map_of kvs')" using seen by (simp add: new(3) fun_eq_iff)
    show "D = overlay (replayed []) (map_of kvs')" by (simp add: new(3))
    show "\<forall>k. map_of kvs' k = None \<or> k \<in> K \<or> k \<in> rw_removals ?rw \<or> map_of (rw_adds ?rw) k \<noteq> None"
      using origin by (simp add: new(3))
  qed
  then have "stands K ?rw D D" unfolding stands_def using inv(1,2) by simp
  moreover have "rw_size ?rw \<le> rw_size rw" using new(4) by (simp add: rw_size_def Reader_new_def)
  ultimately show thesis using that f by blast
qed

text \<open>The end of every change: the count, and a flush over the limit.\<close>

lemma flush_reset:
  assumes s: "stands K rw V D" and small: "rw_size rw < 2 ^ 31"
  obtains rw' where "seqA ReaderWriter_flush (modifyA (\<lambda>rw. rw\<lparr>rw_mods := 0\<rparr>)) rw = (Inr (), rw')"
    "stands K rw' D D" "rw_size rw' \<le> rw_size rw"
proof (rule flush_stands [OF assms])
  fix rw' assume "ReaderWriter_flush rw = (Inr (), rw')" "stands K rw' D D" "rw_size rw' \<le> rw_size rw"
  then show thesis using that [of "rw'\<lparr>rw_mods := 0\<rparr>"] by (simp add: act_defs)
qed

lemma changed_stands:
  assumes s: "stands K rw V D" and small: "rw_size rw < 2 ^ 31"
  obtains r V' rw' where "changed rw = (r, rw')" "stands K rw' V' D" "V' = V \<or> V' = D" "rw_size rw' \<le> rw_size rw"
    "\<forall>n d. rw_maxmods rw = Ratio n d \<longrightarrow> 0 \<le> n \<Longrightarrow> r = Inr ()"
proof -
  let ?rw = "rw\<lparr>rw_mods := rw_mods rw + 1\<rparr>"
  have s': "stands K ?rw V D" "rw_size ?rw < 2 ^ 31" "rw_size ?rw = rw_size rw" using assms by simp_all
  have c: "changed rw = flushIfOverLimit ?rw" by (simp add: changed_def act_defs)
  obtain rw1 where f: "seqA ReaderWriter_flush (modifyA (\<lambda>rw. rw\<lparr>rw_mods := 0\<rparr>)) ?rw = (Inr (), rw1)"
      "stands K rw1 D D" "rw_size rw1 \<le> rw_size rw"
    using flush_reset [OF s'(1,2)] s'(3) by metis
  have len: "\<exists>n. Reader_len (rw_cdb rw) = Inr n"
    using s pointer_word unfolding stands_def on_disk_def holds_def by (auto simp: Reader_len_def)
  have "flushIfOverLimit ?rw = (Inr (), ?rw) \<or> flushIfOverLimit ?rw = (Inr (), rw1)
      \<or> flushIfOverLimit ?rw = (Inl AssertionError, ?rw) \<and> (\<exists>n d. rw_maxmods rw = Ratio n d \<and> \<not> 0 \<le> n)"
  proof (cases "rw_maxmods rw")
    case (Ratio n d)
    then show ?thesis using len f(1) by (auto simp: flushIfOverLimit_def bindA_def seqA_def getA_def retA_def liftA_def assertA_def raiseA_def)
  qed (use f(1) in \<open>simp_all add: flushIfOverLimit_def bindA_def getA_def retA_def\<close>)
  then consider "flushIfOverLimit ?rw = (Inr (), ?rw)" | "flushIfOverLimit ?rw = (Inr (), rw1)"
    | "flushIfOverLimit ?rw = (Inl AssertionError, ?rw)" "\<exists>n d. rw_maxmods rw = Ratio n d \<and> \<not> 0 \<le> n" by blast
  then show thesis
  proof cases
    case 1 then show ?thesis using that [of "Inr ()" ?rw V] s'(1) c by simp
  next
    case 2 then show ?thesis using that [of "Inr ()" rw1 D] f c by simp
  next
    case 3 then show ?thesis using that [of "Inl AssertionError" ?rw V] s'(1) c by auto
  qed
qed

end
