(* ===== verification/CdbStore.thy ===== *)
theory CdbStore
  imports CdbDurable
begin

text \<open>
  The operations of the writable database against the two maps of \<open>stands\<close>, and the contract of a store whose
  changes reach its files, with runs of operations.
\<close>

section \<open>The interface\<close>

text \<open>
  A store that stands for what it shows (\<open>V\<close>) and what is stored (\<open>D\<close>), with a size that must stay below the
  room there is: each operation does to the stored map what its specification says.
\<close>

locale durable_store =
  fixes stands :: "'s \<Rightarrow> 'm \<Rightarrow> 'm \<Rightarrow> bool" and size :: "'s \<Rightarrow> int" and room :: int
    and act :: "'o \<Rightarrow> 's \<Rightarrow> 's" and cost :: "'o \<Rightarrow> int" and spec :: "'o \<Rightarrow> 'm \<Rightarrow> 'm"
  assumes cost_nonneg: "0 \<le> cost x"
    and act_stands: "stands s V D \<Longrightarrow> size s + cost x < room \<Longrightarrow>
      \<exists>V'. stands (act x s) V' (spec x D) \<and> size (act x s) \<le> size s + cost x"
begin

lemma run_stands:
  assumes "stands s V D" "size s + sum_list (map cost xs) < room"
  shows "\<exists>V'. stands (fold act xs s) V' (fold spec xs D) \<and> size (fold act xs s) \<le> size s + sum_list (map cost xs)"
  using assms
proof (induction xs arbitrary: s V D)
  case (Cons x xs)
  have "0 \<le> sum_list (map cost xs)" by (rule sum_list_nonneg) (auto simp: cost_nonneg)
  then have "size s + cost x < room" using Cons.prems(2) by simp
  from act_stands [OF Cons.prems(1) this] obtain V1 where V1: "stands (act x s) V1 (spec x D)" "size (act x s) \<le> size s + cost x" by blast
  then have "size (act x s) + sum_list (map cost xs) < room" using Cons.prems(2) by simp
  from Cons.IH [OF V1(1) this] V1(2) show ?case by force
qed auto

end

text \<open>A store that shows what is stored as long as only harmless operations are run.\<close>

locale transparent_store = durable_store stands size room act cost spec
  for stands :: "'s \<Rightarrow> 'm \<Rightarrow> 'm \<Rightarrow> bool" and size :: "'s \<Rightarrow> int" and room :: int
    and act :: "'o \<Rightarrow> 's \<Rightarrow> 's" and cost :: "'o \<Rightarrow> int" and spec :: "'o \<Rightarrow> 'm \<Rightarrow> 'm" +
  fixes harmless :: "'o \<Rightarrow> bool"
  assumes act_shows: "stands s D D \<Longrightarrow> size s + cost x < room \<Longrightarrow> harmless x \<Longrightarrow> stands (act x s) (spec x D) (spec x D)"
begin

lemma run_shows:
  assumes "stands s D D" "size s + sum_list (map cost xs) < room" "\<forall>x \<in> set xs. harmless x"
  shows "stands (fold act xs s) (fold spec xs D) (fold spec xs D)"
  using assms
proof (induction xs arbitrary: s D)
  case (Cons x xs)
  have "0 \<le> sum_list (map cost xs)" by (rule sum_list_nonneg) (auto simp: cost_nonneg)
  then have x: "size s + cost x < room" "harmless x" using Cons.prems(2,3) by simp_all
  from act_stands [OF Cons.prems(1) x(1)] have "size (act x s) + sum_list (map cost xs) < room" using Cons.prems(2) by auto
  from Cons.IH [OF act_shows [OF Cons.prems(1) x] this] Cons.prems(3) show ?case by simp
qed simp

end

section \<open>Reading\<close>

lemma stands_holds: "stands K rw V D \<Longrightarrow> \<exists>kvs. holds (rd_file (rw_cdb rw)) kvs \<and> V = overlay (rw_removals rw, rw_adds rw) (map_of kvs)"
  unfolding stands_def on_disk_def by blast

lemma on_cdb_contains:
  assumes "holds (rd_file (rw_cdb rw)) kvs"
  obtains rd where "on_cdb (Reader_contains key 0) rw = (Inr (map_of kvs key \<noteq> None), rw\<lparr>rw_cdb := rd\<rparr>)" "rd_file rd = rd_file (rw_cdb rw)"
  using assms Reader_lookup(1) [OF _ refl, of "rw_cdb rw" kvs _ _ key] that
  unfolding holds_def on_cdb_def by (fastforce split: prod.splits)

lemma on_cdb_find:
  assumes "holds (rd_file (rw_cdb rw)) kvs"
  obtains rd where "on_cdb (Reader_find key 0) rw = (case map_of kvs key of None \<Rightarrow> Inl KeyError | Some v \<Rightarrow> Inr v, rw\<lparr>rw_cdb := rd\<rparr>)"
    "rd_file rd = rd_file (rw_cdb rw)"
  using assms Reader_lookup(2) [OF _ refl, of "rw_cdb rw" kvs _ _ key] that
  unfolding holds_def on_cdb_def by (fastforce split: prod.splits)

definition looked_up :: "string option \<Rightarrow> string res" where
  "looked_up v = (case v of None \<Rightarrow> Inl KeyError | Some x \<Rightarrow> Inr x)"

lemma looked_up_simps [simp]: "looked_up None = Inl KeyError" "looked_up (Some v) = Inr v"
  by (simp_all add: looked_up_def)

lemma getitem_stands:
  assumes s: "stands K rw V D"
  obtains rw' where "ReaderWriter_getitem key rw = (looked_up (V key), rw')" "stands K rw' V D" "rw_size rw' = rw_size rw"
proof -
  from stands_holds [OF s] obtain kvs where h: "holds (rd_file (rw_cdb rw)) kvs" "V = overlay (rw_removals rw, rw_adds rw) (map_of kvs)"
    by blast
  obtain rd where rd: "on_cdb (Reader_find key 0) rw = (looked_up (map_of kvs key), rw\<lparr>rw_cdb := rd\<rparr>)" "rd_file rd = rd_file (rw_cdb rw)"
    using on_cdb_find [OF h(1)] by (metis looked_up_def)
  have "ReaderWriter_getitem key rw = (looked_up (V key), rw) \<or> ReaderWriter_getitem key rw = (looked_up (V key), rw\<lparr>rw_cdb := rd\<rparr>)"
    using rd(1) by (auto simp: ReaderWriter_getitem_def bindA_def getA_def raiseA_def retA_def h(2) overlay_def split: option.splits)
  then show thesis using that s stands_cdb [OF rd(2)] size_cdb [OF rd(2)] by metis
qed

lemma contains_stands:
  assumes s: "stands K rw V D"
  shows "fst (ReaderWriter_contains key rw) = Inr (V key \<noteq> None)"
proof -
  from stands_holds [OF s] obtain kvs where h: "holds (rd_file (rw_cdb rw)) kvs" "V = overlay (rw_removals rw, rw_adds rw) (map_of kvs)"
    by blast
  obtain rd where rd: "on_cdb (Reader_contains key 0) rw = (Inr (map_of kvs key \<noteq> None), rw\<lparr>rw_cdb := rd\<rparr>)"
    using on_cdb_contains [OF h(1)] by metis
  show ?thesis
    using rd(1) by (auto simp: ReaderWriter_contains_def bindA_def getA_def retA_def h(2) overlay_def dict_has_def split: option.splits)
qed

section \<open>Changes\<close>

lemma stands_journal:
  assumes s: "stands K rw V D"
    and seen: "\<And>kvs. holds (rd_file (rw_cdb rw)) kvs \<Longrightarrow> V = overlay (rw_removals rw, rw_adds rw) (map_of kvs) \<Longrightarrow>
      \<forall>k. map_of kvs k = None \<or> k \<in> K \<or> k \<in> rw_removals rw \<or> map_of (rw_adds rw) k \<noteq> None \<Longrightarrow>
      V' = overlay (R, A) (map_of kvs) \<and> (\<forall>k. map_of kvs k = None \<or> k \<in> K \<or> k \<in> R \<or> map_of A k \<noteq> None)"
    and D: "\<And>st m. overlay (replay (c, k, v) st) m = f (overlay st m)"
    and inv: "\<forall>k \<in> R. f D k = None \<and> map_of A k = None" "\<forall>k. map_of A k = None \<or> map_of A k = f D k" "\<forall>k. f D k = None \<or> f D k = V' k"
  shows "stands K (rw\<lparr>rw_journal := rw_journal rw @ cdb_record c k v, rw_removals := R, rw_adds := A\<rparr>) V' (f D)"
proof -
  let ?rw = "rw\<lparr>rw_journal := rw_journal rw @ cdb_record c k v, rw_removals := R, rw_adds := A\<rparr>"
  obtain kvs rs where h: "holds (rd_file (rw_cdb rw)) kvs" "rw_journal rw = journal_text rs"
      "V = overlay (rw_removals rw, rw_adds rw) (map_of kvs)" "D = overlay (replayed rs) (map_of kvs)"
      "\<forall>k. map_of kvs k = None \<or> k \<in> K \<or> k \<in> rw_removals rw \<or> map_of (rw_adds rw) k \<noteq> None"
    using s unfolding stands_def on_disk_def by blast
  note new = seen [OF h(1,3,5)]
  have "on_disk K ?rw V' (f D)"
    unfolding on_disk_def
  proof (intro exI conjI)
    show "holds (rd_file (rw_cdb ?rw)) kvs" using h(1) by simp
    show "rw_journal ?rw = journal_text (rs @ [(c, k, v)])" by (simp add: h(2))
    show "V' = overlay (rw_removals ?rw, rw_adds ?rw) (map_of kvs)" using new by simp
    show "f D = overlay (replayed (rs @ [(c, k, v)])) (map_of kvs)" by (simp add: D h(4))
    show "\<forall>k. map_of kvs k = None \<or> k \<in> K \<or> k \<in> rw_removals ?rw \<or> map_of (rw_adds ?rw) k \<noteq> None" using new by simp
  qed
  then show ?thesis unfolding stands_def using inv by simp
qed

lemma stands_inv:
  assumes "stands K rw V D"
  shows "k \<in> rw_removals rw \<Longrightarrow> D k = None" "k \<in> rw_removals rw \<Longrightarrow> map_of (rw_adds rw) k = None"
    "map_of (rw_adds rw) k = Some v \<Longrightarrow> D k = Some v" "D k = Some v \<Longrightarrow> V k = Some v"
  using assms unfolding stands_def by (metis option.distinct(1))+

text \<open>What the operations leave behind, whatever they answer.\<close>

definition limit_ok :: "maxmods \<Rightarrow> bool" where
  "limit_ok m \<longleftrightarrow> (case m of Ratio n d \<Rightarrow> 0 \<le> n | _ \<Rightarrow> True)"

definition rec_cost :: "string \<Rightarrow> string \<Rightarrow> int" where
  "rec_cost k v = 3 * int (length (cdb_record CHR ''+'' k v))"

lemma after_change:
  assumes s: "stands K rw1 V D" and size: "rw_size rw1 \<le> n" "n < 2 ^ 31"
  obtains r V' rw' where "changed rw1 = (r, rw')" "stands K rw' V' D" "V' = V \<or> V' = D" "rw_size rw' \<le> n"
    "limit_ok (rw_maxmods rw1) \<Longrightarrow> r = Inr ()"
proof -
  have "rw_size rw1 < 2 ^ 31" using size by linarith
  from changed_stands [OF s this] obtain r V' rw' where c: "changed rw1 = (r, rw')" "stands K rw' V' D" "V' = V \<or> V' = D"
      "rw_size rw' \<le> rw_size rw1" "\<forall>n d. rw_maxmods rw1 = Ratio n d \<longrightarrow> 0 \<le> n \<Longrightarrow> r = Inr ()" by metis
  show thesis
  proof (rule that [OF c(1,2,3)])
    show "rw_size rw' \<le> n" using c(4) size(1) by linarith
    show "r = Inr ()" if "limit_ok (rw_maxmods rw1)"
      by (rule c(5)) (use that in \<open>auto simp: limit_ok_def\<close>)
  qed
qed

lemma setitem_stands:
  assumes s: "stands K rw V D" and small: "rw_size rw + rec_cost k v < 2 ^ 31"
  obtains r V' rw' where "ReaderWriter_setitem k v rw = (r, rw')" "stands K rw' V' (D(k \<mapsto> v))" "V' = V(k \<mapsto> v) \<or> V' = D(k \<mapsto> v)"
    "rw_size rw' \<le> rw_size rw + rec_cost k v" "limit_ok (rw_maxmods rw) \<Longrightarrow> r = Inr ()"
proof -
  let ?rw = "rw\<lparr>rw_journal := rw_journal rw @ cdb_record CHR ''+'' k v, rw_removals := rw_removals rw - {k},
    rw_adds := dict_set k v (rw_adds rw)\<rparr>"
  have "stands K ?rw (V(k \<mapsto> v)) (D(k \<mapsto> v))"
  proof (rule stands_journal [OF s, where f = "\<lambda>m. m(k \<mapsto> v)"])
    show "overlay (replay (CHR ''+'', k, v) st) m = (overlay st m)(k \<mapsto> v)" for st m by (rule overlay_replay(1))
    show "V(k \<mapsto> v) = overlay (rw_removals rw - {k}, dict_set k v (rw_adds rw)) (map_of kvs)
        \<and> (\<forall>j. map_of kvs j = None \<or> j \<in> K \<or> j \<in> rw_removals rw - {k} \<or> map_of (dict_set k v (rw_adds rw)) j \<noteq> None)"
      if "V = overlay (rw_removals rw, rw_adds rw) (map_of kvs)"
        "\<forall>k. map_of kvs k = None \<or> k \<in> K \<or> k \<in> rw_removals rw \<or> map_of (rw_adds rw) k \<noteq> None" for kvs
      using that by (auto simp: overlay_def fun_eq_iff)
    show "\<forall>j \<in> rw_removals rw - {k}. (D(k \<mapsto> v)) j = None \<and> map_of (dict_set k v (rw_adds rw)) j = None"
      using stands_inv(1,2) [OF s] by simp
    have "map_of (rw_adds rw) j = None \<or> map_of (rw_adds rw) j = D j" "D j = None \<or> D j = V j" for j
      using stands_inv(3,4) [OF s, of j] by (cases "map_of (rw_adds rw) j"; cases "D j"; simp)+
    then show "\<forall>j. map_of (dict_set k v (rw_adds rw)) j = None \<or> map_of (dict_set k v (rw_adds rw)) j = (D(k \<mapsto> v)) j"
      "\<forall>j. (D(k \<mapsto> v)) j = None \<or> (D(k \<mapsto> v)) j = (V(k \<mapsto> v)) j"
      by simp_all
  qed
  moreover have "rw_size ?rw \<le> rw_size rw + rec_cost k v" by (simp add: rw_size_def rec_cost_def)
  ultimately obtain r V' rw' where c: "changed ?rw = (r, rw')" "stands K rw' V' (D(k \<mapsto> v))" "V' = V(k \<mapsto> v) \<or> V' = D(k \<mapsto> v)"
      "rw_size rw' \<le> rw_size rw + rec_cost k v" "limit_ok (rw_maxmods ?rw) \<Longrightarrow> r = Inr ()"
    using after_change [OF _ _ small] by metis
  have "ReaderWriter_setitem k v rw = changed ?rw"
    by (cases rw) (simp add: ReaderWriter_setitem_def seqA_def bindA_def modifyA_def journalAddKey_def)
  then show thesis using that [of r rw' V'] c by simp
qed

lemma stands_origin:
  assumes "stands K rw V D" "k \<notin> rw_removals rw" "map_of (rw_adds rw) k = None" "V k \<noteq> None"
  shows "k \<in> K"
proof -
  obtain kvs where "V = overlay (rw_removals rw, rw_adds rw) (map_of kvs)"
      "map_of kvs k = None \<or> k \<in> K \<or> k \<in> rw_removals rw \<or> map_of (rw_adds rw) k \<noteq> None"
    using assms(1) unfolding stands_def on_disk_def by blast
  with assms(2-4) show ?thesis by (auto simp: overlay_def)
qed

lemma holds_unique:
  assumes "holds f kvs" "holds f kvs'"
  shows "map_of kvs k = map_of kvs' k"
proof -
  have "fst (Reader_find k 0 (Reader_new f)) = looked_up (map_of kvs k)" if "holds f kvs" for kvs
    using that Reader_lookup(2) [of f kvs _ _ "Reader_new f" k] unfolding holds_def looked_up_def
    by (fastforce simp: Reader_new_def)
  from this [OF assms(1)] this [OF assms(2)] show ?thesis by (simp add: looked_up_def split: option.splits)
qed

text \<open>
  A deletion raises exactly when the key is not shown.  A key that is only in the constant database is deleted
  from the stored map, but it is still shown.
\<close>

lemma delitem_stands:
  assumes s: "stands K rw V D" and small: "rw_size rw + rec_cost k [] < 2 ^ 31"
  obtains r V' rw' where "ReaderWriter_delitem k rw = (r, rw')" "stands K rw' V' (D(k := None))"
    "V' = V(k := None) \<or> V' = D(k := None) \<or> V' = V \<and> k \<in> K"
    "rw_size rw' \<le> rw_size rw + rec_cost k []" "V k = None \<Longrightarrow> r = Inl KeyError" "V k \<noteq> None \<Longrightarrow> limit_ok (rw_maxmods rw) \<Longrightarrow> r = Inr ()"
proof -
  from stands_holds [OF s] obtain kvs where h: "holds (rd_file (rw_cdb rw)) kvs" "V = overlay (rw_removals rw, rw_adds rw) (map_of kvs)"
    by blast
  show thesis
  proof (cases "V k = None")
    case True
    then have D: "D(k := None) = D" using stands_inv(4) [OF s, of k] by (cases "D k") (auto simp: fun_eq_iff)
    obtain rd where rd: "on_cdb (Reader_contains k 0) rw = (Inr (map_of kvs k \<noteq> None), rw\<lparr>rw_cdb := rd\<rparr>)" "rd_file rd = rd_file (rw_cdb rw)"
      using on_cdb_contains [OF h(1)] by metis
    have "ReaderWriter_delitem k rw = (Inl KeyError, rw) \<or> ReaderWriter_delitem k rw = (Inl KeyError, rw\<lparr>rw_cdb := rd\<rparr>)"
      using True rd(1) by (auto simp: ReaderWriter_delitem_def bindA_def getA_def raiseA_def h(2) overlay_def dict_has_def split: if_splits option.splits)
    then obtain rw' where rw': "ReaderWriter_delitem k rw = (Inl KeyError, rw')" "stands K rw' V D" "rw_size rw' = rw_size rw"
      using s stands_cdb [OF rd(2)] size_cdb [OF rd(2)] by metis
    have "V(k := None) = V" using True by auto
    then show thesis using that [of "Inl KeyError" rw' V] rw' True D by (simp add: rec_cost_def)
  next
    case False
    then have out: "k \<notin> rw_removals rw" using h(2) by (auto simp: overlay_def)
    obtain rd where rd: "on_cdb (Reader_contains k 0) rw = (Inr (map_of kvs k \<noteq> None), rw\<lparr>rw_cdb := rd\<rparr>)" "rd_file rd = rd_file (rw_cdb rw)"
      using on_cdb_contains [OF h(1)] by metis
    let ?rw = "rw\<lparr>rw_cdb := rd\<rparr>"
    have s': "stands K ?rw V D" using s stands_cdb [OF rd(2)] by simp
    define inAdds where "inAdds \<longleftrightarrow> map_of (rw_adds rw) k \<noteq> None"
    define inCdb where "inCdb \<longleftrightarrow> map_of kvs k \<noteq> None"
    define R where "R = (if inAdds \<and> inCdb then insert k (rw_removals rw) else rw_removals rw)"
    define A where "A = (if inAdds then dict_drop k (rw_adds rw) else rw_adds rw)"
    define V' where "V' = (if inAdds then V(k := None) else V)"
    let ?rw1 = "?rw\<lparr>rw_journal := rw_journal ?rw @ cdb_record CHR ''-'' k [], rw_removals := R, rw_adds := A\<rparr>"
    have some: "inAdds \<or> inCdb" using False out h(2) by (auto simp: overlay_def inAdds_def inCdb_def split: option.splits)
    have "stands K ?rw1 V' (D(k := None))"
    proof (rule stands_journal [OF s', where f = "\<lambda>m. m(k := None)"])
      show "overlay (replay (CHR ''-'', k, []) st) m = (overlay st m)(k := None)" for st m by (rule overlay_replay(2))
      fix kvs' assume kvs': "holds (rd_file (rw_cdb ?rw)) kvs'" "V = overlay (rw_removals ?rw, rw_adds ?rw) (map_of kvs')"
        "\<forall>k. map_of kvs' k = None \<or> k \<in> K \<or> k \<in> rw_removals ?rw \<or> map_of (rw_adds ?rw) k \<noteq> None"
      have "map_of kvs' k = map_of kvs k" using holds_unique [OF h(1), of kvs'] kvs'(1) rd(2) by simp
      then have c: "map_of kvs' k \<noteq> None \<longleftrightarrow> inCdb" by (simp add: inCdb_def)
      have "V' j = overlay (R, A) (map_of kvs') j" for j
        using kvs'(2) c by (cases "j = k") (auto simp: overlay_def R_def A_def V'_def inAdds_def)
      moreover have "map_of kvs' j = None \<or> j \<in> K \<or> j \<in> R \<or> map_of A j \<noteq> None" for j
        using kvs'(3) [THEN spec, of j] c by (cases "j = k") (auto simp: R_def A_def inAdds_def)
      ultimately show "V' = overlay (R, A) (map_of kvs') \<and> (\<forall>k. map_of kvs' k = None \<or> k \<in> K \<or> k \<in> R \<or> map_of A k \<noteq> None)"
        by blast
    next
      show "\<forall>j \<in> R. (D(k := None)) j = None \<and> map_of A j = None" using stands_inv(1,2) [OF s] by (simp add: R_def A_def)
      have "map_of (rw_adds rw) j = None \<or> map_of (rw_adds rw) j = D j" "D j = None \<or> D j = V j" for j
        using stands_inv(3,4) [OF s, of j] by (cases "map_of (rw_adds rw) j"; cases "D j"; simp)+
      then show "\<forall>j. map_of A j = None \<or> map_of A j = (D(k := None)) j" "\<forall>j. (D(k := None)) j = None \<or> (D(k := None)) j = V' j"
        by (simp_all add: A_def V'_def inAdds_def)
    qed
    moreover have "rw_size ?rw1 \<le> rw_size rw + rec_cost k []" using rd(2) by (simp add: rw_size_def rec_cost_def cdb_record_def)
    ultimately obtain r V'' rw' where c: "changed ?rw1 = (r, rw')" "stands K rw' V'' (D(k := None))" "V'' = V' \<or> V'' = D(k := None)"
        "rw_size rw' \<le> rw_size rw + rec_cost k []" "limit_ok (rw_maxmods ?rw1) \<Longrightarrow> r = Inr ()"
      using after_change [OF _ _ small] by metis
    have "ReaderWriter_delitem k rw = changed ?rw1"
      using some out rd(1)
      by (cases rw) (auto simp: ReaderWriter_delitem_def seqA_def bindA_def modifyA_def getA_def journalRemoveKey_def dict_has_def
          R_def A_def inAdds_def inCdb_def)
    moreover have "V'' = V(k := None) \<or> V'' = D(k := None) \<or> V'' = V \<and> k \<in> K"
      using c(3) stands_origin [OF s out _ False] by (cases inAdds) (auto simp: V'_def inAdds_def)
    ultimately show thesis using that [of r rw' V''] c False by simp
  qed
qed

text \<open>Iteration yields what is shown.\<close>

lemma map_of_items_over:
  "map_of (items_over rw already items) k =
    (if k \<in> rw_removals rw \<and> map_of (rw_adds rw) k = None then None
     else if k \<in> already then None
     else case map_of (rw_adds rw) k of Some v \<Rightarrow> Some v | None \<Rightarrow> map_of items k)"
proof (induction rw already items rule: items_over.induct)
  case (1 rw already)
  have "map_of (filter (\<lambda>(key, _). key \<notin> already) d) k = (if k \<in> already then None else map_of d k)" for d :: "(string, string) dict"
    by (induction d) auto
  then show ?case by (simp split: option.split)
next
  case (2 rw already key val items)
  then show ?case by (auto split: option.splits)
qed

lemma items_stands:
  assumes s: "stands K rw V D" and small: "rw_size rw < 2 ^ 31"
  shows "\<exists>items. fst (ReaderWriter_items rw) = Inr items \<and> map_of items = V"
proof -
  from stands_holds [OF s] obtain kvs where h: "holds (rd_file (rw_cdb rw)) kvs" "V = overlay (rw_removals rw, rw_adds rw) (map_of kvs)"
    by blast
  have "int (length (rd_file (rw_cdb rw))) < 2 ^ 31" using small by (simp add: rw_size_def)
  from holds_items [OF h(1) this refl] obtain rd where rd: "Reader_items (rw_cdb rw) = (Inr kvs, rd)" by blast
  let ?items = "items_over (rw\<lparr>rw_cdb := rd\<rparr>) {} kvs"
  have "map_of ?items k = V k" for k
    using stands_inv(2) [OF s, of k] by (simp add: map_of_items_over h(2) overlay_def split: option.split)
  moreover have "fst (ReaderWriter_items rw) = Inr ?items"
    by (simp add: ReaderWriter_items_def on_cdb_def rd bindA_def getA_def)
  ultimately show ?thesis by blast
qed

section \<open>Opening\<close>

lemma reopen_stands:
  assumes s: "stands K rw V D" and small: "rw_size rw < 2 ^ 31"
  obtains rw' where "ReaderWriter_new (rd_file (rw_cdb rw)) (rw_journal rw) m = Inr rw'" "stands (dom D) rw' D D" "rw_size rw' \<le> rw_size rw"
proof -
  obtain kvs rs where h: "holds (rd_file (rw_cdb rw)) kvs" "rw_journal rw = journal_text rs" "D = overlay (replayed rs) (map_of kvs)"
    using s unfolding stands_def on_disk_def by blast
  have "int (length (rd_file (rw_cdb rw))) + 3 * int (length (journal_text rs)) < 2 ^ 31"
    using small by (simp add: rw_size_def h(2))
  from readJournal_ok [OF h(1) this] obtain new kvs' where new: "readJournal (journal_text rs) (rd_file (rw_cdb rw)) = Inr new"
      "holds new kvs'" "map_of kvs' = D" "int (length new) \<le> rw_size rw"
    by (auto simp: rw_size_def h)
  let ?rw = "\<lparr>rw_maxmods = m, rw_mods = 0, rw_cdb = Reader_new new, rw_journal = [], rw_adds = [], rw_removals = {}\<rparr>"
  have "on_disk (dom D) ?rw D D"
    unfolding on_disk_def
  proof (intro exI conjI)
    show "holds (rd_file (rw_cdb ?rw)) kvs'" using new(2) by (simp add: Reader_new_def)
    show "rw_journal ?rw = journal_text []" by simp
    show "D = overlay (rw_removals ?rw, rw_adds ?rw) (map_of kvs')" by (simp add: new(3))
    show "D = overlay (replayed []) (map_of kvs')" by (simp add: new(3))
    show "\<forall>k. map_of kvs' k = None \<or> k \<in> dom D \<or> k \<in> rw_removals ?rw \<or> map_of (rw_adds ?rw) k \<noteq> None" by (auto simp: new(3))
  qed
  then have "stands (dom D) ?rw D D" unfolding stands_def by simp
  moreover have "rw_size ?rw \<le> rw_size rw" using new(4) by (simp add: rw_size_def Reader_new_def)
  moreover have "ReaderWriter_new (rd_file (rw_cdb rw)) (rw_journal rw) m = Inr ?rw" by (simp add: ReaderWriter_new_def h(2) new(1))
  ultimately show thesis using that by blast
qed

lemma new_stands:
  assumes "cdb_file kvs = Inr f" "ReaderWriter_new f [] m = Inr rw"
  shows "stands (dom (map_of kvs)) rw (map_of kvs) (map_of kvs)" "rw_size rw = cdb_room kvs" "rw_maxmods rw = m"
proof -
  have h: "holds f kvs" using cdb_file_layout [OF assms(1)] by (simp add: holds_def)
  have "readJournal [] f = Inr f" using readJournal_text [of "[]" f] by simp
  then have rw: "rw = \<lparr>rw_maxmods = m, rw_mods = 0, rw_cdb = Reader_new f, rw_journal = [], rw_adds = [], rw_removals = {}\<rparr>"
    using assms(2) by (simp add: ReaderWriter_new_def)
  have "on_disk (dom (map_of kvs)) rw (map_of kvs) (map_of kvs)"
    unfolding on_disk_def by (intro exI [of _ kvs] exI [of _ "[]"]) (use h in \<open>auto simp: rw Reader_new_def\<close>)
  then show "stands (dom (map_of kvs)) rw (map_of kvs) (map_of kvs)" unfolding stands_def by (simp add: rw)
  show "rw_size rw = cdb_room kvs" "rw_maxmods rw = m" using holds_length [OF h] by (simp_all add: rw rw_size_def Reader_new_def)
qed

section \<open>The store\<close>

datatype db_op = SetItem string string | DelItem string | FlushDb

text \<open>An operation run, whether it raises or not, and what it means for the stored map.\<close>

definition db_act :: "db_op \<Rightarrow> ReaderWriter \<Rightarrow> ReaderWriter" where
  "db_act x rw = (case x of
     SetItem k v \<Rightarrow> snd (ReaderWriter_setitem k v rw)
   | DelItem k \<Rightarrow> snd (ReaderWriter_delitem k rw)
   | FlushDb \<Rightarrow> snd (ReaderWriter_flush rw))"

definition db_cost :: "db_op \<Rightarrow> int" where
  "db_cost x = (case x of SetItem k v \<Rightarrow> rec_cost k v | DelItem k \<Rightarrow> rec_cost k [] | FlushDb \<Rightarrow> 0)"

definition db_spec :: "db_op \<Rightarrow> (string \<rightharpoonup> string) \<Rightarrow> string \<rightharpoonup> string" where
  "db_spec x m = (case x of SetItem k v \<Rightarrow> m(k \<mapsto> v) | DelItem k \<Rightarrow> m(k := None) | FlushDb \<Rightarrow> m)"

lemma db_act_stands:
  assumes s: "stands K rw V D" and small: "rw_size rw + db_cost x < 2 ^ 31"
  shows "\<exists>V'. stands K (db_act x rw) V' (db_spec x D) \<and> rw_size (db_act x rw) \<le> rw_size rw + db_cost x
    \<and> (V = D \<and> (\<forall>k \<in> K. x \<noteq> DelItem k) \<longrightarrow> V' = db_spec x D)"
proof (cases x)
  case (SetItem k v)
  then have "rw_size rw + rec_cost k v < 2 ^ 31" using small by (simp add: db_cost_def)
  from setitem_stands [OF s this] obtain V' rw' where "snd (ReaderWriter_setitem k v rw) = rw'" "stands K rw' V' (D(k \<mapsto> v))"
    "V' = V(k \<mapsto> v) \<or> V' = D(k \<mapsto> v)" "rw_size rw' \<le> rw_size rw + rec_cost k v"
    by (metis snd_conv)
  then show ?thesis by (intro exI [of _ V']) (auto simp: SetItem db_act_def db_cost_def db_spec_def)
next
  case (DelItem k)
  then have "rw_size rw + rec_cost k [] < 2 ^ 31" using small by (simp add: db_cost_def)
  from delitem_stands [OF s this] obtain V' rw' where "snd (ReaderWriter_delitem k rw) = rw'" "stands K rw' V' (D(k := None))"
    "V' = V(k := None) \<or> V' = D(k := None) \<or> V' = V \<and> k \<in> K" "rw_size rw' \<le> rw_size rw + rec_cost k []"
    by (metis snd_conv)
  then show ?thesis by (intro exI [of _ V']) (auto simp: DelItem db_act_def db_cost_def db_spec_def)
next
  case FlushDb
  then have "rw_size rw < 2 ^ 31" using small by (simp add: db_cost_def)
  from flush_stands [OF s this] obtain rw' where "snd (ReaderWriter_flush rw) = rw'" "stands K rw' D D" "rw_size rw' \<le> rw_size rw"
    by (metis snd_conv)
  then show ?thesis by (intro exI [of _ D]) (auto simp: FlushDb db_act_def db_cost_def db_spec_def)
qed

lemma db_cost_nonneg: "0 \<le> db_cost x"
  by (simp add: db_cost_def rec_cost_def split: db_op.split)

interpretation cdb_store: transparent_store "stands K" rw_size "2 ^ 31" db_act db_cost db_spec "\<lambda>x. \<forall>k \<in> K. x \<noteq> DelItem k" for K
proof (unfold_locales, goal_cases)
  case (1 x)
  show ?case by (rule db_cost_nonneg)
next
  case (2 s V D x)
  from db_act_stands [OF 2] show ?case by blast
next
  case (3 s D x)
  from db_act_stands [OF 3(1,2)] 3(3) show ?case by metis
qed

end
