(* ===== verification/CdbPromises.thy ===== *)
theory CdbPromises
  imports CdbStore "HOL-Library.Word"
begin

text \<open>What \<open>cdb.py\<close> promises, and where it does not keep it.\<close>

section \<open>The hash\<close>

lemma cdb_hash_word:
  "cdb_hash s = uint (foldl (\<lambda>h c. (h + push_bit 5 h) XOR word_of_nat (of_char c)) (5381 :: 32 word) s)"
proof -
  have step: "((uint w + push_bit 5 (uint w)) XOR int (of_char c)) AND 0xFFFFFFFF = uint ((w + push_bit 5 w) XOR word_of_nat (of_char c))"
    for w :: "32 word" and c
  proof -
    let ?x = "uint w + push_bit 5 (uint w)"
    have low: "x AND 0xFFFFFFFF = take_bit 32 x" for x :: int by (simp add: take_bit_eq_mask mask_eq_exp_minus_1)
    have "uint (w + push_bit 5 w) = take_bit 32 (uint w + take_bit 32 (push_bit 5 (uint w)))"
      by (simp add: uint_word_ariths(1) unsigned_push_bit_eq take_bit_eq_mod)
    also have "\<dots> = take_bit 32 ?x" by (simp add: take_bit_eq_mod mod_simps)
    finally have sum: "uint (w + push_bit 5 w) = take_bit 32 ?x" .
    have "uint (word_of_nat (of_char c) :: 32 word) = take_bit 32 (int (of_char c))" by (simp add: unsigned_of_nat of_nat_take_bit)
    then show ?thesis unfolding low unsigned_xor_eq sum take_bit_xor by simp
  qed
  have "foldl (\<lambda>h c. ((h + push_bit 5 h) XOR int (ord c)) AND 0xFFFFFFFF) (uint w) s
      = uint (foldl (\<lambda>h c. (h + push_bit 5 h) XOR word_of_nat (of_char c)) w s)" for w :: "32 word"
    by (induction s arbitrary: w) (simp_all add: step)
  from this [of 5381] show ?thesis by (simp add: cdb_hash_def)
qed

section \<open>The constant database\<close>

definition sample_kvs :: "(string \<times> string) list" where
  "sample_kvs = [(''nick'', ''alice''), (''mail'', ''a@b''), (''nick'', ''bob'')]"

lemma sample_room: "cdb_room sample_kvs = 2143"
  by (simp add: cdb_room_def sample_kvs_def)

lemma sample_file: "\<exists>f. cdb_file sample_kvs = Inr f"
  by (rule cdb_file_total) (simp add: sample_room)

text \<open>
  C3: A database file made from a list of pairs: any reader on it finds, for every key, the value of the first
  pair with this key, raises \<open>KeyError\<close> for a key that is in no pair, and \<open>in\<close> agrees.
\<close>

theorem cdb_find_first:
  assumes "cdb_file kvs = Inr f" "rd_file rd = f"
  shows "fst (Reader_find key 0 rd) = (case map_of kvs key of None \<Rightarrow> Inl KeyError | Some v \<Rightarrow> Inr v)
    \<and> fst (Reader_contains key 0 rd) = Inr (key \<in> fst ` set kvs)"
proof -
  obtain ptr tbl where "cdb_layout f kvs ptr tbl" using cdb_file_layout [OF assms(1)] by blast
  from Reader_lookup [OF this assms(2), of key] show ?thesis by (auto simp: map_of_eq_None_iff)
qed

theorem cdb_find_first_witness:
  "\<exists>f. cdb_file sample_kvs = Inr f \<and> fst (Reader_find ''nick'' 0 (Reader_new f)) = Inr ''alice''
     \<and> fst (Reader_find ''age'' 0 (Reader_new f)) = Inl KeyError"
proof -
  obtain f where f: "cdb_file sample_kvs = Inr f" using sample_file by blast
  have "rd_file (Reader_new f) = f" by (simp add: Reader_new_def)
  note find = cdb_find_first [OF f this]
  from f find [of "''nick''"] find [of "''age''"] show ?thesis by (simp add: sample_kvs_def)
qed

text \<open>
  \<open>findall\<close> of a fresh reader yields all values of a key, in the order they were added.
\<close>

theorem cdb_findall_values:
  assumes "cdb_file kvs = Inr f"
  shows "fst (Reader_findall key (Reader_new f)) = Inr [v. (k, v) \<leftarrow> kvs, k = key]"
proof -
  obtain ptr tbl where "cdb_layout f kvs ptr tbl" using cdb_file_layout [OF assms(1)] by blast
  from Reader_findall_fresh [OF this, of "Reader_new f" key] have "fst (Reader_findall key (Reader_new f)) = Inr (values_of key kvs)"
    by (simp add: Reader_new_def)
  moreover have "values_of key kvs = [v. (k, v) \<leftarrow> kvs, k = key]" by (induction kvs) (auto simp: values_of_def)
  ultimately show ?thesis by simp
qed

theorem cdb_findall_values_witness:
  "\<exists>f. cdb_file sample_kvs = Inr f \<and> fst (Reader_findall ''nick'' (Reader_new f)) = Inr [''alice'', ''bob'']"
proof -
  obtain f where f: "cdb_file sample_kvs = Inr f" using sample_file by blast
  from f cdb_findall_values [OF f, of "''nick''"] show ?thesis by (simp add: sample_kvs_def)
qed

text \<open>
  C30: Iterating over a database of less than 2 GB yields the pairs it was made from, in their order, and \<open>len\<close>
  counts them.
\<close>

theorem cdb_items_back:
  assumes "cdb_file kvs = Inr f" "cdb_room kvs < 2 ^ 31" "rd_file rd = f"
  shows "fst (Reader_items rd) = Inr kvs \<and> Reader_len rd = Inr (int (length kvs))"
proof -
  obtain ptr tbl where l: "cdb_layout f kvs ptr tbl" using cdb_file_layout [OF assms(1)] by blast
  note small = layout_small [OF l assms(2)]
  from Reader_items_records [OF l small assms(3)] Reader_len_records [OF l small assms(3)] show ?thesis by auto
qed

theorem cdb_items_back_witness:
  "\<exists>f. cdb_file sample_kvs = Inr f \<and> fst (Reader_items (Reader_new f)) = Inr sample_kvs \<and> Reader_len (Reader_new f) = Inr 3"
proof -
  obtain f where f: "cdb_file sample_kvs = Inr f" using sample_file by blast
  have "rd_file (Reader_new f) = f" "cdb_room sample_kvs < 2 ^ 31" by (simp_all add: Reader_new_def sample_room)
  from f cdb_items_back [OF f this(2,1)] show ?thesis by (simp add: sample_kvs_def)
qed

text \<open>
  A database whose records end beyond 2 GB is written without an error, but iteration yields nothing: the
  pointer to the first table is read as a signed word.  Lookups are not affected.
\<close>

theorem cdb_items_lost:
  assumes "cdb_file kvs = Inr f" "2 ^ 31 \<le> 2048 + sum_list (map entry_size kvs)"
  shows "fst (Reader_items (Reader_new f)) = Inr []"
proof -
  obtain ptr tbl where l: "cdb_layout f kvs ptr tbl" using cdb_file_layout [OF assms(1)] by blast
  then have p: "ptr 0 = 2048 + sum_list (map entry_size kvs)" "packable (ptr 0, int (length (tbl 0)))" unfolding cdb_layout_def by blast+
  then have "\<not> ptr 0 < 2 ^ 31" "ptr 0 - 2 ^ 32 < 2048" using assms(2) by (simp_all add: packable_iff)
  then show ?thesis using pointer_word [OF l] by (simp add: Reader_items_def act_defs Reader_new_def items_loop.simps)
qed

theorem cdb_items_lost_witness:
  "\<exists>f. cdb_file [(''dump'', replicate (2 ^ 31) CHR ''x'')] = Inr f \<and> fst (Reader_items (Reader_new f)) = Inr []"
proof -
  have "cdb_room [(''dump'', replicate (2 ^ 31) CHR ''x'')] < 2 ^ 32" by (simp add: cdb_room_def)
  from cdb_file_total [OF this] obtain f where f: "cdb_file [(''dump'', replicate (2 ^ 31) CHR ''x'')] = Inr f" by blast
  with cdb_items_lost [OF f] show ?thesis by simp
qed

text \<open>
  After a successful lookup \<open>findall\<close> of the same key misses the first value: \<open>loop\<close> is reset neither by
  the lookup nor by \<open>findall\<close>, so the search goes on where it was.
\<close>

theorem findall_after_find:
  assumes "cdb_file kvs = Inr f" "Reader_find key 0 (Reader_new f) = (Inr v, rd)"
  shows "fst (Reader_findall key rd) = Inr (tl [v. (k, v) \<leftarrow> kvs, k = key])"
proof -
  let ?i = "nat (cdb_hash key mod 256)" and ?rd = "(Reader_new f)\<lparr>rd_loop := 0\<rparr>"
  obtain ptr tbl where l: "cdb_layout f kvs ptr tbl" using cdb_file_layout [OF assms(1)] by blast
  have i: "?i < 256" by (rule bucket_bound)
  have find: "Reader_find key 0 (Reader_new f) = (case Reader_findnext key ?rd of (Inl e, rd') \<Rightarrow> (Inl e, rd')
      | (Inr found, rd') \<Rightarrow> if found then Reader_getCurrentData rd' else (Inl KeyError, rd'))"
    by (simp add: Reader_find_def Reader_contains_def act_defs split: prod.split sum.split)
  from findnext_first [OF l, of ?rd key] assms(2) obtain v' vs n where vs: "values_of key kvs = v' # vs"
      "searching f (ptr ?i) (tbl ?i) (cdb_hash key) n rd" "0 < n" "n \<le> length (tbl ?i)"
      "vs = map (\<lambda>e. snd (rec_at f (snd e))) (hits f key (cdb_hash key) (drop n (search_order (cdb_hash key) (tbl ?i))))"
    unfolding find by (auto simp: Reader_new_def split: list.splits)
  from findall_rest [OF layout_table(1) [OF l i] vs(2,4), of key] have more: "fst (findall_more key rd) = Inr vs" by (simp add: vs(5))
  have "rd_loop rd \<noteq> 0" using vs(2,3) by (simp add: searching_def)
  then have "Reader_findnext key rd = findnext_loop key rd" by (simp add: Reader_findnext_def findnext_start_def act_defs)
  then have "Reader_findall key rd = findall_more key rd"
    by (simp add: Reader_findall_def findall_more.simps [of key rd] Reader_getCurrentData_def act_defs split: prod.split sum.split)
  moreover have "values_of key kvs = [v. (k, v) \<leftarrow> kvs, k = key]" by (induction kvs) (auto simp: values_of_def)
  ultimately show ?thesis using more vs(1) by (metis list.sel(3))
qed

theorem findall_after_find_witness:
  "\<exists>f rd. cdb_file sample_kvs = Inr f \<and> Reader_find ''nick'' 0 (Reader_new f) = (Inr ''alice'', rd)
     \<and> fst (Reader_findall ''nick'' rd) = Inr [''bob'']"
proof -
  obtain f where f: "cdb_file sample_kvs = Inr f" using sample_file by blast
  obtain ptr tbl where "cdb_layout f sample_kvs ptr tbl" using cdb_file_layout [OF f] by blast
  from Reader_lookup(2) [OF this, of "Reader_new f" "''nick''"] obtain rd where rd: "Reader_find ''nick'' 0 (Reader_new f) = (Inr ''alice'', rd)"
    by (auto simp: Reader_new_def sample_kvs_def)
  from f rd findall_after_find [OF f rd] show ?thesis by (auto simp: sample_kvs_def)
qed

text \<open>
  C7: Making a database ends and raises nothing when the file fits 4 GB: the search for a free slot always finds
  one, and every number fits its word.  The size of the file is known beforehand.
\<close>

theorem cdb_file_returns:
  assumes "cdb_room kvs < 2 ^ 32"
  shows "\<exists>f. cdb_file kvs = Inr f \<and> int (length f) = cdb_room kvs"
proof -
  obtain f where f: "cdb_file kvs = Inr f" using cdb_file_total [OF assms] by blast
  then have "holds f kvs" using cdb_file_layout by (simp add: holds_def)
  from f holds_length [OF this] show ?thesis by blast
qed

theorem cdb_file_returns_witness: "\<exists>f. cdb_file sample_kvs = Inr f \<and> int (length f) = 2143"
  using cdb_file_returns [of sample_kvs] by (simp add: sample_room)

lemma cdb_dump_make: "cdb_make (cdb_dump kvs) = cdb_file kvs"
proof -
  have "make_loop (cdb_dump kvs) mk = Maker_add_all kvs mk" for mk
  proof (induction kvs arbitrary: mk)
    case Nil
    show ?case by (simp add: cdb_dump_def make_loop.simps readKeyValue_def)
  next
    case (Cons e kvs)
    obtain k v where e: "e = (k, v)" by (cases e)
    have "cdb_dump (e # kvs) = cdb_record CHR ''+'' k v @ cdb_dump kvs" by (simp add: cdb_dump_def e)
    then show ?case using Cons by (simp add: make_loop.simps readKeyValue_record e split: sum.split)
  qed
  then show ?thesis by (simp add: cdb_make_def cdb_file_def)
qed

section \<open>The writable database\<close>

definition sample_ops :: "db_op list" where
  "sample_ops = [SetItem ''nick'' ''bob'', DelItem ''mail'', FlushDb, DelItem ''age'', SetItem ''nick'' ''carol'']"

lemma sample_cost: "cdb_room sample_kvs + sum_list (map db_cost sample_ops) < 2 ^ 31"
  by (simp add: sample_room sample_ops_def db_cost_def rec_cost_def cdb_record_def str_of_nat_def digits_of.simps)

lemma new_empty_journal: "\<exists>rw. ReaderWriter_new f [] m = Inr rw"
  using readJournal_text [of "[]" f] by (simp add: ReaderWriter_new_def)

text \<open>
  C1: After any sequence of changes, deletions and flushes, raising ones included, opening the database again
  from the two files as they are then shows exactly what the changes made of the pairs it was made from,
  whether the files were flushed or not.
\<close>

theorem store_survives:
  assumes "cdb_file kvs = Inr f" "ReaderWriter_new f [] m = Inr rw"
    and "cdb_room kvs + sum_list (map db_cost xs) < 2 ^ 31" "rw' = fold db_act xs rw"
  shows "\<exists>rw''. ReaderWriter_new (rd_file (rw_cdb rw')) (rw_journal rw') m = Inr rw'' \<and>
    (\<forall>k. fst (ReaderWriter_getitem k rw'') = looked_up (fold db_spec xs (map_of kvs) k))"
proof -
  note new = new_stands [OF assms(1,2)]
  have "rw_size rw + sum_list (map db_cost xs) < 2 ^ 31" using assms(3) new(2) by simp
  from cdb_store.run_stands [OF new(1) this] obtain V' where s: "stands (dom (map_of kvs)) rw' V' (fold db_spec xs (map_of kvs))"
    and size: "rw_size rw' < 2 ^ 31" using assms(3,4) new(2) by auto
  from reopen_stands [OF s size] obtain rw'' K where "ReaderWriter_new (rd_file (rw_cdb rw')) (rw_journal rw') m = Inr rw''"
      "stands K rw'' (fold db_spec xs (map_of kvs)) (fold db_spec xs (map_of kvs))" by metis
  then show ?thesis using getitem_stands by (metis fst_conv)
qed

theorem store_survives_witness:
  "\<exists>f rw. cdb_file sample_kvs = Inr f \<and> ReaderWriter_new f [] (Limit 1) = Inr rw \<and>
    (let rw' = fold db_act sample_ops rw in
     \<exists>rw''. ReaderWriter_new (rd_file (rw_cdb rw')) (rw_journal rw') (Limit 1) = Inr rw''
       \<and> fst (ReaderWriter_getitem ''mail'' rw'') = Inl KeyError \<and> fst (ReaderWriter_getitem ''nick'' rw'') = Inr ''carol'')"
proof -
  obtain f where f: "cdb_file sample_kvs = Inr f" using sample_file by blast
  obtain rw where rw: "ReaderWriter_new f [] (Limit 1) = Inr rw" using new_empty_journal by blast
  from store_survives [OF f rw sample_cost refl] f rw show ?thesis
    by (auto simp: Let_def sample_ops_def db_spec_def)
qed

text \<open>
  C27: As long as no key of the constant database is deleted, the database shows at every moment exactly what the
  changes made of it, by lookup, by \<open>in\<close> and by iteration.
\<close>

theorem store_shows:
  assumes "cdb_file kvs = Inr f" "ReaderWriter_new f [] m = Inr rw"
    and "cdb_room kvs + sum_list (map db_cost xs) < 2 ^ 31" "rw' = fold db_act xs rw" "\<forall>k \<in> fst ` set kvs. DelItem k \<notin> set xs"
  shows "fst (ReaderWriter_getitem key rw') = looked_up (fold db_spec xs (map_of kvs) key)
    \<and> fst (ReaderWriter_contains key rw') = Inr (fold db_spec xs (map_of kvs) key \<noteq> None)
    \<and> (\<exists>items. fst (ReaderWriter_items rw') = Inr items \<and> map_of items = fold db_spec xs (map_of kvs))"
proof -
  note new = new_stands [OF assms(1,2)]
  have size: "rw_size rw + sum_list (map db_cost xs) < 2 ^ 31" using assms(3) new(2) by simp
  have "\<forall>x \<in> set xs. \<forall>k \<in> dom (map_of kvs). x \<noteq> DelItem k" using assms(5) by (auto simp: dom_map_of_conv_image_fst)
  from cdb_store.run_shows [OF new(1) size this] have s: "stands (dom (map_of kvs)) rw' (fold db_spec xs (map_of kvs)) (fold db_spec xs (map_of kvs))"
    using assms(4) by simp
  have "rw_size rw' < 2 ^ 31" using cdb_store.run_stands [OF new(1) size] size assms(4) by force
  from items_stands [OF s this] contains_stands [OF s] getitem_stands [OF s, of key] show ?thesis by (metis fst_conv)
qed

theorem store_shows_witness:
  "\<exists>f rw. cdb_file sample_kvs = Inr f \<and> ReaderWriter_new f [] (Ratio 1 2) = Inr rw \<and>
     fst (ReaderWriter_getitem ''age'' (fold db_act [SetItem ''age'' ''7'', SetItem ''nick'' ''carol'', DelItem ''age''] rw)) = Inl KeyError"
proof -
  obtain f where f: "cdb_file sample_kvs = Inr f" using sample_file by blast
  obtain rw where rw: "ReaderWriter_new f [] (Ratio 1 2) = Inr rw" using new_empty_journal by blast
  let ?xs = "[SetItem ''age'' ''7'', SetItem ''nick'' ''carol'', DelItem ''age'']"
  have cost: "cdb_room sample_kvs + sum_list (map db_cost ?xs) < 2 ^ 31"
    by (simp add: sample_room db_cost_def rec_cost_def cdb_record_def str_of_nat_def digits_of.simps)
  have "\<forall>k \<in> fst ` set sample_kvs. DelItem k \<notin> set ?xs" by (simp add: sample_kvs_def)
  from store_shows [OF f rw cost refl this, of "''age''"] f rw show ?thesis by (auto simp: db_spec_def sample_kvs_def)
qed

lemma getitem_unchanged:
  assumes "holds (rd_file (rw_cdb rw)) kvs" "rw_removals rw = {}" "rw_adds rw = []"
  shows "fst (ReaderWriter_getitem k rw) = looked_up (map_of kvs k)"
proof -
  obtain rd where "on_cdb (Reader_find k 0) rw = (looked_up (map_of kvs k), rw\<lparr>rw_cdb := rd\<rparr>)"
    using on_cdb_find [OF assms(1), of k] unfolding looked_up_def by metis
  then show ?thesis using assms(2,3) by (simp add: ReaderWriter_getitem_def bindA_def getA_def)
qed

text \<open>
  C31: Deleting a key that is only in the constant database does not raise, but the key is still there: it is
  gone only after a flush.
\<close>

theorem deleted_still_shown:
  assumes "cdb_file kvs = Inr f" "ReaderWriter_new f [] NoLimit = Inr rw" "map_of kvs k = Some v" "cdb_room kvs + rec_cost k [] < 2 ^ 31"
  shows "\<exists>rw'. ReaderWriter_delitem k rw = (Inr (), rw') \<and> fst (ReaderWriter_getitem k rw') = Inr v
    \<and> fst (ReaderWriter_getitem k (snd (ReaderWriter_flush rw'))) = Inl KeyError"
proof -
  note new = new_stands [OF assms(1,2)]
  have "holds f kvs" using cdb_file_layout [OF assms(1)] by (simp add: holds_def)
  moreover have "rd_file (rw_cdb rw) = f" "rw_removals rw = {}" "rw_adds rw = []"
    using assms(2) readJournal_text [of "[]" f] by (auto simp: ReaderWriter_new_def Reader_new_def)
  ultimately have h: "holds (rd_file (rw_cdb rw)) kvs" "rw_removals rw = {}" "rw_adds rw = []" by simp_all
  from on_cdb_contains [OF h(1), of k] obtain rd where rd: "on_cdb (Reader_contains k 0) rw = (Inr True, rw\<lparr>rw_cdb := rd\<rparr>)"
      "rd_file rd = rd_file (rw_cdb rw)" using assms(3) by auto
  obtain rw' where rw': "ReaderWriter_delitem k rw = (Inr (), rw')" "rw_removals rw' = {}" "rw_adds rw' = []" "rd_file (rw_cdb rw') = rd_file (rw_cdb rw)"
    using rd h(2,3) new(3) by (simp add: ReaderWriter_delitem_def act_defs journalRemoveKey_def dict_has_def changed_def flushIfOverLimit_def)
  have "rw_size rw + rec_cost k [] < 2 ^ 31" using assms(4) new(2) by simp
  from delitem_stands [OF new(1) this] obtain r V' rw0 where d: "ReaderWriter_delitem k rw = (r, rw0)"
      "stands (dom (map_of kvs)) rw0 V' ((map_of kvs)(k := None))" "rw_size rw0 \<le> rw_size rw + rec_cost k []" by metis
  then have "rw0 = rw'" using rw'(1) by simp
  with d have s: "stands (dom (map_of kvs)) rw' V' ((map_of kvs)(k := None))" and size: "rw_size rw' \<le> rw_size rw + rec_cost k []"
    by simp_all
  have "holds (rd_file (rw_cdb rw')) kvs" using h(1) rw'(4) by simp
  from getitem_unchanged [OF this rw'(2,3)] have shown: "fst (ReaderWriter_getitem k rw') = Inr v" using assms(3) by simp
  have "rw_size rw' < 2 ^ 31" using size assms(4) new(2) by simp
  from flush_stands [OF s this] obtain rw'' where "snd (ReaderWriter_flush rw') = rw''"
      "stands (dom (map_of kvs)) rw'' ((map_of kvs)(k := None)) ((map_of kvs)(k := None))" by (metis snd_conv)
  with getitem_stands [of _ rw'' _ _ k] have "fst (ReaderWriter_getitem k (snd (ReaderWriter_flush rw'))) = Inl KeyError"
    by (metis fst_conv fun_upd_same looked_up_simps(1))
  with rw'(1) shown show ?thesis by blast
qed

theorem deleted_still_shown_witness:
  "\<exists>f rw rw'. cdb_file sample_kvs = Inr f \<and> ReaderWriter_new f [] NoLimit = Inr rw \<and> ReaderWriter_delitem ''mail'' rw = (Inr (), rw')
     \<and> fst (ReaderWriter_getitem ''mail'' rw') = Inr ''a@b''"
proof -
  obtain f where f: "cdb_file sample_kvs = Inr f" using sample_file by blast
  obtain rw where rw: "ReaderWriter_new f [] NoLimit = Inr rw" using new_empty_journal by blast
  have "map_of sample_kvs ''mail'' = Some ''a@b''" "cdb_room sample_kvs + rec_cost ''mail'' [] < 2 ^ 31"
    by (simp_all add: sample_kvs_def sample_room [unfolded sample_kvs_def] rec_cost_def cdb_record_def str_of_nat_def digits_of.simps)
  from deleted_still_shown [OF f rw this] f rw show ?thesis by blast
qed

text \<open>
  C32: A journal that breaks off inside its last record, as a crash may leave it, makes opening the database
  raise, and none of the records before is recovered.
\<close>

theorem torn_journal_rejected:
  assumes "strict_prefix p (cdb_record c k v)" "p \<noteq> []"
  shows "\<exists>e. ReaderWriter_new f (journal_text rs @ p) m = Inl e"
  using journal_loop_cut [OF assms, of rs "({}, [])"] by (auto simp: ReaderWriter_new_def readJournal_def)

theorem torn_journal_rejected_witness:
  "\<exists>e. ReaderWriter_new ''old'' (cdb_record CHR ''+'' ''a'' ''b'' @ take 6 (cdb_record CHR ''+'' ''nick'' ''bob'')) NoLimit = Inl e"
proof -
  have "strict_prefix (take 6 (cdb_record CHR ''+'' ''nick'' ''bob'')) (cdb_record CHR ''+'' ''nick'' ''bob'')"
    "take 6 (cdb_record CHR ''+'' ''nick'' ''bob'') \<noteq> []"
    by (simp_all add: cdb_record_def str_of_nat_def digits_of.simps)
  from torn_journal_rejected [OF this, of "''old''" "[(CHR ''+'', ''a'', ''b'')]" NoLimit] show ?thesis by simp
qed

lemma new_database_old_journal:
  assumes "2048 + 3 * int (length (journal_text rs)) < 2 ^ 31"
  shows "\<exists>rw. cdb_open CHR ''n'' old (journal_text rs) m = Inr (HWriter rw)
    \<and> (\<forall>k. fst (ReaderWriter_getitem k rw) = looked_up (overlay (replayed rs) Map.empty k))"
proof -
  have "cdb_room [] < 2 ^ 32" by (simp add: cdb_room_def)
  from cdb_file_total [OF this] obtain f where f: "cdb_file [] = Inr f" by blast
  then have h: "holds f []" using cdb_file_layout by (simp add: holds_def)
  from holds_length [OF h] have len: "int (length f) = 2048" by (simp add: cdb_room_def)
  have "int (length f) + 3 * int (length (journal_text rs)) < 2 ^ 31" using assms len by simp
  from readJournal_ok [OF h this] obtain new kvs where new: "readJournal (journal_text rs) f = Inr new" "holds new kvs"
      "map_of kvs = overlay (replayed rs) (map_of [])" by blast
  let ?rw = "\<lparr>rw_maxmods = m, rw_mods = 0, rw_cdb = Reader_new new, rw_journal = [], rw_adds = [], rw_removals = {}\<rparr>"
  have "fst (ReaderWriter_getitem k ?rw) = looked_up (map_of kvs k)" for k
  proof -
    have "holds (rd_file (rw_cdb ?rw)) kvs" using new(2) by (simp add: Reader_new_def)
    from getitem_unchanged [OF this] show ?thesis by simp
  qed
  then have "\<forall>k. fst (ReaderWriter_getitem k ?rw) = looked_up (overlay (replayed rs) Map.empty k)" unfolding new(3) by simp
  moreover have "Maker_finish Maker_new = Inr f" using f by (simp add: cdb_file_def)
  then have "cdb_open CHR ''n'' old (journal_text rs) m = Inr (HWriter ?rw)" using new(1) by (simp add: cdb_open_def ReaderWriter_new_def)
  ultimately show ?thesis by blast
qed

end
