(* ===== verification/Shlex.thy ===== *)
theory Shlex
  imports PyString
begin

text \<open>
  \<open>shlex.py\<close>: the lexer for command lines, as a state machine over its stream.

  The stream is the rest of its content.  \<open>sx_state\<close> is the character the lexer keeps as its state, \<open>None\<close> after
  the end of the file.  Sources that were pushed are kept as their streams and line numbers.  The attribute
  \<open>source\<close> is \<open>None\<close>, as it is unless somebody sets it, so that no token opens another file.
\<close>

record shlex =
  sx_instream :: string
  sx_commenters :: string
  sx_wordchars :: string
  sx_whitespace :: string
  sx_quotes :: string
  sx_state :: "char option"
  sx_pushback :: "string list"
  sx_lineno :: int
  sx_token :: string
  sx_backslash :: bool
  sx_filestack :: "(string \<times> int) list"

definition shlex_new :: "string \<Rightarrow> shlex" where
  "shlex_new instream = \<lparr>sx_instream = instream, sx_commenters = ''#'',
     sx_wordchars = ''abcdfeghijklmnopqrstuvwxyzABCDEFGHIJKLMNOPQRSTUVWXYZ0123456789_'',
     sx_whitespace = [CHR '' '', CHR 0x09, CHR 0x0D, CHR 0x0A], sx_quotes = [CHR 0x27, CHR 0x22], sx_state = Some CHR '' '',
     sx_pushback = [], sx_lineno = 1, sx_token = [], sx_backslash = False, sx_filestack = []\<rparr>"

definition push_token :: "string \<Rightarrow> shlex \<Rightarrow> shlex" where
  "push_token tok lx = lx\<lparr>sx_pushback := tok # sx_pushback lx\<rparr>"

definition push_source :: "string \<Rightarrow> shlex \<Rightarrow> shlex" where
  "push_source newstream lx =
     lx\<lparr>sx_filestack := (sx_instream lx, sx_lineno lx) # sx_filestack lx, sx_instream := newstream, sx_lineno := 1\<rparr>"

definition pop_source :: "(shlex, unit) act" where
  "pop_source lx = (case sx_filestack lx of
     [] \<Rightarrow> (Inl IndexError, lx)
   | (s, n) # files \<Rightarrow> (Inr (), lx\<lparr>sx_instream := s, sx_lineno := n, sx_filestack := files, sx_state := Some CHR '' ''\<rparr>))"

section \<open>Reading a token\<close>

text \<open>\<open>instream.read(1)\<close>, which counts the line, and \<open>instream.readline()\<close> behind a comment sign.\<close>

definition read1 :: "shlex \<Rightarrow> char option \<times> shlex" where
  "read1 lx = (case sx_instream lx of
     [] \<Rightarrow> (None, lx)
   | c # s \<Rightarrow> (Some c, lx\<lparr>sx_instream := s, sx_lineno := (if c = CHR 0x0A then sx_lineno lx + 1 else sx_lineno lx)\<rparr>))"

definition skip_line :: "shlex \<Rightarrow> shlex" where
  "skip_line lx = lx\<lparr>sx_instream := drop 1 (dropWhile (\<lambda>c. c \<noteq> CHR 0x0A) (sx_instream lx)), sx_lineno := sx_lineno lx + 1\<rparr>"

text \<open>
  One round of the loop of \<open>read_token\<close>: \<open>True\<close> when it goes on.  A state that is none of the known ones
  reads on for ever, also at the end of the file.
\<close>

definition blank_step :: "char option \<Rightarrow> (shlex, bool) act" where
  "blank_step nextchar lx = (case nextchar of
     None \<Rightarrow> (Inr False, lx\<lparr>sx_state := None\<rparr>)
   | Some c \<Rightarrow>
       if c \<in> set (sx_whitespace lx) then (Inr (sx_token lx = []), lx)
       else if c \<in> set (sx_commenters lx) then (Inr True, skip_line lx)
       else if c \<in> set (sx_wordchars lx) then (Inr True, lx\<lparr>sx_token := [c], sx_state := Some CHR ''a''\<rparr>)
       else if c \<in> set (sx_quotes lx) then (Inr True, lx\<lparr>sx_token := [c], sx_state := Some c\<rparr>)
       else (Inr False, lx\<lparr>sx_token := [c]\<rparr>))"

definition quote_step :: "char \<Rightarrow> char option \<Rightarrow> (shlex, bool) act" where
  "quote_step q nextchar lx =
     (let lx = lx\<lparr>sx_token := sx_token lx @ (case nextchar of None \<Rightarrow> [] | Some c \<Rightarrow> [c])\<rparr> in
      if nextchar = Some CHR 0x5C then (Inr True, lx\<lparr>sx_backslash := \<not> sx_backslash lx\<rparr>)
      else if \<not> sx_backslash lx \<and> nextchar = Some q then (Inr False, lx\<lparr>sx_state := Some CHR '' ''\<rparr>)
      else if sx_backslash lx then (Inr True, lx\<lparr>sx_backslash := False\<rparr>)
      else if nextchar = None then (Inl ValueError, lx)
      else (Inr True, lx))"

definition word_step :: "char option \<Rightarrow> (shlex, bool) act" where
  "word_step nextchar lx = (case nextchar of
     None \<Rightarrow> (Inr False, lx\<lparr>sx_state := None\<rparr>)
   | Some c \<Rightarrow>
       if c \<in> set (sx_whitespace lx) then (Inr (sx_token lx = []), lx\<lparr>sx_state := Some CHR '' ''\<rparr>)
       else if c \<in> set (sx_commenters lx) then (Inr True, skip_line lx)
       else if c \<in> set (sx_wordchars lx) \<or> c \<in> set (sx_quotes lx) then (Inr True, lx\<lparr>sx_token := sx_token lx @ [c]\<rparr>)
       else (Inr (sx_token lx = []), lx\<lparr>sx_pushback := [c] # sx_pushback lx, sx_state := Some CHR '' ''\<rparr>))"

definition read_step :: "(shlex, bool) act" where
  "read_step lx0 = (case read1 lx0 of (nextchar, lx) \<Rightarrow>
     (case sx_state lx of
        None \<Rightarrow> (Inr False, lx\<lparr>sx_token := []\<rparr>)
      | Some st \<Rightarrow>
          if st = CHR '' '' then blank_step nextchar lx
          else if st \<in> set (sx_quotes lx) then quote_step st nextchar lx
          else if st = CHR ''a'' then word_step nextchar lx
          else if nextchar = None then (Inl NoReturn, lx)
          else (Inr True, lx)))"

text \<open>Every round but one that ends a backslash at the end of the file consumes a character.\<close>

definition lexer_rounds :: "shlex \<Rightarrow> nat" where
  "lexer_rounds lx = 2 * length (sx_instream lx) + (if sx_backslash lx then 1 else 0)"

lemma length_skip_line: "length (sx_instream (skip_line lx)) \<le> length (sx_instream lx)"
  using length_dropWhile_le [of "\<lambda>c. c \<noteq> CHR 0x0A" "sx_instream lx"] by (simp add: skip_line_def)

lemma skip_line_simps [simp]:
  "sx_backslash (skip_line lx) = sx_backslash lx" "sx_pushback (skip_line lx) = sx_pushback lx"
  "sx_token (skip_line lx) = sx_token lx" "sx_state (skip_line lx) = sx_state lx" "sx_filestack (skip_line lx) = sx_filestack lx"
  "sx_quotes (skip_line lx) = sx_quotes lx" "sx_wordchars (skip_line lx) = sx_wordchars lx"
  "sx_whitespace (skip_line lx) = sx_whitespace lx" "sx_commenters (skip_line lx) = sx_commenters lx"
  by (simp_all add: skip_line_def)

lemma read_step_rounds:
  assumes "read_step lx = (Inr True, lx')"
  shows "lexer_rounds lx' < lexer_rounds lx"
proof (cases "sx_instream lx")
  case Nil
  then have "sx_instream lx' = [] \<and> sx_backslash lx \<and> \<not> sx_backslash lx'"
    using assms by (auto simp: read_step_def read1_def blank_step_def quote_step_def word_step_def Let_def split: option.splits if_splits)
  with Nil show ?thesis by (simp add: lexer_rounds_def)
next
  case (Cons c s)
  have "length (sx_instream lx') \<le> length s"
    using assms Cons length_skip_line [of "lx\<lparr>sx_instream := s, sx_lineno := (if c = CHR 0x0A then sx_lineno lx + 1 else sx_lineno lx)\<rparr>"]
    by (auto simp: read_step_def read1_def blank_step_def quote_step_def word_step_def Let_def split: option.splits if_splits)
  with Cons show ?thesis by (simp add: lexer_rounds_def)
qed

function read_loop :: "(shlex, unit) act" where
  "read_loop lx = (case read_step lx of
     (Inl e, lx') \<Rightarrow> (Inl e, lx')
   | (Inr go, lx') \<Rightarrow> if go then read_loop lx' else (Inr (), lx'))"
  by pat_completeness auto
termination
  by (relation "measure lexer_rounds") (auto dest!: read_step_rounds [OF sym])

declare read_loop.simps [simp del]

definition read_token :: "(shlex, string) act" where
  "read_token = seqA read_loop (bindA (getA sx_token) (\<lambda>result. seqA (modifyA (\<lambda>lx. lx\<lparr>sx_token := []\<rparr>)) (retA result)))"

text \<open>\<open>get_token\<close>: a token pushed back, or the next of the stream; at the end of a stream that was pushed the one below.\<close>

lemma read_step_filestack: "sx_filestack (snd (read_step lx)) = sx_filestack lx"
  by (auto simp: read_step_def read1_def blank_step_def quote_step_def word_step_def Let_def split: option.splits list.splits)

lemma read_loop_filestack: "sx_filestack (snd (read_loop lx)) = sx_filestack lx"
proof (induction lx rule: read_loop.induct)
  case (1 lx)
  show ?case using 1 read_step_filestack [of lx] by (subst read_loop.simps) (auto split: prod.split sum.split)
qed

lemma read_token_filestack: "read_token lx = (r, lx') \<Longrightarrow> sx_filestack lx' = sx_filestack lx"
  using read_loop_filestack [of lx] by (auto simp: read_token_def act_defs split: prod.splits sum.splits)

lemma pop_source_shorter: "sx_filestack lx \<noteq> [] \<Longrightarrow> length (sx_filestack (snd (pop_source lx))) < length (sx_filestack lx)"
  by (cases "sx_filestack lx") (auto simp: pop_source_def)

function get_token :: "(shlex, string) act" where
  "get_token lx = (case sx_pushback lx of
     tok # rest \<Rightarrow> (Inr tok, lx\<lparr>sx_pushback := rest\<rparr>)
   | [] \<Rightarrow> (case read_token lx of
       (Inl e, lx') \<Rightarrow> (Inl e, lx')
     | (Inr raw, lx') \<Rightarrow>
         if raw \<noteq> [] then (Inr raw, lx')
         else if sx_filestack lx' = [] then (Inr [], lx')
         else get_token (snd (pop_source lx'))))"
  by pat_completeness auto
termination
proof (relation "measure (\<lambda>lx. length (sx_filestack lx))", simp, goal_cases)
  case (1 lx res lx' raw)
  then show ?case using read_token_filestack [of lx "Inr raw" lx'] pop_source_shorter [of lx'] by simp
qed

declare get_token.simps [simp del]

end
