(* ===== verification/Tokenizer.thy ===== *)
theory Tokenizer
  imports Shlex
begin

text \<open>
  \<open>callbacks.Tokenizer\<close>: a line of commands as a tree of words, with quotes, brackets for nested commands and
  pipes; and \<open>utils.str.dqrepr\<close>, which writes a string so that the tokenizer reads it back.
\<close>

section \<open>Escapes\<close>

definition is_octal :: "char \<Rightarrow> bool" where
  "is_octal c \<longleftrightarrow> 48 \<le> ord c \<and> ord c \<le> 55"

definition hex_val :: "char \<Rightarrow> nat option" where
  "hex_val c =
     (if is_digit c then Some (ord c - 48)
      else if 97 \<le> ord c \<and> ord c \<le> 102 then Some (ord c - 87)
      else if 65 \<le> ord c \<and> ord c \<le> 70 then Some (ord c - 55) else None)"

definition simple_escape :: "char \<Rightarrow> string option" where
  "simple_escape c = map_of [(CHR 0x0A, []), (CHR 0x5C, [CHR 0x5C]), (CHR 0x27, [CHR 0x27]), (CHR 0x22, [CHR 0x22]),
     (CHR ''b'', [CHR 0x08]), (CHR ''f'', [CHR 0x0C]), (CHR ''t'', [CHR 0x09]), (CHR ''n'', [CHR 0x0A]),
     (CHR ''r'', [CHR 0x0D]), (CHR ''v'', [CHR 0x0B]), (CHR ''a'', [CHR 0x07])] c"

text \<open>\<open>s.decode('string-escape')\<close>: up to three octal digits, two hexadecimal ones; an unknown escape stays as it is.\<close>

function string_unescape :: "string \<Rightarrow> string res" where
  "string_unescape [] = Inr []"
| "string_unescape (c # s) =
     (if c \<noteq> CHR 0x5C then bindR (string_unescape s) (\<lambda>r. Inr (c # r))
      else (case s of
        [] \<Rightarrow> Inl ValueError
      | d # s' \<Rightarrow>
          (case simple_escape d of
             Some x \<Rightarrow> bindR (string_unescape s') (\<lambda>r. Inr (x @ r))
           | None \<Rightarrow>
               if is_octal d then
                 let ds = d # takeWhile is_octal (take 2 s') in
                 bindR (string_unescape (drop (length ds - 1) s')) (\<lambda>r. Inr (char_of (foldl (\<lambda>n c. 8 * n + (ord c - 48)) 0 ds mod 256) # r))
               else if d = CHR ''x'' then
                 (case map hex_val (take 2 s') of
                    [Some i, Some j] \<Rightarrow> bindR (string_unescape (drop 2 s')) (\<lambda>r. Inr (char_of (16 * i + j) # r))
                  | _ \<Rightarrow> Inl ValueError)
               else bindR (string_unescape s) (\<lambda>r. Inr (c # r)))))"
  by pat_completeness auto
termination
  by (relation "measure length") auto

declare string_unescape.simps(2) [simp del]

text \<open>\<open>dqrepr\<close>: the escape of each character, between double quotes.\<close>

definition hex_digit :: "nat \<Rightarrow> char" where
  "hex_digit n = (if n < 10 then char_of (48 + n) else char_of (87 + n))"

definition escape_char :: "char \<Rightarrow> string" where
  "escape_char c =
     (if c = CHR 0x27 \<or> c = CHR 0x5C \<or> c = CHR 0x22 then [CHR 0x5C, c]
      else if c = CHR 0x09 then [CHR 0x5C, CHR ''t''] else if c = CHR 0x0A then [CHR 0x5C, CHR ''n'']
      else if c = CHR 0x0D then [CHR 0x5C, CHR ''r'']
      else if ord c < 32 \<or> 127 \<le> ord c then [CHR 0x5C, CHR ''x'', hex_digit (ord c div 16), hex_digit (ord c mod 16)]
      else [c])"

definition dqrepr :: "string \<Rightarrow> string" where
  "dqrepr s = [CHR 0x22] @ concat (map escape_char s) @ [CHR 0x22]"

section \<open>The tokenizer\<close>

text \<open>What a line means: words and the lists of nested commands.\<close>

datatype cmd = Word string | Nested "cmd list"

record Tokenizer =
  tk_left :: string
  tk_right :: string
  tk_pipe :: bool
  tk_quotes :: string
  tk_validChars :: string

definition base_validChars :: string where
  "base_validChars = filter (\<lambda>c. c \<notin> {CHR 0x00, CHR 0x0D, CHR 0x0A, CHR '' '', CHR 0x09}) (map char_of [0..<256 :: nat])"

definition Tokenizer_new :: "string \<Rightarrow> bool \<Rightarrow> string \<Rightarrow> Tokenizer res" where
  "Tokenizer_new brackets pipe quotes =
     (let valid = filter (\<lambda>c. c \<notin> set quotes) (filter (\<lambda>c. \<not> (pipe \<and> c = CHR ''|'')) (filter (\<lambda>c. c \<notin> set brackets) base_validChars)) in
      case brackets of
        [] \<Rightarrow> Inr \<lparr>tk_left = [], tk_right = [], tk_pipe = pipe, tk_quotes = quotes, tk_validChars = valid\<rparr>
      | [l] \<Rightarrow> Inl IndexError
      | l # r # _ \<Rightarrow> Inr \<lparr>tk_left = [l], tk_right = [r], tk_pipe = pipe, tk_quotes = quotes, tk_validChars = valid\<rparr>)"

definition handleToken :: "Tokenizer \<Rightarrow> string \<Rightarrow> string res" where
  "handleToken tk token =
     (if token = [] then Inl IndexError
      else if hd token = List.last token \<and> hd token \<in> set (tk_quotes tk) then string_unescape (butlast (tl token))
      else Inr token)"

text \<open>A token that is not empty is taken from the stream, from the tokens pushed back or from the one begun.\<close>

definition lexer_left :: "shlex \<Rightarrow> nat" where
  "lexer_left lx = 2 * length (sx_instream lx) + length (sx_pushback lx)
     + 2 * sum_list (map (\<lambda>(s, n). length s) (sx_filestack lx))"

lemma read_step_left:
  assumes "read_step lx = (r, lx')"
  shows "lexer_left lx' \<le> lexer_left lx \<and> (sx_token lx' \<noteq> [] \<longrightarrow> lexer_left lx' < lexer_left lx \<or> sx_token lx \<noteq> [])"
proof (cases "sx_instream lx")
  case Nil
  then show ?thesis using assms
    by (auto simp: read_step_def read1_def blank_step_def quote_step_def word_step_def Let_def lexer_left_def split: option.splits if_splits)
next
  case (Cons c s)
  have "2 * length (sx_instream lx') + length (sx_pushback lx') < 2 * length (sx_instream lx) + length (sx_pushback lx)"
    using assms Cons length_skip_line [of "lx\<lparr>sx_instream := s, sx_lineno := (if c = CHR 0x0A then sx_lineno lx + 1 else sx_lineno lx)\<rparr>"]
    by (auto simp: read_step_def read1_def blank_step_def quote_step_def word_step_def Let_def split: option.splits if_splits)
  moreover have "sx_filestack lx' = sx_filestack lx" using read_step_filestack [of lx] assms by simp
  ultimately show ?thesis by (simp add: lexer_left_def)
qed

lemma read_loop_left:
  "read_loop lx = (r, lx') \<Longrightarrow> lexer_left lx' \<le> lexer_left lx \<and> (sx_token lx' \<noteq> [] \<longrightarrow> lexer_left lx' < lexer_left lx \<or> sx_token lx \<noteq> [])"
proof (induction lx rule: read_loop.induct)
  case (1 lx)
  obtain r1 lx1 where one: "read_step lx = (r1, lx1)" by (cases "read_step lx")
  note step = read_step_left [OF one]
  show ?case
  proof (cases "r1 = Inr True")
    case True
    then have "read_loop lx1 = (r, lx')" using "1.prems" one by (simp add: read_loop.simps [of lx])
    from "1.IH" [OF one [symmetric] True _ this] step show ?thesis by auto
  next
    case False
    then have "lx' = lx1" using "1.prems" one by (simp add: read_loop.simps [of lx] split: sum.splits if_splits)
    with step show ?thesis by simp
  qed
qed

definition lexer_size :: "shlex \<Rightarrow> nat" where
  "lexer_size lx = lexer_left lx + (if sx_token lx = [] then 0 else 1)"

lemma read_token_size:
  assumes "read_token lx = (Inr tok, lx')"
  shows "lexer_size lx' \<le> lexer_size lx \<and> (tok \<noteq> [] \<longrightarrow> lexer_size lx' < lexer_size lx)"
proof -
  obtain lx1 where lx1: "read_loop lx = (Inr (), lx1)" "tok = sx_token lx1" "lx' = lx1\<lparr>sx_token := []\<rparr>"
    using assms by (auto simp: read_token_def act_defs split: prod.splits sum.splits)
  then have "lexer_left lx' = lexer_left lx1" by (simp add: lexer_left_def)
  with read_loop_left [OF lx1(1)] lx1(2,3) show ?thesis by (auto simp: lexer_size_def)
qed

lemma pop_source_size: "sx_filestack lx \<noteq> [] \<Longrightarrow> lexer_size (snd (pop_source lx)) \<le> lexer_size lx"
  by (cases "sx_filestack lx") (auto simp: pop_source_def lexer_size_def lexer_left_def)

lemma get_token_size:
  "get_token lx = (Inr tok, lx') \<Longrightarrow> lexer_size lx' \<le> lexer_size lx \<and> (tok \<noteq> [] \<longrightarrow> lexer_size lx' < lexer_size lx)"
proof (induction lx rule: get_token.induct)
  case (1 lx)
  show ?case
  proof (cases "sx_pushback lx")
    case (Cons t rest)
    with "1.prems" show ?thesis by (auto simp: get_token.simps [of lx] lexer_size_def lexer_left_def)
  next
    case Nil
    with "1.prems" obtain raw lx1 where one: "read_token lx = (Inr raw, lx1)"
      by (auto simp: get_token.simps [of lx] split: prod.splits sum.splits)
    note size = read_token_size [OF one]
    show ?thesis
    proof (cases "raw = [] \<and> sx_filestack lx1 \<noteq> []")
      case False
      with "1.prems" Nil one have "lx' = lx1" "tok = raw" by (auto simp: get_token.simps [of lx] split: if_splits)
      with size show ?thesis by simp
    next
      case True
      with "1.prems" Nil one have "get_token (snd (pop_source lx1)) = (Inr tok, lx')" by (simp add: get_token.simps [of lx])
      from "1.IH" [OF Nil one [symmetric] refl _ _ this] True pop_source_size [of lx1] size show ?thesis by auto
    qed
  qed
qed

text \<open>\<open>_insideBrackets\<close>: the words up to the closing bracket.\<close>

function insideBrackets :: "Tokenizer \<Rightarrow> (shlex, cmd list) act" where
  "insideBrackets tk lx = (case get_token lx of
     (Inl e, lx1) \<Rightarrow> (Inl e, lx1)
   | (Inr token, lx1) \<Rightarrow>
       if token = [] then (Inl SyntaxError, lx1)
       else if token = tk_right tk then (Inr [], lx1)
       else if token = tk_left tk then
         (case insideBrackets tk lx1 of
            (Inl e, lx2) \<Rightarrow> (Inl e, lx2)
          | (Inr sub, lx2) \<Rightarrow>
              (case insideBrackets tk lx2 of (Inl e, lx3) \<Rightarrow> (Inl e, lx3) | (Inr ret, lx3) \<Rightarrow> (Inr (Nested sub # ret), lx3)))
       else
         (case handleToken tk token of
            Inl e \<Rightarrow> (Inl e, lx1)
          | Inr w \<Rightarrow> (case insideBrackets tk lx1 of (Inl e, lx3) \<Rightarrow> (Inl e, lx3) | (Inr ret, lx3) \<Rightarrow> (Inr (Word w # ret), lx3))))"
  by pat_completeness auto

lemma insideBrackets_size:
  assumes "insideBrackets_dom (tk, lx)"
  shows "insideBrackets tk lx = (Inr ret, lx') \<Longrightarrow> lexer_size lx' \<le> lexer_size lx"
  using assms
proof (induction tk lx arbitrary: ret lx' rule: insideBrackets.pinduct)
  case (1 tk lx)
  obtain token lx1 where t: "get_token lx = (Inr token, lx1)" "token \<noteq> []"
    using "1.prems" "1.hyps" by (auto simp: insideBrackets.psimps split: prod.splits sum.splits if_splits)
  have less: "lexer_size lx1 < lexer_size lx" using get_token_size [OF t(1)] t(2) by blast
  consider "token = tk_right tk" | "token \<noteq> tk_right tk" "token = tk_left tk" | "token \<noteq> tk_right tk" "token \<noteq> tk_left tk" by blast
  then show ?case
  proof cases
    case 1
    with "1.prems" "1.hyps" t less show ?thesis by (simp add: insideBrackets.psimps)
  next
    case left: 2
    then obtain sub lx2 ret3 where s: "insideBrackets tk lx1 = (Inr sub, lx2)" "insideBrackets tk lx2 = (Inr ret3, lx')"
      using "1.prems" "1.hyps" t by (auto simp: insideBrackets.psimps split: prod.splits sum.splits if_splits)
    from "1.IH"(1) [OF t(1) [symmetric] refl t(2) left s(1)] "1.IH"(2) [OF t(1) [symmetric] refl t(2) left s(1) [symmetric] refl s(2)] less
    show ?thesis by simp
  next
    case other: 3
    then obtain w ret3 where w: "handleToken tk token = Inr w" "insideBrackets tk lx1 = (Inr ret3, lx')"
      using "1.prems" "1.hyps" t by (auto simp: insideBrackets.psimps split: prod.splits sum.splits if_splits)
    from "1.IH"(3) [OF t(1) [symmetric] refl t(2) other w] less show ?thesis by simp
  qed
qed

lemma insideBrackets_total: "All insideBrackets_dom"
proof (relation "measure (\<lambda>(tk, lx). lexer_size lx)", simp, goal_cases)
  case (1 tk lx res lx1 token)
  then show ?case using get_token_size [of lx token lx1] by simp
next
  case (2 tk lx res lx1 token res2 lx2 sub)
  then show ?case using get_token_size [of lx token lx1] insideBrackets_size [of tk lx1 sub lx2] by simp
next
  case (3 tk lx res lx1 token w)
  then show ?case using get_token_size [of lx token lx1] by simp
qed

termination insideBrackets
  by (rule insideBrackets_total)

declare insideBrackets.simps [simp del]

text \<open>
  The commands of a pipe: the last one has the one before it as an argument.  The others are all appended to
  that one, as in the code, where \<open>args[-1]\<close> is the same list in every round.
\<close>

definition pipe_args :: "cmd list list \<Rightarrow> cmd list \<Rightarrow> cmd list" where
  "pipe_args ends args = (case rev ends of [] \<Rightarrow> args | e # es \<Rightarrow> args @ [Nested (e @ map Nested es)])"

function tokenize_loop :: "Tokenizer \<Rightarrow> cmd list list \<Rightarrow> cmd list \<Rightarrow> (shlex, cmd list) act" where
  "tokenize_loop tk ends args lx = (case get_token lx of
     (Inl e, lx1) \<Rightarrow> (Inl e, lx1)
   | (Inr token, lx1) \<Rightarrow>
       if token = [] then
         (if ends \<noteq> [] \<and> args = [] then (Inl SyntaxError, lx1) else (Inr (pipe_args ends args), lx1))
       else if token = ''|'' \<and> tk_pipe tk then
         (if args = [] then (Inl SyntaxError, lx1) else tokenize_loop tk (ends @ [args]) [] lx1)
       else if token = tk_left tk then
         (case insideBrackets tk lx1 of
            (Inl e, lx2) \<Rightarrow> (Inl e, lx2)
          | (Inr sub, lx2) \<Rightarrow> tokenize_loop tk ends (args @ [Nested sub]) lx2)
       else if token = tk_right tk then (Inl SyntaxError, lx1)
       else
         (case handleToken tk token of
            Inl e \<Rightarrow> (Inl e, lx1)
          | Inr w \<Rightarrow> tokenize_loop tk ends (args @ [Word w]) lx1))"
  by pat_completeness auto
termination
proof (relation "measure (\<lambda>(tk, ends, args, lx). lexer_size lx)", simp, goal_cases)
  case (1 tk ends args lx res lx1 token)
  then show ?case using get_token_size [of lx token lx1] by simp
next
  case (2 tk ends args lx res lx1 token res2 lx2 sub)
  moreover have "insideBrackets_dom (tk, lx1)" using insideBrackets_total by blast
  ultimately show ?case using get_token_size [of lx token lx1] insideBrackets_size [of tk lx1 sub lx2] by simp
next
  case (3 tk ends args lx res lx1 token w)
  then show ?case using get_token_size [of lx token lx1] by simp
qed

declare tokenize_loop.simps [simp del]

definition Tokenizer_tokenize :: "Tokenizer \<Rightarrow> string \<Rightarrow> cmd list res" where
  "Tokenizer_tokenize tk s =
     fst (tokenize_loop tk [] [] ((shlex_new s)\<lparr>sx_commenters := [], sx_quotes := tk_quotes tk, sx_wordchars := tk_validChars tk\<rparr>))"

text \<open>\<open>tokenize\<close>: the configuration is whether commands may be nested, the brackets, pipes and quotes.\<close>

definition tokenize :: "bool \<Rightarrow> string \<Rightarrow> bool \<Rightarrow> string \<Rightarrow> string \<Rightarrow> cmd list res" where
  "tokenize nested brackets pipeSyntax quotes s =
     (case bindR (Tokenizer_new (if nested then brackets else []) (nested \<and> pipeSyntax) quotes) (\<lambda>tk. Tokenizer_tokenize tk s) of
        Inl e \<Rightarrow> Inl (if e = ValueError then SyntaxError else e)
      | Inr args \<Rightarrow> Inr args)"

end
