(* ===== verification/TokenizerLaws.thy ===== *)
theory TokenizerLaws
  imports Tokenizer
begin

text \<open>
  How the tokenizer reads the text of commands: words, quoted strings, brackets and pipes.  \<open>before\<close> says that
  a lexer stands before a text; the lemmas on tokens move it over the text, those on commands read them.
\<close>

section \<open>Escaping\<close>

lemma hex_val_digit: "n < 16 \<Longrightarrow> hex_val (hex_digit n) = Some n"
  by (auto simp: hex_val_def hex_digit_def is_digit_def)

lemma unescape_escape: "string_unescape (escape_char c @ s) = bindR (string_unescape s) (\<lambda>r. Inr (c # r))"
proof -
  consider "c = CHR 0x27 \<or> c = CHR 0x5C \<or> c = CHR 0x22" | "c = CHR 0x09" | "c = CHR 0x0A" | "c = CHR 0x0D"
    | "c \<notin> {CHR 0x27, CHR 0x5C, CHR 0x22, CHR 0x09, CHR 0x0A, CHR 0x0D}" "ord c < 32 \<or> 127 \<le> ord c"
    | "c \<notin> {CHR 0x27, CHR 0x5C, CHR 0x22, CHR 0x09, CHR 0x0A, CHR 0x0D}" "\<not> (ord c < 32 \<or> 127 \<le> ord c)" by blast
  then show ?thesis
  proof cases
    case 5
    have "ord c < 256" by simp
    then have hi: "ord c div 16 < 16" by presburger
    have "char_of (16 * (ord c div 16) + ord c mod 16) = c" by simp
    moreover have "simple_escape CHR ''x'' = None" "\<not> is_octal CHR ''x''" by (simp_all add: simple_escape_def is_octal_def)
    moreover have "escape_char c = [CHR 0x5C, CHR ''x'', hex_digit (ord c div 16), hex_digit (ord c mod 16)]"
      using 5 by (simp add: escape_char_def)
    ultimately show ?thesis using hex_val_digit [OF hi] hex_val_digit [of "ord c mod 16"]
      by (simp add: string_unescape.simps(2) [of "CHR 0x5C"] numeral_2_eq_2)
  qed (auto simp: escape_char_def string_unescape.simps(2) simple_escape_def)
qed

lemma unescape_dqrepr: "string_unescape (concat (map escape_char s)) = Inr s"
  by (induction s) (simp_all add: unescape_escape)

section \<open>The lexer before a text\<close>

definition is_blank :: "char \<Rightarrow> bool" where
  "is_blank c \<longleftrightarrow> c \<in> {CHR '' '', CHR 0x09, CHR 0x0D, CHR 0x0A}"

definition good_tokenizer :: "Tokenizer \<Rightarrow> bool" where
  "good_tokenizer tk \<longleftrightarrow> set (tk_quotes tk) \<subseteq> {CHR 0x22, CHR 0x27, CHR 0x60}
     \<and> (\<forall>c. c \<in> set (tk_validChars tk) \<longrightarrow> \<not> is_blank c \<and> c \<notin> set (tk_quotes tk))"

text \<open>A character that is a token of its own.\<close>

definition punct :: "Tokenizer \<Rightarrow> char \<Rightarrow> bool" where
  "punct tk c \<longleftrightarrow> \<not> is_blank c \<and> c \<notin> set (tk_validChars tk) \<and> c \<notin> set (tk_quotes tk)"

definition set_up :: "Tokenizer \<Rightarrow> shlex \<Rightarrow> bool" where
  "set_up tk lx \<longleftrightarrow> sx_commenters lx = [] \<and> sx_quotes lx = tk_quotes tk \<and> sx_wordchars lx = tk_validChars tk
     \<and> sx_whitespace lx = [CHR '' '', CHR 0x09, CHR 0x0D, CHR 0x0A] \<and> sx_filestack lx = []"

definition before :: "Tokenizer \<Rightarrow> string \<Rightarrow> shlex \<Rightarrow> bool" where
  "before tk s lx \<longleftrightarrow> set_up tk lx \<and> sx_token lx = [] \<and> \<not> sx_backslash lx \<and>
     (sx_pushback lx = [] \<and> sx_state lx = Some CHR '' '' \<and> (sx_instream lx = s \<or> (\<exists>c. is_blank c \<and> s = c # sx_instream lx))
      \<or> (\<exists>c. punct tk c \<and> sx_pushback lx = [[c]] \<and> sx_state lx = Some CHR '' '' \<and> s = c # sx_instream lx)
      \<or> s = [] \<and> sx_pushback lx = [] \<and> sx_state lx = None \<and> sx_instream lx = [])"

lemma whitespace_blank: "set_up tk lx \<Longrightarrow> c \<in> set (sx_whitespace lx) \<longleftrightarrow> is_blank c"
  by (simp add: set_up_def is_blank_def)

lemma read_step_Cons:
  "sx_instream lx = c # s \<Longrightarrow> read_step lx =
    (let lx = lx\<lparr>sx_instream := s, sx_lineno := (if c = CHR 0x0A then sx_lineno lx + 1 else sx_lineno lx)\<rparr> in
     case sx_state lx of
        None \<Rightarrow> (Inr False, lx\<lparr>sx_token := []\<rparr>)
      | Some st \<Rightarrow>
          if st = CHR '' '' then blank_step (Some c) lx
          else if st \<in> set (sx_quotes lx) then quote_step st (Some c) lx
          else if st = CHR ''a'' then word_step (Some c) lx
          else (Inr True, lx))"
  by (simp add: read_step_def read1_def split: option.split)

lemma read_loop_step:
  "read_step lx = (Inr True, lx') \<Longrightarrow> read_loop lx = read_loop lx'"
  "read_step lx = (Inr False, lx') \<Longrightarrow> read_loop lx = (Inr (), lx')"
  by (simp_all add: read_loop.simps [of lx])

lemma get_token_read:
  assumes "sx_pushback lx = []" "sx_filestack lx = []" "read_loop lx = (Inr (), lx')"
  shows "get_token lx = (Inr (sx_token lx'), lx'\<lparr>sx_token := []\<rparr>)"
proof -
  have "read_token lx = (Inr (sx_token lx'), lx'\<lparr>sx_token := []\<rparr>)" by (simp add: read_token_def act_defs assms(3))
  moreover have "sx_filestack lx' = []" using read_loop_filestack [of lx] assms(2,3) by simp
  ultimately show ?thesis by (simp add: get_token.simps [of lx] assms(1))
qed

lemma get_token_same:
  "sx_pushback lx = [] \<Longrightarrow> sx_pushback lx' = [] \<Longrightarrow> read_loop lx = read_loop lx' \<Longrightarrow> get_token lx = get_token lx'"
  by (simp add: get_token.simps [of lx] get_token.simps [of lx'] read_token_def act_defs)

section \<open>Tokens\<close>

lemma skip_blank:
  assumes "before tk (c # s) lx" "is_blank c"
  obtains lx' where "before tk s lx'" "get_token lx = get_token lx'"
proof (cases "sx_instream lx = c # s")
  case False
  then have "before tk s lx" using assms by (auto simp: before_def punct_def)
  then show thesis using that by blast
next
  case True
  let ?lx = "lx\<lparr>sx_instream := s, sx_lineno := (if c = CHR 0x0A then sx_lineno lx + 1 else sx_lineno lx)\<rparr>"
  have b: "set_up tk lx" "sx_token lx = []" "sx_pushback lx = []" "sx_state lx = Some CHR '' ''" "\<not> sx_backslash lx"
    using assms True by (auto simp: before_def punct_def)
  then have "before tk s ?lx" by (simp add: before_def set_up_def)
  moreover have "read_step lx = (Inr True, ?lx)"
    using b whitespace_blank [OF b(1)] assms(2) by (simp add: read_step_Cons [OF True] blank_step_def)
  from get_token_same [OF b(3) _ read_loop_step(1) [OF this]] have "get_token lx = get_token ?lx" using b(3) by simp
  ultimately show thesis by (rule that)
qed

lemma end_token:
  assumes "before tk [] lx"
  shows "\<exists>lx'. get_token lx = (Inr [], lx')"
proof -
  have b: "set_up tk lx" "sx_token lx = []" "sx_pushback lx = []" "sx_instream lx = []" "sx_filestack lx = []"
    "sx_state lx = None \<or> sx_state lx = Some CHR '' ''" using assms by (auto simp: before_def set_up_def)
  then have "\<exists>lx'. read_step lx = (Inr False, lx') \<and> sx_token lx' = []"
    by (auto simp: read_step_def read1_def blank_step_def)
  then obtain lx' where "read_loop lx = (Inr (), lx')" "sx_token lx' = []" using read_loop_step(2) by blast
  with get_token_read [OF b(3,5) this(1)] show ?thesis by simp
qed

lemma punct_token:
  assumes "before tk (c # s) lx" "punct tk c"
  obtains lx' where "get_token lx = (Inr [c], lx')" "before tk s lx'"
proof (cases "sx_pushback lx = [[c]]")
  case True
  then have "get_token lx = (Inr [c], lx\<lparr>sx_pushback := []\<rparr>)" "before tk s (lx\<lparr>sx_pushback := []\<rparr>)"
    using assms by (auto simp: get_token.simps [of lx] before_def set_up_def)
  then show thesis by (rule that)
next
  case False
  then have b: "set_up tk lx" "sx_token lx = []" "sx_pushback lx = []" "sx_state lx = Some CHR '' ''" "\<not> sx_backslash lx"
    "sx_instream lx = c # s" using assms by (auto simp: before_def punct_def)
  let ?lx = "lx\<lparr>sx_instream := s, sx_lineno := (if c = CHR 0x0A then sx_lineno lx + 1 else sx_lineno lx), sx_token := [c]\<rparr>"
  have "read_step lx = (Inr False, ?lx)"
    using b whitespace_blank [OF b(1)] assms(2) by (simp add: read_step_Cons [OF b(6)] blank_step_def set_up_def punct_def)
  then have "read_loop lx = (Inr (), ?lx)" by (rule read_loop_step(2))
  from get_token_read [OF b(3) _ this] b(1) have "get_token lx = (Inr [c], ?lx\<lparr>sx_token := []\<rparr>)" by (simp add: set_up_def)
  moreover have "before tk s (?lx\<lparr>sx_token := []\<rparr>)" using b by (simp add: before_def set_up_def)
  ultimately show thesis by (rule that)
qed

text \<open>A string between double quotes: the lexer stops at the quote that is not escaped.\<close>

definition reads_to :: "shlex \<Rightarrow> string \<Rightarrow> string \<Rightarrow> shlex \<Rightarrow> bool" where
  "reads_to lx t s lx' \<longleftrightarrow> sx_instream lx' = s \<and> sx_token lx' = sx_token lx @ t \<and> sx_state lx' = sx_state lx
     \<and> sx_backslash lx' = sx_backslash lx \<and> sx_pushback lx' = sx_pushback lx \<and> sx_quotes lx' = sx_quotes lx
     \<and> sx_wordchars lx' = sx_wordchars lx \<and> sx_whitespace lx' = sx_whitespace lx \<and> sx_commenters lx' = sx_commenters lx
     \<and> sx_filestack lx' = sx_filestack lx"

lemma quote_char:
  assumes "sx_state lx = Some CHR 0x22" "CHR 0x22 \<in> set (sx_quotes lx)" "sx_instream lx = d # s" "\<not> sx_backslash lx"
    and "d \<noteq> CHR 0x22" "d \<noteq> CHR 0x5C"
  shows "\<exists>lx'. read_loop lx = read_loop lx' \<and> reads_to lx [d] s lx'"
proof -
  have "\<exists>lx'. read_step lx = (Inr True, lx') \<and> reads_to lx [d] s lx'"
    using assms by (auto simp: read_step_Cons [OF assms(3)] quote_step_def Let_def reads_to_def)
  then show ?thesis using read_loop_step(1) by blast
qed

lemma quote_pair:
  assumes "sx_state lx = Some CHR 0x22" "CHR 0x22 \<in> set (sx_quotes lx)" "sx_instream lx = CHR 0x5C # d # s" "\<not> sx_backslash lx"
  shows "\<exists>lx'. read_loop lx = read_loop lx' \<and> reads_to lx [CHR 0x5C, d] s lx'"
proof -
  let ?lx1 = "lx\<lparr>sx_instream := d # s, sx_token := sx_token lx @ [CHR 0x5C], sx_backslash := True\<rparr>"
  have "read_step lx = (Inr True, ?lx1)"
    using assms by (simp add: read_step_Cons [OF assms(3)] quote_step_def Let_def)
  moreover have "\<exists>lx'. read_step ?lx1 = (Inr True, lx') \<and> reads_to lx [CHR 0x5C, d] s lx'"
    using assms by (auto simp: read_step_Cons [of ?lx1 d s] quote_step_def Let_def reads_to_def)
  ultimately show ?thesis using read_loop_step(1) by metis
qed

lemma reads_to_trans: "reads_to lx t s lx1 \<Longrightarrow> reads_to lx1 t' s' lx2 \<Longrightarrow> reads_to lx (t @ t') s' lx2"
  by (simp add: reads_to_def)

lemma reads_to_same:
  "reads_to lx t s lx' \<Longrightarrow> sx_state lx' = sx_state lx \<and> sx_quotes lx' = sx_quotes lx \<and> sx_instream lx' = s
    \<and> sx_backslash lx' = sx_backslash lx \<and> sx_token lx' = sx_token lx @ t \<and> sx_pushback lx' = sx_pushback lx
    \<and> set_up tk lx' = set_up tk lx"
  by (auto simp: reads_to_def set_up_def)

lemma hex_digit_plain: "n < 16 \<Longrightarrow> hex_digit n \<noteq> CHR 0x22 \<and> hex_digit n \<noteq> CHR 0x5C"
proof -
  assume "n < 16"
  then have "hex_val (hex_digit n) \<noteq> None" by (simp add: hex_val_digit)
  then show ?thesis by (auto simp: hex_val_def is_digit_def)
qed

lemma escape_shapes:
  "(\<exists>d. escape_char c = [CHR 0x5C, d])
   \<or> (\<exists>i j. escape_char c = [CHR 0x5C, CHR ''x'', hex_digit i, hex_digit j] \<and> i < 16 \<and> j < 16)
   \<or> escape_char c = [c] \<and> c \<noteq> CHR 0x22 \<and> c \<noteq> CHR 0x5C"
proof (cases "c \<in> {CHR 0x27, CHR 0x5C, CHR 0x22, CHR 0x09, CHR 0x0A, CHR 0x0D}")
  case True
  then show ?thesis by (auto simp: escape_char_def)
next
  case False
  show ?thesis
  proof (cases "ord c < 32 \<or> 127 \<le> ord c")
    case True
    have "ord c < 256" by simp
    then have "ord c div 16 < 16" "ord c mod 16 < 16" by presburger+
    moreover have "escape_char c = [CHR 0x5C, CHR ''x'', hex_digit (ord c div 16), hex_digit (ord c mod 16)]"
      using True False by (simp add: escape_char_def)
    ultimately show ?thesis by blast
  qed (use False in \<open>simp add: escape_char_def\<close>)
qed

lemma quote_escape:
  assumes "sx_state lx = Some CHR 0x22" "CHR 0x22 \<in> set (sx_quotes lx)" "sx_instream lx = escape_char c @ s" "\<not> sx_backslash lx"
  shows "\<exists>lx'. read_loop lx = read_loop lx' \<and> reads_to lx (escape_char c) s lx'"
proof -
  consider d where "escape_char c = [CHR 0x5C, d]" | i j where "escape_char c = [CHR 0x5C, CHR ''x'', hex_digit i, hex_digit j]" "i < 16" "j < 16"
    | "escape_char c = [c]" "c \<noteq> CHR 0x22" "c \<noteq> CHR 0x5C"
    using escape_shapes [of c] by blast
  then show ?thesis
  proof cases
    case 1
    with quote_pair [OF assms(1,2) _ assms(4)] assms(3) show ?thesis by simp
  next
    case 3
    with quote_char [OF assms(1,2) _ assms(4)] assms(3) show ?thesis by simp
  next
    case 2
    have one: "sx_instream lx = CHR 0x5C # CHR ''x'' # (hex_digit i # hex_digit j # s)" using assms(3) 2 by simp
    obtain lx1 where lx1: "read_loop lx = read_loop lx1" "reads_to lx [CHR 0x5C, CHR ''x''] (hex_digit i # hex_digit j # s) lx1"
      using quote_pair [OF assms(1,2) one assms(4)] by blast
    note s1 = reads_to_same [OF lx1(2)]
    obtain lx2 where lx2: "read_loop lx1 = read_loop lx2" "reads_to lx1 [hex_digit i] (hex_digit j # s) lx2"
      using quote_char [of lx1 "hex_digit i" "hex_digit j # s"] s1 assms hex_digit_plain [OF 2(2)] by auto
    note s2 = reads_to_same [OF lx2(2)]
    obtain lx3 where lx3: "read_loop lx2 = read_loop lx3" "reads_to lx2 [hex_digit j] s lx3"
      using quote_char [of lx2 "hex_digit j" s] s1 s2 assms hex_digit_plain [OF 2(3)] by auto
    have "reads_to lx (escape_char c) s lx3" using reads_to_trans [OF reads_to_trans [OF lx1(2) lx2(2)] lx3(2)] 2(1) by simp
    with lx1(1) lx2(1) lx3(1) show ?thesis by metis
  qed
qed

lemma quote_text:
  assumes "sx_state lx = Some CHR 0x22" "CHR 0x22 \<in> set (sx_quotes lx)" "sx_instream lx = concat (map escape_char x) @ s" "\<not> sx_backslash lx"
  shows "\<exists>lx'. read_loop lx = read_loop lx' \<and> reads_to lx (concat (map escape_char x)) s lx'"
  using assms
proof (induction x arbitrary: lx)
  case Nil
  have "reads_to lx [] s lx" using Nil.prems by (simp add: reads_to_def)
  then show ?case by auto
next
  case (Cons c x)
  obtain lx1 where lx1: "read_loop lx = read_loop lx1" "reads_to lx (escape_char c) (concat (map escape_char x) @ s) lx1"
    using quote_escape [of lx c "concat (map escape_char x) @ s"] Cons.prems by auto
  note s1 = reads_to_same [OF lx1(2)]
  from Cons.IH [of lx1] s1 Cons.prems obtain lx2 where "read_loop lx1 = read_loop lx2" "reads_to lx1 (concat (map escape_char x)) s lx2"
    by auto
  with lx1 reads_to_trans [OF lx1(2)] show ?case by (metis concat.simps(2) list.simps(9))
qed

lemma quoted_token:
  assumes b: "before tk (dqrepr x @ s) lx" and tk: "good_tokenizer tk" "CHR 0x22 \<in> set (tk_quotes tk)"
  obtains lx' where "get_token lx = (Inr (dqrepr x), lx')" "before tk s lx'"
proof -
  have first: "dqrepr x @ s = CHR 0x22 # (concat (map escape_char x) @ CHR 0x22 # s)" by (simp add: dqrepr_def)
  have nb: "\<not> is_blank CHR 0x22" "\<not> punct tk CHR 0x22" "CHR 0x22 \<notin> set (tk_validChars tk)"
    using tk by (auto simp: is_blank_def punct_def good_tokenizer_def)
  then have l: "set_up tk lx" "sx_token lx = []" "sx_pushback lx = []" "sx_state lx = Some CHR '' ''" "\<not> sx_backslash lx"
    "sx_instream lx = CHR 0x22 # (concat (map escape_char x) @ CHR 0x22 # s)" using b unfolding first before_def by auto
  let ?lx1 = "lx\<lparr>sx_instream := concat (map escape_char x) @ CHR 0x22 # s, sx_token := [CHR 0x22], sx_state := Some CHR 0x22\<rparr>"
  have "read_step lx = (Inr True, ?lx1)"
    using l nb(3) tk(2) whitespace_blank [OF l(1), of "CHR 0x22"] nb(1)
    by (simp add: read_step_Cons [OF l(6)] blank_step_def set_up_def)
  then have r1: "read_loop lx = read_loop ?lx1" by (rule read_loop_step(1))
  have q: "CHR 0x22 \<in> set (sx_quotes lx)" using l(1) tk(2) by (simp add: set_up_def)
  obtain lx2 where lx2: "read_loop ?lx1 = read_loop lx2" "reads_to ?lx1 (concat (map escape_char x)) (CHR 0x22 # s) lx2"
    using quote_text [of ?lx1 x "CHR 0x22 # s"] l(5) q by auto
  note s2 = reads_to_same [OF lx2(2), of tk]
  let ?lx3 = "lx2\<lparr>sx_instream := s, sx_token := dqrepr x, sx_state := Some CHR '' ''\<rparr>"
  have "read_step lx2 = (Inr False, ?lx3)"
    using s2 l(5) q by (simp add: read_step_Cons [of lx2 "CHR 0x22" s] quote_step_def Let_def dqrepr_def)
  then have "read_loop lx = (Inr (), ?lx3)" using r1 lx2(1) read_loop_step(2) by simp
  from get_token_read [OF l(3) _ this] l(1) have "get_token lx = (Inr (dqrepr x), ?lx3\<lparr>sx_token := []\<rparr>)" by (simp add: set_up_def)
  moreover have "before tk s (?lx3\<lparr>sx_token := []\<rparr>)" using s2 l(1,3,5) by (simp add: before_def set_up_def)
  ultimately show thesis by (rule that)
qed

text \<open>A bare word, up to a blank, a character that is a token, or the end.\<close>

definition bare :: "Tokenizer \<Rightarrow> string \<Rightarrow> bool" where
  "bare tk w \<longleftrightarrow> w \<noteq> [] \<and> hd w \<in> set (tk_validChars tk) \<and> set (tl w) \<subseteq> set (tk_validChars tk) \<union> set (tk_quotes tk)"

definition word_ends :: "Tokenizer \<Rightarrow> string \<Rightarrow> bool" where
  "word_ends tk s \<longleftrightarrow> s = [] \<or> is_blank (hd s) \<or> punct tk (hd s)"

lemma word_chars:
  assumes "sx_state lx = Some CHR ''a''" "set_up tk lx" "good_tokenizer tk" "sx_instream lx = w @ s"
    and "set w \<subseteq> set (tk_validChars tk) \<union> set (tk_quotes tk)"
  shows "\<exists>lx'. read_loop lx = read_loop lx' \<and> reads_to lx w s lx'"
  using assms
proof (induction w arbitrary: lx)
  case Nil
  have "reads_to lx [] s lx" using Nil.prems by (simp add: reads_to_def)
  then show ?case by auto
next
  case (Cons c w)
  have c: "c \<in> set (tk_validChars tk) \<or> c \<in> set (tk_quotes tk)" "\<not> is_blank c" "CHR ''a'' \<notin> set (tk_quotes tk)"
    using Cons.prems(3,5) by (auto simp: good_tokenizer_def is_blank_def)
  have step: "sx_instream lx = c # (w @ s)" using Cons.prems(4) by simp
  obtain lx1 where lx1: "read_step lx = (Inr True, lx1)" "reads_to lx [c] (w @ s) lx1"
    using c Cons.prems(1,2) whitespace_blank [OF Cons.prems(2), of c]
    by (simp add: read_step_Cons [OF step] word_step_def set_up_def reads_to_def)
  note s1 = reads_to_same [OF lx1(2), of tk]
  from Cons.IH [of lx1] s1 Cons.prems obtain lx2 where "read_loop lx1 = read_loop lx2" "reads_to lx1 w s lx2" by auto
  with read_loop_step(1) [OF lx1(1)] reads_to_trans [OF lx1(2)] show ?case by force
qed

lemma bare_token:
  assumes b: "before tk (w @ s) lx" and tk: "good_tokenizer tk" and w: "bare tk w" and e: "word_ends tk s"
  obtains lx' where "get_token lx = (Inr w, lx')" "before tk s lx'"
proof -
  obtain c w' where cw: "w = c # w'" "c \<in> set (tk_validChars tk)" "set w' \<subseteq> set (tk_validChars tk) \<union> set (tk_quotes tk)"
    using w by (cases w) (auto simp: bare_def)
  have nb: "\<not> is_blank c" "\<not> punct tk c" using tk cw(2) by (auto simp: punct_def good_tokenizer_def)
  then have l: "set_up tk lx" "sx_token lx = []" "sx_pushback lx = []" "sx_state lx = Some CHR '' ''" "\<not> sx_backslash lx"
    "sx_instream lx = c # (w' @ s)" using b cw(1) unfolding before_def by auto
  obtain lx1 where lx1: "read_step lx = (Inr True, lx1)" "reads_to (lx\<lparr>sx_state := Some CHR ''a''\<rparr>) [c] (w' @ s) lx1"
    using l nb(1) cw(2) whitespace_blank [OF l(1), of c] by (simp add: read_step_Cons [OF l(6)] blank_step_def set_up_def reads_to_def)
  note s1 = reads_to_same [OF lx1(2), of tk]
  have up: "set_up tk (lx\<lparr>sx_state := Some CHR ''a''\<rparr>)" using l(1) by (simp add: set_up_def)
  obtain lx2 where lx2: "read_loop lx1 = read_loop lx2" "reads_to lx1 w' s lx2"
    using word_chars [of lx1 tk w' s] s1 up tk cw(3) by auto
  note s2 = reads_to_same [OF lx2(2), of tk]
  have st: "sx_state lx2 = Some CHR ''a''" "set_up tk lx2" "sx_token lx2 = w" "sx_instream lx2 = s" "sx_pushback lx2 = []" "\<not> sx_backslash lx2"
    using s1 s2 up l cw(1) by auto
  have q: "CHR ''a'' \<notin> set (sx_quotes lx2)" using st(2) tk by (auto simp: set_up_def good_tokenizer_def)
  have "\<exists>lx3. read_step lx2 = (Inr False, lx3) \<and> sx_token lx3 = w \<and> before tk s (lx3\<lparr>sx_token := []\<rparr>)"
  proof (cases s)
    case Nil
    then show ?thesis using st q by (simp add: read_step_def read1_def word_step_def before_def set_up_def)
  next
    case (Cons d s')
    have d: "d \<notin> set (tk_validChars tk)" "d \<notin> set (tk_quotes tk)" "is_blank d \<or> punct tk d"
      using e tk Cons by (auto simp: word_ends_def punct_def good_tokenizer_def is_blank_def)
    have "sx_instream lx2 = d # s'" using st(4) Cons by simp
    note step = read_step_Cons [OF this]
    have wn: "w \<noteq> []" using cw(1) by simp
    show ?thesis
    proof (cases "is_blank d")
      case True
      then show ?thesis using st q wn whitespace_blank [OF st(2), of d] Cons
        by (simp add: step word_step_def before_def set_up_def)
    next
      case False
      then show ?thesis using st q wn whitespace_blank [OF st(2), of d] d Cons
        by (simp add: step word_step_def before_def set_up_def)
    qed
  qed
  then obtain lx3 where lx3: "read_step lx2 = (Inr False, lx3)" "sx_token lx3 = w" "before tk s (lx3\<lparr>sx_token := []\<rparr>)" by blast
  have "read_loop lx = (Inr (), lx3)"
    using read_loop_step(1) [OF lx1(1)] lx2(1) read_loop_step(2) [OF lx3(1)] by simp
  from get_token_read [OF l(3) _ this] l(1) have "get_token lx = (Inr w, lx3\<lparr>sx_token := []\<rparr>)" using lx3(2) by (simp add: set_up_def)
  from that [OF this lx3(3)] show thesis .
qed

end
