(* ===== verification/TokenizerTexts.thy ===== *)
theory TokenizerTexts
  imports TokenizerLaws
begin

text \<open>
  Command lines as texts of source trees, read by the tokenizer; the configurations it is used with; what its
  loops keep of the lexer.
\<close>

section \<open>Texts\<close>

datatype src = Bare string | Quoted string | Group "src list"

fun meaning :: "src \<Rightarrow> cmd" where
  "meaning (Bare w) = Word w"
| "meaning (Quoted s) = Word s"
| "meaning (Group ss) = Nested (map meaning ss)"

fun text_of :: "char \<Rightarrow> char \<Rightarrow> src \<Rightarrow> string" and texts :: "char \<Rightarrow> char \<Rightarrow> src list \<Rightarrow> string" where
  "text_of l r (Bare w) = w"
| "text_of l r (Quoted s) = dqrepr s"
| "text_of l r (Group ss) = l # texts l r ss @ [r]"
| "texts l r [] = []"
| "texts l r (x # xs) = text_of l r x @ (if xs = [] then [] else CHR '' '' # texts l r xs)"

fun src_ok :: "Tokenizer \<Rightarrow> src \<Rightarrow> bool" where
  "src_ok tk (Bare w) \<longleftrightarrow> bare tk w"
| "src_ok tk (Quoted s) \<longleftrightarrow> CHR 0x22 \<in> set (tk_quotes tk)"
| "src_ok tk (Group ss) \<longleftrightarrow> (\<forall>x \<in> set ss. src_ok tk x)"

definition nesting :: "Tokenizer \<Rightarrow> char \<Rightarrow> char \<Rightarrow> bool" where
  "nesting tk l r \<longleftrightarrow> good_tokenizer tk \<and> tk_left tk = [l] \<and> tk_right tk = [r] \<and> l \<noteq> r \<and> punct tk l \<and> punct tk r
     \<and> (tk_pipe tk \<longrightarrow> punct tk CHR ''|'' \<and> l \<noteq> CHR ''|'' \<and> r \<noteq> CHR ''|'')"

section \<open>Words and brackets\<close>

lemma handle_bare: "good_tokenizer tk \<Longrightarrow> bare tk w \<Longrightarrow> handleToken tk w = Inr w"
  by (cases w) (auto simp: handleToken_def bare_def good_tokenizer_def)

lemma handle_quoted: "CHR 0x22 \<in> set (tk_quotes tk) \<Longrightarrow> handleToken tk (dqrepr s) = Inr s"
  by (simp add: handleToken_def dqrepr_def unescape_dqrepr butlast_append)

lemma bare_plain: "bare tk w \<Longrightarrow> punct tk c \<Longrightarrow> w \<noteq> [c]"
  by (auto simp: bare_def punct_def)

lemma dqrepr_plain: "dqrepr s \<noteq> [c]" "dqrepr s \<noteq> []"
  by (simp_all add: dqrepr_def)

text \<open>A word of either kind.\<close>

lemma word_token:
  assumes b: "before tk (text_of l r x @ s) lx" and tk: "nesting tk l r" and x: "src_ok tk x" "\<forall>ss. x \<noteq> Group ss" and e: "word_ends tk s"
  obtains token lx' where "get_token lx = (Inr token, lx')" "before tk s lx'" "token \<noteq> []"
    "\<And>c. punct tk c \<Longrightarrow> token \<noteq> [c]" "handleToken tk token = Inr (case meaning x of Word w \<Rightarrow> w)" "meaning x = Word (case meaning x of Word w \<Rightarrow> w)"
proof -
  have good: "good_tokenizer tk" using tk by (simp add: nesting_def)
  show thesis
  proof (cases x)
    case (Bare w)
    obtain lx' where "get_token lx = (Inr w, lx')" "before tk s lx'"
      using bare_token [of tk w s lx] b good x(1) e Bare by auto
    with that [of w lx'] x(1) Bare good bare_plain handle_bare show thesis by (auto simp: bare_def)
  next
    case (Quoted q)
    obtain lx' where "get_token lx = (Inr (dqrepr q), lx')" "before tk s lx'"
      using quoted_token [of tk q s lx] b good x(1) Quoted by auto
    with that [of "dqrepr q" lx'] x(1) Quoted dqrepr_plain handle_quoted show thesis by auto
  qed (use x(2) in simp)
qed

lemma word_ends_texts:
  "word_ends tk s \<Longrightarrow> word_ends tk ((if xs = [] then [] else CHR '' '' # texts l r xs) @ s)"
  by (simp add: word_ends_def is_blank_def)

lemma insideBrackets_step:
  assumes "get_token lx = (Inr token, lx1)" "token \<noteq> []"
  shows "token = tk_right tk \<Longrightarrow> insideBrackets tk lx = (Inr [], lx1)"
    and "token \<noteq> tk_right tk \<Longrightarrow> token = tk_left tk \<Longrightarrow> insideBrackets tk lx1 = (Inr sub, lx2) \<Longrightarrow>
      insideBrackets tk lx2 = (Inr ret, lx3) \<Longrightarrow> insideBrackets tk lx = (Inr (Nested sub # ret), lx3)"
    and "token \<noteq> tk_right tk \<Longrightarrow> token \<noteq> tk_left tk \<Longrightarrow> handleToken tk token = Inr w \<Longrightarrow>
      insideBrackets tk lx1 = (Inr ret, lx3) \<Longrightarrow> insideBrackets tk lx = (Inr (Word w # ret), lx3)"
  using assms by (subst insideBrackets.simps, simp)+

lemma insideBrackets_skip:
  assumes "before tk (c # s) lx" "is_blank c"
  obtains lx' where "before tk s lx'" "insideBrackets tk lx = insideBrackets tk lx'"
proof (rule skip_blank [OF assms])
  fix lx' assume b: "before tk s lx'" and same: "get_token lx = get_token lx'"
  have "insideBrackets tk lx = insideBrackets tk lx'" by (subst (1 2) insideBrackets.simps) (simp only: same)
  with b show thesis by (rule that)
qed

lemma insideBrackets_close:
  assumes "before tk (r # s) lx" "nesting tk l r"
  obtains lx' where "insideBrackets tk lx = (Inr [], lx')" "before tk s lx'"
proof -
  have r: "punct tk r" "tk_right tk = [r]" using assms(2) by (simp_all add: nesting_def)
  obtain lx' where t: "get_token lx = (Inr [r], lx')" "before tk s lx'" by (rule punct_token [OF assms(1) r(1)])
  have "insideBrackets tk lx = (Inr [], lx')" by (rule insideBrackets_step(1) [OF t(1)]) (simp_all add: r(2))
  with t(2) show thesis by (intro that)
qed

lemma inside_texts:
  "nesting tk l r \<Longrightarrow> src_ok tk x \<Longrightarrow> x = Group ss \<Longrightarrow> before tk (texts l r ss @ r # s) lx \<Longrightarrow>
      \<exists>lx'. insideBrackets tk lx = (Inr (map meaning ss), lx') \<and> before tk s lx'"
  "nesting tk l r \<Longrightarrow> \<forall>x \<in> set xs. src_ok tk x \<Longrightarrow> before tk (texts l r xs @ r # s) lx \<Longrightarrow>
      \<exists>lx'. insideBrackets tk lx = (Inr (map meaning xs), lx') \<and> before tk s lx'"
proof (induction l r x and l r xs arbitrary: ss s lx and s lx rule: text_of_texts.induct)
  case (3 l r us)
  then show ?case by simp
next
  case (4 l r)
  from insideBrackets_close [of tk r s lx l] 4 show ?case by auto
next
  case (5 l r x xs)
  let ?rest = "(if xs = [] then [] else CHR '' '' # texts l r xs)"
  have x: "src_ok tk x" and xs: "\<forall>x \<in> set xs. src_ok tk x" using "5.prems"(2) by simp_all
  have tail: "\<exists>lx'. insideBrackets tk lx1 = (Inr (map meaning xs), lx') \<and> before tk s lx'" if b: "before tk (?rest @ r # s) lx1" for lx1
  proof (cases "xs = []")
    case True
    with b insideBrackets_close [of tk r s lx1 l] "5.prems"(1) show ?thesis by auto
  next
    case False
    with b obtain lx2 where "before tk (texts l r xs @ r # s) lx2" "insideBrackets tk lx1 = insideBrackets tk lx2"
      using insideBrackets_skip [of tk "CHR '' ''" "texts l r xs @ r # s" lx1] by (auto simp: is_blank_def)
    with "5.IH"(2) [OF False "5.prems"(1) xs] show ?thesis by simp
  qed
  have b: "before tk (text_of l r x @ ?rest @ r # s) lx" using "5.prems"(3) by simp
  show ?case
  proof (cases "\<exists>us. x = Group us")
    case True
    then obtain us where us: "x = Group us" by blast
    have lr: "punct tk l" "tk_left tk = [l]" "tk_right tk = [r]" "l \<noteq> r" using "5.prems"(1) by (simp_all add: nesting_def)
    have "before tk (l # (texts l r us @ r # (?rest @ r # s))) lx" using b us by simp
    then obtain lx1 where lx1: "get_token lx = (Inr [l], lx1)" "before tk (texts l r us @ r # (?rest @ r # s)) lx1"
      by (rule punct_token [OF _ lr(1)])
    from "5.IH"(1) [OF "5.prems"(1) x us lx1(2)] obtain lx2 where
      lx2: "insideBrackets tk lx1 = (Inr (map meaning us), lx2)" "before tk (?rest @ r # s) lx2" by blast
    from tail [OF lx2(2)] obtain lx3 where "insideBrackets tk lx2 = (Inr (map meaning xs), lx3)" "before tk s lx3" by blast
    moreover from this(1) have "insideBrackets tk lx = (Inr (Nested (map meaning us) # map meaning xs), lx3)"
      by (intro insideBrackets_step(2) [OF lx1(1) _ _ _ lx2(1)]) (use lr in simp_all)
    ultimately show ?thesis using us by (intro exI [of _ lx3]) (simp only: list.map meaning.simps simp_thms)
  next
    case False
    have "word_ends tk (r # s)" using "5.prems"(1) by (simp add: word_ends_def nesting_def)
    then have "word_ends tk (?rest @ r # s)" by (rule word_ends_texts)
    with word_token [OF b "5.prems"(1) x] False obtain token lx1 where
      t: "get_token lx = (Inr token, lx1)" "before tk (?rest @ r # s) lx1" "token \<noteq> []" "\<And>c. punct tk c \<Longrightarrow> token \<noteq> [c]"
        "handleToken tk token = Inr (case meaning x of Word w \<Rightarrow> w)" "meaning x = Word (case meaning x of Word w \<Rightarrow> w)" by metis
    have "token \<noteq> tk_right tk" "token \<noteq> tk_left tk" using t(4) "5.prems"(1) by (auto simp: nesting_def)
    note step = insideBrackets_step(3) [OF t(1,3) this t(5)]
    from tail [OF t(2)] obtain lx3 where "insideBrackets tk lx1 = (Inr (map meaning xs), lx3)" "before tk s lx3" by blast
    with step [OF this(1)] t(6) show ?thesis by (metis list.simps(9))
  qed
qed simp_all

section \<open>Lines\<close>

lemma loop_skip:
  assumes "before tk (c # s) lx" "is_blank c"
  obtains lx' where "before tk s lx'" "tokenize_loop tk ends args lx = tokenize_loop tk ends args lx'"
proof (rule skip_blank [OF assms])
  fix lx' assume b: "before tk s lx'" and same: "get_token lx = get_token lx'"
  have "tokenize_loop tk ends args lx = tokenize_loop tk ends args lx'" by (subst (1 2) tokenize_loop.simps) (simp only: same)
  with b show thesis by (rule that)
qed

lemma loop_item:
  assumes tk: "nesting tk l r" and x: "src_ok tk x" and e: "word_ends tk s" and b: "before tk (text_of l r x @ s) lx"
  obtains lx' where "tokenize_loop tk ends args lx = tokenize_loop tk ends (args @ [meaning x]) lx'" "before tk s lx'"
proof (cases "\<exists>us. x = Group us")
  case True
  then obtain us where us: "x = Group us" by blast
  have lr: "punct tk l" "tk_left tk = [l]" "\<not> (l = CHR ''|'' \<and> tk_pipe tk)" using tk by (auto simp: nesting_def)
  have "before tk (l # (texts l r us @ r # s)) lx" using b us by simp
  then obtain lx1 where lx1: "get_token lx = (Inr [l], lx1)" "before tk (texts l r us @ r # s) lx1" by (rule punct_token [OF _ lr(1)])
  from inside_texts(1) [OF tk x us lx1(2)] obtain lx2 where lx2: "insideBrackets tk lx1 = (Inr (map meaning us), lx2)" "before tk s lx2" by blast
  have "tokenize_loop tk ends args lx = tokenize_loop tk ends (args @ [meaning x]) lx2"
    using lx1(1) lx2(1) lr us by (subst tokenize_loop.simps) auto
  with lx2(2) show thesis by (intro that)
next
  case False
  with word_token [OF b tk x _ e] obtain token lx1 where
    t: "get_token lx = (Inr token, lx1)" "before tk s lx1" "token \<noteq> []" "\<And>c. punct tk c \<Longrightarrow> token \<noteq> [c]"
      "handleToken tk token = Inr (case meaning x of Word w \<Rightarrow> w)" "meaning x = Word (case meaning x of Word w \<Rightarrow> w)" by metis
  have no: "token \<noteq> tk_right tk" "token \<noteq> tk_left tk" "\<not> (token = ''|'' \<and> tk_pipe tk)" using t(4) tk by (auto simp: nesting_def)
  have "tokenize_loop tk ends args lx = tokenize_loop tk ends (args @ [Word (case meaning x of Word w \<Rightarrow> w)]) lx1"
    using t(1,3,5) no by (subst tokenize_loop.simps) auto
  with t(2,6) show thesis using that by simp
qed

lemma loop_texts:
  assumes tk: "nesting tk l r" and xs: "\<forall>x \<in> set xs. src_ok tk x" and e: "word_ends tk s" and b: "before tk (texts l r xs @ s) lx"
  shows "\<exists>lx'. tokenize_loop tk ends args lx = tokenize_loop tk ends (args @ map meaning xs) lx' \<and> before tk s lx'"
  using xs b
proof (induction xs arbitrary: lx args)
  case (Cons x xs)
  let ?rest = "(if xs = [] then [] else CHR '' '' # texts l r xs)"
  obtain lx1 where lx1: "tokenize_loop tk ends args lx = tokenize_loop tk ends (args @ [meaning x]) lx1" "before tk (?rest @ s) lx1"
    using loop_item [OF tk, of x "?rest @ s" lx ends args] Cons.prems word_ends_texts [OF e] by auto
  show ?case
  proof (cases "xs = []")
    case True
    with lx1 show ?thesis by auto
  next
    case False
    with lx1(2) have "before tk (CHR '' '' # (texts l r xs @ s)) lx1" by simp
    then obtain lx2 where lx2: "before tk (texts l r xs @ s) lx2"
        "tokenize_loop tk ends (args @ [meaning x]) lx1 = tokenize_loop tk ends (args @ [meaning x]) lx2"
      by (rule loop_skip [where ends = ends and args = "args @ [meaning x]"]) (simp add: is_blank_def)
    from Cons.IH [OF _ lx2(1), of "args @ [meaning x]"] Cons.prems(1) lx1(1) lx2(2) show ?thesis by simp
  qed
qed auto

text \<open>Commands with pipes between them.\<close>

fun pipeline :: "char \<Rightarrow> char \<Rightarrow> src list list \<Rightarrow> string" where
  "pipeline l r [] = []"
| "pipeline l r (c # cs) = texts l r c @ (if cs = [] then [] else '' | '' @ pipeline l r cs)"

lemma loop_end:
  assumes "before tk [] lx" "ends \<noteq> [] \<longrightarrow> args \<noteq> []"
  shows "fst (tokenize_loop tk ends args lx) = Inr (pipe_args ends args)"
proof -
  obtain lx' where "get_token lx = (Inr [], lx')" using end_token [OF assms(1)] by blast
  then show ?thesis using assms(2) by (subst tokenize_loop.simps) auto
qed

lemma loop_pipe:
  assumes "before tk ('' | '' @ s) lx" "nesting tk l r" "tk_pipe tk" "args \<noteq> []"
  obtains lx' where "tokenize_loop tk ends args lx = tokenize_loop tk (ends @ [args]) [] lx'" "before tk s lx'"
proof -
  have p: "punct tk CHR ''|''" using assms(2,3) by (simp add: nesting_def)
  obtain lx1 where lx1: "before tk (CHR ''|'' # CHR '' '' # s) lx1" "tokenize_loop tk ends args lx = tokenize_loop tk ends args lx1"
    using loop_skip [of tk "CHR '' ''" "CHR ''|'' # CHR '' '' # s" lx ends args] assms(1) by (auto simp: is_blank_def)
  obtain lx2 where lx2: "get_token lx1 = (Inr ''|'', lx2)" "before tk (CHR '' '' # s) lx2" by (rule punct_token [OF lx1(1) p])
  obtain lx3 where lx3: "before tk s lx3" "tokenize_loop tk (ends @ [args]) [] lx2 = tokenize_loop tk (ends @ [args]) [] lx3"
    using loop_skip [OF lx2(2)] by (auto simp: is_blank_def)
  have "tokenize_loop tk ends args lx1 = tokenize_loop tk (ends @ [args]) [] lx2"
    using lx2(1) assms(3,4) by (subst tokenize_loop.simps) simp
  with lx1(2) lx3 show thesis using that by simp
qed

lemma loop_pipeline:
  assumes tk: "nesting tk l r" and cs: "\<forall>c \<in> set cs. \<forall>x \<in> set c. src_ok tk x" "cs \<noteq> []" "length cs > 1 \<or> ends \<noteq> [] \<longrightarrow> tk_pipe tk \<and> [] \<notin> set cs"
    and b: "before tk (pipeline l r cs) lx"
  shows "fst (tokenize_loop tk ends [] lx) = Inr (pipe_args (ends @ map (map meaning) (butlast cs)) (map meaning (List.last cs)))"
  using cs b
proof (induction cs arbitrary: lx ends)
  case (Cons c cs)
  let ?rest = "if cs = [] then [] else '' | '' @ pipeline l r cs"
  have "word_ends tk ?rest" by (simp add: word_ends_def is_blank_def)
  from loop_texts [OF tk _ this, of c lx ends "[]"] Cons.prems(1,4) obtain lx1 where
    lx1: "tokenize_loop tk ends [] lx = tokenize_loop tk ends (map meaning c) lx1" "before tk ?rest lx1" by auto
  show ?case
  proof (cases "cs = []")
    case True
    then show ?thesis using loop_end [of tk lx1 ends "map meaning c"] lx1 Cons.prems(3) by auto
  next
    case False
    then have p: "tk_pipe tk" "[] \<notin> set (c # cs)" using Cons.prems(3) by auto
    then obtain lx2 where lx2: "tokenize_loop tk ends (map meaning c) lx1 = tokenize_loop tk (ends @ [map meaning c]) [] lx2"
        "before tk (pipeline l r cs) lx2"
      using loop_pipe [OF _ tk, of "pipeline l r cs" lx1 "map meaning c" ends] lx1(2) False by auto
    from Cons.IH [OF _ False _ lx2(2), of "ends @ [map meaning c]"] Cons.prems(1) p lx1(1) lx2(1) False show ?thesis by simp
  qed
qed simp

section \<open>Configurations\<close>

definition bracket_pairs :: "string list" where
  "bracket_pairs = [''[]'', ''<>'', ''{}'', ''()'']"

definition quote_chars :: "char set" where
  "quote_chars = {CHR 0x22, CHR 0x27, CHR 0x60}"

lemma base_validChars_set: "set base_validChars = - {CHR 0x00, CHR 0x0D, CHR 0x0A, CHR '' '', CHR 0x09}"
proof -
  have "c \<in> char_of ` {0..<256 :: nat}" for c :: char
    using image_eqI [of c char_of "of_char c :: nat"] by simp
  then show ?thesis by (auto simp: base_validChars_def)
qed

lemma Tokenizer_configured:
  assumes "[l, r] \<in> set bracket_pairs" "set quotes \<subseteq> quote_chars"
  obtains tk where "Tokenizer_new [l, r] pipe quotes = Inr tk" "nesting tk l r" "tk_pipe tk = pipe" "tk_quotes tk = quotes"
    "set (tk_validChars tk) = - ({CHR 0x00, CHR 0x0D, CHR 0x0A, CHR '' '', CHR 0x09, l, r} \<union> set quotes \<union> (if pipe then {CHR ''|''} else {}))"
proof -
  let ?tk = "projr (Tokenizer_new [l, r] pipe quotes)"
  have new: "Tokenizer_new [l, r] pipe quotes = Inr ?tk" by (simp add: Tokenizer_new_def Let_def)
  have v: "set (tk_validChars ?tk) = - ({CHR 0x00, CHR 0x0D, CHR 0x0A, CHR '' '', CHR 0x09, l, r} \<union> set quotes \<union> (if pipe then {CHR ''|''} else {}))"
    by (auto simp: Tokenizer_new_def Let_def base_validChars_set)
  have q: "tk_quotes ?tk = quotes" "tk_pipe ?tk = pipe" "tk_left ?tk = [l]" "tk_right ?tk = [r]" by (simp_all add: Tokenizer_new_def Let_def)
  have lr: "l \<noteq> r" "l \<noteq> CHR ''|''" "r \<noteq> CHR ''|''" "\<not> is_blank l" "\<not> is_blank r" "l \<notin> quote_chars" "r \<notin> quote_chars"
    using assms(1) by (auto simp: bracket_pairs_def is_blank_def quote_chars_def)
  have "good_tokenizer ?tk" using assms(2) q v by (auto simp: good_tokenizer_def quote_chars_def is_blank_def)
  moreover have bar: "CHR ''|'' \<notin> quote_chars" "\<not> is_blank CHR ''|''" by (simp_all add: quote_chars_def is_blank_def)
  have "punct ?tk l" "punct ?tk r" "tk_pipe ?tk \<Longrightarrow> punct ?tk CHR ''|''"
    unfolding punct_def v q(1,2) using assms(2) lr bar by (simp_all add: subset_iff) blast+
  ultimately have "nesting ?tk l r" using q(3,4) lr(1-3) by (simp add: nesting_def)
  from that [OF new this q(2,1) v] show thesis .
qed

lemma lexer_before: "before tk s ((shlex_new s)\<lparr>sx_commenters := [], sx_quotes := tk_quotes tk, sx_wordchars := tk_validChars tk\<rparr>)"
  by (simp add: before_def set_up_def shlex_new_def)

lemma tokenize_run:
  "Tokenizer_new [l, r] pipe quotes = Inr tk \<Longrightarrow> tokenize True [l, r] pipe quotes s =
     (case Tokenizer_tokenize tk s of Inl e \<Rightarrow> Inl (if e = ValueError then SyntaxError else e) | Inr args \<Rightarrow> Inr args)"
  by (simp add: tokenize_def)

section \<open>Every line is answered\<close>

definition lexing :: "Tokenizer \<Rightarrow> shlex \<Rightarrow> bool" where
  "lexing tk lx \<longleftrightarrow> sx_quotes lx = tk_quotes tk \<and> sx_filestack lx = []
     \<and> (sx_state lx = None \<or> sx_state lx = Some CHR '' '' \<or> sx_state lx = Some CHR ''a'' \<or> (\<exists>q \<in> set (tk_quotes tk). sx_state lx = Some q))"

lemma read_step_lexing:
  assumes "lexing tk lx" "read_step lx = (r, lx')"
  shows "lexing tk lx' \<and> (\<forall>e. r = Inl e \<longrightarrow> e = ValueError)"
  using assms
  by (auto simp: read_step_def read1_def blank_step_def quote_step_def word_step_def Let_def lexing_def split: option.splits list.splits if_splits)

lemma read_loop_lexing: "lexing tk lx \<Longrightarrow> read_loop lx = (r, lx') \<Longrightarrow> lexing tk lx' \<and> (\<forall>e. r = Inl e \<longrightarrow> e = ValueError)"
proof (induction lx rule: read_loop.induct)
  case (1 lx)
  obtain r1 lx1 where one: "read_step lx = (r1, lx1)" by (cases "read_step lx")
  note step = read_step_lexing [OF "1.prems"(1) one]
  show ?case
  proof (cases "r1 = Inr True")
    case True
    then have "read_loop lx1 = (r, lx')" using "1.prems"(2) one by (simp add: read_loop_step(1))
    from "1.IH" [OF one [symmetric] True _ _ this] step show ?thesis by auto
  next
    case False
    then have "lx' = lx1 \<and> (\<forall>e. r = Inl e \<longrightarrow> r1 = Inl e)" using "1.prems"(2) one by (subst (asm) read_loop.simps) (auto split: sum.splits if_splits)
    with step show ?thesis by auto
  qed
qed

lemma get_token_lexing:
  assumes "lexing tk lx" "get_token lx = (r, lx')"
  shows "lexing tk lx' \<and> (\<forall>e. r = Inl e \<longrightarrow> e = ValueError)"
proof (cases "sx_pushback lx")
  case (Cons t rest)
  with assms show ?thesis by (subst (asm) get_token.simps) (auto simp: lexing_def)
next
  case Nil
  obtain r1 lx1 where one: "read_loop lx = (r1, lx1)" by (cases "read_loop lx")
  note loop = read_loop_lexing [OF assms(1) one]
  show ?thesis
  proof (cases r1)
    case (Inl e)
    have "get_token lx = (Inl e, lx1)" using Nil one Inl by (subst get_token.simps) (simp add: read_token_def act_defs)
    with assms(2) loop Inl show ?thesis by auto
  next
    case (Inr u)
    have "get_token lx = (Inr (sx_token lx1), lx1\<lparr>sx_token := []\<rparr>)"
      by (rule get_token_read) (use Nil one Inr assms(1) in \<open>simp_all add: lexing_def\<close>)
    with assms(2) loop show ?thesis by (auto simp: lexing_def)
  qed
qed

lemma string_unescape_error: "string_unescape s = Inl e \<Longrightarrow> e = ValueError"
proof (induction s rule: string_unescape.induct)
  case (2 c s)
  then show ?case
    by (subst (asm) string_unescape.simps) (auto simp: Let_def bindR_Inl_iff split: if_splits list.splits option.splits)
qed simp

lemma handleToken_error: "handleToken tk token = Inl e \<Longrightarrow> token \<noteq> [] \<Longrightarrow> e = ValueError"
  by (auto simp: handleToken_def dest: string_unescape_error split: if_splits)

definition tokenizer_error :: "pyexn \<Rightarrow> bool" where
  "tokenizer_error e \<longleftrightarrow> e = ValueError \<or> e = SyntaxError"

lemma insideBrackets_lexing:
  "lexing tk lx \<Longrightarrow> insideBrackets tk lx = (r, lx') \<Longrightarrow> lexing tk lx' \<and> (\<forall>e. r = Inl e \<longrightarrow> tokenizer_error e)"
proof (induction tk lx arbitrary: r lx' rule: insideBrackets.induct)
  case (1 tk lx)
  obtain t lx1 where t: "get_token lx = (t, lx1)" by (cases "get_token lx")
  note tok = get_token_lexing [OF "1.prems"(1) t]
  note step = "1.prems"(2) [unfolded insideBrackets.simps [of tk lx] t]
  show ?case
  proof (cases t)
    case (Inl e)
    with step tok show ?thesis by (auto simp: tokenizer_error_def)
  next
    case (Inr token)
    note IH = "1.IH" [OF t [symmetric] Inr]
    consider "token = [] \<or> token = tk_right tk" | "token \<noteq> []" "token \<noteq> tk_right tk" "token = tk_left tk"
      | "token \<noteq> []" "token \<noteq> tk_right tk" "token \<noteq> tk_left tk" by blast
    then show ?thesis
    proof cases
      case 1
      with step tok Inr show ?thesis by (auto simp: tokenizer_error_def split: if_splits)
    next
      case 2
      obtain r2 lx2 where two: "insideBrackets tk lx1 = (r2, lx2)" by (cases "insideBrackets tk lx1")
      note sub = IH(1) [OF 2 _ two]
      show ?thesis
      proof (cases r2)
        case e: (Inl e)
        then show ?thesis using step Inr 2 two sub tok by auto
      next
        case s: (Inr u)
        obtain r3 lx3 where three: "insideBrackets tk lx2 = (r3, lx3)" by (cases "insideBrackets tk lx2")
        note rest = IH(2) [OF 2 two [symmetric] s _ three]
        show ?thesis using step Inr 2 two s three sub rest tok by (auto split: sum.splits)
      qed
    next
      case 3
      show ?thesis
      proof (cases "handleToken tk token")
        case (Inl e)
        then show ?thesis using step Inr 3 tok handleToken_error [OF Inl 3(1)] by (auto simp: tokenizer_error_def)
      next
        case w: (Inr w)
        obtain r3 lx3 where three: "insideBrackets tk lx1 = (r3, lx3)" by (cases "insideBrackets tk lx1")
        note rest = IH(3) [OF 3 w _ three]
        show ?thesis using step Inr 3 w three rest tok by (auto split: sum.splits)
      qed
    qed
  qed
qed

lemma tokenize_loop_lexing:
  "lexing tk lx \<Longrightarrow> tokenize_loop tk ends args lx = (r, lx') \<Longrightarrow> \<forall>e. r = Inl e \<longrightarrow> tokenizer_error e"
proof (induction tk ends args lx arbitrary: r lx' rule: tokenize_loop.induct)
  case (1 tk ends args lx)
  obtain t lx1 where t: "get_token lx = (t, lx1)" by (cases "get_token lx")
  note tok = get_token_lexing [OF "1.prems"(1) t]
  note step = "1.prems"(2) [unfolded tokenize_loop.simps [of tk ends args lx] t]
  show ?case
  proof (cases t)
    case (Inl e)
    with step tok show ?thesis by (auto simp: tokenizer_error_def)
  next
    case (Inr token)
    note IH = "1.IH" [OF t [symmetric] Inr]
    show ?thesis
    proof (cases "token = [] \<or> token = ''|'' \<and> tk_pipe tk")
      case True
      with step tok Inr IH(1) show ?thesis by (auto simp: tokenizer_error_def split: if_splits)
    next
      case plain: False
      show ?thesis
      proof (cases "token = tk_left tk")
        case True
        obtain r2 lx2 where two: "insideBrackets tk lx1 = (r2, lx2)" by (cases "insideBrackets tk lx1")
        note sub = insideBrackets_lexing [OF _ two]
        show ?thesis
        proof (cases r2)
          case (Inl e)
          then show ?thesis using step \<open>t = Inr token\<close> plain True two sub tok by auto
        next
          case s: (Inr u)
          from IH(2) [OF _ _ True two [symmetric] s] plain sub tok step \<open>t = Inr token\<close> True two s show ?thesis by auto
        qed
      next
        case False
        show ?thesis
        proof (cases "token = tk_right tk")
          case True
          then show ?thesis using step Inr plain False by (auto simp: tokenizer_error_def)
        next
          case right: False
          show ?thesis
          proof (cases "handleToken tk token")
            case (Inl e)
            then show ?thesis using step \<open>t = Inr token\<close> plain False right handleToken_error [OF Inl] by (auto simp: tokenizer_error_def)
          next
            case w: (Inr w)
            from IH(3) [OF _ _ False right w] plain tok step Inr False right w show ?thesis by auto
          qed
        qed
      qed
    qed
  qed
qed

section \<open>Lines that are refused\<close>

lemma inside_open:
  assumes tk: "nesting tk l r" and xs: "\<forall>x \<in> set xs. src_ok tk x" and b: "before tk (texts l r xs) lx"
  shows "fst (insideBrackets tk lx) = Inl SyntaxError"
  using xs b
proof (induction xs arbitrary: lx)
  case Nil
  then obtain lx' where "get_token lx = (Inr [], lx')" using end_token by fastforce
  then show ?case by (subst insideBrackets.simps) simp
next
  case (Cons x xs)
  let ?rest = "if xs = [] then [] else CHR '' '' # texts l r xs"
  have bx: "before tk (text_of l r x @ ?rest) lx" using Cons.prems(2) by simp
  have e: "word_ends tk ?rest" by (simp add: word_ends_def is_blank_def)
  have rest: "fst (insideBrackets tk lx1) = Inl SyntaxError" if b1: "before tk ?rest lx1" for lx1
  proof (cases "xs = []")
    case True
    then show ?thesis using Cons.IH [of lx1] b1 by simp
  next
    case False
    then obtain lx2 where "before tk (texts l r xs) lx2" "insideBrackets tk lx1 = insideBrackets tk lx2"
      using insideBrackets_skip [of tk "CHR '' ''" "texts l r xs" lx1] b1 by (auto simp: is_blank_def)
    then show ?thesis using Cons.IH [of lx2] Cons.prems(1) by simp
  qed
  show ?case
  proof (cases "\<exists>us. x = Group us")
    case True
    then obtain us where us: "x = Group us" by blast
    have lr: "punct tk l" "tk_left tk = [l]" "tk_right tk = [r]" "l \<noteq> r" using tk by (simp_all add: nesting_def)
    have "before tk (l # (texts l r us @ r # ?rest)) lx" using bx us by simp
    then obtain lx1 where lx1: "get_token lx = (Inr [l], lx1)" "before tk (texts l r us @ r # ?rest) lx1" by (rule punct_token [OF _ lr(1)])
    have ok: "src_ok tk x" using Cons.prems(1) by simp
    from inside_texts(1) [OF tk ok us lx1(2)] obtain lx2 where
      lx2: "insideBrackets tk lx1 = (Inr (map meaning us), lx2)" "before tk ?rest lx2" by blast
    show ?thesis using rest [OF lx2(2)] lx1(1) lx2(1) lr
      by (cases "insideBrackets tk lx2") (subst insideBrackets.simps, auto)
  next
    case False
    have ok: "src_ok tk x" using Cons.prems(1) by simp
    with word_token [OF bx tk ok _ e] False obtain token lx1 where
      t: "get_token lx = (Inr token, lx1)" "before tk ?rest lx1" "token \<noteq> []" "\<And>c. punct tk c \<Longrightarrow> token \<noteq> [c]"
        "handleToken tk token = Inr (case meaning x of Word w \<Rightarrow> w)" by metis
    have no: "token \<noteq> tk_right tk" "token \<noteq> tk_left tk" using t(4) tk by (auto simp: nesting_def)
    show ?thesis using rest [OF t(2)] t(1,3,5) no
      by (cases "insideBrackets tk lx1") (subst insideBrackets.simps, auto)
  qed
qed

end
