(* ===== verification/TokenizerPromises.thy ===== *)
theory TokenizerPromises
  imports TokenizerTexts
begin

text \<open>
  What the tokenizer promises: it reads back every tree of words, quoted strings and nested commands; what it does
  with pipes; the lines it refuses; and that it always answers.
\<close>

section \<open>What the tokenizer does\<close>

lemma tokenize_pipeline:
  assumes "[l, r] \<in> set bracket_pairs" "set quotes \<subseteq> quote_chars" "Tokenizer_new [l, r] pipe quotes = Inr tk"
    and "\<forall>c \<in> set cs. \<forall>x \<in> set c. src_ok tk x" "cs \<noteq> []" "length cs > 1 \<longrightarrow> pipe \<and> [] \<notin> set cs"
  shows "tokenize True [l, r] pipe quotes (pipeline l r cs)
    = Inr (pipe_args (map (map meaning) (butlast cs)) (map meaning (List.last cs)))"
proof -
  have tk: "nesting tk l r" "tk_pipe tk = pipe" using Tokenizer_configured [OF assms(1,2), of pipe] assms(3) by auto
  from loop_pipeline [OF tk(1) assms(4,5) _ lexer_before, of "[]"] assms(6) tk(2)
  have "Tokenizer_tokenize tk (pipeline l r cs) = Inr (pipe_args (map (map meaning) (butlast cs)) (map meaning (List.last cs)))"
    by (simp add: Tokenizer_tokenize_def)
  then show ?thesis by (simp add: tokenize_run [OF assms(3)])
qed

text \<open>
  C6: A line of bare words, quoted strings (written by \<open>dqrepr\<close>) and nested commands, however deep, is read back as
  these words and commands; any strings can be passed in quotes, and none of their characters is taken for a
  bracket, a pipe or an escape.
\<close>

theorem commands_read_back:
  assumes "[l, r] \<in> set bracket_pairs" "set quotes \<subseteq> quote_chars" "Tokenizer_new [l, r] pipe quotes = Inr tk"
    and "\<forall>x \<in> set xs. src_ok tk x"
  shows "tokenize True [l, r] pipe quotes (texts l r xs) = Inr (map meaning xs)"
  using tokenize_pipeline [OF assms(1-3), of "[xs]"] assms(4) by (simp add: pipe_args_def)

definition sample_srcs :: "src list" where
  "sample_srcs = [Bare ''say'', Quoted [CHR 0x22, CHR 0x0A, CHR '']'', CHR 0x5C, CHR 0xE9], Group [Bare ''seen'', Group [], Bare ''it|s'']]"

lemma sample_tokenizer: "\<exists>tk. Tokenizer_new ''[]'' False [CHR 0x22] = Inr tk \<and> (\<forall>x \<in> set sample_srcs. src_ok tk x)"
proof -
  have "''[]'' \<in> set bracket_pairs" "set [CHR 0x22] \<subseteq> quote_chars" by (simp_all add: bracket_pairs_def quote_chars_def)
  then obtain tk where tk: "Tokenizer_new ''[]'' False [CHR 0x22] = Inr tk" "tk_quotes tk = [CHR 0x22]"
    "set (tk_validChars tk) = - ({CHR 0x00, CHR 0x0D, CHR 0x0A, CHR '' '', CHR 0x09, CHR ''['', CHR '']''} \<union> set [CHR 0x22] \<union> (if False then {CHR ''|''} else {}))"
    by (rule Tokenizer_configured)
  then have "\<forall>x \<in> set sample_srcs. src_ok tk x" by (simp add: sample_srcs_def bare_def)
  with tk(1) show ?thesis by blast
qed

theorem commands_read_back_witness:
  "tokenize True ''[]'' False [CHR 0x22] (texts CHR ''['' CHR '']'' sample_srcs)
    = Inr [Word ''say'', Word [CHR 0x22, CHR 0x0A, CHR '']'', CHR 0x5C, CHR 0xE9], Nested [Word ''seen'', Nested [], Word ''it|s'']]"
proof -
  obtain tk where tk: "Tokenizer_new ''[]'' False [CHR 0x22] = Inr tk" "\<forall>x \<in> set sample_srcs. src_ok tk x"
    using sample_tokenizer by blast
  have "''[]'' \<in> set bracket_pairs" "set [CHR 0x22] \<subseteq> quote_chars" by (simp_all add: bracket_pairs_def quote_chars_def)
  from commands_read_back [OF this tk] show ?thesis by (simp add: sample_srcs_def)
qed

text \<open>
  C24: Pipes: of two or three commands each is an argument of the one behind it.  Of four commands the first is not an
  argument of the second: both are arguments of the third.
\<close>

theorem four_pipes_lose_nesting:
  assumes "[l, r] \<in> set bracket_pairs" "set quotes \<subseteq> quote_chars" "Tokenizer_new [l, r] True quotes = Inr tk"
    and "\<forall>c \<in> {as, bs, cs, ds}. c \<noteq> [] \<and> (\<forall>x \<in> set c. src_ok tk x)"
  shows "tokenize True [l, r] True quotes (texts l r as @ '' | '' @ texts l r bs)
      = Inr (map meaning bs @ [Nested (map meaning as)])
    \<and> tokenize True [l, r] True quotes (texts l r as @ '' | '' @ texts l r bs @ '' | '' @ texts l r cs)
      = Inr (map meaning cs @ [Nested (map meaning bs @ [Nested (map meaning as)])])
    \<and> tokenize True [l, r] True quotes (texts l r as @ '' | '' @ texts l r bs @ '' | '' @ texts l r cs @ '' | '' @ texts l r ds)
      = Inr (map meaning ds @ [Nested (map meaning cs @ [Nested (map meaning bs), Nested (map meaning as)])])
    \<and> [Nested (map meaning bs), Nested (map meaning as)] \<noteq> [Nested (map meaning bs @ [Nested (map meaning as)])]"
proof -
  have ok: "\<forall>c \<in> set [as, bs, cs, ds]. \<forall>x \<in> set c. src_ok tk x" "[] \<notin> set [as, bs, cs, ds]" using assms(4) by auto
  note run = tokenize_pipeline [OF assms(1-3)]
  have "tokenize True [l, r] True quotes (pipeline l r cs') = Inr (pipe_args (map (map meaning) (butlast cs')) (map meaning (List.last cs')))"
    if "cs' \<in> {[as, bs], [as, bs, cs], [as, bs, cs, ds]}" for cs'
    by (rule run) (use ok that in auto)
  from this [of "[as, bs]"] this [of "[as, bs, cs]"] this [of "[as, bs, cs, ds]"] show ?thesis by (simp add: pipe_args_def)
qed

theorem four_pipes_lose_nesting_witness:
  "tokenize True ''[]'' True [CHR 0x22] ''a | b | c | d'' = Inr [Word ''d'', Nested [Word ''c'', Nested [Word ''b''], Nested [Word ''a'']]]"
proof -
  have c: "''[]'' \<in> set bracket_pairs" "set [CHR 0x22] \<subseteq> quote_chars" by (simp_all add: bracket_pairs_def quote_chars_def)
  then obtain tk where tk: "Tokenizer_new ''[]'' True [CHR 0x22] = Inr tk"
    "set (tk_validChars tk) = - ({CHR 0x00, CHR 0x0D, CHR 0x0A, CHR '' '', CHR 0x09, CHR ''['', CHR '']''} \<union> set [CHR 0x22] \<union> (if True then {CHR ''|''} else {}))"
    by (rule Tokenizer_configured)
  from four_pipes_lose_nesting [OF c tk(1), of "[Bare ''a'']" "[Bare ''b'']" "[Bare ''c'']" "[Bare ''d'']"] tk(2)
  show ?thesis by (simp add: bare_def)
qed

text \<open>
  C17: Whatever line is given, the tokenizer answers: it returns commands or raises \<open>SyntaxError\<close>, and it does not run
  for ever.
\<close>

theorem tokenize_answers:
  assumes "brackets = [] \<or> brackets \<in> set bracket_pairs" "set quotes \<subseteq> quote_chars"
  shows "(\<exists>args. tokenize nested brackets pipe quotes s = Inr args) \<or> tokenize nested brackets pipe quotes s = Inl SyntaxError"
proof -
  have "\<exists>tk. Tokenizer_new (if nested then brackets else []) (nested \<and> pipe) quotes = Inr tk"
    using assms(1) by (auto simp: Tokenizer_new_def Let_def bracket_pairs_def)
  then obtain tk where tk: "Tokenizer_new (if nested then brackets else []) (nested \<and> pipe) quotes = Inr tk" by blast
  let ?lx = "(shlex_new s)\<lparr>sx_commenters := [], sx_quotes := tk_quotes tk, sx_wordchars := tk_validChars tk\<rparr>"
  have lx: "lexing tk ?lx" by (simp add: lexing_def shlex_new_def)
  obtain r lx' where r: "tokenize_loop tk [] [] ?lx = (r, lx')" by (cases "tokenize_loop tk [] [] ?lx")
  have "\<forall>e. r = Inl e \<longrightarrow> tokenizer_error e" by (rule tokenize_loop_lexing [OF lx r])
  then show ?thesis using tk r
    by (cases r) (auto simp: tokenize_def Tokenizer_tokenize_def tokenizer_error_def)
qed

theorem tokenize_answers_witness:
  "(\<exists>args. tokenize True ''<>'' True [CHR 0x27] ''x < y'' = Inr args) \<or> tokenize True ''<>'' True [CHR 0x27] ''x < y'' = Inl SyntaxError"
  by (rule tokenize_answers) (simp_all add: bracket_pairs_def quote_chars_def)

text \<open>
  A bracket that is not closed, one that was not opened, and a pipe with nothing before or behind it are refused.
\<close>

theorem unbalanced_lines_refused:
  assumes "[l, r] \<in> set bracket_pairs" "set quotes \<subseteq> quote_chars" "Tokenizer_new [l, r] True quotes = Inr tk"
    and "\<forall>x \<in> set xs \<union> set ys. src_ok tk x"
  shows "tokenize True [l, r] True quotes (texts l r xs @ l # texts l r ys) = Inl SyntaxError
    \<and> tokenize True [l, r] True quotes (texts l r xs @ r # s) = Inl SyntaxError
    \<and> tokenize True [l, r] True quotes (texts l r xs @ '' | '') = Inl SyntaxError
    \<and> tokenize True [l, r] True quotes (CHR ''|'' # s) = Inl SyntaxError"
proof (intro conjI)
  have tk: "nesting tk l r" "tk_pipe tk" using Tokenizer_configured [OF assms(1,2), of True] assms(3) by auto
  have p: "punct tk l" "punct tk r" "punct tk CHR ''|''" "tk_left tk = [l]" "tk_right tk = [r]" "l \<noteq> r" "l \<noteq> CHR ''|''" "r \<noteq> CHR ''|''"
    using tk by (simp_all add: nesting_def)
  let ?lx = "\<lambda>s. (shlex_new s)\<lparr>sx_commenters := [], sx_quotes := tk_quotes tk, sx_wordchars := tk_validChars tk\<rparr>"
  have refused: "tokenize True [l, r] True quotes s = Inl SyntaxError" if "fst (tokenize_loop tk [] [] (?lx s)) = Inl SyntaxError" for s
    by (simp add: tokenize_run [OF assms(3)] Tokenizer_tokenize_def that)
  have xs: "\<forall>x \<in> set xs. src_ok tk x" "\<forall>x \<in> set ys. src_ok tk x" using assms(4) by simp_all
  note run = loop_texts [OF tk(1) xs(1) _ lexer_before, of _ "[]" "[]", simplified]
  show "tokenize True [l, r] True quotes (texts l r xs @ l # texts l r ys) = Inl SyntaxError"
  proof (rule refused)
    obtain lx1 where lx1: "tokenize_loop tk [] [] (?lx (texts l r xs @ l # texts l r ys)) = tokenize_loop tk [] (map meaning xs) lx1"
        "before tk (l # texts l r ys) lx1" using run [of "l # texts l r ys"] p(1) by (auto simp: word_ends_def)
    obtain lx2 where lx2: "get_token lx1 = (Inr [l], lx2)" "before tk (texts l r ys) lx2" by (rule punct_token [OF lx1(2) p(1)])
    show "fst (tokenize_loop tk [] [] (?lx (texts l r xs @ l # texts l r ys))) = Inl SyntaxError"
      unfolding lx1(1) using lx2(1) p(4,7) inside_open [OF tk(1) xs(2) lx2(2)]
      by (cases "insideBrackets tk lx2") (subst tokenize_loop.simps, auto)
  qed
  show "tokenize True [l, r] True quotes (texts l r xs @ r # s) = Inl SyntaxError"
  proof (rule refused)
    obtain lx1 where lx1: "tokenize_loop tk [] [] (?lx (texts l r xs @ r # s)) = tokenize_loop tk [] (map meaning xs) lx1"
        "before tk (r # s) lx1" using run [of "r # s"] p(2) by (auto simp: word_ends_def)
    obtain lx2 where lx2: "get_token lx1 = (Inr [r], lx2)" by (rule punct_token [OF lx1(2) p(2)])
    show "fst (tokenize_loop tk [] [] (?lx (texts l r xs @ r # s))) = Inl SyntaxError"
      unfolding lx1(1) using lx2 p(4-8) by (subst tokenize_loop.simps) auto
  qed
  show "tokenize True [l, r] True quotes (texts l r xs @ '' | '') = Inl SyntaxError"
  proof (rule refused)
    obtain lx1 where lx1: "tokenize_loop tk [] [] (?lx (texts l r xs @ '' | '')) = tokenize_loop tk [] (map meaning xs) lx1"
        "before tk '' | '' lx1" using run [of "'' | ''"] by (auto simp: word_ends_def is_blank_def)
    show "fst (tokenize_loop tk [] [] (?lx (texts l r xs @ '' | ''))) = Inl SyntaxError"
    proof (cases "map meaning xs = []")
      case True
      obtain lx2 where lx2: "before tk ''| '' lx2" "tokenize_loop tk [] (map meaning xs) lx1 = tokenize_loop tk [] (map meaning xs) lx2"
        using loop_skip [of tk "CHR '' ''" "''| ''" lx1 "[]" "map meaning xs"] lx1(2) by (auto simp: is_blank_def)
      obtain lx3 where "get_token lx2 = (Inr ''|'', lx3)" by (rule punct_token [OF lx2(1) p(3)])
      then show ?thesis unfolding lx1(1) lx2(2) using True tk(2) by (subst tokenize_loop.simps) simp
    next
      case False
      obtain lx2 where lx2: "tokenize_loop tk [] (map meaning xs) lx1 = tokenize_loop tk ([] @ [map meaning xs]) [] lx2" "before tk [] lx2"
        using loop_pipe [of tk "[]" lx1 l r "map meaning xs" "[]"] lx1(2) tk False by auto
      obtain lx3 where "get_token lx2 = (Inr [], lx3)" using end_token [OF lx2(2)] by blast
      then show ?thesis unfolding lx1(1) lx2(1) by (subst tokenize_loop.simps) simp
    qed
  qed
  show "tokenize True [l, r] True quotes (CHR ''|'' # s) = Inl SyntaxError"
  proof (rule refused)
    obtain lx1 where "get_token (?lx (CHR ''|'' # s)) = (Inr ''|'', lx1)" by (rule punct_token [OF lexer_before p(3)])
    then show "fst (tokenize_loop tk [] [] (?lx (CHR ''|'' # s))) = Inl SyntaxError"
      using tk(2) by (subst tokenize_loop.simps) simp
  qed
qed

theorem unbalanced_lines_refused_witness:
  "tokenize True ''()'' True [CHR 0x22] ''echo(seen bob'' = Inl SyntaxError"
proof -
  have c: "''()'' \<in> set bracket_pairs" "set [CHR 0x22] \<subseteq> quote_chars" by (simp_all add: bracket_pairs_def quote_chars_def)
  then obtain tk where tk: "Tokenizer_new ''()'' True [CHR 0x22] = Inr tk"
    "set (tk_validChars tk) = - ({CHR 0x00, CHR 0x0D, CHR 0x0A, CHR '' '', CHR 0x09, CHR ''('', CHR '')''} \<union> set [CHR 0x22] \<union> (if True then {CHR ''|''} else {}))"
    by (rule Tokenizer_configured)
  from unbalanced_lines_refused [OF c tk(1), of "[Bare ''echo'']" "[Bare ''seen'', Bare ''bob'']"] tk(2)
  show ?thesis by (simp add: bare_def)
qed

end
