(* ===== verification/Heapq.thy ===== *)
theory Heapq
  imports Supy_Prelude
begin

text \<open>
  The standard library's \<open>heapq\<close>, which \<open>schedule.py\<close> keeps its events with: \<open>heappush\<close>, \<open>heappop\<close> and
  \<open>heapify\<close>, the two sifts written as CPython has them.  The order \<open>lt\<close> is an argument, because the program mixes
  tuples of two classes in one heap, and their common order is not transitive.  The locale \<open>heap_order\<close> asks only
  that \<open>lt\<close> never contradicts a key; it is enough for the first element to have the smallest key at all times.
\<close>

section \<open>The functions\<close>

fun siftdown_loop :: "('a \<Rightarrow> 'a \<Rightarrow> bool) \<Rightarrow> nat \<Rightarrow> nat \<Rightarrow> 'a \<Rightarrow> 'a list \<Rightarrow> 'a list" where
  "siftdown_loop lt startpos pos newitem h =
     (if startpos < pos then
        let parentpos = (pos - 1) div 2 in
        if lt newitem (h ! parentpos)
        then siftdown_loop lt startpos parentpos newitem (h[pos := h ! parentpos])
        else h[pos := newitem]
      else h[pos := newitem])"

declare siftdown_loop.simps [simp del]

definition siftdown :: "('a \<Rightarrow> 'a \<Rightarrow> bool) \<Rightarrow> nat \<Rightarrow> nat \<Rightarrow> 'a list \<Rightarrow> 'a list" where
  "siftdown lt startpos pos h = siftdown_loop lt startpos pos (h ! pos) h"

text \<open>The smaller child of a position that has one.\<close>

definition smaller_child :: "('a \<Rightarrow> 'a \<Rightarrow> bool) \<Rightarrow> nat \<Rightarrow> 'a list \<Rightarrow> nat" where
  "smaller_child lt pos h =
     (let childpos = 2 * pos + 1; rightpos = childpos + 1 in
      if rightpos < length h \<and> \<not> lt (h ! childpos) (h ! rightpos) then rightpos else childpos)"

function siftup_loop :: "('a \<Rightarrow> 'a \<Rightarrow> bool) \<Rightarrow> nat \<Rightarrow> 'a list \<Rightarrow> nat \<times> 'a list" where
  "siftup_loop lt pos h =
     (if 2 * pos + 1 < length h
      then siftup_loop lt (smaller_child lt pos h) (h[pos := h ! smaller_child lt pos h])
      else (pos, h))"
  by pat_completeness auto

lemma smaller_child_cases:
  "smaller_child lt pos h = 2 * pos + 1 \<or> smaller_child lt pos h = 2 * pos + 2 \<and> 2 * pos + 2 < length h"
  by (auto simp: smaller_child_def Let_def)

termination siftup_loop
proof (relation "measure (\<lambda>(_, pos, h). length h - pos)", goal_cases)
  case (2 lt pos h)
  then show ?case using smaller_child_cases [of lt pos h] by auto
qed simp

declare siftup_loop.simps [simp del]

definition siftup :: "('a \<Rightarrow> 'a \<Rightarrow> bool) \<Rightarrow> nat \<Rightarrow> 'a list \<Rightarrow> 'a list" where
  "siftup lt startpos h =
     (let newitem = h ! startpos; (pos, h') = siftup_loop lt startpos h
      in siftdown lt startpos pos (h'[pos := newitem]))"

definition heappush :: "('a \<Rightarrow> 'a \<Rightarrow> bool) \<Rightarrow> 'a \<Rightarrow> 'a list \<Rightarrow> 'a list" where
  "heappush lt item h = siftdown lt 0 (length h) (h @ [item])"

definition heappop :: "('a \<Rightarrow> 'a \<Rightarrow> bool) \<Rightarrow> 'a list \<Rightarrow> ('a \<times> 'a list) res" where
  "heappop lt h =
     (if h = [] then Inl IndexError
      else let lastelt = List.last h; h' = butlast h in
        if h' = [] then Inr (lastelt, [])
        else Inr (h' ! 0, siftup lt 0 (h'[0 := lastelt])))"

definition heapify :: "('a \<Rightarrow> 'a \<Rightarrow> bool) \<Rightarrow> 'a list \<Rightarrow> 'a list" where
  "heapify lt h = fold (siftup lt) (rev [0 ..< length h div 2]) h"

section \<open>The elements\<close>

lemma mset_move:
  assumes "i < length h" "j < length h" "i \<noteq> j"
  shows "mset (h[i := h ! j, j := x]) = mset (h[i := x])"
proof -
  have "mset ((h[i := x])[i := h[i := x] ! j, j := h[i := x] ! i]) = mset (h[i := x])"
    using assms by (intro mset_swap) simp_all
  with assms show ?thesis by simp
qed

lemma mset_siftdown_loop:
  "pos < length h \<Longrightarrow> mset (siftdown_loop lt startpos pos x h) = mset (h[pos := x])"
proof (induction lt startpos pos x h rule: siftdown_loop.induct)
  case (1 lt startpos pos x h)
  then show ?case
    using mset_move [of pos h "(pos - 1) div 2" x]
    by (subst siftdown_loop.simps) (auto simp: Let_def)
qed

lemma length_siftdown_loop [simp]: "length (siftdown_loop lt startpos pos x h) = length h"
proof (induction lt startpos pos x h rule: siftdown_loop.induct)
  case (1 lt startpos pos x h)
  then show ?case by (subst siftdown_loop.simps) (auto simp: Let_def)
qed

lemma mset_siftdown: "pos < length h \<Longrightarrow> mset (siftdown lt startpos pos h) = mset h"
  by (simp add: siftdown_def mset_siftdown_loop)

lemma siftup_loop_elements:
  "siftup_loop lt pos h = (p, h') \<Longrightarrow> pos < length h
    \<Longrightarrow> length h' = length h \<and> p < length h \<and> mset (h'[p := x]) = mset (h[pos := x])"
proof (induction lt pos h arbitrary: p h' rule: siftup_loop.induct)
  case (1 lt pos h)
  show ?case
  proof (cases "2 * pos + 1 < length h")
    case True
    let ?c = "smaller_child lt pos h"
    have c: "?c < length h" "?c \<noteq> pos" using True smaller_child_cases [of lt pos h] by auto
    have "siftup_loop lt ?c (h[pos := h ! ?c]) = (p, h')"
      using "1.prems"(1) True by (subst (asm) siftup_loop.simps) simp
    from "1.IH" [OF True this] c "1.prems"(2) show ?thesis by (simp add: mset_move)
  next
    case False
    with "1.prems" show ?thesis by (subst (asm) siftup_loop.simps) simp
  qed
qed

lemma mset_siftup: "pos < length h \<Longrightarrow> mset (siftup lt pos h) = mset h"
  by (cases "siftup_loop lt pos h")
    (auto simp: siftup_def mset_siftdown dest: siftup_loop_elements [where x = "h ! pos"])

lemma mset_heappush: "mset (heappush lt x h) = add_mset x (mset h)"
  by (simp add: heappush_def mset_siftdown)

lemma mset_heappop: "heappop lt h = Inr (x, h') \<Longrightarrow> mset h = add_mset x (mset h')"
proof (cases h rule: rev_cases)
  case (snoc ys y)
  assume pop: "heappop lt h = Inr (x, h')"
  show ?thesis
  proof (cases ys)
    case (Cons z zs)
    with pop snoc have "x = z" "h' = siftup lt 0 (y # zs)" by (auto simp: heappop_def Let_def)
    with snoc Cons show ?thesis by (simp add: mset_siftup)
  qed (use pop snoc in \<open>simp add: heappop_def\<close>)
qed (simp add: heappop_def)

lemma mset_heapify: "mset (heapify lt h) = mset h"
proof -
  have "mset (fold (siftup lt) is g) = mset h" if "\<forall>i \<in> set is. i < length h" "mset g = mset h" for "is" g
    using that
  proof (induction "is" arbitrary: g)
    case (Cons i "is")
    then have "mset (siftup lt i g) = mset h" by (metis list.set_intros(1) mset_siftup size_mset)
    with Cons show ?case by simp
  qed simp
  moreover have "\<forall>i \<in> set (rev [0 ..< length h div 2]). i < length h" by auto
  ultimately show ?thesis unfolding heapify_def by blast
qed

section \<open>The order\<close>

abbreviation parent :: "nat \<Rightarrow> nat" where
  "parent i \<equiv> (i - 1) div 2"

lemma parent_less: "0 < i \<Longrightarrow> parent i < i"
  by auto

text \<open>Every element from position \<open>s\<close> on has a key that is not larger than its children's, the edge into
  \<open>hole\<close> apart.\<close>

definition heap_from :: "('a \<Rightarrow> 'k::linorder) \<Rightarrow> nat \<Rightarrow> nat option \<Rightarrow> 'a list \<Rightarrow> bool" where
  "heap_from key s hole h \<longleftrightarrow>
     (\<forall>i < length h. 0 < i \<and> s \<le> parent i \<and> Some i \<noteq> hole \<longrightarrow> key (h ! parent i) \<le> key (h ! i))"

abbreviation is_heap :: "('a \<Rightarrow> 'k::linorder) \<Rightarrow> 'a list \<Rightarrow> bool" where
  "is_heap key h \<equiv> heap_from key 0 None h"

lemma is_heap_first_least:
  assumes "is_heap key h" "x \<in> set h"
  shows "key (h ! 0) \<le> key x"
proof -
  have "key (h ! 0) \<le> key (h ! i)" if "i < length h" for i
    using that
  proof (induction i rule: less_induct)
    case (less i)
    show ?case
    proof (cases "i = 0")
      case False
      then have "parent i < i" by simp
      with less False have "key (h ! 0) \<le> key (h ! parent i)" "key (h ! parent i) \<le> key (h ! i)"
        using assms(1) by (auto simp: heap_from_def)
      then show ?thesis by (rule order_trans)
    qed simp
  qed
  with assms(2) show ?thesis by (auto simp: in_set_conv_nth)
qed

text \<open>The position \<open>p\<close> lies below \<open>s\<close> in the tree.\<close>

fun below :: "nat \<Rightarrow> nat \<Rightarrow> bool" where
  "below s p \<longleftrightarrow> p = s \<or> (if s < p then below s (parent p) else False)"

declare below.simps [simp del]

lemma below_refl [simp]: "below s s"
  by (simp add: below.simps)

lemma below_parent: "below s p \<Longrightarrow> s < p \<Longrightarrow> below s (parent p)"
  by (simp add: below.simps [of s p])

lemma below_le: "below s p \<Longrightarrow> s \<le> p"
  by (subst (asm) below.simps) (auto split: if_splits)

lemma below_child: "below s p \<Longrightarrow> parent c = p \<Longrightarrow> 0 < c \<Longrightarrow> below s c"
  using below_le [of s p] by (subst below.simps) auto

lemma below_zero [simp]: "below 0 p"
  by (induction p rule: less_induct) (subst below.simps, auto)

locale heap_order =
  fixes lt :: "'a \<Rightarrow> 'a \<Rightarrow> bool" and key :: "'a \<Rightarrow> 'k::linorder"
  assumes lt_key: "lt a b \<Longrightarrow> key a \<le> key b"
    and not_lt_key: "\<not> lt a b \<Longrightarrow> key b \<le> key a"
begin

lemma siftdown_loop_heap:
  "\<lbrakk>pos < length h; below s pos; heap_from key s (Some pos) (h[pos := x]);
    \<forall>c < length h. 0 < c \<and> parent c = pos \<and> s < pos \<longrightarrow> key (h ! parent pos) \<le> key (h ! c)\<rbrakk>
    \<Longrightarrow> heap_from key s None (siftdown_loop lt s pos x h)"
proof (induction pos arbitrary: h rule: less_induct)
  case (less pos)
  let ?p = "parent pos"
  note hole = less.prems(3) [unfolded heap_from_def, rule_format]
  show ?case
  proof (cases "s < pos \<and> lt x (h ! ?p)")
    case True
    then have p: "?p < pos" "?p < length h" "below s ?p" "s \<le> ?p"
      using less.prems(1) below_parent [OF less.prems(2)] below_le by auto
    let ?g = "h[pos := h ! ?p]"
    have "heap_from key s (Some ?p) (?g[?p := x])"
    proof (unfold heap_from_def, intro allI impI)
      fix i assume i: "i < length (?g[?p := x])" "0 < i \<and> s \<le> parent i \<and> Some i \<noteq> Some ?p"
      consider "i = pos" | "i \<noteq> pos" "parent i = pos" | "i \<noteq> pos" "parent i = ?p" | "i \<noteq> pos" "parent i \<noteq> pos" "parent i \<noteq> ?p"
        by blast
      then show "key (?g[?p := x] ! parent i) \<le> key (?g[?p := x] ! i)"
      proof cases
        case 1
        with p True less.prems(1) show ?thesis by (simp add: lt_key)
      next
        case 2
        with i p True less.prems(4) show ?thesis by simp
      next
        case 3
        with i p hole [of i] True lt_key [of x "h ! ?p"] less.prems(1) show ?thesis by (auto intro: order_trans)
      next
        case 4
        with i hole [of i] show ?thesis by auto
      qed
    qed
    moreover have "\<forall>c < length ?g. 0 < c \<and> parent c = ?p \<and> s < ?p \<longrightarrow> key (?g ! parent ?p) \<le> key (?g ! c)"
    proof (intro allI impI)
      fix c assume c: "c < length ?g" "0 < c \<and> parent c = ?p \<and> s < ?p"
      have sp: "s \<le> parent ?p" using below_parent [OF p(3)] c below_le by blast
      have pp: "parent ?p < ?p" using c by (intro parent_less) linarith
      then have up: "key (h ! parent ?p) \<le> key (h ! ?p)"
        using hole [of ?p] p sp c by (auto simp: nth_list_update)
      show "key (?g ! parent ?p) \<le> key (?g ! c)"
      proof (cases "c = pos")
        case False
        with c p sp have "key (h ! ?p) \<le> key (h ! c)" using hole [of c] by (auto simp: nth_list_update)
        with False up pp p show ?thesis by auto
      qed (use up pp p less.prems(1) in auto)
    qed
    ultimately have "heap_from key s None (siftdown_loop lt s ?p x ?g)"
      using p by (intro less.IH) simp_all
    with True show ?thesis by (subst siftdown_loop.simps) (simp add: Let_def)
  next
    case False
    have "heap_from key s None (h[pos := x])"
    proof (unfold heap_from_def, intro allI impI)
      fix i assume i: "i < length (h[pos := x])" "0 < i \<and> s \<le> parent i \<and> Some i \<noteq> None"
      show "key (h[pos := x] ! parent i) \<le> key (h[pos := x] ! i)"
      proof (cases "i = pos")
        case True
        with i have "s < pos" "parent pos \<noteq> pos" by auto
        with True False i show ?thesis by (auto simp: not_lt_key)
      qed (use i hole in auto)
    qed
    with False show ?thesis by (subst siftdown_loop.simps) (auto simp: Let_def)
  qed
qed

lemma smaller_child_least:
  assumes "c < length h" "0 < c" "parent c = pos"
  shows "key (h ! smaller_child lt pos h) \<le> key (h ! c)"
proof -
  have "c = 2 * pos + 1 \<or> c = 2 * pos + 2" using assms by auto
  then show ?thesis
    using assms lt_key [of "h ! (2 * pos + 1)" "h ! (2 * pos + 2)"] not_lt_key [of "h ! (2 * pos + 1)" "h ! (2 * pos + 2)"]
    by (auto simp: smaller_child_def Let_def)
qed

text \<open>While the hole moves down, every edge that does not touch it is in order, and its parent is not larger than
  its children.\<close>

lemma siftup_loop_heap:
  "\<lbrakk>siftup_loop lt pos h = (p, h'); pos < length h; below s pos;
    \<forall>i < length h. 0 < i \<and> s \<le> parent i \<and> i \<noteq> pos \<and> parent i \<noteq> pos \<longrightarrow> key (h ! parent i) \<le> key (h ! i);
    \<forall>c < length h. 0 < c \<and> parent c = pos \<and> s < pos \<longrightarrow> key (h ! parent pos) \<le> key (h ! c)\<rbrakk>
    \<Longrightarrow> below s p \<and> heap_from key s (Some p) (h'[p := x]) \<and> length h' \<le> 2 * p + 1"
proof (induction "length h - pos" arbitrary: pos h rule: less_induct)
  case less
  note edges = less.prems(4) [rule_format] and grand = less.prems(5) [rule_format]
  show ?case
  proof (cases "2 * pos + 1 < length h")
    case True
    let ?c = "smaller_child lt pos h"
    let ?g = "h[pos := h ! ?c]"
    have c: "?c < length h" "pos < ?c" "parent ?c = pos" "0 < ?c"
      using True smaller_child_cases [of lt pos h] by auto
    have run: "siftup_loop lt ?c ?g = (p, h')"
      using less.prems(1) True by (subst (asm) siftup_loop.simps) simp
    have "\<forall>i < length ?g. 0 < i \<and> s \<le> parent i \<and> i \<noteq> ?c \<and> parent i \<noteq> ?c \<longrightarrow> key (?g ! parent i) \<le> key (?g ! i)"
    proof (intro allI impI)
      fix i assume i: "i < length ?g" "0 < i \<and> s \<le> parent i \<and> i \<noteq> ?c \<and> parent i \<noteq> ?c"
      consider "i = pos" | "i \<noteq> pos" "parent i = pos" | "i \<noteq> pos" "parent i \<noteq> pos" by blast
      then show "key (?g ! parent i) \<le> key (?g ! i)"
      proof cases
        case 1
        with i have "parent pos < pos" "s < pos" by auto
        with 1 grand [of ?c] c less.prems(2) show ?thesis by auto
      next
        case 2
        with i smaller_child_least [of i h pos] less.prems(2) show ?thesis by simp
      next
        case 3
        with i edges [of i] show ?thesis by simp
      qed
    qed
    moreover have "\<forall>d < length ?g. 0 < d \<and> parent d = ?c \<and> s < ?c \<longrightarrow> key (?g ! parent ?c) \<le> key (?g ! d)"
    proof (intro allI impI)
      fix d assume d: "d < length ?g" "0 < d \<and> parent d = ?c \<and> s < ?c"
      then have "d \<noteq> pos" "s \<le> parent d" "parent d \<noteq> pos" using c by auto
      with edges [of d] d c less.prems(2) show "key (?g ! parent ?c) \<le> key (?g ! d)" by simp
    qed
    ultimately show ?thesis
      using c less.prems(2,3) by (intro less.hyps [OF _ run]) (auto intro: below_child)
  next
    case False
    then have eq: "p = pos" "h' = h" using less.prems(1) by (subst (asm) siftup_loop.simps; simp)+
    have "heap_from key s (Some pos) (h[pos := x])"
    proof (unfold heap_from_def, intro allI impI)
      fix i assume i: "i < length (h[pos := x])" "0 < i \<and> s \<le> parent i \<and> Some i \<noteq> Some pos"
      then have "parent i \<noteq> pos" using False by auto
      with i edges [of i] show "key (h[pos := x] ! parent i) \<le> key (h[pos := x] ! i)" by simp
    qed
    with eq False less.prems(3) show ?thesis by simp
  qed
qed

lemma siftup_heap:
  assumes "s < length h" "heap_from key (Suc s) None h"
  shows "heap_from key s None (siftup lt s h)"
proof -
  obtain p h' where loop: "siftup_loop lt s h = (p, h')" by fastforce
  let ?g = "h'[p := h ! s]"
  have len: "length h' = length h" "p < length h"
    using siftup_loop_elements [OF loop assms(1)] by simp_all
  have "below s p \<and> heap_from key s (Some p) (h'[p := h ! s]) \<and> length h' \<le> 2 * p + 1"
    using assms by (intro siftup_loop_heap [OF loop]) (auto simp: heap_from_def)
  then have "heap_from key s None (siftdown_loop lt s p (?g ! p) ?g)"
    using len by (intro siftdown_loop_heap) auto
  with loop show ?thesis by (simp add: siftup_def siftdown_def Let_def)
qed

lemma heappush_heap:
  assumes "is_heap key h"
  shows "is_heap key (heappush lt x h)"
proof -
  have "heap_from key 0 None (siftdown_loop lt 0 (length h) x (h @ [x]))"
    using assms parent_less [of "length h"]
    by (intro siftdown_loop_heap; cases "h = []") (auto simp: heap_from_def nth_append less_Suc_eq)
  then show ?thesis by (simp add: heappush_def siftdown_def)
qed

lemma heappop_heap:
  assumes "is_heap key h" "heappop lt h = Inr (x, h')"
  shows "is_heap key h'"
proof (cases h rule: rev_cases)
  case (snoc ys y)
  show ?thesis
  proof (cases ys)
    case (Cons z zs)
    with assms snoc have h': "h' = siftup lt 0 (y # zs)" by (auto simp: heappop_def Let_def)
    have "heap_from key (Suc 0) None (y # zs)"
    proof (unfold heap_from_def, intro allI impI)
      fix i assume i: "i < length (y # zs)" "0 < i \<and> Suc 0 \<le> parent i \<and> Some i \<noteq> None"
      then have "i < length h" using snoc Cons by simp
      with i have "key (h ! parent i) \<le> key (h ! i)" using assms(1) unfolding heap_from_def by simp
      moreover have "h ! j = (y # zs) ! j" if "0 < j" "j < length (y # zs)" for j
        using that snoc Cons by (auto simp: nth_append nth_Cons')
      moreover have "0 < parent i" "parent i < length (y # zs)" using i by auto
      ultimately show "key ((y # zs) ! parent i) \<le> key ((y # zs) ! i)" using i by metis
    qed
    then have "is_heap key (siftup lt 0 (y # zs))" by (intro siftup_heap) simp_all
    with h' show ?thesis by simp
  qed (use assms snoc in \<open>auto simp: heappop_def heap_from_def\<close>)
qed (use assms in \<open>simp add: heappop_def\<close>)

lemma heapify_heap: "is_heap key (heapify lt h)"
proof -
  have "is_heap key (fold (siftup lt) (rev [0 ..< n]) g)" if "n \<le> length g" "heap_from key n None g" for n g
    using that
  proof (induction n arbitrary: g)
    case (Suc n)
    then have "heap_from key n None (siftup lt n g)" by (intro siftup_heap) simp_all
    moreover have "n \<le> length (siftup lt n g)" using Suc.prems(1) by (metis Suc_leD Suc_le_lessD mset_siftup size_mset)
    ultimately show ?case using Suc.IH by simp
  qed simp
  moreover have "heap_from key (length h div 2) None h"
    by (auto simp: heap_from_def)
  ultimately show ?thesis by (simp add: heapify_def)
qed

text \<open>What \<open>heappop\<close> hands out has the least key of all.\<close>

lemma heappop_least:
  assumes "is_heap key h" "h \<noteq> []"
  obtains h' where "heappop lt h = Inr (h ! 0, h')" "is_heap key h'" "mset h = add_mset (h ! 0) (mset h')"
    "\<forall>x \<in> set h'. key (h ! 0) \<le> key x"
proof -
  obtain h' where pop: "heappop lt h = Inr (h ! 0, h')"
    using assms(2) by (cases h rule: rev_cases; cases "butlast h = []") (auto simp: heappop_def Let_def nth_append)
  moreover have m: "mset h = add_mset (h ! 0) (mset h')" by (rule mset_heappop [OF pop])
  moreover have "set h' \<subseteq> set h" using arg_cong [OF m, of set_mset] by auto
  ultimately show ?thesis
    using that [OF pop heappop_heap [OF assms(1) pop]] is_heap_first_least [OF assms(1)] by blast
qed

end

end
