(* ===== verification/Schedules.thy ===== *)
theory Schedules
  imports Heapq "HOL-Library.List_Lexorder" "HOL-Library.Char_ord"
begin

text \<open>
  \<open>schedule.py\<close>: the driver that calls functions at given times.  \<open>sc_schedule\<close> is the heap of entries,
  \<open>sc_events\<close> the dictionary from names to functions.  An entry is a \<open>mytuple\<close>, ordered by time alone, until a
  removal rebuilds the list as plain tuples, which are ordered by time and name; Python compares a mixed pair as
  \<open>mytuple\<close> does.  A name is an integer, given by the counter, or a string.

  Scheduled functions are outside the module: \<open>call f\<close> is what the function \<open>f\<close> does, to the schedule and to the
  world \<open>sc_world\<close>, which also holds the clock; \<open>clock\<close> is a reading of it.  The function that
  \<open>addPeriodicEvent\<close> wraps around \<open>f\<close> is the constructor \<open>Periodic\<close>.  The message that \<open>run\<close> logs when no other
  driver is left, with its pause, is left out.
\<close>

section \<open>Names and entries\<close>

datatype ename = IntName int | StrName string

instantiation ename :: linorder
begin

fun less_eq_ename :: "ename \<Rightarrow> ename \<Rightarrow> bool" where
  "less_eq_ename (IntName i) (IntName j) = (i \<le> j)"
| "less_eq_ename (IntName _) (StrName _) = True"
| "less_eq_ename (StrName _) (IntName _) = False"
| "less_eq_ename (StrName a) (StrName b) = (a \<le> b)"

definition less_ename :: "ename \<Rightarrow> ename \<Rightarrow> bool" where
  "less_ename a b \<longleftrightarrow> a \<le> b \<and> \<not> b \<le> a"

instance
proof
  fix a b c :: ename
  show "a < b \<longleftrightarrow> a \<le> b \<and> \<not> b \<le> a" by (rule less_ename_def)
  show "a \<le> a" by (cases a) simp_all
  show "a \<le> b \<Longrightarrow> b \<le> c \<Longrightarrow> a \<le> c" by (cases a; cases b; cases c) simp_all
  show "a \<le> b \<Longrightarrow> b \<le> a \<Longrightarrow> a = b" by (cases a; cases b) simp_all
  show "a \<le> b \<or> b \<le> a" by (cases a; cases b) auto
qed

end

datatype entry = MyTuple (et_time: int) (et_name: ename) | Tuple (et_time: int) (et_name: ename)

fun entry_lt :: "entry \<Rightarrow> entry \<Rightarrow> bool" where
  "entry_lt (Tuple t n) (Tuple t' n') \<longleftrightarrow> t < t' \<or> t = t' \<and> n < n'"
| "entry_lt a b \<longleftrightarrow> et_time a < et_time b"

interpretation entries: heap_order entry_lt et_time
proof
  show "entry_lt a b \<Longrightarrow> et_time a \<le> et_time b" for a b by (cases "(a, b)" rule: entry_lt.cases) auto
  show "\<not> entry_lt a b \<Longrightarrow> et_time b \<le> et_time a" for a b by (cases "(a, b)" rule: entry_lt.cases) auto
qed

section \<open>The schedule\<close>

datatype 'f event = Plain 'f | Periodic 'f int "ename option"

record ('f, 'w) Schedule =
  sc_schedule :: "entry list"
  sc_events :: "(ename, 'f event) dict"
  sc_counter :: int
  sc_world :: 'w

definition Schedule_new :: "'w \<Rightarrow> ('f, 'w) Schedule" where
  "Schedule_new w = \<lparr>sc_schedule = [], sc_events = [], sc_counter = 0, sc_world = w\<rparr>"

definition Schedule_reset :: "(('f, 'w) Schedule, unit) act" where
  "Schedule_reset = modifyA (\<lambda>s. s\<lparr>sc_events := [], sc_schedule := []\<rparr>)"

text \<open>The first lines of \<open>addEvent\<close>: without a name the counter gives one.\<close>

definition take_name :: "ename option \<Rightarrow> (('f, 'w) Schedule, ename) act" where
  "take_name name = (case name of
      Some n \<Rightarrow> retA n
    | None \<Rightarrow> bindA (getA sc_counter) (\<lambda>i.
        seqA (modifyA (\<lambda>s. s\<lparr>sc_counter := i + 1\<rparr>)) (retA (IntName i))))"

definition Schedule_addEvent :: "'f event \<Rightarrow> int \<Rightarrow> ename option \<Rightarrow> (('f, 'w) Schedule, ename) act" where
  "Schedule_addEvent f t name =
     bindA (take_name name) (\<lambda>n. bindA (getA sc_events) (\<lambda>events.
       seqA (assertA (\<not> dict_has events n))
         (seqA (modifyA (\<lambda>s. s\<lparr>sc_events := dict_set n f events,
                                sc_schedule := heappush entry_lt (MyTuple t n) (sc_schedule s)\<rparr>))
           (retA n))))"

definition Schedule_removeEvent :: "ename \<Rightarrow> (('f, 'w) Schedule, 'f event) act" where
  "Schedule_removeEvent name =
     bindA (getA sc_events) (\<lambda>events. bindA (liftA (dict_item events name)) (\<lambda>f.
       seqA (modifyA (\<lambda>s. s\<lparr>sc_events := dict_drop name events,
           sc_schedule := heapify entry_lt
             (map (\<lambda>e. Tuple (et_time e) (et_name e)) (filter (\<lambda>e. et_name e \<noteq> name) (sc_schedule s)))\<rparr>))
         (retA f)))"

definition Schedule_rescheduleEvent :: "ename \<Rightarrow> int \<Rightarrow> (('f, 'w) Schedule, unit) act" where
  "Schedule_rescheduleEvent name t =
     bindA (Schedule_removeEvent name) (\<lambda>f. seqA (Schedule_addEvent f t (Some name)) (retA ()))"

definition read_clock :: "('w \<Rightarrow> int \<times> 'w) \<Rightarrow> (('f, 'w) Schedule, int) act" where
  "read_clock clock = (\<lambda>s. case clock (sc_world s) of (n, w) \<Rightarrow> (Inr n, s\<lparr>sc_world := w\<rparr>))"

text \<open>
  \<open>wrapper\<close> of \<open>addPeriodicEvent\<close>: the \<open>return\<close> in its \<open>finally\<close> drops whatever \<open>f\<close> raises.
\<close>

definition run_wrapper ::
    "('w \<Rightarrow> int \<times> 'w) \<Rightarrow> ('f \<Rightarrow> (('f, 'w) Schedule, unit) act) \<Rightarrow> 'f \<Rightarrow> int \<Rightarrow> ename option
      \<Rightarrow> (('f, 'w) Schedule, ename) act" where
  "run_wrapper clock call f t name = (\<lambda>s.
     bindA (read_clock clock) (\<lambda>n. Schedule_addEvent (Periodic f t name) (n + t) name) (snd (call f s)))"

definition Schedule_addPeriodicEvent ::
    "('w \<Rightarrow> int \<times> 'w) \<Rightarrow> ('f \<Rightarrow> (('f, 'w) Schedule, unit) act) \<Rightarrow> 'f \<Rightarrow> int \<Rightarrow> ename option \<Rightarrow> bool
      \<Rightarrow> (('f, 'w) Schedule, ename) act" where
  "Schedule_addPeriodicEvent clock call f t name at_once =
     (if at_once then run_wrapper clock call f t name
      else bindA (read_clock clock) (\<lambda>n. Schedule_addEvent (Periodic f t name) (n + t) name))"

definition call_event ::
    "('w \<Rightarrow> int \<times> 'w) \<Rightarrow> ('f \<Rightarrow> (('f, 'w) Schedule, unit) act) \<Rightarrow> 'f event \<Rightarrow> (('f, 'w) Schedule, unit) act" where
  "call_event clock call e = (case e of
      Plain f \<Rightarrow> call f
    | Periodic f t name \<Rightarrow> seqA (run_wrapper clock call f t name) (retA ()))"

text \<open>The body of the loop of \<open>run\<close>; what the function raises is logged.\<close>

definition run_next ::
    "('w \<Rightarrow> int \<times> 'w) \<Rightarrow> ('f \<Rightarrow> (('f, 'w) Schedule, unit) act) \<Rightarrow> (('f, 'w) Schedule, unit) act" where
  "run_next clock call =
     bindA (getA sc_schedule) (\<lambda>h. bindA (liftA (heappop entry_lt h)) (\<lambda>(e, h').
       seqA (modifyA (\<lambda>s. s\<lparr>sc_schedule := h'\<rparr>))
         (bindA (getA sc_events) (\<lambda>events. bindA (liftA (dict_item events (et_name e))) (\<lambda>f.
           seqA (modifyA (\<lambda>s. s\<lparr>sc_events := dict_drop (et_name e) events\<rparr>))
             (\<lambda>s. (Inr (), snd (call_event clock call f s))))))))"

partial_function (option) Schedule_run ::
    "('w \<Rightarrow> int \<times> 'w) \<Rightarrow> ('f \<Rightarrow> (('f, 'w) Schedule, unit) act) \<Rightarrow> ('f, 'w) Schedule
      \<Rightarrow> (unit res \<times> ('f, 'w) Schedule) option" where
  "Schedule_run clock call s =
     (if sc_schedule s = [] then Some (Inr (), s)
      else case clock (sc_world s) of (n, w) \<Rightarrow>
        if et_time (sc_schedule s ! 0) < n
        then (case run_next clock call (s\<lparr>sc_world := w\<rparr>) of
                (Inl e, s') \<Rightarrow> Some (Inl e, s')
              | (Inr _, s') \<Rightarrow> Schedule_run clock call s')
        else Some (Inr (), s\<lparr>sc_world := w\<rparr>))"

declare Schedule_run.simps [code]

section \<open>Consistency\<close>

text \<open>Names that callers give are not integers, as the docstring of \<open>addEvent\<close> asks.\<close>

fun named :: "ename option \<Rightarrow> bool" where
  "named (Some (IntName _)) = False"
| "named _ = True"

fun event_named :: "'f event \<Rightarrow> bool" where
  "event_named (Plain _) = True"
| "event_named (Periodic _ _ name) = named name"

definition sched_ok :: "('f, 'w) Schedule \<Rightarrow> bool" where
  "sched_ok s \<longleftrightarrow>
     is_heap et_time (sc_schedule s) \<and> distinct (map et_name (sc_schedule s)) \<and> dict_wf (sc_events s)
     \<and> et_name ` set (sc_schedule s) = fst ` set (sc_events s)
     \<and> (\<forall>i. IntName i \<in> fst ` set (sc_events s) \<longrightarrow> i < sc_counter s)
     \<and> (\<forall>e \<in> snd ` set (sc_events s). event_named e)"

lemma sched_ok_new: "sched_ok (Schedule_new w)"
  by (simp add: sched_ok_def Schedule_new_def heap_from_def)

lemma sched_ok_world [simp]: "sched_ok (s\<lparr>sc_world := w\<rparr>) = sched_ok s"
  by (simp add: sched_ok_def)

lemma set_from_mset: "mset xs = add_mset x (mset ys) \<Longrightarrow> set xs = insert x (set ys)"
  by (metis set_mset_add_mset_insert set_mset_mset)

lemma set_heappush: "set (heappush lt x h) = insert x (set h)"
  by (rule set_from_mset) (rule mset_heappush)

lemma set_heapify: "set (heapify lt h) = set h"
  by (rule mset_eq_setD) (rule mset_heapify)

lemma names_heappush:
  "distinct (map f (heappush lt x h)) \<longleftrightarrow> f x \<notin> f ` set h \<and> distinct (map f h)"
proof -
  have "mset (map f (heappush lt x h)) = mset (map f (x # h))" by (simp add: mset_heappush)
  then show ?thesis by (metis distinct.simps(2) list.simps(9) mset_eq_imp_distinct_iff set_map)
qed

end
