(* ===== verification/ScheduleLaws.thy ===== *)
theory ScheduleLaws
  imports Schedules
begin

text \<open>
  The laws of the schedule: it stays consistent, what removal and rescheduling leave, that \<open>run\<close> calls exactly
  what is due, in order, and when it returns.
\<close>

section \<open>The operations, on a consistent schedule\<close>

text \<open>The name an event gets, and the schedule after it was drawn.\<close>

definition new_name :: "ename option \<Rightarrow> ('f, 'w) Schedule \<Rightarrow> ename \<times> ('f, 'w) Schedule" where
  "new_name name s = (case name of
      Some n \<Rightarrow> (n, s) | None \<Rightarrow> (IntName (sc_counter s), s\<lparr>sc_counter := sc_counter s + 1\<rparr>))"

lemma addEvent_eq:
  "Schedule_addEvent f t name s = (case new_name name s of (n, s') \<Rightarrow>
     if dict_has (sc_events s) n then (Inl AssertionError, s')
     else (Inr n, s'\<lparr>sc_events := dict_set n f (sc_events s), sc_schedule := heappush entry_lt (MyTuple t n) (sc_schedule s)\<rparr>))"
  by (cases name) (simp_all add: Schedule_addEvent_def take_name_def new_name_def act_defs)

lemma addEvent_ok:
  assumes "sched_ok s" "event_named f" "\<And>i. name = Some (IntName i) \<Longrightarrow> i < sc_counter s"
  shows "sched_ok (snd (Schedule_addEvent f t name s))"
proof -
  obtain n s' where n: "new_name name s = (n, s')" by fastforce
  then have s': "sc_events s' = sc_events s" "sc_schedule s' = sc_schedule s" "sc_counter s \<le> sc_counter s'"
    "\<And>i. n = IntName i \<Longrightarrow> i < sc_counter s'"
    using assms(3) by (auto simp: new_name_def split: option.splits)
  have "sched_ok s'" using assms(1) s'(1-3) by (fastforce simp: sched_ok_def)
  moreover have "sched_ok (s'\<lparr>sc_events := dict_set n f (sc_events s), sc_schedule := heappush entry_lt (MyTuple t n) (sc_schedule s)\<rparr>)"
    if "\<not> dict_has (sc_events s) n"
  proof -
    have "dict_set n f (sc_events s) = sc_events s @ [(n, f)]" using that by (simp add: dict_has_iff dict_set_new)
    moreover have "dict_wf (dict_set n f (sc_events s))" using assms(1) by (simp add: sched_ok_def dict_wf_set)
    ultimately show ?thesis
      using \<open>sched_ok s'\<close> that s' assms(2)
      by (auto simp: sched_ok_def names_heappush set_heappush entries.heappush_heap dict_has_iff)
  qed
  ultimately show ?thesis by (simp add: addEvent_eq n)
qed

lemma addEvent_keeps: "event_named f \<Longrightarrow> named name \<Longrightarrow> keepsA sched_ok (Schedule_addEvent f t name)"
  unfolding keepsA_def by (auto intro: addEvent_ok)

lemma removeEvent_eq:
  "Schedule_removeEvent name s = (case map_of (sc_events s) name of
      None \<Rightarrow> (Inl KeyError, s)
    | Some f \<Rightarrow> (Inr f, s\<lparr>sc_events := dict_drop name (sc_events s),
         sc_schedule := heapify entry_lt
           (map (\<lambda>e. Tuple (et_time e) (et_name e)) (filter (\<lambda>e. et_name e \<noteq> name) (sc_schedule s)))\<rparr>))"
  by (simp add: Schedule_removeEvent_def act_defs dict_item_def split: option.split)

lemma fst_set_drop: "fst ` set (dict_drop k d) = fst ` set d - {k}"
  by (induction d) auto

lemma removeEvent_ok:
  assumes "sched_ok s"
  shows "sched_ok (snd (Schedule_removeEvent name s))"
proof -
  have m: "mset (map et_name (heapify entry_lt (map (\<lambda>e. Tuple (et_time e) (et_name e)) es))) = mset (map et_name es)" for es
    by (simp add: mset_heapify multiset.map_comp comp_def)
  have "distinct (map et_name (filter (\<lambda>e. et_name e \<noteq> name) (sc_schedule s)))"
    using assms by (simp add: sched_ok_def distinct_map_filter)
  then show ?thesis
    using assms mset_eq_imp_distinct_iff [OF m] set_dict_drop [of name "sc_events s"]
    by (auto simp: removeEvent_eq sched_ok_def set_heapify entries.heapify_heap dict_wf_drop fst_set_drop
        image_image split: option.split)
qed

lemma removeEvent_keeps: "keepsA sched_ok (Schedule_removeEvent name)"
  unfolding keepsA_def by (simp add: removeEvent_ok)

lemma removed_event_named:
  assumes "sched_ok s" "Schedule_removeEvent name s = (Inr f, s')"
  shows "event_named f" "\<And>i. name = IntName i \<Longrightarrow> i < sc_counter s'" "sched_ok s'"
proof -
  have "map_of (sc_events s) name = Some f" and s': "sc_counter s' = sc_counter s"
    using assms(2) by (auto simp: removeEvent_eq split: option.splits)
  then have "(name, f) \<in> set (sc_events s)" by (simp add: map_of_SomeD)
  then have "f \<in> snd ` set (sc_events s)" "name \<in> fst ` set (sc_events s)" by force+
  with assms(1) s' show "event_named f" "\<And>i. name = IntName i \<Longrightarrow> i < sc_counter s'" by (auto simp: sched_ok_def)
  show "sched_ok s'" using removeEvent_ok [OF assms(1), of name] assms(2) by simp
qed

lemma rescheduleEvent_keeps: "keepsA sched_ok (Schedule_rescheduleEvent name t)"
proof (unfold keepsA_def, intro allI impI)
  fix s :: "('f, 'w) Schedule" assume s: "sched_ok s"
  obtain r s' where rm: "Schedule_removeEvent name s = (r, s')" by fastforce
  show "sched_ok (snd (Schedule_rescheduleEvent name t s))"
  proof (cases r)
    case (Inl e)
    with rm removeEvent_ok [OF s, of name] show ?thesis by (simp add: Schedule_rescheduleEvent_def act_defs)
  next
    case (Inr f)
    have "sched_ok (snd (Schedule_addEvent f t (Some name) s'))"
      using removed_event_named [OF s rm [unfolded Inr]] by (intro addEvent_ok) auto
    with rm Inr show ?thesis
      by (cases "Schedule_addEvent f t (Some name) s'") (simp add: Schedule_rescheduleEvent_def act_defs split: sum.split)
  qed
qed

lemma reset_keeps: "keepsA sched_ok Schedule_reset"
  by (simp add: keepsA_def Schedule_reset_def act_defs sched_ok_def heap_from_def)

lemma read_clock_keeps: "keepsA sched_ok (read_clock clock)"
  by (simp add: keepsA_def read_clock_def split: prod.split)

lemma add_later_keeps:
  "named name \<Longrightarrow> keepsA sched_ok (bindA (read_clock clock) (\<lambda>n. Schedule_addEvent (Periodic f t name) (n + t) name))"
  by (intro keepsA_bind read_clock_keeps addEvent_keeps) simp_all

lemma wrapper_keeps:
  "keepsA sched_ok (call f) \<Longrightarrow> named name \<Longrightarrow> keepsA sched_ok (run_wrapper clock call f t name)"
  using add_later_keeps [of name clock f t] by (simp add: keepsA_def run_wrapper_def)

lemma addPeriodicEvent_keeps:
  "keepsA sched_ok (call f) \<Longrightarrow> named name \<Longrightarrow> keepsA sched_ok (Schedule_addPeriodicEvent clock call f t name at_once)"
  by (simp add: Schedule_addPeriodicEvent_def wrapper_keeps add_later_keeps)

lemma call_event_keeps:
  "(\<And>f. keepsA sched_ok (call f)) \<Longrightarrow> event_named e \<Longrightarrow> keepsA sched_ok (call_event clock call e)"
  by (cases e) (auto simp: call_event_def intro: keepsA_seq keepsA_ret wrapper_keeps)

text \<open>On a consistent schedule the first entry has an event, and both leave their containers before it is called.\<close>

definition popped :: "('f, 'w) Schedule \<Rightarrow> 'f event \<Rightarrow> entry list \<Rightarrow> ('f, 'w) Schedule" where
  "popped s f h = s\<lparr>sc_schedule := h, sc_events := dict_drop (et_name (sc_schedule s ! 0)) (sc_events s)\<rparr>"

lemma run_next_eq:
  assumes "sched_ok s" "sc_schedule s \<noteq> []"
  obtains f h where "map_of (sc_events s) (et_name (sc_schedule s ! 0)) = Some f"
    "run_next clock call s = (Inr (), snd (call_event clock call f (popped s f h)))"
    "sched_ok (popped s f h)" "event_named f" "mset (sc_schedule s) = add_mset (sc_schedule s ! 0) (mset h)"
    "\<forall>x \<in> set h. et_time (sc_schedule s ! 0) \<le> et_time x"
proof -
  let ?e = "sc_schedule s ! 0"
  note ok = assms(1) [unfolded sched_ok_def]
  obtain h where h: "heappop entry_lt (sc_schedule s) = Inr (?e, h)" "is_heap et_time h"
    "mset (sc_schedule s) = add_mset ?e (mset h)" "\<forall>x \<in> set h. et_time ?e \<le> et_time x"
    using entries.heappop_least [of "sc_schedule s"] ok assms(2) by auto
  have sets: "set (sc_schedule s) = insert ?e (set h)" by (rule set_from_mset) (rule h(3))
  then have "et_name ?e \<in> fst ` set (sc_events s)" using ok by (metis image_insert insertI1)
  then obtain f where f: "map_of (sc_events s) (et_name ?e) = Some f"
    by (metis (no_types) not_None_eq map_of_eq_None_iff)
  have fin: "f \<in> snd ` set (sc_events s)" using map_of_SomeD [OF f] by force
  have names: "et_name ?e \<notin> et_name ` set h" "distinct (map et_name h)"
  proof -
    have "mset (map et_name (sc_schedule s)) = mset (map et_name (?e # h))" using h(3) by simp
    then have "distinct (map et_name (?e # h))" using ok mset_eq_imp_distinct_iff by blast
    then show "et_name ?e \<notin> et_name ` set h" "distinct (map et_name h)" by simp_all
  qed
  define D where "D = dict_drop (et_name ?e) (sc_events s)"
  have keys: "et_name ` set h = fst ` set D"
  proof -
    have "insert (et_name ?e) (et_name ` set h) = fst ` set (sc_events s)" using ok sets by simp
    then show ?thesis using names(1) unfolding fst_set_drop D_def by blast
  qed
  have D: "fst ` set D \<subseteq> fst ` set (sc_events s)" "snd ` set D \<subseteq> snd ` set (sc_events s)" "dict_wf D"
    unfolding D_def using ok by (simp_all add: image_mono set_dict_drop dict_wf_drop)
  have all: "\<forall>i. IntName i \<in> fst ` set (sc_events s) \<longrightarrow> i < sc_counter s" "\<forall>e \<in> snd ` set (sc_events s). event_named e"
    using ok by simp_all
  have "\<forall>i. IntName i \<in> fst ` set D \<longrightarrow> i < sc_counter s" by (meson all(1) D(1) subsetD)
  moreover have "\<forall>e \<in> snd ` set D. event_named e" by (meson all(2) D(2) subsetD)
  ultimately have "sched_ok (popped s f h)"
    unfolding sched_ok_def popped_def D_def [symmetric] using h(2) names(2) keys D(3) by simp
  moreover have "run_next clock call s = (Inr (), snd (call_event clock call f (popped s f h)))"
    by (simp add: run_next_def act_defs h(1) dict_item_def f popped_def)
  moreover have "event_named f" using all(2) fin by (rule bspec)
  ultimately show ?thesis using that f h(3,4) by blast
qed

lemma run_next_Inr: "sched_ok s \<Longrightarrow> sc_schedule s \<noteq> [] \<Longrightarrow> fst (run_next clock call s) = Inr ()"
  by (metis run_next_eq fst_conv)

lemma run_next_ok:
  assumes "sched_ok s" "sc_schedule s \<noteq> []" "\<And>f. keepsA sched_ok (call f)"
  shows "fst (run_next clock call s) = Inr ()" "sched_ok (snd (run_next clock call s))"
proof -
  obtain f h where *: "run_next clock call s = (Inr (), snd (call_event clock call f (popped s f h)))"
    "sched_ok (popped s f h)" "event_named f"
    using run_next_eq [OF assms(1,2)] by metis
  then show "fst (run_next clock call s) = Inr ()" by simp
  show "sched_ok (snd (run_next clock call s))"
    using call_event_keeps [OF assms(3) *(3), of clock] * by (simp add: keepsA_def)
qed

section \<open>The loop\<close>

text \<open>The rule of the loop: an invariant that one more call keeps holds when it ends.\<close>

lemma run_rule:
  assumes run: "Schedule_run clock call s = Some (r, s')" and start: "P s"
    and idle: "\<And>s. P s \<Longrightarrow> sc_schedule s = [] \<Longrightarrow> Q (Inr ()) s"
    and early: "\<And>s n w. \<lbrakk>P s; sc_schedule s \<noteq> []; clock (sc_world s) = (n, w); n \<le> et_time (sc_schedule s ! 0)\<rbrakk>
      \<Longrightarrow> Q (Inr ()) (s\<lparr>sc_world := w\<rparr>)"
    and due: "\<And>s n w r s'. \<lbrakk>P s; sc_schedule s \<noteq> []; clock (sc_world s) = (n, w); et_time (sc_schedule s ! 0) < n;
      run_next clock call (s\<lparr>sc_world := w\<rparr>) = (r, s')\<rbrakk> \<Longrightarrow> (case r of Inl e \<Rightarrow> Q (Inl e) s' | Inr _ \<Rightarrow> P s')"
  shows "Q r s'"
proof -
  let ?P = "\<lambda>clock' call' s y. clock' = clock \<longrightarrow> call' = call \<longrightarrow> P s \<longrightarrow> Q (fst y) (snd y)"
  have "?P clock call s (r, s')"
  proof (rule Schedule_run.raw_induct [where P = ?P, OF _ run])
    fix self clock' call' s y
    assume ih: "\<And>clock' call' s y. self clock' call' s = Some y \<Longrightarrow> ?P clock' call' s y"
      and this_call: "(if sc_schedule s = [] then Some (Inr (), s)
         else case clock' (sc_world s) of (n, w) \<Rightarrow>
           if et_time (sc_schedule s ! 0) < n
           then (case run_next clock' call' (s\<lparr>sc_world := w\<rparr>) of
               (Inl e, s') \<Rightarrow> Some (Inl e, s') | (Inr _, s') \<Rightarrow> self clock' call' s')
           else Some (Inr (), s\<lparr>sc_world := w\<rparr>)) = Some y"
    show "?P clock' call' s y"
    proof (intro impI)
      assume [simp]: "clock' = clock" "call' = call" and "P s"
      obtain n w where c: "clock (sc_world s) = (n, w)" by fastforce
      obtain r1 s1 where nx: "run_next clock call (s\<lparr>sc_world := w\<rparr>) = (r1, s1)" by fastforce
      consider "sc_schedule s = []" | "sc_schedule s \<noteq> []" "n \<le> et_time (sc_schedule s ! 0)"
        | "sc_schedule s \<noteq> []" "et_time (sc_schedule s ! 0) < n" by linarith
      then show "Q (fst y) (snd y)"
      proof cases
        case 1
        with this_call idle [OF \<open>P s\<close>] show ?thesis by auto
      next
        case 2
        with this_call c early [OF \<open>P s\<close> _ c] show ?thesis by auto
      next
        case 3
        note d = due [OF \<open>P s\<close> 3(1) c 3(2) nx]
        show ?thesis
        proof (cases r1)
          case (Inl e)
          with this_call 3 c nx d show ?thesis by auto
        next
          case (Inr x)
          with this_call 3 c nx have "self clock call s1 = Some y" by simp
          from ih [OF this] d Inr show ?thesis by simp
        qed
      qed
    qed
  qed
  with start show ?thesis by simp
qed

lemma run_ok:
  assumes "\<forall>f. keepsA sched_ok (call f)" "sched_ok s" "Schedule_run clock call s = Some (r, s')"
  shows "r = Inr () \<and> sched_ok s'"
proof (rule run_rule [where P = sched_ok and Q = "\<lambda>r s. r = Inr () \<and> sched_ok s", OF assms(3,2)])
  fix s n w r s'
  assume s: "sched_ok s" "sc_schedule s \<noteq> []" "run_next clock call (s\<lparr>sc_world := w\<rparr>) = (r, s')"
  then have "fst (run_next clock call (s\<lparr>sc_world := w\<rparr>)) = Inr ()" "sched_ok (snd (run_next clock call (s\<lparr>sc_world := w\<rparr>)))"
    using assms(1) by (intro run_next_ok; simp)+
  with s(3) show "case r of Inl e \<Rightarrow> Inl e = Inr () \<and> sched_ok s' | Inr _ \<Rightarrow> sched_ok s'" by auto
qed simp_all

text \<open>A call of \<open>run\<close> either stops at once or calls the first event and goes on.\<close>

lemma run_step:
  assumes "sched_ok s" "sc_schedule s \<noteq> []" "clock (sc_world s) = (n, w)" "et_time (sc_schedule s ! 0) < n"
  shows "Schedule_run clock call s = Schedule_run clock call (snd (run_next clock call (s\<lparr>sc_world := w\<rparr>)))"
proof -
  have "fst (run_next clock call (s\<lparr>sc_world := w\<rparr>)) = Inr ()" using assms by (intro run_next_Inr) simp_all
  then obtain s' where "run_next clock call (s\<lparr>sc_world := w\<rparr>) = (Inr (), s')"
    by (cases "run_next clock call (s\<lparr>sc_world := w\<rparr>)") auto
  with assms show ?thesis by (subst Schedule_run.simps) simp
qed

lemma run_stops:
  assumes "clock (sc_world s) = (n, w)" "\<forall>x \<in> set (sc_schedule s). n \<le> et_time x"
  shows "\<exists>w'. Schedule_run clock call s = Some (Inr (), s\<lparr>sc_world := w'\<rparr>) \<and> (w' = sc_world s \<or> w' = w)"
proof (cases "sc_schedule s = []")
  case True
  then have "Schedule_run clock call s = Some (Inr (), s\<lparr>sc_world := sc_world s\<rparr>)" by (subst Schedule_run.simps) simp
  then show ?thesis by blast
next
  case False
  then have "sc_schedule s ! 0 \<in> set (sc_schedule s)" by simp
  with assms False have "Schedule_run clock call s = Some (Inr (), s\<lparr>sc_world := w\<rparr>)"
    by (subst Schedule_run.simps) (auto simp: leD)
  then show ?thesis by blast
qed

section \<open>Events that leave the schedule alone\<close>

fun event_fun :: "'f event \<Rightarrow> 'f" where
  "event_fun (Plain f) = f"
| "event_fun (Periodic f _ _) = f"

fun period_at_least :: "int \<Rightarrow> 'f event \<Rightarrow> bool" where
  "period_at_least d (Plain _) = True"
| "period_at_least d (Periodic _ t _) = (d \<le> t)"

definition calm :: "int \<Rightarrow> ('f, 'w) Schedule \<Rightarrow> bool" where
  "calm d s \<longleftrightarrow> sched_ok s \<and> (\<forall>e \<in> snd ` set (sc_events s). period_at_least d e)"

lemma calm_world [simp]: "calm d (s\<lparr>sc_world := w\<rparr>) = calm d s"
  by (simp add: calm_def)

lemma calm_popped:
  assumes "calm d s" "sched_ok (popped s f h)"
  shows "calm d (popped s f h)"
  using assms set_dict_drop [of "et_name (sc_schedule s ! 0)" "sc_events s"]
  by (auto simp: calm_def popped_def)

text \<open>What adding an event leaves untouched.\<close>

lemma addEvent_extends:
  assumes "calm d s" "period_at_least d f" "event_named f" "named name" "Schedule_addEvent f t name s = (r, s')"
  shows "calm d s'" "sc_world s' = sc_world s"
    "\<forall>k \<in> fst ` set (sc_events s). map_of (sc_events s') k = map_of (sc_events s) k"
    "mset (sc_schedule s') = mset (sc_schedule s)
      \<or> (\<exists>n. mset (sc_schedule s') = add_mset (MyTuple t n) (mset (sc_schedule s)))"
proof -
  obtain n s0 where n: "new_name name s = (n, s0)" by fastforce
  then have s0: "sc_events s0 = sc_events s" "sc_schedule s0 = sc_schedule s" "sc_world s0 = sc_world s"
    by (auto simp: new_name_def split: option.splits)
  have ok: "sched_ok s'" using keepsAD [OF addEvent_keeps [OF assms(3,4)] _ assms(5)] assms(1) by (simp add: calm_def)
  show "sc_world s' = sc_world s" "mset (sc_schedule s') = mset (sc_schedule s)
      \<or> (\<exists>n. mset (sc_schedule s') = add_mset (MyTuple t n) (mset (sc_schedule s)))"
    using assms(5) s0 by (auto simp: addEvent_eq n mset_heappush split: if_splits)
  show "\<forall>k \<in> fst ` set (sc_events s). map_of (sc_events s') k = map_of (sc_events s) k"
  proof
    fix k assume k: "k \<in> fst ` set (sc_events s)"
    show "map_of (sc_events s') k = map_of (sc_events s) k"
    proof (cases "dict_has (sc_events s) n")
      case False
      with k have "k \<noteq> n" by (auto simp: dict_has_iff)
      with False assms(5) show ?thesis by (auto simp: addEvent_eq n)
    qed (use assms(5) s0 in \<open>auto simp: addEvent_eq n\<close>)
  qed
  have "\<forall>e \<in> snd ` set (sc_events s'). period_at_least d e"
    using assms(1,2,5) s0 by (auto simp: addEvent_eq n calm_def dict_has_iff dict_set_new split: if_splits)
  with ok show "calm d s'" by (simp add: calm_def)
qed

text \<open>A call of an event: what the function itself did, and at most one entry more, a period later.\<close>

lemma call_event_extends:
  assumes e: "event_named e" "period_at_least d e"
    and call: "calm d (snd (call (event_fun e) s))"
    and clock: "\<And>w. T \<le> fst (clock w)"
    and s1: "s1 = snd (call (event_fun e) s)" and s2: "s2 = snd (call_event clock call e s)"
  shows "calm d s2"
    "\<forall>k \<in> fst ` set (sc_events s1). map_of (sc_events s2) k = map_of (sc_events s1) k"
    "\<exists>X. mset (sc_schedule s2) = mset (sc_schedule s1) + X \<and> (\<forall>x \<in># X. T + d \<le> et_time x)"
    "sc_world s2 = sc_world s1 \<or> sc_world s2 = snd (clock (sc_world s1))"
proof -
  have "calm d s2 \<and> (\<forall>k \<in> fst ` set (sc_events s1). map_of (sc_events s2) k = map_of (sc_events s1) k)
    \<and> (\<exists>X. mset (sc_schedule s2) = mset (sc_schedule s1) + X \<and> (\<forall>x \<in># X. T + d \<le> et_time x))
    \<and> (sc_world s2 = sc_world s1 \<or> sc_world s2 = snd (clock (sc_world s1)))"
  proof (cases e)
    case (Plain f)
    then have "s2 = s1" using s1 s2 by (simp add: call_event_def)
    then show ?thesis using call s1 by (auto intro: exI [of _ "{#}"])
  next
    case (Periodic f t name)
    obtain n w where c: "clock (sc_world s1) = (n, w)" by fastforce
    have "T \<le> n" using clock [of "sc_world s1"] c by simp
    obtain r s' where add: "Schedule_addEvent e (n + t) name (s1\<lparr>sc_world := w\<rparr>) = (r, s')" by fastforce
    have "s2 = s'"
      using s1 s2 c add Periodic
      by (cases r) (auto simp: call_event_def run_wrapper_def read_clock_def act_defs)
    have "calm d (s1\<lparr>sc_world := w\<rparr>)" using call s1 by simp
    note ext = addEvent_extends [OF this e(2,1) _ add, folded \<open>s2 = s'\<close>]
    have nm: "named name" "d \<le> t" using e Periodic by simp_all
    have "\<exists>X. mset (sc_schedule s2) = mset (sc_schedule s1) + X \<and> (\<forall>x \<in># X. T + d \<le> et_time x)"
      using ext(4) [OF nm(1)]
    proof
      assume "mset (sc_schedule s2) = mset (sc_schedule (s1\<lparr>sc_world := w\<rparr>))"
      then show ?thesis by (intro exI [of _ "{#}"]) simp
    next
      assume "\<exists>k. mset (sc_schedule s2) = add_mset (MyTuple (n + t) k) (mset (sc_schedule (s1\<lparr>sc_world := w\<rparr>)))"
      then obtain k where "mset (sc_schedule s2) = add_mset (MyTuple (n + t) k) (mset (sc_schedule s1))" by auto
      then show ?thesis using \<open>T \<le> n\<close> nm(2) by (intro exI [of _ "{#MyTuple (n + t) k#}"]) simp
    qed
    moreover have "sc_world s2 = snd (clock (sc_world s1))" using ext(2) [OF nm(1)] c by simp
    ultimately show ?thesis using ext(1,3) [OF nm(1)] by simp
  qed
  then show "calm d s2"
    "\<forall>k \<in> fst ` set (sc_events s1). map_of (sc_events s2) k = map_of (sc_events s1) k"
    "\<exists>X. mset (sc_schedule s2) = mset (sc_schedule s1) + X \<and> (\<forall>x \<in># X. T + d \<le> et_time x)"
    "sc_world s2 = sc_world s1 \<or> sc_world s2 = snd (clock (sc_world s1))" by simp_all
qed

end
