(* ===== verification/SchedulePromises.thy ===== *)
theory SchedulePromises
  imports ScheduleLaws
begin

text \<open>The properties of the schedule.\<close>

section \<open>Every sequence of operations\<close>

datatype 'f sched_op =
    AddEvent 'f int "ename option" | RemoveEvent ename | RescheduleEvent ename int | ResetEvents
  | AddPeriodic 'f int "ename option" bool | RunEvents

fun op_named :: "'f sched_op \<Rightarrow> bool" where
  "op_named (AddEvent _ _ name) = named name"
| "op_named (AddPeriodic _ _ name _) = named name"
| "op_named _ = True"

fun sched_do ::
    "('w \<Rightarrow> int \<times> 'w) \<Rightarrow> ('f \<Rightarrow> (('f, 'w) Schedule, unit) act) \<Rightarrow> 'f sched_op \<Rightarrow> ('f, 'w) Schedule
      \<Rightarrow> (unit res \<times> ('f, 'w) Schedule) option" where
  "sched_do clock call (AddEvent f t name) s = Some (seqA (Schedule_addEvent (Plain f) t name) (retA ()) s)"
| "sched_do clock call (RemoveEvent name) s = Some (seqA (Schedule_removeEvent name) (retA ()) s)"
| "sched_do clock call (RescheduleEvent name t) s = Some (Schedule_rescheduleEvent name t s)"
| "sched_do clock call ResetEvents s = Some (Schedule_reset s)"
| "sched_do clock call (AddPeriodic f t name at_once) s =
     Some (seqA (Schedule_addPeriodicEvent clock call f t name at_once) (retA ()) s)"
| "sched_do clock call RunEvents s = Schedule_run clock call s"

fun sched_run ::
    "('w \<Rightarrow> int \<times> 'w) \<Rightarrow> ('f \<Rightarrow> (('f, 'w) Schedule, unit) act) \<Rightarrow> 'f sched_op list \<Rightarrow> ('f, 'w) Schedule
      \<Rightarrow> ('f, 'w) Schedule option" where
  "sched_run clock call [] s = Some s"
| "sched_run clock call (op # ops) s =
     (case sched_do clock call op s of None \<Rightarrow> None | Some (_, s') \<Rightarrow> sched_run clock call ops s')"

lemma sched_do_ok:
  assumes "\<forall>f. keepsA sched_ok (call f)" "op_named op" "sched_ok s" "sched_do clock call op s = Some (r, s')"
  shows "sched_ok s'"
proof (cases op)
  case RunEvents
  with assms(4) have "Schedule_run clock call s = Some (r, s')" by simp
  from run_ok [OF assms(1,3) this] show ?thesis ..
next
  case (AddEvent f t name)
  then have "keepsA sched_ok (seqA (Schedule_addEvent (Plain f) t name) (retA ()))"
    using assms(2) by (intro keepsA_seq addEvent_keeps keepsA_ret) simp_all
  from keepsAD [OF this assms(3)] AddEvent assms(4) show ?thesis by simp
next
  case (RemoveEvent name)
  have "keepsA sched_ok (seqA (Schedule_removeEvent name) (retA ()))"
    by (intro keepsA_seq removeEvent_keeps keepsA_ret)
  from keepsAD [OF this assms(3)] RemoveEvent assms(4) show ?thesis by simp
next
  case (RescheduleEvent name t)
  with keepsAD [OF rescheduleEvent_keeps assms(3)] assms(4) show ?thesis by simp
next
  case ResetEvents
  with keepsAD [OF reset_keeps assms(3)] assms(4) show ?thesis by simp
next
  case (AddPeriodic f t name at_once)
  then have "keepsA sched_ok (seqA (Schedule_addPeriodicEvent clock call f t name at_once) (retA ()))"
    using assms(1,2) by (intro keepsA_seq addPeriodicEvent_keeps keepsA_ret) simp_all
  from keepsAD [OF this assms(3)] AddPeriodic assms(4) show ?thesis by simp
qed

lemma sched_run_ok:
  assumes "\<forall>f. keepsA sched_ok (call f)"
  shows "\<forall>op \<in> set ops. op_named op \<Longrightarrow> sched_ok s \<Longrightarrow> sched_run clock call ops s = Some s' \<Longrightarrow> sched_ok s'"
proof (induction ops arbitrary: s)
  case (Cons op ops)
  then obtain r s1 where "sched_do clock call op s = Some (r, s1)" "sched_run clock call ops s1 = Some s'"
    by (auto split: option.splits)
  with Cons show ?case using sched_do_ok [OF assms, of op s clock r s1] by simp
qed simp

text \<open>
  C15: in every sequence of operations, failing ones and runs included, the names in the heap are those of the
  events, each once, and the first entry is the earliest; so a run never meets a name without an event: it
  raises nothing.
\<close>

theorem schedule_consistent:
  assumes "\<forall>f. keepsA sched_ok (call f)" "\<forall>op \<in> set ops. op_named op"
    "sched_run clock call ops (Schedule_new w) = Some s"
  shows "distinct (map et_name (sc_schedule s)) \<and> et_name ` set (sc_schedule s) = fst ` set (sc_events s)
    \<and> (\<forall>e \<in> set (sc_schedule s). et_time (sc_schedule s ! 0) \<le> et_time e)
    \<and> (\<forall>r s'. Schedule_run clock call s = Some (r, s') \<longrightarrow> r = Inr ())"
proof -
  have ok: "sched_ok s" using sched_run_ok [OF assms(1,2) sched_ok_new assms(3)] .
  then have "\<forall>e \<in> set (sc_schedule s). et_time (sc_schedule s ! 0) \<le> et_time e"
    by (auto simp: sched_ok_def intro: is_heap_first_least)
  moreover have "\<forall>r s'. Schedule_run clock call s = Some (r, s') \<longrightarrow> r = Inr ()"
    using run_ok [OF assms(1) ok] by blast
  ultimately show ?thesis using ok unfolding sched_ok_def by simp
qed

section \<open>What is called, and in which order\<close>

text \<open>The functions called write only to the world.\<close>

definition logs :: "('f \<Rightarrow> (('f, 'w) Schedule, unit) act) \<Rightarrow> ('f \<Rightarrow> 'w \<Rightarrow> 'w) \<Rightarrow> bool" where
  "logs call effect \<longleftrightarrow> (\<forall>f s. snd (call f s) = s\<lparr>sc_world := effect f (sc_world s)\<rparr>)"

abbreviation due_entries :: "int \<Rightarrow> ('f, 'w) Schedule \<Rightarrow> entry multiset" where
  "due_entries n s \<equiv> filter_mset (\<lambda>e. et_time e < n) (mset (sc_schedule s))"

abbreviation entry_effect :: "('f \<Rightarrow> 'w \<Rightarrow> 'w) \<Rightarrow> (ename, 'f event) dict \<Rightarrow> entry \<Rightarrow> 'w \<Rightarrow> 'w" where
  "entry_effect effect events e \<equiv> effect (event_fun (the (map_of events (et_name e))))"

lemma first_least_late:
  "sched_ok s \<Longrightarrow> \<not> (sc_schedule s \<noteq> [] \<and> et_time (sc_schedule s ! 0) < n) \<Longrightarrow> \<forall>x \<in> set (sc_schedule s). n \<le> et_time x"
  by (metis (no_types, lifting) empty_iff is_heap_first_least list.set(1) not_less order_trans sched_ok_def)

lemma run_next_logged:
  assumes "calm 0 s" "sc_schedule s \<noteq> []" "logs call effect" "\<And>w. clock w = (n, w)" "et_time (sc_schedule s ! 0) < n"
  obtains s' where "snd (run_next clock call s) = s'" "calm 0 s'"
    "sc_world s' = entry_effect effect (sc_events s) (sc_schedule s ! 0) (sc_world s)"
    "due_entries n s = add_mset (sc_schedule s ! 0) (due_entries n s')"
    "\<forall>x \<in># due_entries n s'. et_time (sc_schedule s ! 0) \<le> et_time x
       \<and> map_of (sc_events s') (et_name x) = map_of (sc_events s) (et_name x)"
    "\<forall>x \<in> set (sc_schedule s). n \<le> et_time x \<longrightarrow> x \<in> set (sc_schedule s')"
proof -
  let ?e = "sc_schedule s ! 0"
  have ok: "sched_ok s" using assms(1) by (simp add: calm_def)
  obtain f h where f: "map_of (sc_events s) (et_name ?e) = Some f"
    "run_next clock call s = (Inr (), snd (call_event clock call f (popped s f h)))"
    "sched_ok (popped s f h)" "event_named f" "mset (sc_schedule s) = add_mset ?e (mset h)"
    "\<forall>x \<in> set h. et_time ?e \<le> et_time x"
    by (rule run_next_eq [OF ok assms(2)])
  let ?p = "popped s f h"
  define s1 where "s1 = snd (call (event_fun f) ?p)"
  define s' where "s' = snd (call_event clock call f ?p)"
  have s1: "s1 = ?p\<lparr>sc_world := effect (event_fun f) (sc_world s)\<rparr>"
    using assms(3) by (simp add: logs_def s1_def popped_def)
  have "f \<in> snd ` set (sc_events s)" using map_of_SomeD [OF f(1)] by force
  then have "period_at_least 0 f" using assms(1) unfolding calm_def by blast
  moreover have "calm 0 s1" using calm_popped [OF assms(1) f(3)] s1 by simp
  moreover have "n \<le> fst (clock w)" for w using assms(4) by simp
  ultimately have ext: "calm 0 s'"
    "\<forall>k \<in> fst ` set (sc_events s1). map_of (sc_events s') k = map_of (sc_events s1) k"
    "\<exists>X. mset (sc_schedule s') = mset (sc_schedule s1) + X \<and> (\<forall>x \<in># X. n + 0 \<le> et_time x)"
    "sc_world s' = sc_world s1 \<or> sc_world s' = snd (clock (sc_world s1))"
    using call_event_extends [OF f(4), of 0 call ?p n clock s1 s'] s1_def s'_def by simp_all
  then obtain X where X: "mset (sc_schedule s') = mset h + X" "\<forall>x \<in># X. n \<le> et_time x"
    using s1 by (auto simp: popped_def)
  have due: "due_entries n s' = filter_mset (\<lambda>e. et_time e < n) (mset h)"
    using X by (simp add: not_less)
  have names: "et_name ` set h = fst ` set (sc_events s1)" "sc_events s1 = dict_drop (et_name ?e) (sc_events s)"
    using f(3) s1 by (simp_all add: sched_ok_def popped_def)
  have "map_of (sc_events s') (et_name x) = map_of (sc_events s) (et_name x)" if "x \<in> set h" for x
  proof -
    have k: "et_name x \<in> fst ` set (sc_events s1)" using that names(1) by blast
    then have "et_name x \<noteq> et_name ?e" unfolding names(2) fst_set_drop by simp
    moreover have "map_of (sc_events s') (et_name x) = map_of (sc_events s1) (et_name x)" by (rule bspec [OF ext(2) k])
    ultimately show ?thesis unfolding names(2) by simp
  qed
  then have "\<forall>x \<in># due_entries n s'. et_time ?e \<le> et_time x
       \<and> map_of (sc_events s') (et_name x) = map_of (sc_events s) (et_name x)"
    using f(6) unfolding due by simp
  moreover have "sc_world s' = entry_effect effect (sc_events s) ?e (sc_world s)"
    using ext(4) s1 assms(4) f(1) by auto
  moreover have "\<forall>x \<in> set (sc_schedule s). n \<le> et_time x \<longrightarrow> x \<in> set (sc_schedule s')"
  proof (intro ballI impI)
    fix x assume "x \<in> set (sc_schedule s)" "n \<le> et_time x"
    with assms(5) have "x \<in> set h" using set_from_mset [OF f(5)] by auto
    then have "x \<in># mset (sc_schedule s')" unfolding X(1) by simp
    then show "x \<in> set (sc_schedule s')" by simp
  qed
  ultimately show ?thesis using that [of s'] f(2,5) ext(1) due assms(5) s'_def by simp
qed

text \<open>
  C16: when the functions leave the schedule alone, a run at the time n calls exactly the functions of the
  entries before n, each once, in the order of their times, and returns; the other entries stay, and what the
  periodic ones add is not due.
\<close>

theorem run_calls_due_in_order:
  assumes "calm 0 s" "logs call effect" "\<And>w. clock w = (n, w)"
  shows "\<exists>due s'. Schedule_run clock call s = Some (Inr (), s') \<and> sorted (map et_time due)
    \<and> mset due = filter_mset (\<lambda>e. et_time e < n) (mset (sc_schedule s))
    \<and> sc_world s' = fold (\<lambda>e. effect (event_fun (the (map_of (sc_events s) (et_name e))))) due (sc_world s)
    \<and> (\<forall>x \<in> set (sc_schedule s). n \<le> et_time x \<longrightarrow> x \<in> set (sc_schedule s'))
    \<and> (\<forall>x \<in> set (sc_schedule s'). n \<le> et_time x)"
  using assms(1)
proof (induction "size (due_entries n s)" arbitrary: s rule: less_induct)
  case less
  have ok: "sched_ok s" using less.prems by (simp add: calm_def)
  show ?case
  proof (cases "sc_schedule s \<noteq> [] \<and> et_time (sc_schedule s ! 0) < n")
    case True
    let ?e = "sc_schedule s ! 0"
    obtain s1 where s1: "snd (run_next clock call s) = s1" "calm 0 s1"
      "sc_world s1 = entry_effect effect (sc_events s) ?e (sc_world s)"
      "due_entries n s = add_mset ?e (due_entries n s1)"
      "\<forall>x \<in># due_entries n s1. et_time ?e \<le> et_time x \<and> map_of (sc_events s1) (et_name x) = map_of (sc_events s) (et_name x)"
      "\<forall>x \<in> set (sc_schedule s). n \<le> et_time x \<longrightarrow> x \<in> set (sc_schedule s1)"
      using run_next_logged [OF less.prems _ assms(2,3)] True by blast
    have "size (due_entries n s1) < size (due_entries n s)" unfolding s1(4) by simp
    from less.hyps [OF this s1(2)] obtain due s' where
      run: "Schedule_run clock call s1 = Some (Inr (), s')" and
      due: "sorted (map et_time due)" "mset due = due_entries n s1"
        "sc_world s' = fold (entry_effect effect (sc_events s1)) due (sc_world s1)"
        "\<forall>x \<in> set (sc_schedule s1). n \<le> et_time x \<longrightarrow> x \<in> set (sc_schedule s')"
        "\<forall>x \<in> set (sc_schedule s'). n \<le> et_time x" by blast
    have in_due: "x \<in># due_entries n s1" if "x \<in> set due" for x using that due(2) by (metis set_mset_mset)
    have "fold (entry_effect effect (sc_events s1)) due w = fold (entry_effect effect (sc_events s)) due w" for w
      using s1(5) in_due by (intro fold_cong) auto
    then have "sc_world s' = fold (entry_effect effect (sc_events s)) (?e # due) (sc_world s)"
      using due(3) s1(3) by simp
    moreover have "sorted (map et_time (?e # due))" using due(1) s1(5) in_due by auto
    moreover have "mset (?e # due) = due_entries n s" using due(2) s1(4) by simp
    moreover have "Schedule_run clock call s = Some (Inr (), s')"
      using run_step [of s clock n "sc_world s" call] ok True assms(3) run s1(1) by simp
    ultimately show ?thesis using s1(6) due(4,5) by (intro exI [of _ "?e # due"] exI [of _ s']) blast
  next
    case False
    have all: "\<forall>x \<in> set (sc_schedule s). n \<le> et_time x"
      using first_least_late [OF ok] False by blast
    then obtain w where "Schedule_run clock call s = Some (Inr (), s\<lparr>sc_world := w\<rparr>)" "w = sc_world s"
      using run_stops [of clock s n "sc_world s" call] assms(3) by auto
    moreover have "due_entries n s = {#}" using all by (simp add: not_less)
    ultimately show ?thesis using all by (intro exI [of _ "[]"] exI [of _ s]) simp
  qed
qed

definition log_call :: "string \<Rightarrow> ((string, string list) Schedule, unit) act" where
  "log_call f = (\<lambda>s. (if f = ''bad'' then Inl ValueError else Inr (), s\<lparr>sc_world := sc_world s @ [f]\<rparr>))"

definition sample_ops :: "string sched_op list" where
  "sample_ops = [AddEvent ''late'' 20 (Some (StrName ''b'')), AddEvent ''bad'' 7 None, AddPeriodic ''tick'' 5 (Some (StrName ''t'')) False,
     AddEvent ''gone'' 3 (Some (StrName ''g'')), AddEvent ''first'' 2 None, RemoveEvent (StrName ''g''),
     RescheduleEvent (StrName ''t'') 4]"

definition sample_sched :: "(string, string list) Schedule" where
  "sample_sched = \<lparr>sc_schedule = [Tuple 2 (IntName 1), MyTuple 4 (StrName ''t''), Tuple 20 (StrName ''b''), Tuple 7 (IntName 0)],
     sc_events = [(StrName ''b'', Plain ''late''), (IntName 0, Plain ''bad''), (IntName 1, Plain ''first''),
       (StrName ''t'', Periodic ''tick'' 5 (Some (StrName ''t'')))], sc_counter = 2, sc_world = []\<rparr>"

lemma log_call_logs: "logs log_call (\<lambda>f w. w @ [f])"
  by (simp add: logs_def log_call_def)

lemma log_call_keeps: "\<forall>f. keepsA sched_ok (log_call f)"
  by (simp add: keepsA_def log_call_def)

lemma schedule_consistent_witness:
  "\<exists>s. sched_run (\<lambda>w. (10, w)) log_call sample_ops (Schedule_new []) = Some s \<and> distinct (map et_name (sc_schedule s))"
proof -
  have run: "sched_run (\<lambda>w. (10, w)) log_call sample_ops (Schedule_new []) \<noteq> None" by code_simp
  then obtain s where s: "sched_run (\<lambda>w. (10, w)) log_call sample_ops (Schedule_new []) = Some s" by blast
  have "\<forall>op \<in> set sample_ops. op_named op" by (simp add: sample_ops_def)
  from schedule_consistent [OF log_call_keeps this s] s show ?thesis by blast
qed

lemma sample_sched_calm: "calm 5 sample_sched"
  by (auto simp: calm_def sched_ok_def sample_sched_def dict_wf_def heap_from_def less_Suc_eq numeral_eq_Suc)

lemma calm_mono: "calm d s \<Longrightarrow> d' \<le> d \<Longrightarrow> calm d' s"
proof (unfold calm_def, elim conjE, intro conjI ballI)
  fix e assume "\<forall>e \<in> snd ` set (sc_events s). period_at_least d e" "d' \<le> d" "e \<in> snd ` set (sc_events s)"
  then have "period_at_least d e" by blast
  with \<open>d' \<le> d\<close> show "period_at_least d' e" by (cases e) simp_all
qed

lemma run_calls_due_in_order_witness:
  "\<exists>due s'. Schedule_run (\<lambda>w. (10, w)) log_call sample_sched = Some (Inr (), s') \<and> sorted (map et_time due)
    \<and> mset due = filter_mset (\<lambda>e. et_time e < 10) (mset (sc_schedule sample_sched))"
  using run_calls_due_in_order [OF calm_mono [OF sample_sched_calm] log_call_logs, of "\<lambda>w. (10, w)" 10] by auto

section \<open>When it returns\<close>

text \<open>
  C28: a run whose readings of the clock lie between T0 and T returns and raises nothing, when every period is at
  least T - T0 and the functions schedule nothing before T; all that was due at T0 has been called.
\<close>

theorem run_returns:
  assumes "calm (T - T0) s" "\<And>w. T0 \<le> fst (clock w) \<and> fst (clock w) \<le> T"
    "\<And>f s. calm (T - T0) s \<Longrightarrow> calm (T - T0) (snd (call f s))
      \<and> size {#e \<in># mset (sc_schedule (snd (call f s))). et_time e < T#} \<le> size {#e \<in># mset (sc_schedule s). et_time e < T#}"
  shows "\<exists>s'. Schedule_run clock call s = Some (Inr (), s') \<and> calm (T - T0) s' \<and> (\<forall>e \<in> set (sc_schedule s'). T0 \<le> et_time e)"
  using assms(1)
proof (induction "size (due_entries T s)" arbitrary: s rule: less_induct)
  case less
  have ok: "sched_ok s" using less.prems by (simp add: calm_def)
  obtain n w where c: "clock (sc_world s) = (n, w)" by fastforce
  then have n: "T0 \<le> n" "n \<le> T" using assms(2) [of "sc_world s"] by simp_all
  show ?case
  proof (cases "sc_schedule s \<noteq> [] \<and> et_time (sc_schedule s ! 0) < n")
    case True
    let ?s = "s\<lparr>sc_world := w\<rparr>" and ?e = "sc_schedule s ! 0"
    have calm: "calm (T - T0) ?s" and "sched_ok ?s" "sc_schedule ?s \<noteq> []" using less.prems ok True by simp_all
    obtain f h where f: "map_of (sc_events ?s) (et_name (sc_schedule ?s ! 0)) = Some f"
      "run_next clock call ?s = (Inr (), snd (call_event clock call f (popped ?s f h)))"
      "sched_ok (popped ?s f h)" "event_named f" "mset (sc_schedule ?s) = add_mset (sc_schedule ?s ! 0) (mset h)"
      "\<forall>x \<in> set h. et_time (sc_schedule ?s ! 0) \<le> et_time x"
      by (rule run_next_eq [OF \<open>sched_ok ?s\<close> \<open>sc_schedule ?s \<noteq> []\<close>])
    let ?p = "popped ?s f h"
    define s1 where "s1 = snd (call (event_fun f) ?p)"
    define s2 where "s2 = snd (call_event clock call f ?p)"
    have "f \<in> snd ` set (sc_events ?s)" using map_of_SomeD [OF f(1)] by force
    then have per: "period_at_least (T - T0) f" using calm unfolding calm_def by blast
    have popped: "calm (T - T0) ?p" by (rule calm_popped [OF calm f(3)])
    from assms(3) [OF this, of "event_fun f"] have s1: "calm (T - T0) s1" "size (due_entries T s1) \<le> size (due_entries T ?p)"
      by (simp_all add: s1_def)
    have "T0 \<le> fst (clock w)" for w using assms(2) by simp
    with call_event_extends [OF f(4) per, of call ?p T0 clock s1 s2] s1(1)
    have ext: "calm (T - T0) s2" "\<exists>X. mset (sc_schedule s2) = mset (sc_schedule s1) + X \<and> (\<forall>x \<in># X. T \<le> et_time x)"
      by (simp_all add: s1_def s2_def)
    then have "due_entries T s2 = due_entries T s1" by (auto simp: not_less)
    moreover have "size (due_entries T ?p) < size (due_entries T s)"
      using f(5) True n by (simp add: popped_def)
    ultimately have "size (due_entries T s2) < size (due_entries T s)" using s1(2) by simp
    from less.hyps [OF this ext(1)] obtain s' where
      "Schedule_run clock call s2 = Some (Inr (), s')" "calm (T - T0) s'" "\<forall>e \<in> set (sc_schedule s'). T0 \<le> et_time e" by blast
    moreover have "Schedule_run clock call s = Schedule_run clock call s2"
      using run_step [of s clock n w call] ok c True f(2) s2_def by simp
    ultimately show ?thesis by auto
  next
    case False
    have all: "\<forall>x \<in> set (sc_schedule s). n \<le> et_time x"
      using first_least_late [OF ok] False by blast
    then obtain w' where "Schedule_run clock call s = Some (Inr (), s\<lparr>sc_world := w'\<rparr>)"
      using run_stops [of clock s n w call] c by auto
    with all n less.prems show ?thesis by auto
  qed
qed

lemma run_returns_witness:
  "\<exists>s'. Schedule_run (\<lambda>w. (10, w)) log_call sample_sched = Some (Inr (), s') \<and> (\<forall>e \<in> set (sc_schedule s'). 10 \<le> et_time e)"
  using run_returns [OF calm_mono [OF sample_sched_calm], of 10 10 "\<lambda>w. (10, w)" log_call] by (auto simp: log_call_def)

section \<open>Rescheduling and removal\<close>

lemma removeEvent_exact:
  assumes "map_of (sc_events s) name = Some f"
  obtains s' where "Schedule_removeEvent name s = (Inr f, s')" "sc_events s' = dict_drop name (sc_events s)"
    "image_mset (\<lambda>e. (et_time e, et_name e)) (mset (sc_schedule s'))
       = {#(t, n) \<in># image_mset (\<lambda>e. (et_time e, et_name e)) (mset (sc_schedule s)). n \<noteq> name#}"
    "sc_counter s' = sc_counter s" "sc_world s' = sc_world s"
  using assms that
  by (simp add: removeEvent_eq mset_heapify multiset.map_comp comp_def filter_mset_image_mset case_prod_unfold)

text \<open>
  rescheduling an event keeps its function and moves its entry, and no other, to the new time; an unknown
  name raises KeyError and changes nothing.
\<close>

theorem rescheduleEvent_moves:
  assumes "sched_ok s"
  shows "(map_of (sc_events s) name = None \<longrightarrow> Schedule_rescheduleEvent name t s = (Inl KeyError, s))
    \<and> (map_of (sc_events s) name \<noteq> None \<longrightarrow> (\<exists>s'. Schedule_rescheduleEvent name t s = (Inr (), s') \<and> sched_ok s'
         \<and> map_of (sc_events s') = map_of (sc_events s)
         \<and> image_mset (\<lambda>e. (et_time e, et_name e)) (mset (sc_schedule s'))
             = add_mset (t, name) {#(u, n) \<in># image_mset (\<lambda>e. (et_time e, et_name e)) (mset (sc_schedule s)). n \<noteq> name#}))"
proof (intro conjI impI)
  assume "map_of (sc_events s) name = None"
  then show "Schedule_rescheduleEvent name t s = (Inl KeyError, s)"
    by (simp add: Schedule_rescheduleEvent_def act_defs removeEvent_eq)
next
  assume "map_of (sc_events s) name \<noteq> None"
  then obtain f where f: "map_of (sc_events s) name = Some f" by blast
  obtain s1 where s1: "Schedule_removeEvent name s = (Inr f, s1)" "sc_events s1 = dict_drop name (sc_events s)"
    "image_mset (\<lambda>e. (et_time e, et_name e)) (mset (sc_schedule s1))
       = {#(t, n) \<in># image_mset (\<lambda>e. (et_time e, et_name e)) (mset (sc_schedule s)). n \<noteq> name#}"
    by (rule removeEvent_exact [OF f])
  let ?s' = "s1\<lparr>sc_events := dict_set name f (sc_events s1), sc_schedule := heappush entry_lt (MyTuple t name) (sc_schedule s1)\<rparr>"
  have run: "Schedule_rescheduleEvent name t s = (Inr (), ?s')"
    using s1(1,2) by (simp add: Schedule_rescheduleEvent_def act_defs addEvent_eq new_name_def dict_has_def)
  moreover have "sched_ok ?s'" using keepsAD [OF rescheduleEvent_keeps assms run] .
  moreover have "map_of (sc_events ?s') = map_of (sc_events s)" using s1(2) f by (auto simp: fun_eq_iff)
  ultimately show "\<exists>s'. Schedule_rescheduleEvent name t s = (Inr (), s') \<and> sched_ok s' \<and> map_of (sc_events s') = map_of (sc_events s)
      \<and> image_mset (\<lambda>e. (et_time e, et_name e)) (mset (sc_schedule s'))
          = add_mset (t, name) {#(u, n) \<in># image_mset (\<lambda>e. (et_time e, et_name e)) (mset (sc_schedule s)). n \<noteq> name#}"
    using s1(3) by (intro exI [of _ ?s']) (simp add: mset_heappush)
qed

lemma rescheduleEvent_moves_witness:
  "fst (Schedule_rescheduleEvent (StrName ''b'') 1 sample_sched) = Inr ()
    \<and> fst (Schedule_rescheduleEvent (StrName ''x'') 1 sample_sched) = Inl KeyError"
  using rescheduleEvent_moves [of sample_sched "StrName ''b''" 1] rescheduleEvent_moves [of sample_sched "StrName ''x''" 1]
    sample_sched_calm by (auto simp: calm_def sample_sched_def)

text \<open>
  C29: removing a periodic event does not always stop it.  When its own function removes it, the event is already out of the schedule, the
  KeyError is dropped by the \<open>return\<close> in \<open>finally\<close>, and it is scheduled again.  A periodic event without a name
  gets a new one at every call, so the name that \<open>addPeriodicEvent\<close> returned raises KeyError, and the event
  goes on.
\<close>

theorem periodic_survives_removal:
  assumes "sched_ok s" "sc_schedule s \<noteq> []" "m = et_name (sc_schedule s ! 0)"
    "map_of (sc_events s) m = Some (Periodic f t name)" "run_next clock call s = (r, s')"
  shows "(name = Some m \<and> call f = seqA (Schedule_removeEvent m) (retA ()) \<longrightarrow>
       map_of (sc_events s') m = Some (Periodic f t name))
    \<and> (name = None \<and> (\<forall>s. snd (call f s) = s) \<longrightarrow>
       fst (Schedule_removeEvent m s') = Inl KeyError \<and> (\<exists>k. map_of (sc_events s') k = Some (Periodic f t name)))"
proof -
  obtain g h where f: "map_of (sc_events s) m = Some g"
    "run_next clock call s = (Inr (), snd (call_event clock call g (popped s g h)))" "sched_ok (popped s g h)"
    by (rule run_next_eq [OF assms(1,2)]) (use assms(3) in blast)
  let ?p = "popped s g h"
  have g: "g = Periodic f t name" using f(1) assms(4) by simp
  have gone: "map_of (sc_events ?p) m = None" using assms(3) by (simp add: popped_def)
  have s': "s' = snd (call_event clock call g ?p)" using f(2) assms(5) by simp
  obtain n w where c: "clock (sc_world ?p) = (n, w)" by fastforce
  have same: "s' = snd (Schedule_addEvent g (n + t) name (?p\<lparr>sc_world := w\<rparr>))" if "snd (call f ?p) = ?p"
    using that s' c g
    by (cases "Schedule_addEvent g (n + t) name (?p\<lparr>sc_world := w\<rparr>)")
      (auto simp: call_event_def run_wrapper_def read_clock_def act_defs split: sum.splits)
  show ?thesis
  proof (intro conjI impI)
    assume own: "name = Some m \<and> call f = seqA (Schedule_removeEvent m) (retA ())"
    then have "snd (call f ?p) = ?p" using gone by (simp add: act_defs removeEvent_eq)
    from same [OF this] own gone g show "map_of (sc_events s') m = Some (Periodic f t name)"
      by (simp add: addEvent_eq new_name_def dict_has_def)
  next
    assume anon: "name = None \<and> (\<forall>s. snd (call f s) = s)"
    let ?k = "IntName (sc_counter ?p)"
    have "?k \<notin> fst ` set (sc_events ?p)" using f(3) by (auto simp: sched_ok_def)
    then have new: "map_of (sc_events ?p) ?k = None" by (simp add: map_of_eq_None_iff)
    have "m \<in> fst ` set (sc_events s)" using map_of_SomeD [OF assms(4)] by force
    moreover have "?k \<notin> fst ` set (sc_events s)" using assms(1) by (auto simp: sched_ok_def popped_def)
    ultimately have "m \<noteq> ?k" by blast
    have ev: "map_of (sc_events s') = (map_of (sc_events ?p))(?k \<mapsto> g)"
      using same anon new by (simp add: addEvent_eq new_name_def dict_has_def)
    show "fst (Schedule_removeEvent m s') = Inl KeyError" using ev gone \<open>m \<noteq> ?k\<close> by (simp add: removeEvent_eq)
    show "\<exists>k. map_of (sc_events s') k = Some (Periodic f t name)" using ev g by (intro exI [of _ ?k]) simp
  qed
qed

lemma periodic_survives_removal_witness:
  "\<exists>s s'. run_next (\<lambda>w. (10, w)) (\<lambda>f. seqA (Schedule_removeEvent (StrName ''t'')) (retA ())) (s :: (string, unit) Schedule) = (Inr (), s')
    \<and> map_of (sc_events s') (StrName ''t'') = Some (Periodic ''tick'' 5 (Some (StrName ''t'')))"
proof -
  let ?s = "\<lparr>sc_schedule = [MyTuple 4 (StrName ''t'')], sc_events = [(StrName ''t'', Periodic ''tick'' 5 (Some (StrName ''t'')))],
    sc_counter = 0, sc_world = ()\<rparr> :: (string, unit) Schedule"
  let ?call = "\<lambda>f. seqA (Schedule_removeEvent (StrName ''t'')) (retA ()) :: ((string, unit) Schedule, unit) act"
  obtain r s' where run: "run_next (\<lambda>w. (10, w)) ?call ?s = (r, s')" by fastforce
  have ok: "sched_ok ?s" by (simp add: sched_ok_def dict_wf_def heap_from_def)
  then have "r = Inr ()" using run_next_Inr [of ?s "\<lambda>w. (10, w)" ?call] run by simp
  moreover have "map_of (sc_events s') (StrName ''t'') = Some (Periodic ''tick'' 5 (Some (StrName ''t'')))"
    using periodic_survives_removal [OF ok _ _ _ run, of "StrName ''t''"] by simp
  ultimately show ?thesis using run by blast
qed

end
