(* ===== verification/Addressing.thy ===== *)
theory Addressing
  imports IrcMsgs
begin

text \<open>
  The functions at the head of \<open>callbacks.py\<close>: whether a message is meant for the bot and what remains of it
  (\<open>_addressed\<close>, \<open>addressed\<close>), the canonical form of a command's name, and the message that carries a reply
  (\<open>reply\<close>, \<open>error\<close>).

  A configuration variable that may be set for each channel is a function of \<open>string option\<close>: its value for a
  channel, or the global one.
\<close>

section \<open>Configuration\<close>

record addr_conf =
  ad_chars :: "string option \<Rightarrow> string"
  ad_nick :: "string option \<Rightarrow> bool"
  ad_atEnd :: "string option \<Rightarrow> bool"
  ad_strings :: "string option \<Rightarrow> string list"
  ad_nicks :: "string option \<Rightarrow> string list"
  ad_whenNotAddressed :: bool

record reply_conf =
  rp_withNotice :: "string option \<Rightarrow> bool"
  rp_inPrivate :: "string option \<Rightarrow> bool"
  rp_withNickPrefix :: "string option \<Rightarrow> bool"
  rp_errorWithNotice :: "string option \<Rightarrow> bool"
  rp_errorInPrivate :: "string option \<Rightarrow> bool"
  rp_withNoticeWhenPrivate :: bool
  rp_strictRfc :: bool

definition conf_get :: "(string option \<Rightarrow> 'a) \<Rightarrow> string option \<Rightarrow> 'a" where
  "conf_get setting channel =
     (case channel of Some c \<Rightarrow> if isChannel c then setting (Some c) else setting None | None \<Rightarrow> setting None)"

section \<open>Names of commands\<close>

definition name_special :: string where
  "name_special = [CHR 0x09, CHR '' '', CHR ''-'', CHR ''_'']"

definition canonicalName :: "string \<Rightarrow> string" where
  "canonicalName command =
     (let reAppend = rev (takeWhile (\<lambda>c. c \<in> set name_special) (rev command));
          body = rev (dropWhile (\<lambda>c. c \<in> set name_special) (rev command))
      in py_lower (filter (\<lambda>c. c \<notin> set name_special) body) @ reAppend)"

section \<open>Is the message for the bot?\<close>

text \<open>The keyword arguments of \<open>_addressed\<close>; \<open>None\<close>: take the configured value.\<close>

record addr_args =
  aa_prefixChars :: "string option"
  aa_nicks :: "string list option"
  aa_prefixStrings :: "string list option"
  aa_byNick :: "bool option"
  aa_atEnd :: "bool option"

definition stripPrefixStrings :: "string list \<Rightarrow> string \<Rightarrow> string" where
  "stripPrefixStrings prefixStrings payload =
     fold (\<lambda>p payload. if startswith payload p then skip_ws (drop (length p) payload) else payload) prefixStrings payload"

text \<open>The loop that drops prefix characters in a private message.\<close>

function strip_prefixChars :: "string \<Rightarrow> string \<Rightarrow> string" where
  "strip_prefixChars chars [] = []"
| "strip_prefixChars chars (c # cs) = (if c \<in> set chars then strip_prefixChars chars (skip_ws cs) else c # cs)"
  by pat_completeness auto
termination by (relation "measure (\<lambda>(_, s). length s)") (auto simp: skip_ws_def less_Suc_eq_le length_dropWhile_le)

definition is_alnum :: "char \<Rightarrow> bool" where
  "is_alnum c \<longleftrightarrow> is_alpha c \<or> is_digit c"

text \<open>
  The inner loop that shortens the first word to a nick: \<open>Inr None\<close> is \<open>toContinue\<close>; on an empty word
  \<open>maybeNick[-1]\<close> raises.
\<close>

function shorten_to_nick :: "string \<Rightarrow> string option res" where
  "shorten_to_nick maybeNick =
     (if isNick maybeNick then Inr (Some maybeNick)
      else if maybeNick = [] then Inl IndexError
      else if is_alnum (List.last maybeNick) then Inr None
      else shorten_to_nick (butlast maybeNick))"
  by pat_completeness auto
termination by (relation "measure length") auto

declare shorten_to_nick.simps [simp del]

definition called_first :: "string \<Rightarrow> string \<Rightarrow> string option res" where
  "called_first payload nick =
     (case split_ws1 payload of
        [maybeNick, rest] \<Rightarrow>
          bindR (shorten_to_nick maybeNick) (\<lambda>m. case m of
              None \<Rightarrow> Inr None
            | Some maybeNick \<Rightarrow> Inr (if strEqual maybeNick nick then Some rest else None))
      | _ \<Rightarrow> Inr None)"

definition called_last :: "string \<Rightarrow> string \<Rightarrow> string option" where
  "called_last payload nick =
     (let rest = take (length payload - length nick) payload;
          possiblePayload = rstrip_in ('' '' @ [CHR 0x09] @ '',;'') rest
      in if possiblePayload \<noteq> rest then Some possiblePayload else None)"

text \<open>The loop over the nicks, for a message in a channel.\<close>

fun called_by_nick :: "string \<Rightarrow> bool \<Rightarrow> string list \<Rightarrow> string option res" where
  "called_by_nick payload atEnd [] = Inr None"
| "called_by_nick payload atEnd (nick # nicks) =
     (if startswith (toLower payload) nick then
        bindR (called_first payload nick) (\<lambda>r. case r of
            Some rest \<Rightarrow> Inr (Some rest) | None \<Rightarrow> called_by_nick payload atEnd nicks)
      else if atEnd \<and> endswith (toLower payload) nick then
        (case called_last payload nick of
           Some rest \<Rightarrow> Inr (Some rest) | None \<Rightarrow> called_by_nick payload atEnd nicks)
      else called_by_nick payload atEnd nicks)"

definition u_addressed :: "addr_conf \<Rightarrow> addr_args \<Rightarrow> string \<Rightarrow> IrcMsg \<Rightarrow> string res" where
  "u_addressed cf kw nick msg = py_assert (im_command msg = ''PRIVMSG'') (case im_args msg of
     [target, payload] \<Rightarrow>
      (let get = (\<lambda>b setting. case b of Some v \<Rightarrow> v | None \<Rightarrow> conf_get setting (Some target));
           prefixStrings = (case aa_prefixStrings kw of Some l \<Rightarrow> l | None \<Rightarrow> conf_get (ad_strings cf) (Some target));
           prefixChars = (case aa_prefixChars kw of Some s \<Rightarrow> s | None \<Rightarrow> conf_get (ad_chars cf) (Some target));
           nicks = toLower nick # (case aa_nicks kw of
               Some l \<Rightarrow> l | None \<Rightarrow> map toLower (conf_get (ad_nicks cf) (Some target)))
       in if payload = [] then Inr []
          else if \<exists>p \<in> set prefixStrings. startswith payload p then Inr (stripPrefixStrings prefixStrings payload)
          else if hd payload \<in> set prefixChars then Inr (strip_ws (tl payload))
          else if strEqual target nick then Inr (strip_prefixChars prefixChars (stripPrefixStrings prefixStrings payload))
          else bindR (if get (aa_byNick kw) (ad_nick cf)
                      then called_by_nick payload (get (aa_atEnd kw) (ad_atEnd cf)) nicks else Inr None)
            (\<lambda>r. Inr (case r of
                Some rest \<Rightarrow> rest
              | None \<Rightarrow> if ad_whenNotAddressed cf then payload else [])))
   | _ \<Rightarrow> Inl ValueError)"

text \<open>\<open>addressed\<close> remembers the answer as a tag of the message; \<open>msg.addressed\<close> is that tag.\<close>

definition addressed :: "addr_conf \<Rightarrow> addr_args \<Rightarrow> string \<Rightarrow> IrcMsg \<Rightarrow> (string \<times> IrcMsg) res" where
  "addressed cf kw nick msg =
     (case IrcMsg_tagged ''addressed'' msg of
        Some (TText payload) \<Rightarrow> Inr (payload, msg)
      | _ \<Rightarrow> bindR (u_addressed cf kw nick msg) (\<lambda>payload. Inr (payload, IrcMsg_tag ''addressed'' (TText payload) msg)))"

section \<open>Replies\<close>

record reply_args =
  ra_prefixNick :: "bool option"
  ra_private :: "bool option"
  ra_notice :: "bool option"
  ra_to :: "string option"
  ra_action :: bool
  ra_error :: bool

text \<open>
  \<open>reply\<close>: the message to send, and the message replied to with its new tag.  The tag \<open>inReplyTo\<close>, which refers
  to that message, is not repeated in the first.
\<close>

record reply_plan =
  pl_target :: string
  pl_prefixNick :: bool
  pl_notice :: bool
  pl_to :: string

text \<open>Where the reply goes and how, before its text is made.\<close>

definition plan_reply :: "reply_conf \<Rightarrow> IrcMsg \<Rightarrow> reply_args \<Rightarrow> reply_plan res" where
  "plan_reply cf msg kw = bindR (replyTo msg) (\<lambda>target0.
     let target = (case ra_to kw of Some t \<Rightarrow> if isChannel t then t else target0 | None \<Rightarrow> target0);
         channel = (if isChannel target then Some target else None);
         notice0 = (case ra_notice kw of Some b \<Rightarrow> b | None \<Rightarrow> conf_get (rp_withNotice cf) channel);
         private0 = (case ra_private kw of Some b \<Rightarrow> b | None \<Rightarrow> conf_get (rp_inPrivate cf) channel);
         prefixNick0 = (case ra_prefixNick kw of Some b \<Rightarrow> b | None \<Rightarrow> conf_get (rp_withNickPrefix cf) channel);
         notice = (if ra_error kw then conf_get (rp_errorWithNotice cf) channel \<or> notice0 else notice0);
         private = (if ra_error kw then conf_get (rp_errorInPrivate cf) channel \<or> private0 else private0);
         target' = (if private then (case ra_to kw of None \<Rightarrow> im_nick msg | Some t \<Rightarrow> t) else target)
     in Inr \<lparr>pl_target = target', pl_prefixNick = prefixNick0 \<and> \<not> private \<and> \<not> ra_action kw,
             pl_notice = notice \<or> \<not> isChannel target' \<and> rp_withNoticeWhenPrivate cf,
             pl_to = (case ra_to kw of None \<Rightarrow> im_nick msg | Some t \<Rightarrow> t)\<rparr>)"

definition reply_text :: "reply_plan \<Rightarrow> reply_args \<Rightarrow> string \<Rightarrow> string" where
  "reply_text pl kw s =
     (let s1 = safeArgument (PStr (if ra_error kw then ''Error: '' @ s else s));
          s2 = (if s1 = [] \<and> \<not> ra_action kw then ''Error: I tried to send you an empty message.'' else s1)
      in if pl_prefixNick pl \<and> isChannel (pl_target pl) \<and> \<not> isChannel (pl_to pl)
         then pl_to pl @ '': '' @ s2 else s2)"

definition reply :: "reply_conf \<Rightarrow> IrcMsg \<Rightarrow> string \<Rightarrow> reply_args \<Rightarrow> (IrcMsg \<times> IrcMsg) res" where
  "reply cf msg s kw =
     bindR (plan_reply cf msg kw) (\<lambda>pl.
       bindR (if ra_action kw then action_msg (rp_strictRfc cf) (pl_target pl) (reply_text pl kw s) [] None
              else if pl_notice pl then notice_msg (rp_strictRfc cf) (pl_target pl) (reply_text pl kw s) [] None
              else privmsg_msg (rp_strictRfc cf) (pl_target pl) (reply_text pl kw s) [] None) (\<lambda>ret.
         Inr (ret, IrcMsg_tag ''repliedTo'' TTrue msg)))"

definition error_reply :: "reply_conf \<Rightarrow> IrcMsg \<Rightarrow> string \<Rightarrow> reply_args \<Rightarrow> (IrcMsg \<times> IrcMsg) res" where
  "error_reply cf msg s kw = reply cf (IrcMsg_tag ''isError'' TTrue msg) s (kw\<lparr>ra_error := True\<rparr>)"

end
