(* ===== verification/Dispatch.thy ===== *)
theory Dispatch
  imports Addressing "HOL-Library.List_Lexorder" "HOL-Library.Char_ord"
begin

text \<open>
  How \<open>callbacks.py\<close> finds the command a line of words names: the disabled commands (\<open>DisabledCommands\<close>), the
  lookup in one plugin (\<open>Commands\<close>) and the choice among the loaded ones (\<open>findCallbacksForArgs\<close>).

  A plugin is its name, its attributes (a method with the names of its parameters, or something else) and the
  plugins nested in it (\<open>cbs\<close>).  The loaded plugins are the callbacks that have a \<open>getCommand\<close>; no two of them
  have the same name up to case, as \<open>Irc.addCallback\<close> asserts, so a plugin is recognised by that name.
\<close>

section \<open>Disabled commands\<close>

text \<open>\<open>None\<close>: the command is disabled in every plugin.\<close>

type_synonym disabled_commands = "(string, string nset option) pdict"

definition DisabledCommands_add :: "string \<Rightarrow> string option \<Rightarrow> disabled_commands \<Rightarrow> disabled_commands" where
  "DisabledCommands_add command plugin d = (case plugin of
      None \<Rightarrow> pdict_setitem canonicalName command None d
    | Some p \<Rightarrow>
        (case pdict_lookup canonicalName d command of
           Some None \<Rightarrow> d
         | Some (Some ps) \<Rightarrow> pdict_modify canonicalName command (\<lambda>_. Some (nset_add canonicalName p ps)) d
         | None \<Rightarrow> pdict_setitem canonicalName command (Some (nset_new canonicalName [p])) d))"

definition DisabledCommands_remove :: "string \<Rightarrow> string option \<Rightarrow> disabled_commands \<Rightarrow> disabled_commands res" where
  "DisabledCommands_remove command plugin d = (case plugin of
      None \<Rightarrow> pdict_delitem canonicalName command d
    | Some p \<Rightarrow> bindR (pdict_getitem canonicalName d command) (\<lambda>v. case v of
        None \<Rightarrow> Inr d
      | Some ps \<Rightarrow> bindR (nset_remove canonicalName p ps) (\<lambda>ps'.
          Inr (pdict_modify canonicalName command (\<lambda>_. Some ps') d))))"

definition DisabledCommands_disabled :: "string \<Rightarrow> string \<Rightarrow> disabled_commands \<Rightarrow> bool" where
  "DisabledCommands_disabled command plugin d = (case pdict_lookup canonicalName d command of
      None \<Rightarrow> False
    | Some None \<Rightarrow> True
    | Some (Some ps) \<Rightarrow> nset_contains canonicalName ps plugin)"

text \<open>The constructor, from the configured names \<open>command\<close> and \<open>plugin.command\<close>.\<close>

definition DisabledCommands_new :: "string list \<Rightarrow> disabled_commands" where
  "DisabledCommands_new names = fold (\<lambda>nm d. case split_char1 CHR ''.'' nm of
       (plugin, Some command) \<Rightarrow> DisabledCommands_add command (Some plugin) d
     | (_, None) \<Rightarrow> pdict_setitem canonicalName nm None d) names []"

section \<open>One plugin\<close>

datatype attribute = MethodAttr "string list" | OtherAttr

datatype plugin = PluginObj (pg_name: string) (pg_attrs: "(string \<times> attribute) list") (pg_cbs: "plugin list")

definition commandArgs :: "string list" where
  "commandArgs = [''self'', ''irc'', ''msg'', ''args'']"

definition Commands_canonicalName :: "plugin \<Rightarrow> string" where
  "Commands_canonicalName p = canonicalName (pg_name p)"

definition Commands_isDisabled :: "disabled_commands \<Rightarrow> plugin \<Rightarrow> string \<Rightarrow> bool" where
  "Commands_isDisabled d p command = DisabledCommands_disabled command (pg_name p) d"

definition Commands_isCommandMethod :: "disabled_commands \<Rightarrow> plugin \<Rightarrow> string \<Rightarrow> bool" where
  "Commands_isCommandMethod d p name =
     (if Commands_isDisabled d p name then False
      else if name \<noteq> canonicalName name then False
      else case map_of (pg_attrs p) name of
          Some (MethodAttr params) \<Rightarrow> params = commandArgs
        | _ \<Rightarrow> False)"

abbreviation nested_named :: "plugin \<Rightarrow> string \<Rightarrow> plugin option" where
  "nested_named p name \<equiv> find (\<lambda>cb. name = Commands_canonicalName cb) (pg_cbs p)"

lemma nested_named_size: "nested_named p name = Some cb \<Longrightarrow> size cb < size p"
  by (cases p) (auto simp: find_Some_iff less_Suc_eq_le intro!: size_list_estimation' [where f = size] nth_mem)

function Commands_getCommand :: "disabled_commands \<Rightarrow> plugin \<Rightarrow> string list \<Rightarrow> string list res" where
  "Commands_getCommand d p args = py_assert (args = map canonicalName args) (case args of
      [] \<Rightarrow> Inl IndexError
    | first # rest \<Rightarrow>
       (case nested_named p first of
          Some cb \<Rightarrow> Commands_getCommand d cb args
        | None \<Rightarrow>
            bindR (if first = Commands_canonicalName p \<and> rest \<noteq> [] then Commands_getCommand d p rest else Inr []) (\<lambda>ret.
              Inr (if ret \<noteq> [] then first # ret
                   else if Commands_isCommandMethod d p first then [first] else []))))"
  by pat_completeness auto
termination
  by (relation "measures [\<lambda>(_, _, args). length args, \<lambda>(_, p, _). size p]") (auto dest: nested_named_size)

declare Commands_getCommand.simps [simp del]

text \<open>\<open>isCommand\<close> of a string and of a list.\<close>

definition Commands_isCommand :: "disabled_commands \<Rightarrow> plugin \<Rightarrow> string + string list \<Rightarrow> bool res" where
  "Commands_isCommand d p command = (case command of
      Inl name \<Rightarrow> Inr (Commands_isCommandMethod d p name)
    | Inr args \<Rightarrow> bindR (Commands_getCommand d p args) (\<lambda>l. Inr (l = args)))"

text \<open>A method is the plugin object it belongs to and its name; \<open>None\<close> where the function falls off its end.\<close>

function Commands_getCommandMethod :: "disabled_commands \<Rightarrow> plugin \<Rightarrow> string list \<Rightarrow> (plugin \<times> string) option res" where
  "Commands_getCommandMethod d p command =
     py_assert (command = map canonicalName command)
      (bindR (Commands_getCommand d p command) (\<lambda>l. py_assert (l = command) (case command of
          [] \<Rightarrow> Inl IndexError
        | first # rest \<Rightarrow>
           (case nested_named p first of
              Some cb \<Rightarrow> Commands_getCommandMethod d cb command
            | None \<Rightarrow>
               (if rest \<noteq> [] then py_assert (first = Commands_canonicalName p) (Commands_getCommandMethod d p rest)
                else case map_of (pg_attrs p) first of
                    None \<Rightarrow> Inl AttributeError
                  | Some (MethodAttr params) \<Rightarrow> if params = commandArgs then Inr (Some (p, first)) else Inl AttributeError
                  | Some OtherAttr \<Rightarrow> Inr None)))))"
  by pat_completeness auto
termination
  by (relation "measures [\<lambda>(_, _, args). length args, \<lambda>(_, p, _). size p]") (auto dest: nested_named_size)

declare Commands_getCommandMethod.simps [simp del]

text \<open>\<open>listCommands\<close>; a nested plugin's command of its own name is listed without the prefix.\<close>

fun Commands_listCommands :: "disabled_commands \<Rightarrow> string list \<Rightarrow> plugin \<Rightarrow> string list" where
  "Commands_listCommands d pluginCommands (PluginObj name attrs cbs) =
     sorted_list_of_set (set pluginCommands
       \<union> set (filter (Commands_isCommandMethod d (PluginObj name attrs cbs)) (map fst attrs))
       \<union> set (concat (map (\<lambda>cb. map (\<lambda>command.
             if command = Commands_canonicalName cb then command else Commands_canonicalName cb @ '' '' @ command)
           (Commands_listCommands d [] cb)) cbs)))"

section \<open>The loaded plugins\<close>

record dispatch_conf =
  dp_defaultPlugin :: "string \<Rightarrow> string option"
  dp_importantPlugins :: "string list"

text \<open>\<open>utils.iter.startswith\<close>: the two sequences agree as far as the shorter one goes.\<close>

definition iter_startswith :: "'a list \<Rightarrow> 'a list \<Rightarrow> bool" where
  "iter_startswith long short \<longleftrightarrow> list_all (\<lambda>(x, y). x = y) (zip short long)"

fun collect_callbacks ::
    "disabled_commands \<Rightarrow> string list \<Rightarrow> plugin list \<Rightarrow> string list \<Rightarrow> (plugin \<times> string list) list
      \<Rightarrow> (string list \<times> (plugin \<times> string list) list) res" where
  "collect_callbacks d args [] maxL cbs = Inr (maxL, cbs)"
| "collect_callbacks d args (cb # loaded) maxL cbs =
     bindR (Commands_getCommand d cb args) (\<lambda>l.
       if l \<noteq> [] \<and> maxL \<le> l
       then py_assert (iter_startswith l args) (collect_callbacks d args loaded l (cbs @ [(cb, l)]))
       else collect_callbacks d args loaded maxL cbs)"

definition loaded_named :: "string \<Rightarrow> plugin list \<Rightarrow> plugin option" where
  "loaded_named name loaded = find (\<lambda>cb. py_lower (pg_name cb) = py_lower name) loaded"

text \<open>One word alone names the command: the plugin of that name, the configured default, or the only important one.\<close>

definition important_callbacks :: "dispatch_conf \<Rightarrow> plugin list \<Rightarrow> plugin list" where
  "important_callbacks cf cbs =
     filter (\<lambda>cb. Commands_canonicalName cb \<in> canonicalName ` set (dp_importantPlugins cf)) cbs"

definition default_callback :: "dispatch_conf \<Rightarrow> plugin list \<Rightarrow> string \<Rightarrow> plugin option" where
  "default_callback cf loaded command = (case dp_defaultPlugin cf command of
      None \<Rightarrow> None
    | Some name \<Rightarrow> if name = [] then None else loaded_named name loaded)"

definition prefer_callback :: "dispatch_conf \<Rightarrow> plugin list \<Rightarrow> string \<Rightarrow> plugin list \<Rightarrow> plugin list" where
  "prefer_callback cf loaded command cbs =
     (case find (\<lambda>cb. Commands_canonicalName cb = command) cbs of
        Some cb \<Rightarrow> [cb]
      | None \<Rightarrow>
         (if \<exists>cb \<in> set cbs. default_callback cf loaded command = Some cb
          then [the (default_callback cf loaded command)]
          else if length (important_callbacks cf cbs) = 1 then important_callbacks cf cbs
          else cbs))"

definition findCallbacksForArgs ::
    "dispatch_conf \<Rightarrow> disabled_commands \<Rightarrow> plugin list \<Rightarrow> string list \<Rightarrow> (string list \<times> plugin list) res" where
  "findCallbacksForArgs cf d loaded args =
     bindR (collect_callbacks d (map canonicalName args) loaded [] []) (\<lambda>(maxL, found).
       let cbs = map fst (filter (\<lambda>(_, l). l = maxL) found)
       in Inr (maxL, if length maxL = 1 then prefer_callback cf loaded (hd maxL) cbs else cbs))"

end
