(* ===== verification/CommandAccess.thy ===== *)
theory CommandAccess
  imports AccessLaws Dispatch
begin

text \<open>
  \<open>checkCommandCapability\<close> of \<open>callbacks.py\<close>: may the sender of a message call a command of a plugin?  The
  anticapabilities of the plugin, the command and both decide first, then those of the channel, then the defaults
  and the capabilities.
\<close>

section \<open>The function\<close>

text \<open>
  What it returns: \<open>False\<close> (the command may be called), \<open>True\<close> (it may not), or the capability that is forbidden.
\<close>

datatype command_access = Allowed | Denied | DeniedFor string

text \<open>The inner \<open>checkCapability\<close> on a list of anticapabilities: the first that the sender has is raised.\<close>

fun first_denied :: "access_conf \<Rightarrow> string \<Rightarrow> string res list \<Rightarrow> (access, string option) act" where
  "first_denied cf prefix [] = retA None"
| "first_denied cf prefix (made # rest) =
     bindA (liftA made) (\<lambda>capability.
       seqA (assertA (isAntiCapability capability))
         (bindA (checkCapability cf prefix capability) (\<lambda>b.
           if b then retA (Some capability) else first_denied cf prefix rest)))"

fun any_capability :: "access_conf \<Rightarrow> string \<Rightarrow> string list \<Rightarrow> (access, bool) act" where
  "any_capability cf prefix [] = retA False"
| "any_capability cf prefix (c # cs) =
     bindA (checkCapability cf prefix c) (\<lambda>b. if b then retA True else any_capability cf prefix cs)"

text \<open>\<open>except RuntimeError, e\<close> at the end: the forbidden capability without its sign.\<close>

definition denied_or :: "string option \<Rightarrow> (access, command_access) act \<Rightarrow> (access, command_access) act" where
  "denied_or denied rest = (case denied of
      Some capability \<Rightarrow> bindA (liftA (unAntiCapability capability)) (\<lambda>s. retA (DeniedFor s))
    | None \<Rightarrow> rest)"

definition command_default :: "access_conf \<Rightarrow> string \<Rightarrow> bool \<Rightarrow> string list \<Rightarrow> (access, command_access) act" where
  "command_default cf prefix allowed checkAtEnd =
     (if allowed then retA Allowed
      else bindA (any_capability cf prefix checkAtEnd) (\<lambda>b. retA (if b then Allowed else Denied)))"

text \<open>The part for a message in a channel.\<close>

definition channel_command ::
    "access_conf \<Rightarrow> string \<Rightarrow> string \<Rightarrow> string \<Rightarrow> string \<Rightarrow> string \<Rightarrow> string list \<Rightarrow> (access, command_access) act" where
  "channel_command cf prefix channel plugin commandName pluginCommand antis =
     bindA (first_denied cf prefix (map (makeChannelCapability channel) antis)) (\<lambda>denied. denied_or denied
       (bindA (liftA (makeChannelCapability channel plugin)) (\<lambda>chanPlugin.
        bindA (liftA (makeChannelCapability channel commandName)) (\<lambda>chanCommand.
        bindA (liftA (makeChannelCapability channel pluginCommand)) (\<lambda>chanPluginCommand.
        bindA (with_channel channel (getA ic_defaultAllow)) (\<lambda>defaultAllow.
          command_default cf prefix (cf_default cf \<and> defaultAllow)
            [commandName, pluginCommand, chanCommand, chanPlugin, chanPluginCommand]))))))"

definition checkCommandCapability :: "access_conf \<Rightarrow> IrcMsg \<Rightarrow> string \<Rightarrow> string \<Rightarrow> (access, command_access) act" where
  "checkCommandCapability cf msg cbName commandName =
     (let plugin = py_lower cbName; pluginCommand = plugin @ ''.'' @ commandName; prefix = im_prefix msg in
      bindA (liftA (makeAntiCapability plugin)) (\<lambda>antiPlugin.
      bindA (liftA (makeAntiCapability commandName)) (\<lambda>antiCommand.
      bindA (liftA (makeAntiCapability pluginCommand)) (\<lambda>antiPluginCommand.
      bindA (first_denied cf prefix (map Inr [antiPlugin, antiCommand, antiPluginCommand])) (\<lambda>denied. denied_or denied
        (bindA (liftA (msg_arg msg 0)) (\<lambda>channel.
          if isChannel channel
          then channel_command cf prefix channel plugin commandName pluginCommand [antiCommand, antiPlugin, antiPluginCommand]
          else command_default cf prefix (cf_default cf) [commandName, pluginCommand])))))))"

section \<open>Its decision\<close>

text \<open>A sender whose answers do not depend on the state the earlier questions leave.\<close>

definition answers :: "access_conf \<Rightarrow> string \<Rightarrow> (access \<Rightarrow> bool) \<Rightarrow> (string \<Rightarrow> bool) \<Rightarrow> bool" where
  "answers cf prefix I has \<longleftrightarrow>
     (\<forall>c s. proper_capability c \<longrightarrow> I s \<longrightarrow> (\<exists>s'. checkCapability cf prefix c s = (Inr (has c), s') \<and> I s'))"

lemma answersE:
  assumes "answers cf prefix I has" "proper_capability c" "I s"
  obtains s' where "checkCapability cf prefix c s = (Inr (has c), s')" "I s'"
  using assms unfolding answers_def by blast

lemma first_denied_finds:
  assumes "answers cf prefix I has"
  shows "I s \<Longrightarrow> \<forall>c \<in> set caps. proper_capability c \<and> isAntiCapability c
    \<Longrightarrow> \<exists>s'. first_denied cf prefix (map Inr caps) s = (Inr (find has caps), s') \<and> I s'"
proof (induction caps arbitrary: s)
  case (Cons c caps)
  obtain s1 where s1: "checkCapability cf prefix c s = (Inr (has c), s1)" "I s1"
    using answersE [OF assms _ Cons.prems(1), of c] Cons.prems(2) by auto
  with Cons.IH [OF s1(2)] Cons.prems(2) show ?case by (auto simp: act_defs)
qed (simp add: act_defs)

lemma any_capability_finds:
  assumes "answers cf prefix I has"
  shows "I s \<Longrightarrow> \<forall>c \<in> set caps. proper_capability c
    \<Longrightarrow> \<exists>s'. any_capability cf prefix caps s = (Inr (\<exists>c \<in> set caps. has c), s') \<and> I s'"
proof (induction caps arbitrary: s)
  case (Cons c caps)
  obtain s1 where s1: "checkCapability cf prefix c s = (Inr (has c), s1)" "I s1"
    using answersE [OF assms _ Cons.prems(1), of c] Cons.prems(2) by auto
  with Cons.IH [OF s1(2)] Cons.prems(2) show ?case by (auto simp: act_defs)
qed (simp add: act_defs)

text \<open>The capabilities of a word, with or without a channel.\<close>

lemma word_capabilities:
  assumes "base_capability w"
  shows "makeAntiCapability w = Inr (mk_capability None True w)" "w = mk_capability None False w"
    "unAntiCapability (mk_capability None True w) = Inr w"
    "proper_capability w" "proper_capability (mk_capability None True w)" "isAntiCapability (mk_capability None True w)"
proof -
  have none: "channel_word None" by (simp add: channel_word_def)
  note mk = isChannelCapability_mk [OF none assms]
  show w: "w = mk_capability None False w" by (simp add: mk_capability_def)
  show "makeAntiCapability w = Inr (mk_capability None True w)"
    using mk(1-3) [of False] w [symmetric] by (simp add: makeAntiCapability_def) (simp add: mk_capability_def)
  show "unAntiCapability (mk_capability None True w) = Inr w"
    using mk(1-3) [of True] by (simp add: unAntiCapability_def) (simp add: mk_capability_def)
  show "isAntiCapability (mk_capability None True w)" using mk(3) by simp
  show "proper_capability w" "proper_capability (mk_capability None True w)"
    using none assms w unfolding proper_capability_def by blast+
qed

lemma channel_capabilities:
  assumes "base_capability w" "channel_word (Some ch)"
  shows "makeChannelCapability ch w = Inr (mk_capability (Some ch) False w)"
    "makeChannelCapability ch (mk_capability None True w) = Inr (mk_capability (Some ch) True w)"
    "unAntiCapability (mk_capability (Some ch) True w) = Inr (mk_capability (Some ch) False w)"
    "proper_capability (mk_capability (Some ch) anti w)" "isAntiCapability (mk_capability (Some ch) True w)"
proof -
  have none: "channel_word None" by (simp add: channel_word_def)
  note mk = isChannelCapability_mk [OF assms(2,1)]
  have w: "isCapability w" "isCapability (mk_capability None True w)"
    using isChannelCapability_mk(2) [OF none assms(1), of True] isChannelCapability_mk(2) [OF none assms(1), of False]
    by (simp_all add: mk_capability_def)
  show "makeChannelCapability ch w = Inr (mk_capability (Some ch) False w)"
    "makeChannelCapability ch (mk_capability None True w) = Inr (mk_capability (Some ch) True w)"
    using w assms(2) by (simp_all add: makeChannelCapability_def channel_word_def) (simp_all add: mk_capability_def)
  show "unAntiCapability (mk_capability (Some ch) True w) = Inr (mk_capability (Some ch) False w)"
    using mk(1-3) [of True] fromChannelCapability_mk [OF assms(2,1), of True]
    by (simp add: unAntiCapability_def) (simp add: mk_capability_def)
  show "isAntiCapability (mk_capability (Some ch) True w)" using mk(3) by simp
  show "proper_capability (mk_capability (Some ch) anti w)" using assms unfolding proper_capability_def by blast
qed

lemma find_map_mk: "find has (map (mk_capability ch True) ws) = map_option (mk_capability ch True) (find (\<lambda>w. has (mk_capability ch True w)) ws)"
  by (induction ws) auto

lemma find_member: "find P xs = Some x \<Longrightarrow> x \<in> set xs"
  by (auto simp: find_Some_iff)

text \<open>One stage of anticapabilities, for the bot or for a channel.\<close>

lemma denied_stage:
  assumes "answers cf prefix I has" "I s"
    and "\<And>w. w \<in> set ws \<Longrightarrow> proper_capability (mk_capability ch True w) \<and> isAntiCapability (mk_capability ch True w)
      \<and> unAntiCapability (mk_capability ch True w) = Inr (mk_capability ch False w)"
  shows "\<exists>s'. I s' \<and> bindA (first_denied cf prefix (map Inr (map (mk_capability ch True) ws))) (\<lambda>d. denied_or d rest) s
    = (case find (\<lambda>w. has (mk_capability ch True w)) ws of
         Some w \<Rightarrow> (Inr (DeniedFor (mk_capability ch False w)), s') | None \<Rightarrow> rest s')"
proof -
  have "\<forall>c \<in> set (map (mk_capability ch True) ws). proper_capability c \<and> isAntiCapability c" using assms(3) by auto
  from first_denied_finds [OF assms(1,2) this] obtain s' where
    s': "first_denied cf prefix (map Inr (map (mk_capability ch True) ws)) s = (Inr (find has (map (mk_capability ch True) ws)), s')" "I s'"
    by blast
  show ?thesis
  proof (cases "find (\<lambda>w. has (mk_capability ch True w)) ws")
    case None
    with s' show ?thesis unfolding bindA_def s'(1) find_map_mk by (auto simp: denied_or_def)
  next
    case (Some w)
    with assms(3) [OF find_member [OF Some]] s' show ?thesis
      unfolding bindA_def s'(1) find_map_mk by (auto simp: denied_or_def act_defs)
  qed
qed

lemma command_default_decides:
  assumes "answers cf prefix I has" "I s" "\<forall>c \<in> set caps. proper_capability c"
  shows "\<exists>s'. I s' \<and> command_default cf prefix allowed caps s
    = (Inr (if allowed \<or> (\<exists>c \<in> set caps. has c) then Allowed else Denied), s')"
  using any_capability_finds [OF assms] assms(2) by (auto simp: command_default_def act_defs)

lemma base_dot: "base_capability a \<Longrightarrow> base_capability b \<Longrightarrow> base_capability (a @ ''.'' @ b)"
  by (cases a) (auto simp: base_capability_def is_space_def)

definition channel_decision :: "(string \<Rightarrow> bool) \<Rightarrow> bool \<Rightarrow> string \<Rightarrow> string \<Rightarrow> string \<Rightarrow> command_access" where
  "channel_decision has allowed ch plugin command =
     (let both = plugin @ ''.'' @ command in
      case find (\<lambda>w. has (mk_capability (Some ch) True w)) [command, plugin, both] of
        Some w \<Rightarrow> DeniedFor (mk_capability (Some ch) False w)
      | None \<Rightarrow> if allowed \<or> has command \<or> has both \<or> (\<exists>w \<in> {plugin, command, both}. has (mk_capability (Some ch) False w))
                then Allowed else Denied)"

text \<open>The decision, from the answers to the questions: \<open>chan\<close> is the channel with its \<open>defaultAllow\<close>.\<close>

definition command_decision :: "(string \<Rightarrow> bool) \<Rightarrow> bool \<Rightarrow> (string \<times> bool) option \<Rightarrow> string \<Rightarrow> string \<Rightarrow> command_access" where
  "command_decision has allowed chan plugin command =
     (let both = plugin @ ''.'' @ command in
      case find (\<lambda>w. has (mk_capability None True w)) [plugin, command, both] of
        Some w \<Rightarrow> DeniedFor w
      | None \<Rightarrow> (case chan of
          None \<Rightarrow> if allowed \<or> has command \<or> has both then Allowed else Denied
        | Some (ch, allow) \<Rightarrow> channel_decision has (allowed \<and> allow) ch plugin command))"

lemma channel_command_decides:
  assumes ans: "answers cf prefix I has" "I s"
    and words: "base_capability p" "base_capability c" and ch: "channel_word (Some ch)"
    and allow: "\<And>s. I s \<Longrightarrow> \<exists>s'. with_channel ch (getA ic_defaultAllow) s = (Inr allow, s') \<and> I s'"
    and b: "b = p @ ''.'' @ c"
  shows "\<exists>s'. I s' \<and> channel_command cf prefix ch p c b (map (mk_capability None True) [c, p, b]) s
    = (Inr (channel_decision has (cf_default cf \<and> allow) ch p c), s')"
proof -
  have both: "base_capability b" unfolding b by (rule base_dot [OF words])
  note cs = channel_capabilities [OF words(1) ch] channel_capabilities [OF words(2) ch] channel_capabilities [OF both ch]
  note ws = word_capabilities(4) [OF words(1)] word_capabilities(4) [OF words(2)] word_capabilities(4) [OF both]
  let ?caps = "[c, b] @ map (mk_capability (Some ch) False) [c, p, b]"
  let ?rest = "bindA (with_channel ch (getA ic_defaultAllow)) (\<lambda>a. command_default cf prefix (cf_default cf \<and> a) ?caps)"
  have run: "channel_command cf prefix ch p c b (map (mk_capability None True) [c, p, b])
    = bindA (first_denied cf prefix (map Inr (map (mk_capability (Some ch) True) [c, p, b]))) (\<lambda>d. denied_or d ?rest)"
    unfolding channel_command_def using cs by (simp add: liftA_def bindA_def [of "\<lambda>s. (Inr _, s)"] del: first_denied.simps)
  have "\<And>w. w \<in> set [c, p, b] \<Longrightarrow> proper_capability (mk_capability (Some ch) True w) \<and> isAntiCapability (mk_capability (Some ch) True w)
      \<and> unAntiCapability (mk_capability (Some ch) True w) = Inr (mk_capability (Some ch) False w)" using cs by auto
  from denied_stage [OF ans this, where rest = ?rest] obtain s1 where s1: "I s1"
    "channel_command cf prefix ch p c b (map (mk_capability None True) [c, p, b]) s
      = (case find (\<lambda>w. has (mk_capability (Some ch) True w)) [c, p, b] of
           Some w \<Rightarrow> (Inr (DeniedFor (mk_capability (Some ch) False w)), s1) | None \<Rightarrow> ?rest s1)"
    unfolding run by blast
  obtain s2 where s2: "with_channel ch (getA ic_defaultAllow) s1 = (Inr allow, s2)" "I s2" using allow [OF s1(1)] by blast
  have "\<forall>x \<in> set ?caps. proper_capability x" using ws cs by auto
  from command_default_decides [OF ans(1) s2(2) this, of "cf_default cf \<and> allow"] obtain s3 where
    "I s3" "?rest s1 = (Inr (if (cf_default cf \<and> allow) \<or> (\<exists>x \<in> set ?caps. has x) then Allowed else Denied), s3)"
    using s2(1) by (auto simp: bindA_def)
  with s1 show ?thesis
    unfolding channel_decision_def Let_def b [symmetric]
    by (cases "find (\<lambda>w. has (mk_capability (Some ch) True w)) [c, p, b]") auto
qed

text \<open>
  C12: Whether a command may be called is decided in this order: an anticapability of the plugin, of the command or of
  both forbids it; then, in a channel, one of that channel does; then the defaults, of the bot and of the channel,
  allow it; else the sender needs the capability of the command or of the command in the plugin, or the channel's for
  one of the three.  Nothing is raised.
\<close>

theorem command_access_exact:
  assumes ans: "answers cf (im_prefix msg) I has" "I s"
    and words: "base_capability (py_lower plugin)" "base_capability command"
    and target: "msg_arg msg 0 = Inr target" "isChannel target \<Longrightarrow> channel_word (Some target)"
    and allow: "\<And>s. I s \<Longrightarrow> isChannel target \<Longrightarrow> \<exists>s'. with_channel target (getA ic_defaultAllow) s = (Inr allow, s') \<and> I s'"
  shows "\<exists>s'. I s' \<and> checkCommandCapability cf msg plugin command s
    = (Inr (command_decision has (cf_default cf) (if isChannel target then Some (target, allow) else None) (py_lower plugin) command), s')"
proof -
  define p where "p = py_lower plugin"
  define b where "b = p @ ''.'' @ command"
  have p: "base_capability p" using words(1) by (simp add: p_def)
  have both: "base_capability b" unfolding b_def by (rule base_dot [OF p words(2)])
  note w = word_capabilities [OF p] word_capabilities [OF words(2)] word_capabilities [OF both]
  let ?prefix = "im_prefix msg"
  let ?rest = "if isChannel target then channel_command cf ?prefix target p command b (map (mk_capability None True) [command, p, b])
    else command_default cf ?prefix (cf_default cf) [command, b]"
  have run: "checkCommandCapability cf msg plugin command
    = bindA (first_denied cf ?prefix (map Inr (map (mk_capability None True) [p, command, b]))) (\<lambda>d. denied_or d ?rest)"
    unfolding checkCommandCapability_def Let_def p_def [symmetric] b_def [symmetric] using w target(1)
    by (simp add: liftA_def bindA_def [of "\<lambda>s. (Inr _, s)"] del: first_denied.simps)
  have "\<And>v. v \<in> set [p, command, b] \<Longrightarrow> proper_capability (mk_capability None True v) \<and> isAntiCapability (mk_capability None True v)
      \<and> unAntiCapability (mk_capability None True v) = Inr (mk_capability None False v)" using w by auto
  from denied_stage [OF ans this, where rest = ?rest] obtain s1 where s1: "I s1"
    "checkCommandCapability cf msg plugin command s = (case find (\<lambda>v. has (mk_capability None True v)) [p, command, b] of
       Some v \<Rightarrow> (Inr (DeniedFor (mk_capability None False v)), s1) | None \<Rightarrow> ?rest s1)" unfolding run by blast
  have "\<forall>c \<in> set [command, b]. proper_capability c" using w by auto
  then have "\<exists>s2. I s2 \<and> ?rest s1 = (Inr (if isChannel target then channel_decision has (cf_default cf \<and> allow) target p command
      else if cf_default cf \<or> has command \<or> has b then Allowed else Denied), s2)"
    using channel_command_decides [OF ans(1) s1(1) p words(2) target(2) allow b_def]
      command_default_decides [OF ans(1) s1(1), of "[command, b]" "cf_default cf"] by auto
  then obtain s2 where "I s2" "?rest s1 = (Inr (if isChannel target then channel_decision has (cf_default cf \<and> allow) target p command
      else if cf_default cf \<or> has command \<or> has b then Allowed else Denied), s2)" by blast
  moreover have "mk_capability None False v = v" for v by (simp add: mk_capability_def)
  ultimately show ?thesis
    using s1 unfolding command_decision_def Let_def p_def [symmetric] b_def [symmetric]
    by (cases "find (\<lambda>v. has (mk_capability None True v)) [p, command, b]") auto
qed

text \<open>An owner, who has every capability and no anticapability, may call everything.\<close>

lemma owner_decision:
  assumes "base_capability plugin" "base_capability command" "\<And>ch allow. chan = Some (ch, allow) \<Longrightarrow> channel_word (Some ch)"
  shows "command_decision (\<lambda>c. \<not> isAntiCapability c) allowed chan plugin command = Allowed"
proof -
  note w = word_capabilities(2,6) [OF assms(1)] word_capabilities(2,6) [OF assms(2)] word_capabilities(2,6) [OF base_dot [OF assms(1,2)]]
  have "\<not> isAntiCapability command"
    using isChannelCapability_mk(3) [OF _ assms(2), of None False] w(3) by (simp add: channel_word_def)
  moreover have "\<not> (\<not> isAntiCapability (mk_capability (Some ch) True v))" if "chan = Some (ch, allow)" "base_capability v" for ch allow v
    using channel_capabilities(5) [OF that(2) assms(3) [OF that(1)]] by simp
  ultimately show ?thesis
    using w assms base_dot [OF assms(1,2)] by (auto simp: command_decision_def channel_decision_def Let_def split: option.split)
qed

definition owner_message :: IrcMsg where
  "owner_message = \<lparr>im_prefix = ''boss!boss@host.example'', im_command = ''PRIVMSG'', im_args = [''bot'', ''join''],
     im_nick = ''boss'', im_user = ''boss'', im_host = ''host.example'', im_str = None, im_tags = []\<rparr>"

lemma command_access_exact_witness:
  "\<exists>s s'. checkCommandCapability sample_conf owner_message ''Admin'' ''join'' s = (Inr Allowed, s')"
proof -
  let ?u = "(sample_user 1 ''boss'' [''*!boss@*.example''])\<lparr>iu_capabilities := [''owner'']\<rparr>"
  let ?h = "im_prefix owner_message"
  define s where "s = snd (account_of sample_conf ?h owner_access)"
  have "inverse_of ''owner'' \<noteq> ''owner''" using owner_proper by auto
  then have u: "UserCapabilitySet_ok (iu_capabilities ?u)" "''owner'' \<in> set (iu_capabilities ?u)" "\<not> iu_ignore ?u"
    using owner_proper by (simp_all add: sample_user_def UserCapabilitySet_ok_def CapabilitySet_ok_def)
  have "account_of sample_conf ?h s = (Inr (Some ?u), s)" unfolding s_def by code_simp
  moreover have "\<not> cf_testing sample_conf" by (simp add: sample_conf_def)
  ultimately have "checkCapability sample_conf ?h c s = (Inr (\<not> isAntiCapability c), s)" if "proper_capability c" for c
    using owner_answers(2) [OF u that] by blast
  then have ans: "answers sample_conf ?h (\<lambda>t. t = s) (\<lambda>c. \<not> isAntiCapability c)" by (auto simp: answers_def)
  have words: "base_capability (py_lower ''Admin'')" "base_capability ''join''" by code_simp+
  have no_chan: "\<not> isChannel ''bot''" by code_simp
  have "msg_arg owner_message 0 = Inr ''bot''" by code_simp
  from command_access_exact [OF ans refl words this] no_chan
  obtain s' where "checkCommandCapability sample_conf owner_message ''Admin'' ''join'' s
      = (Inr (command_decision (\<lambda>c. \<not> isAntiCapability c) (cf_default sample_conf) None (py_lower ''Admin'') ''join''), s')" by auto
  with owner_decision [OF words, of None "cf_default sample_conf"] show ?thesis by auto
qed

end
