(* ===== verification/CommandCalls.thy ===== *)
theory CommandCalls
  imports Tokenizer CommandAccess
begin

text \<open>
  Calling commands: \<open>Commands._callCommand\<close> and \<open>NestedCommandsIrcProxy\<close> of \<open>callbacks.py\<close>.  A proxy evaluates the
  arguments of one command line; for a nested command it makes another proxy, whose reply becomes the argument.

  A command is the code of a plugin: \<open>cw_method\<close> says which replies and errors the method makes on given arguments, in
  order, and the exception it ends with.  Commands run at once, none in a thread of its own.  A proxy is reached only
  from the proxies nested in it, so the state is the chain of proxies from the innermost outwards; behind the last
  one is the \<open>Irc\<close> object, and what it is given is the output.
\<close>

section \<open>One command\<close>

datatype event = ReplyWith string | ErrorWith string

datatype cmd_exn = ArgumentErr | ErrorExn string | OtherExn string

record command_world =
  cw_dispatch :: dispatch_conf
  cw_disabled :: disabled_commands
  cw_loaded :: "plugin list"
  cw_access :: "plugin \<Rightarrow> string \<Rightarrow> command_access"
  cw_method :: "plugin \<Rightarrow> string \<Rightarrow> string list \<Rightarrow> event list \<times> cmd_exn option"
  cw_invalidCommands :: "(string list \<Rightarrow> event list \<times> cmd_exn option) list"
  cw_help :: "string list \<Rightarrow> string"
  cw_detailed :: bool
  cw_errorText :: string
  cw_hideNoCapability :: bool
  cw_noCapability :: "command_access \<Rightarrow> string"
  cw_ambiguous :: "string list \<Rightarrow> plugin list \<Rightarrow> string"
  cw_tooNested :: string
  cw_maximum :: nat
  cw_maximumLength :: nat

text \<open>
  \<open>errorNoCapability\<close> raises \<open>Error\<close>, which \<open>_callCommand\<close> turns into an error reply; a capability by name may be
  configured to stay unmentioned.
\<close>

definition errorNoCapability :: "command_world \<Rightarrow> command_access \<Rightarrow> event list" where
  "errorNoCapability cw cap = (case cap of
      DeniedFor _ \<Rightarrow> if cw_hideNoCapability cw then [] else [ErrorWith (cw_noCapability cw cap)]
    | _ \<Rightarrow> [ErrorWith (cw_noCapability cw cap)])"

text \<open>The handlers at the end of \<open>_callCommand\<close>; \<open>replyError\<close> is a reply.\<close>

definition exn_events :: "command_world \<Rightarrow> string list \<Rightarrow> cmd_exn option \<Rightarrow> event list" where
  "exn_events cw command exn = (case exn of
      None \<Rightarrow> []
    | Some ArgumentErr \<Rightarrow> [ReplyWith (cw_help cw command)]
    | Some (ErrorExn s) \<Rightarrow> if s = [] then [] else [ErrorWith s]
    | Some (OtherExn s) \<Rightarrow> if cw_detailed cw then [ErrorWith s] else [ReplyWith (cw_errorText cw)])"

definition callCommand_events :: "command_world \<Rightarrow> string list \<Rightarrow> plugin \<Rightarrow> string list \<Rightarrow> event list" where
  "callCommand_events cw command cb args =
     (case find (\<lambda>a. a \<noteq> Allowed) (map (cw_access cw cb) command) of
        Some cap \<Rightarrow> errorNoCapability cw cap
      | None \<Rightarrow>
         (case Commands_getCommandMethod (cw_disabled cw) cb command of
            Inr (Some (q, name)) \<Rightarrow> (case cw_method cw q name args of (events, exn) \<Rightarrow> events @ exn_events cw command exn)
          | Inr None \<Rightarrow> exn_events cw command (Some (OtherExn ''TypeError''))
          | Inl _ \<Rightarrow> exn_events cw command (Some (OtherExn ''AssertionError''))))"

text \<open>
  \<open>_callInvalidCommands\<close>: the plugins' handlers in turn, until one has replied.  An error without a text raises
  \<open>ArgumentError\<close> out of the loop.
\<close>

fun invalid_events :: "(string list \<Rightarrow> event list \<times> cmd_exn option) list \<Rightarrow> string list \<Rightarrow> event list" where
  "invalid_events [] args = []"
| "invalid_events (handler # handlers) args =
     (case handler args of (events, exn) \<Rightarrow>
       (case exn of
          Some (ErrorExn s) \<Rightarrow> events @ (if s = [] then [] else [ErrorWith s])
        | Some ArgumentErr \<Rightarrow> events
        | _ \<Rightarrow> if events \<noteq> [] then events else invalid_events handlers args))"

definition callInvalidCommands_events :: "command_world \<Rightarrow> string list \<Rightarrow> event list" where
  "callInvalidCommands_events cw args = invalid_events (cw_invalidCommands cw) args"

text \<open>\<open>finalEval\<close>: what the command line of words makes its proxy do.\<close>

definition final_events :: "command_world \<Rightarrow> string list \<Rightarrow> event list" where
  "final_events cw args =
     (case findCallbacksForArgs (cw_dispatch cw) (cw_disabled cw) (cw_loaded cw) args of
        Inr (command, []) \<Rightarrow> callInvalidCommands_events cw args
      | Inr (command, [cb]) \<Rightarrow> callCommand_events cw command cb (drop (length command) args)
      | Inr (command, cbs) \<Rightarrow> [ErrorWith (cw_ambiguous cw command cbs)]
      | Inl _ \<Rightarrow> [])"

section \<open>The proxies\<close>

record proxy =
  px_args :: "cmd list"
  px_counter :: nat
  px_final :: bool

definition new_proxy :: "cmd list \<Rightarrow> proxy" where
  "new_proxy args = \<lparr>px_args = args, px_counter = 0, px_final = (args = [])\<rparr>"

fun word_of :: "cmd \<Rightarrow> string" where
  "word_of (Word w) = w"
| "word_of (Nested _) = []"

text \<open>
  The result of a call is the output it makes and the proxies as they are afterwards.  The number bounds the calls
  nested in each other and the rounds of the loops; \<open>None\<close>: it was too small.

  \<open>px_eval\<close> is \<open>evalArgs\<close>, \<open>px_new\<close> the constructor, \<open>px_perform\<close> a running command that talks to its proxy, and
  \<open>px_reply\<close> the method \<open>reply\<close> of the innermost proxy.
\<close>

type_synonym outcome = "(event list \<times> proxy list) option"

definition prepend :: "event list \<Rightarrow> outcome \<Rightarrow> outcome" where
  "prepend out r = map_option (\<lambda>(out', chain). (out @ out', chain)) r"

fun px_eval :: "command_world \<Rightarrow> nat \<Rightarrow> proxy list \<Rightarrow> outcome"
  and px_new :: "command_world \<Rightarrow> nat \<Rightarrow> cmd list \<Rightarrow> proxy list \<Rightarrow> outcome"
  and px_perform :: "command_world \<Rightarrow> nat \<Rightarrow> event list \<Rightarrow> proxy list \<Rightarrow> outcome"
  and px_reply :: "command_world \<Rightarrow> nat \<Rightarrow> string \<Rightarrow> proxy list \<Rightarrow> outcome" where
  "px_eval cw (Suc n) (p # chain) =
     (if px_counter p < length (px_args p) then
        (case px_args p ! px_counter p of
           Word _ \<Rightarrow> px_eval cw n (p\<lparr>px_counter := px_counter p + 1\<rparr> # chain)
         | Nested args \<Rightarrow> px_new cw n args (p # chain))
      else px_perform cw n (final_events cw (map word_of (px_args p))) (p\<lparr>px_final := True\<rparr> # chain))"
| "px_eval cw _ _ = None"
| "px_new cw (Suc n) args chain =
     (if cw_maximum cw \<noteq> 0 \<and> length chain > cw_maximum cw then Some ([ErrorWith (cw_tooNested cw)], chain)
      else map_option (\<lambda>(out, chain'). (out, tl chain'))
        (if args = [] then px_perform cw n (callInvalidCommands_events cw []) (new_proxy args # chain)
         else px_eval cw n (new_proxy args # chain)))"
| "px_new cw 0 _ _ = None"
| "px_perform cw (Suc n) [] chain = Some ([], chain)"
| "px_perform cw (Suc n) (ErrorWith s # events) chain = prepend [ErrorWith s] (px_perform cw n events chain)"
| "px_perform cw (Suc n) (ReplyWith s # events) chain =
     (case px_reply cw n s chain of
        None \<Rightarrow> None
      | Some (out, chain') \<Rightarrow> prepend out (px_perform cw n events chain'))"
| "px_perform cw 0 _ _ = None"
| "px_reply cw (Suc n) s (p # chain) =
     (if px_final p then
        map_option (\<lambda>(out, chain'). (out, p # chain'))
          (px_reply cw n (if chain = [] then s else take (cw_maximumLength cw) s) chain)
      else px_eval cw n (p\<lparr>px_args := (px_args p)[px_counter p := Word s]\<rparr> # chain))"
| "px_reply cw (Suc n) s [] = Some ([ReplyWith s], [])"
| "px_reply cw 0 _ _ = None"

text \<open>A command line from the user: the outermost proxy, made on the \<open>Irc\<close> object.\<close>

definition run_line :: "command_world \<Rightarrow> nat \<Rightarrow> cmd list \<Rightarrow> event list option" where
  "run_line cw n args = map_option fst (px_new cw n args [])"

end
