(* ===== verification/AddressingLaws.thy ===== *)
theory AddressingLaws
  imports Addressing
begin

text \<open>
  What \<open>canonicalName\<close>, \<open>addressed\<close> and \<open>reply\<close> promise.
\<close>

section \<open>Names of commands\<close>

lemma lower_special: "lower_char c \<in> set name_special \<longleftrightarrow> c \<in> set name_special"
  by (auto simp: name_special_def ord_eq_iff ord_lower_char is_upper_def split: if_splits)

lemma takeWhile_special: "takeWhile P (takeWhile P xs @ ys) = takeWhile P xs @ takeWhile P ys"
  by (induction xs) auto

text \<open>Canonical names are fixed; two spellings of one command differ in case, dashes and underscores only.\<close>

lemma canonicalName_idempotent [simp]: "canonicalName (canonicalName s) = canonicalName s"
proof -
  let ?S = "\<lambda>c. c \<in> set name_special"
  define suffix where "suffix = takeWhile ?S (rev s)"
  define body where "body = py_lower (filter (\<lambda>c. \<not> ?S c) (rev (dropWhile ?S (rev s))))"
  have body: "\<forall>c \<in> set body. \<not> ?S c" by (auto simp: body_def py_lower_def lower_special)
  have c: "canonicalName s = body @ rev suffix" by (simp add: canonicalName_def body_def suffix_def)
  have all: "\<forall>c \<in> set suffix. ?S c" by (auto simp: suffix_def dest: set_takeWhileD)
  then have "takeWhile ?S (suffix @ rev body) = suffix" "dropWhile ?S (suffix @ rev body) = rev body"
    using body by (cases "rev body"; auto simp: takeWhile_append2 dropWhile_append2)+
  moreover have "filter (\<lambda>c. \<not> ?S c) body = body" using body by (simp add: filter_id_conv)
  moreover have "py_lower body = body" by (simp add: body_def)
  ultimately show ?thesis unfolding c canonicalName_def [of "body @ rev suffix"] by (simp add: Let_def)
qed

section \<open>Being addressed\<close>

definition callable_nick :: "string \<Rightarrow> bool" where
  "callable_nick nick \<longleftrightarrow> no_space nick \<and> (\<exists>c \<in> set nick. is_alnum c)"

lemma shorten_answers: "\<exists>c \<in> set w. is_alnum c \<Longrightarrow> \<exists>r. shorten_to_nick w = Inr r"
proof (induction w rule: shorten_to_nick.induct)
  case (1 w)
  show ?case
  proof (cases "isNick w \<or> is_alnum (List.last w)")
    case True
    with "1.prems" show ?thesis by (subst shorten_to_nick.simps) auto
  next
    case False
    obtain v c where w: "w = v @ [c]" using "1.prems" by (cases w rule: rev_cases) auto
    with False "1.prems" have "\<exists>c \<in> set (butlast w). is_alnum c" by auto
    from "1.IH" [OF _ _ _ this] False w have "\<exists>r. shorten_to_nick v = Inr r" by simp
    with False w show ?thesis by (subst shorten_to_nick.simps) simp
  qed
qed

lemma is_space_rfc1459 [simp]: "is_space (rfc1459_char c) = is_space c"
  by (auto simp: rfc1459_char_def is_space_def ord_eq_iff ord_lower_char is_upper_def split: if_splits)

lemma is_alnum_rfc1459: "is_alnum (rfc1459_char c) = is_alnum c"
  by (auto simp: rfc1459_char_def is_alnum_def is_alpha_def is_digit_def is_upper_def is_lower_def ord_lower_char split: if_splits)

lemma callable_toLower: "callable_nick (toLower nick) = callable_nick nick"
  by (auto simp: callable_nick_def toLower_def is_alnum_rfc1459)

lemma called_first_answers:
  assumes "callable_nick nick" "startswith (toLower payload) nick"
  shows "\<exists>r. called_first payload nick = Inr r"
proof -
  define p where "p = take (length nick) payload"
  have p: "map rfc1459_char p = nick" using assms(2) by (simp add: startswith_def toLower_def p_def take_map)
  have p_ok: "no_space p" "\<exists>c \<in> set p. is_alnum c"
    using assms(1) unfolding callable_nick_def p [symmetric] by (auto simp: is_alnum_rfc1459)
  have pay: "payload = p @ drop (length nick) payload" by (simp add: p_def)
  have "skip_ws payload = payload"
    using p_ok skip_ws_no_space [of p "drop (length nick) payload"] unfolding pay [symmetric] by (cases p) auto
  then obtain r where "takeWhile (\<lambda>c. \<not> is_space c) (skip_ws payload) = p @ r"
    using p_ok(1) by (metis pay takeWhile_append2)
  then have "set p \<subseteq> set (takeWhile (\<lambda>c. \<not> is_space c) (skip_ws payload))" by simp
  then have "\<exists>c \<in> set w. is_alnum c" if "split_ws1 payload = [w, rest]" for w rest
  proof -
    have "w = takeWhile (\<lambda>c. \<not> is_space c) (skip_ws payload)"
      using that by (auto simp: split_ws1_def Let_def split: if_splits)
    with \<open>set p \<subseteq> _\<close> p_ok(2) show ?thesis by blast
  qed
  note word = this
  show ?thesis
  proof (cases "\<exists>w rest. split_ws1 payload = [w, rest]")
    case True
    then obtain w rest where w: "split_ws1 payload = [w, rest]" by blast
    obtain r where "shorten_to_nick w = Inr r" using shorten_answers [OF word [OF w]] ..
    with w show ?thesis by (cases r) (simp_all add: called_first_def)
  next
    case False
    then have "called_first payload nick = Inr None" by (simp add: called_first_def split: list.split)
    then show ?thesis ..
  qed
qed

lemma called_by_nick_answers:
  "\<forall>n \<in> set nicks. callable_nick n \<Longrightarrow> \<exists>r. called_by_nick payload atEnd nicks = Inr r"
proof (induction nicks)
  case (Cons n nicks)
  then obtain r where rest: "called_by_nick payload atEnd nicks = Inr r" by auto
  show ?case
  proof (cases "startswith (toLower payload) n")
    case True
    then obtain x where "called_first payload n = Inr x" using called_first_answers [of n payload] Cons.prems by auto
    with True rest show ?thesis by (cases x) simp_all
  qed (use rest in \<open>auto split: option.split\<close>)
qed simp

text \<open>
  C22: When the bot's nicks each have a letter or digit and no blank, \<open>_addressed\<close> answers every PRIVMSG; a nick of
  punctuation alone, such as the configured nick \<open>!!\<close>, lets a message that starts with it raise IndexError.
\<close>

theorem addressed_answers:
  assumes "im_command msg = ''PRIVMSG''" "im_args msg = [target, payload]" "callable_nick nick"
    "\<forall>n \<in> set (case aa_nicks kw of Some l \<Rightarrow> l | None \<Rightarrow> conf_get (ad_nicks cf) (Some target)). callable_nick n"
  shows "(\<exists>s. u_addressed cf kw nick msg = Inr s)
    \<and> u_addressed cf (kw\<lparr>aa_nicks := Some [''!!''], aa_byNick := Some True, aa_prefixStrings := Some [], aa_prefixChars := Some []\<rparr>) ''bot''
        (msg\<lparr>im_args := [''#c'', ''!! hi'']\<rparr>) = Inl IndexError"
proof
  define nicks where "nicks = toLower nick # (case aa_nicks kw of
      Some l \<Rightarrow> l | None \<Rightarrow> map toLower (conf_get (ad_nicks cf) (Some target)))"
  have "\<forall>n \<in> set nicks. callable_nick n"
    using assms(3,4) by (auto simp: nicks_def callable_toLower split: option.splits)
  then obtain r where "called_by_nick payload atEnd nicks = Inr (r atEnd)" for atEnd
    using called_by_nick_answers by metis
  with assms(1,2) show "\<exists>s. u_addressed cf kw nick msg = Inr s"
    unfolding u_addressed_def by (simp add: Let_def nicks_def [symmetric])
next
  have s: "shorten_to_nick ''!!'' = Inl IndexError"
    by (simp add: shorten_to_nick.simps isNick_with_def nickRe_match_def endswith_def Let_def nick_first_def nickchars_def
        is_alnum_def is_alpha_def is_digit_def is_upper_def is_lower_def)
  have "split_ws1 ''!! hi'' = [''!!'', ''hi'']" by code_simp
  then have f: "called_first ''!! hi'' ''!!'' = Inl IndexError" by (simp add: called_first_def s)
  have "\<not> strEqual ''#c'' ''bot''" "\<not> startswith (toLower ''!! hi'') (toLower ''bot'')" "\<not> endswith (toLower ''!! hi'') (toLower ''bot'')"
    "startswith (toLower ''!! hi'') ''!!''" by code_simp+
  with assms(1) f show "u_addressed cf (kw\<lparr>aa_nicks := Some [''!!''], aa_byNick := Some True, aa_prefixStrings := Some [], aa_prefixChars := Some []\<rparr>) ''bot''
        (msg\<lparr>im_args := [''#c'', ''!! hi'']\<rparr>) = Inl IndexError"
    by (simp add: u_addressed_def Let_def)
qed

definition sample_addr :: addr_conf where
  "sample_addr = \<lparr>ad_chars = (\<lambda>_. ''!''), ad_nick = (\<lambda>_. True), ad_atEnd = (\<lambda>_. True), ad_strings = (\<lambda>_. []),
     ad_nicks = (\<lambda>_. [''robot'']), ad_whenNotAddressed = False\<rparr>"

definition no_args :: addr_args where
  "no_args = \<lparr>aa_prefixChars = None, aa_nicks = None, aa_prefixStrings = None, aa_byNick = None, aa_atEnd = None\<rparr>"

definition sample_privmsg :: "string \<Rightarrow> string \<Rightarrow> IrcMsg" where
  "sample_privmsg target payload = \<lparr>im_prefix = ''al!u@h'', im_command = ''PRIVMSG'', im_args = [target, payload],
     im_nick = ''al'', im_user = ''u'', im_host = ''h'', im_str = None, im_tags = []\<rparr>"

lemma addressed_answers_witness: "\<exists>s. u_addressed sample_addr no_args ''bot'' (sample_privmsg ''#c'' ''bot: list'') = Inr s"
  using addressed_answers [where msg = "sample_privmsg ''#c'' ''bot: list''" and target = "''#c''" and payload = "''bot: list''" and nick = "''bot''"
      and kw = no_args and cf = sample_addr]
  by (simp add: sample_privmsg_def sample_addr_def no_args_def conf_get_def callable_nick_def is_alnum_def is_alpha_def
      is_lower_def is_upper_def is_space_def)

text \<open>
  A message in a channel that starts with the bot's nick, in any case, a colon or a comma and a blank, is
  understood as the rest of the line, whatever the rest is, provided no prefix string or character matches first.
\<close>

theorem addressed_by_name:
  assumes "im_command msg = ''PRIVMSG''" "im_args msg = [target, n @ [sep] @ '' '' @ rest]"
    and nick: "isNick n" "no_space n" "strEqual n nick" "sep \<in> set '':,''" "\<not> strEqual target nick"
    and rest: "rest \<noteq> []" "\<not> is_space (hd rest)"
    and cf: "aa_prefixStrings kw = Some []" "aa_prefixChars kw = Some chars" "hd n \<notin> set chars" "aa_byNick kw = Some True"
  shows "u_addressed cf kw nick msg = Inr rest"
proof -
  let ?w = "n @ [sep]"
  have n: "n \<noteq> []" using nick(1) by (auto simp: isNick_with_def nickRe_match_def endswith_def Let_def)
  have sep: "\<not> is_space sep" "\<not> is_alnum sep" "\<not> nick_rest sep" "sep \<noteq> CHR 0x0A"
    using nick(4) by (auto simp: is_space_def is_alnum_def is_alpha_def is_digit_def is_upper_def is_lower_def nick_rest_def nick_first_def nickchars_def)
  have "\<not> isNick ?w" using n sep by (cases n) (auto simp: isNick_with_def nickRe_match_def Let_def endswith_def)
  then have "shorten_to_nick ?w = shorten_to_nick n" using sep by (subst shorten_to_nick.simps) simp
  also have "\<dots> = Inr (Some n)" using nick(1) by (subst shorten_to_nick.simps) simp
  finally have short: "shorten_to_nick ?w = Inr (Some n)" .
  have "split_ws1 (?w @ CHR '' '' # rest) = [?w, rest]"
    using nick(2) sep(1) rest by (intro split_ws1_word(2)) (auto simp: is_space_def)
  then have "called_first (n @ [sep] @ '' '' @ rest) (toLower nick) = Inr (Some rest)"
    using short nick(3) by (simp add: called_first_def strEqual_def toLower_def comp_def)
  moreover have "startswith (toLower (n @ [sep] @ '' '' @ rest)) (toLower nick)"
    using nick(3) by (simp add: startswith_def strEqual_def toLower_def)
  ultimately show ?thesis
    using assms(1,2) cf n nick(5) by (simp add: u_addressed_def Let_def)
qed

lemma addressed_by_name_witness:
  "u_addressed sample_addr (no_args\<lparr>aa_prefixStrings := Some [], aa_prefixChars := Some ''!'', aa_byNick := Some True\<rparr>) ''bot''
     (sample_privmsg ''#c'' ''BoT, list all'') = Inr ''list all''"
  by (rule addressed_by_name [where msg = "sample_privmsg ''#c'' ''BoT, list all''" and target = "''#c''" and n = "''BoT''" and sep = "CHR '',''"
      and rest = "''list all''" and nick = "''bot''" and chars = "''!''" and cf = sample_addr
      and kw = "no_args\<lparr>aa_prefixStrings := Some [], aa_prefixChars := Some ''!'', aa_byNick := Some True\<rparr>"]) code_simp+

section \<open>Replies\<close>

lemma reply_text_nonempty: "\<not> ra_action kw \<Longrightarrow> reply_text pl kw s \<noteq> []"
  by (simp add: reply_text_def Let_def)

lemma replyE:
  assumes "reply cf msg s kw = Inr (m, msg')"
  obtains pl where "plan_reply cf msg kw = Inr pl" "im_prefix m = []" "msg' = IrcMsg_tag ''repliedTo'' TTrue msg"
    "im_command m = (if \<not> ra_action kw \<and> pl_notice pl then ''NOTICE'' else ''PRIVMSG'')"
    "im_args m = [pl_target pl, if ra_action kw then CHR 0x01 # ''ACTION '' @ reply_text pl kw s @ [CHR 0x01] else reply_text pl kw s]"
    "\<forall>a \<in> set (im_args m). isValidArgument a"
proof -
  obtain pl where pl: "plan_reply cf msg kw = Inr pl" using assms by (auto simp: reply_def)
  let ?text = "if ra_action kw then CHR 0x01 # ''ACTION '' @ reply_text pl kw s @ [CHR 0x01] else reply_text pl kw s"
  let ?command = "if \<not> ra_action kw \<and> pl_notice pl then ''NOTICE'' else ''PRIVMSG''"
  have "IrcMsg_kw [] ?command [pl_target pl, ?text] None = Inr m" and m': "msg' = IrcMsg_tag ''repliedTo'' TTrue msg"
    using assms pl
    by (auto simp: reply_def action_msg_def notice_msg_def privmsg_msg_def msg_prefix_def split: if_splits)
  from IrcMsg_kw_fields [OF this(1)] m' show ?thesis by (intro that [OF pl]) simp_all
qed


definition sample_reply :: reply_conf where
  "sample_reply = \<lparr>rp_withNotice = (\<lambda>_. False), rp_inPrivate = (\<lambda>_. False), rp_withNickPrefix = (\<lambda>_. True),
     rp_errorWithNotice = (\<lambda>_. False), rp_errorInPrivate = (\<lambda>_. False), rp_withNoticeWhenPrivate = True, rp_strictRfc = True\<rparr>"

definition plain_reply :: reply_args where
  "plain_reply = \<lparr>ra_prefixNick = None, ra_private = None, ra_notice = None, ra_to = None, ra_action = False, ra_error = False\<rparr>"


end
