(* ===== verification/DispatchLaws.thy ===== *)
theory DispatchLaws
  imports Dispatch AddressingLaws
begin

text \<open>
  The laws of the dispatch of commands: what a plugin finds it can call, the choice among the plugins, and what
  disabling does.
\<close>

section \<open>One plugin\<close>

lemma getCommand_facts:
  "Commands_getCommand d p args = Inr l \<Longrightarrow> args = map canonicalName args \<and> take (length l) args = l
    \<and> (l \<noteq> [] \<longrightarrow> Commands_getCommand d p l = Inr l)"
proof (induction d p args arbitrary: l rule: Commands_getCommand.induct)
  case (1 d p args)
  show ?case
  proof (cases args)
    case Nil
    with "1.prems" show ?thesis by (subst (asm) Commands_getCommand.simps) simp
  next
    case (Cons first rest)
    have can: "args = map canonicalName args"
      using "1.prems" by (subst (asm) Commands_getCommand.simps) (simp split: if_splits)
    show ?thesis
    proof (cases "nested_named p first")
      case (Some cb)
      then have sub: "Commands_getCommand d cb args = Inr l"
        using "1.prems" Cons can by (subst (asm) Commands_getCommand.simps) simp
      from "1.IH"(2) [OF Cons Some sub] have ih: "take (length l) args = l" "l \<noteq> [] \<longrightarrow> Commands_getCommand d cb l = Inr l"
        by simp_all
      have "Commands_getCommand d p l = Inr l" if nonempty: "l \<noteq> []"
      proof -
        obtain l' where l': "l = first # l'" using nonempty ih(1) Cons by (cases l) auto
        have "map canonicalName l = l" using ih(1) can by (metis take_map)
        with Some l' ih(2) show ?thesis by (subst Commands_getCommand.simps) simp
      qed
      with can ih(1) show ?thesis by blast
    next
      case None
      note step = "1.prems" [unfolded Commands_getCommand.simps [of d p args]]
      obtain ret where ret: "(if first = Commands_canonicalName p \<and> rest \<noteq> [] then Commands_getCommand d p rest else Inr []) = Inr ret"
        "l = (if ret \<noteq> [] then first # ret else if Commands_isCommandMethod d p first then [first] else [])"
        using step can Cons None by auto
      show ?thesis
      proof (cases "ret = []")
        case True
        have "Commands_getCommand d p [first] = Inr [first]" if "Commands_isCommandMethod d p first"
          using that can Cons None by (subst Commands_getCommand.simps) simp
        with ret(2) True can Cons show ?thesis by auto
      next
        case False
        with ret(1) have own: "first = Commands_canonicalName p" "rest \<noteq> []" "Commands_getCommand d p rest = Inr ret"
          by (auto split: if_splits)
        from "1.IH"(1) [OF Cons None _ own(3)] own False
        have ih: "take (length ret) rest = ret" "Commands_getCommand d p ret = Inr ret" by simp_all
        have "map canonicalName (first # ret) = first # ret" using can Cons ih(1) by (metis list.sel(3) list.simps(9) take_map list.inject)
        then have "Commands_getCommand d p (first # ret) = Inr (first # ret)"
          using own(1) None ih(2) False by (subst Commands_getCommand.simps) simp
        with ret(2) False Cons ih(1) can show ?thesis by simp
      qed
    qed
  qed
qed

text \<open>A plugin and everything nested in it.\<close>

fun plugin_parts :: "plugin \<Rightarrow> plugin list" where
  "plugin_parts (PluginObj name attrs cbs) = PluginObj name attrs cbs # concat (map plugin_parts cbs)"

lemma plugin_parts_refl: "p \<in> set (plugin_parts p)"
  by (cases p) simp

lemma plugin_parts_nested: "q \<in> set (plugin_parts cb) \<Longrightarrow> nested_named p name = Some cb \<Longrightarrow> q \<in> set (plugin_parts p)"
  by (cases p) (auto simp: find_Some_iff intro!: disjI2 bexI [of _ cb])

lemma getCommandMethod_found:
  "Commands_getCommand d p l = Inr l \<Longrightarrow> l \<noteq> []
    \<Longrightarrow> \<exists>q. Commands_getCommandMethod d p l = Inr (Some (q, last l)) \<and> q \<in> set (plugin_parts p) \<and> Commands_isCommandMethod d q (last l)"
proof (induction d p l rule: Commands_getCommandMethod.induct)
  case (1 d p l)
  note own = "1.prems"(1)
  obtain first rest where l: "l = first # rest" using "1.prems"(2) by (cases l) auto
  have can: "l = map canonicalName l" using getCommand_facts [OF own] by blast
  note get = own [unfolded Commands_getCommand.simps [of d p l]]
  show ?case
  proof (cases "nested_named p first")
    case (Some cb)
    then have sub: "Commands_getCommand d cb l = Inr l" using get l can by simp
    from "1.IH"(2) [OF l Some sub "1.prems"(2)] obtain q where
      q: "Commands_getCommandMethod d cb l = Inr (Some (q, last l))" "q \<in> set (plugin_parts cb)" "Commands_isCommandMethod d q (last l)"
      by blast
    have "Commands_getCommandMethod d p l = Inr (Some (q, last l))"
      using q(1) own can l Some by (subst Commands_getCommandMethod.simps) simp
    with plugin_parts_nested [OF q(2) Some] q(3) show ?thesis by blast
  next
    case None
    obtain ret where ret: "(if first = Commands_canonicalName p \<and> rest \<noteq> [] then Commands_getCommand d p rest else Inr []) = Inr ret"
      "l = (if ret \<noteq> [] then first # ret else if Commands_isCommandMethod d p first then [first] else [])"
      using get can l None by auto
    show ?thesis
    proof (cases "rest = []")
      case True
      with ret l have m: "Commands_isCommandMethod d p first" by (auto split: if_splits)
      then have "map_of (pg_attrs p) first = Some (MethodAttr commandArgs)"
        by (auto simp: Commands_isCommandMethod_def split: if_splits option.splits attribute.splits)
      then have "Commands_getCommandMethod d p l = Inr (Some (p, first))"
        using own can l None True by (subst Commands_getCommandMethod.simps) simp
      with m l True plugin_parts_refl show ?thesis by auto
    next
      case False
      with ret l have r: "ret = rest" "first = Commands_canonicalName p" "Commands_getCommand d p rest = Inr rest"
        by (auto split: if_splits)
      from "1.IH"(1) [OF l None False r(3) False] obtain q where
        q: "Commands_getCommandMethod d p rest = Inr (Some (q, last rest))" "q \<in> set (plugin_parts p)" "Commands_isCommandMethod d q (last rest)"
        by blast
      have "Commands_getCommandMethod d p l = Inr (Some (q, last rest))"
        using q(1) own can l None False r(2) by (subst Commands_getCommandMethod.simps) simp
      with q(2,3) l False show ?thesis by auto
    qed
  qed
qed

lemma getCommand_answers: "args = map canonicalName args \<Longrightarrow> args \<noteq> [] \<Longrightarrow> \<exists>l. Commands_getCommand d p args = Inr l"
proof (induction d p args rule: Commands_getCommand.induct)
  case (1 d p args)
  then obtain first rest where args: "args = first # rest" by (cases args) auto
  show ?case
  proof (cases "nested_named p first")
    case (Some cb)
    with "1.IH"(2) [OF args Some "1.prems"] "1.prems" args show ?thesis by (subst Commands_getCommand.simps) simp
  next
    case None
    have "\<exists>ret. (if first = Commands_canonicalName p \<and> rest \<noteq> [] then Commands_getCommand d p rest else Inr []) = Inr ret"
      using "1.IH"(1) [OF args None] "1.prems"(1) args by auto
    then obtain ret where "(if first = Commands_canonicalName p \<and> rest \<noteq> [] then Commands_getCommand d p rest else Inr []) = Inr ret" ..
    with "1.prems" args None show ?thesis by (subst Commands_getCommand.simps) simp
  qed
qed

text \<open>
  C18: What a plugin finds for a line of words is a prefix of the line, is found again by its own name, and can be
  called: \<open>getCommandMethod\<close> passes its assertions and yields a method of the plugin, or of one nested in it, that has
  the parameters of a command and is not disabled.
\<close>

theorem found_commands_callable:
  assumes "args \<noteq> []" "args = map canonicalName args"
  shows "\<exists>l. Commands_getCommand d p args = Inr l \<and> take (length l) args = l \<and> Commands_isCommand d p (Inr l) = (if l = [] then Inl IndexError else Inr True)
    \<and> (l \<noteq> [] \<longrightarrow> (\<exists>q. Commands_getCommandMethod d p l = Inr (Some (q, last l)) \<and> q \<in> set (plugin_parts p)
         \<and> map_of (pg_attrs q) (last l) = Some (MethodAttr commandArgs) \<and> \<not> Commands_isDisabled d q (last l)))"
proof -
  obtain l where l: "Commands_getCommand d p args = Inr l" using getCommand_answers [OF assms(2,1)] by blast
  note f = getCommand_facts [OF l]
  have "Commands_isCommand d p (Inr l) = (if l = [] then Inl IndexError else Inr True)"
    using f Commands_getCommand.simps [of d p "[]"] by (simp add: Commands_isCommand_def)
  moreover have "\<exists>q. Commands_getCommandMethod d p l = Inr (Some (q, last l)) \<and> q \<in> set (plugin_parts p)
         \<and> map_of (pg_attrs q) (last l) = Some (MethodAttr commandArgs) \<and> \<not> Commands_isDisabled d q (last l)" if nonempty: "l \<noteq> []"
    using getCommandMethod_found [of d p l] f nonempty
    by (auto simp: Commands_isCommandMethod_def split: if_splits option.splits attribute.splits)
  ultimately show ?thesis using l f by blast
qed

section \<open>The choice among the plugins\<close>

lemma prefix_le:
  fixes l m args :: "string list"
  shows "take (length l) args = l \<Longrightarrow> take (length m) args = m \<Longrightarrow> m \<le> l \<longleftrightarrow> length m \<le> length l"
proof (induction args arbitrary: l m)
  case (Cons a args)
  then show ?case by (cases l; cases m) auto
qed simp

lemma prefix_eq: "take (length l) args = l \<Longrightarrow> take (length m) args = m \<Longrightarrow> length l = length m \<Longrightarrow> l = m"
  by metis

lemma prefix_startswith: "take (length l) args = l \<Longrightarrow> iter_startswith l args"
proof (induction args arbitrary: l)
  case (Cons a args)
  then show ?case by (cases l) (auto simp: iter_startswith_def)
qed (simp add: iter_startswith_def)

lemma collect_callbacks_longest:
  assumes "args \<noteq> []" "args = map canonicalName args"
  shows "take (length m) args = m \<Longrightarrow> (\<forall>(_, l) \<in> set acc. l \<noteq> []) \<Longrightarrow>
    \<exists>maxL found. collect_callbacks d args loaded m acc = Inr (maxL, found) \<and> take (length maxL) args = maxL \<and> length m \<le> length maxL
     \<and> (\<forall>cb \<in> set loaded. \<exists>l. Commands_getCommand d cb args = Inr l \<and> length l \<le> length maxL)
     \<and> (maxL = m \<or> (\<exists>cb \<in> set loaded. Commands_getCommand d cb args = Inr maxL))
     \<and> map fst (filter (\<lambda>(_, l). l = maxL) found)
         = (map fst (filter (\<lambda>(_, l). l = maxL) acc)) @ filter (\<lambda>cb. Commands_getCommand d cb args = Inr maxL \<and> maxL \<noteq> []) loaded"
proof (induction loaded arbitrary: m acc)
  case (Cons cb loaded)
  obtain l where l: "Commands_getCommand d cb args = Inr l" using getCommand_answers [OF assms(2,1)] by blast
  then have pre: "take (length l) args = l" using getCommand_facts by blast
  show ?case
  proof (cases "l \<noteq> [] \<and> m \<le> l")
    case True
    then have len: "length m \<le> length l" using prefix_le [OF pre Cons.prems(1)] by simp
    have "\<forall>(_, l) \<in> set (acc @ [(cb, l)]). l \<noteq> []" using Cons.prems(2) True by auto
    from Cons.IH [OF pre this] obtain maxL found where
      f: "collect_callbacks d args loaded l (acc @ [(cb, l)]) = Inr (maxL, found)" "take (length maxL) args = maxL"
        "length l \<le> length maxL" "\<forall>cb \<in> set loaded. \<exists>l. Commands_getCommand d cb args = Inr l \<and> length l \<le> length maxL"
        "maxL = l \<or> (\<exists>cb \<in> set loaded. Commands_getCommand d cb args = Inr maxL)"
        "map fst (filter (\<lambda>(_, l). l = maxL) found) = map fst (filter (\<lambda>(_, l). l = maxL) (acc @ [(cb, l)]))
           @ filter (\<lambda>cb. Commands_getCommand d cb args = Inr maxL \<and> maxL \<noteq> []) loaded" by blast
    have "collect_callbacks d args (cb # loaded) m acc = Inr (maxL, found)"
      using l True f(1) prefix_startswith [OF pre] by simp
    moreover have "map fst (filter (\<lambda>(_, l). l = maxL) found) = map fst (filter (\<lambda>(_, l). l = maxL) acc)
        @ filter (\<lambda>cb. Commands_getCommand d cb args = Inr maxL \<and> maxL \<noteq> []) (cb # loaded)"
      using f(6) l True by auto
    ultimately show ?thesis using f(2-5) l len by (intro exI [of _ maxL] exI [of _ found]) auto
  next
    case False
    from Cons.IH [OF Cons.prems] obtain maxL found where
      f: "collect_callbacks d args loaded m acc = Inr (maxL, found)" "take (length maxL) args = maxL"
        "length m \<le> length maxL" "\<forall>cb \<in> set loaded. \<exists>l. Commands_getCommand d cb args = Inr l \<and> length l \<le> length maxL"
        "maxL = m \<or> (\<exists>cb \<in> set loaded. Commands_getCommand d cb args = Inr maxL)"
        "map fst (filter (\<lambda>(_, l). l = maxL) found) = map fst (filter (\<lambda>(_, l). l = maxL) acc)
           @ filter (\<lambda>cb. Commands_getCommand d cb args = Inr maxL \<and> maxL \<noteq> []) loaded" by blast
    have short: "l = [] \<or> length l < length m" using False prefix_le [OF pre Cons.prems(1)] by auto
    have "collect_callbacks d args (cb # loaded) m acc = Inr (maxL, found)" using l False f(1) by auto
    moreover have "length l \<le> length maxL" "maxL \<noteq> [] \<longrightarrow> l \<noteq> maxL" using short f(3) by auto
    ultimately show ?thesis using f(2-6) l by (intro exI [of _ maxL] exI [of _ found]) auto
  qed
qed (use assms in auto)

lemma prefer_callback_chooses:
  "set (prefer_callback cf loaded command cbs) \<subseteq> set cbs \<and> (prefer_callback cf loaded command cbs = [] \<longleftrightarrow> cbs = [])"
proof -
  have i: "set (important_callbacks cf cbs) \<subseteq> set cbs" by (auto simp: important_callbacks_def)
  have f: "find P cbs = Some cb \<Longrightarrow> cb \<in> set cbs" for P cb by (auto simp: find_Some_iff)
  show ?thesis
    using i by (auto simp: prefer_callback_def dest: f split: option.splits)
qed

text \<open>
  C13: \<open>findCallbacksForArgs\<close> answers every non-empty line without failing its assertions.  The command it returns is the
  longest one any loaded plugin finds; the plugins it returns all find this command, there is one whenever some plugin
  finds anything, and they are all that do unless the command is a single word.
\<close>

theorem dispatch_longest_match:
  assumes "args \<noteq> []"
  shows "\<exists>maxL cbs. findCallbacksForArgs cf d loaded args = Inr (maxL, cbs)
    \<and> (\<forall>cb \<in> set loaded. \<exists>l. Commands_getCommand d cb (map canonicalName args) = Inr l \<and> length l \<le> length maxL)
    \<and> (\<forall>cb \<in> set cbs. cb \<in> set loaded \<and> Commands_getCommand d cb (map canonicalName args) = Inr maxL)
    \<and> (cbs = [] \<longleftrightarrow> (\<forall>cb \<in> set loaded. Commands_getCommand d cb (map canonicalName args) = Inr []))
    \<and> (length maxL > 1 \<longrightarrow> cbs = filter (\<lambda>cb. Commands_getCommand d cb (map canonicalName args) = Inr maxL) loaded)"
proof -
  let ?args = "map canonicalName args"
  have "?args \<noteq> []" "?args = map canonicalName ?args" using assms by simp_all
  from collect_callbacks_longest [OF this, of "[]" "[]" d loaded] obtain maxL found where
    f: "collect_callbacks d ?args loaded [] [] = Inr (maxL, found)"
      "\<forall>cb \<in> set loaded. \<exists>l. Commands_getCommand d cb ?args = Inr l \<and> length l \<le> length maxL"
      "maxL = [] \<or> (\<exists>cb \<in> set loaded. Commands_getCommand d cb ?args = Inr maxL)"
      "map fst (filter (\<lambda>(_, l). l = maxL) found) = filter (\<lambda>cb. Commands_getCommand d cb ?args = Inr maxL \<and> maxL \<noteq> []) loaded"
    by auto
  define found_by where "found_by = filter (\<lambda>cb. Commands_getCommand d cb ?args = Inr maxL \<and> maxL \<noteq> []) loaded"
  define cbs where "cbs = (if length maxL = 1 then prefer_callback cf loaded (hd maxL) found_by else found_by)"
  have "findCallbacksForArgs cf d loaded args = Inr (maxL, cbs)"
    unfolding findCallbacksForArgs_def f(1) cbs_def found_by_def f(4) [symmetric] by (simp add: Let_def)
  moreover have sub: "set cbs \<subseteq> set found_by" "cbs = [] \<longleftrightarrow> found_by = []"
    using prefer_callback_chooses [of cf loaded "hd maxL" found_by] by (auto simp: cbs_def)
  moreover have "found_by = [] \<longleftrightarrow> (\<forall>cb \<in> set loaded. Commands_getCommand d cb ?args = Inr [])"
  proof (cases "maxL = []")
    case True
    with f(2) show ?thesis by (fastforce simp: found_by_def)
  next
    case False
    then obtain cb where "cb \<in> set loaded" "Commands_getCommand d cb ?args = Inr maxL" using f(3) by blast
    with False show ?thesis by (force simp: found_by_def filter_empty_conv)
  qed
  moreover have "\<forall>cb \<in> set cbs. cb \<in> set loaded \<and> Commands_getCommand d cb ?args = Inr maxL"
    using sub(1) by (auto simp: found_by_def)
  moreover have "length maxL > 1 \<longrightarrow> cbs = filter (\<lambda>cb. Commands_getCommand d cb ?args = Inr maxL) loaded"
    by (auto simp: cbs_def found_by_def intro!: filter_cong)
  ultimately show ?thesis using f(2) by (intro exI [of _ maxL] exI [of _ cbs]) blast
qed

section \<open>Disabling\<close>

definition same_name :: "string \<Rightarrow> string \<Rightarrow> bool" where
  "same_name a b \<longleftrightarrow> canonicalName a = canonicalName b"

lemma pdict_lookup_same: "key a = key b \<Longrightarrow> pdict_lookup key d a = pdict_lookup key d b"
  by (simp add: pdict_lookup_eq)

lemma disabled_add:
  "DisabledCommands_disabled c p (DisabledCommands_add command plugin d) \<longleftrightarrow>
     DisabledCommands_disabled c p d \<or> same_name c command \<and> (case plugin of None \<Rightarrow> True | Some q \<Rightarrow> same_name q p)"
proof (cases "same_name c command")
  case True
  then have "pdict_lookup canonicalName d c = pdict_lookup canonicalName d command" for d :: disabled_commands
    unfolding same_name_def by (rule pdict_lookup_same)
  with True show ?thesis
    by (auto simp: DisabledCommands_disabled_def DisabledCommands_add_def same_name_def nset_new_def split: option.splits)
next
  case False
  then show ?thesis
    by (auto simp: DisabledCommands_disabled_def DisabledCommands_add_def same_name_def split: option.splits)
qed

definition disabled_entry :: "string \<Rightarrow> string \<times> string option" where
  "disabled_entry nm = (case split_char1 CHR ''.'' nm of (plugin, Some command) \<Rightarrow> (command, Some plugin) | (_, None) \<Rightarrow> (nm, None))"

lemma disabled_new:
  "DisabledCommands_disabled c p (DisabledCommands_new names) \<longleftrightarrow>
     (\<exists>nm \<in> set names. case disabled_entry nm of (command, plugin) \<Rightarrow>
        same_name c command \<and> (case plugin of None \<Rightarrow> True | Some q \<Rightarrow> same_name q p))"
proof -
  have step: "(case split_char1 CHR ''.'' nm of
       (plugin, Some command) \<Rightarrow> DisabledCommands_add command (Some plugin) d
     | (_, None) \<Rightarrow> pdict_setitem canonicalName nm None d) = (case disabled_entry nm of (command, plugin) \<Rightarrow> DisabledCommands_add command plugin d)" for nm d
    by (auto simp: disabled_entry_def DisabledCommands_add_def split: prod.split option.split)
  have "DisabledCommands_disabled c p (fold (\<lambda>nm d. case disabled_entry nm of (command, plugin) \<Rightarrow> DisabledCommands_add command plugin d) names d)
    \<longleftrightarrow> DisabledCommands_disabled c p d \<or> (\<exists>nm \<in> set names. case disabled_entry nm of (command, plugin) \<Rightarrow>
        same_name c command \<and> (case plugin of None \<Rightarrow> True | Some q \<Rightarrow> same_name q p))" for d
    by (induction names arbitrary: d) (auto simp: disabled_add split: prod.splits)
  from this [of "[]"] show ?thesis
    unfolding DisabledCommands_new_def step by (simp add: DisabledCommands_disabled_def)
qed

text \<open>
  C19: A command is never dispatched to a plugin it is disabled in, in whatever spelling it was disabled: no
  configured entry, of a command or of \<open>plugin.command\<close>, matches a command that is found, in the plugin it is found in.
\<close>

theorem disabled_commands_unreachable:
  assumes "Commands_getCommand (DisabledCommands_new names) p args = Inr l" "l \<noteq> []"
  shows "\<exists>q. Commands_getCommandMethod (DisabledCommands_new names) p l = Inr (Some (q, last l))
    \<and> (\<forall>nm \<in> set names. case disabled_entry nm of (command, plugin) \<Rightarrow>
        \<not> (same_name (last l) command \<and> (case plugin of None \<Rightarrow> True | Some r \<Rightarrow> same_name r (pg_name q))))"
proof -
  from getCommandMethod_found [of "DisabledCommands_new names" p l] getCommand_facts [OF assms(1)] assms(2) obtain q where
    q: "Commands_getCommandMethod (DisabledCommands_new names) p l = Inr (Some (q, last l))"
      "Commands_isCommandMethod (DisabledCommands_new names) q (last l)" by blast
  then have "\<not> DisabledCommands_disabled (last l) (pg_name q) (DisabledCommands_new names)"
    by (auto simp: Commands_isCommandMethod_def Commands_isDisabled_def split: if_splits)
  then have "\<forall>nm \<in> set names. case disabled_entry nm of (command, plugin) \<Rightarrow>
        \<not> (same_name (last l) command \<and> (case plugin of None \<Rightarrow> True | Some r \<Rightarrow> same_name r (pg_name q)))"
    unfolding disabled_new case_prod_unfold by blast
  then show ?thesis using q(1) by blast
qed

section \<open>Samples\<close>

definition sample_plugins :: "plugin list" where
  "sample_plugins =
     [PluginObj ''Misc'' [(''list'', MethodAttr commandArgs), (''help'', MethodAttr commandArgs), (''outFilter'', MethodAttr [''self'', ''irc'', ''msg''])] [],
      PluginObj ''Channel'' [(''op'', MethodAttr commandArgs)]
        [PluginObj ''ban'' [(''add'', MethodAttr commandArgs), (''list'', MethodAttr commandArgs)] []],
      PluginObj ''List'' [(''list'', MethodAttr commandArgs)] []]"

definition sample_dispatch :: dispatch_conf where
  "sample_dispatch = \<lparr>dp_defaultPlugin = (\<lambda>_. None), dp_importantPlugins = [''misc'']\<rparr>"

lemma found_commands_callable_witness:
  "\<exists>q. Commands_getCommandMethod [] (sample_plugins ! 1) [''ban'', ''add''] = Inr (Some (q, ''add''))"
proof -
  have args: "[''ban'', ''add'', ''x''] \<noteq> []" "[''ban'', ''add'', ''x''] = map canonicalName [''ban'', ''add'', ''x'']" by code_simp+
  have "Commands_getCommand [] (sample_plugins ! 1) [''ban'', ''add'', ''x''] = Inr [''ban'', ''add'']" by code_simp
  with found_commands_callable [OF args, of "[]" "sample_plugins ! 1"] show ?thesis by auto
qed

lemma dispatch_longest_match_witness:
  "\<exists>maxL cbs. findCallbacksForArgs sample_dispatch [] sample_plugins [''Ban'', ''li-st''] = Inr (maxL, cbs) \<and> (maxL = [] \<or> cbs \<noteq> [])"
proof -
  have "Commands_getCommand [] (sample_plugins ! 1) [''ban'', ''list''] = Inr [''ban'', ''list'']" by code_simp
  moreover have "map canonicalName [''Ban'', ''li-st''] = [''ban'', ''list'']" by code_simp
  moreover have "sample_plugins ! 1 \<in> set sample_plugins" by (simp add: sample_plugins_def)
  moreover have "[''Ban'', ''li-st''] \<noteq> []" by simp
  from dispatch_longest_match [OF this, of sample_dispatch "[]" sample_plugins] obtain maxL cbs where
    m: "findCallbacksForArgs sample_dispatch [] sample_plugins [''Ban'', ''li-st''] = Inr (maxL, cbs)"
      "cbs = [] \<longleftrightarrow> (\<forall>cb \<in> set sample_plugins. Commands_getCommand [] cb (map canonicalName [''Ban'', ''li-st'']) = Inr [])" by blast
  ultimately have "cbs \<noteq> []" by (metis Inr_inject list.distinct(1))
  with m(1) show ?thesis by blast
qed

lemma disabled_commands_unreachable_witness:
  "\<exists>q. Commands_getCommandMethod (DisabledCommands_new [''Misc.LIST'', ''op'']) (sample_plugins ! 2) [''list''] = Inr (Some (q, ''list''))"
proof -
  have "Commands_getCommand (DisabledCommands_new [''Misc.LIST'', ''op'']) (sample_plugins ! 2) [''list''] = Inr [''list'']" by code_simp
  from disabled_commands_unreachable [OF this] show ?thesis by auto
qed

end
