(* ===== verification/CallLaws.thy ===== *)
theory CallLaws
  imports CommandCalls DispatchLaws
begin

text \<open>
  What the chain of proxies computes: when each command replies at most once, the same as a recursive evaluation of
  the nested lines, innermost first and from left to right.
\<close>

section \<open>More fuel changes nothing\<close>

declare px_eval.simps [simp del] px_new.simps [simp del] px_perform.simps [simp del] px_reply.simps [simp del]

lemmas px_none = px_eval.simps(2) px_new.simps(2) px_perform.simps(4) px_reply.simps(3)

lemma px_more:
  "(px_eval cw n chain = Some r \<longrightarrow> px_eval cw (Suc n) chain = Some r)
    \<and> (px_new cw n args chain = Some r \<longrightarrow> px_new cw (Suc n) args chain = Some r)
    \<and> (px_perform cw n events chain = Some r \<longrightarrow> px_perform cw (Suc n) events chain = Some r)
    \<and> (px_reply cw n s chain = Some r \<longrightarrow> px_reply cw (Suc n) s chain = Some r)"
proof (induction n arbitrary: chain args events s r)
  case (Suc n)
  have e: "px_eval cw n chain = Some r \<Longrightarrow> px_eval cw (Suc n) chain = Some r" for chain r using Suc by blast
  have w: "px_new cw n args chain = Some r \<Longrightarrow> px_new cw (Suc n) args chain = Some r" for args chain r using Suc by blast
  have p: "px_perform cw n events chain = Some r \<Longrightarrow> px_perform cw (Suc n) events chain = Some r" for events chain r using Suc by blast
  have y: "px_reply cw n s chain = Some r \<Longrightarrow> px_reply cw (Suc n) s chain = Some r" for s chain r using Suc by blast
  have "px_eval cw (Suc n) chain = Some r \<Longrightarrow> px_eval cw (Suc (Suc n)) chain = Some r"
  proof (cases chain)
    case (Cons q rest)
    assume "px_eval cw (Suc n) chain = Some r"
    then show ?thesis
      unfolding Cons by (subst px_eval.simps, subst (asm) px_eval.simps) (auto split: if_splits cmd.splits dest: e w p)
  qed (simp add: px_eval.simps)
  moreover have "px_new cw (Suc n) args chain = Some r \<Longrightarrow> px_new cw (Suc (Suc n)) args chain = Some r"
    by (subst px_new.simps, subst (asm) px_new.simps) (auto split: if_splits dest: e p)
  moreover have "px_perform cw (Suc n) events chain = Some r \<Longrightarrow> px_perform cw (Suc (Suc n)) events chain = Some r"
  proof (cases events)
    case (Cons x xs)
    assume run: "px_perform cw (Suc n) events chain = Some r"
    show ?thesis
    proof (cases x)
      case (ReplyWith t)
      from run [unfolded Cons ReplyWith px_perform.simps] obtain out chain' r' where "px_reply cw n t chain = Some (out, chain')" "px_perform cw n xs chain' = Some r'"
        "r = (out @ fst r', snd r')" by (auto simp: prepend_def split: option.splits)
      with y p show ?thesis unfolding Cons ReplyWith by (subst px_perform.simps) (auto simp: prepend_def case_prod_unfold)
    next
      case (ErrorWith t)
      from run [unfolded Cons ErrorWith px_perform.simps] obtain r' where "px_perform cw n xs chain = Some r'" "r = ([ErrorWith t] @ fst r', snd r')"
        by (auto simp: prepend_def)
      with p show ?thesis unfolding Cons ErrorWith by (subst px_perform.simps) (auto simp: prepend_def case_prod_unfold)
    qed
  qed (simp add: px_perform.simps)
  moreover have "px_reply cw (Suc n) s chain = Some r \<Longrightarrow> px_reply cw (Suc (Suc n)) s chain = Some r"
  proof (cases chain)
    case (Cons q rest)
    assume "px_reply cw (Suc n) s chain = Some r"
    then show ?thesis
      unfolding Cons by (subst px_reply.simps, subst (asm) px_reply.simps) (auto split: if_splits dest: e y)
  qed (simp add: px_reply.simps)
  ultimately show ?case by blast
qed (simp add: px_none)

lemma px_eval_more: "n \<le> m \<Longrightarrow> px_eval cw n chain = Some r \<Longrightarrow> px_eval cw m chain = Some r"
  by (induction m rule: dec_induct) (simp_all add: px_more)

lemma px_new_more: "n \<le> m \<Longrightarrow> px_new cw n args chain = Some r \<Longrightarrow> px_new cw m args chain = Some r"
  by (induction m rule: dec_induct) (simp_all add: px_more)

section \<open>Evaluating nested lines\<close>

text \<open>
  A line after its first words \<open>words\<close>, at depth \<open>d\<close>: what the last command says, unless a nested one says nothing or
  makes an error, which is then what the whole line says.
\<close>

function nested_eval :: "command_world \<Rightarrow> (string list \<Rightarrow> event option) \<Rightarrow> nat \<Rightarrow> string list \<Rightarrow> cmd list \<Rightarrow> event option" where
  "nested_eval cw run d words [] = run words"
| "nested_eval cw run d words (Word w # args) = nested_eval cw run d (words @ [w]) args"
| "nested_eval cw run d words (Nested l # args) =
     (case (if cw_maximum cw \<noteq> 0 \<and> Suc d > cw_maximum cw then Some (ErrorWith (cw_tooNested cw))
            else nested_eval cw run (Suc d) [] l) of
        Some (ReplyWith s) \<Rightarrow> nested_eval cw run d (words @ [take (cw_maximumLength cw) s]) args
      | r \<Rightarrow> r)"
  by pat_completeness auto
termination by (relation "measure (\<lambda>(_, _, _, _, args). size_list size args)") auto

text \<open>Every command line says at most one thing.\<close>

definition says :: "command_world \<Rightarrow> (string list \<Rightarrow> event option) \<Rightarrow> bool" where
  "says cw run \<longleftrightarrow> (\<forall>args. (if args = [] then callInvalidCommands_events cw [] else final_events cw args)
     = (case run args of None \<Rightarrow> [] | Some e \<Rightarrow> [e]))"

text \<open>What saying it does to the proxies outside.\<close>

definition hands_over :: "command_world \<Rightarrow> event option \<Rightarrow> proxy list \<Rightarrow> event list \<Rightarrow> proxy list \<Rightarrow> bool" where
  "hands_over cw e chain out chain' \<longleftrightarrow> (case e of
      None \<Rightarrow> out = [] \<and> chain' = chain
    | Some (ErrorWith s) \<Rightarrow> out = [ErrorWith s] \<and> chain' = chain
    | Some (ReplyWith s) \<Rightarrow> \<exists>n. px_reply cw n (if chain = [] then s else take (cw_maximumLength cw) s) chain = Some (out, chain'))"

lemma perform_hands_over:
  assumes "hands_over cw e chain out chain'" "px_final p"
  shows "\<exists>n. px_perform cw n (case e of None \<Rightarrow> [] | Some e \<Rightarrow> [e]) (p # chain) = Some (out, p # chain')"
proof (cases e)
  case None
  with assms have "px_perform cw (Suc 0) [] (p # chain) = Some (out, p # chain')" by (simp add: hands_over_def px_perform.simps)
  with None show ?thesis by auto
next
  case (Some ev)
  show ?thesis
  proof (cases ev)
    case (ErrorWith s)
    with Some assms have "px_perform cw (Suc (Suc 0)) [ev] (p # chain) = Some (out, p # chain')"
      by (simp add: hands_over_def prepend_def px_perform.simps)
    with Some show ?thesis by auto
  next
    case (ReplyWith s)
    with Some assms obtain n where "px_reply cw n (if chain = [] then s else take (cw_maximumLength cw) s) chain = Some (out, chain')"
      by (auto simp: hands_over_def)
    with assms(2) have "px_reply cw (Suc n) s (p # chain) = Some (out, p # chain')" by (simp add: px_reply.simps)
    moreover have "px_perform cw (Suc n) [] (p # chain') = Some ([], p # chain')" by (simp add: px_perform.simps)
    ultimately have "px_perform cw (Suc (Suc n)) [ReplyWith s] (p # chain) = Some (out, p # chain')"
      by (simp add: prepend_def px_perform.simps)
    with Some ReplyWith show ?thesis by auto
  qed
qed

text \<open>The proxy evaluates its arguments from \<open>px_counter\<close> on; the ones before are words.\<close>

definition waiting :: "proxy \<Rightarrow> string list \<Rightarrow> cmd list \<Rightarrow> bool" where
  "waiting p words args \<longleftrightarrow>
     px_args p = map Word words @ args \<and> px_counter p = length words \<and> \<not> px_final p \<and> px_args p \<noteq> []"

lemma waiting_word: "waiting p words (Word w # args) \<Longrightarrow> waiting (p\<lparr>px_counter := px_counter p + 1\<rparr>) (words @ [w]) args"
  by (simp add: waiting_def)

lemma waiting_filled:
  "waiting p words (Nested l # args) \<Longrightarrow> waiting (p\<lparr>px_args := (px_args p)[px_counter p := Word s]\<rparr>) words (Word s # args)"
  by (simp add: waiting_def list_update_append)

lemma px_eval_word:
  assumes "waiting p words (Word w # args)" "px_eval cw n (p\<lparr>px_counter := px_counter p + 1\<rparr> # chain) = Some r"
  shows "px_eval cw (Suc n) (p # chain) = Some r"
  using assms by (subst px_eval.simps) (simp add: waiting_def nth_append)

lemma not_reply_case: "\<nexists>s. e = Some (ReplyWith s) \<Longrightarrow> (case e of Some (ReplyWith s) \<Rightarrow> f s | r \<Rightarrow> r) = e"
  by (auto split: option.split event.split)

lemma hands_over_silent:
  "\<nexists>s. e = Some (ReplyWith s) \<Longrightarrow> hands_over cw e chain out chain' \<Longrightarrow> chain' = chain \<and> hands_over cw e any out any"
  by (auto simp: hands_over_def split: option.splits event.splits)

lemma px_eval_computes:
  "says cw run \<Longrightarrow> length chain = d \<Longrightarrow> waiting p words args \<Longrightarrow> hands_over cw (nested_eval cw run d words args) chain out chain'
    \<Longrightarrow> \<exists>n q. px_eval cw n (p # chain) = Some (out, q # chain')"
proof (induction cw run d words args arbitrary: p chain out chain' rule: nested_eval.induct)
  case (1 cw run d words)
  then have p: "px_args p = map Word words" "px_counter p = length words" "words \<noteq> []" by (auto simp: waiting_def)
  have "final_events cw words = (case run words of None \<Rightarrow> [] | Some e \<Rightarrow> [e])"
    using "1.prems"(1) p(3) unfolding says_def by (metis (full_types))
  moreover obtain n where "px_perform cw n (case run words of None \<Rightarrow> [] | Some e \<Rightarrow> [e]) (p\<lparr>px_final := True\<rparr> # chain)
      = Some (out, p\<lparr>px_final := True\<rparr> # chain')"
    using perform_hands_over [of cw "run words" chain out chain' "p\<lparr>px_final := True\<rparr>"] "1.prems"(4) by auto
  moreover have "map word_of (px_args p) = words" using p(1) by (simp add: comp_def)
  ultimately have "px_eval cw (Suc n) (p # chain) = Some (out, p\<lparr>px_final := True\<rparr> # chain')"
    using p by (subst px_eval.simps) simp
  then show ?case by blast
next
  case (2 cw run d words w args)
  obtain n q where "px_eval cw n (p\<lparr>px_counter := px_counter p + 1\<rparr> # chain) = Some (out, q # chain')"
    using "2.IH" [OF "2.prems"(1,2) waiting_word [OF "2.prems"(3)], of out chain'] "2.prems"(4) by auto
  from px_eval_word [OF "2.prems"(3) this] show ?case by blast
next
  case (3 cw run d words l args)
  let ?deep = "cw_maximum cw \<noteq> 0 \<and> Suc d > cw_maximum cw"
  let ?e = "if ?deep then Some (ErrorWith (cw_tooNested cw)) else nested_eval cw run (Suc d) [] l"
  have inner: "\<exists>q. hands_over cw ?e (p # chain) out (q # chain')"
  proof (cases "\<exists>s. ?e = Some (ReplyWith s)")
    case True
    then obtain s where s: "?e = Some (ReplyWith s)" by blast
    let ?t = "take (cw_maximumLength cw) s"
    let ?p = "p\<lparr>px_args := (px_args p)[px_counter p := Word ?t]\<rparr>"
    note fill = waiting_filled [OF "3.prems"(3), of ?t]
    have "hands_over cw (nested_eval cw run d (words @ [?t]) args) chain out chain'"
      using "3.prems"(4) s by simp
    with "3.IH"(2) [OF s refl "3.prems"(1,2) waiting_word [OF fill]] obtain n q where
      "px_eval cw n (?p\<lparr>px_counter := px_counter ?p + 1\<rparr> # chain) = Some (out, q # chain')" by blast
    from px_eval_word [OF fill this] "3.prems"(3)
    have "px_reply cw (Suc (Suc n)) ?t (p # chain) = Some (out, q # chain')"
      by (subst px_reply.simps) (simp add: waiting_def)
    with s show ?thesis unfolding hands_over_def by auto
  next
    case False
    then have "nested_eval cw run d words (Nested l # args) = ?e"
      unfolding nested_eval.simps by (rule not_reply_case)
    then have "hands_over cw ?e chain out chain'" using "3.prems"(4) by (simp only:)
    from hands_over_silent [OF False this, of "p # chain"] show ?thesis by blast
  qed
  then obtain q where q: "hands_over cw ?e (p # chain) out (q # chain')" by blast
  have "\<exists>n. px_new cw n l (p # chain) = Some (out, q # chain')"
  proof (cases ?deep)
    case True
    with q "3.prems"(2) have "px_new cw (Suc 0) l (p # chain) = Some (out, q # chain')"
      by (subst px_new.simps) (auto simp: hands_over_def)
    then show ?thesis by blast
  next
    case no: False
    have q': "hands_over cw (nested_eval cw run (Suc d) [] l) (p # chain) out (q # chain')"
      using q unfolding if_not_P [OF no] .
    show ?thesis
    proof (cases "l = []")
      case True
      have "callInvalidCommands_events cw [] = (case run [] of None \<Rightarrow> [] | Some e \<Rightarrow> [e])"
        using "3.prems"(1) unfolding says_def by (metis (full_types))
      moreover have "hands_over cw (run []) (p # chain) out (q # chain')" using q' True by simp
      moreover have "px_final (new_proxy l)" using True by (simp add: new_proxy_def)
      ultimately obtain n where "px_perform cw n (callInvalidCommands_events cw []) (new_proxy l # p # chain)
          = Some (out, new_proxy l # q # chain')"
        using perform_hands_over [of cw "run []" "p # chain" out "q # chain'" "new_proxy l"] by auto
      with no True "3.prems"(2) have "px_new cw (Suc n) l (p # chain) = Some (out, q # chain')"
        by (subst px_new.simps) auto
      then show ?thesis by blast
    next
      case False
      have "waiting (new_proxy l) [] l" using False by (simp add: waiting_def new_proxy_def)
      with "3.IH"(1) [OF no "3.prems"(1), of "p # chain" "new_proxy l" out "q # chain'"] q' "3.prems"(2)
      obtain n c where "px_eval cw n (new_proxy l # p # chain) = Some (out, c # q # chain')" by auto
      with no False "3.prems"(2) have "px_new cw (Suc n) l (p # chain) = Some (out, q # chain')"
        by (subst px_new.simps) auto
      then show ?thesis by blast
    qed
  qed
  then obtain n where "px_new cw n l (p # chain) = Some (out, q # chain')" ..
  with "3.prems"(3) have "px_eval cw (Suc n) (p # chain) = Some (out, q # chain')"
    by (subst px_eval.simps) (simp add: waiting_def nth_append)
  then show ?case by blast
qed

end
