(* ===== verification/CallPromises.thy ===== *)
theory CallPromises
  imports CallLaws TokenizerPromises
begin

text \<open>The properties of nested commands, from the line of text to what is sent.\<close>

section \<open>Nested commands\<close>

lemma run_line_computes:
  assumes "says cw run"
  shows "\<exists>n. \<forall>m \<ge> n. run_line cw m args = Some (case nested_eval cw run 0 [] args of None \<Rightarrow> [] | Some e \<Rightarrow> [e])"
proof -
  let ?e = "nested_eval cw run 0 [] args"
  let ?out = "case ?e of None \<Rightarrow> [] | Some e \<Rightarrow> [e]"
  have over: "hands_over cw ?e [] ?out []"
  proof (cases "\<exists>s. ?e = Some (ReplyWith s)")
    case True
    then obtain s where "?e = Some (ReplyWith s)" by blast
    moreover have "px_reply cw (Suc 0) s [] = Some ([ReplyWith s], [])" by (simp add: px_reply.simps)
    ultimately show ?thesis by (auto simp: hands_over_def)
  qed (auto simp: hands_over_def split: option.split event.split)
  have "\<exists>n. px_new cw n args [] = Some (?out, [])"
  proof (cases "args = []")
    case True
    have "callInvalidCommands_events cw [] = (case run [] of None \<Rightarrow> [] | Some e \<Rightarrow> [e])"
      using assms unfolding says_def by (metis (full_types))
    then obtain n where "px_perform cw n (callInvalidCommands_events cw []) [new_proxy args] = Some (?out, [new_proxy args])"
      using perform_hands_over [OF over, of "new_proxy args"] True by (auto simp: new_proxy_def)
    with True have "px_new cw (Suc n) args [] = Some (?out, [])" by (subst px_new.simps) auto
    then show ?thesis by blast
  next
    case False
    then have "waiting (new_proxy args) [] args" by (simp add: waiting_def new_proxy_def)
    from px_eval_computes [OF assms _ this over] obtain n q where "px_eval cw n [new_proxy args] = Some (?out, [q])" by auto
    with False have "px_new cw (Suc n) args [] = Some (?out, [])" by (subst px_new.simps) auto
    then show ?thesis by blast
  qed
  then obtain n where "px_new cw n args [] = Some (?out, [])" ..
  then have "run_line cw m args = Some ?out" if "n \<le> m" for m using px_new_more [OF that] by (simp add: run_line_def)
  then show ?thesis by blast
qed

text \<open>
  C4: From the text of a line to what is sent: when every command says at most one thing, the chain of proxies ends and
  sends what evaluating the nested commands from the inside out gives; a command that says nothing or an error
  stops the commands around it.  A pipe runs the second command with the first one's reply as its last argument.
\<close>

theorem nested_lines_run:
  assumes "[l, r] \<in> set bracket_pairs" "set quotes \<subseteq> quote_chars" "Tokenizer_new [l, r] True quotes = Inr tk"
    and "\<forall>x \<in> set xs \<union> set ys. src_ok tk x" "xs \<noteq> []" "ys \<noteq> []" "says cw run"
  shows "(\<exists>cmds n. tokenize True [l, r] True quotes (texts l r xs) = Inr cmds
      \<and> (\<forall>m \<ge> n. run_line cw m cmds = Some (case nested_eval cw run 0 [] (map meaning xs) of None \<Rightarrow> [] | Some e \<Rightarrow> [e])))
    \<and> (\<exists>cmds n. tokenize True [l, r] True quotes (texts l r xs @ '' | '' @ texts l r ys) = Inr cmds
      \<and> (\<forall>m \<ge> n. run_line cw m cmds
          = Some (case nested_eval cw run 0 [] (map meaning ys @ [Nested (map meaning xs)]) of None \<Rightarrow> [] | Some e \<Rightarrow> [e])))"
proof
  have "tokenize True [l, r] True quotes (texts l r xs) = Inr (map meaning xs)"
    using tokenize_pipeline [OF assms(1-3), of "[xs]"] assms(4) by (simp add: pipe_args_def)
  then show "\<exists>cmds n. tokenize True [l, r] True quotes (texts l r xs) = Inr cmds
      \<and> (\<forall>m \<ge> n. run_line cw m cmds = Some (case nested_eval cw run 0 [] (map meaning xs) of None \<Rightarrow> [] | Some e \<Rightarrow> [e]))"
    using run_line_computes [OF assms(7)] by blast
  have "tokenize True [l, r] True quotes (texts l r xs @ '' | '' @ texts l r ys) = Inr (map meaning ys @ [Nested (map meaning xs)])"
    using tokenize_pipeline [OF assms(1-3), of "[xs, ys]"] assms(4-6) by (simp add: pipe_args_def ball_Un)
  then show "\<exists>cmds n. tokenize True [l, r] True quotes (texts l r xs @ '' | '' @ texts l r ys) = Inr cmds
      \<and> (\<forall>m \<ge> n. run_line cw m cmds
          = Some (case nested_eval cw run 0 [] (map meaning ys @ [Nested (map meaning xs)]) of None \<Rightarrow> [] | Some e \<Rightarrow> [e]))"
    using run_line_computes [OF assms(7)] by blast
qed

section \<open>Commands that say more\<close>


text \<open>
  An exception of a nested command nobody foresaw is not an error of the line: the bot's general error text, which is a
  reply, becomes the argument of the outer command, which runs.
\<close>

theorem crash_becomes_argument:
  assumes "cw_maximum cw = 0" "\<not> cw_detailed cw"
    "findCallbacksForArgs (cw_dispatch cw) (cw_disabled cw) (cw_loaded cw) [w] = Inr (command, [cb])"
    "\<forall>name \<in> set command. cw_access cw cb name = Allowed" "Commands_getCommandMethod (cw_disabled cw) cb command = Inr (Some (q, name))"
    "cw_method cw q name (drop (length command) [w]) = ([], Some (OtherExn x))"
    "final_events cw [c, take (cw_maximumLength cw) (cw_errorText cw)] = [ReplyWith s]"
  shows "\<exists>n. \<forall>m \<ge> n. run_line cw m [Word c, Nested [Word w]] = Some [ReplyWith s]"
proof -
  have "find (\<lambda>a. a \<noteq> Allowed) (map (cw_access cw cb) command) = None" using assms(4) by (simp add: find_None_iff)
  then have "final_events cw [w] = [ReplyWith (cw_errorText cw)]"
    using assms(2,3,5,6) by (simp add: final_events_def callCommand_events_def exn_events_def)
  then have "px_new cw (20 + k) [Word c, Nested [Word w]] [] = Some ([ReplyWith s], [])" for k
    using assms(1,7)
    by (simp add: eval_nat_numeral px_new.simps px_eval.simps px_perform.simps px_reply.simps new_proxy_def prepend_def)
  then have "run_line cw m [Word c, Nested [Word w]] = Some [ReplyWith s]" if "20 \<le> m" for m
    using that by (metis fst_conv le_Suc_ex option.map(2) run_line_def)
  then show ?thesis by blast
qed

section \<open>Samples\<close>

definition sample_world :: command_world where
  "sample_world = \<lparr>cw_dispatch = sample_dispatch, cw_disabled = [],
     cw_loaded = [PluginObj ''Misc'' [(''say'', MethodAttr commandArgs), (''twice'', MethodAttr commandArgs), (''crash'', MethodAttr commandArgs)] []],
     cw_access = (\<lambda>_ _. Allowed),
     cw_method = (\<lambda>q name args. if name = ''say'' then ([ReplyWith (concat args)], None)
        else if name = ''crash'' then ([], Some (OtherExn ''KeyError'')) else ([ReplyWith ''a'', ReplyWith ''b''], None)),
     cw_invalidCommands = [], cw_help = (\<lambda>_. ''help''), cw_detailed = False, cw_errorText = ''An error has occurred'',
     cw_hideNoCapability = False, cw_noCapability = (\<lambda>_. ''no''), cw_ambiguous = (\<lambda>_ _. ''which?''), cw_tooNested = ''too deep'',
     cw_maximum = 0, cw_maximumLength = 100\<rparr>"

definition one_event :: "event list \<Rightarrow> bool" where
  "one_event events \<longleftrightarrow> length events \<le> 1"

lemma one_exn: "one_event (exn_events cw command exn)"
  by (auto simp: one_event_def exn_events_def split: option.split cmd_exn.split)

lemma one_noCapability: "one_event (errorNoCapability cw cap)"
  by (simp add: one_event_def errorNoCapability_def split: command_access.split)

lemma one_method:
  assumes "\<And>q name args. (\<exists>e. cw_method cw q name args = ([e], None)) \<or> (\<exists>x. cw_method cw q name args = ([], x))"
  shows "one_event (callCommand_events cw command cb args)"
proof -
  have "one_event (case cw_method cw q name args of (events, exn) \<Rightarrow> events @ exn_events cw command exn)" for q name args
    using assms [of q name args] one_exn [of cw command] by (auto simp: one_event_def exn_events_def)
  then show ?thesis
    using one_exn [of cw command] one_noCapability [of cw]
    unfolding callCommand_events_def by (simp split: option.split sum.split prod.split)
qed

lemma one_final:
  assumes "\<And>q name args. (\<exists>e. cw_method cw q name args = ([e], None)) \<or> (\<exists>x. cw_method cw q name args = ([], x))"
    and "cw_invalidCommands cw = []"
  shows "one_event (final_events cw args)"
proof -
  have "one_event (callInvalidCommands_events cw args)" by (simp add: callInvalidCommands_events_def assms(2) one_event_def)
  moreover have "one_event [e]" "one_event []" for e by (simp_all add: one_event_def)
  ultimately show ?thesis
    using one_method [OF assms(1)] unfolding final_events_def by (simp split: sum.split prod.split list.split)
qed

lemma says_first:
  assumes "\<And>q name args. (\<exists>e. cw_method cw q name args = ([e], None)) \<or> (\<exists>x. cw_method cw q name args = ([], x))"
    and "cw_invalidCommands cw = []"
  shows "says cw (\<lambda>args. case (if args = [] then [] else final_events cw args) of [] \<Rightarrow> None | e # _ \<Rightarrow> Some e)"
proof -
  have c: "callInvalidCommands_events cw [] = []" by (simp add: callInvalidCommands_events_def assms(2))
  have "(case (case final_events cw args of [] \<Rightarrow> None | e # _ \<Rightarrow> Some e) of None \<Rightarrow> [] | Some e \<Rightarrow> [e]) = final_events cw args" for args
    using one_final [OF assms, of args] by (cases "final_events cw args") (auto simp: one_event_def)
  with c show ?thesis by (simp add: says_def)
qed

definition calm_world :: command_world where
  "calm_world = sample_world\<lparr>cw_method := (\<lambda>q name args. if name = ''say'' then ([ReplyWith (concat args)], None)
     else ([], Some (OtherExn ''KeyError'')))\<rparr>"

lemma nested_lines_run_witness:
  "\<exists>cmds n. tokenize True ''[]'' True [CHR 0x22] ''say x | say y [say z]'' = Inr cmds
     \<and> (\<forall>m \<ge> n. run_line calm_world m cmds = Some [ReplyWith ''yzx''])"
proof -
  have conf: "''[]'' \<in> set bracket_pairs" "set [CHR 0x22] \<subseteq> quote_chars" by (simp_all add: bracket_pairs_def quote_chars_def)
  obtain tk where tk: "Tokenizer_new ''[]'' True [CHR 0x22] = Inr tk" "tk_quotes tk = [CHR 0x22]"
    "set (tk_validChars tk) = - ({CHR 0x00, CHR 0x0D, CHR 0x0A, CHR '' '', CHR 0x09, CHR ''['', CHR '']''} \<union> set [CHR 0x22] \<union> (if True then {CHR ''|''} else {}))"
    using conf by (rule Tokenizer_configured)
  let ?xs = "[Bare ''say'', Bare ''x'']" and ?ys = "[Bare ''say'', Bare ''y'', Group [Bare ''say'', Bare ''z'']]"
  let ?run = "\<lambda>args. case (if args = [] then [] else final_events calm_world args) of [] \<Rightarrow> None | e # _ \<Rightarrow> Some e"
  have ok: "\<forall>x \<in> set ?xs \<union> set ?ys. src_ok tk x" using tk(2,3) by (simp add: bare_def)
  have "says calm_world ?run" by (rule says_first) (simp_all add: calm_world_def sample_world_def)
  from nested_lines_run [OF conf tk(1) ok _ _ this] obtain cmds n where
    c: "tokenize True ''[]'' True [CHR 0x22] (texts CHR ''['' CHR '']'' ?xs @ '' | '' @ texts CHR ''['' CHR '']'' ?ys) = Inr cmds"
      "\<forall>m \<ge> n. run_line calm_world m cmds
        = Some (case nested_eval calm_world ?run 0 [] (map meaning ?ys @ [Nested (map meaning ?xs)]) of None \<Rightarrow> [] | Some e \<Rightarrow> [e])"
    by auto
  have t: "texts CHR ''['' CHR '']'' ?xs @ '' | '' @ texts CHR ''['' CHR '']'' ?ys = ''say x | say y [say z]''" by simp
  have v: "(case nested_eval calm_world ?run 0 [] (map meaning ?ys @ [Nested (map meaning ?xs)]) of None \<Rightarrow> [] | Some e \<Rightarrow> [e]) = [ReplyWith ''yzx'']"
    by code_simp
  show ?thesis using c(1) [unfolded t] c(2) [unfolded v] by (intro exI conjI)
qed


lemma crash_becomes_argument_witness:
  "\<exists>n. run_line sample_world n [Word ''say'', Nested [Word ''crash'']] = Some [ReplyWith ''An error has occurred'']"
proof -
  let ?cb = "hd (cw_loaded sample_world)"
  have "findCallbacksForArgs (cw_dispatch sample_world) (cw_disabled sample_world) (cw_loaded sample_world) [''crash''] = Inr ([''crash''], [?cb])"
    "Commands_getCommandMethod (cw_disabled sample_world) ?cb [''crash''] = Inr (Some (?cb, ''crash''))"
    "cw_method sample_world ?cb ''crash'' (drop (length [''crash'']) [''crash'']) = ([], Some (OtherExn ''KeyError''))"
    "final_events sample_world [''say'', take (cw_maximumLength sample_world) (cw_errorText sample_world)] = [ReplyWith ''An error has occurred'']"
    by code_simp+
  moreover have "cw_maximum sample_world = 0" "\<not> cw_detailed sample_world" "\<forall>name \<in> set [''crash'']. cw_access sample_world ?cb name = Allowed"
    by (simp_all add: sample_world_def)
  ultimately show ?thesis using crash_becomes_argument [of sample_world "''crash''" "[''crash'']" ?cb ?cb "''crash''" "''KeyError''"] by blast
qed

end
