(* ===== verification/FlatFile.thy ===== *)
theory FlatFile
  imports PyString
begin

text \<open>
  \<open>FlatfileMapping\<close> of \<open>dbi.py\<close>: a map from integer identities to strings, kept in a text file.  The first line is
  the next identity, written with a fixed number of digits; each other line is an identity, a colon and the string.
  A record is removed by writing dashes over its identity.
\<close>

section \<open>Files\<close>

text \<open>A file is its text.  \<open>readline\<close> at a position: the line with its newline; it is empty at the end of the file.\<close>

abbreviation LF :: char where
  "LF \<equiv> CHR 0x0A"

fun read_line :: "string \<Rightarrow> string \<times> string" where
  "read_line [] = ([], [])"
| "read_line (c # s) = (if c = LF then ([c], s) else (case read_line s of (l, r) \<Rightarrow> (c # l, r)))"

lemma read_line_pieces: "fst (read_line s) @ snd (read_line s) = s"
  by (induction s) (auto split: prod.splits)

lemma read_line_empty [simp]: "fst (read_line s) = [] \<longleftrightarrow> s = []"
  by (cases s) (auto split: prod.splits)

lemma read_line_shorter: "s \<noteq> [] \<Longrightarrow> length (snd (read_line s)) < length s"
  using read_line_pieces [of s] read_line_empty [of s] by (metis length_append length_greater_0_conv less_add_same_cancel2)

text \<open>The lines an iteration over the file yields.\<close>

function lines_from :: "string \<Rightarrow> string list" where
  "lines_from s = (if s = [] then [] else fst (read_line s) # lines_from (snd (read_line s)))"
  by pat_completeness auto
termination
  by (relation "measure length") (auto simp: read_line_shorter)

declare lines_from.simps [simp del]

text \<open>\<open>seek(pos)\<close> and \<open>write(s)\<close>, for a position in the file.\<close>

definition write_at :: "nat \<Rightarrow> string \<Rightarrow> string \<Rightarrow> string" where
  "write_at pos s f = take pos f @ s @ drop (pos + length s) f"

lemma length_write_at: "pos \<le> length f \<Longrightarrow> length (write_at pos s f) = max (length f) (pos + length s)"
  by (simp add: write_at_def max_def)

section \<open>The mapping\<close>

text \<open>The object: the number of digits of an identity, the next identity, and the file.\<close>

record flat =
  ff_maxSize :: nat
  ff_currentId :: int
  ff_file :: string

text \<open>\<open>s.zfill(n)\<close> of a number keeps its sign in front.\<close>

definition zfill_int :: "nat \<Rightarrow> int \<Rightarrow> string" where
  "zfill_int n i = (if i < 0 then CHR ''-'' # zfill (n - 1) (str_of_int (- i)) else zfill n (str_of_int i))"

definition canonicalId :: "nat \<Rightarrow> int option \<Rightarrow> string" where
  "canonicalId n i = (case i of Some k \<Rightarrow> zfill_int n k | None \<Rightarrow> replicate n CHR ''-'')"

definition incrementCurrentId :: "flat \<Rightarrow> flat" where
  "incrementCurrentId ff =
     (let k = ff_currentId ff + 1 in
      ff\<lparr>ff_currentId := k, ff_file := write_at 0 (canonicalId (ff_maxSize ff) (Some k) @ [LF]) (ff_file ff)\<rparr>)"

text \<open>\<open>__init__\<close> with the default size; \<open>None\<close> is a file that does not exist.\<close>

definition rstrip_ws :: "string \<Rightarrow> string" where
  "rstrip_ws s = rev (skip_ws (rev s))"

definition FlatfileMapping_new :: "string option \<Rightarrow> flat res" where
  "FlatfileMapping_new f = (case f of
     None \<Rightarrow> Inr (incrementCurrentId \<lparr>ff_maxSize = 6, ff_currentId = 0, ff_file = []\<rparr>)
   | Some t \<Rightarrow>
       (let strId = rstrip_ws (fst (read_line t)) in
        case int_of_str strId of
          Inl e \<Rightarrow> Inl DbError
        | Inr k \<Rightarrow> Inr \<lparr>ff_maxSize = length strId, ff_currentId = k, ff_file = t\<rparr>))"

definition splitLine :: "string \<Rightarrow> (string \<times> string) res" where
  "splitLine line = (case split_char1 CHR '':'' (rstrip_in [CHR 0x0D, LF] line) of
     (i, Some s) \<Rightarrow> Inr (i, s)
   | (i, None) \<Rightarrow> Inl ValueError)"

definition joinLine :: "nat \<Rightarrow> int \<Rightarrow> string \<Rightarrow> string" where
  "joinLine n i s = canonicalId n (Some i) @ '':'' @ s @ [LF]"

definition flat_add :: "string \<Rightarrow> (flat, int) act" where
  "flat_add s = (\<lambda>ff. (Inr (ff_currentId ff),
     incrementCurrentId (ff\<lparr>ff_file := ff_file ff @ joinLine (ff_maxSize ff) (ff_currentId ff) s\<rparr>)))"

fun find_line :: "string \<Rightarrow> string list \<Rightarrow> string res" where
  "find_line strId [] = Inl NoRecordError"
| "find_line strId (line # lines) =
     bindR (splitLine line) (\<lambda>(lineId, s). if lineId = strId then Inr s else find_line strId lines)"

definition flat_get :: "int \<Rightarrow> (flat, string) act" where
  "flat_get i = (\<lambda>ff.
     (find_line (canonicalId (ff_maxSize ff) (Some i)) (lines_from (snd (read_line (ff_file ff)))), ff))"

text \<open>
  The loop of \<open>remove\<close> over the positions of the lines.  It goes on behind the line it finds, and finds
  nothing is no error.
\<close>

lemma remove_step:
  fixes f :: string
  assumes "drop pos f \<noteq> []" and f': "f' = f \<or> f' = write_at pos (replicate n CHR ''-'') f"
  shows "length f' - (pos + length (fst (read_line (drop pos f')))) < length f - pos"
proof -
  let ?l = "fst (read_line (drop pos f'))"
  have pos: "pos < length f" using assms(1) by simp
  show ?thesis
  proof (cases "length f' = length f")
    case True
    then have "drop pos f' \<noteq> []" using pos by simp
    then have "0 < length ?l" by simp
    then show ?thesis using True pos by linarith
  next
    case False
    then have w: "f' = write_at pos (replicate n CHR ''-'') f" using f' by auto
    then have "length f < pos + n" using False pos length_write_at [of pos f "replicate n CHR ''-''"] by (auto simp: max_def split: if_splits)
    then have d: "drop pos f' = replicate n CHR ''-''" using pos by (simp add: w write_at_def)
    have "read_line (replicate n CHR ''-'') = (replicate n CHR ''-'', [])" by (induction n) auto
    then have "length ?l = length (drop pos f')" using d by simp
    then show ?thesis using pos by simp
  qed
qed

function remove_loop :: "nat \<Rightarrow> string \<Rightarrow> nat \<Rightarrow> string \<Rightarrow> unit res \<times> string" where
  "remove_loop n strId pos f =
     (let line = fst (read_line (drop pos f)) in
      if line = [] then (Inr (), f)
      else (case splitLine line of
          Inl e \<Rightarrow> (Inl e, f)
        | Inr (lineId, _) \<Rightarrow>
            (let f' = (if lineId = strId then write_at pos (canonicalId n None) f else f) in
             remove_loop n strId (pos + length (fst (read_line (drop pos f')))) f')))"
  by pat_completeness auto
termination
  by (relation "measure (\<lambda>(n, strId, pos, f). length f - pos)")
    (auto simp: canonicalId_def dest: remove_step [where n = 0] intro!: remove_step)

declare remove_loop.simps [simp del]

definition flat_remove :: "int \<Rightarrow> (flat, unit) act" where
  "flat_remove i = (\<lambda>ff.
     case remove_loop (ff_maxSize ff) (canonicalId (ff_maxSize ff) (Some i)) (length (fst (read_line (ff_file ff)))) (ff_file ff) of
       (r, f) \<Rightarrow> (r, ff\<lparr>ff_file := f\<rparr>))"

definition flat_set :: "int \<Rightarrow> string \<Rightarrow> (flat, unit) act" where
  "flat_set i s =
     bindA (getA (\<lambda>ff. joinLine (ff_maxSize ff) i s)) (\<lambda>strLine.
       seqA (flat_remove i) (modifyA (\<lambda>ff. ff\<lparr>ff_file := ff_file ff @ strLine\<rparr>)))"

definition flat_iter :: "(flat, (int \<times> string) list) act" where
  "flat_iter = (\<lambda>ff.
     (bindR (mapR splitLine (lines_from (snd (read_line (ff_file ff))))) (\<lambda>ls.
        mapR (\<lambda>(i, s). bindR (int_of_str i) (\<lambda>k. Inr (k, s))) (filter (\<lambda>(i, s). \<not> startswith i ''-'') ls)), ff))"

definition flat_vacuum :: "(flat, unit) act" where
  "flat_vacuum = modifyA (\<lambda>ff. ff\<lparr>ff_file := fst (read_line (ff_file ff))
     @ concat (filter (\<lambda>line. \<not> startswith line ''-'') (lines_from (snd (read_line (ff_file ff)))))\<rparr>)"

end
