(* ===== verification/FlatLaws.thy ===== *)
theory FlatLaws
  imports FlatFile
begin

text \<open>
  The text of a flat file against its list of records: what each operation of \<open>FlatfileMapping\<close> does to the
  records.
\<close>

section \<open>Identities\<close>

lemma length_digits_of: "n < 10 ^ k \<Longrightarrow> 0 < k \<Longrightarrow> length (digits_of n) \<le> k"
proof (induction n arbitrary: k rule: digits_of.induct)
  case (1 n)
  show ?case
  proof (cases "n < 10")
    case False
    from \<open>0 < k\<close> obtain k' where k: "k = Suc k'" by (cases k) auto
    have "0 < k'" using False 1(2) k by (cases k') auto
    moreover have "n div 10 < 10 ^ k'" using 1(2) k by (simp add: div_less_iff_less_mult mult.commute)
    ultimately have "length (digits_of (n div 10)) \<le> k'" using 1(1) False by blast
    then show ?thesis using False k by (subst digits_of.simps) simp
  qed (use 1 in \<open>simp add: digits_of.simps\<close>)
qed

lemma nat_of_digits_zeros: "nat_of_digits (replicate m CHR ''0'' @ s) = nat_of_digits s"
  by (induction m) (simp_all add: nat_of_digits_def digit_val_def)

definition fits :: "nat \<Rightarrow> int \<Rightarrow> bool" where
  "fits n i \<longleftrightarrow> 0 < n \<and> 0 \<le> i \<and> i < 10 ^ n"

lemma canonicalId_Some: "0 \<le> i \<Longrightarrow> canonicalId n (Some i) = replicate (n - length (digits_of (nat i))) CHR ''0'' @ digits_of (nat i)"
  by (simp add: canonicalId_def zfill_int_def zfill_def str_of_int_def str_of_nat_def)

lemma canonicalId_digits: "0 \<le> i \<Longrightarrow> c \<in> set (canonicalId n (Some i)) \<Longrightarrow> is_digit c"
  by (auto simp: canonicalId_Some is_digit_def dest: digits_of_digit [unfolded is_digit_def] split: if_splits)

lemma canonicalId_nonempty: "0 \<le> i \<Longrightarrow> canonicalId n (Some i) \<noteq> []"
  by (simp add: canonicalId_Some)

lemma length_canonicalId: "fits n i \<Longrightarrow> length (canonicalId n (Some i)) = n"
  using length_digits_of [of "nat i" n] by (simp add: canonicalId_Some fits_def nat_less_iff)

lemma int_of_canonicalId: "0 \<le> i \<Longrightarrow> int_of_str (canonicalId n (Some i)) = Inr i"
proof -
  assume i: "0 \<le> i"
  let ?t = "canonicalId n (Some i)"
  have d: "\<forall>c \<in> set ?t. is_digit c" using canonicalId_digits [OF i] by blast
  then have "no_space ?t" using digit_not_space by blast
  then have s: "strip_ws ?t = ?t" by (rule strip_ws_no_space)
  have "is_digit (hd ?t)" using d canonicalId_nonempty [OF i, of n] by simp
  then have "hd ?t \<noteq> CHR ''-''" "hd ?t \<noteq> CHR ''+''" using digit_not_sign by blast+
  moreover have "nat_of_digits ?t = nat i" using i by (simp add: canonicalId_Some nat_of_digits_zeros)
  ultimately show ?thesis using s d i canonicalId_nonempty [OF i, of n] by (simp add: int_of_str_def Let_def)
qed

lemma canonicalId_inj: "0 \<le> i \<Longrightarrow> 0 \<le> j \<Longrightarrow> canonicalId n (Some i) = canonicalId n' (Some j) \<Longrightarrow> i = j"
  using int_of_canonicalId [of i n] int_of_canonicalId [of j n'] by simp

lemma canonicalId_not_dash: "0 \<le> i \<Longrightarrow> \<not> startswith (canonicalId n (Some i)) ''-''"
  using canonicalId_digits [of i "hd (canonicalId n (Some i))" n] canonicalId_nonempty [of i n] hd_in_set digit_not_sign
  by (cases "canonicalId n (Some i)") (auto simp: startswith_def)

text \<open>The identity of a line: one that fits, or dashes.\<close>

definition entry_id :: "nat \<Rightarrow> int option \<Rightarrow> bool" where
  "entry_id n oid \<longleftrightarrow> (case oid of None \<Rightarrow> 0 < n | Some i \<Rightarrow> fits n i)"

lemma canonicalId_chars:
  assumes "entry_id n oid"
  shows "CHR '':'' \<notin> set (canonicalId n oid)" "LF \<notin> set (canonicalId n oid)" "length (canonicalId n oid) = n"
proof -
  have "CHR '':'' \<notin> set (canonicalId n oid) \<and> LF \<notin> set (canonicalId n oid)"
  proof (cases oid)
    case None
    then show ?thesis by (simp add: canonicalId_def)
  next
    case (Some i)
    then have "0 \<le> i" using assms by (simp add: entry_id_def fits_def)
    moreover have "\<not> is_digit CHR '':''" "\<not> is_digit LF" by (simp_all add: is_digit_def)
    ultimately show ?thesis using canonicalId_digits [of i _ n] Some by blast
  qed
  then show "CHR '':'' \<notin> set (canonicalId n oid)" "LF \<notin> set (canonicalId n oid)" by simp_all
  show "length (canonicalId n oid) = n"
    using assms length_canonicalId by (cases oid) (simp_all add: entry_id_def canonicalId_def)
qed

lemma canonicalId_eq:
  assumes "entry_id n oid" "0 \<le> i"
  shows "canonicalId n oid = canonicalId n (Some i) \<longleftrightarrow> oid = Some i"
proof (cases oid)
  case None
  have "startswith (canonicalId n None) ''-''" using assms(1) None by (cases n) (simp_all add: entry_id_def canonicalId_def startswith_def)
  then show ?thesis using canonicalId_not_dash [OF assms(2), of n] None by auto
next
  case (Some j)
  then show ?thesis using assms canonicalId_inj [of j i n n] by (auto simp: entry_id_def fits_def)
qed

section \<open>Lines\<close>

definition flat_line :: "nat \<Rightarrow> int option \<times> string \<Rightarrow> string" where
  "flat_line n e = canonicalId n (fst e) @ '':'' @ snd e @ [LF]"

text \<open>A string that a line can hold.\<close>

definition storable :: "string \<Rightarrow> bool" where
  "storable s \<longleftrightarrow> LF \<notin> set s \<and> (s = [] \<or> last s \<noteq> CHR 0x0D)"

definition entry_ok :: "nat \<Rightarrow> int option \<times> string \<Rightarrow> bool" where
  "entry_ok n e \<longleftrightarrow> entry_id n (fst e) \<and> storable (snd e)"

lemma read_line_LF: "LF \<notin> set l \<Longrightarrow> read_line (l @ LF # r) = (l @ [LF], r)"
  by (induction l) auto

lemma read_flat_line: "entry_ok n e \<Longrightarrow> read_line (flat_line n e @ r) = (flat_line n e, r)"
  using read_line_LF [of "canonicalId n (fst e) @ '':'' @ snd e" r] canonicalId_chars(2) [of n "fst e"]
  by (simp add: entry_ok_def storable_def flat_line_def)

lemma lines_flat: "\<forall>e \<in> set es. entry_ok n e \<Longrightarrow> lines_from (concat (map (flat_line n) es)) = map (flat_line n) es"
proof (induction es)
  case (Cons e es)
  have "flat_line n e \<noteq> []" by (simp add: flat_line_def)
  with Cons read_flat_line [of n e "concat (map (flat_line n) es)"] show ?case by (subst lines_from.simps) simp
qed (simp add: lines_from.simps)

lemma splitLine_line:
  assumes "CHR '':'' \<notin> set i" "storable s"
  shows "splitLine (i @ '':'' @ s @ [LF]) = Inr (i, s)"
proof -
  have "rstrip_in [CHR 0x0D, LF] (i @ '':'' @ s @ [LF]) = i @ '':'' @ s"
    using assms(2) by (cases s rule: rev_cases) (auto simp: rstrip_in_def storable_def)
  then show ?thesis using assms(1) by (simp add: splitLine_def)
qed

lemma splitLine_flat: "entry_ok n e \<Longrightarrow> splitLine (flat_line n e) = Inr (canonicalId n (fst e), snd e)"
  unfolding flat_line_def by (rule splitLine_line) (simp_all add: entry_ok_def canonicalId_chars(1))

section \<open>The records\<close>

definition flat_text :: "nat \<Rightarrow> int \<Rightarrow> (int option \<times> string) list \<Rightarrow> string" where
  "flat_text n k es = canonicalId n (Some k) @ LF # concat (map (flat_line n) es)"

definition flat_ok :: "flat \<Rightarrow> (int option \<times> string) list \<Rightarrow> bool" where
  "flat_ok ff es \<longleftrightarrow> ff_file ff = flat_text (ff_maxSize ff) (ff_currentId ff) es
     \<and> fits (ff_maxSize ff) (ff_currentId ff) \<and> (\<forall>e \<in> set es. entry_ok (ff_maxSize ff) e)"

lemma read_header: "0 \<le> k \<Longrightarrow> read_line (flat_text n k es) = (canonicalId n (Some k) @ [LF], concat (map (flat_line n) es))"
  unfolding flat_text_def by (rule read_line_LF) (use canonicalId_digits [of k LF n] in \<open>auto simp: is_digit_def\<close>)

lemma flat_okD:
  assumes "flat_ok ff es"
  shows "fits (ff_maxSize ff) (ff_currentId ff)" "\<And>e. e \<in> set es \<Longrightarrow> entry_ok (ff_maxSize ff) e"
    "read_line (ff_file ff) = (canonicalId (ff_maxSize ff) (Some (ff_currentId ff)) @ [LF], concat (map (flat_line (ff_maxSize ff)) es))"
    "lines_from (snd (read_line (ff_file ff))) = map (flat_line (ff_maxSize ff)) es"
  using assms read_header lines_flat unfolding flat_ok_def by (auto simp: fits_def)

text \<open>A header of the same length is replaced.\<close>

lemma write_header:
  assumes "fits n k" "fits n k'"
  shows "write_at 0 (canonicalId n (Some k') @ [LF]) (flat_text n k es) = flat_text n k' es"
  using length_canonicalId [OF assms(1)] length_canonicalId [OF assms(2)] by (simp add: write_at_def flat_text_def)

lemma flat_new:
  "FlatfileMapping_new None = Inr \<lparr>ff_maxSize = 6, ff_currentId = 1, ff_file = flat_text 6 1 []\<rparr>"
  by (simp add: FlatfileMapping_new_def incrementCurrentId_def Let_def write_at_def flat_text_def)

lemma new_flat_ok: "flat_ok \<lparr>ff_maxSize = 6, ff_currentId = 1, ff_file = flat_text 6 1 []\<rparr> []"
  by (simp add: flat_ok_def fits_def)

lemma reopen_header:
  assumes "0 \<le> k"
  shows "FlatfileMapping_new (Some (canonicalId n (Some k) @ LF # r))
    = Inr \<lparr>ff_maxSize = length (canonicalId n (Some k)), ff_currentId = k, ff_file = canonicalId n (Some k) @ LF # r\<rparr>"
proof -
  let ?h = "canonicalId n (Some k)"
  have "read_line (?h @ LF # r) = (?h @ [LF], r)"
    by (rule read_line_LF) (use canonicalId_digits [OF assms, of LF n] in \<open>auto simp: is_digit_def\<close>)
  moreover have "no_space (rev ?h)" using canonicalId_digits [OF assms] digit_not_space by auto
  then have "dropWhile is_space (rev ?h) = rev ?h" by (cases "rev ?h") auto
  then have "rstrip_ws (?h @ [LF]) = ?h" by (simp add: rstrip_ws_def skip_ws_def is_space_def)
  ultimately show ?thesis using int_of_canonicalId [OF assms] by (simp add: FlatfileMapping_new_def Let_def)
qed

lemma flat_reopen: "flat_ok ff es \<Longrightarrow> FlatfileMapping_new (Some (ff_file ff)) = Inr ff"
  using reopen_header [of "ff_currentId ff" "ff_maxSize ff" "concat (map (flat_line (ff_maxSize ff)) es)"]
    length_canonicalId [of "ff_maxSize ff" "ff_currentId ff"]
  by (auto simp: flat_ok_def flat_text_def fits_def)

definition flat_find :: "(int option \<times> string) list \<Rightarrow> int \<Rightarrow> string option" where
  "flat_find es i = map_of es (Some i)"

lemma find_line_flat:
  assumes "\<forall>e \<in> set es. entry_ok n e" "0 \<le> i"
  shows "find_line (canonicalId n (Some i)) (map (flat_line n) es) = (case flat_find es i of Some s \<Rightarrow> Inr s | None \<Rightarrow> Inl NoRecordError)"
  using assms(1)
proof (induction es)
  case (Cons e es)
  then have "canonicalId n (fst e) = canonicalId n (Some i) \<longleftrightarrow> fst e = Some i" using canonicalId_eq assms(2) by (simp add: entry_ok_def)
  with Cons splitLine_flat [of n e] show ?case by (auto simp: flat_find_def)
qed (simp add: flat_find_def)

lemma flat_get_finds:
  assumes "flat_ok ff es" "0 \<le> i"
  shows "flat_get i ff = (case flat_find es i of Some s \<Rightarrow> Inr s | None \<Rightarrow> Inl NoRecordError, ff)"
  using find_line_flat [of es "ff_maxSize ff" i] flat_okD(2,4) [OF assms(1)] assms(2) by (simp add: flat_get_def)

lemma flat_add_appends:
  assumes "flat_ok ff es" "storable s" "fits (ff_maxSize ff) (ff_currentId ff + 1)"
  shows "\<exists>ff'. flat_add s ff = (Inr (ff_currentId ff), ff') \<and> flat_ok ff' (es @ [(Some (ff_currentId ff), s)])
    \<and> ff_currentId ff' = ff_currentId ff + 1 \<and> ff_maxSize ff' = ff_maxSize ff"
proof -
  let ?n = "ff_maxSize ff" and ?k = "ff_currentId ff"
  have "ff_file ff @ joinLine ?n ?k s = flat_text ?n ?k (es @ [(Some ?k, s)])"
    using assms(1) by (simp add: flat_ok_def flat_text_def joinLine_def flat_line_def)
  then have "ff_file (snd (flat_add s ff)) = flat_text ?n (?k + 1) (es @ [(Some ?k, s)])"
    using write_header [OF flat_okD(1) [OF assms(1)] assms(3)] by (simp add: flat_add_def incrementCurrentId_def Let_def)
  moreover have "entry_ok ?n e" if "e \<in> set (es @ [(Some ?k, s)])" for e
    using that assms(2) flat_okD(1) [OF assms(1)] flat_okD(2) [OF assms(1), of e] by (cases "e \<in> set es") (auto simp: entry_ok_def entry_id_def)
  ultimately show ?thesis using assms(3) by (simp add: flat_add_def incrementCurrentId_def Let_def flat_ok_def)
qed

text \<open>Removing writes dashes over every line with the identity.\<close>

definition dashed :: "int \<Rightarrow> int option \<times> string \<Rightarrow> int option \<times> string" where
  "dashed i e = (if fst e = Some i then (None, snd e) else e)"

lemma dashed_ok: "entry_ok n e \<Longrightarrow> entry_ok n (dashed i e)"
  by (auto simp: entry_ok_def dashed_def entry_id_def fits_def)

lemma write_dashes:
  assumes "entry_ok n e"
  shows "write_at (length pre) (canonicalId n None) (pre @ flat_line n e @ r) = pre @ flat_line n (None, snd e) @ r"
  using canonicalId_chars(3) [of n "fst e"] assms
  by (simp add: write_at_def flat_line_def entry_ok_def canonicalId_def)

lemma remove_loop_flat:
  assumes "\<forall>e \<in> set es. entry_ok n e" "0 \<le> i"
  shows "remove_loop n (canonicalId n (Some i)) (length pre) (pre @ concat (map (flat_line n) es))
    = (Inr (), pre @ concat (map (flat_line n) (map (dashed i) es)))"
  using assms(1)
proof (induction es arbitrary: pre)
  case (Cons e es)
  let ?r = "concat (map (flat_line n) es)" and ?f' = "pre @ flat_line n (dashed i e) @ concat (map (flat_line n) es)"
  have e: "entry_ok n e" using Cons.prems by simp
  note rd = read_flat_line [OF e, of ?r] and rd' = read_flat_line [OF dashed_ok [OF e], of i ?r]
  have "flat_line n e \<noteq> []" by (simp add: flat_line_def)
  moreover have same: "canonicalId n (fst e) = canonicalId n (Some i) \<longleftrightarrow> fst e = Some i"
    using canonicalId_eq [of n "fst e" i] e assms(2) by (simp add: entry_ok_def)
  moreover have "fst e = Some i \<Longrightarrow> write_at (length pre) (canonicalId n None) (pre @ flat_line n e @ ?r) = ?f'"
    "fst e \<noteq> Some i \<Longrightarrow> pre @ flat_line n e @ ?r = ?f'"
    using write_dashes [OF e] by (simp_all add: dashed_def)
  ultimately have "remove_loop n (canonicalId n (Some i)) (length pre) (pre @ concat (map (flat_line n) (e # es)))
      = remove_loop n (canonicalId n (Some i)) (length pre + length (flat_line n (dashed i e))) ?f'"
    using rd rd' splitLine_flat [OF e] by (subst remove_loop.simps) (cases "fst e = Some i", simp_all add: Let_def)
  also have "\<dots> = (Inr (), (pre @ flat_line n (dashed i e)) @ concat (map (flat_line n) (map (dashed i) es)))"
    using Cons.IH [of "pre @ flat_line n (dashed i e)"] Cons.prems by simp
  finally show ?case by simp
qed (simp add: remove_loop.simps)

lemma flat_remove_dashes:
  assumes "flat_ok ff es" "0 \<le> i"
  shows "\<exists>ff'. flat_remove i ff = (Inr (), ff') \<and> flat_ok ff' (map (dashed i) es)
    \<and> ff_currentId ff' = ff_currentId ff \<and> ff_maxSize ff' = ff_maxSize ff"
proof -
  let ?n = "ff_maxSize ff" and ?h = "canonicalId (ff_maxSize ff) (Some (ff_currentId ff)) @ [LF]"
  have "ff_file ff = ?h @ concat (map (flat_line ?n) es)" using assms(1) by (simp add: flat_ok_def flat_text_def)
  then have "remove_loop ?n (canonicalId ?n (Some i)) (length (fst (read_line (ff_file ff)))) (ff_file ff)
      = (Inr (), ?h @ concat (map (flat_line ?n) (map (dashed i) es)))"
    using remove_loop_flat [of es ?n i ?h] flat_okD(2,3) [OF assms(1)] assms(2) by (simp del: map_map)
  then show ?thesis
    using assms(1) dashed_ok by (fastforce simp: flat_remove_def flat_ok_def flat_text_def)
qed

lemma flat_set_moves:
  assumes "flat_ok ff es" "fits (ff_maxSize ff) i" "storable s"
  shows "\<exists>ff'. flat_set i s ff = (Inr (), ff') \<and> flat_ok ff' (map (dashed i) es @ [(Some i, s)])
    \<and> ff_currentId ff' = ff_currentId ff \<and> ff_maxSize ff' = ff_maxSize ff"
proof -
  have "0 \<le> i" using assms(2) by (simp add: fits_def)
  from flat_remove_dashes [OF assms(1) this] obtain ff' where ff': "flat_remove i ff = (Inr (), ff')"
    "flat_ok ff' (map (dashed i) es)" "ff_currentId ff' = ff_currentId ff" "ff_maxSize ff' = ff_maxSize ff" by blast
  let ?ff = "ff'\<lparr>ff_file := ff_file ff' @ joinLine (ff_maxSize ff) i s\<rparr>"
  have "flat_ok ?ff (map (dashed i) es @ [(Some i, s)])"
    using ff'(2,4) assms(2,3) by (auto simp: flat_ok_def flat_text_def joinLine_def flat_line_def entry_ok_def entry_id_def)
  then show ?thesis using ff' by (auto simp: flat_set_def act_defs)
qed

text \<open>Iteration and clean-up.\<close>

definition live :: "(int option \<times> string) list \<Rightarrow> (int \<times> string) list" where
  "live es = map (\<lambda>(i, s). (the i, s)) (filter (\<lambda>(i, s). i \<noteq> None) es)"

lemma live_simps [simp]: "live [] = []" "live ((Some i, s) # es) = (i, s) # live es" "live ((None, s) # es) = live es"
  by (simp_all add: live_def)

lemma live_append [simp]: "live (es @ fs) = live es @ live fs"
  by (simp add: live_def)

lemma map_of_live: "map_of (live es) i = flat_find es i"
proof (induction es)
  case (Cons e es)
  then show ?case by (cases e; cases "fst e") (auto simp: flat_find_def)
qed (simp add: flat_find_def)

lemma entry_dash: "entry_id n oid \<Longrightarrow> startswith (canonicalId n oid) ''-'' \<longleftrightarrow> oid = None"
  using canonicalId_not_dash [of _ n]
  by (cases oid; cases n) (auto simp: entry_id_def fits_def canonicalId_def startswith_def)

lemma flat_iter_live:
  assumes "flat_ok ff es"
  shows "flat_iter ff = (Inr (live es), ff)"
proof -
  let ?n = "ff_maxSize ff"
  note ok = flat_okD(2) [OF assms]
  have "mapR splitLine (map (flat_line ?n) es) = Inr (map (\<lambda>e. (canonicalId ?n (fst e), snd e)) es)"
    using ok splitLine_flat by (auto simp: mapR_Inr_iff list_all2_conv_all_nth)
  moreover have "mapR (\<lambda>(i, s). bindR (int_of_str i) (\<lambda>k. Inr (k, s)))
      (filter (\<lambda>(i, s). \<not> startswith i ''-'') (map (\<lambda>e. (canonicalId ?n (fst e), snd e)) es)) = Inr (live es)"
    using ok
  proof (induction es)
    case (Cons e es)
    then have ok: "entry_ok ?n e" and IH: "mapR (\<lambda>(i, s). bindR (int_of_str i) (\<lambda>k. Inr (k, s)))
      (filter (\<lambda>(i, s). \<not> startswith i ''-'') (map (\<lambda>e. (canonicalId ?n (fst e), snd e)) es)) = Inr (live es)" by simp_all
    then show ?case using entry_dash [of ?n "fst e"] int_of_canonicalId
      by (cases e; cases "fst e") (auto simp: entry_ok_def entry_id_def fits_def)
  qed simp
  ultimately show ?thesis using flat_okD(4) [OF assms] by (simp add: flat_iter_def)
qed

lemma flat_vacuum_cleans:
  assumes "flat_ok ff es"
  shows "\<exists>ff'. flat_vacuum ff = (Inr (), ff') \<and> flat_ok ff' (filter (\<lambda>e. fst e \<noteq> None) es)
    \<and> ff_currentId ff' = ff_currentId ff \<and> ff_maxSize ff' = ff_maxSize ff"
proof -
  let ?n = "ff_maxSize ff"
  have "startswith (flat_line ?n e) ''-'' \<longleftrightarrow> fst e = None" if "e \<in> set es" for e
  proof -
    have "entry_id ?n (fst e)" using flat_okD(2) [OF assms that] by (simp add: entry_ok_def)
    moreover have "canonicalId ?n (fst e) \<noteq> []" using canonicalId_chars(3) [OF calculation] calculation
      by (auto simp: entry_id_def fits_def split: option.splits)
    then have "startswith (flat_line ?n e) ''-'' = startswith (canonicalId ?n (fst e)) ''-''"
      by (cases "canonicalId ?n (fst e)") (simp_all add: flat_line_def startswith_def)
    ultimately show ?thesis using entry_dash by simp
  qed
  then have "filter (\<lambda>line. \<not> startswith line ''-'') (map (flat_line ?n) es) = map (flat_line ?n) (filter (\<lambda>e. fst e \<noteq> None) es)"
    by (simp add: filter_map o_def cong: filter_cong)
  then show ?thesis
    using assms flat_okD(1,2,3,4) [OF assms] by (auto simp: flat_vacuum_def modifyA_def flat_ok_def flat_text_def)
qed


section \<open>The last identity\<close>

lemma digits_of_pow: "length (digits_of (10 ^ n)) = Suc n"
proof (induction n)
  case (Suc n)
  have "char_of (48 :: nat) = CHR ''0''" by code_simp
  moreover have "\<not> 10 ^ Suc n < (10 :: nat)" by simp
  ultimately have "digits_of (10 ^ Suc n) = digits_of (10 ^ n) @ [CHR ''0'']" by (subst digits_of.simps) simp
  with Suc show ?case by simp
qed (simp add: digits_of.simps)

lemma find_line_absent: "\<forall>l \<in> set lines. \<exists>i s. splitLine l = Inr (i, s) \<and> i \<noteq> strId \<Longrightarrow> find_line strId lines = Inl NoRecordError"
  by (induction lines) auto

text \<open>The file after a record with the last identity of \<open>n\<close> digits.\<close>

lemma longer_header:
  assumes "0 < n" "\<forall>x \<in> set (e # es). entry_ok n x"
  shows "write_at 0 (canonicalId n (Some (10 ^ n)) @ [LF]) (flat_text n (10 ^ n - 1) (e # es))
    = canonicalId n (Some (10 ^ n)) @ LF # tl (canonicalId n (fst e)) @ '':'' @ snd e @ [LF] @ concat (map (flat_line n) es)"
proof -
  have "fits n (10 ^ n - 1)" using assms(1) by (simp add: fits_def)
  from length_canonicalId [OF this] have old: "length (canonicalId n (Some (10 ^ n - 1))) = n" .
  have "length (canonicalId n (Some (10 ^ n))) = Suc n" by (simp add: canonicalId_Some nat_power_eq digits_of_pow)
  moreover have "length (canonicalId n (fst e)) = n" using assms(2) canonicalId_chars(3) by (simp add: entry_ok_def)
  then obtain c cs where "canonicalId n (fst e) = c # cs" using assms(1) by (cases "canonicalId n (fst e)") auto
  ultimately show ?thesis using old by (simp add: write_at_def flat_text_def flat_line_def)
qed

lemma lost_lines:
  assumes "0 < n" "\<forall>x \<in> set (e # es). entry_ok n x" "n < length strId"
  shows "find_line strId (lines_from (tl (canonicalId n (fst e)) @ '':'' @ snd e @ [LF] @ concat (map (flat_line n) es))) = Inl NoRecordError"
proof (rule find_line_absent)
  let ?i = "tl (canonicalId n (fst e))" and ?r = "concat (map (flat_line n) es)"
  have e: "entry_id n (fst e)" "storable (snd e)" using assms(2) by (simp_all add: entry_ok_def)
  note id = canonicalId_chars [OF e(1)]
  then have i: "CHR '':'' \<notin> set ?i" "LF \<notin> set ?i" "length ?i < n" using assms(1) list.set_sel(2) [of "canonicalId n (fst e)"] by fastforce+
  then have "read_line ((?i @ '':'' @ snd e) @ LF # ?r) = ((?i @ '':'' @ snd e) @ [LF], ?r)"
    by (intro read_line_LF) (use e(2) in \<open>simp add: storable_def\<close>)
  then have "lines_from (?i @ '':'' @ snd e @ [LF] @ ?r) = (?i @ '':'' @ snd e @ [LF]) # map (flat_line n) es"
    using lines_flat [of es n] assms(2) by (subst lines_from.simps) simp
  moreover have "\<exists>i s. splitLine (?i @ '':'' @ snd e @ [LF]) = Inr (i, s) \<and> i \<noteq> strId"
    using splitLine_line [OF i(1) e(2)] i(3) assms(3) by auto
  moreover have "\<exists>i s. splitLine (flat_line n x) = Inr (i, s) \<and> i \<noteq> strId" if "x \<in> set es" for x
    using splitLine_flat [of n x] canonicalId_chars(3) [of n "fst x"] assms(2,3) that by (auto simp: entry_ok_def)
  ultimately show "\<forall>l \<in> set (lines_from (?i @ '':'' @ snd e @ [LF] @ ?r)). \<exists>i s. splitLine l = Inr (i, s) \<and> i \<noteq> strId" by auto
qed

end
