(* ===== verification/Dbi.thy ===== *)
theory Dbi
  imports FlatFile CdbWriter
begin

text \<open>
  The rest of \<open>dbi.py\<close>: the interface of a mapping, its two implementations, the database of records over a mapping,
  and the records, which are written as one line of comma separated values.
\<close>

section \<open>Mappings\<close>

text \<open>An object with the methods of \<open>MappingInterface\<close>.\<close>

record 's mapping =
  mp_get :: "int \<Rightarrow> ('s, string) act"
  mp_set :: "int \<Rightarrow> string \<Rightarrow> ('s, unit) act"
  mp_add :: "string \<Rightarrow> ('s, int) act"
  mp_remove :: "int \<Rightarrow> ('s, unit) act"
  mp_iter :: "('s, (int \<times> string) list) act"
  mp_flush :: "('s, unit) act"
  mp_close :: "('s, unit) act"
  mp_vacuum :: "('s, unit) act"

definition FlatfileMapping :: "flat mapping" where
  "FlatfileMapping = \<lparr>mp_get = flat_get, mp_set = flat_set, mp_add = flat_add, mp_remove = flat_remove,
     mp_iter = flat_iter, mp_flush = retA (), mp_close = flat_vacuum, mp_vacuum = flat_vacuum\<rparr>"

text \<open>\<open>CdbMapping\<close>: identities are written in decimal; the key \<open>nextId\<close> has the next one.\<close>

definition nextId :: string where
  "nextId = ''nextId''"

definition getNextId :: "(ReaderWriter, int) act" where
  "getNextId = bindA (ReaderWriter_getitem nextId) (\<lambda>s. bindA (liftA (int_of_str s)) (\<lambda>i.
     seqA (ReaderWriter_setitem nextId (str_of_int (i + 1))) (retA i)))"

definition cdb_get :: "int \<Rightarrow> (ReaderWriter, string) act" where
  "cdb_get i = (\<lambda>rw. case ReaderWriter_getitem (str_of_int i) rw of
     (Inr s, rw') \<Rightarrow> (Inr s, rw')
   | (Inl e, rw') \<Rightarrow> (Inl (if e = KeyError then NoRecordError else e), rw'))"

definition cdb_set :: "int \<Rightarrow> string \<Rightarrow> (ReaderWriter, unit) act" where
  "cdb_set i s = ReaderWriter_setitem (str_of_int i) s"

definition cdb_add :: "string \<Rightarrow> (ReaderWriter, int) act" where
  "cdb_add s = bindA getNextId (\<lambda>i. seqA (cdb_set i s) (retA i))"

definition cdb_remove :: "int \<Rightarrow> (ReaderWriter, unit) act" where
  "cdb_remove i = ReaderWriter_delitem (str_of_int i)"

definition cdb_iter :: "(ReaderWriter, (int \<times> string) list) act" where
  "cdb_iter = bindA ReaderWriter_items (\<lambda>items.
     liftA (mapR (\<lambda>(i, s). bindR (int_of_str i) (\<lambda>k. Inr (k, s))) (filter (\<lambda>(i, s). i \<noteq> nextId) items)))"

definition CdbMapping :: "ReaderWriter mapping" where
  "CdbMapping = \<lparr>mp_get = cdb_get, mp_set = cdb_set, mp_add = cdb_add, mp_remove = cdb_remove,
     mp_iter = cdb_iter, mp_flush = ReaderWriter_flush, mp_close = ReaderWriter_close, mp_vacuum = retA ()\<rparr>"

text \<open>\<open>__init__\<close> of \<open>CdbMapping\<close>; \<open>None\<close> is a file that does not exist.\<close>

definition CdbMapping_new :: "string option \<Rightarrow> string \<Rightarrow> ReaderWriter res" where
  "CdbMapping_new f journal =
     bindR (cdb_open CHR ''c'' f journal NoLimit) (\<lambda>h. case h of
       HWriter rw \<Rightarrow>
         (case bindA (ReaderWriter_contains nextId) (\<lambda>b. if b then retA () else ReaderWriter_setitem nextId ''1'') rw of
            (Inr _, rw') \<Rightarrow> Inr rw'
          | (Inl e, _) \<Rightarrow> Inl e)
     | HReader rd \<Rightarrow> Inl TypeError)"

section \<open>Comma separated values\<close>

text \<open>
  \<open>csv.join\<close> and \<open>csv.split\<close> of \<open>utils/__init__.py\<close>: one line of the writer and the reader of Python's \<open>csv\<close> with its
  default dialect.  A field is quoted when it has a comma, a quote or a line break, or is alone and empty.
\<close>

abbreviation QUOTE :: char where
  "QUOTE \<equiv> CHR 0x22"

abbreviation CR :: char where
  "CR \<equiv> CHR 0x0D"

definition csv_field :: "bool \<Rightarrow> string \<Rightarrow> string" where
  "csv_field alone s =
     (if s = [] \<and> alone \<or> (\<exists>c \<in> set s. c \<in> {CHR '','', QUOTE, CR, LF})
      then QUOTE # replace_char QUOTE [QUOTE, QUOTE] s @ [QUOTE] else s)"

definition csv_join :: "string list \<Rightarrow> string" where
  "csv_join row = join_char CHR '','' (map (csv_field (length row = 1)) row)"

text \<open>The states of the reader; it stops at the end of the row.\<close>

datatype csv_state = StartRecord | StartField | InField | InQuoted | QuoteInQuoted | EatCrnl

fun csv_run :: "csv_state \<Rightarrow> string \<Rightarrow> string list \<Rightarrow> string \<Rightarrow> string list res" where
  "csv_run st field row [] = Inr (if st = StartRecord \<or> st = EatCrnl then row else row @ [field])"
| "csv_run st field row (c # cs) =
     (if c = CHR 0x00 then Inl CsvError
      else (case st of
        EatCrnl \<Rightarrow> if c = LF then Inr row else if c = CR then csv_run EatCrnl [] row cs else Inl CsvError
      | InQuoted \<Rightarrow> if c = QUOTE then csv_run QuoteInQuoted field row cs else csv_run InQuoted (field @ [c]) row cs
      | _ \<Rightarrow>
          if c = LF then Inr (if st = StartRecord then row else row @ [field])
          else if c = CR then csv_run EatCrnl [] (if st = StartRecord then row else row @ [field]) cs
          else if c = QUOTE \<and> (st = StartRecord \<or> st = StartField) then csv_run InQuoted [] row cs
          else if c = QUOTE \<and> st = QuoteInQuoted then csv_run InQuoted (field @ [QUOTE]) row cs
          else if c = CHR '','' then csv_run StartField [] (row @ [field]) cs
          else csv_run InField (field @ [c]) row cs))"

definition csv_split :: "string \<Rightarrow> string list res" where
  "csv_split s = (if s = [] then Inl StopIteration else csv_run StartRecord [] [] s)"

section \<open>Records\<close>

text \<open>A field of a class of records: its name, its converter and its default; the values are of any type.\<close>

record 'v field =
  fd_name :: string
  fd_converter :: "string \<Rightarrow> 'v res"
  fd_default :: 'v

record 'v Record =
  rc_id :: "int option"
  rc_values :: "(string, 'v) dict"

definition Record_new :: "'v field list \<Rightarrow> int option \<Rightarrow> (string, 'v) dict \<Rightarrow> 'v Record res" where
  "Record_new fs i kwargs =
     py_assert (\<forall>(name, _) \<in> set kwargs. name \<in> fd_name ` set fs)
       (Inr \<lparr>rc_id = i, rc_values = fold (\<lambda>f vs. if dict_has kwargs (fd_name f) then vs else dict_set (fd_name f) (fd_default f) vs) fs kwargs\<rparr>)"

text \<open>\<open>repr\<close> is an argument.\<close>

definition Record_serialize :: "('v \<Rightarrow> string) \<Rightarrow> 'v field list \<Rightarrow> 'v Record \<Rightarrow> string res" where
  "Record_serialize repr fs r =
     bindR (mapR (\<lambda>f. case dict_get (rc_values r) (fd_name f) of Some v \<Rightarrow> Inr (repr v) | None \<Rightarrow> Inl AttributeError) fs)
       (\<lambda>strs. Inr (csv_join strs))"

definition Record_deserialize :: "'v field list \<Rightarrow> string \<Rightarrow> 'v Record \<Rightarrow> 'v Record res" where
  "Record_deserialize fs s r =
     bindR (csv_split s) (\<lambda>strs.
     bindR (foldR (\<lambda>(f, str) (unseen, vs).
         bindR (fd_converter f str) (\<lambda>v.
           if fd_name f \<in> set unseen then Inr (removeAll (fd_name f) unseen, dict_set (fd_name f) v vs) else Inl KeyError))
       (zip fs strs) (remdups (map fd_name fs), rc_values r)) (\<lambda>(unseen, vs).
     Inr (r\<lparr>rc_values := fold (\<lambda>f vs. if fd_name f \<in> set unseen then dict_set (fd_name f) (fd_default f) vs else vs) fs vs\<rparr>)))"

section \<open>The database\<close>

text \<open>The class of the records gives what \<open>_newRecord\<close> and \<open>serialize\<close> do.\<close>

record 'v record_class =
  rk_fields :: "'v field list"
  rk_repr :: "'v \<Rightarrow> string"

definition newRecord :: "'v record_class \<Rightarrow> int \<Rightarrow> string \<Rightarrow> 'v Record res" where
  "newRecord rk i s = bindR (Record_new (rk_fields rk) (Some i) []) (Record_deserialize (rk_fields rk) s)"

definition DB_get :: "'s mapping \<Rightarrow> 'v record_class \<Rightarrow> int \<Rightarrow> ('s, 'v Record) act" where
  "DB_get mp rk i = bindA (mp_get mp i) (\<lambda>s. liftA (newRecord rk i s))"

definition DB_set :: "'s mapping \<Rightarrow> 'v record_class \<Rightarrow> int \<Rightarrow> 'v Record \<Rightarrow> ('s, unit) act" where
  "DB_set mp rk i r = bindA (liftA (Record_serialize (rk_repr rk) (rk_fields rk) r)) (mp_set mp i)"

text \<open>\<open>add\<close> returns the identity and gives it to the record.\<close>

definition DB_add :: "'s mapping \<Rightarrow> 'v record_class \<Rightarrow> 'v Record \<Rightarrow> ('s, int \<times> 'v Record) act" where
  "DB_add mp rk r = bindA (liftA (Record_serialize (rk_repr rk) (rk_fields rk) r)) (\<lambda>s.
     bindA (mp_add mp s) (\<lambda>i. retA (i, r\<lparr>rc_id := Some i\<rparr>)))"

definition DB_remove :: "'s mapping \<Rightarrow> int \<Rightarrow> ('s, unit) act" where
  "DB_remove mp i = mp_remove mp i"

definition DB_iter :: "'s mapping \<Rightarrow> 'v record_class \<Rightarrow> ('s, 'v Record list) act" where
  "DB_iter mp rk = bindA (mp_iter mp) (\<lambda>items. liftA (mapR (\<lambda>(i, s). newRecord rk i s) items))"

definition DB_select :: "'s mapping \<Rightarrow> 'v record_class \<Rightarrow> ('v Record \<Rightarrow> bool) \<Rightarrow> ('s, 'v Record list) act" where
  "DB_select mp rk p = bindA (DB_iter mp rk) (\<lambda>rs. retA (filter p rs))"

text \<open>\<open>utils.iter.choice\<close> of an iterator: \<open>draw n\<close> tells whether the draw of the element \<open>n\<close> is below \<open>1 / n\<close>.\<close>

definition iter_choice :: "(nat \<Rightarrow> bool) \<Rightarrow> 'a list \<Rightarrow> 'a res" where
  "iter_choice draw xs =
     (case snd (foldl (\<lambda>(n, ret) x. (Suc n, if draw n then Some x else ret)) (1, None) xs) of
        None \<Rightarrow> Inl IndexError | Some x \<Rightarrow> Inr x)"

definition DB_random :: "'s mapping \<Rightarrow> 'v record_class \<Rightarrow> (nat \<Rightarrow> bool) \<Rightarrow> ('s, 'v Record option) act" where
  "DB_random mp rk draw = bindA (mp_iter mp) (\<lambda>items.
     case bindR (iter_choice draw items) (\<lambda>(i, s). newRecord rk i s) of
       Inr r \<Rightarrow> retA (Some r)
     | Inl e \<Rightarrow> if e = IndexError then retA None else raiseA e)"

definition DB_size :: "'s mapping \<Rightarrow> ('s, nat) act" where
  "DB_size mp = bindA (mp_iter mp) (\<lambda>items. retA (length items))"

end
