(* ===== verification/DbiLaws.thy ===== *)
theory DbiLaws
  imports FlatLaws Dbi CdbStore
begin

text \<open>
  The contract of a mapping from identities to strings, with the runs of operations and the database of records
  over it; the flat file keeps the whole contract, the constant database the part without removals.
\<close>

section \<open>Operations\<close>

datatype id_op = AddOp string | SetOp int string | RemoveOp int | FlushOp | VacuumOp

text \<open>An operation run, and what it means for the map and for the next identity.\<close>

definition id_act :: "'s mapping \<Rightarrow> id_op \<Rightarrow> 's \<Rightarrow> 's" where
  "id_act mp x s = (case x of
     AddOp t \<Rightarrow> snd (mp_add mp t s) | SetOp i t \<Rightarrow> snd (mp_set mp i t s) | RemoveOp i \<Rightarrow> snd (mp_remove mp i s)
   | FlushOp \<Rightarrow> snd (mp_flush mp s) | VacuumOp \<Rightarrow> snd (mp_vacuum mp s))"

fun id_spec :: "id_op \<Rightarrow> (int \<rightharpoonup> string) \<times> int \<Rightarrow> (int \<rightharpoonup> string) \<times> int" where
  "id_spec (AddOp t) (m, k) = (m(k \<mapsto> t), k + 1)"
| "id_spec (SetOp i t) (m, k) = (m(i \<mapsto> t), k)"
| "id_spec (RemoveOp i) (m, k) = (m(i := None), k)"
| "id_spec FlushOp (m, k) = (m, k)"
| "id_spec VacuumOp (m, k) = (m, k)"

text \<open>An operation is proper when its string can be stored and an identity it sets has been issued.\<close>

fun op_ok :: "(string \<Rightarrow> bool) \<Rightarrow> int \<Rightarrow> id_op \<Rightarrow> bool" where
  "op_ok ok k (AddOp t) = ok t"
| "op_ok ok k (SetOp i t) = (ok t \<and> 0 \<le> i \<and> i < k)"
| "op_ok ok k (RemoveOp i) = (0 \<le> i)"
| "op_ok ok k x = True"

fun op_cost :: "(int \<Rightarrow> string \<Rightarrow> int) \<Rightarrow> int \<Rightarrow> id_op \<Rightarrow> int" where
  "op_cost cost k (AddOp t) = cost k t"
| "op_cost cost k (SetOp i t) = cost i t"
| "op_cost cost k x = 0"

definition op_next :: "int \<Rightarrow> id_op \<Rightarrow> int" where
  "op_next k x = (case x of AddOp t \<Rightarrow> k + 1 | _ \<Rightarrow> k)"

fun ops_ok :: "(string \<Rightarrow> bool) \<Rightarrow> int \<Rightarrow> id_op list \<Rightarrow> bool" where
  "ops_ok ok k [] = True"
| "ops_ok ok k (x # xs) = (op_ok ok k x \<and> ops_ok ok (op_next k x) xs)"

fun ops_cost :: "(int \<Rightarrow> string \<Rightarrow> int) \<Rightarrow> int \<Rightarrow> id_op list \<Rightarrow> int" where
  "ops_cost cost k [] = 0"
| "ops_cost cost k (x # xs) = op_cost cost k x + ops_cost cost (op_next k x) xs"

lemma id_spec_next [simp]: "snd (id_spec x (m, k)) = op_next k x"
  by (cases x) (simp_all add: op_next_def)

text \<open>An operation that does not touch an issued identity.\<close>

definition touches :: "int \<Rightarrow> id_op \<Rightarrow> bool" where
  "touches i x \<longleftrightarrow> x = RemoveOp i \<or> (\<exists>t. x = SetOp i t)"

lemma id_spec_untouched: "\<not> touches i x \<Longrightarrow> i < k \<Longrightarrow> fst (id_spec x (m, k)) i = m i"
  by (cases x) (auto simp: touches_def)

lemma ids_untouched:
  "\<forall>x \<in> set xs. \<not> touches i x \<Longrightarrow> i < k \<Longrightarrow> fst (fold id_spec xs (m, k)) i = m i"
proof (induction xs arbitrary: m k)
  case (Cons x xs)
  obtain m' where m': "id_spec x (m, k) = (m', op_next k x)" using id_spec_next by (metis prod.collapse)
  moreover have "k \<le> op_next k x" by (simp add: op_next_def split: id_op.split)
  ultimately show ?case using Cons id_spec_untouched [of i x k m] by simp
qed simp

lemma costs_nonneg:
  assumes "\<And>i t. 0 \<le> cost i t"
  shows "0 \<le> op_cost cost k x" "0 \<le> ops_cost cost k xs"
proof -
  show "0 \<le> op_cost cost k x" for k x using assms by (cases x) simp_all
  then show "0 \<le> ops_cost cost k xs" by (induction xs arbitrary: k) simp_all
qed

lemma run_ops:
  assumes "\<And>x s m k b. x \<in> set xs \<Longrightarrow> I s m k b \<Longrightarrow> op_ok ok k x \<Longrightarrow> op_cost cost k x \<le> b
      \<Longrightarrow> I (id_act mp x s) (fst (id_spec x (m, k))) (op_next k x) (b - op_cost cost k x)"
    and nonneg: "\<And>i t. 0 \<le> cost i t"
    and "I s m k b" "ops_ok ok k xs" "ops_cost cost k xs \<le> b"
  shows "I (fold (id_act mp) xs s) (fst (fold id_spec xs (m, k))) (snd (fold id_spec xs (m, k))) (b - ops_cost cost k xs)"
  using assms(1,3,4,5)
proof (induction xs arbitrary: s m k b)
  case (Cons x xs)
  have n: "0 \<le> ops_cost cost (op_next k x) xs" by (rule costs_nonneg(2)) (rule nonneg)
  have b: "op_cost cost k x \<le> b" "ops_cost cost (op_next k x) xs \<le> b - op_cost cost k x" "op_ok ok k x" "ops_ok ok (op_next k x) xs"
    using Cons.prems(3,4) n by simp_all
  obtain m' where m': "id_spec x (m, k) = (m', op_next k x)" using id_spec_next by (metis prod.collapse)
  have "I (id_act mp x s) m' (op_next k x) (b - op_cost cost k x)" using Cons.prems(1) [OF _ Cons.prems(2) b(3,1)] m' by simp
  from Cons.IH [OF _ this b(4,2)] Cons.prems(1) m' show ?case by (simp add: algebra_simps)
qed simp

section \<open>The contract\<close>

definition found :: "string option \<Rightarrow> string res" where
  "found v = (case v of None \<Rightarrow> Inl NoRecordError | Some s \<Rightarrow> Inr s)"

text \<open>\<open>I s m k b\<close>: the state \<open>s\<close> holds the map \<open>m\<close>, the next identity is \<open>k\<close>, and there is room for costs of \<open>b\<close>.\<close>

locale id_store =
  fixes mp :: "'s mapping" and I :: "'s \<Rightarrow> (int \<rightharpoonup> string) \<Rightarrow> int \<Rightarrow> int \<Rightarrow> bool"
    and ok :: "string \<Rightarrow> bool" and cost :: "int \<Rightarrow> string \<Rightarrow> int"
  assumes cost_nonneg: "0 \<le> cost i t"
    and issued: "I s m k b \<Longrightarrow> m i \<noteq> None \<Longrightarrow> 0 \<le> i \<and> i < k"
    and next_nonneg: "I s m k b \<Longrightarrow> 0 \<le> k"
    and get: "I s m k b \<Longrightarrow> 0 \<le> i \<Longrightarrow> \<exists>s'. mp_get mp i s = (found (m i), s') \<and> I s' m k b"
    and add: "I s m k b \<Longrightarrow> ok t \<Longrightarrow> cost k t \<le> b \<Longrightarrow>
      \<exists>s'. mp_add mp t s = (Inr k, s') \<and> I s' (m(k \<mapsto> t)) (k + 1) (b - cost k t)"
    and set: "I s m k b \<Longrightarrow> ok t \<Longrightarrow> 0 \<le> i \<Longrightarrow> i < k \<Longrightarrow> cost i t \<le> b \<Longrightarrow>
      \<exists>s'. mp_set mp i t s = (Inr (), s') \<and> I s' (m(i \<mapsto> t)) k (b - cost i t)"
    and iter: "I s m k b \<Longrightarrow> \<exists>items s'. mp_iter mp s = (Inr items, s') \<and> map_of items = m"
    and flush: "I s m k b \<Longrightarrow> \<exists>s'. mp_flush mp s = (Inr (), s') \<and> I s' m k b"
    and vacuum: "I s m k b \<Longrightarrow> \<exists>s'. mp_vacuum mp s = (Inr (), s') \<and> I s' m k b"
begin

lemma step:
  assumes "I s m k b" "op_ok ok k x" "op_cost cost k x \<le> b" "\<forall>i. x \<noteq> RemoveOp i"
  shows "I (id_act mp x s) (fst (id_spec x (m, k))) (op_next k x) (b - op_cost cost k x)"
  using assms add [OF assms(1)] set [OF assms(1)] flush [OF assms(1)] vacuum [OF assms(1)]
  by (cases x) (fastforce simp: id_act_def op_next_def)+

lemma run:
  assumes "I s m k b" "ops_ok ok k xs" "ops_cost cost k xs \<le> b" "\<forall>i. RemoveOp i \<notin> set xs"
  shows "I (fold (id_act mp) xs s) (fst (fold id_spec xs (m, k))) (snd (fold id_spec xs (m, k))) (b - ops_cost cost k xs)"
  by (rule run_ops [where I = I and ok = ok and cost = cost and mp = mp, OF _ cost_nonneg assms(1-3)]) (use step assms(4) in blast)

lemma db_add:
  assumes "I s m k b" "Record_serialize (rk_repr rk) (rk_fields rk) r = Inr t" "ok t" "cost k t \<le> b"
  shows "\<exists>s'. DB_add mp rk r s = (Inr (k, r\<lparr>rc_id := Some k\<rparr>), s') \<and> I s' (m(k \<mapsto> t)) (k + 1) (b - cost k t)"
  using add [OF assms(1,3,4)] assms(2) by (auto simp: DB_add_def act_defs)

lemma db_get:
  assumes "I s m k b" "m i = Some t"
  shows "fst (DB_get mp rk i s) = newRecord rk i t"
  using get [OF assms(1), of i] issued [OF assms(1), of i] assms(2) by (auto simp: DB_get_def act_defs found_def)

text \<open>A record that was added is read back, whatever else is done.\<close>

lemma db_record_back:
  assumes s: "I s m k b" and t: "Record_serialize (rk_repr rk) (rk_fields rk) r = Inr t" "ok t"
    and ys: "ops_ok ok (k + 1) ys" "\<forall>y \<in> set ys. \<not> touches k y" "\<forall>i. RemoveOp i \<notin> set ys"
    and b: "cost k t + ops_cost cost (k + 1) ys \<le> b"
  shows "\<exists>s'. DB_add mp rk r s = (Inr (k, r\<lparr>rc_id := Some k\<rparr>), s')
    \<and> fst (DB_get mp rk k (fold (id_act mp) ys s')) = newRecord rk k t"
proof -
  have "0 \<le> ops_cost cost (k + 1) ys" by (rule costs_nonneg(2)) (rule cost_nonneg)
  then have "cost k t \<le> b" using b by simp
  from db_add [OF s t this] obtain s' where s': "DB_add mp rk r s = (Inr (k, r\<lparr>rc_id := Some k\<rparr>), s')"
    "I s' (m(k \<mapsto> t)) (k + 1) (b - cost k t)" by blast
  have "ops_cost cost (k + 1) ys \<le> b - cost k t" using b by simp
  note runs = run [OF s'(2) ys(1) this ys(3)]
  have "fst (fold id_spec ys (m(k \<mapsto> t), k + 1)) k = Some t" using ids_untouched [OF ys(2), of "k + 1"] by simp
  from db_get [OF runs this] s'(1) show ?thesis by blast
qed

end

text \<open>A store that also forgets what is removed.\<close>

locale removing_store = id_store mp I ok cost
  for mp :: "'s mapping" and I :: "'s \<Rightarrow> (int \<rightharpoonup> string) \<Rightarrow> int \<Rightarrow> int \<Rightarrow> bool"
    and ok :: "string \<Rightarrow> bool" and cost :: "int \<Rightarrow> string \<Rightarrow> int" +
  assumes remove: "I s m k b \<Longrightarrow> 0 \<le> i \<Longrightarrow> \<exists>s'. mp_remove mp i s = (Inr (), s') \<and> I s' (m(i := None)) k b"
begin

lemma step_all:
  assumes "I s m k b" "op_ok ok k x" "op_cost cost k x \<le> b"
  shows "I (id_act mp x s) (fst (id_spec x (m, k))) (op_next k x) (b - op_cost cost k x)"
proof (cases "\<exists>i. x = RemoveOp i")
  case True
  then obtain i where "x = RemoveOp i" by blast
  then show ?thesis using remove [OF assms(1), of i] assms(2) by (auto simp: id_act_def op_next_def)
next
  case False
  then show ?thesis using step [OF assms] by blast
qed

lemma run_all:
  assumes "I s m k b" "ops_ok ok k xs" "ops_cost cost k xs \<le> b"
  shows "I (fold (id_act mp) xs s) (fst (fold id_spec xs (m, k))) (snd (fold id_spec xs (m, k))) (b - ops_cost cost k xs)"
  by (rule run_ops [where I = I and ok = ok and cost = cost and mp = mp, OF _ cost_nonneg assms]) (use step_all in blast)

lemma run_get:
  assumes "I s m k b" "ops_ok ok k xs" "ops_cost cost k xs \<le> b" "0 \<le> i"
  shows "fst (mp_get mp i (fold (id_act mp) xs s)) = found (fst (fold id_spec xs (m, k)) i)"
  using get [OF run_all [OF assms(1-3)] assms(4)] by auto

lemma db_record_back_all:
  assumes s: "I s m k b" and t: "Record_serialize (rk_repr rk) (rk_fields rk) r = Inr t" "ok t"
    and ys: "ops_ok ok (k + 1) ys" "\<forall>y \<in> set ys. \<not> touches k y"
    and b: "cost k t + ops_cost cost (k + 1) ys \<le> b"
  shows "\<exists>s'. DB_add mp rk r s = (Inr (k, r\<lparr>rc_id := Some k\<rparr>), s')
    \<and> fst (DB_get mp rk k (fold (id_act mp) ys s')) = newRecord rk k t"
proof -
  have "0 \<le> ops_cost cost (k + 1) ys" by (rule costs_nonneg(2)) (rule cost_nonneg)
  then have "cost k t \<le> b" using b by simp
  from db_add [OF s t this] obtain s' where s': "DB_add mp rk r s = (Inr (k, r\<lparr>rc_id := Some k\<rparr>), s')"
    "I s' (m(k \<mapsto> t)) (k + 1) (b - cost k t)" by blast
  have "ops_cost cost (k + 1) ys \<le> b - cost k t" using b by simp
  note runs = run_all [OF s'(2) ys(1) this]
  have "fst (fold id_spec ys (m(k \<mapsto> t), k + 1)) k = Some t" using ids_untouched [OF ys(2), of "k + 1"] by simp
  from db_get [OF runs this] s'(1) show ?thesis by blast
qed

end

section \<open>The flat file\<close>

definition flat_I :: "flat \<Rightarrow> (int \<rightharpoonup> string) \<Rightarrow> int \<Rightarrow> int \<Rightarrow> bool" where
  "flat_I ff m k b \<longleftrightarrow> (\<exists>es. flat_ok ff es \<and> m = flat_find es \<and> k = ff_currentId ff \<and> k + b < 10 ^ ff_maxSize ff \<and> 0 \<le> b
     \<and> (\<forall>e \<in> set es. \<forall>i. fst e = Some i \<longrightarrow> i < k))"

lemma flat_find_simps [simp]:
  "flat_find [] = Map.empty"
  "flat_find (es @ [(Some i, s)]) = (\<lambda>j. if j = i \<and> flat_find es i = None then Some s else flat_find es j)"
  by (auto simp: flat_find_def map_add_def split: option.split)

lemma flat_find_dashed: "flat_find (map (dashed i) es) = (flat_find es)(i := None)"
proof (induction es)
  case (Cons e es)
  have "flat_find (e # es) j = (if fst e = Some j then Some (snd e) else flat_find es j)" for e es j by (cases e) (simp add: flat_find_def)
  with Cons show ?case by (auto simp: fun_eq_iff dashed_def)
qed simp

lemma flat_find_issued: "flat_find es i \<noteq> None \<Longrightarrow> \<exists>e \<in> set es. fst e = Some i"
  unfolding flat_find_def by (metis map_of_SomeD not_None_eq fst_conv)

interpretation flat_store: removing_store FlatfileMapping flat_I storable "\<lambda>i t. 1"
proof (unfold_locales, goal_cases)
  case (2 s m k b i)
  then obtain es where es: "flat_ok s es" "m = flat_find es" "\<forall>e \<in> set es. \<forall>i. fst e = Some i \<longrightarrow> i < k" unfolding flat_I_def by blast
  obtain e where e: "e \<in> set es" "fst e = Some i" using flat_find_issued 2(2) es(2) by blast
  then show ?case using es(3) flat_okD(2) [OF es(1) e(1)] by (simp add: entry_ok_def entry_id_def fits_def)
next
  case (3 s m k b)
  then show ?case using flat_okD(1) by (auto simp: flat_I_def fits_def)
next
  case (4 s m k b i)
  then show ?case using flat_get_finds by (auto simp: flat_I_def FlatfileMapping_def found_def)
next
  case (5 s m k b t)
  then obtain es where es: "flat_ok s es" "m = flat_find es" "k = ff_currentId s" "k + b < 10 ^ ff_maxSize s"
    "\<forall>e \<in> set es. \<forall>i. fst e = Some i \<longrightarrow> i < k" unfolding flat_I_def by blast
  have "fits (ff_maxSize s) (ff_currentId s + 1)" using flat_okD(1) [OF es(1)] es(3,4) 5(3) by (simp add: fits_def)
  from flat_add_appends [OF es(1) 5(2) this] obtain ff' where ff': "flat_add t s = (Inr k, ff')" "flat_ok ff' (es @ [(Some k, t)])"
    "ff_currentId ff' = k + 1" "ff_maxSize ff' = ff_maxSize s" using es(3) by blast
  have "flat_find es k = None" using flat_find_issued es(5) by (metis less_irrefl)
  then have "flat_find (es @ [(Some k, t)]) = m(k \<mapsto> t)" using es(2) by auto
  moreover have "\<forall>e \<in> set (es @ [(Some k, t)]). \<forall>i. fst e = Some i \<longrightarrow> i < k + 1" using es(5) by auto
  ultimately have "flat_I ff' (m(k \<mapsto> t)) (k + 1) (b - 1)"
    unfolding flat_I_def using ff' es(4) 5(3) by (intro exI [of _ "es @ [(Some k, t)]"]) auto
  then show ?case using ff'(1) by (auto simp: FlatfileMapping_def)
next
  case (6 s m k b t i)
  then obtain es where es: "flat_ok s es" "m = flat_find es" "k = ff_currentId s" "k + b < 10 ^ ff_maxSize s"
    "\<forall>e \<in> set es. \<forall>i. fst e = Some i \<longrightarrow> i < k" unfolding flat_I_def by blast
  have "fits (ff_maxSize s) i" using flat_okD(1) [OF es(1)] es(3) 6(3,4) by (simp add: fits_def)
  from flat_set_moves [OF es(1) this 6(2)] obtain ff' where ff': "flat_set i t s = (Inr (), ff')"
    "flat_ok ff' (map (dashed i) es @ [(Some i, t)])" "ff_currentId ff' = k" "ff_maxSize ff' = ff_maxSize s" using es(3) by blast
  have "flat_find (map (dashed i) es @ [(Some i, t)]) = m(i \<mapsto> t)" using es(2) by (auto simp: flat_find_dashed)
  moreover have "\<forall>e \<in> set (map (dashed i) es @ [(Some i, t)]). \<forall>j. fst e = Some j \<longrightarrow> j < k"
    using es(5) 6(4) by (auto simp: dashed_def)
  ultimately have "flat_I ff' (m(i \<mapsto> t)) k (b - 1)"
    unfolding flat_I_def using ff' es(4) 6(5) by (intro exI [of _ "map (dashed i) es @ [(Some i, t)]"]) auto
  then show ?case using ff'(1) by (auto simp: FlatfileMapping_def)
next
  case (7 s m k b)
  then show ?case using flat_iter_live map_of_live by (fastforce simp: flat_I_def FlatfileMapping_def)
next
  case (8 s m k b)
  then show ?case by (simp add: FlatfileMapping_def retA_def)
next
  case (9 s m k b)
  then obtain es where es: "flat_ok s es" "m = flat_find es" "k = ff_currentId s" "k + b < 10 ^ ff_maxSize s" "0 \<le> b"
    "\<forall>e \<in> set es. \<forall>i. fst e = Some i \<longrightarrow> i < k" unfolding flat_I_def by blast
  from flat_vacuum_cleans [OF es(1)] obtain ff' where ff': "flat_vacuum s = (Inr (), ff')" "flat_ok ff' (filter (\<lambda>e. fst e \<noteq> None) es)"
    "ff_currentId ff' = k" "ff_maxSize ff' = ff_maxSize s" using es(3) by blast
  have "flat_find (filter (\<lambda>e. fst e \<noteq> None) es) = flat_find es" by (induction es) (auto simp: flat_find_def fun_eq_iff)
  then have "flat_I ff' m k b" unfolding flat_I_def using ff' es(2,4-6) by (intro exI [of _ "filter (\<lambda>e. fst e \<noteq> None) es"]) auto
  then show ?case using ff'(1) by (auto simp: FlatfileMapping_def)
next
  case (10 s m k b i)
  then obtain es where es: "flat_ok s es" "m = flat_find es" "k = ff_currentId s" "k + b < 10 ^ ff_maxSize s" "0 \<le> b"
    "\<forall>e \<in> set es. \<forall>i. fst e = Some i \<longrightarrow> i < k" unfolding flat_I_def by blast
  from flat_remove_dashes [OF es(1) 10(2)] obtain ff' where ff': "flat_remove i s = (Inr (), ff')" "flat_ok ff' (map (dashed i) es)"
    "ff_currentId ff' = k" "ff_maxSize ff' = ff_maxSize s" using es(3) by blast
  have "\<forall>e \<in> set (map (dashed i) es). \<forall>j. fst e = Some j \<longrightarrow> j < k" using es(6) by (auto simp: dashed_def)
  then have "flat_I ff' (m(i := None)) k b"
    unfolding flat_I_def using ff' es(2,4,5) by (intro exI [of _ "map (dashed i) es"]) (auto simp: flat_find_dashed)
  then show ?case using ff'(1) by (auto simp: FlatfileMapping_def)
qed simp

end
