(* ===== verification/RecordLaws.thy ===== *)
theory RecordLaws
  imports DbiLaws
begin

text \<open>
  Round trips of \<open>dbi.py\<close>: a row of comma separated values, and a record written and read.
\<close>

section \<open>Comma separated values\<close>

definition special :: "char \<Rightarrow> bool" where
  "special c \<longleftrightarrow> c \<in> {CHR '','', QUOTE, CR, LF}"

lemma run_quoted:
  "CHR 0x00 \<notin> set s \<Longrightarrow>
    csv_run InQuoted f row (replace_char QUOTE [QUOTE, QUOTE] s @ QUOTE # r) = csv_run QuoteInQuoted (f @ s) row r"
  by (induction s arbitrary: f) (auto simp: replace_char_def)

lemma run_plain:
  "CHR 0x00 \<notin> set s \<Longrightarrow> \<forall>c \<in> set s. \<not> special c \<Longrightarrow> csv_run InField f row (s @ r) = csv_run InField (f @ s) row r"
  by (induction s arbitrary: f) (auto simp: special_def)

lemma run_field:
  assumes "CHR 0x00 \<notin> set s" "r = [] \<or> hd r = CHR '',''"
  shows "csv_run StartField [] row (csv_field a s @ r) = (if r = [] then Inr (row @ [s]) else csv_run StartField [] (row @ [s]) (tl r))"
proof (cases "s = [] \<and> a \<or> (\<exists>c \<in> set s. special c)")
  case True
  then have "csv_field a s @ r = QUOTE # replace_char QUOTE [QUOTE, QUOTE] s @ QUOTE # r" by (auto simp: csv_field_def special_def)
  then show ?thesis using run_quoted [OF assms(1), of "[]" row r] assms(2) by (cases r) auto
next
  case False
  then have s: "csv_field a s = s" "\<forall>c \<in> set s. \<not> special c" by (auto simp: csv_field_def special_def)
  show ?thesis
  proof (cases s)
    case Nil
    then show ?thesis using s(1) assms(2) by (cases r) auto
  next
    case (Cons c t)
    then have "csv_run StartField [] row (s @ r) = csv_run InField s row r"
      using run_plain [of t "[c]" row r] s(2) assms(1) by (auto simp: special_def)
    then show ?thesis using s(1) assms(2) Cons by (cases r) auto
  qed
qed

lemma run_row:
  "row \<noteq> [] \<Longrightarrow> \<forall>s \<in> set row. CHR 0x00 \<notin> set s \<Longrightarrow>
    csv_run StartField [] acc (join_char CHR '','' (map (csv_field a) row)) = Inr (acc @ row)"
proof (induction row arbitrary: acc)
  case (Cons s row)
  show ?case
  proof (cases row)
    case Nil
    then show ?thesis using run_field [of s "[]" acc a] Cons.prems by simp
  next
    case (Cons s' row')
    let ?rest = "join_char CHR '','' (map (csv_field a) row)"
    have "csv_run StartField [] acc (csv_field a s @ CHR '','' # ?rest) = csv_run StartField [] (acc @ [s]) ?rest"
      using run_field [of s "CHR '','' # ?rest" acc a] Cons.prems by simp
    then show ?thesis using Cons.IH [of "acc @ [s]"] Cons.prems Cons by simp
  qed
qed simp

lemma start_record: "t \<noteq> [] \<Longrightarrow> hd t \<noteq> LF \<Longrightarrow> hd t \<noteq> CR \<Longrightarrow> csv_run StartRecord [] [] t = csv_run StartField [] [] t"
  by (cases t) auto

lemma hd_csv_field: "csv_field a s \<noteq> [] \<Longrightarrow> hd (csv_field a s) \<noteq> LF \<and> hd (csv_field a s) \<noteq> CR"
  by (cases s) (auto simp: csv_field_def)

lemma csv_join_starts:
  assumes "row \<noteq> []"
  shows "csv_join row \<noteq> [] \<and> hd (csv_join row) \<noteq> LF \<and> hd (csv_join row) \<noteq> CR"
proof -
  obtain s rest where row: "row = s # rest" using assms by (cases row) auto
  let ?a = "length row = 1"
  show ?thesis
  proof (cases rest)
    case Nil
    then have "csv_join row = csv_field True s" "csv_field True s \<noteq> []" by (simp_all add: csv_join_def row csv_field_def)
    then show ?thesis using hd_csv_field [of True s] by simp
  next
    case (Cons s' rest')
    then have "csv_join row = csv_field False s @ CHR '','' # join_char CHR '','' (map (csv_field False) rest)"
      by (simp add: csv_join_def row)
    then show ?thesis using hd_csv_field [of False s] by (cases "csv_field False s = []") auto
  qed
qed

lemma csv_round_trip: "row \<noteq> [] \<Longrightarrow> \<forall>s \<in> set row. CHR 0x00 \<notin> set s \<Longrightarrow> csv_split (csv_join row) = Inr row"
  using start_record [of "csv_join row"] csv_join_starts [of row] run_row [of row "[]" "length row = 1"]
  by (simp add: csv_split_def csv_join_def)

lemma csv_chars: "c \<in> set (csv_join row) \<Longrightarrow> c \<in> {CHR '','', QUOTE} \<or> (\<exists>s \<in> set row. c \<in> set s)"
proof -
  have field: "c \<in> set (csv_field a s) \<Longrightarrow> c = QUOTE \<or> c \<in> set s" for a s
    by (auto simp: csv_field_def replace_char_def split: if_splits)
  have "c \<in> set (join_char CHR '','' xs) \<Longrightarrow> c = CHR '','' \<or> (\<exists>x \<in> set xs. c \<in> set x)" for xs
    by (induction "CHR '',''" xs rule: join_char.induct) auto
  then show "c \<in> set (csv_join row) \<Longrightarrow> c \<in> {CHR '','', QUOTE} \<or> (\<exists>s \<in> set row. c \<in> set s)"
    unfolding csv_join_def using field by fastforce
qed

section \<open>Records\<close>

text \<open>
  A record of the class, whose values are written on one line and read back by the converters.
\<close>

definition record_ok :: "'v record_class \<Rightarrow> 'v Record \<Rightarrow> bool" where
  "record_ok rk r \<longleftrightarrow> rk_fields rk \<noteq> [] \<and> distinct (map fd_name (rk_fields rk))
     \<and> dom (map_of (rc_values r)) = fd_name ` set (rk_fields rk)
     \<and> (\<forall>f \<in> set (rk_fields rk). \<forall>v. map_of (rc_values r) (fd_name f) = Some v \<longrightarrow>
          fd_converter f (rk_repr rk v) = Inr v \<and> set (rk_repr rk v) \<inter> {CHR 0x00, LF, CR} = {})"

definition field_text :: "'v record_class \<Rightarrow> 'v Record \<Rightarrow> 'v field \<Rightarrow> string" where
  "field_text rk r f = rk_repr rk (the (map_of (rc_values r) (fd_name f)))"

definition record_text :: "'v record_class \<Rightarrow> 'v Record \<Rightarrow> string" where
  "record_text rk r = csv_join (map (field_text rk r) (rk_fields rk))"

definition field_val :: "'v Record \<Rightarrow> 'v field \<Rightarrow> 'v" where
  "field_val r f = the (map_of (rc_values r) (fd_name f))"

lemma field_value:
  assumes "record_ok rk r" "f \<in> set (rk_fields rk)"
  shows "map_of (rc_values r) (fd_name f) = Some (field_val r f)" "fd_converter f (field_text rk r f) = Inr (field_val r f)"
    "CHR 0x00 \<notin> set (field_text rk r f)" "LF \<notin> set (field_text rk r f)" "CR \<notin> set (field_text rk r f)"
proof -
  have "fd_name f \<in> dom (map_of (rc_values r))" using assms by (simp add: record_ok_def)
  then obtain v where v: "map_of (rc_values r) (fd_name f) = Some v" by blast
  then have "field_text rk r f = rk_repr rk v" "field_val r f = v" by (simp_all add: field_text_def field_val_def)
  moreover have "fd_converter f (rk_repr rk v) = Inr v \<and> set (rk_repr rk v) \<inter> {CHR 0x00, LF, CR} = {}"
    using assms v unfolding record_ok_def by blast
  ultimately show "map_of (rc_values r) (fd_name f) = Some (field_val r f)" "fd_converter f (field_text rk r f) = Inr (field_val r f)"
    "CHR 0x00 \<notin> set (field_text rk r f)" "LF \<notin> set (field_text rk r f)" "CR \<notin> set (field_text rk r f)" using v by auto
qed

lemma record_serialized:
  assumes "record_ok rk r"
  shows "Record_serialize (rk_repr rk) (rk_fields rk) r = Inr (record_text rk r)"
proof -
  have "mapR (\<lambda>f. case dict_get (rc_values r) (fd_name f) of Some v \<Rightarrow> Inr (rk_repr rk v) | None \<Rightarrow> Inl AttributeError) (rk_fields rk)
      = Inr (map (field_text rk r) (rk_fields rk))"
  proof (rule mapR_total)
    fix f assume "f \<in> set (rk_fields rk)"
    from field_value(1) [OF assms this] have "map_of (rc_values r) (fd_name f) = Some (field_val r f)" .
    then show "(case dict_get (rc_values r) (fd_name f) of Some v \<Rightarrow> Inr (rk_repr rk v) | None \<Rightarrow> Inl AttributeError) = Inr (field_text rk r f)"
      by (simp add: field_text_def)
  qed
  then show ?thesis by (simp add: Record_serialize_def record_text_def)
qed

lemma record_text_chars:
  assumes "record_ok rk r" "c \<in> set (record_text rk r)"
  shows "c \<noteq> LF" "c \<noteq> CR"
proof -
  from csv_chars [OF assms(2) [unfolded record_text_def]]
  have "c \<in> {CHR '','', QUOTE} \<or> (\<exists>f \<in> set (rk_fields rk). c \<in> set (field_text rk r f))" by auto
  then have "c \<noteq> LF \<and> c \<noteq> CR" using field_value(4,5) [OF assms(1)] by (elim disjE bexE) (auto 0 2)
  then show "c \<noteq> LF" "c \<noteq> CR" by simp_all
qed

lemma record_text_storable: "record_ok rk r \<Longrightarrow> storable (record_text rk r)"
  unfolding storable_def using record_text_chars last_in_set by blast

lemma deserialize_loop:
  assumes "distinct (map fd_name fs)" "fd_name ` set fs \<subseteq> set unseen" "\<And>f. f \<in> set fs \<Longrightarrow> fd_converter f (g f) = Inr (val f)"
  shows "\<exists>vs'. foldR (\<lambda>(f, str) (unseen, vs). bindR (fd_converter f str) (\<lambda>v.
        if fd_name f \<in> set unseen then Inr (removeAll (fd_name f) unseen, dict_set (fd_name f) v vs) else Inl KeyError))
      (zip fs (map g fs)) (unseen, vs) = Inr (filter (\<lambda>n. n \<notin> fd_name ` set fs) unseen, vs')
    \<and> (\<forall>f \<in> set fs. map_of vs' (fd_name f) = Some (val f)) \<and> (\<forall>n. n \<notin> fd_name ` set fs \<longrightarrow> map_of vs' n = map_of vs n)"
  using assms
proof (induction fs arbitrary: unseen vs)
  case (Cons f fs)
  have "fd_name f \<notin> fd_name ` set fs" using Cons.prems(1) by simp
  then have other: "\<And>x. x \<in> set fs \<Longrightarrow> fd_name x \<noteq> fd_name f" by (metis imageI)
  have names: "distinct (map fd_name fs)" "fd_name ` set fs \<subseteq> set (removeAll (fd_name f) unseen)" "fd_name f \<in> set unseen"
    using Cons.prems(1,2) other by auto
  from Cons.IH [OF names(1,2), of "dict_set (fd_name f) (val f) vs"] Cons.prems(3) obtain vs' where vs': "foldR (\<lambda>(f, str) (unseen, vs). bindR (fd_converter f str) (\<lambda>v.
        if fd_name f \<in> set unseen then Inr (removeAll (fd_name f) unseen, dict_set (fd_name f) v vs) else Inl KeyError))
      (zip fs (map g fs)) (removeAll (fd_name f) unseen, dict_set (fd_name f) (val f) vs)
        = Inr (filter (\<lambda>n. n \<notin> fd_name ` set fs) (removeAll (fd_name f) unseen), vs')"
    "\<forall>f \<in> set fs. map_of vs' (fd_name f) = Some (val f)"
    "\<forall>n. n \<notin> fd_name ` set fs \<longrightarrow> map_of vs' n = map_of (dict_set (fd_name f) (val f) vs) n" by auto
  have here: "map_of vs' (fd_name f) = Some (val f)" using vs'(3) Cons.prems(1) by simp
  have "filter (\<lambda>n. n \<notin> fd_name ` set fs) (removeAll (fd_name f) unseen) = filter (\<lambda>n. n \<notin> fd_name ` set (f # fs)) unseen"
    by (auto simp: removeAll_filter_not_eq intro: filter_cong)
  with vs' here names(3) Cons.prems(3) other show ?case by (intro exI [of _ vs']) auto
qed simp

lemma record_back:
  assumes "record_ok rk r"
  shows "\<exists>r'. newRecord rk i (record_text rk r) = Inr r' \<and> rc_id r' = Some i \<and> map_of (rc_values r') = map_of (rc_values r)"
proof -
  let ?fs = "rk_fields rk" and ?g = "field_text rk r"
  let ?val = "field_val r"
  have ok: "?fs \<noteq> []" "distinct (map fd_name ?fs)" "dom (map_of (rc_values r)) = fd_name ` set ?fs" using assms by (auto simp: record_ok_def)
  have "\<forall>s \<in> set (map ?g ?fs). CHR 0x00 \<notin> set s" using field_value(3) [OF assms] by auto
  then have split: "csv_split (record_text rk r) = Inr (map ?g ?fs)" using csv_round_trip [of "map ?g ?fs"] ok(1) by (simp add: record_text_def)
  define vs0 where "vs0 = fold (\<lambda>f. dict_set (fd_name f) (fd_default f)) ?fs []"
  have new: "Record_new ?fs (Some i) [] = Inr \<lparr>rc_id = Some i, rc_values = vs0\<rparr>" by (simp add: Record_new_def dict_has_def vs0_def)
  have "map_of (fold (\<lambda>f. dict_set (fd_name f) (fd_default f)) fs vs) n = map_of vs n" if "n \<notin> fd_name ` set fs" for fs :: "'a field list" and vs n
    using that by (induction fs arbitrary: vs) auto
  then have out: "map_of vs0 n = None" if "n \<notin> fd_name ` set ?fs" for n using that by (simp add: vs0_def)
  have conv: "fd_converter f (?g f) = Inr (?val f)" if "f \<in> set ?fs" for f by (rule field_value(2) [OF assms that])
  have "fd_name ` set ?fs \<subseteq> set (remdups (map fd_name ?fs))" by simp
  from deserialize_loop [OF ok(2) this conv, of vs0] obtain vs' where vs': "foldR (\<lambda>(f, str) (unseen, vs). bindR (fd_converter f str) (\<lambda>v.
        if fd_name f \<in> set unseen then Inr (removeAll (fd_name f) unseen, dict_set (fd_name f) v vs) else Inl KeyError))
      (zip ?fs (map ?g ?fs)) (remdups (map fd_name ?fs), vs0) = Inr (filter (\<lambda>n. n \<notin> fd_name ` set ?fs) (remdups (map fd_name ?fs)), vs')"
    "\<forall>f \<in> set ?fs. map_of vs' (fd_name f) = Some (?val f)" "\<forall>n. n \<notin> fd_name ` set ?fs \<longrightarrow> map_of vs' n = map_of vs0 n" by blast
  have "filter (\<lambda>n. n \<notin> fd_name ` set ?fs) (remdups (map fd_name ?fs)) = []" by (simp add: filter_empty_conv)
  moreover have "fold (\<lambda>f vs. vs) fs vs = vs" for fs :: "'a field list" and vs :: "(string, 'a) dict" by (induction fs) simp_all
  ultimately have "Record_deserialize ?fs (record_text rk r) \<lparr>rc_id = Some i, rc_values = vs0\<rparr> = Inr \<lparr>rc_id = Some i, rc_values = vs'\<rparr>"
    using vs'(1) by (simp add: Record_deserialize_def split)
  moreover have "map_of vs' n = map_of (rc_values r) n" for n
  proof (cases "n \<in> fd_name ` set ?fs")
    case True
    then obtain f where f: "f \<in> set ?fs" "n = fd_name f" by blast
    then show ?thesis using vs'(2) field_value(1) [OF assms f(1)] by simp
  next
    case False
    then have "map_of (rc_values r) n = None" using ok(3) by blast
    then show ?thesis using vs'(3) out [OF False] False by simp
  qed
  ultimately show ?thesis using new by (auto simp: newRecord_def)
qed

end
