(* ===== verification/DbiPromises.thy ===== *)
theory DbiPromises
  imports RecordLaws CdbPromises
begin

text \<open>
  The constant database as a mapping, the round trip of records, and the properties of \<open>dbi.py\<close>.
\<close>

section \<open>The constant database\<close>

lemma setitem_NoLimit: "rw_maxmods rw = NoLimit \<Longrightarrow> rw_maxmods (snd (ReaderWriter_setitem k v rw)) = NoLimit"
  by (simp add: ReaderWriter_setitem_def changed_def flushIfOverLimit_def journalAddKey_def act_defs)

lemma cdb_put:
  assumes "stands K rw D D" "rw_maxmods rw = NoLimit" "rw_size rw + rec_cost key t < 2 ^ 31"
  obtains rw' where "ReaderWriter_setitem key t rw = (Inr (), rw')" "stands K rw' (D(key \<mapsto> t)) (D(key \<mapsto> t))"
    "rw_maxmods rw' = NoLimit" "rw_size rw' \<le> rw_size rw + rec_cost key t"
proof -
  from setitem_stands [OF assms(1,3)] obtain r V' rw' where c: "ReaderWriter_setitem key t rw = (r, rw')" "stands K rw' V' (D(key \<mapsto> t))"
    "V' = D(key \<mapsto> t) \<or> V' = D(key \<mapsto> t)" "rw_size rw' \<le> rw_size rw + rec_cost key t" "limit_ok (rw_maxmods rw) \<Longrightarrow> r = Inr ()" by metis
  have "r = Inr ()" using c(5) assms(2) by (simp add: limit_ok_def)
  moreover have "rw_maxmods rw' = NoLimit" using setitem_NoLimit [OF assms(2), of key t] c(1) by simp
  ultimately show thesis using that c by metis
qed

text \<open>The keys of the database for a map of identities, and the next identity.\<close>

definition id_keys :: "(string \<rightharpoonup> string) \<Rightarrow> (int \<rightharpoonup> string) \<Rightarrow> int \<Rightarrow> bool" where
  "id_keys D m k \<longleftrightarrow> 0 \<le> k \<and> D nextId = Some (str_of_int k) \<and> (\<forall>i. 0 \<le> i \<longrightarrow> D (str_of_int i) = m i)
     \<and> (\<forall>i \<in> dom m. 0 \<le> i \<and> i < k) \<and> dom D \<subseteq> insert nextId (str_of_int ` {0..})"

definition cdb_I :: "ReaderWriter \<Rightarrow> (int \<rightharpoonup> string) \<Rightarrow> int \<Rightarrow> int \<Rightarrow> bool" where
  "cdb_I rw m k b \<longleftrightarrow> (\<exists>K D. stands K rw D D \<and> rw_maxmods rw = NoLimit \<and> rw_size rw + b < 2 ^ 31 \<and> 0 \<le> b \<and> id_keys D m k)"

definition cdb_cost :: "int \<Rightarrow> string \<Rightarrow> int" where
  "cdb_cost i t = rec_cost (str_of_int i) t + rec_cost nextId (str_of_int (i + 1))"

lemma rec_cost_nonneg: "0 \<le> rec_cost k v"
  by (simp add: rec_cost_def)

lemma str_of_int_inj [simp]: "str_of_int i = str_of_int j \<longleftrightarrow> i = j"
  by (metis int_of_str_of_int sum.inject(2))

lemma str_of_int_nextId [simp]: "str_of_int i \<noteq> nextId" "nextId \<noteq> str_of_int i"
proof -
  have "int_of_str nextId = Inl ValueError" by code_simp
  then show "str_of_int i \<noteq> nextId" by (metis int_of_str_of_int sum.distinct(1))
  then show "nextId \<noteq> str_of_int i" by simp
qed

lemma cdb_IE:
  assumes "cdb_I rw m k b"
  obtains K D where "stands K rw D D" "rw_maxmods rw = NoLimit" "rw_size rw + b < 2 ^ 31" "0 \<le> b" "id_keys D m k"
  using assms unfolding cdb_I_def by blast

lemma cdb_II: "stands K rw D D \<Longrightarrow> rw_maxmods rw = NoLimit \<Longrightarrow> rw_size rw + b < 2 ^ 31 \<Longrightarrow> 0 \<le> b \<Longrightarrow> id_keys D m k \<Longrightarrow> cdb_I rw m k b"
  unfolding cdb_I_def by blast

lemma id_keysD:
  assumes "id_keys D m k"
  shows "0 \<le> k" "D nextId = Some (str_of_int k)" "0 \<le> i \<Longrightarrow> D (str_of_int i) = m i" "m i \<noteq> None \<Longrightarrow> 0 \<le> i \<and> i < k"
    "D key \<noteq> None \<Longrightarrow> key \<noteq> nextId \<Longrightarrow> \<exists>i. 0 \<le> i \<and> key = str_of_int i"
proof -
  note d = assms [unfolded id_keys_def]
  from d show "0 \<le> k" "D nextId = Some (str_of_int k)" by blast+
  from d show "0 \<le> i \<Longrightarrow> D (str_of_int i) = m i" by blast
  from d show "m i \<noteq> None \<Longrightarrow> 0 \<le> i \<and> i < k" by blast
  from d have "dom D \<subseteq> insert nextId (str_of_int ` {0..})" by blast
  then show "D key \<noteq> None \<Longrightarrow> key \<noteq> nextId \<Longrightarrow> \<exists>i. 0 \<le> i \<and> key = str_of_int i" by auto
qed

lemma id_keys_set:
  assumes "id_keys D m k" "0 \<le> i" "i < k"
  shows "id_keys (D(str_of_int i \<mapsto> t)) (m(i \<mapsto> t)) k"
  using assms unfolding id_keys_def by auto

lemma id_keys_next:
  assumes "id_keys D m k"
  shows "id_keys (D(nextId \<mapsto> str_of_int (k + 1))) m (k + 1)"
proof -
  note d = assms [unfolded id_keys_def]
  from d have "\<forall>i \<in> dom m. 0 \<le> i \<and> i < k" by blast
  then have "\<forall>i \<in> dom m. 0 \<le> i \<and> i < k + 1" by (meson less_add_one less_trans)
  with d show ?thesis unfolding id_keys_def by auto
qed

text \<open>A query leaves everything but the position of the reader.\<close>

lemma cdb_get_finds:
  assumes "cdb_I rw m k b" "0 \<le> i"
  shows "\<exists>rw'. cdb_get i rw = (found (m i), rw') \<and> cdb_I rw' m k b"
proof -
  from cdb_IE [OF assms(1)] obtain K D where D: "stands K rw D D" "rw_maxmods rw = NoLimit" "rw_size rw + b < 2 ^ 31" "0 \<le> b" "id_keys D m k" by metis
  obtain rw' where rw': "ReaderWriter_getitem (str_of_int i) rw = (looked_up (D (str_of_int i)), rw')" "stands K rw' D D" "rw_size rw' = rw_size rw"
    using getitem_stands [OF D(1)] by metis
  have "rw_maxmods (snd (ReaderWriter_getitem (str_of_int i) rw)) = rw_maxmods rw"
    by (simp add: ReaderWriter_getitem_def on_cdb_def act_defs split: option.split prod.split)
  then have "cdb_I rw' m k b" using cdb_II [OF rw'(2) _ _ D(4,5)] D(2,3) rw'(1,3) by simp
  moreover have "cdb_get i rw = (found (m i), rw')"
    using rw'(1) id_keysD(3) [OF D(5) assms(2)] by (simp add: cdb_get_def found_def looked_up_def split: option.split)
  ultimately show ?thesis by blast
qed

lemma cdb_set_puts:
  assumes "cdb_I rw m k b" "0 \<le> i" "i < k" "cdb_cost i t \<le> b"
  shows "\<exists>rw'. cdb_set i t rw = (Inr (), rw') \<and> cdb_I rw' (m(i \<mapsto> t)) k (b - cdb_cost i t)"
proof -
  from cdb_IE [OF assms(1)] obtain K D where D: "stands K rw D D" "rw_maxmods rw = NoLimit" "rw_size rw + b < 2 ^ 31" "0 \<le> b" "id_keys D m k" by metis
  have cost: "rec_cost (str_of_int i) t \<le> cdb_cost i t" using rec_cost_nonneg by (simp add: cdb_cost_def)
  then have "rw_size rw + rec_cost (str_of_int i) t < 2 ^ 31" using D(3) assms(4) by linarith
  from cdb_put [OF D(1,2) this] obtain rw' where rw': "ReaderWriter_setitem (str_of_int i) t rw = (Inr (), rw')"
    "stands K rw' (D(str_of_int i \<mapsto> t)) (D(str_of_int i \<mapsto> t))" "rw_maxmods rw' = NoLimit"
    "rw_size rw' \<le> rw_size rw + rec_cost (str_of_int i) t" by metis
  have "cdb_I rw' (m(i \<mapsto> t)) k (b - cdb_cost i t)"
    by (rule cdb_II [OF rw'(2,3) _ _ id_keys_set [OF D(5) assms(2,3)]]) (use D(3) rw'(4) cost assms(4) in linarith)+
  then show ?thesis using rw'(1) by (simp add: cdb_set_def)
qed

lemma cdb_add_puts:
  assumes "cdb_I rw m k b" "cdb_cost k t \<le> b"
  shows "\<exists>rw'. cdb_add t rw = (Inr k, rw') \<and> cdb_I rw' (m(k \<mapsto> t)) (k + 1) (b - cdb_cost k t)"
proof -
  from cdb_IE [OF assms(1)] obtain K D where D: "stands K rw D D" "rw_maxmods rw = NoLimit" "rw_size rw + b < 2 ^ 31" "0 \<le> b" "id_keys D m k" by metis
  let ?n = "str_of_int (k + 1)" and ?c = "rec_cost nextId (str_of_int (k + 1))" and ?c' = "rec_cost (str_of_int k) t"
  obtain rw1 where rw1: "ReaderWriter_getitem nextId rw = (Inr (str_of_int k), rw1)" "stands K rw1 D D" "rw_size rw1 = rw_size rw"
    using getitem_stands [OF D(1), of nextId] id_keysD(2) [OF D(5)] by (metis looked_up_simps(2))
  have "rw_maxmods (snd (ReaderWriter_getitem nextId rw)) = rw_maxmods rw"
    by (simp add: ReaderWriter_getitem_def on_cdb_def act_defs split: option.split prod.split)
  then have max1: "rw_maxmods rw1 = NoLimit" using rw1(1) D(2) by simp
  have costs: "0 \<le> ?c" "0 \<le> ?c'" "cdb_cost k t = ?c' + ?c" using rec_cost_nonneg by (simp_all add: cdb_cost_def)
  have "rw_size rw1 + ?c < 2 ^ 31" using D(3) rw1(3) costs assms(2) by linarith
  from cdb_put [OF rw1(2) max1 this] obtain rw2 where rw2: "ReaderWriter_setitem nextId ?n rw1 = (Inr (), rw2)"
    "stands K rw2 (D(nextId \<mapsto> ?n)) (D(nextId \<mapsto> ?n))" "rw_maxmods rw2 = NoLimit" "rw_size rw2 \<le> rw_size rw1 + ?c" by metis
  have "rw_size rw2 + ?c' < 2 ^ 31" using D(3) rw1(3) rw2(4) costs assms(2) by linarith
  from cdb_put [OF rw2(2,3) this] obtain rw3 where rw3: "ReaderWriter_setitem (str_of_int k) t rw2 = (Inr (), rw3)"
    "stands K rw3 (D(nextId \<mapsto> ?n, str_of_int k \<mapsto> t)) (D(nextId \<mapsto> ?n, str_of_int k \<mapsto> t))" "rw_maxmods rw3 = NoLimit"
    "rw_size rw3 \<le> rw_size rw2 + ?c'" by metis
  have keys: "id_keys (D(nextId \<mapsto> ?n, str_of_int k \<mapsto> t)) (m(k \<mapsto> t)) (k + 1)"
    by (rule id_keys_set [OF id_keys_next [OF D(5)]]) (use id_keysD(1) [OF D(5)] in simp_all)
  have "cdb_I rw3 (m(k \<mapsto> t)) (k + 1) (b - cdb_cost k t)"
    by (rule cdb_II [OF rw3(2,3) _ _ keys]) (use D(3) rw3(4) rw2(4) rw1(3) costs assms(2) in linarith)+
  moreover have "cdb_add t rw = (Inr k, rw3)"
    by (simp add: cdb_add_def cdb_set_def getNextId_def act_defs rw1(1) rw2(1) rw3(1))
  ultimately show ?thesis by blast
qed

lemma int_keys:
  assumes "\<forall>(key, s) \<in> set L. \<exists>i. 0 \<le> i \<and> key = str_of_int i"
  shows "\<exists>xs. mapR (\<lambda>(i, s). bindR (int_of_str i) (\<lambda>k. Inr (k, s))) L = Inr xs
    \<and> (\<forall>i. map_of xs i = (if 0 \<le> i then map_of L (str_of_int i) else None))"
  using assms
proof (induction L)
  case (Cons p L)
  then obtain xs where xs: "mapR (\<lambda>(i, s). bindR (int_of_str i) (\<lambda>k. Inr (k, s))) L = Inr xs"
    "\<forall>i. map_of xs i = (if 0 \<le> i then map_of L (str_of_int i) else None)" by auto
  obtain i s where p: "p = (str_of_int i, s)" "0 \<le> i" using Cons.prems by (cases p) auto
  show ?case by (intro exI [of _ "(i, s) # xs"]) (simp add: p xs)
qed simp

lemma map_of_filter_key: "map_of (filter (\<lambda>(i, s). i \<noteq> n) L) k = (if k = n then None else map_of L k)"
  by (induction L) auto

lemma cdb_iter_lists:
  assumes "cdb_I rw m k b"
  shows "\<exists>items s'. cdb_iter rw = (Inr items, s') \<and> map_of items = m"
proof -
  from cdb_IE [OF assms] obtain K D where D: "stands K rw D D" "rw_size rw + b < 2 ^ 31" "0 \<le> b" "id_keys D m k" by metis
  have "rw_size rw < 2 ^ 31" using D(2,3) by linarith
  from items_stands [OF D(1) this] obtain items rw' where items: "ReaderWriter_items rw = (Inr items, rw')" "map_of items = D"
    by (metis prod.collapse)
  let ?L = "filter (\<lambda>(i, s). i \<noteq> nextId) items"
  have "\<forall>(key, s) \<in> set ?L. \<exists>i. 0 \<le> i \<and> key = str_of_int i"
  proof clarsimp
    fix key s assume k: "(key, s) \<in> set items" "key \<noteq> nextId"
    then have "D key \<noteq> None" using items(2) by (metis map_of_eq_None_iff fst_conv image_eqI)
    then show "\<exists>i. 0 \<le> i \<and> key = str_of_int i" using id_keysD(5) [OF D(4)] k(2) by blast
  qed
  from int_keys [OF this] obtain xs where xs: "mapR (\<lambda>(i, s). bindR (int_of_str i) (\<lambda>k. Inr (k, s))) ?L = Inr xs"
    "\<forall>i. map_of xs i = (if 0 \<le> i then map_of ?L (str_of_int i) else None)" by blast
  have "map_of xs i = m i" for i 
    using xs(2) id_keysD(3,4) [OF D(4), of i] by (cases "0 \<le> i"; cases "m i") (simp_all add: map_of_filter_key items(2))
  then have "map_of xs = m" by blast
  then show ?thesis using items(1) xs(1) by (auto simp: cdb_iter_def act_defs)
qed

interpretation cdb_ids: id_store CdbMapping cdb_I "\<lambda>t. True" cdb_cost
proof (unfold_locales, goal_cases)
  case (1 i t)
  show ?case using rec_cost_nonneg by (simp add: cdb_cost_def)
next
  case (2 s m k b i)
  from cdb_IE [OF 2(1)] obtain D where "id_keys D m k" by metis
  from id_keysD(4) [OF this 2(2)] show ?case .
next
  case (3 s m k b)
  from cdb_IE [OF 3] obtain D where "id_keys D m k" by metis
  from id_keysD(1) [OF this] show ?case .
next
  case (4 s m k b i)
  from cdb_get_finds [OF this] show ?case by (simp add: CdbMapping_def)
next
  case (5 s m k b t)
  from cdb_add_puts [OF 5(1,3)] show ?case by (simp add: CdbMapping_def)
next
  case (6 s m k b t i)
  from cdb_set_puts [OF 6(1,3,4,5)] show ?case by (simp add: CdbMapping_def)
next
  case (7 s m k b)
  from cdb_iter_lists [OF this] show ?case by (simp add: CdbMapping_def)
next
  case (8 s m k b)
  from cdb_IE [OF 8] obtain K D where D: "stands K s D D" "rw_maxmods s = NoLimit" "rw_size s + b < 2 ^ 31" "0 \<le> b" "id_keys D m k" by metis
  have "rw_size s < 2 ^ 31" using D(3,4) by linarith
  from flush_stands [OF D(1) this] obtain rw' where rw': "ReaderWriter_flush s = (Inr (), rw')" "stands K rw' D D" "rw_size rw' \<le> rw_size s" by metis
  have "rw_maxmods (snd (ReaderWriter_flush s)) = rw_maxmods s"
    by (simp add: ReaderWriter_flush_def act_defs split: sum.split)
  then have "rw_maxmods rw' = NoLimit" using rw'(1) D(2) by simp
  then have "cdb_I rw' m k b" using cdb_II [OF rw'(2) _ _ D(4,5)] D(3) rw'(3) by simp
  then show ?case using rw'(1) by (simp add: CdbMapping_def)
next
  case (9 s m k b)
  then show ?case by (simp add: CdbMapping_def retA_def)
qed


lemma new_cdb_mapping:
  assumes "2048 + rec_cost nextId ''1'' + b < 2 ^ 31" "0 \<le> b"
  shows "\<exists>rw. CdbMapping_new None [] = Inr rw \<and> cdb_I rw Map.empty 1 b"
proof -
  have "cdb_room [] < 2 ^ 32" by (simp add: cdb_room_def)
  from cdb_file_total [OF this] obtain f where f: "cdb_file [] = Inr f" by blast
  then have fresh: "Maker_finish Maker_new = Inr f" by (simp add: cdb_file_def)
  from new_empty_journal obtain rw where rw: "ReaderWriter_new f [] NoLimit = Inr rw" by blast
  note new = new_stands [OF f rw]
  have s: "stands {} rw Map.empty Map.empty" "rw_size rw = 2048" using new by (simp_all add: cdb_room_def)
  have empty: "rw_removals rw = {}" "rw_adds rw = []"
    using rw readJournal_text [of "[]" f] by (auto simp: ReaderWriter_new_def)
  from stands_holds [OF s(1)] empty obtain kvs where h: "holds (rd_file (rw_cdb rw)) kvs" "map_of kvs nextId = None"
    by (auto simp: overlay_def fun_eq_iff)
  from on_cdb_contains [OF h(1), of nextId] obtain rd where rd: "on_cdb (Reader_contains nextId 0) rw = (Inr False, rw\<lparr>rw_cdb := rd\<rparr>)"
    "rd_file rd = rd_file (rw_cdb rw)" using h(2) by auto
  then have contains: "ReaderWriter_contains nextId rw = (Inr False, rw\<lparr>rw_cdb := rd\<rparr>)"
    using empty by (simp add: ReaderWriter_contains_def act_defs dict_has_def)
  let ?rw = "rw\<lparr>rw_cdb := rd\<rparr>"
  have s': "stands {} ?rw Map.empty Map.empty" "rw_maxmods ?rw = NoLimit" "rw_size ?rw = 2048"
    using s new(3) stands_cdb [OF rd(2)] size_cdb [OF rd(2)] by simp_all
  then have "rw_size ?rw + rec_cost nextId ''1'' < 2 ^ 31" using assms by linarith
  from cdb_put [OF s'(1,2) this] obtain rw' where rw': "ReaderWriter_setitem nextId ''1'' ?rw = (Inr (), rw')"
    "stands {} rw' [nextId \<mapsto> ''1''] [nextId \<mapsto> ''1'']" "rw_maxmods rw' = NoLimit" "rw_size rw' \<le> rw_size ?rw + rec_cost nextId ''1''" by metis
  have one: "str_of_int 1 = ''1''" by code_simp
  have keys: "id_keys [nextId \<mapsto> ''1''] Map.empty 1" using one by (simp add: id_keys_def)
  have "cdb_I rw' Map.empty 1 b" by (rule cdb_II [OF rw'(2,3) _ assms(2) keys]) (use rw'(4) s'(3) assms in linarith)
  moreover have "cdb_open CHR ''c'' None [] NoLimit = Inr (HWriter rw)" using fresh rw by (simp add: cdb_open_def)
  then have "CdbMapping_new None [] = Inr rw'" using contains rw'(1) by (simp add: CdbMapping_new_def bindA_def)
  ultimately show ?thesis by blast
qed

section \<open>Properties\<close>

lemma new_flat_I: "0 \<le> b \<Longrightarrow> 1 + b < 1000000 \<Longrightarrow> flat_I \<lparr>ff_maxSize = 6, ff_currentId = 1, ff_file = flat_text 6 1 []\<rparr> Map.empty 1 b"
  unfolding flat_I_def using new_flat_ok by (intro exI [of _ "[]"]) simp

text \<open>
  C5: A flat file is the map that its operations make of it, as long as no identity needs a seventh digit: after any
  additions, changes of issued identities, removals and clean-ups it finds and lists exactly that map, and
  reading the file again gives the same object.
\<close>

theorem flat_store_exact:
  assumes "FlatfileMapping_new None = Inr s0" "ops_ok storable 1 xs" "ops_cost (\<lambda>i t. 1) 1 xs < 999999"
    and "s = fold (id_act FlatfileMapping) xs s0" "m = fst (fold id_spec xs (Map.empty, 1))"
  shows "(\<forall>i \<ge> 0. fst (flat_get i s) = found (m i)) \<and> (\<exists>items. fst (flat_iter s) = Inr items \<and> map_of items = m)
    \<and> FlatfileMapping_new (Some (ff_file s)) = Inr s"
proof -
  have nonneg: "0 \<le> ops_cost (\<lambda>i t. 1) 1 xs" by (rule costs_nonneg(2)) simp
  have s0: "flat_I s0 Map.empty 1 (ops_cost (\<lambda>i t. 1) 1 xs)"
    using assms(1,3) new_flat_I [OF nonneg] by (simp add: flat_new)
  from flat_store.run_all [OF s0 assms(2)] have s: "flat_I s m (snd (fold id_spec xs (Map.empty, 1))) 0"
    by (simp add: assms(4,5))
  then have "\<forall>i \<ge> 0. fst (flat_get i s) = found (m i)"
    using flat_store.get [OF s] by (fastforce simp: FlatfileMapping_def)
  moreover have "\<exists>items. fst (flat_iter s) = Inr items \<and> map_of items = m"
    using flat_store.iter [OF s] by (fastforce simp: FlatfileMapping_def)
  moreover have "FlatfileMapping_new (Some (ff_file s)) = Inr s" using s flat_reopen by (auto simp: flat_I_def)
  ultimately show ?thesis by blast
qed

theorem flat_store_exact_witness:
  "\<exists>s0. FlatfileMapping_new None = Inr s0 \<and> fst (flat_get 2 (fold (id_act FlatfileMapping) [AddOp ''ab'', AddOp ''c:d'', RemoveOp 1, VacuumOp] s0)) = Inr ''c:d''"
proof -
  let ?xs = "[AddOp ''ab'', AddOp ''c:d'', RemoveOp 1, VacuumOp]"
  have "ops_ok storable 1 ?xs" "ops_cost (\<lambda>i t. 1) 1 ?xs < 999999" by (simp_all add: op_next_def storable_def)
  from flat_store_exact [OF flat_new this refl refl] flat_new show ?thesis by (auto simp: found_def)
qed

text \<open>
  C8: A record that was added to a database on a flat file is read back with its identity and its values, whatever
  was done before, and whatever is done afterwards to other identities.
\<close>

theorem record_kept_flat:
  assumes "record_ok rk r" "FlatfileMapping_new None = Inr s0" "ops_ok storable 1 xs" "k = snd (fold id_spec xs (Map.empty, 1))"
    and "ops_ok storable (k + 1) ys" "\<forall>y \<in> set ys. \<not> touches k y"
    and "ops_cost (\<lambda>i t. 1) 1 xs + ops_cost (\<lambda>i t. 1) (k + 1) ys < 999998"
  shows "\<exists>s r'. DB_add FlatfileMapping rk r (fold (id_act FlatfileMapping) xs s0) = (Inr (k, r\<lparr>rc_id := Some k\<rparr>), s)
    \<and> fst (DB_get FlatfileMapping rk k (fold (id_act FlatfileMapping) ys s)) = Inr r'
    \<and> rc_id r' = Some k \<and> map_of (rc_values r') = map_of (rc_values r)"
proof -
  let ?a = "ops_cost (\<lambda>i t. 1) 1 xs" and ?b = "1 + ops_cost (\<lambda>i t. 1) (k + 1) ys"
  have nonneg: "0 \<le> ?a" "0 \<le> ops_cost (\<lambda>i t. 1) (k + 1) ys" by (rule costs_nonneg(2), simp)+
  have s0: "flat_I s0 Map.empty 1 (?a + ?b)" using assms(2,7) nonneg new_flat_I [of "?a + ?b"] by (simp add: flat_new)
  have "?a \<le> ?a + ?b" using nonneg by simp
  from flat_store.run_all [OF s0 assms(3) this]
  have s: "flat_I (fold (id_act FlatfileMapping) xs s0) (fst (fold id_spec xs (Map.empty, 1))) k ?b" by (simp add: assms(4))
  from flat_store.db_record_back_all [OF s record_serialized [OF assms(1)] record_text_storable [OF assms(1)] assms(5,6)]
    record_back [OF assms(1), of k] show ?thesis by force
qed

definition sample_class :: "int record_class" where
  "sample_class = \<lparr>rk_fields = [\<lparr>fd_name = ''at'', fd_converter = int_of_str, fd_default = 0\<rparr>, \<lparr>fd_name = ''by'', fd_converter = int_of_str, fd_default = 0\<rparr>],
     rk_repr = str_of_int\<rparr>"

definition sample_record :: "int Record" where
  "sample_record = \<lparr>rc_id = None, rc_values = [(''by'', -7), (''at'', 1234)]\<rparr>"

lemma sample_record_ok: "record_ok sample_class sample_record"
proof -
  have "set (str_of_int (-7)) \<inter> {CHR 0x00, LF, CR} = {}" "set (str_of_int 1234) \<inter> {CHR 0x00, LF, CR} = {}" by code_simp+
  then show ?thesis by (auto simp: record_ok_def sample_class_def sample_record_def)
qed

theorem record_kept_flat_witness:
  "\<exists>s0 s r'. FlatfileMapping_new None = Inr s0 \<and> DB_add FlatfileMapping sample_class sample_record (id_act FlatfileMapping (AddOp ''x'') s0)
     = (Inr (2, sample_record\<lparr>rc_id := Some 2\<rparr>), s)
   \<and> fst (DB_get FlatfileMapping sample_class 2 (id_act FlatfileMapping (RemoveOp 1) s)) = Inr r' \<and> map_of (rc_values r') ''at'' = Some 1234"
proof -
  have k: "2 = snd (fold id_spec [AddOp ''x''] (Map.empty, 1))" by (simp add: op_next_def)
  have "ops_ok storable 1 [AddOp ''x'']" "ops_ok storable (2 + 1) [RemoveOp 1]" "\<forall>y \<in> set [RemoveOp 1]. \<not> touches 2 y"
    "ops_cost (\<lambda>i t. 1) 1 [AddOp ''x''] + ops_cost (\<lambda>i t. 1) (2 + 1) [RemoveOp 1] < 999998" by (simp_all add: storable_def touches_def)
  from record_kept_flat [OF sample_record_ok flat_new this(1) k this(2-4)] flat_new show ?thesis by (auto simp: sample_record_def)
qed

text \<open>C9: The same holds on a constant database with a journal, when nothing is removed and it stays below two gigabytes.\<close>

theorem record_kept_cdb:
  assumes "record_ok rk r" "ops_ok (\<lambda>t. True) 1 xs" "k = snd (fold id_spec xs (Map.empty, 1))"
    and "ops_ok (\<lambda>t. True) (k + 1) ys" "\<forall>y \<in> set ys. \<not> touches k y" "\<forall>i. RemoveOp i \<notin> set (xs @ ys)"
    and "2048 + rec_cost nextId ''1'' + ops_cost cdb_cost 1 xs + cdb_cost k (record_text rk r) + ops_cost cdb_cost (k + 1) ys < 2 ^ 31"
  shows "\<exists>s0 s r'. CdbMapping_new None [] = Inr s0
    \<and> DB_add CdbMapping rk r (fold (id_act CdbMapping) xs s0) = (Inr (k, r\<lparr>rc_id := Some k\<rparr>), s)
    \<and> fst (DB_get CdbMapping rk k (fold (id_act CdbMapping) ys s)) = Inr r'
    \<and> rc_id r' = Some k \<and> map_of (rc_values r') = map_of (rc_values r)"
proof -
  let ?a = "ops_cost cdb_cost 1 xs" and ?b = "cdb_cost k (record_text rk r) + ops_cost cdb_cost (k + 1) ys"
  have nonneg: "0 \<le> ?a" "0 \<le> ops_cost cdb_cost (k + 1) ys" by (rule costs_nonneg(2), rule cdb_ids.cost_nonneg)+
  then have b: "0 \<le> ?a + ?b" "?a \<le> ?a + ?b" using cdb_ids.cost_nonneg [of k "record_text rk r"] by simp_all
  from new_cdb_mapping [OF _ b(1)] assms(7) obtain s0 where s0: "CdbMapping_new None [] = Inr s0" "cdb_I s0 Map.empty 1 (?a + ?b)" by auto
  have xs: "\<forall>i. RemoveOp i \<notin> set xs" and ys: "\<forall>i. RemoveOp i \<notin> set ys" using assms(6) by auto
  from cdb_ids.run [OF s0(2) assms(2) b(2) xs]
  have s: "cdb_I (fold (id_act CdbMapping) xs s0) (fst (fold id_spec xs (Map.empty, 1))) k ?b" by (simp add: assms(3))
  from cdb_ids.db_record_back [OF s record_serialized [OF assms(1)] TrueI assms(4,5) ys order_refl]
    record_back [OF assms(1), of k] s0(1) show ?thesis by fastforce
qed

theorem record_kept_cdb_witness:
  "\<exists>s0 s r'. CdbMapping_new None [] = Inr s0 \<and> DB_add CdbMapping sample_class sample_record s0 = (Inr (1, sample_record\<lparr>rc_id := Some 1\<rparr>), s)
   \<and> fst (DB_get CdbMapping sample_class 1 (id_act CdbMapping FlushOp s)) = Inr r' \<and> map_of (rc_values r') ''by'' = Some (-7)"
proof -
  have k: "1 = snd (fold id_spec [] (Map.empty :: int \<rightharpoonup> string, 1))" by simp
  have row: "record_text sample_class sample_record = ''1234,-7''" by code_simp
  have "rec_cost nextId ''1'' + cdb_cost 1 ''1234,-7'' < 1000" by code_simp
  then have size: "2048 + rec_cost nextId ''1'' + ops_cost cdb_cost 1 [] + cdb_cost 1 (record_text sample_class sample_record)
      + ops_cost cdb_cost (1 + 1) [FlushOp] < 2 ^ 31" by (simp add: row)
  have "ops_ok (\<lambda>t. True) 1 []" "ops_ok (\<lambda>t. True) (1 + 1) [FlushOp]" "\<forall>y \<in> set [FlushOp]. \<not> touches 1 y"
    "\<forall>i. RemoveOp i \<notin> set ([] @ [FlushOp])" by (simp_all add: touches_def)
  from record_kept_cdb [OF sample_record_ok this(1) k this(2-4) size] show ?thesis by (auto simp: sample_record_def)
qed

text \<open>
  C21: The record that gets the last identity of the file's number of digits makes the header one digit longer, which
  overwrites the first character behind it; when the file is opened again, no record is found any more.
\<close>

theorem last_identity_loses_all:
  assumes "flat_ok s es" "ff_currentId s = 10 ^ ff_maxSize s - 1" "storable u"
  shows "\<exists>s' s''. flat_add u s = (Inr (ff_currentId s), s') \<and> FlatfileMapping_new (Some (ff_file s')) = Inr s''
    \<and> (\<forall>i \<ge> 0. fst (flat_get i s'') = Inl NoRecordError)"
proof -
  let ?n = "ff_maxSize s" and ?es = "es @ [(Some (ff_currentId s), u)]"
  note ok = flat_okD(1,2) [OF assms(1)]
  have n: "0 < ?n" using ok(1) by (simp add: fits_def)
  have entries: "\<forall>x \<in> set ?es. entry_ok ?n x" using ok assms(3) by (auto simp: entry_ok_def entry_id_def)
  obtain e es' where es': "?es = e # es'" by (cases ?es) auto
  let ?r = "tl (canonicalId ?n (fst e)) @ '':'' @ snd e @ [LF] @ concat (map (flat_line ?n) es')"
  let ?h = "canonicalId ?n (Some (10 ^ ?n))"
  have "ff_file s @ joinLine ?n (ff_currentId s) u = flat_text ?n (10 ^ ?n - 1) (e # es')"
    using assms(1,2) by (simp add: flat_ok_def flat_text_def joinLine_def flat_line_def flip: es')
  then have added: "flat_add u s = (Inr (ff_currentId s), s\<lparr>ff_currentId := 10 ^ ?n, ff_file := ?h @ LF # ?r\<rparr>)"
    using longer_header [OF n entries [unfolded es']] assms(2) by (simp add: flat_add_def incrementCurrentId_def Let_def)
  let ?s = "\<lparr>ff_maxSize = length ?h, ff_currentId = 10 ^ ?n, ff_file = ?h @ LF # ?r\<rparr>"
  have len: "length ?h = Suc ?n" by (simp add: canonicalId_Some nat_power_eq digits_of_pow)
  have "read_line (?h @ LF # ?r) = (?h @ [LF], ?r)"
    by (rule read_line_LF) (use canonicalId_digits [of "10 ^ ?n" LF ?n] in \<open>auto simp: is_digit_def\<close>)
  moreover have "?n < length (canonicalId (Suc ?n) (Some i))" if "0 \<le> i" for i using that by (simp add: canonicalId_Some)
  ultimately have "\<forall>i \<ge> 0. fst (flat_get i ?s) = Inl NoRecordError"
    using lost_lines [OF n entries [unfolded es']] by (simp add: flat_get_def len)
  moreover have "FlatfileMapping_new (Some (?h @ LF # ?r)) = Inr ?s" by (rule reopen_header) simp
  ultimately show ?thesis using added by auto
qed

theorem last_identity_loses_all_witness:
  "\<exists>s' s''. flat_add ''new'' \<lparr>ff_maxSize = 6, ff_currentId = 999999, ff_file = flat_text 6 999999 [(Some 1, ''abc'')]\<rparr> = (Inr 999999, s')
    \<and> FlatfileMapping_new (Some (ff_file s')) = Inr s'' \<and> fst (flat_get 1 s'') = Inl NoRecordError"
proof -
  let ?s = "\<lparr>ff_maxSize = 6, ff_currentId = 999999, ff_file = flat_text 6 999999 [(Some 1, ''abc'')]\<rparr>"
  have "flat_ok ?s [(Some 1, ''abc'')]" "storable ''new''"
    by (simp_all add: flat_ok_def fits_def entry_ok_def entry_id_def storable_def)
  from last_identity_loses_all [OF this(1) _ this(2)] show ?thesis by force
qed

text \<open>
  A record stored under the next identity, which has not been given out, hides the one that is added afterwards; and
  removing a record that is not there is no error.
\<close>

theorem unissued_identity_shadows:
  assumes "flat_ok s es" "storable t" "storable u" "fits (ff_maxSize s) (ff_currentId s + 1)" "\<forall>e \<in> set es. fst e \<noteq> Some (ff_currentId s)"
  shows "\<exists>s' s''. flat_set (ff_currentId s) t s = (Inr (), s') \<and> flat_add u s' = (Inr (ff_currentId s), s'')
    \<and> fst (flat_get (ff_currentId s) s'') = Inr t"
proof -
  let ?k = "ff_currentId s"
  note k = flat_okD(1) [OF assms(1)]
  from flat_set_moves [OF assms(1) k assms(2)] obtain s' where s': "flat_set ?k t s = (Inr (), s')"
    "flat_ok s' (map (dashed ?k) es @ [(Some ?k, t)])" "ff_currentId s' = ?k" "ff_maxSize s' = ff_maxSize s" by blast
  from flat_add_appends [OF s'(2) assms(3)] assms(4) s'(3,4) obtain s'' where s'': "flat_add u s' = (Inr ?k, s'')"
    "flat_ok s'' ((map (dashed ?k) es @ [(Some ?k, t)]) @ [(Some ?k, u)])" by auto
  have "flat_find ((map (dashed ?k) es @ [(Some ?k, t)]) @ [(Some ?k, u)]) ?k = Some t" by (simp add: flat_find_dashed del: append_assoc)
  with flat_get_finds [OF s''(2), of ?k] k have "fst (flat_get ?k s'') = Inr t" by (simp add: fits_def)
  with s'(1) s''(1) show ?thesis by blast
qed

theorem remove_of_nothing:
  assumes "flat_ok s es" "0 \<le> i" "\<forall>e \<in> set es. fst e \<noteq> Some i"
  shows "fst (flat_get i s) = Inl NoRecordError \<and> fst (flat_remove i s) = Inr ()"
proof -
  have "flat_find es i = None" using flat_find_issued assms(3) by blast
  then show ?thesis using flat_get_finds [OF assms(1,2)] flat_remove_dashes [OF assms(1,2)] by auto
qed

end
