(* ===== verification/Spec2Isabelle.thy ===== *)
theory Spec2Isabelle
  imports PyString TimeoutQueues IrcFormatting IrcMsgs FloodQueues IrcQueue IrcStateLaws UsersCache UsersFile AccessLaws
    CallbackOrder CdbPromises TokenizerPromises SchedulePromises CallPromises DbiPromises
begin

text \<open>
  Verification of the core of the Supybot IRC bot, \<open>src/plugins/scripts/Supybot-0.83.4.1-bitcoinotc-bot/src\<close>
  (Python 2); file names below are relative to it.

  \<^bold>\<open>The program.\<close>  A driver owns a socket.  Each line from the server becomes an \<open>IrcMsg\<close> and is fed to an
  \<open>Irc\<close> object, which answers PINGs, follows its own nick, keeps the tracked state of the network
  (\<open>IrcState\<close>, \<open>ChannelState\<close>) and hands the message to the plugins, its callbacks.  They queue messages
  (\<open>IrcMsgQueue\<close>), which the driver takes one by one.  What a user may do is decided by the databases of
  users, channels and ignores (\<open>ircdb.py\<close>), kept in indented text files.  A message that is addressed to the bot is
  a command line: it is split into words and nested commands, the plugin of each command is looked up, the right to
  call it checked, and the replies of nested commands become arguments (\<open>callbacks.py\<close>).  Functions can be
  scheduled for later (\<open>schedule.py\<close>).  Below all this lie the string
  functions of IRC (\<open>ircutils.py\<close>) and the containers of \<open>utils\<close>.

  \<^bold>\<open>Conventions.\<close>  A function that may raise returns \<open>'a res\<close> (\<open>Inl\<close>: the exception class).  A method that
  changes its object returns an action \<open>('s, 'a) act\<close>: the outcome and the state at that moment, so changes made
  before an exception stay.  Strings are byte strings, lists of \<open>char\<close>.  Python's integers are \<open>int\<close>.  A dict is
  an association list with distinct keys; its order stands for the order Python happens to visit it in.  The
  clock, the configuration, random numbers, digests, \<open>eval\<close> of a flag, \<open>textwrap\<close> and the files are arguments.
  Methods behind \<open>log.firewall\<close> swallow exceptions as there.  Logging is left out.

  \<^bold>\<open>Theories.\<close>
  \<^item> \<open>Supy_Prelude\<close>, \<open>PyString\<close>: exceptions, actions, dicts, Python indexing; the string methods used.
  \<^item> \<open>Structures\<close>, \<open>TimeoutQueues\<close> (\<open>utils/structures.py\<close>): ring buffer, queues, two-way dictionary, multiset,
    bounded cache, queue with timeout; against lists and multisets, by the locales \<open>fifo\<close> and others.
  \<^item> \<open>GenCollections\<close> (\<open>utils/gen.py\<close>): dictionaries and sets with normalised keys, stable sort by key.
  \<^item> \<open>IrcUtils\<close>, \<open>IrcFormatting\<close>, \<open>FloodQueues\<close> (\<open>ircutils.py\<close>): hostmasks and their patterns, channel and nick
    names, mode strings, ban masks, DCC addresses, mIRC formatting, flood protection.
  \<^item> \<open>IrcMsgs\<close> (\<open>ircmsgs.py\<close>): the message object, its line, and the constructors of the messages.
  \<^item> \<open>IrcQueue\<close>, \<open>ChannelStates\<close>, \<open>IrcStates\<close>, \<open>IrcStateLaws\<close> (\<open>irclib.py\<close>): outgoing queue and tracked state;
    the locale \<open>state_invariant\<close> carries invariants through all handlers.
  \<^item> \<open>IrcClient\<close>, \<open>IrcLoop\<close> (\<open>irclib.py\<close>): the class \<open>Irc\<close>; its locales and laws in \<open>IrcLoopLaws\<close>,
    \<open>IrcPromises\<close>; the topological sort of the callbacks in \<open>CallbackOrder\<close>.
  \<^item> \<open>Capabilities\<close>, \<open>IrcUsers\<close>, \<open>Unpreserve\<close>, \<open>UsersDb\<close>, \<open>ChannelsDb\<close>, \<open>AccessChecks\<close> (\<open>ircdb.py\<close>,
    \<open>unpreserve.py\<close>): capabilities, users, the reader of the files, the tables and the access checks; their laws
    in \<open>UsersDbLaws\<close>, \<open>UsersFile\<close>, \<open>UsersCache\<close>, \<open>AccessLaws\<close>.
  \<^item> \<open>Cdb\<close>, \<open>CdbWriter\<close> (\<open>cdb.py\<close>): the constant database on disk, its reader, and the writable database with a
    journal.  \<open>CdbTable\<close> has the laws of the hash tables, \<open>CdbLayout\<close> the layout of a file, \<open>CdbReader\<close> what searches and
    iteration find in it, \<open>CdbTotal\<close> that it can be made; \<open>CdbJournal\<close>, \<open>CdbDurable\<close> and \<open>CdbStore\<close> (locales
    \<open>durable_store\<close>, \<open>transparent_store\<close>) follow the writable database; the properties are in \<open>CdbPromises\<close>.
  \<^item> \<open>FlatFile\<close>, \<open>Dbi\<close> (\<open>dbi.py\<close>): maps from identities to strings, in a text file and in a constant database, and the
    database of records over them.  \<open>FlatLaws\<close> follows the text of the file, \<open>RecordLaws\<close> has the round trips; \<open>DbiLaws\<close>
    states the contract of a mapping (locales \<open>id_store\<close>, \<open>removing_store\<close>), \<open>DbiPromises\<close> interprets it and has the properties.
  \<^item> \<open>Shlex\<close>, \<open>Tokenizer\<close> (\<open>shlex.py\<close>, \<open>callbacks.py\<close>, \<open>utils/str.py\<close>): the lexer as a state machine, the command
    lines with quotes, nested commands and pipes; how they read the text of a tree of commands in \<open>TokenizerLaws\<close>
    and \<open>TokenizerTexts\<close>, the properties in \<open>TokenizerPromises\<close>.
  \<^item> \<open>Addressing\<close>, \<open>Dispatch\<close>, \<open>CommandAccess\<close>, \<open>CommandCalls\<close> (\<open>callbacks.py\<close>): who is addressed and where a
    reply goes, which plugin has a command, who may call it, and the chain of proxies that evaluates nested commands.
    Laws in \<open>AddressingLaws\<close>, \<open>DispatchLaws\<close>, \<open>CallLaws\<close>; \<open>CallPromises\<close> goes from the text of a line to what is sent.
  \<^item> \<open>Heapq\<close>, \<open>Schedules\<close> (\<open>schedule.py\<close>): the heap of the standard library, proved in the locale \<open>heap_order\<close>, and the
    schedule on it; laws in \<open>ScheduleLaws\<close>, properties in \<open>SchedulePromises\<close>.

  \<^bold>\<open>What is shown.\<close>  Round trips (a message and its line, mode strings, addresses, the files of users and
  ignores, the constant database, records, command lines); invariants in every run (the tracked state, the whole connection, the schedule, disjoint hostmasks of users);
  safety (owners and anticapabilities, disabled commands, private replies, nothing enters the queue of a zombie, the rate limit of JOINs);
  liveness and termination (a PING is answered next, a dead connection is noticed, \<open>takeMsg\<close> returns, another
  nick is found, a database is made, due events are called in order, a run of the schedule returns); bounds (512 characters, 2 GB); refinement of containers, queues, of flat files, of the
  writable database, by the map that its files stand for, and of nested commands, by a recursive evaluation; and faults, each as a theorem
  about what the code does.

  \<^bold>\<open>Bounds.\<close>  \<open>takeMsg\<close> calls itself when a plugin drops a message; the model has one reading of the clock per
  call, and one reading more than messages wait is enough (\<open>takeMsg_returns\<close>).  The search for a free nick
  consumes random draws; two draws with different digits for one position are enough (\<open>next_nick_is_new\<close>).
  The search for a free slot of a table counts the slots; as a table is half empty it never runs out
  (\<open>cdb_file_returns\<close>).  The run of the schedule is a \<open>partial_function\<close>, which may not return; \<open>run_returns\<close> says when it
  does.  The chain of proxies has fuel for its nested calls and rounds, and \<open>nested_lines_run\<close> says that some amount
  is enough and more changes nothing.  Everything else terminates on its own.  A database must stay below 4 GB to be made and
  below 2 GB to be iterated; a flat file is exact up to 999,999 identities; the theorems on the writable one count three bytes of room per byte of the journal.

  \<^bold>\<open>Not modelled.\<close>  Drivers and sockets, the registry of configuration variables, the attribute plumbing of
  plugins, their help texts, regular expressions and threads (the rest of \<open>callbacks.py\<close>), the converters of
  \<open>commands.py\<close>, the plugins themselves, logging and process start, pickling and what
  rests on it (\<open>Shelf\<close>), the unused \<open>DirMapping\<close> of \<open>dbi.py\<close>; the vendored copies of this and
  other programs in the repository; the C client.  They are I/O, generated code, or glue over services.
\<close>

end
